(* ===== verification/Prelude.thy ===== *)
theory Prelude
  imports Main "HOL-Library.Word"
begin

text \<open>
  Types, error values and generic lemmas shared by every component.

  The modelled build is the default one: a 64-bit RISC-V target (\<open>POINTER_BITS\<close> is 64), every
  \<open>DEBUG_*\<close> flag 0 and the other flags as misc/defines/other.txt sets them.  On RISC-V plain
  \<open>char\<close> is unsigned, so a C character is a \<open>byte\<close>.  An array object is the list of its
  elements, and a pointer into it is the rest of the list from the position it points at; an access
  past the end of the list is the value \<open>OutOfBounds\<close>, a null pointer is \<open>None\<close>.
\<close>

unbundle bit_operations_syntax

section \<open>Machine types\<close>

type_synonym byte = "8 word"
type_synonym u16 = "16 word"
type_synonym u32 = "32 word"
type_synonym u64 = "64 word"
type_synonym addr = "64 word"

text \<open>Flags and constants of the build (common/build\_info.h, misc/defines/other.txt).\<close>

definition POINTER_BITS :: nat where "POINTER_BITS = 64"
definition BUFFER_LEN :: nat where "BUFFER_LEN = 256"
definition PROCESSES_MAXIMUM :: nat where "PROCESSES_MAXIMUM = 32"
definition HART_MAXIMUM :: nat where "HART_MAXIMUM = 9"
definition TIMER_INTERRUPT_DELAY :: u64 where "TIMER_INTERRUPT_DELAY = 10000"

section \<open>Errors as values\<close>

text \<open>
  What ends an execution other than a normal return: an access outside an object, a null
  dereference, a variadic argument that is missing or of the wrong kind, a failed \<open>assert\<close>
  (prints and exits), \<open>PANIC\<close> with its message, and a loop that never ends, as a wait for a lock that
  the same hart holds.
\<close>

datatype error =
    OutOfBounds
  | NullDeref
  | BadVarArg
  | AssertFail
  | Panic string
  | Hangs

definition bindr :: "'e + 'a \<Rightarrow> ('a \<Rightarrow> 'e + 'b) \<Rightarrow> 'e + 'b" where
  "bindr m f = (case m of Inl e \<Rightarrow> Inl e | Inr x \<Rightarrow> f x)"

lemma bindr_simps [simp]:
  "bindr (Inl e) f = Inl e"
  "bindr (Inr x) f = f x"
  by (simp_all add: bindr_def)

lemma bindr_Inr_iff: "bindr m f = Inr y \<longleftrightarrow> (\<exists>x. m = Inr x \<and> f x = Inr y)"
  by (cases m) auto

lemma bindr_InrE:
  assumes "bindr m f = Inr y" obtains x where "m = Inr x" "f x = Inr y"
  using assms by (cases m) auto

lemma bindr_pairE:
  assumes "bindr m (\<lambda>(a, b). f a b) = Inr y" obtains a b where "m = Inr (a, b)" "f a b = Inr y"
  using assms by (cases m) auto

lemma bindr_assoc: "bindr (bindr m f) g = bindr m (\<lambda>x. bindr (f x) g)"
  by (cases m) auto

lemma bindr_Inr_right [simp]: "bindr m Inr = m"
  by (cases m) auto

lemma bindr_cong [fundef_cong]:
  assumes "m = m'" and "\<And>x. m' = Inr x \<Longrightarrow> f x = g x"
  shows "bindr m f = bindr m' g"
  using assms by (cases m') auto

section \<open>Objects in memory\<close>

text \<open>\<open>deref p i\<close> is the C expression \<open>p[i]\<close>, \<open>store_at p i v\<close> the assignment \<open>p[i] = v\<close>.\<close>

definition deref :: "'a list \<Rightarrow> nat \<Rightarrow> error + 'a" where
  "deref p i = (if i < length p then Inr (p ! i) else Inl OutOfBounds)"

definition store_at :: "'a list \<Rightarrow> nat \<Rightarrow> 'a \<Rightarrow> error + 'a list" where
  "store_at p i v = (if i < length p then Inr (p[i := v]) else Inl OutOfBounds)"

lemma deref_in [simp]: "i < length p \<Longrightarrow> deref p i = Inr (p ! i)"
  by (simp add: deref_def)

lemma deref_out [simp]: "length p \<le> i \<Longrightarrow> deref p i = Inl OutOfBounds"
  by (simp add: deref_def)

lemma store_at_in [simp]: "i < length p \<Longrightarrow> store_at p i v = Inr (p[i := v])"
  by (simp add: store_at_def)

lemma store_at_out [simp]: "length p \<le> i \<Longrightarrow> store_at p i v = Inl OutOfBounds"
  by (simp add: store_at_def)

text \<open>The bytes of an ASCII literal.\<close>

definition bytes_of :: "string \<Rightarrow> byte list" where
  "bytes_of = map of_char"

section \<open>Generic lemmas\<close>

lemma list_update_take_drop:
  "i < length xs \<Longrightarrow> xs[i := v] = take i xs @ v # drop (Suc i) xs"
  by (simp add: upd_conv_take_nth_drop)

lemma take_list_update_Suc:
  "i < length xs \<Longrightarrow> take (Suc i) (xs[i := v]) = take i xs @ [v]"
  by (simp add: take_Suc_conv_app_nth)

lemma drop_list_update_Suc: "drop (Suc i) (xs[i := v]) = drop (Suc i) xs"
  by simp

lemma unat_word_add_less:
  fixes a b :: "'a::len word"
  assumes "unat a + unat b < 2 ^ LENGTH('a)"
  shows "unat (a + b) = unat a + unat b"
  using assms by (simp add: unat_word_ariths)

lemma ucast_of_nat_u32 [simp]: "(ucast (of_nat n :: u64) :: u32) = of_nat n"
  by (simp add: unsigned_of_nat word_of_nat_eq_iff)

lemma word_ten_neq_one: "(10 :: 'a::len word) \<noteq> 1"
proof -
  have "(10 :: 'a word) = 2 * 5" by simp
  then have "even (10 :: 'a word)" by (metis dvd_triv_left)
  then show ?thesis by (metis odd_one)
qed

lemma unat_div_ten_less:
  fixes d :: "'a::len word"
  assumes "0 < d"
  shows "unat (d div 10) < unat d"
proof -
  have "unat (10 :: 'a word) \<noteq> 1"
    using word_ten_neq_one [where 'a = 'a] by (metis unat_1 word_unat_eq_iff)
  with assms show ?thesis
    by (cases "unat (10 :: 'a word) = 0") (auto simp: unat_div word_less_nat_alt intro: div_less_dividend)
qed

lemma unat_minus_neg:
  fixes v :: "'a::len word"
  assumes "sint v < 0"
  shows "unat (- v) = nat (- sint v)"
proof -
  have "- (2 ^ (LENGTH('a) - 1)) \<le> sint v" by (rule sint_ge)
  moreover have "(2 :: int) ^ (LENGTH('a) - 1) < 2 ^ LENGTH('a)"
    by (rule power_strict_increasing) simp_all
  ultimately have "- sint v < 2 ^ LENGTH('a)" by linarith
  then have m: "- sint v mod 2 ^ LENGTH('a) = - sint v" using assms by simp
  have "- v = word_of_int (- sint v)" by simp
  then have "uint (- v) = - sint v mod 2 ^ LENGTH('a)"
    by (simp only: uint_word_of_int)
  with m show ?thesis by (simp add: unat_eq_nat_uint)
qed

lemma unat_nonneg:
  fixes v :: "'a::len word"
  assumes "0 \<le> sint v"
  shows "unat v = nat (sint v)"
proof -
  have "sint v < 2 ^ (LENGTH('a) - 1)" by (rule sint_lt)
  moreover have "(2 :: int) ^ (LENGTH('a) - 1) < 2 ^ LENGTH('a)"
    by (rule power_strict_increasing) simp_all
  ultimately have "sint v < 2 ^ LENGTH('a)" by linarith
  then have m: "sint v mod 2 ^ LENGTH('a) = sint v" using assms by simp
  have "v = word_of_int (sint v)" by simp
  then have "uint v = sint v mod 2 ^ LENGTH('a)"
    by (metis uint_word_of_int)
  with m show ?thesis by (simp add: unat_eq_nat_uint)
qed

lemma unat_ucast_u32_u64 [simp]: "unat (ucast (v :: u32) :: u64) = unat v"
proof -
  have "unat v < 2 ^ 64" by (rule order_less_le_trans [OF unsigned_less]) simp
  then show ?thesis by (simp add: unsigned_ucast_eq take_bit_nat_eq_self)
qed

lemma ucast_minus_u64 [simp]: "(ucast (- w :: u64) :: u32) = - ucast w"
proof -
  have "uint (ucast (- w :: u64) :: u32) = (- uint w mod 2 ^ 64) mod 2 ^ 32"
    by (simp add: unsigned_ucast_eq uint_word_arith_bintrs(4) take_bit_eq_mod)
  also have "\<dots> = - uint w mod 2 ^ 32" by (rule mod_mod_cancel) simp
  also have "\<dots> = uint (- ucast w :: u32)"
    by (simp add: unsigned_ucast_eq uint_word_arith_bintrs(4) take_bit_eq_mod mod_minus_eq)
  finally show ?thesis by (rule word_uint_eqI)
qed

end
