(* ===== verification/Libc_String.thy ===== *)
theory Libc_String
  imports Prelude
begin

text \<open>
  src/libc/string.c.  A string argument is \<open>Some\<close> of the bytes from the pointer to the end of the
  object that holds the string, or \<open>None\<close> for \<open>NULL\<close>.  A \<open>size_t\<close> is a \<open>nat\<close>: every count is
  bounded by the size of an object.
\<close>

section \<open>The functions\<close>

function memset_loop :: "byte list \<Rightarrow> byte \<Rightarrow> nat \<Rightarrow> nat \<Rightarrow> error + byte list" where
  "memset_loop buf value count i =
     (if i < count
      then bindr (store_at buf i value) (\<lambda>buf'. memset_loop buf' value count (i + 1))
      else Inr buf)"
  by pat_completeness auto
termination
  by (relation "measure (\<lambda>(buf, value, count, i). count - i)") auto

definition memset :: "byte list \<Rightarrow> byte \<Rightarrow> nat \<Rightarrow> error + byte list" where
  "memset buf value count = memset_loop buf value count 0"

function memcpy_loop :: "byte list \<Rightarrow> byte list \<Rightarrow> nat \<Rightarrow> nat \<Rightarrow> error + byte list" where
  "memcpy_loop dst src count i =
     (if i < count
      then bindr (deref src i) (\<lambda>b. bindr (store_at dst i b) (\<lambda>dst'. memcpy_loop dst' src count (i + 1)))
      else Inr dst)"
  by pat_completeness auto
termination
  by (relation "measure (\<lambda>(dst, src, count, i). count - i)") auto

definition memcpy :: "byte list \<Rightarrow> byte list \<Rightarrow> nat \<Rightarrow> error + byte list" where
  "memcpy dst src count = memcpy_loop dst src count 0"

text \<open>
  \<open>char diff = left - right\<close> is kept to eight bits and, \<open>char\<close> being unsigned, returned as a number
  between 0 and 255.
\<close>

fun strcmp_loop :: "byte list \<Rightarrow> byte list \<Rightarrow> error + int" where
  "strcmp_loop (left # lhs) (right # rhs) =
     (if left = 0 \<and> right \<noteq> 0 then Inr (-1)
      else if left \<noteq> 0 \<and> right = 0 then Inr 1
      else if left = 0 \<and> right = 0 then Inr 0
      else let diff = left - right in
        if diff \<noteq> 0 then Inr (uint diff) else strcmp_loop lhs rhs)"
| "strcmp_loop _ _ = Inl OutOfBounds"

definition strcmp :: "byte list option \<Rightarrow> byte list option \<Rightarrow> error + int" where
  "strcmp lhs rhs =
     (case (lhs, rhs) of
        (None, None) \<Rightarrow> Inr 0
      | (None, Some _) \<Rightarrow> Inr 1
      | (Some _, None) \<Rightarrow> Inr (-1)
      | (Some l, Some r) \<Rightarrow> strcmp_loop l r)"

function strncmp_loop :: "byte list \<Rightarrow> byte list \<Rightarrow> nat \<Rightarrow> nat \<Rightarrow> error + int" where
  "strncmp_loop lhs rhs count i =
     (if i < count
      then bindr (deref lhs i) (\<lambda>left. bindr (deref rhs i) (\<lambda>right.
        if left = 0 \<and> right \<noteq> 0 then Inr (-1)
        else if left \<noteq> 0 \<and> right = 0 then Inr 1
        else if left = 0 \<and> right = 0 then Inr 0
        else let diff = left - right in
          if diff \<noteq> 0 then Inr (uint diff) else strncmp_loop lhs rhs count (i + 1)))
      else Inr 0)"
  by pat_completeness auto
termination
  by (relation "measure (\<lambda>(lhs, rhs, count, i). count - i)") auto

definition strncmp :: "byte list option \<Rightarrow> byte list option \<Rightarrow> nat \<Rightarrow> error + int" where
  "strncmp lhs rhs count =
     (if count = 0 then Inr 0
      else case (lhs, rhs) of
        (None, None) \<Rightarrow> Inr 0
      | (None, Some _) \<Rightarrow> Inr 1
      | (Some _, None) \<Rightarrow> Inr (-1)
      | (Some l, Some r) \<Rightarrow> strncmp_loop l r count 0)"

fun strlen_loop :: "byte list \<Rightarrow> nat \<Rightarrow> error + nat" where
  "strlen_loop [] count = Inl OutOfBounds"
| "strlen_loop (c # str) count = (if c \<noteq> 0 then strlen_loop str (count + 1) else Inr count)"

definition strlen :: "byte list option \<Rightarrow> error + nat" where
  "strlen str = (case str of None \<Rightarrow> Inr 0 | Some s \<Rightarrow> strlen_loop s 0)"

text \<open>The loop reads \<open>*str\<close> before it looks at \<open>strsz\<close>.\<close>

fun strnlen_s_loop :: "byte list \<Rightarrow> nat \<Rightarrow> nat \<Rightarrow> error + nat" where
  "strnlen_s_loop [] strsz count = Inl OutOfBounds"
| "strnlen_s_loop (c # str) strsz count =
     (if c \<noteq> 0 \<and> strsz > 0 then strnlen_s_loop str (strsz - 1) (count + 1) else Inr count)"

definition strnlen_s :: "byte list option \<Rightarrow> nat \<Rightarrow> error + nat" where
  "strnlen_s str strsz = (case str of None \<Rightarrow> Inr 0 | Some s \<Rightarrow> strnlen_s_loop s strsz 0)"

declare memset_loop.simps [simp del] memcpy_loop.simps [simp del] strncmp_loop.simps [simp del]

section \<open>C strings\<close>

text \<open>
  \<open>cstring p s\<close>: the object that \<open>p\<close> points into holds the characters \<open>s\<close> and then a NUL.
\<close>

definition cstring :: "byte list \<Rightarrow> byte list \<Rightarrow> bool" where
  "cstring p s \<longleftrightarrow> 0 \<in> set p \<and> s = takeWhile (\<lambda>b. b \<noteq> 0) p"

lemma cstring_iff: "cstring p s \<longleftrightarrow> 0 \<notin> set s \<and> (\<exists>rest. p = s @ 0 # rest)"
proof
  assume "cstring p s"
  then have "0 \<in> set p" "s = takeWhile (\<lambda>b. b \<noteq> 0) p" by (simp_all add: cstring_def)
  moreover from this have "p = s @ 0 # tl (dropWhile (\<lambda>b. b \<noteq> 0) p)"
    by (metis (mono_tags, lifting) dropWhile_eq_Nil_conv hd_dropWhile list.collapse
        takeWhile_dropWhile_id)
  ultimately show "0 \<notin> set s \<and> (\<exists>rest. p = s @ 0 # rest)"
    by (auto dest: set_takeWhileD)
next
  assume "0 \<notin> set s \<and> (\<exists>rest. p = s @ 0 # rest)"
  moreover from this have "takeWhile (\<lambda>b. b \<noteq> 0) s = s"
    by auto
  ultimately show "cstring p s"
    by (auto simp: cstring_def takeWhile_tail)
qed

lemma cstring_Nil [simp]: "\<not> cstring [] s"
  by (simp add: cstring_def)

lemma cstring_Cons [simp]:
  "cstring (c # p) s \<longleftrightarrow> (if c = 0 then s = [] else (\<exists>s'. s = c # s' \<and> cstring p s'))"
  by (auto simp: cstring_def)

lemma cstring_append_NUL [intro]: "0 \<notin> set s \<Longrightarrow> cstring (s @ 0 # rest) s"
  by (auto simp: cstring_iff)

section \<open>memset and memcpy\<close>

lemma memset_loop_eq:
  "i \<le> n \<Longrightarrow> memset_loop buf v n i =
     (if n \<le> length buf \<or> i = n then Inr (take i buf @ replicate (n - i) v @ drop n buf)
      else Inl OutOfBounds)"
proof (induction buf v n i rule: memset_loop.induct)
  case (1 buf v n i)
  show ?case
  proof (cases "i < n \<and> i < length buf")
    case True
    then have "memset_loop (buf[i := v]) v n (i + 1) =
        (if n \<le> length buf \<or> i + 1 = n
         then Inr (take (i + 1) (buf[i := v]) @ replicate (n - (i + 1)) v @ drop n buf)
         else Inl OutOfBounds)"
      using "1.IH" [of "buf[i := v]"] by auto
    with True show ?thesis
      by (subst memset_loop.simps)
        (auto simp: take_list_update_Suc Suc_diff_Suc simp flip: replicate_Suc)
  next
    case False
    with "1.prems" show ?thesis by (subst memset_loop.simps) auto
  qed
qed

lemma memset_eq:
  "memset buf v n = (if n \<le> length buf then Inr (replicate n v @ drop n buf) else Inl OutOfBounds)"
  by (auto simp: memset_def memset_loop_eq)

lemma memcpy_loop_eq:
  "i \<le> n \<Longrightarrow> memcpy_loop dst src n i =
     (if n \<le> length dst \<and> n \<le> length src \<or> i = n
      then Inr (take i dst @ take (n - i) (drop i src) @ drop n dst)
      else Inl OutOfBounds)"
proof (induction dst src n i rule: memcpy_loop.induct)
  case (1 dst src n i)
  show ?case
  proof (cases "i < n \<and> i < length dst \<and> i < length src")
    case True
    then have "memcpy_loop (dst[i := src ! i]) src n (i + 1) =
        (if n \<le> length dst \<and> n \<le> length src \<or> i + 1 = n
         then Inr (take (i + 1) (dst[i := src ! i]) @ take (n - (i + 1)) (drop (i + 1) src) @ drop n dst)
         else Inl OutOfBounds)"
      using "1.IH" [of "src ! i" "dst[i := src ! i]"] by auto
    with True show ?thesis
      by (subst memcpy_loop.simps)
        (auto simp: take_list_update_Suc Suc_diff_Suc Cons_nth_drop_Suc [symmetric] take_Cons')
  next
    case False
    with "1.prems" show ?thesis by (subst memcpy_loop.simps) (auto simp: deref_def)
  qed
qed

lemma memcpy_eq:
  "memcpy dst src n =
     (if n \<le> length dst \<and> n \<le> length src then Inr (take n src @ drop n dst) else Inl OutOfBounds)"
  by (auto simp: memcpy_def memcpy_loop_eq)

section \<open>strlen and strnlen\_s\<close>

lemma strlen_loop_eq:
  "strlen_loop p c =
     (if 0 \<in> set p then Inr (c + length (takeWhile (\<lambda>b. b \<noteq> 0) p)) else Inl OutOfBounds)"
  by (induction p c rule: strlen_loop.induct) auto

lemma strnlen_s_loop_eq:
  "strnlen_s_loop p n c =
     (if 0 \<in> set p \<or> n < length p then Inr (c + min n (length (takeWhile (\<lambda>b. b \<noteq> 0) p)))
      else Inl OutOfBounds)"
  by (induction p n c rule: strnlen_s_loop.induct) auto

section \<open>strcmp and strncmp\<close>

text \<open>
  The order the code computes on strings without NUL: 0 on equal strings, -1 and 1 when one string
  ends first, otherwise the first difference modulo 256.
\<close>

fun strcmp_spec :: "byte list \<Rightarrow> byte list \<Rightarrow> int" where
  "strcmp_spec [] [] = 0"
| "strcmp_spec [] (_ # _) = -1"
| "strcmp_spec (_ # _) [] = 1"
| "strcmp_spec (a # s) (b # t) = (if a = b then strcmp_spec s t else uint (a - b))"

lemma strcmp_loop_spec:
  "cstring p s \<Longrightarrow> cstring q t \<Longrightarrow> strcmp_loop p q = Inr (strcmp_spec s t)"
  by (induction p q arbitrary: s t rule: strcmp_loop.induct) (auto split: if_splits)

lemma strncmp_loop_spec:
  "cstring (drop i p) s \<Longrightarrow> cstring (drop i q) t \<Longrightarrow>
     strncmp_loop p q n i = Inr (strcmp_spec (take (n - i) s) (take (n - i) t))"
proof (induction p q n i arbitrary: s t rule: strncmp_loop.induct)
  case (1 p q n i)
  show ?case
  proof (cases "i < n")
    case False
    then show ?thesis by (subst strncmp_loop.simps) simp
  next
    case True
    from "1.prems" have len: "i < length p" "i < length q"
      by (auto simp: cstring_def not_le [symmetric])
    then have dr: "drop i p = p ! i # drop (i + 1) p" "drop i q = q ! i # drop (i + 1) q"
      by (simp_all add: Cons_nth_drop_Suc)
    from True have n: "n - i = Suc (n - (i + 1))" by simp
    note step = strncmp_loop.simps [of p q n i]
    show ?thesis
    proof (cases "p ! i \<noteq> 0 \<and> p ! i = q ! i")
      case eq: True
      with "1.prems" [unfolded dr] obtain s' t' where
        st: "s = p ! i # s'" "t = q ! i # t'" "cstring (drop (i + 1) p) s'" "cstring (drop (i + 1) q) t'"
        by auto
      from "1.IH" [OF True, of "p ! i" "q ! i" 0 s' t'] eq st(3,4) len
      show ?thesis unfolding st(1,2) n using True eq by (simp add: step)
    next
      case False
      with "1.prems" [unfolded dr] True len show ?thesis
        unfolding n by (auto simp: step split: if_splits)
    qed
  qed
qed

lemma strcmp_spec_zero [simp]: "strcmp_spec s t = 0 \<longleftrightarrow> s = t"
  by (induction s t rule: strcmp_spec.induct) (auto simp: uint_0_iff)

lemma strcmp_spec_neg: "strcmp_spec s t < 0 \<longleftrightarrow> (\<exists>u. u \<noteq> [] \<and> t = s @ u)"
  by (induction s t rule: strcmp_spec.induct) (auto simp: not_less)

section \<open>Properties\<close>

text \<open>
  On two NUL-terminated strings \<open>strcmp\<close> never reads outside them, returns 0 exactly when the
  strings are equal, and a negative number exactly when the first is a proper prefix of the second.
\<close>

theorem strcmp_correct:
  assumes "cstring p s" and "cstring q t"
  shows "\<exists>r. strcmp (Some p) (Some q) = Inr r \<and> (r = 0 \<longleftrightarrow> s = t) \<and>
             (r < 0 \<longleftrightarrow> (\<exists>u. u \<noteq> [] \<and> t = s @ u))"
  using strcmp_loop_spec [OF assms] by (auto simp: strcmp_def strcmp_spec_neg)

theorem strcmp_correct_witness:
  "\<exists>r. strcmp (Some [97, 0, 7]) (Some [97, 98, 0]) = Inr r \<and> (r = 0 \<longleftrightarrow> [97 :: byte] = [97, 98]) \<and>
       (r < 0 \<longleftrightarrow> (\<exists>u. u \<noteq> [] \<and> [97, 98] = [97 :: byte] @ u))"
  by (rule strcmp_correct) simp_all

text \<open>
  \<open>strcmp\<close> does not order strings: because a difference of characters is cut to an unsigned
  \<open>char\<close>, the first of two strings counts as the larger one in both argument orders, whatever the
  first differing characters are.
\<close>

theorem strcmp_not_an_order:
  assumes "cstring p (u @ a # s)" and "cstring q (u @ b # t)" and "a \<noteq> b"
  shows "\<exists>r r'. strcmp (Some p) (Some q) = Inr r \<and> strcmp (Some q) (Some p) = Inr r' \<and> 0 < r \<and> 0 < r'"
proof -
  have pos: "0 < strcmp_spec (u @ c # s') (u @ d # t')" if "c \<noteq> d" for c d :: byte and s' t'
    using that by (induction u) (auto simp: uint_0_iff order.strict_iff_order eq_commute [of 0])
  show ?thesis
    using strcmp_loop_spec [OF assms(1,2)] strcmp_loop_spec [OF assms(2,1)]
      pos [OF assms(3)] pos [OF assms(3) [symmetric]]
    by (auto simp: strcmp_def)
qed

theorem strcmp_not_an_order_witness:
  "\<exists>r r'. strcmp (Some [97, 0]) (Some [98, 0]) = Inr r \<and> strcmp (Some [98, 0]) (Some [97, 0]) = Inr r' \<and>
      0 < r \<and> 0 < r'"
  by (rule strcmp_not_an_order [of _ "[]" 97 "[]" _ 98 "[]"]) simp_all

text \<open>
  \<open>strnlen_s\<close> returns the smaller of the bound and the string's length, but reads one character
  more than the bound allows: on an object of \<open>strsz\<close> bytes or fewer without a NUL it reads past
  the object's end.
\<close>

theorem strnlen_s_correct:
  "strnlen_s (Some p) strsz =
     (if 0 \<in> set p \<or> strsz < length p
      then Inr (min strsz (length (takeWhile (\<lambda>b. b \<noteq> 0) p)))
      else Inl OutOfBounds)"
  by (simp add: strnlen_s_def strnlen_s_loop_eq)

lemma strlen_correct: "cstring p s \<Longrightarrow> strlen (Some p) = Inr (length s)"
  by (simp add: strlen_def strlen_loop_eq cstring_def)

lemma strncmp_correct:
  assumes "cstring p s" and "cstring q t"
  shows "strncmp (Some p) (Some q) n = Inr (strcmp_spec (take n s) (take n t))"
  using strncmp_loop_spec [of 0 p s q t n] assms by (simp add: strncmp_def)

end
