(* ===== verification/Libc_Stdlib.thy ===== *)
theory Libc_Stdlib
  imports Libc_String
begin

text \<open>
  src/libc/stdlib.c: \<open>parse\<close> and the \<open>ato*\<close> family.  A pointer is the rest of the string's object;
  \<open>int64_t\<close> arithmetic is kept to 64 bits (an overflow of the signed type is undefined in C; the
  model wraps, and the properties stay below it or state the wrapped value).
\<close>

section \<open>The functions\<close>

definition whitespace :: "byte \<Rightarrow> bool" where
  "whitespace ch \<longleftrightarrow> ch = 32 \<or> ch = 10 \<or> ch = 9"

text \<open>The first loop; \<open>Inr None\<close> is its early \<open>return 0\<close>.\<close>

fun parse_skip_whitespace :: "byte list \<Rightarrow> error + byte list option" where
  "parse_skip_whitespace [] = Inl OutOfBounds"
| "parse_skip_whitespace (c # str) =
     (if whitespace c then (if c = 0 then Inr None else parse_skip_whitespace str)
      else Inr (Some (c # str)))"

text \<open>The sign: whether the number is negative, and the pointer after the sign.\<close>

fun parse_sign :: "byte list \<Rightarrow> error + bool \<times> byte list" where
  "parse_sign [] = Inl OutOfBounds"
| "parse_sign (c # str) =
     (if c = 43 then Inr (False, str)
      else if c = 45 then Inr (True, str)
      else Inr (False, c # str))"

text \<open>How far \<open>end_str\<close> moves past \<open>str\<close>.\<close>

fun parse_end :: "byte list \<Rightarrow> nat \<Rightarrow> error + nat" where
  "parse_end [] k = Inl OutOfBounds"
| "parse_end (c # str) k =
     (if c \<noteq> 0 then
        (if whitespace c then Inr k
         else if c < 48 \<or> c > 57 then Inr k
         else parse_end str (k + 1))
      else Inr k)"

text \<open>The backward loop over the digits, given in the order the loop visits them.\<close>

fun parse_digits :: "byte list \<Rightarrow> u64 \<Rightarrow> u64 \<Rightarrow> u64" where
  "parse_digits [] value multiplier = value"
| "parse_digits (ch # chs) value multiplier =
     parse_digits chs (value + (ucast ch - 48) * multiplier) (multiplier * 10)"

definition parse :: "byte list \<Rightarrow> error + u64" where
  "parse str =
     bindr (parse_skip_whitespace str) (\<lambda>r.
       case r of None \<Rightarrow> Inr 0
       | Some str1 \<Rightarrow> bindr (parse_sign str1) (\<lambda>(negative, str2).
           bindr (parse_end str2 0) (\<lambda>k.
             if k = 0 then Inr 0
             else let value = parse_digits (rev (take k str2)) 0 1 in
               Inr (if negative then - value else value))))"

definition atoi :: "byte list \<Rightarrow> error + u32" where
  "atoi str = bindr (parse str) (\<lambda>v. Inr (ucast v))"

definition atol :: "byte list \<Rightarrow> error + u64" where
  "atol str = parse str"

definition atoll :: "byte list \<Rightarrow> error + u64" where
  "atoll str = parse str"

section \<open>Decimal digits\<close>

definition is_digit :: "byte \<Rightarrow> bool" where
  "is_digit c \<longleftrightarrow> 48 \<le> c \<and> c \<le> 57"

definition digit_value :: "byte \<Rightarrow> nat" where
  "digit_value c = unat c - 48"

definition digit_char :: "nat \<Rightarrow> byte" where
  "digit_char d = of_nat (if d < 10 then 48 + d else 87 + d)"

text \<open>The number a digit string denotes, most significant digit first.\<close>

fun decimal_value :: "byte list \<Rightarrow> nat" where
  "decimal_value [] = 0"
| "decimal_value (c # cs) = digit_value c * 10 ^ length cs + decimal_value cs"

text \<open>The digits of a number in base \<open>b\<close> (lower case past 9), without leading zeros.\<close>

function radix :: "nat \<Rightarrow> nat \<Rightarrow> byte list" where
  "radix b n = (if n < b \<or> b < 2 then [digit_char n] else radix b (n div b) @ [digit_char (n mod b)])"
  by pat_completeness auto
termination
  by (relation "measure snd") auto

declare radix.simps [simp del]

lemma decimal_value_append:
  "decimal_value (xs @ ys) = decimal_value xs * 10 ^ length ys + decimal_value ys"
  by (induction xs) (simp_all add: power_add algebra_simps)

lemma unat_digit_char: "d < 10 \<Longrightarrow> unat (digit_char d) = 48 + d"
  by (simp add: digit_char_def unat_of_nat del: of_nat_add)

lemma digit_value_char [simp]: "d < 10 \<Longrightarrow> digit_value (digit_char d) = d"
  by (simp add: digit_value_def unat_digit_char)

lemma is_digit_char [simp]: "d < 10 \<Longrightarrow> is_digit (digit_char d)"
  by (simp add: is_digit_def word_le_nat_alt unat_digit_char)

lemma radix_not_Nil [simp]: "radix b n \<noteq> []"
  by (subst radix.simps) simp

lemma radix_small: "n < b \<Longrightarrow> radix b n = [digit_char n]"
  by (subst radix.simps) simp

lemma radix_step: "b \<le> n \<Longrightarrow> 2 \<le> b \<Longrightarrow> radix b n = radix b (n div b) @ [digit_char (n mod b)]"
  by (subst radix.simps) simp

lemma decimal_digits: "c \<in> set (radix 10 n) \<Longrightarrow> is_digit c"
proof (induction n rule: less_induct)
  case (less n)
  then show ?case
    using less.IH [of "n div 10"] by (cases "n < 10") (auto simp: radix_small radix_step)
qed

lemma decimal_value_radix [simp]: "decimal_value (radix 10 n) = n"
proof (induction n rule: less_induct)
  case (less n)
  then show ?case
    by (cases "n < 10") (auto simp: radix_small radix_step decimal_value_append)
qed

lemma is_digit_no_whitespace: "is_digit c \<Longrightarrow> \<not> whitespace c \<and> c \<noteq> 0 \<and> \<not> c < 48 \<and> \<not> c > 57"
  by (auto simp: is_digit_def whitespace_def)

section \<open>The loops on a number\<close>

lemma parse_skip_whitespace_ws:
  "\<forall>w\<in>set ws. whitespace w \<Longrightarrow> \<not> whitespace c \<Longrightarrow>
     parse_skip_whitespace (ws @ c # str) = Inr (Some (c # str))"
  by (induction ws) (auto simp: whitespace_def)

lemma parse_end_digits:
  "\<forall>d\<in>set ds. is_digit d \<Longrightarrow> \<not> is_digit c \<Longrightarrow> parse_end (ds @ c # rest) k = Inr (k + length ds)"
proof (induction ds arbitrary: k)
  case Nil
  then show ?case by (auto simp: is_digit_def not_less not_le)
next
  case (Cons d ds)
  then show ?case using is_digit_no_whitespace [of d] by simp
qed

lemma ucast_digit: "is_digit c \<Longrightarrow> ucast c - 48 = (of_nat (digit_value c) :: u64)"
proof -
  assume "is_digit c"
  then have "48 \<le> unat c" by (simp add: is_digit_def word_le_nat_alt)
  then have "(of_nat (unat c - 48) :: u64) = of_nat (unat c) - 48" by simp
  then show ?thesis by (simp add: digit_value_def)
qed

lemma parse_digits_value:
  "\<forall>d\<in>set ds. is_digit d \<Longrightarrow> parse_digits (rev ds) v m = v + m * of_nat (decimal_value ds)"
proof (induction ds arbitrary: v m rule: rev_induct)
  case Nil
  then show ?case by simp
next
  case (snoc c ds)
  then show ?case by (simp add: decimal_value_append ucast_digit algebra_simps)
qed

lemma hd_digit_sign: "is_digit d \<Longrightarrow> parse_sign (d # ds) = Inr (False, d # ds)"
  by (auto simp: is_digit_def word_le_nat_alt)

lemma parse_unsigned_part:
  assumes "\<forall>d\<in>set ds. is_digit d" and "\<not> is_digit c"
  shows "bindr (parse_end (ds @ c # rest) 0) (\<lambda>k.
           if k = 0 then Inr 0
           else let value = parse_digits (rev (take k (ds @ c # rest))) 0 1 in
             Inr (if neg then - value else value)) =
         (Inr (if neg then - of_nat (decimal_value ds) else of_nat (decimal_value ds)) :: error + u64)"
  using assms by (auto simp: parse_end_digits parse_digits_value Let_def)

lemma parse_signed_number:
  assumes "\<forall>w\<in>set ws. whitespace w" and "sg \<in> {[], [43], [45]}"
    and "ds \<noteq> []" and "\<forall>d\<in>set ds. is_digit d" and "\<not> is_digit c"
  shows "parse (ws @ sg @ ds @ c # rest) =
     Inr (if sg = [45] then - of_nat (decimal_value ds) else of_nat (decimal_value ds))"
proof -
  obtain d ds' where ds: "ds = d # ds'" using assms(3) by (cases ds) auto
  with assms(4) have d: "is_digit d" by simp
  note part = parse_unsigned_part [OF assms(4,5)]
  have skip: "parse_skip_whitespace (ws @ sg @ ds @ c # rest) = Inr (Some (sg @ ds @ c # rest))"
    using assms(1,2) parse_skip_whitespace_ws [of ws] is_digit_no_whitespace [OF d]
    by (auto simp: ds whitespace_def)
  have sign: "parse_sign (sg @ ds @ c # rest) = Inr (sg = [45], ds @ c # rest)"
    using assms(2) hd_digit_sign [OF d] by (auto simp: ds)
  show ?thesis
    by (simp only: parse_def skip sign bindr_simps option.case prod.case part)
qed

text \<open>
  \<open>parse\<close> of optional whitespace, an optional sign and at least one digit is the number the
  digits denote, negated after a minus sign, modulo 2^64; everything from the first non-digit on
  is ignored, and nothing outside the string is read.
\<close>

theorem parse_number:
  assumes "\<forall>w\<in>set ws. whitespace w" and "sg \<in> {[], [43], [45]}"
    and "ds \<noteq> []" and "\<forall>d\<in>set ds. is_digit d" and "\<not> is_digit c"
  shows "parse (ws @ sg @ ds @ c # rest) =
     Inr (if sg = [45] then - of_nat (decimal_value ds) else of_nat (decimal_value ds))"
  using assms by (rule parse_signed_number)

theorem parse_number_witness:
  "parse ([32, 9] @ [45] @ [49, 50] @ 0 # []) = Inr (- 12)"
  using parse_number [of "[32, 9]" "[45]" "[49, 50]" 0 "[]"]
  by (simp add: whitespace_def is_digit_def digit_value_def)

text \<open>
  Where there is no number, as in an empty string, blanks only, or a sign with no digit after
  it, the result is 0 and no byte past the NUL is read.
\<close>

theorem parse_no_number:
  assumes "\<forall>w\<in>set ws. whitespace w" and "sg \<in> {[], [43], [45]}"
    and "\<not> is_digit c" and "sg = [] \<Longrightarrow> \<not> whitespace c \<and> c \<noteq> 43 \<and> c \<noteq> 45"
  shows "parse (ws @ sg @ c # rest) = Inr 0"
proof -
  have skip: "parse_skip_whitespace (ws @ sg @ c # rest) = Inr (Some (sg @ c # rest))"
    using assms(1,2,4) parse_skip_whitespace_ws [of ws] by (auto simp: whitespace_def)
  have sign: "parse_sign (sg @ c # rest) = Inr (sg = [45], c # rest)"
    using assms(2,4) by auto
  show ?thesis
    using parse_end_digits [of "[]" c rest 0] assms(3) by (simp add: parse_def skip sign)
qed

theorem parse_no_number_witness: "parse ([32] @ [43] @ 43 # [49, 0]) = Inr 0"
  by (rule parse_no_number) (simp_all add: whitespace_def is_digit_def)

lemma atoi_number:
  assumes "ds \<noteq> []" and "\<forall>d\<in>set ds. is_digit d" and "\<not> is_digit c"
  shows "atoi (ds @ c # rest) = Inr (of_nat (decimal_value ds))"
  using parse_signed_number [of "[]" "[]" ds c rest] assms by (simp add: atoi_def)

lemma atoi_negative_number:
  assumes "ds \<noteq> []" and "\<forall>d\<in>set ds. is_digit d" and "\<not> is_digit c"
  shows "atoi (45 # ds @ c # rest) = Inr (- of_nat (decimal_value ds))"
  using parse_signed_number [of "[]" "[45]" ds c rest] assms by (simp add: atoi_def)

lemma length_radix: "2 \<le> b \<Longrightarrow> n < b ^ Suc k \<Longrightarrow> length (radix b n) \<le> Suc k"
proof (induction k arbitrary: n)
  case 0
  then show ?case by (simp add: radix_small)
next
  case (Suc k)
  show ?case
  proof (cases "n < b")
    case True
    then show ?thesis by (simp add: radix_small)
  next
    case False
    moreover have "n div b < b ^ Suc k"
      using Suc.prems by (simp add: div_less_iff_less_mult mult.commute)
    ultimately show ?thesis using Suc by (simp add: radix_step)
  qed
qed

end
