(* ===== verification/Libc_Stdio.thy ===== *)
theory Libc_Stdio
  imports Libc_Stdlib
begin

text \<open>
  src/libc/stdio.c: the print functions.  A \<open>FILE*\<close> is an opaque handle \<open>'f\<close>, and \<open>fputc\<close>, which
  the kernel and the user library each define, is an argument of the definitions: it takes the
  character, the handle and everything it may change (the \<open>world\<close>).  A variadic argument is one
  64-bit register slot or a \<open>char*\<close>.  The steps that may fail return \<open>error + state\<close>.
\<close>

section \<open>Data\<close>

datatype vararg = VWord u64 | VStr "byte list"

type_synonym ('f, 'w) fputc_fun = "u32 \<Rightarrow> 'f \<Rightarrow> 'w \<Rightarrow> error + u32 \<times> 'w"

text \<open>\<open>TargetBuffer a i\<close> is the array \<open>a\<close> with the cursor at \<open>a + i\<close>.\<close>

datatype 'f PrintTarget = TargetBuffer "byte list" nat | TargetStream 'f

record MaxOutput =
  enabled :: bool
  maximum :: u64

definition NO_MAX_OUTPUT :: MaxOutput where
  "NO_MAX_OUTPUT = \<lparr>enabled = False, maximum = 0\<rparr>"

record ConversionSpec =
  long_modifiers :: byte
  zero_pad :: bool
  left_justify :: bool
  alternative :: bool
  min_width_chars :: "byte list option"
  min_width :: u32

definition ConversionSpec_zero :: ConversionSpec where
  "ConversionSpec_zero = \<lparr>long_modifiers = 0, zero_pad = False, left_justify = False,
     alternative = False, min_width_chars = None, min_width = 0\<rparr>"

record ('f, 'w) PrintState =
  in_conversion_spec :: bool
  conversion :: ConversionSpec
  printed :: u32
  target :: "'f PrintTarget"
  arguments :: "vararg list"
  max_output :: MaxOutput
  world :: 'w

definition ConversionSpec_value_is_32bit :: "ConversionSpec \<Rightarrow> bool" where
  "ConversionSpec_value_is_32bit spec \<longleftrightarrow>
     (POINTER_BITS = 32 \<and> long_modifiers spec < 2) \<or>
     (POINTER_BITS = 64 \<and> long_modifiers spec = 0)"

text \<open>\<open>va_arg\<close> at the integer types and at \<open>char*\<close>.\<close>

fun va_arg_64 :: "vararg list \<Rightarrow> error + u64 \<times> vararg list" where
  "va_arg_64 (VWord w # args) = Inr (w, args)"
| "va_arg_64 _ = Inl BadVarArg"

definition va_arg_32 :: "vararg list \<Rightarrow> error + u32 \<times> vararg list" where
  "va_arg_32 args = bindr (va_arg_64 args) (\<lambda>(w, rest). Inr (ucast w, rest))"

fun va_arg_str :: "vararg list \<Rightarrow> error + byte list \<times> vararg list" where
  "va_arg_str (VStr s # args) = Inr (s, args)"
| "va_arg_str _ = Inl BadVarArg"

section \<open>Output of one character\<close>

fun PrintTarget_putchar ::
    "('f, 'w) fputc_fun \<Rightarrow> 'f PrintTarget \<Rightarrow> u32 \<Rightarrow> 'w \<Rightarrow> error + 'f PrintTarget \<times> 'w" where
  "PrintTarget_putchar fputc (TargetBuffer buffer i) character w =
     bindr (store_at buffer i (ucast character)) (\<lambda>buffer'. Inr (TargetBuffer buffer' (i + 1), w))"
| "PrintTarget_putchar fputc (TargetStream stream) character w =
     bindr (fputc character stream w) (\<lambda>(_, w'). Inr (TargetStream stream, w'))"

definition PrintState_reset :: "('f, 'w) PrintState \<Rightarrow> ('f, 'w) PrintState" where
  "PrintState_reset state =
     \<lparr>in_conversion_spec = False, conversion = ConversionSpec_zero, printed = printed state,
      target = target state, arguments = arguments state, max_output = max_output state,
      world = world state\<rparr>"

definition putchar_maybe_max ::
    "('f, 'w) fputc_fun \<Rightarrow> ('f, 'w) PrintState \<Rightarrow> u32 \<Rightarrow> error + ('f, 'w) PrintState" where
  "putchar_maybe_max fputc state character =
     bindr (if \<not> enabled (max_output state) \<or>
               (maximum (max_output state) \<noteq> 0 \<and>
                maximum (max_output state) - 1 > scast (printed state))
            then bindr (PrintTarget_putchar fputc (target state) character (world state))
                   (\<lambda>(t, w). Inr (state\<lparr>target := t, world := w\<rparr>))
            else Inr state)
       (\<lambda>state'. Inr (state'\<lparr>printed := printed state' + 1\<rparr>))"

definition putchar_maybe_minwidth ::
    "('f, 'w) fputc_fun \<Rightarrow> ('f, 'w) PrintState \<Rightarrow> u32 \<Rightarrow> error + ('f, 'w) PrintState" where
  "putchar_maybe_minwidth fputc state character =
     (if min_width (conversion state) = 0 then putchar_maybe_max fputc state character
      else Inr (state\<lparr>printed := printed state + 1\<rparr>))"

section \<open>Conversions\<close>

definition print_char ::
    "('f, 'w) fputc_fun \<Rightarrow> ('f, 'w) PrintState \<Rightarrow> error + ('f, 'w) PrintState" where
  "print_char fputc state =
     bindr (va_arg_32 (arguments state)) (\<lambda>(ch, args).
       putchar_maybe_minwidth fputc (state\<lparr>arguments := args\<rparr>) ch)"

fun print_string_loop ::
    "('f, 'w) fputc_fun \<Rightarrow> ('f, 'w) PrintState \<Rightarrow> byte list \<Rightarrow> error + ('f, 'w) PrintState" where
  "print_string_loop fputc state [] = Inl OutOfBounds"
| "print_string_loop fputc state (c # str) =
     (if c \<noteq> 0
      then bindr (putchar_maybe_minwidth fputc state (ucast c))
             (\<lambda>state'. print_string_loop fputc state' str)
      else Inr state)"

definition print_string ::
    "('f, 'w) fputc_fun \<Rightarrow> ('f, 'w) PrintState \<Rightarrow> error + ('f, 'w) PrintState" where
  "print_string fputc state =
     bindr (va_arg_str (arguments state)) (\<lambda>(str, args).
       print_string_loop fputc (state\<lparr>arguments := args\<rparr>) str)"

text \<open>
  The loops of \<open>print_hex\<close> and \<open>print_binary\<close>: the last argument is \<open>shift + 1\<close>, so 0 is the end of
  \<open>for (; shift >= 0; shift--)\<close>.
\<close>

fun print_hex_loop ::
    "('f, 'w) fputc_fun \<Rightarrow> ('f, 'w) PrintState \<Rightarrow> u64 \<Rightarrow> bool \<Rightarrow> nat \<Rightarrow>
      error + ('f, 'w) PrintState" where
  "print_hex_loop fputc state value started 0 = Inr state"
| "print_hex_loop fputc state value started (Suc shift) =
     (let place_value = drop_bit (shift * 4) value AND 0xf in
      if place_value = 0 \<and> \<not> started \<and> shift \<noteq> 0
      then print_hex_loop fputc state value started shift
      else let ascii = (if place_value \<le> 9 then 48 + place_value else 97 + place_value - 10) in
        bindr (putchar_maybe_minwidth fputc state (ucast ascii))
          (\<lambda>state'. print_hex_loop fputc state' value True shift))"

definition print_hex ::
    "('f, 'w) fputc_fun \<Rightarrow> ('f, 'w) PrintState \<Rightarrow> error + ('f, 'w) PrintState" where
  "print_hex fputc state =
     (let use_32 = ConversionSpec_value_is_32bit (conversion state) in
      bindr (if use_32
             then bindr (va_arg_32 (arguments state)) (\<lambda>(v, args). Inr (ucast v, 8, args))
             else bindr (va_arg_64 (arguments state)) (\<lambda>(v, args). Inr (v, 16, args)))
        (\<lambda>(value, shift1, args).
          let state1 = state\<lparr>arguments := args\<rparr> in
          bindr (if alternative (conversion state1)
                 then bindr (putchar_maybe_minwidth fputc state1 48)
                        (\<lambda>s. putchar_maybe_minwidth fputc s 120)
                 else Inr state1)
            (\<lambda>state2. print_hex_loop fputc state2 value False shift1)))"

fun print_binary_loop ::
    "('f, 'w) fputc_fun \<Rightarrow> ('f, 'w) PrintState \<Rightarrow> u64 \<Rightarrow> bool \<Rightarrow> nat \<Rightarrow>
      error + ('f, 'w) PrintState" where
  "print_binary_loop fputc state value started 0 = Inr state"
| "print_binary_loop fputc state value started (Suc shift) =
     (let place_value = drop_bit shift value AND 0x1 in
      if place_value = 0 \<and> \<not> started \<and> shift \<noteq> 0
      then print_binary_loop fputc state value started shift
      else let ascii = (if place_value \<noteq> 0 then 49 else 48) in
        bindr (putchar_maybe_minwidth fputc state ascii)
          (\<lambda>state'. print_binary_loop fputc state' value True shift))"

definition print_binary ::
    "('f, 'w) fputc_fun \<Rightarrow> ('f, 'w) PrintState \<Rightarrow> error + ('f, 'w) PrintState" where
  "print_binary fputc state =
     (let use_32 = ConversionSpec_value_is_32bit (conversion state) in
      bindr (if use_32
             then bindr (va_arg_32 (arguments state)) (\<lambda>(v, args). Inr (ucast v, 32, args))
             else bindr (va_arg_64 (arguments state)) (\<lambda>(v, args). Inr (v, 64, args)))
        (\<lambda>(value, shift1, args).
          let state1 = state\<lparr>arguments := args\<rparr> in
          bindr (if alternative (conversion state1)
                 then bindr (putchar_maybe_minwidth fputc state1 48)
                        (\<lambda>s. putchar_maybe_minwidth fputc s 98)
                 else Inr state1)
            (\<lambda>state2. print_binary_loop fputc state2 value False shift1)))"

text \<open>
  \<open>DECLARE_PRINT_UNSIGNED_X\<close>: one definition for the two word types the macro is used at.
\<close>

function print_unsigned_loop ::
    "('f, 'w) fputc_fun \<Rightarrow> ('f, 'w) PrintState \<Rightarrow> 'a::len word \<Rightarrow> 'a word \<Rightarrow> bool \<Rightarrow>
      error + ('f, 'w) PrintState" where
  "print_unsigned_loop fputc state value divisor started =
     (if divisor > 0 then
        if value \<ge> divisor
        then let digit = value div divisor in
          bindr (putchar_maybe_minwidth fputc state (ucast (48 + digit)))
            (\<lambda>state'. print_unsigned_loop fputc state' (value - digit * divisor) (divisor div 10) True)
        else if started
        then bindr (putchar_maybe_minwidth fputc state 48)
          (\<lambda>state'. print_unsigned_loop fputc state' value (divisor div 10) started)
        else print_unsigned_loop fputc state value (divisor div 10) started
      else Inr state)"
  by pat_completeness auto

termination
  by (relation "measure (\<lambda>(f, state, value, divisor, started). unat divisor)")
    (auto intro: unat_div_ten_less)

declare print_unsigned_loop.simps [simp del]

definition print_unsigned_type ::
    "('f, 'w) fputc_fun \<Rightarrow> 'a::len word \<Rightarrow> ('f, 'w) PrintState \<Rightarrow> 'a word \<Rightarrow>
      error + ('f, 'w) PrintState" where
  "print_unsigned_type fputc starting_divisor state value =
     (if value = 0 then putchar_maybe_minwidth fputc state 48
      else print_unsigned_loop fputc state value starting_divisor False)"

definition print_unsigned_uint32_t ::
    "('f, 'w) fputc_fun \<Rightarrow> ('f, 'w) PrintState \<Rightarrow> u32 \<Rightarrow> error + ('f, 'w) PrintState" where
  "print_unsigned_uint32_t fputc = print_unsigned_type fputc 1000000000"

definition print_unsigned_uint64_t ::
    "('f, 'w) fputc_fun \<Rightarrow> ('f, 'w) PrintState \<Rightarrow> u64 \<Rightarrow> error + ('f, 'w) PrintState" where
  "print_unsigned_uint64_t fputc = print_unsigned_type fputc 10000000000000000000"

definition print_unsigned ::
    "('f, 'w) fputc_fun \<Rightarrow> ('f, 'w) PrintState \<Rightarrow> error + ('f, 'w) PrintState" where
  "print_unsigned fputc state =
     (if \<not> ConversionSpec_value_is_32bit (conversion state)
      then bindr (va_arg_64 (arguments state)) (\<lambda>(value, args).
        print_unsigned_uint64_t fputc (state\<lparr>arguments := args\<rparr>) value)
      else bindr (va_arg_32 (arguments state)) (\<lambda>(value, args).
        print_unsigned_uint32_t fputc (state\<lparr>arguments := args\<rparr>) value))"

text \<open>\<open>value *= -1\<close> wraps at the least value of the type, which the cast to unsigned then reads.\<close>

definition print_signed ::
    "('f, 'w) fputc_fun \<Rightarrow> ('f, 'w) PrintState \<Rightarrow> error + ('f, 'w) PrintState" where
  "print_signed fputc state =
     (if \<not> ConversionSpec_value_is_32bit (conversion state)
      then bindr (va_arg_64 (arguments state)) (\<lambda>(value, args).
        let state1 = state\<lparr>arguments := args\<rparr> in
        if sint value < 0
        then bindr (putchar_maybe_minwidth fputc state1 45)
          (\<lambda>state2. print_unsigned_uint64_t fputc state2 (value * -1))
        else print_unsigned_uint64_t fputc state1 value)
      else bindr (va_arg_32 (arguments state)) (\<lambda>(value, args).
        let state1 = state\<lparr>arguments := args\<rparr> in
        if sint value < 0
        then bindr (putchar_maybe_minwidth fputc state1 45)
          (\<lambda>state2. print_unsigned_uint32_t fputc state2 (value * -1))
        else print_unsigned_uint32_t fputc state1 value))"

section \<open>Padding\<close>

fun print_padding ::
    "('f, 'w) fputc_fun \<Rightarrow> ('f, 'w) PrintState \<Rightarrow> nat \<Rightarrow> error + ('f, 'w) PrintState" where
  "print_padding fputc state 0 = Inr state"
| "print_padding fputc state (Suc amount) =
     bindr (putchar_maybe_max fputc state (if zero_pad (conversion state) then 48 else 32))
       (\<lambda>state'. print_padding fputc state' amount)"

text \<open>
  \<open>func\<close> is called once with a minimum width, when it only counts, and then again, after its
  arguments and the count are restored, with the width 0.
\<close>

definition min_width_call ::
    "('f, 'w) fputc_fun \<Rightarrow> ('f, 'w) PrintState \<Rightarrow>
      (('f, 'w) PrintState \<Rightarrow> error + ('f, 'w) PrintState) \<Rightarrow> error + ('f, 'w) PrintState" where
  "min_width_call fputc state func =
     (if sint (min_width (conversion state)) > 0 then
        let requested = min_width (conversion state); old_printed = printed state in
        if \<not> left_justify (conversion state) then
          let backup = arguments state in
          bindr (func state) (\<lambda>state1.
            let fake_printed = printed state1 - old_printed;
                state2 = state1\<lparr>printed := old_printed, arguments := backup\<rparr> in
            bindr (if sint requested > sint fake_printed
                   then print_padding fputc state2 (unat (requested - fake_printed))
                   else Inr state2)
              (\<lambda>state3. func (state3\<lparr>conversion := (conversion state3)\<lparr>min_width := 0\<rparr>\<rparr>)))
        else
          bindr (func (state\<lparr>conversion := (conversion state)\<lparr>min_width := 0\<rparr>\<rparr>)) (\<lambda>state1.
            let new_printed = printed state1 - old_printed in
            if sint requested > sint new_printed
            then print_padding fputc state1 (unat (requested - new_printed))
            else Inr state1)
      else func state)"

section \<open>The format string\<close>

definition handle_conversion_spec ::
    "('f, 'w) fputc_fun \<Rightarrow> byte \<Rightarrow> ('f, 'w) PrintState \<Rightarrow> error + ('f, 'w) PrintState" where
  "handle_conversion_spec fputc character state =
     (let conversion_call = (\<lambda>func. bindr (min_width_call fputc state func)
                                     (\<lambda>s. Inr (PrintState_reset s))) in
      if character = 0 then Inr state
      else if character = 35
      then Inr (state\<lparr>conversion := (conversion state)\<lparr>alternative := True\<rparr>\<rparr>)
      else if character = 108
      then Inr (state\<lparr>conversion := (conversion state)
                       \<lparr>long_modifiers := long_modifiers (conversion state) + 1\<rparr>\<rparr>)
      else if character = 42
      then bindr (va_arg_32 (arguments state)) (\<lambda>(width, args).
        Inr (state\<lparr>arguments := args, conversion := (conversion state)\<lparr>min_width := width\<rparr>\<rparr>))
      else if character = 45
      then Inr (state\<lparr>conversion := (conversion state)\<lparr>left_justify := True\<rparr>\<rparr>)
      else if character = 37
      then bindr (putchar_maybe_max fputc state 37) (\<lambda>s. Inr (PrintState_reset s))
      else if character = 99 then conversion_call (print_char fputc)
      else if character = 115 then conversion_call (print_string fputc)
      else if character = 120 then conversion_call (print_hex fputc)
      else if character = 98 then conversion_call (print_binary fputc)
      else if character = 105 \<or> character = 100 then conversion_call (print_signed fputc)
      else if character = 117 then conversion_call (print_unsigned fputc)
      else if character = 112
      then let (longs, width) = (if POINTER_BITS = 64 then (1, 16) else (0, 8));
               state1 = state\<lparr>conversion := (conversion state)
                 \<lparr>long_modifiers := longs, min_width := width, zero_pad := True\<rparr>\<rparr> in
        bindr (putchar_maybe_max fputc state1 48) (\<lambda>state2.
        bindr (putchar_maybe_max fputc state2 120) (\<lambda>state3.
        bindr (min_width_call fputc state3 (print_hex fputc)) (\<lambda>s. Inr (PrintState_reset s))))
      else Inr state)"

text \<open>The loop of \<open>PrintTarget_do_print\<close> over the format string.\<close>

fun do_print_loop ::
    "('f, 'w) fputc_fun \<Rightarrow> ('f, 'w) PrintState \<Rightarrow> byte list \<Rightarrow> error + ('f, 'w) PrintState" where
  "do_print_loop fputc state [] = Inl OutOfBounds"
| "do_print_loop fputc state (c # format_str) =
     (if c = 0 then Inr state
      else if \<not> in_conversion_spec state then
        if c = 37 then do_print_loop fputc (state\<lparr>in_conversion_spec := True\<rparr>) format_str
        else bindr (putchar_maybe_max fputc state (ucast c))
               (\<lambda>state'. do_print_loop fputc state' format_str)
      else if \<not> zero_pad (conversion state) \<and> min_width_chars (conversion state) = None \<and> c = 48
      then do_print_loop fputc (state\<lparr>conversion := (conversion state)\<lparr>zero_pad := True\<rparr>\<rparr>) format_str
      else if 48 \<le> c \<and> c \<le> 57
      then do_print_loop fputc
             (if min_width_chars (conversion state) = None
              then state\<lparr>conversion := (conversion state)\<lparr>min_width_chars := Some (c # format_str)\<rparr>\<rparr>
              else state) format_str
      else bindr (case min_width_chars (conversion state) of
                    None \<Rightarrow> Inr state
                  | Some p \<Rightarrow> bindr (atoi p) (\<lambda>width.
                      Inr (state\<lparr>conversion := (conversion state)
                                  \<lparr>min_width := width, min_width_chars := None\<rparr>\<rparr>)))
             (\<lambda>state1. bindr (handle_conversion_spec fputc c state1)
               (\<lambda>state2. do_print_loop fputc state2 format_str)))"

definition PrintTarget_do_print ::
    "('f, 'w) fputc_fun \<Rightarrow> 'f PrintTarget \<Rightarrow> byte list \<Rightarrow> vararg list \<Rightarrow> MaxOutput \<Rightarrow> 'w \<Rightarrow>
      error + ('f, 'w) PrintState" where
  "PrintTarget_do_print fputc tgt format_str vlist max_out w =
     do_print_loop fputc
       \<lparr>in_conversion_spec = False, conversion = ConversionSpec_zero, printed = 0, target = tgt,
        arguments = vlist, max_output = max_out, world = w\<rparr> format_str"

section \<open>The printf family\<close>

text \<open>
  The stream functions return the count and what \<open>fputc\<close> did; \<open>printf\<close> and \<open>vprintf\<close> use the handle
  \<open>stdout\<close>, and a variadic function differs from its \<open>v\<close> form only in where the arguments come from.
\<close>

definition vfprintf ::
    "('f, 'w) fputc_fun \<Rightarrow> 'f \<Rightarrow> byte list \<Rightarrow> vararg list \<Rightarrow> 'w \<Rightarrow> error + u32 \<times> 'w" where
  "vfprintf fputc stream format_str vlist w =
     bindr (PrintTarget_do_print fputc (TargetStream stream) format_str vlist NO_MAX_OUTPUT w)
       (\<lambda>state. Inr (printed state, world state))"

definition fprintf ::
    "('f, 'w) fputc_fun \<Rightarrow> 'f \<Rightarrow> byte list \<Rightarrow> vararg list \<Rightarrow> 'w \<Rightarrow> error + u32 \<times> 'w" where
  "fprintf fputc stream format_str args w =
     bindr (PrintTarget_do_print fputc (TargetStream stream) format_str args NO_MAX_OUTPUT w)
       (\<lambda>state. Inr (printed state, world state))"

definition vprintf ::
    "('f, 'w) fputc_fun \<Rightarrow> 'f \<Rightarrow> byte list \<Rightarrow> vararg list \<Rightarrow> 'w \<Rightarrow> error + u32 \<times> 'w" where
  "vprintf fputc stdout format_str vlist w =
     bindr (PrintTarget_do_print fputc (TargetStream stdout) format_str vlist NO_MAX_OUTPUT w)
       (\<lambda>state. Inr (printed state, world state))"

definition printf ::
    "('f, 'w) fputc_fun \<Rightarrow> 'f \<Rightarrow> byte list \<Rightarrow> vararg list \<Rightarrow> 'w \<Rightarrow> error + u32 \<times> 'w" where
  "printf fputc stdout format_str args w =
     bindr (PrintTarget_do_print fputc (TargetStream stdout) format_str args NO_MAX_OUTPUT w)
       (\<lambda>state. Inr (printed state, world state))"

text \<open>The array a buffer target ends with.\<close>

fun target_array :: "'f PrintTarget \<Rightarrow> byte list" where
  "target_array (TargetBuffer buffer i) = buffer"
| "target_array (TargetStream stream) = []"

text \<open>
  The buffer functions write no stream, so their \<open>world\<close> is \<open>()\<close> and their \<open>fputc\<close> is never called.
  They return the count and the array.
\<close>

definition no_fputc :: "(unit, unit) fputc_fun" where
  "no_fputc ch f w = Inl NullDeref"

definition vsprintf :: "byte list \<Rightarrow> byte list \<Rightarrow> vararg list \<Rightarrow> error + u32 \<times> byte list" where
  "vsprintf buffer format_str vlist =
     bindr (PrintTarget_do_print no_fputc (TargetBuffer buffer 0) format_str vlist NO_MAX_OUTPUT ())
       (\<lambda>state. bindr (store_at (target_array (target state)) (unat (printed state)) 0)
         (\<lambda>buffer'. Inr (printed state, buffer')))"

definition sprintf :: "byte list \<Rightarrow> byte list \<Rightarrow> vararg list \<Rightarrow> error + u32 \<times> byte list" where
  "sprintf buffer format_str args =
     bindr (PrintTarget_do_print no_fputc (TargetBuffer buffer 0) format_str args NO_MAX_OUTPUT ())
       (\<lambda>state. bindr (store_at (target_array (target state)) (unat (printed state)) 0)
         (\<lambda>buffer'. Inr (printed state, buffer')))"

definition snprintf :: "byte list \<Rightarrow> u64 \<Rightarrow> byte list \<Rightarrow> vararg list \<Rightarrow> error + u32 \<times> byte list" where
  "snprintf buffer bufsz format_str args =
     bindr (PrintTarget_do_print no_fputc (TargetBuffer buffer 0) format_str args
              \<lparr>enabled = True, maximum = bufsz\<rparr> ())
       (\<lambda>state. let a = target_array (target state) in
         bindr (if bufsz > scast (printed state) then store_at a (unat (printed state)) 0
                else if bufsz = 0 then Inr a
                else store_at a (unat (bufsz - 1)) 0)
           (\<lambda>buffer'. Inr (printed state, buffer')))"

text \<open>\<open>putchar\<close> and \<open>putc\<close> pass their character on.\<close>

definition putc :: "('f, 'w) fputc_fun \<Rightarrow> u32 \<Rightarrow> 'f \<Rightarrow> 'w \<Rightarrow> error + u32 \<times> 'w" where
  "putc fputc ch stream w = fputc ch stream w"

definition putchar :: "('f, 'w) fputc_fun \<Rightarrow> 'f \<Rightarrow> u32 \<Rightarrow> 'w \<Rightarrow> error + u32 \<times> 'w" where
  "putchar fputc stdout character w = fputc character stdout w"

end
