(* ===== verification/Stdio_Text.thy ===== *)
theory Stdio_Text
  imports Libc_Stdio
begin

text \<open>
  What the conversions of stdio.c print, as plain texts: every conversion is a number of calls of
  \<open>putchar_maybe_minwidth\<close> with a text that its arguments and modifiers fix, and padding adds blanks
  or zeros to that text.  A text is a list of the \<open>int\<close>s passed to the character functions.
\<close>

section \<open>Emitting a text\<close>

definition chars :: "byte list \<Rightarrow> u32 list" where
  "chars = map ucast"

fun emit ::
    "('f, 'w) fputc_fun \<Rightarrow> MaxOutput \<Rightarrow> u32 \<Rightarrow> 'f PrintTarget \<Rightarrow> 'w \<Rightarrow> u32 list \<Rightarrow>
      error + 'f PrintTarget \<times> 'w" where
  "emit fputc m n t w [] = Inr (t, w)"
| "emit fputc m n t w (c # cs) =
     bindr (if \<not> enabled m \<or> (maximum m \<noteq> 0 \<and> maximum m - 1 > scast n)
            then PrintTarget_putchar fputc t c w else Inr (t, w))
       (\<lambda>(t', w'). emit fputc m (n + 1) t' w' cs)"

definition puts_max ::
    "('f, 'w) fputc_fun \<Rightarrow> ('f, 'w) PrintState \<Rightarrow> u32 list \<Rightarrow> error + ('f, 'w) PrintState" where
  "puts_max fputc st cs =
     bindr (emit fputc (max_output st) (printed st) (target st) (world st) cs)
       (\<lambda>(t, w). Inr (st\<lparr>target := t, world := w, printed := printed st + of_nat (length cs)\<rparr>))"

definition puts_minwidth ::
    "('f, 'w) fputc_fun \<Rightarrow> ('f, 'w) PrintState \<Rightarrow> u32 list \<Rightarrow> error + ('f, 'w) PrintState" where
  "puts_minwidth fputc st cs =
     (if min_width (conversion st) = 0 then puts_max fputc st cs
      else Inr (st\<lparr>printed := printed st + of_nat (length cs)\<rparr>))"

lemma chars_simps [simp]:
  "chars [] = []" "chars (c # cs) = ucast c # chars cs" "chars (xs @ ys) = chars xs @ chars ys"
  "length (chars cs) = length cs" "chars (replicate k c) = replicate k (ucast c)"
  by (simp_all add: chars_def map_replicate_const)

lemma emit_append:
  "emit fputc m n t w (xs @ ys) =
     bindr (emit fputc m n t w xs) (\<lambda>(t', w'). emit fputc m (n + of_nat (length xs)) t' w' ys)"
proof (induction xs arbitrary: n t w)
  case Nil
  then show ?case by simp
next
  case (Cons c xs)
  show ?case
    by (cases "if \<not> enabled m \<or> (maximum m \<noteq> 0 \<and> maximum m - 1 > scast n)
            then PrintTarget_putchar fputc t c w else Inr (t, w)")
      (auto simp: Cons.IH algebra_simps)
qed

lemma puts_max_Nil [simp]: "puts_max fputc st [] = Inr st"
  by (simp add: puts_max_def)

lemma puts_max_append:
  "puts_max fputc st (xs @ ys) = bindr (puts_max fputc st xs) (\<lambda>s. puts_max fputc s ys)"
  by (cases "emit fputc (max_output st) (printed st) (target st) (world st) xs")
    (auto simp: puts_max_def emit_append algebra_simps)

lemma putchar_maybe_max_puts: "putchar_maybe_max fputc st c = puts_max fputc st [c]"
  by (cases "PrintTarget_putchar fputc (target st) c (world st)")
    (auto simp: putchar_maybe_max_def puts_max_def)

lemma puts_minwidth_Nil [simp]: "puts_minwidth fputc st [] = Inr st"
  by (simp add: puts_minwidth_def)

lemma putchar_maybe_minwidth_puts: "putchar_maybe_minwidth fputc st c = puts_minwidth fputc st [c]"
  by (simp add: putchar_maybe_minwidth_def puts_minwidth_def putchar_maybe_max_puts)

lemma puts_max_conversion: "puts_max fputc st cs = Inr st' \<Longrightarrow> conversion st' = conversion st"
  by (auto simp: puts_max_def bindr_Inr_iff)

lemma puts_minwidth_append:
  "puts_minwidth fputc st (xs @ ys) = bindr (puts_minwidth fputc st xs) (\<lambda>s. puts_minwidth fputc s ys)"
  by (cases "puts_max fputc st xs")
    (auto simp: puts_minwidth_def puts_max_append algebra_simps dest: puts_max_conversion)

lemma puts_minwidth_Cons:
  "bindr (puts_minwidth fputc st [c]) (\<lambda>s. puts_minwidth fputc s cs) = puts_minwidth fputc st (c # cs)"
  using puts_minwidth_append [of fputc st "[c]" cs] by simp

lemma puts_max_Cons:
  "bindr (puts_max fputc st [c]) (\<lambda>s. puts_max fputc s cs) = puts_max fputc st (c # cs)"
  using puts_max_append [of fputc st "[c]" cs] by simp

section \<open>Digit loops\<close>

text \<open>
  The digits of \<open>n\<close> in base \<open>b\<close> from position \<open>k - 1\<close> down, leading zeros left out until the last
  position, as the loops of \<open>print_hex\<close> and \<open>print_binary\<close> produce them.
\<close>

fun topdown :: "nat \<Rightarrow> nat \<Rightarrow> bool \<Rightarrow> nat \<Rightarrow> byte list" where
  "topdown b n started 0 = []"
| "topdown b n started (Suc k) =
     (let d = n div b ^ k mod b in
      if d = 0 \<and> \<not> started \<and> k \<noteq> 0 then topdown b n started k
      else digit_char d # topdown b n True k)"

lemma topdown_started_snoc:
  "topdown b n True (Suc k) = topdown b (n div b) True k @ [digit_char (n mod b)]"
proof (induction k)
  case 0
  then show ?case by simp
next
  case (Suc k)
  have "n div b ^ Suc k = n div b div b ^ k" by (simp add: div_mult2_eq)
  with Suc show ?case by (simp add: Let_def)
qed

lemma radix_topdown_started:
  "2 \<le> b \<Longrightarrow> b ^ k \<le> n \<Longrightarrow> n < b ^ Suc k \<Longrightarrow> radix b n = topdown b n True (Suc k)"
proof (induction k arbitrary: n)
  case 0
  then show ?case by (simp add: radix_small)
next
  case (Suc k)
  have "b \<le> b ^ Suc k" using Suc.prems(1) by (simp add: self_le_power)
  with Suc.prems have "b \<le> n" by linarith
  moreover have "b ^ k \<le> n div b"
    using Suc.prems(1,2) by (simp add: less_eq_div_iff_mult_less_eq mult.commute)
  moreover have "n div b < b ^ Suc k"
    using Suc.prems(1,3) by (simp add: div_less_iff_less_mult mult.commute)
  ultimately show ?case
    using Suc.IH [of "n div b"] Suc.prems(1) by (simp add: radix_step topdown_started_snoc del: topdown.simps)
qed

lemma topdown_radix: "2 \<le> b \<Longrightarrow> n < b ^ Suc k \<Longrightarrow> topdown b n False (Suc k) = radix b n"
proof (induction k)
  case 0
  then show ?case by (simp add: radix_small)
next
  case (Suc k)
  show ?case
  proof (cases "n < b ^ Suc k")
    case True
    then have "n div b ^ Suc k mod b = 0" by simp
    then show ?thesis using Suc True by simp
  next
    case False
    then have "n div b ^ Suc k mod b \<noteq> 0"
      using Suc.prems by (simp add: div_less_iff_less_mult div_eq_0_iff)
    then have "topdown b n False (Suc (Suc k)) = topdown b n True (Suc (Suc k))"
      by (simp del: power_Suc)
    with False Suc.prems show ?thesis
      using radix_topdown_started [of b "Suc k" n] by simp
  qed
qed

lemma unat_drop_and_mask:
  fixes v :: "'a::len word"
  shows "unat (drop_bit n v AND mask k) = unat v div 2 ^ n mod 2 ^ k"
  by (simp add: unsigned_take_bit_eq unsigned_drop_bit_eq flip: take_bit_eq_mask)
    (simp add: take_bit_eq_mod drop_bit_eq_div)

lemma ucast_digit_char:
  assumes "d < 16"
  shows "(ucast (digit_char d) :: u32) = of_nat (if d < 10 then 48 + d else 87 + d)"
  using assms by (simp add: digit_char_def unsigned_of_nat take_bit_nat_eq_self del: of_nat_add)

lemma hex_digit_ucast:
  fixes d :: u64
  assumes "unat d < 16"
  shows "(ucast (if d \<le> 9 then 48 + d else 97 + d - 10) :: u32) = ucast (digit_char (unat d))"
proof -
  define n where "n = unat d"
  then have d: "d = of_nat n" and n: "n < 16" using assms by simp_all
  have le: "d \<le> 9 \<longleftrightarrow> n < 10" by (auto simp: word_le_nat_alt n_def)
  have "(if d \<le> 9 then 48 + d else 97 + d - 10) = of_nat (if n < 10 then 48 + n else 87 + n)"
    unfolding le by (simp add: d)
  then show ?thesis
    by (simp only: ucast_digit_char n_def [symmetric] n ucast_of_nat_u32)
qed

lemma print_string_loop_puts:
  "cstring str s \<Longrightarrow> print_string_loop fputc st str = puts_minwidth fputc st (chars s)"
proof (induction str arbitrary: s st)
  case Nil
  then show ?case by simp
next
  case (Cons c str)
  show ?case
  proof (cases "c = 0")
    case True
    with Cons.prems show ?thesis by simp
  next
    case False
    with Cons.prems obtain s' where s: "s = c # s'" "cstring str s'" by auto
    with False show ?thesis
      by (simp add: Cons.IH putchar_maybe_minwidth_puts puts_minwidth_Cons)
  qed
qed

lemma print_hex_loop_puts:
  "print_hex_loop fputc st v started k = puts_minwidth fputc st (chars (topdown 16 (unat v) started k))"
proof (induction k arbitrary: st started)
  case 0
  then show ?case by simp
next
  case (Suc k)
  define d where "d = drop_bit (k * 4) v AND 0xf"
  have "d = drop_bit (k * 4) v AND mask 4" by (simp add: d_def mask_eq_exp_minus_1)
  then have ud: "unat d = unat v div 16 ^ k mod 16"
    by (simp add: unat_drop_and_mask mult.commute [of k] power_mult)
  then have "unat d < 16" by simp
  note digit = hex_digit_ucast [OF this]
  have zero: "d = 0 \<longleftrightarrow> unat v div 16 ^ k mod 16 = 0"
    unfolding ud [symmetric] by (simp add: unat_eq_0)
  have "print_hex_loop fputc st v started (Suc k) =
      (if d = 0 \<and> \<not> started \<and> k \<noteq> 0 then print_hex_loop fputc st v started k
       else bindr (putchar_maybe_minwidth fputc st (ucast (digit_char (unat d))))
              (\<lambda>s. print_hex_loop fputc s v True k))"
    by (simp only: print_hex_loop.simps Let_def d_def [symmetric] digit)
  then show ?case
    unfolding zero ud Suc.IH by (simp add: Let_def putchar_maybe_minwidth_puts puts_minwidth_Cons)
qed

lemma print_binary_loop_puts:
  "print_binary_loop fputc st v started k = puts_minwidth fputc st (chars (topdown 2 (unat v) started k))"
proof (induction k arbitrary: st started)
  case 0
  then show ?case by simp
next
  case (Suc k)
  define d where "d = drop_bit k v AND 0x1"
  have ud: "unat d = unat v div 2 ^ k mod 2"
    using unat_drop_and_mask [of k v 1] by (simp add: d_def mask_eq_exp_minus_1)
  then have "unat d = 0 \<or> unat d = 1" by linarith
  moreover have "d = 0 \<longleftrightarrow> unat v div 2 ^ k mod 2 = 0" unfolding ud [symmetric] by (simp add: unat_eq_0)
  ultimately show ?case
    by (auto simp: Let_def Suc.IH putchar_maybe_minwidth_puts puts_minwidth_Cons ud digit_char_def
        simp flip: d_def)
qed

text \<open>
  The decimal loop divides by a falling power of ten instead: \<open>v\<close> is what is left of the number.
\<close>

lemma topdown_mod_aux:
  fixes b n :: nat
  assumes "j < k"
  shows "n mod b ^ k div b ^ j mod b = n div b ^ j mod b"
proof (cases "b = 0")
  case True
  with assms show ?thesis by (cases j) (auto simp: power_0_left)
next
  case False
  have k: "b ^ k = b ^ j * b ^ (k - j)" using assms by (simp flip: power_add)
  have "b dvd b ^ (k - j)" using assms by simp
  moreover have "n mod b ^ k div b ^ j = n div b ^ j mod b ^ (k - j)"
    using False by (simp add: k mod_mult2_eq)
  ultimately show ?thesis by (simp add: mod_mod_cancel)
qed

lemma topdown_mod: "k \<le> m \<Longrightarrow> topdown b (n mod b ^ m) started k = topdown b n started k"
  by (induction k arbitrary: started) (auto simp: topdown_mod_aux Let_def)

lemma ucast_decimal_digit:
  fixes d :: "'a::len word"
  assumes "6 \<le> LENGTH('a)" and "unat d < 10"
  shows "(ucast (48 + d) :: u32) = ucast (digit_char (unat d))"
proof -
  define n where "n = unat d"
  then have d: "d = of_nat n" and n: "n < 10" using assms(2) by simp_all
  have "(2 :: nat) ^ 6 \<le> 2 ^ LENGTH('a)" using assms(1) by (rule power_increasing) simp
  with n have "48 + n < 2 ^ LENGTH('a)" by simp
  then have "(ucast (of_nat (48 + n) :: 'a word) :: u32) = of_nat (48 + n)"
    by (simp only: unsigned_of_nat take_bit_nat_eq_self)
  then have "(ucast (48 + d) :: u32) = of_nat (48 + n)" by (simp add: d)
  moreover have "(ucast (digit_char (unat d)) :: u32) = of_nat (48 + n)"
    using n by (simp add: ucast_digit_char flip: n_def)
  ultimately show ?thesis by simp
qed

lemma print_unsigned_loop_puts:
  fixes v dv :: "'a::len word"
  assumes len: "6 \<le> LENGTH('a)"
    and "unat dv = 10 ^ m div 10" and "unat v < 10 ^ m" and "started \<or> v \<noteq> 0 \<or> m = 0"
  shows "print_unsigned_loop fputc st v dv started =
      puts_minwidth fputc st (chars (topdown 10 (unat v) started m))"
  using assms(2-)
proof (induction m arbitrary: st v dv started)
  case 0
  then have "dv = 0" by (simp add: unat_eq_0)
  then show ?case by (subst print_unsigned_loop.simps) simp
next
  case (Suc k)
  have ten: "unat (10 :: 'a word) = 10"
  proof -
    have "(2 :: nat) ^ 6 \<le> 2 ^ LENGTH('a)" using len by (rule power_increasing) simp
    then show ?thesis by (simp add: take_bit_nat_eq_self unat_numeral)
  qed
  note unfold = print_unsigned_loop.simps [of fputc st v dv started]
  from Suc.prems have dv: "unat dv = 10 ^ k" and v: "unat v div 10 ^ k < 10"
    by (simp_all add: div_less_iff_less_mult)
  then have pos: "0 < dv" by (simp add: word_less_nat_alt)
  have next_dv: "unat (dv div 10) = 10 ^ k div 10" by (simp only: unat_div dv ten)
  show ?case
  proof (cases "dv \<le> v")
    case True
    have digit: "unat (v div dv) = unat v div 10 ^ k" by (simp add: unat_div dv)
    have rest: "v - v div dv * dv = v mod dv" by (simp add: minus_div_mult_eq_mod)
    have "unat (v mod dv) = unat v mod 10 ^ k" by (simp add: unat_mod dv)
    moreover from True dv have "1 \<le> unat v div 10 ^ k"
      by (simp add: word_le_nat_alt less_eq_div_iff_mult_less_eq)
    ultimately show ?thesis
      using True pos v Suc.IH [OF next_dv, of "v mod dv" True]
      by (simp add: unfold rest ucast_decimal_digit len digit topdown_mod puts_minwidth_Cons Let_def
          putchar_maybe_minwidth_puts)
  next
    case False
    then have small: "unat v < 10 ^ k" using dv by (simp add: word_le_nat_alt)
    with Suc.prems have "started \<or> k \<noteq> 0" by (cases k) (auto simp: unat_eq_0)
    with False pos small Suc.prems(3) show ?thesis
      using Suc.IH [OF next_dv small, of started]
      by (auto simp: unfold putchar_maybe_minwidth_puts puts_minwidth_Cons ucast_digit_char Let_def)
  qed
qed

lemma print_unsigned_uint32_t_puts:
  "print_unsigned_uint32_t fputc st v = puts_minwidth fputc st (chars (radix 10 (unat v)))"
proof (cases "v = 0")
  case True
  then show ?thesis
    by (simp add: print_unsigned_uint32_t_def print_unsigned_type_def putchar_maybe_minwidth_puts
        radix_small ucast_digit_char)
next
  case False
  have "unat v < 10 ^ 10" by (rule order_less_le_trans [OF unsigned_less]) simp
  with False show ?thesis
    using print_unsigned_loop_puts [of "1000000000 :: u32" 10 v False fputc st]
      topdown_radix [of 10 "unat v" 9]
    by (simp add: print_unsigned_uint32_t_def print_unsigned_type_def)
qed

lemma print_unsigned_uint64_t_puts:
  "print_unsigned_uint64_t fputc st v = puts_minwidth fputc st (chars (radix 10 (unat v)))"
proof (cases "v = 0")
  case True
  then show ?thesis
    by (simp add: print_unsigned_uint64_t_def print_unsigned_type_def putchar_maybe_minwidth_puts
        radix_small ucast_digit_char)
next
  case False
  have "unat v < 10 ^ 20" by (rule order_less_le_trans [OF unsigned_less]) simp
  with False show ?thesis
    using print_unsigned_loop_puts [of "10000000000000000000 :: u64" 20 v False fputc st]
      topdown_radix [of 10 "unat v" 19]
    by (simp add: print_unsigned_uint64_t_def print_unsigned_type_def)
qed

end
