(* ===== verification/Stdio_Spec.thy ===== *)
theory Stdio_Spec
  imports Stdio_Text
begin

text \<open>
  The specification of the printf family: a format is a list of directives with a meaning as a text,
  written down as the format string that the code parses.  The theorems say that the code prints the
  meaning, to a stream, to an array and to a bounded array.
\<close>

section \<open>Directives and their meaning\<close>

datatype conv =
    ConvChar | ConvStr | ConvHex | ConvBin | ConvSigned | ConvSignedI | ConvUnsigned | ConvPtr

datatype field_width = NoWidth | Width nat | StarWidth

text \<open>\<open>Conv left alt zero width longs conv\<close> is \<open>%-#0<width>l..l<conv>\<close>.\<close>

datatype directive = Lit byte | Percent | Conv bool bool bool field_width nat conv

fun conv_letter :: "conv \<Rightarrow> byte" where
  "conv_letter ConvChar = 99"
| "conv_letter ConvStr = 115"
| "conv_letter ConvHex = 120"
| "conv_letter ConvBin = 98"
| "conv_letter ConvSigned = 100"
| "conv_letter ConvSignedI = 105"
| "conv_letter ConvUnsigned = 117"
| "conv_letter ConvPtr = 112"

fun width_string :: "field_width \<Rightarrow> byte list" where
  "width_string NoWidth = []"
| "width_string (Width n) = radix 10 n"
| "width_string StarWidth = [42]"

fun directive_string :: "directive \<Rightarrow> byte list" where
  "directive_string (Lit c) = [c]"
| "directive_string Percent = [37, 37]"
| "directive_string (Conv left alt zero w l k) =
     [37] @ (if left then [45] else []) @ (if alt then [35] else []) @ (if zero then [48] else []) @
     width_string w @ replicate l 108 @ [conv_letter k]"

fun directive_ok :: "directive \<Rightarrow> bool" where
  "directive_ok (Lit c) \<longleftrightarrow> c \<noteq> 0 \<and> c \<noteq> 37"
| "directive_ok Percent \<longleftrightarrow> True"
| "directive_ok (Conv left alt zero w l k) \<longleftrightarrow>
     (case w of Width n \<Rightarrow> 0 < n \<and> n < 2 ^ 31 | _ \<Rightarrow> True) \<and> l < 256"

definition signed_text :: "int \<Rightarrow> byte list" where
  "signed_text v = (if v < 0 then 45 # radix 10 (nat (- v)) else radix 10 (nat v))"

text \<open>
  The text of one conversion without padding, and the remaining arguments: \<open>wide\<close> says whether there
  is an \<open>l\<close>.
\<close>

fun conv_text :: "conv \<Rightarrow> bool \<Rightarrow> bool \<Rightarrow> vararg list \<Rightarrow> (u32 list \<times> vararg list) option" where
  "conv_text ConvChar alt wide (VWord w # args) = Some ([ucast w], args)"
| "conv_text ConvStr alt wide (VStr p # args) =
     (if 0 \<in> set p then Some (chars (takeWhile (\<lambda>b. b \<noteq> 0) p), args) else None)"
| "conv_text ConvBin alt wide (VWord w # args) =
     Some (chars ((if alt then [48, 98] else []) @
                  radix 2 (if wide then unat w else unat (ucast w :: u32))), args)"
| "conv_text ConvSigned alt wide (VWord w # args) =
     Some (chars (signed_text (if wide then sint w else sint (ucast w :: u32))), args)"
| "conv_text ConvSignedI alt wide (VWord w # args) =
     Some (chars (signed_text (if wide then sint w else sint (ucast w :: u32))), args)"
| "conv_text ConvUnsigned alt wide (VWord w # args) =
     Some (chars (radix 10 (if wide then unat w else unat (ucast w :: u32))), args)"
| "conv_text ConvHex alt wide (VWord w # args) =
     Some (chars ((if alt then [48, 120] else []) @
                  radix 16 (if wide then unat w else unat (ucast w :: u32))), args)"
| "conv_text ConvPtr alt wide (VWord w # args) =
     Some (chars ((if alt then [48, 120] else []) @ radix 16 (unat w)), args)"
| "conv_text _ _ _ _ = None"

definition pad :: "bool \<Rightarrow> bool \<Rightarrow> nat \<Rightarrow> u32 list \<Rightarrow> u32 list" where
  "pad left zero width txt =
     (let p = replicate (width - length txt) (if zero then 48 else 32) in
      if left then txt @ p else p @ txt)"

fun width_value :: "field_width \<Rightarrow> vararg list \<Rightarrow> (nat \<times> vararg list) option" where
  "width_value NoWidth args = Some (0, args)"
| "width_value (Width n) args = Some (n, args)"
| "width_value StarWidth (VWord w # args) =
     (if 0 \<le> sint (ucast w :: u32) then Some (unat (ucast w :: u32), args) else None)"
| "width_value StarWidth _ = None"

fun directive_text :: "directive \<Rightarrow> vararg list \<Rightarrow> (u32 list \<times> vararg list) option" where
  "directive_text (Lit c) args = Some ([ucast c], args)"
| "directive_text Percent args = Some ([37], args)"
| "directive_text (Conv left alt zero w l k) args =
     (case width_value w args of None \<Rightarrow> None
      | Some (n, args1) \<Rightarrow>
        (case conv_text k alt (l \<noteq> 0) args1 of None \<Rightarrow> None
         | Some (txt, args2) \<Rightarrow>
           if length txt < 2 ^ 31
           then Some (if k = ConvPtr then [48, 120] @ pad left True 16 txt else pad left zero n txt, args2)
           else None))"

fun format_text :: "directive list \<Rightarrow> vararg list \<Rightarrow> (u32 list \<times> vararg list) option" where
  "format_text [] args = Some ([], args)"
| "format_text (d # ds) args =
     (case directive_text d args of None \<Rightarrow> None
      | Some (txt, args1) \<Rightarrow>
        (case format_text ds args1 of None \<Rightarrow> None
         | Some (txts, args2) \<Rightarrow> Some (txt @ txts, args2)))"

definition format_string :: "directive list \<Rightarrow> byte list" where
  "format_string ds = concat (map directive_string ds)"

section \<open>Conversions print their text\<close>

fun conv_print ::
    "conv \<Rightarrow> ('f, 'w) fputc_fun \<Rightarrow> ('f, 'w) PrintState \<Rightarrow> error + ('f, 'w) PrintState" where
  "conv_print ConvChar = print_char"
| "conv_print ConvStr = print_string"
| "conv_print ConvHex = print_hex"
| "conv_print ConvBin = print_binary"
| "conv_print ConvSigned = print_signed"
| "conv_print ConvSignedI = print_signed"
| "conv_print ConvUnsigned = print_unsigned"
| "conv_print ConvPtr = print_hex"

lemma value_is_32bit: "ConversionSpec_value_is_32bit c \<longleftrightarrow> long_modifiers c = 0"
  by (simp add: ConversionSpec_value_is_32bit_def POINTER_BITS_def)

lemma print_alternative_puts:
  "bindr (if a then bindr (putchar_maybe_minwidth fputc st 48) (\<lambda>s. putchar_maybe_minwidth fputc s c)
          else Inr st) (\<lambda>s. puts_minwidth fputc s txt) =
   puts_minwidth fputc st ((if a then [48, c] else []) @ txt)"
  using puts_minwidth_append [of fputc st "[48, c]" "txt"] puts_minwidth_Cons [of fputc st "48" "[c]"]
  by (auto simp: putchar_maybe_minwidth_puts)

lemma topdown_hex: "topdown 16 (unat (v :: u64)) False 16 = radix 16 (unat v)"
proof -
  have "unat v < 16 ^ Suc 15" by (rule order_less_le_trans [OF unsigned_less]) simp
  then show ?thesis using topdown_radix [of 16 "unat v" 15] by simp
qed

lemma topdown_hex_32: "topdown 16 (unat (v :: u32)) False 8 = radix 16 (unat v)"
proof -
  have "unat v < 16 ^ Suc 7" by (rule order_less_le_trans [OF unsigned_less]) simp
  then show ?thesis using topdown_radix [of 16 "unat v" 7] by simp
qed

lemma topdown_bin: "topdown 2 (unat (v :: u64)) False 64 = radix 2 (unat v)"
proof -
  have "unat v < 2 ^ Suc 63" by (rule order_less_le_trans [OF unsigned_less]) simp
  then show ?thesis using topdown_radix [of 2 "unat v" 63] by simp
qed

lemma topdown_bin_32: "topdown 2 (unat (v :: u32)) False 32 = radix 2 (unat v)"
proof -
  have "unat v < 2 ^ Suc 31" by (rule order_less_le_trans [OF unsigned_less]) simp
  then show ?thesis using topdown_radix [of 2 "unat v" 31] by simp
qed

lemma print_hex_puts:
  assumes "arguments st = VWord w # args"
  shows "print_hex fputc st = puts_minwidth fputc (st\<lparr>arguments := args\<rparr>)
     (chars ((if alternative (conversion st) then [48, 120] else []) @
             radix 16 (if long_modifiers (conversion st) \<noteq> 0 then unat w else unat (ucast w :: u32))))"
  using print_alternative_puts [of "alternative (conversion st)" fputc "st\<lparr>arguments := args\<rparr>" "120"]
  by (simp add: print_hex_def assms value_is_32bit va_arg_32_def Let_def print_hex_loop_puts
      topdown_hex topdown_hex_32 cong: if_cong)

lemma print_binary_puts:
  assumes "arguments st = VWord w # args"
  shows "print_binary fputc st = puts_minwidth fputc (st\<lparr>arguments := args\<rparr>)
     (chars ((if alternative (conversion st) then [48, 98] else []) @
             radix 2 (if long_modifiers (conversion st) \<noteq> 0 then unat w else unat (ucast w :: u32))))"
  using print_alternative_puts [of "alternative (conversion st)" fputc "st\<lparr>arguments := args\<rparr>" "98"]
  by (simp add: print_binary_def assms value_is_32bit va_arg_32_def Let_def print_binary_loop_puts
      topdown_bin topdown_bin_32 cong: if_cong)

lemma print_signed_puts:
  assumes "arguments st = VWord w # args"
  shows "print_signed fputc st = puts_minwidth fputc (st\<lparr>arguments := args\<rparr>)
     (chars (signed_text (if long_modifiers (conversion st) \<noteq> 0 then sint w else sint (ucast w :: u32))))"
  using unat_minus_neg [of w] unat_nonneg [of w]
    unat_minus_neg [of "ucast w :: u32"] unat_nonneg [of "ucast w :: u32"]
  by (auto simp: print_signed_def assms value_is_32bit va_arg_32_def Let_def signed_text_def
      print_unsigned_uint64_t_puts print_unsigned_uint32_t_puts putchar_maybe_minwidth_puts
      puts_minwidth_Cons not_less)

lemma conv_print_puts:
  assumes "conv_text k (alternative (conversion st)) (long_modifiers (conversion st) \<noteq> 0) (arguments st) =
      Some (txt, args)" and "k = ConvPtr \<Longrightarrow> long_modifiers (conversion st) \<noteq> 0"
  shows "conv_print k fputc st = puts_minwidth fputc (st\<lparr>arguments := args\<rparr>) txt"
proof -
  obtain a as where args: "arguments st = a # as"
    using assms(1) by (cases "arguments st"; cases k) auto
  show ?thesis
  proof (cases a)
    case (VWord w)
    then show ?thesis
      using assms args by (cases k)
        (auto simp: print_char_def va_arg_32_def putchar_maybe_minwidth_puts print_hex_puts
          print_binary_puts print_signed_puts print_unsigned_def value_is_32bit
          print_unsigned_uint64_t_puts print_unsigned_uint32_t_puts simp del: chars_simps(3))
  next
    case (VStr p)
    then show ?thesis
      using assms args print_string_loop_puts [of p "takeWhile (\<lambda>b. b \<noteq> 0) p"]
      by (cases k) (auto simp: print_string_def cstring_def split: if_splits)
  qed
qed

section \<open>Padding\<close>

lemma print_padding_puts:
  "print_padding fputc st n =
     puts_max fputc st (replicate n (if zero_pad (conversion st) then 48 else 32))"
proof (induction n arbitrary: st)
  case 0
  then show ?case by simp
next
  case (Suc n)
  let ?c = "if zero_pad (conversion st) then 48 else 32"
  have "print_padding fputc st (Suc n) =
      bindr (puts_max fputc st [?c]) (\<lambda>s. puts_max fputc s (replicate n ?c))"
    by (cases "puts_max fputc st [?c]")
      (auto simp: putchar_maybe_max_puts Suc.IH dest: puts_max_conversion)
  then show ?case by (simp add: puts_max_Cons)
qed

text \<open>The conversion of a state is forgotten by \<open>PrintState_reset\<close>.\<close>

lemma puts_max_reset:
  "bindr (puts_max fputc (st\<lparr>conversion := c\<rparr>) cs) (\<lambda>s. Inr (PrintState_reset s)) =
   bindr (puts_max fputc st cs) (\<lambda>s. Inr (PrintState_reset s))"
  by (cases "emit fputc (max_output st) (printed st) (target st) (world st) cs")
    (auto simp: puts_max_def PrintState_reset_def)

lemma sint_of_small_nat: "n < 2 ^ 31 \<Longrightarrow> sint (of_nat n :: u32) = int n"
  by (simp add: signed_of_nat signed_take_bit_int_eq_self)

lemma scast_small: "n < 2 ^ 31 \<Longrightarrow> (scast (of_nat n :: u32) :: u64) = of_nat n"
  by (simp add: scast_eq sint_of_small_nat)

lemma unat_width_diff:
  fixes w :: u32
  assumes "n \<le> unat w"
  shows "unat (w - of_nat n) = unat w - n"
proof -
  have "w - of_nat n = of_nat (unat w - n)" using assms by (simp add: of_nat_diff)
  moreover have "unat w - n < 2 ^ LENGTH(32)"
    by (rule le_less_trans [OF diff_le_self unsigned_less])
  ultimately show ?thesis by (simp only: unat_of_nat) simp
qed

lemma puts_max_update:
  "bindr (puts_max fputc st cs) (\<lambda>s. f (s\<lparr>conversion := c, arguments := a\<rparr>)) =
   bindr (puts_max fputc (st\<lparr>conversion := c, arguments := a\<rparr>) cs) f"
  by (cases st) (auto simp: puts_max_def bindr_def split: sum.splits)

lemma puts_max_fields:
  "puts_max fputc st cs = Inr s \<Longrightarrow>
     printed s = printed st + of_nat (length cs) \<and> conversion s = conversion st \<and>
     arguments s = arguments st"
  by (auto simp: puts_max_def bindr_Inr_iff)

text \<open>
  A conversion under \<open>min_width_call\<close>, whose \<open>func\<close> consumes the arguments down to \<open>args\<close> and prints
  \<open>tx\<close>, prints the padded \<open>tx\<close>.
\<close>

lemma min_width_call_puts:
  assumes func: "\<And>s. arguments s = arguments st \<Longrightarrow>
        alternative (conversion s) = alternative (conversion st) \<Longrightarrow>
        long_modifiers (conversion s) = long_modifiers (conversion st) \<Longrightarrow>
        func s = puts_minwidth fputc (s\<lparr>arguments := args\<rparr>) tx"
    and W: "unat (min_width (conversion st)) < 2 ^ 31" and len: "length tx < 2 ^ 31"
  shows "bindr (min_width_call fputc st func) (\<lambda>s. Inr (PrintState_reset s)) =
     bindr (puts_max fputc (st\<lparr>arguments := args\<rparr>)
        (pad (left_justify (conversion st)) (zero_pad (conversion st)) (unat (min_width (conversion st))) tx))
       (\<lambda>s. Inr (PrintState_reset s))"
proof -
  define w where "w = min_width (conversion st)"
  define c where "c = (if zero_pad (conversion st) then 48 else 32 :: u32)"
  define p where "p = replicate (unat w - length tx) c"
  define c0 where "c0 = (conversion st)\<lparr>min_width := 0\<rparr>"
  define st0 where "st0 = st\<lparr>conversion := c0, arguments := args\<rparr>"
  have sw: "sint w = int (unat w)" using W sint_of_small_nat [of "unat w"] by (simp add: w_def)
  have sl: "sint (of_nat (length tx) :: u32) = int (length tx)" using len by (rule sint_of_small_nat)
  have padding: "(if sint w > sint (of_nat (length tx) :: u32)
         then print_padding fputc s (unat (w - of_nat (length tx))) else Inr s) = puts_max fputc s p"
    if "zero_pad (conversion s) = zero_pad (conversion st)" for s
  proof (cases "length tx < unat w")
    case True
    then have "sint w > sint (of_nat (length tx) :: u32)" by (simp only: sw sl of_nat_less_iff)
    with True that show ?thesis by (simp add: print_padding_puts unat_width_diff p_def c_def)
  next
    case False
    then have "\<not> sint w > sint (of_nat (length tx) :: u32)" by (simp only: sw sl of_nat_less_iff simp_thms)
    with False show ?thesis by (simp add: p_def)
  qed
  have real: "func (s\<lparr>conversion := c0\<rparr>) = puts_max fputc (s\<lparr>conversion := c0, arguments := args\<rparr>) tx"
    if "arguments s = arguments st" for s
    using that by (subst func) (simp_all add: puts_minwidth_def c0_def)
  have reset: "bindr (puts_max fputc st0 cs) (\<lambda>s. Inr (PrintState_reset s)) =
      bindr (puts_max fputc (st\<lparr>arguments := args\<rparr>) cs) (\<lambda>s. Inr (PrintState_reset s))" for cs
    using puts_max_reset [where st = "st\<lparr>arguments := args\<rparr>" and c = c0 and fputc = fputc and cs = cs]
    by (cases st) (simp add: st0_def)
  show ?thesis
  proof (cases "w = 0")
    case True
    then have "min_width_call fputc st func = puts_max fputc (st\<lparr>arguments := args\<rparr>) tx"
      using func [of st] by (simp add: min_width_call_def puts_minwidth_def flip: w_def)
    moreover have "pad l z (unat w) tx = tx" for l z using True by (simp add: pad_def)
    ultimately show ?thesis by (simp flip: w_def)
  next
    case False
    then have "0 < unat w" by (simp add: unat_gt_0)
    then have w0: "0 < sint w" by (simp only: sw of_nat_0_less_iff)
    show ?thesis
    proof (cases "left_justify (conversion st)")
      case True
      have "min_width_call fputc st func = bindr (puts_max fputc st0 tx) (\<lambda>s. puts_max fputc s p)"
        using w0 True padding real [of st]
        by (auto simp: min_width_call_def c0_def [symmetric] st0_def [symmetric] w_def [symmetric] Let_def
            intro!: bindr_cong dest!: puts_max_fields)
          (simp_all add: st0_def c0_def)
      then show ?thesis
        using reset [of "tx @ p"] True
        by (simp add: pad_def p_def c_def flip: w_def puts_max_append)
    next
      case left: False
      define st1 where "st1 = st\<lparr>arguments := args, printed := printed st + of_nat (length tx)\<rparr>"
      have fake: "func st = Inr st1"
        using func [of st] False by (simp add: puts_minwidth_def st1_def flip: w_def)
      have diff: "printed st1 - printed st = of_nat (length tx)"
        by (simp add: st1_def)
      have restored: "st1\<lparr>printed := printed st, arguments := arguments st\<rparr> = st"
        by (simp add: st1_def)
      have "min_width_call fputc st func =
          bindr (puts_max fputc st p)
            (\<lambda>s. func (s\<lparr>conversion := (conversion s)\<lparr>min_width := 0\<rparr>\<rparr>))"
        using w0 left padding [OF refl]
        by (simp only: min_width_call_def fake w_def [symmetric] Let_def bindr_simps restored diff
            if_True not_False_eq_True)
      also have "\<dots> = bindr (puts_max fputc st p)
            (\<lambda>s. puts_max fputc (s\<lparr>conversion := c0, arguments := args\<rparr>) tx)"
        by (rule bindr_cong [OF refl]) (auto dest!: puts_max_fields simp: real simp flip: c0_def)
      also have "\<dots> = bindr (puts_max fputc st0 p) (\<lambda>s. puts_max fputc s tx)"
        unfolding st0_def by (rule puts_max_update)
      finally show ?thesis
        using reset [of "p @ tx"] left
        by (simp add: pad_def p_def c_def flip: w_def puts_max_append)
    qed
  qed
qed

section \<open>Parsing a directive\<close>

text \<open>The state inside a conversion specification that has reached the modifiers \<open>c\<close>.\<close>

definition in_spec :: "('f, 'w) PrintState \<Rightarrow> ConversionSpec \<Rightarrow> ('f, 'w) PrintState" where
  "in_spec st c = st\<lparr>in_conversion_spec := True, conversion := c\<rparr>"

definition clean :: "('f, 'w) PrintState \<Rightarrow> bool" where
  "clean st \<longleftrightarrow> \<not> in_conversion_spec st \<and> conversion st = ConversionSpec_zero"

lemma in_spec_simps [simp]:
  "in_conversion_spec (in_spec st c)" "conversion (in_spec st c) = c"
  "arguments (in_spec st c) = arguments st" "printed (in_spec st c) = printed st"
  "target (in_spec st c) = target st" "world (in_spec st c) = world st"
  "max_output (in_spec st c) = max_output st"
  "(in_spec st c)\<lparr>conversion := c'\<rparr> = in_spec st c'"
  "(in_spec st c)\<lparr>arguments := a\<rparr> = in_spec (st\<lparr>arguments := a\<rparr>) c"
  "in_spec st c\<lparr>arguments := a, conversion := c'\<rparr> = in_spec (st\<lparr>arguments := a\<rparr>) c'"
  by (cases st; simp add: in_spec_def)+

lemma loop_percent:
  "clean st \<Longrightarrow> do_print_loop fputc st (37 # fmt) = do_print_loop fputc (in_spec st ConversionSpec_zero) fmt"
  by (cases st) (simp add: clean_def in_spec_def)

lemma loop_minus:
  "min_width_chars c = None \<Longrightarrow>
     do_print_loop fputc (in_spec st c) (45 # fmt) = do_print_loop fputc (in_spec st (c\<lparr>left_justify := True\<rparr>)) fmt"
  by (simp add: handle_conversion_spec_def)

lemma loop_hash:
  "min_width_chars c = None \<Longrightarrow>
     do_print_loop fputc (in_spec st c) (35 # fmt) = do_print_loop fputc (in_spec st (c\<lparr>alternative := True\<rparr>)) fmt"
  by (simp add: handle_conversion_spec_def)

lemma loop_zero:
  "min_width_chars c = None \<Longrightarrow> \<not> zero_pad c \<Longrightarrow>
     do_print_loop fputc (in_spec st c) (48 # fmt) = do_print_loop fputc (in_spec st (c\<lparr>zero_pad := True\<rparr>)) fmt"
  by simp

lemma loop_star:
  "min_width_chars c = None \<Longrightarrow> arguments st = VWord w # args \<Longrightarrow>
     do_print_loop fputc (in_spec st c) (42 # fmt) =
     do_print_loop fputc (in_spec (st\<lparr>arguments := args\<rparr>) (c\<lparr>min_width := ucast w\<rparr>)) fmt"
  by (simp add: handle_conversion_spec_def va_arg_32_def)

lemma loop_long:
  "min_width_chars c = None \<Longrightarrow>
     do_print_loop fputc (in_spec st c) (108 # fmt) =
     do_print_loop fputc (in_spec st (c\<lparr>long_modifiers := long_modifiers c + 1\<rparr>)) fmt"
  by (simp add: handle_conversion_spec_def)

lemma loop_longs:
  "min_width_chars c = None \<Longrightarrow>
     do_print_loop fputc (in_spec st c) (replicate l 108 @ fmt) =
     do_print_loop fputc (in_spec st (c\<lparr>long_modifiers := long_modifiers c + of_nat l\<rparr>)) fmt"
proof (induction l arbitrary: c)
  case 0
  then show ?case by simp
next
  case (Suc l)
  then show ?case by (simp add: loop_long add.assoc del: do_print_loop.simps)
qed

text \<open>The digits of a width are skipped, and the first character after them reads the width.\<close>

lemma loop_digits:
  "\<forall>d\<in>set ds. is_digit d \<Longrightarrow> min_width_chars c = Some p \<Longrightarrow>
     do_print_loop fputc (in_spec st c) (ds @ fmt) = do_print_loop fputc (in_spec st c) fmt"
proof (induction ds)
  case Nil
  then show ?case by simp
next
  case (Cons d ds)
  then have "is_digit d" by simp
  then have "48 \<le> d \<and> d \<le> 57 \<and> d \<noteq> 0" by (auto simp: is_digit_def)
  with Cons show ?case by simp
qed

lemma loop_after_width:
  "\<not> is_digit d \<Longrightarrow> d \<noteq> 0 \<Longrightarrow> min_width_chars c = Some p \<Longrightarrow> atoi p = Inr w \<Longrightarrow>
     do_print_loop fputc (in_spec st c) (d # fmt) =
     do_print_loop fputc (in_spec st (c\<lparr>min_width := w, min_width_chars := None\<rparr>)) (d # fmt)"
  by (auto simp: is_digit_def)

lemma loop_conv:
  assumes "min_width_chars c = None" and "k \<noteq> ConvPtr"
  shows "do_print_loop fputc (in_spec st c) (conv_letter k # fmt) =
     bindr (bindr (min_width_call fputc (in_spec st c) (conv_print k fputc)) (\<lambda>s. Inr (PrintState_reset s)))
       (\<lambda>s. do_print_loop fputc s fmt)"
  using assms by (cases k) (simp_all add: handle_conversion_spec_def)

lemma loop_conv_ptr:
  assumes "min_width_chars c = None"
  shows "do_print_loop fputc (in_spec st c) (112 # fmt) =
     bindr (puts_max fputc (in_spec st (c\<lparr>long_modifiers := 1, min_width := 16, zero_pad := True\<rparr>)) [48, 120])
       (\<lambda>s1. bindr (bindr (min_width_call fputc s1 (print_hex fputc)) (\<lambda>s. Inr (PrintState_reset s)))
         (\<lambda>s. do_print_loop fputc s fmt))"
  using assms
  by (simp add: handle_conversion_spec_def POINTER_BITS_def putchar_maybe_max_puts bindr_assoc
      puts_max_append [of _ _ "[48]" "[120]", simplified])

declare do_print_loop.simps(2) [simp del]

lemma radix_hd: "0 < n \<Longrightarrow> 2 \<le> b \<Longrightarrow> b \<le> 10 \<Longrightarrow> \<exists>d ds. radix b n = d # ds \<and> d \<noteq> 48"
proof (induction n rule: less_induct)
  case (less n)
  show ?case
  proof (cases "n < b")
    case True
    have "unat (digit_char n) \<noteq> unat (48 :: byte)"
      using unat_digit_char [of n] True less.prems by simp
    with True show ?thesis by (auto simp: radix_small)
  next
    case False
    then have "0 < n div b" "n div b < n" using less.prems by (simp_all add: div_greater_zero_iff)
    then obtain d ds where "radix b (n div b) = d # ds" "d \<noteq> 48" using less by blast
    with False less.prems show ?thesis by (simp add: radix_step)
  qed
qed

lemma loop_width:
  assumes n: "0 < n" "n < 2 ^ 31" and d: "\<not> is_digit d" "d \<noteq> 0" and c: "min_width_chars c = None"
  shows "do_print_loop fputc (in_spec st c) (radix 10 n @ d # fmt) =
     do_print_loop fputc (in_spec st (c\<lparr>min_width := of_nat n\<rparr>)) (d # fmt)"
proof -
  obtain e es where e: "radix 10 n = e # es" "e \<noteq> 48" using radix_hd [of n 10] n by auto
  then have digits: "is_digit e" "\<forall>x\<in>set es. is_digit x"
    using decimal_digits [of _ n] by (simp_all add: e)
  then have e_range: "48 \<le> e \<and> e \<le> 57 \<and> e \<noteq> 0" by (auto simp: is_digit_def)
  have at: "atoi (e # es @ d # fmt) = Inr (of_nat n)"
  proof -
    have "atoi (radix 10 n @ d # fmt) = Inr (of_nat (decimal_value (radix 10 n)))"
      by (rule atoi_number) (use d in \<open>auto intro: decimal_digits\<close>)
    then show ?thesis by (simp only: decimal_value_radix) (simp only: e append_Cons)
  qed
  have "do_print_loop fputc (in_spec st c) (radix 10 n @ d # fmt) =
      do_print_loop fputc (in_spec st (c\<lparr>min_width_chars := Some (e # es @ d # fmt)\<rparr>)) (es @ d # fmt)"
    using e(2) e_range c by (simp add: e do_print_loop.simps(2))
  also have "\<dots> = do_print_loop fputc (in_spec st (c\<lparr>min_width_chars := Some (e # es @ d # fmt)\<rparr>)) (d # fmt)"
    using digits by (intro loop_digits) simp_all
  also have "\<dots> =
      do_print_loop fputc (in_spec st (c\<lparr>min_width := of_nat n, min_width_chars := None\<rparr>)) (d # fmt)"
    using loop_after_width [OF d _ at, of "c\<lparr>min_width_chars := Some (e # es @ d # fmt)\<rparr>"] by simp
  finally show ?thesis using c by (cases c) simp
qed

section \<open>A directive prints its meaning\<close>

lemma conv_letter_not_digit [simp]: "\<not> is_digit (conv_letter k)" "conv_letter k \<noteq> 0"
  by (cases k; simp add: is_digit_def)+

lemma not_digit_108 [simp]: "\<not> is_digit 108"
  by (simp add: is_digit_def)

text \<open>The modifiers that the string of a conversion sets.\<close>

definition conv_spec :: "bool \<Rightarrow> bool \<Rightarrow> bool \<Rightarrow> nat \<Rightarrow> nat \<Rightarrow> ConversionSpec" where
  "conv_spec left alt zero n l =
     \<lparr>long_modifiers = of_nat l, zero_pad = zero, left_justify = left, alternative = alt,
      min_width_chars = None, min_width = of_nat n\<rparr>"

lemma loop_flags:
  assumes "clean st"
  shows "do_print_loop fputc st
      ([37] @ (if left then [45] else []) @ (if alt then [35] else []) @ (if zero then [48] else []) @ fmt) =
    do_print_loop fputc (in_spec st (conv_spec left alt zero 0 0)) fmt"
  using loop_percent [OF assms]
  by (simp add: loop_minus loop_hash loop_zero conv_spec_def ConversionSpec_zero_def)

lemma loop_width_value:
  assumes "width_value w (arguments st) = Some (n, args)"
    and "case w of Width n \<Rightarrow> 0 < n \<and> n < 2 ^ 31 | _ \<Rightarrow> True"
    and "\<not> is_digit d" and "d \<noteq> 0"
  shows "do_print_loop fputc (in_spec st (conv_spec left alt zero 0 0)) (width_string w @ d # fmt) =
     do_print_loop fputc (in_spec (st\<lparr>arguments := args\<rparr>) (conv_spec left alt zero n 0)) (d # fmt) \<and>
     n < 2 ^ 31"
proof (cases w)
  case NoWidth
  with assms(1) show ?thesis by auto
next
  case (Width m)
  with assms have m: "n = m" "args = arguments st" "0 < m" "m < 2 ^ 31" by simp_all
  show ?thesis
    using loop_width [OF m(3,4) assms(3,4), of "conv_spec left alt zero 0 0"] m Width
    by (simp add: conv_spec_def)
next
  case StarWidth
  with assms(1) obtain v where v: "arguments st = VWord v # args" "0 \<le> sint (ucast v :: u32)"
      "n = unat (ucast v :: u32)"
    by (auto elim!: width_value.elims split: if_splits)
  have "sint (ucast v :: u32) < 2 ^ (LENGTH(32) - 1)" by (rule sint_lt)
  then have "n < 2 ^ 31" using v(2,3) by (simp add: unat_nonneg nat_less_iff)
  moreover have "(of_nat n :: u32) = ucast v" using v(3) by simp
  ultimately show ?thesis
    using StarWidth v loop_star [OF _ v(1), of "conv_spec left alt zero 0 0"]
    by (simp add: conv_spec_def)
qed

lemma puts_max_args:
  "bindr (puts_max fputc st cs) (\<lambda>s. f (s\<lparr>arguments := a\<rparr>)) =
   bindr (puts_max fputc (st\<lparr>arguments := a\<rparr>) cs) f"
  by (cases st) (auto simp: puts_max_def bindr_def split: sum.splits)

lemma puts_max_in_spec_reset:
  "bindr (puts_max fputc (in_spec st c) cs) (\<lambda>s. Inr (PrintState_reset s)) =
   bindr (puts_max fputc st cs) (\<lambda>s. Inr (PrintState_reset s))"
  by (cases st) (auto simp: puts_max_def bindr_def in_spec_def PrintState_reset_def split: sum.splits)

lemma puts_max_clean_reset:
  "clean st \<Longrightarrow> bindr (puts_max fputc st cs) (\<lambda>s. Inr (PrintState_reset s)) = puts_max fputc st cs"
  by (cases st) (auto simp: puts_max_def bindr_def clean_def PrintState_reset_def split: sum.splits)

lemma clean_puts_max: "clean st \<Longrightarrow> puts_max fputc st cs = Inr s \<Longrightarrow> clean s"
  by (auto simp: puts_max_def clean_def bindr_Inr_iff)

lemma clean_args [simp]: "clean (st\<lparr>arguments := a\<rparr>) \<longleftrightarrow> clean st"
  by (simp add: clean_def)

lemma conv_text_ptr: "conv_text ConvPtr alt wide args = conv_text ConvHex alt True args"
  by (cases "(ConvPtr, alt, wide, args)" rule: conv_text.cases) auto

lemma min_width_call_conv:
  assumes "conv_text k (alternative c) (long_modifiers c \<noteq> 0) (arguments st) = Some (tx, args)"
    and "k = ConvPtr \<Longrightarrow> long_modifiers c \<noteq> 0"
    and "unat (min_width c) < 2 ^ 31" and "length tx < 2 ^ 31" and c: "conversion st = c"
  shows "bindr (min_width_call fputc st (conv_print k fputc)) (\<lambda>s. Inr (PrintState_reset s)) =
     bindr (puts_max fputc (st\<lparr>arguments := args\<rparr>) (pad (left_justify c) (zero_pad c) (unat (min_width c)) tx))
       (\<lambda>s. Inr (PrintState_reset s))"
  unfolding c [symmetric]
proof (rule min_width_call_puts)
  fix s :: "('a, 'b) PrintState"
  assume "arguments s = arguments st" "alternative (conversion s) = alternative (conversion st)"
    "long_modifiers (conversion s) = long_modifiers (conversion st)"
  then show "conv_print k fputc s = puts_minwidth fputc (s\<lparr>arguments := args\<rparr>) tx"
    using assms by (intro conv_print_puts) simp_all
qed (use assms in simp_all)

lemma of_nat_byte_zero: "l < 256 \<Longrightarrow> (of_nat l :: byte) = 0 \<longleftrightarrow> l = 0"
  by (auto simp: word_of_nat_eq_0_iff dest: nat_dvd_not_less)

lemma loop_conv_directive:
  assumes "clean st" and ok: "directive_ok (Conv left alt zero w l k)"
    and dt: "directive_text (Conv left alt zero w l k) (arguments st) = Some (out, args)"
  shows "do_print_loop fputc st (directive_string (Conv left alt zero w l k) @ fmt) =
     bindr (puts_max fputc (st\<lparr>arguments := args\<rparr>) out) (\<lambda>s. do_print_loop fputc s fmt)"
proof -
  obtain n args1 tx where n: "width_value w (arguments st) = Some (n, args1)"
    and tx: "conv_text k alt (l \<noteq> 0) args1 = Some (tx, args)" and len: "length tx < 2 ^ 31"
    and out: "out = (if k = ConvPtr then [48, 120] @ pad left True 16 tx else pad left zero n tx)"
    using dt by (auto split: option.splits if_splits)
  define st1 where "st1 = st\<lparr>arguments := args1\<rparr>"
  define c where "c = conv_spec left alt zero n l"
  have c [simp]: "min_width_chars c = None" "alternative c = alt" "left_justify c = left"
      "zero_pad c = zero" "long_modifiers c = of_nat l" "min_width c = of_nat n"
    by (simp_all add: c_def conv_spec_def)
  have l: "(of_nat l :: byte) \<noteq> 0 \<longleftrightarrow> l \<noteq> 0" using ok by (simp add: of_nat_byte_zero)
  define d where "d = (if l = 0 then conv_letter k else 108)"
  obtain rest where rest: "replicate l 108 @ conv_letter k # fmt = d # rest"
    by (cases l) (auto simp: d_def)
  have d: "\<not> is_digit d" "d \<noteq> 0" by (simp_all add: d_def)
  have width: "do_print_loop fputc st (directive_string (Conv left alt zero w l k) @ fmt) =
      do_print_loop fputc (in_spec st1 (conv_spec left alt zero n 0)) (replicate l 108 @ conv_letter k # fmt)"
    and n31: "n < 2 ^ 31"
    using loop_flags [OF assms(1), of fputc left alt zero "width_string w @ d # rest"]
      loop_width_value [OF n _ d, of fputc left alt zero rest] ok rest
    by (simp_all add: st1_def)
  have letter: "do_print_loop fputc st (directive_string (Conv left alt zero w l k) @ fmt) =
      do_print_loop fputc (in_spec st1 c) (conv_letter k # fmt)"
    unfolding width by (subst loop_longs) (simp_all add: conv_spec_def c_def)
  have unat_n: "unat (of_nat n :: u32) = n" using n31 by (simp add: unat_of_nat take_bit_nat_eq_self)
  have result: "bindr (bindr (puts_max fputc (in_spec (st\<lparr>arguments := args\<rparr>) c') tx') (\<lambda>s. Inr (PrintState_reset s)))
        (\<lambda>s. do_print_loop fputc s fmt) =
      bindr (puts_max fputc (st\<lparr>arguments := args\<rparr>) tx') (\<lambda>s. do_print_loop fputc s fmt)" for c' tx'
    using assms(1) by (simp add: puts_max_in_spec_reset puts_max_clean_reset)
  show ?thesis
  proof (cases "k = ConvPtr")
    case False
    have "bindr (min_width_call fputc (in_spec st1 c) (conv_print k fputc)) (\<lambda>s. Inr (PrintState_reset s)) =
        bindr (puts_max fputc (in_spec (st\<lparr>arguments := args\<rparr>) c) (pad left zero n tx)) (\<lambda>s. Inr (PrintState_reset s))"
      using min_width_call_conv [of k c "in_spec st1 c" tx args fputc] False tx len n31
      by (simp add: l unat_n st1_def)
    then show ?thesis
      unfolding letter out using False result [of c "pad left zero n tx"]
      by (simp only: loop_conv [OF c(1) False] if_False)
  next
    case True
    define c' where "c' = c\<lparr>long_modifiers := 1, min_width := 16, zero_pad := True\<rparr>"
    have hex: "conv_text ConvHex alt True args1 = Some (tx, args)"
      using tx True by (simp only: conv_text_ptr)
    have real: "bindr (min_width_call fputc s (print_hex fputc)) (\<lambda>s. Inr (PrintState_reset s)) =
        bindr (puts_max fputc (s\<lparr>arguments := args\<rparr>) (pad left True 16 tx)) (\<lambda>s. Inr (PrintState_reset s))"
      if "puts_max fputc (in_spec st1 c') [48, 120] = Inr s" for s
    proof -
      have "conversion s = c'" "arguments s = args1"
        using puts_max_fields [OF that] by (simp_all add: st1_def)
      then show ?thesis
        using min_width_call_conv [of ConvHex c' s tx args fputc] hex len by (simp add: c'_def)
    qed
    have "do_print_loop fputc (in_spec st1 c) (conv_letter k # fmt) =
        bindr (bindr (puts_max fputc (in_spec st1 c') [48, 120])
          (\<lambda>s. bindr (puts_max fputc (s\<lparr>arguments := args\<rparr>) (pad left True 16 tx))
             (\<lambda>s. Inr (PrintState_reset s)))) (\<lambda>s. do_print_loop fputc s fmt)"
      using True by (simp add: loop_conv_ptr bindr_assoc real flip: c'_def cong: bindr_cong)
    also have "\<dots> = bindr (bindr (puts_max fputc (in_spec (st\<lparr>arguments := args\<rparr>) c')
          ([48, 120] @ pad left True 16 tx)) (\<lambda>s. Inr (PrintState_reset s))) (\<lambda>s. do_print_loop fputc s fmt)"
      unfolding puts_max_append bindr_assoc
      by (subst puts_max_args) (simp add: st1_def)
    also have "\<dots> = bindr (puts_max fputc (st\<lparr>arguments := args\<rparr>) out) (\<lambda>s. do_print_loop fputc s fmt)"
      unfolding result using True by (simp add: out)
    finally show ?thesis unfolding letter .
  qed
qed

lemma loop_directive:
  assumes st: "clean st" and ok: "directive_ok d"
    and dt: "directive_text d (arguments st) = Some (out, args)"
  shows "do_print_loop fputc st (directive_string d @ fmt) =
     bindr (puts_max fputc (st\<lparr>arguments := args\<rparr>) out) (\<lambda>s. do_print_loop fputc s fmt)"
proof (cases d)
  case (Lit c)
  with assms show ?thesis
    by (auto simp: do_print_loop.simps(2) putchar_maybe_max_puts clean_def)
next
  case Percent
  have "do_print_loop fputc st (directive_string d @ fmt) =
      bindr (bindr (puts_max fputc (in_spec st ConversionSpec_zero) [37]) (\<lambda>s. Inr (PrintState_reset s)))
        (\<lambda>s. do_print_loop fputc s fmt)"
    using Percent loop_percent [OF st, of fputc "37 # fmt"]
    by (simp add: do_print_loop.simps(2) handle_conversion_spec_def putchar_maybe_max_puts
        ConversionSpec_zero_def)
  also have "\<dots> = bindr (puts_max fputc st [37]) (\<lambda>s. do_print_loop fputc s fmt)"
    by (simp only: puts_max_in_spec_reset puts_max_clean_reset [OF st])
  finally show ?thesis using Percent dt by auto
next
  case (Conv left alt zero w l k)
  with assms show ?thesis using loop_conv_directive by blast
qed

lemma loop_format:
  assumes "clean st" and "\<forall>d\<in>set ds. directive_ok d"
    and "format_text ds (arguments st) = Some (out, args)"
  shows "do_print_loop fputc st (format_string ds @ 0 # rest) =
     puts_max fputc (st\<lparr>arguments := args\<rparr>) out"
  using assms
proof (induction ds arbitrary: st out)
  case Nil
  then show ?case by (simp add: format_string_def do_print_loop.simps(2))
next
  case (Cons d ds)
  then obtain out1 args1 out2 where d: "directive_text d (arguments st) = Some (out1, args1)"
    and ds: "format_text ds args1 = Some (out2, args)" and out: "out = out1 @ out2"
    by (auto split: option.splits)
  have "do_print_loop fputc st (format_string (d # ds) @ 0 # rest) =
      bindr (puts_max fputc (st\<lparr>arguments := args1\<rparr>) out1)
        (\<lambda>s. do_print_loop fputc s (format_string ds @ 0 # rest))"
    using loop_directive [OF Cons.prems(1) _ d] Cons.prems(2) by (simp add: format_string_def)
  also have "\<dots> = bindr (puts_max fputc (st\<lparr>arguments := args1\<rparr>) out1)
        (\<lambda>s. puts_max fputc (s\<lparr>arguments := args\<rparr>) out2)"
  proof (rule bindr_cong [OF refl])
    fix s
    assume s: "puts_max fputc (st\<lparr>arguments := args1\<rparr>) out1 = Inr s"
    then have "clean s" using clean_puts_max [OF _ s] Cons.prems(1) by simp
    moreover have "arguments s = args1" using puts_max_fields [OF s] by simp
    ultimately show "do_print_loop fputc s (format_string ds @ 0 # rest) =
        puts_max fputc (s\<lparr>arguments := args\<rparr>) out2"
      using Cons.IH [of s out2] Cons.prems(2) ds by simp
  qed
  also have "\<dots> = puts_max fputc (st\<lparr>arguments := args\<rparr>) out"
    unfolding out puts_max_append by (subst puts_max_args) simp
  finally show ?case .
qed

text \<open>A whole call: what is emitted to the target, and the count.\<close>

lemma do_print_format:
  assumes "\<forall>d\<in>set ds. directive_ok d" and "format_text ds args = Some (out, args')"
  shows "PrintTarget_do_print fputc tgt (format_string ds @ 0 # rest) args m w =
     bindr (emit fputc m 0 tgt w out)
       (\<lambda>(t, w'). Inr \<lparr>in_conversion_spec = False, conversion = ConversionSpec_zero,
          printed = of_nat (length out), target = t, arguments = args', max_output = m, world = w'\<rparr>)"
  using loop_format [of _ ds out args' fputc rest] assms
  by (simp add: PrintTarget_do_print_def clean_def puts_max_def)

section \<open>Printing into an array\<close>

lemma emit_array:
  "i \<le> length a \<Longrightarrow> emit fputc NO_MAX_OUTPUT n (TargetBuffer a i) w cs =
     (if i + length cs \<le> length a
      then Inr (TargetBuffer (take i a @ map ucast cs @ drop (i + length cs) a) (i + length cs), w)
      else Inl OutOfBounds)"
proof (induction cs arbitrary: n a i)
  case Nil
  then show ?case by simp
next
  case (Cons c cs)
  then show ?case
    by (cases "i < length a") (auto simp: NO_MAX_OUTPUT_def take_Suc_conv_app_nth)
qed

text \<open>With a maximum \<open>m > 0\<close> the first \<open>m - 1\<close> characters are written and the rest is counted.\<close>

lemma within_maximum:
  assumes "n < 2 ^ 31"
  shows "maximum m \<noteq> 0 \<and> scast (of_nat n :: u32) < maximum m - 1 \<longleftrightarrow> n < unat (maximum m) - 1"
proof (cases "maximum m = 0")
  case True
  then show ?thesis by simp
next
  case False
  then have "unat (maximum m - 1) = unat (maximum m) - 1" by (simp add: unat_minus_one)
  moreover have "unat (of_nat n :: u64) = n"
    using assms by (simp add: unat_of_nat take_bit_nat_eq_self)
  ultimately show ?thesis using False assms by (simp add: word_less_nat_alt scast_small)
qed

lemma emit_counted:
  "enabled m \<Longrightarrow> unat (maximum m) - 1 \<le> n \<Longrightarrow> n + length cs < 2 ^ 31 \<Longrightarrow>
     emit fputc m (of_nat n) t w cs = Inr (t, w)"
proof (induction cs arbitrary: n)
  case Nil
  then show ?case by simp
next
  case (Cons c cs)
  have "\<not> (maximum m \<noteq> 0 \<and> scast (of_nat n :: u32) < maximum m - 1)"
    using Cons.prems by (subst within_maximum) simp_all
  moreover have "(of_nat n + 1 :: u32) = of_nat (Suc n)" by (simp add: add.commute)
  ultimately show ?case using Cons.IH [of "Suc n"] Cons.prems by (auto simp del: of_nat_Suc)
qed

lemma emit_bounded:
  "enabled m \<Longrightarrow> unat (maximum m) \<le> length a \<Longrightarrow> i \<le> unat (maximum m) - 1 \<Longrightarrow> i + length cs < 2 ^ 31 \<Longrightarrow>
   emit fputc m (of_nat i) (TargetBuffer a i) w cs =
     (let k = min (length cs) (unat (maximum m) - 1 - i) in
      Inr (TargetBuffer (take i a @ map ucast (take k cs) @ drop (i + k) a) (i + k), w))"
proof (induction cs arbitrary: i a)
  case Nil
  then show ?case by simp
next
  case (Cons c cs)
  have next_i: "(of_nat i + 1 :: u32) = of_nat (Suc i)" by (simp add: add.commute)
  have bound: "maximum m \<noteq> 0 \<and> scast (of_nat i :: u32) < maximum m - 1 \<longleftrightarrow> i < unat (maximum m) - 1"
    using Cons.prems by (intro within_maximum) simp
  show ?case
  proof (cases "i < unat (maximum m) - 1")
    case True
    then have "i < length a" "unat (maximum m) - 1 - i = Suc (unat (maximum m) - 1 - Suc i)"
      using Cons.prems by auto
    with True bound next_i Cons.IH [of "a[i := ucast c]" "Suc i"] Cons.prems show ?thesis
      by (simp add: Let_def take_Suc_conv_app_nth del: of_nat_Suc)
  next
    case False
    then show ?thesis
      using emit_counted [of m i "c # cs" fputc "TargetBuffer a i" w] Cons.prems
      by (simp del: emit.simps)
  qed
qed

section \<open>The printf family prints the text of its format\<close>

lemma sprintf_format:
  assumes "\<forall>d\<in>set ds. directive_ok d" and "format_text ds args = Some (out, args')"
    and "length out < 2 ^ 31"
  shows "sprintf buffer (format_string ds @ 0 # rest) args =
     (if length out < length buffer
      then Inr (of_nat (length out), map ucast out @ 0 # drop (length out + 1) buffer)
      else Inl OutOfBounds)"
proof -
  have "unat (of_nat (length out) :: u32) = length out"
    using assms(3) by (simp add: unat_of_nat take_bit_nat_eq_self)
  then show ?thesis
    by (cases "length out = length buffer")
      (simp_all add: sprintf_def do_print_format [OF assms(1,2)] emit_array list_update_append
        Cons_nth_drop_Suc [symmetric])
qed

text \<open>
  C7: \<open>sprintf\<close> of a well-formed format writes the text of the format and a NUL at the start of the
  array and returns the length of the text, provided that both fit; the rest of the array is kept.
  An array too small for them is overrun.
\<close>

theorem sprintf_correct:
  assumes "\<forall>d\<in>set ds. directive_ok d" and "format_text ds args = Some (out, args')"
    and "length out < 2 ^ 31"
  shows "sprintf buffer (format_string ds @ 0 # rest) args =
     (if length out < length buffer
      then Inr (of_nat (length out), map ucast out @ 0 # drop (length out + 1) buffer)
      else Inl OutOfBounds)"
  using assms by (rule sprintf_format)

lemma sprintf_correct_witness:
  "sprintf ([7, 7, 7, 7, 7, 7, 7, 7]) (format_string [Lit 120, Conv False False False (Width 4) 0 ConvSigned] @ [0])
      [VWord (- 42)] = Inr (5, [120, 32, 45, 52, 50, 0, 7, 7])"
proof -
  have "format_text [Lit 120, Conv False False False (Width 4) 0 ConvSigned] [VWord (- 42)] =
      Some ([120, 32, 45, 52, 50], [])"
    by (simp add: pad_def signed_text_def radix.simps digit_char_def)
  from sprintf_correct [OF _ this, of "[7, 7, 7, 7, 7, 7, 7, 7]" "[]"] show ?thesis
    by simp
qed

lemma snprintf_format:
  assumes "\<forall>d\<in>set ds. directive_ok d" and "format_text ds args = Some (out, args')"
    and "length out < 2 ^ 31" and "unat bufsz \<le> length buffer"
  shows "snprintf buffer bufsz (format_string ds @ 0 # rest) args =
     Inr (of_nat (length out),
       if bufsz = 0 then buffer
       else let k = min (length out) (unat bufsz - 1) in
         map ucast (take k out) @ 0 # drop (k + 1) buffer)"
proof -
  let ?m = "\<lparr>enabled = True, maximum = bufsz\<rparr>"
  define k where "k = min (length out) (unat bufsz - 1)"
  have emitted: "emit no_fputc ?m 0 (TargetBuffer buffer 0) () out =
      Inr (TargetBuffer (map ucast (take k out) @ drop k buffer) k, ())"
    using emit_bounded [of ?m buffer 0 out no_fputc "()"] assms by (simp add: k_def Let_def)
  have len: "unat (of_nat (length out) :: u32) = length out"
    using assms(3) by (simp add: unat_of_nat take_bit_nat_eq_self)
  have "unat (of_nat (length out) :: u64) = length out"
    using assms(3) by (simp add: unat_of_nat take_bit_nat_eq_self)
  then have fits: "scast (of_nat (length out) :: u32) < bufsz \<longleftrightarrow> length out < unat bufsz"
    using assms(3) by (simp add: word_less_nat_alt scast_small)
  show ?thesis
  proof (cases "bufsz = 0")
    case True
    then show ?thesis
      using emitted by (simp add: snprintf_def do_print_format [OF assms(1,2)] k_def)
  next
    case False
    then have pos: "0 < unat bufsz" by (simp add: unat_gt_0)
    then have "k < length buffer" using assms(4) by (simp add: k_def)
    note unfold = snprintf_def do_print_format [OF assms(1,2)] emitted Let_def fits
    show ?thesis
    proof (cases "length out < unat bufsz")
      case True
      then have "k = length out" by (simp add: k_def)
      with True \<open>k < length buffer\<close> \<open>bufsz \<noteq> 0\<close> show ?thesis
        by (simp add: unfold len list_update_append Cons_nth_drop_Suc [symmetric] k_def [symmetric]
            del: of_nat_Suc) 
    next
      case False
      then have "unat (bufsz - 1) = k" "k < length out"
        using pos \<open>bufsz \<noteq> 0\<close> by (simp_all add: k_def unat_minus_one)
      with False \<open>k < length buffer\<close> \<open>bufsz \<noteq> 0\<close> show ?thesis
        by (simp add: unfold list_update_append Cons_nth_drop_Suc [symmetric] flip: k_def One_nat_def)
          (simp only: Suc_eq_plus1)
    qed
  qed
qed

text \<open>
  C39: \<open>snprintf\<close> with a \<open>bufsz\<close> that the array has room for never leaves the array: it writes the
  longest prefix of the text that leaves room for the NUL within \<open>bufsz\<close>, writes nothing when \<open>bufsz\<close> is
  0, and returns the length of the whole text.
\<close>

theorem snprintf_correct:
  assumes "\<forall>d\<in>set ds. directive_ok d" and "format_text ds args = Some (out, args')"
    and "length out < 2 ^ 31" and "unat bufsz \<le> length buffer"
  shows "snprintf buffer bufsz (format_string ds @ 0 # rest) args =
     Inr (of_nat (length out),
       if bufsz = 0 then buffer
       else let k = min (length out) (unat bufsz - 1) in
         map ucast (take k out) @ 0 # drop (k + 1) buffer)"
  using assms by (rule snprintf_format)

lemma snprintf_correct_witness:
  "snprintf ([7, 7, 7, 7, 7, 7, 7, 7]) 4 (format_string [Conv False False False NoWidth 0 ConvStr] @ [0])
      [VStr [97, 98, 99, 100, 101, 0]] = Inr (5, [97, 98, 99, 0, 7, 7, 7, 7])"
proof -
  have "format_text [Conv False False False NoWidth 0 ConvStr] [VStr [97, 98, 99, 100, 101, 0]] =
      Some ([97, 98, 99, 100, 101], [])"
    by (simp add: pad_def)
  from snprintf_correct [OF _ this, of 4 "[7, 7, 7, 7, 7, 7, 7, 7]" "[]"] show ?thesis
    by simp
qed

end
