(* ===== verification/Stdio_Print.thy ===== *)
theory Stdio_Print
  imports Stdio_Spec
begin

text \<open>
  The interface that the print functions need of a stream, and what they do with it: a format is
  printed to any stream whose \<open>fputc\<close> appends a character.  Then what a printed number reads back as,
  and what a negative \<open>*\<close> width does.
\<close>

section \<open>Streams\<close>

text \<open>
  \<open>wf\<close> holds of the states the stream may be used in, \<open>out\<close> is the text that has been put to it.
\<close>

locale output_stream =
  fixes fputc :: "('f, 'w) fputc_fun"
    and stream :: 'f
    and wf :: "'w \<Rightarrow> bool"
    and out :: "'w \<Rightarrow> byte list"
  assumes fputc_appends:
    "wf w \<Longrightarrow> \<exists>r w'. fputc ch stream w = Inr (r, w') \<and> wf w' \<and> out w' = out w @ [ucast ch]"
begin

lemma emit_stream:
  "wf w \<Longrightarrow> \<exists>w'. emit fputc NO_MAX_OUTPUT n (TargetStream stream) w cs = Inr (TargetStream stream, w') \<and>
     wf w' \<and> out w' = out w @ map ucast cs"
proof (induction cs arbitrary: n w)
  case Nil
  then show ?case by simp
next
  case (Cons c cs)
  obtain r w1 where c: "fputc c stream w = Inr (r, w1)" "wf w1" "out w1 = out w @ [ucast c]"
    using fputc_appends [OF Cons.prems] by blast
  then show ?case using Cons.IH [OF c(2), of "n + 1"] by (auto simp: NO_MAX_OUTPUT_def)
qed

lemma fprintf_format:
  assumes "wf w" and "\<forall>d\<in>set ds. directive_ok d" and "format_text ds args = Some (text, args')"
  shows "\<exists>w'. fprintf fputc stream (format_string ds @ 0 # rest) args w = Inr (of_nat (length text), w') \<and>
     wf w' \<and> out w' = out w @ map ucast text"
  using emit_stream [OF assms(1), of 0 "text"]
  by (auto simp: fprintf_def do_print_format [OF assms(2,3)])

lemma printf_format:
  assumes "wf w" and "\<forall>d\<in>set ds. directive_ok d" and "format_text ds args = Some (text, args')"
  shows "\<exists>w'. printf fputc stream (format_string ds @ 0 # rest) args w = Inr (of_nat (length text), w') \<and>
     wf w' \<and> out w' = out w @ map ucast text"
  using fprintf_format [OF assms] by (simp add: fprintf_def printf_def)

end

section \<open>Reading a printed number back\<close>

lemma length_signed_text:
  fixes v :: u32
  shows "length (signed_text (sint v)) \<le> 11"
proof -
  have "sint v < 2 ^ (LENGTH(32) - 1)" "- (2 ^ (LENGTH(32) - 1)) \<le> sint v"
    by (rule sint_lt) (rule sint_ge)
  then have "nat (sint v) < 10 ^ Suc 9" "nat (- sint v) < 10 ^ Suc 9" by simp_all
  then show ?thesis
    using length_radix [of 10 "nat (sint v)" 9] length_radix [of 10 "nat (- sint v)" 9]
    by (simp add: signed_text_def)
qed

lemma atoi_signed_text:
  fixes v :: u32
  shows "atoi (signed_text (sint v) @ 0 # rest) = Inr v"
proof -
  have digits: "\<forall>d\<in>set (radix 10 n). is_digit d" for n using decimal_digits by blast
  have nul: "\<not> is_digit 0" by (simp add: is_digit_def)
  show ?thesis
  proof (cases "sint v < 0")
    case True
    then have "- of_nat (nat (- sint v)) = v" by simp
    with True show ?thesis
      by (simp add: signed_text_def atoi_negative_number [OF radix_not_Nil digits nul])
  next
    case False
    then have "of_nat (nat (sint v)) = v" by simp
    with False show ?thesis
      by (simp add: signed_text_def atoi_number [OF radix_not_Nil digits nul])
  qed
qed

lemma map_ucast_chars: "map ucast (chars cs) = cs"
  by (induction cs) (simp_all add: ucast_up_ucast_id is_up)

text \<open>
  C40: a 32-bit integer printed with \<open>"%d"\<close> into an array of at least 12 bytes reads back with \<open>atoi\<close>
  as itself, the least value included.
\<close>

theorem sprintf_atoi:
  fixes w :: u64
  assumes "12 \<le> length buffer"
  shows "\<exists>n buffer'. sprintf buffer (bytes_of ''%d'' @ 0 # rest) [VWord w] = Inr (n, buffer') \<and>
     length buffer' = length buffer \<and> atoi buffer' = Inr (ucast w)"
proof -
  let ?text = "signed_text (sint (ucast w :: u32))"
  have len: "length ?text \<le> 11" by (rule length_signed_text)
  have "format_string [Conv False False False NoWidth 0 ConvSigned] = bytes_of ''%d''"
    by (simp add: format_string_def bytes_of_def)
  moreover have "format_text [Conv False False False NoWidth 0 ConvSigned] [VWord w] =
      Some (chars ?text, [])"
    using len by (simp add: pad_def)
  ultimately have "sprintf buffer (bytes_of ''%d'' @ 0 # rest) [VWord w] =
      Inr (of_nat (length ?text), ?text @ 0 # drop (length ?text + 1) buffer)"
    using sprintf_format [of "[Conv False False False NoWidth 0 ConvSigned]" "[VWord w]"
        "chars ?text" "[]" buffer rest] len assms by (simp add: map_ucast_chars)
  then show ?thesis using len assms by (simp add: atoi_signed_text)
qed

lemma sprintf_atoi_witness:
  "\<exists>n buffer'. sprintf (replicate 12 0) (bytes_of ''%d'' @ 0 # []) [VWord 0x80000000] = Inr (n, buffer') \<and>
     length buffer' = length (replicate 12 (0 :: byte)) \<and> atoi buffer' = Inr (ucast (0x80000000 :: u64))"
  by (rule sprintf_atoi) simp

section \<open>A negative width\<close>

text \<open>
  A negative \<open>*\<close> width is not the left justification it is in standard C: the number is not
  printed at all but its characters are counted, so \<open>sprintf\<close> keeps the old contents of the array
  before the NUL it writes.
\<close>

theorem sprintf_negative_width:
  assumes "sint (ucast w :: u32) < 0"
  shows "sprintf buffer (bytes_of ''%*d'' @ 0 # rest) [VWord w, VWord v] =
     (let n = length (signed_text (sint (ucast v :: u32))) in
      if n < length buffer then Inr (of_nat n, buffer[n := 0]) else Inl OutOfBounds)"
proof -
  let ?text = "signed_text (sint (ucast v :: u32))"
  let ?st = "\<lparr>in_conversion_spec = False, conversion = ConversionSpec_zero, printed = 0,
      target = TargetBuffer buffer 0, arguments = [VWord w, VWord v], max_output = NO_MAX_OUTPUT,
      world = ()\<rparr> :: (unit, unit) PrintState"
  let ?c = "ConversionSpec_zero\<lparr>min_width := ucast w\<rparr>"
  have w: "(ucast w :: u32) \<noteq> 0" using assms by auto
  have "length ?text \<le> 11" by (rule length_signed_text)
  then have len: "unat (of_nat (length ?text) :: u32) = length ?text"
    by (simp add: unat_of_nat take_bit_nat_eq_self)
  have fmt: "bytes_of ''%*d'' @ 0 # rest = 37 # 42 # conv_letter ConvSigned # 0 # rest"
    by (simp add: bytes_of_def)
  have "do_print_loop no_fputc ?st (bytes_of ''%*d'' @ 0 # rest) =
      do_print_loop no_fputc (in_spec (?st\<lparr>arguments := [VWord v]\<rparr>) ?c) (conv_letter ConvSigned # 0 # rest)"
    unfolding fmt
    by (subst loop_percent, simp add: clean_def, subst loop_star)
      (simp_all add: ConversionSpec_zero_def)
  also have "\<dots> = Inr (?st\<lparr>arguments := [], printed := of_nat (length ?text)\<rparr>)"
    using assms w
    by (subst loop_conv)
      (simp_all add: ConversionSpec_zero_def min_width_call_def print_signed_puts puts_minwidth_def
        do_print_loop.simps(2) PrintState_reset_def)
  finally show ?thesis
    by (simp add: sprintf_def PrintTarget_do_print_def Let_def len)
qed

lemma sprintf_negative_width_witness:
  "sprintf [9, 9, 9, 9, 9] (bytes_of ''%*d'' @ 0 # []) [VWord (- 6), VWord 42] = Inr (2, [9, 9, 0, 9, 9])"
  using sprintf_negative_width [of "- 6" "[9, 9, 9, 9, 9]" "[]" 42]
  by (simp add: signed_text_def radix.simps)

end
