(* ===== verification/Kernel_Buffer.thy ===== *)
theory Kernel_Buffer
  imports Libc_String
begin

text \<open>
  kernel/sbi.c and kernel/buffer.c: the calls to the firmware, and the line buffers of the console.
  The firmware is outside the program: what the kernel does to it is the list of its environment calls,
  oldest first, and what a call returns is an argument of the definitions that use it.
\<close>

section \<open>Calls of the firmware (kernel/sbi.c)\<close>

text \<open>The registers of an environment call: extension in a7, function in a6, arguments in a0 to a5.\<close>

record SbiCall =
  eid :: u64
  fid :: u64
  sbi_args :: "u64 list"

definition sbi_call :: "u64 \<Rightarrow> u64 \<Rightarrow> u64 list \<Rightarrow> SbiCall list \<Rightarrow> SbiCall list" where
  "sbi_call e f args trace =
     trace @ [\<lparr>eid = e, fid = f, sbi_args = args @ replicate (6 - length args) 0\<rparr>]"

definition sbi_putchar :: "u32 \<Rightarrow> SbiCall list \<Rightarrow> SbiCall list" where
  "sbi_putchar ch = sbi_call 0x1 0x0 [scast ch]"

definition sbi_getchar :: "SbiCall list \<Rightarrow> SbiCall list" where
  "sbi_getchar = sbi_call 0x2 0x0 []"

definition sbi_shutdown :: "u64 \<Rightarrow> SbiCall list \<Rightarrow> SbiCall list" where
  "sbi_shutdown type = sbi_call 0x53525354 0x0 [type, 0x0]"

definition sbi_set_timer :: "u64 \<Rightarrow> SbiCall list \<Rightarrow> SbiCall list" where
  "sbi_set_timer t =
     (if POINTER_BITS = 64 then sbi_call 0x0 0x0 [t]
      else sbi_call 0x0 0x0 [ucast (ucast t :: u32), ucast (ucast (drop_bit 32 t AND 0xffffffff) :: u32)])"

definition sbi_hart_start :: "u64 \<Rightarrow> u64 \<Rightarrow> u64 \<Rightarrow> SbiCall list \<Rightarrow> SbiCall list" where
  "sbi_hart_start hart_id start_addr opaque = sbi_call 0x48534D 0x0 [hart_id, start_addr, opaque]"

definition sbi_hart_stop :: "SbiCall list \<Rightarrow> SbiCall list" where
  "sbi_hart_stop = sbi_call 0x48534D 0x1 []"

text \<open>The text that the calls put on the console.\<close>

definition console_char :: "SbiCall \<Rightarrow> byte list" where
  "console_char c = (if eid c = 0x1 then [ucast (hd (sbi_args c))] else [])"

definition console :: "SbiCall list \<Rightarrow> byte list" where
  "console trace = concat (map console_char trace)"

lemma ucast_scast_byte [simp]: "(ucast (scast (ch :: u32) :: u64) :: byte) = ucast ch"
  by (rule bit_word_eqI) (auto simp: bit_unsigned_iff bit_signed_iff min_def)

lemma console_simps [simp]:
  "console [] = []" "console (xs @ ys) = console xs @ console ys"
  "console (sbi_putchar ch trace) = console trace @ [ucast ch]"
  "console (sbi_set_timer t trace) = console trace"
  by (simp_all add: console_def console_char_def sbi_putchar_def sbi_set_timer_def sbi_call_def)

section \<open>Buffers (kernel/buffer.c)\<close>

record Buffer =
  count :: nat
  capacity :: nat
  array :: "byte list"

definition Buffer_wrap :: "byte list \<Rightarrow> nat \<Rightarrow> error + Buffer" where
  "Buffer_wrap backing_array cap =
     bindr (memset backing_array 0 cap) (\<lambda>a. Inr \<lparr>count = 0, capacity = cap, array = a\<rparr>)"

definition Buffer_is_full :: "Buffer \<Rightarrow> bool" where
  "Buffer_is_full buffer \<longleftrightarrow> count buffer = capacity buffer"

text \<open>Whether the byte was pushed, and the buffer.\<close>

definition Buffer_try_push :: "Buffer \<Rightarrow> byte \<Rightarrow> error + bool \<times> Buffer" where
  "Buffer_try_push buffer b =
     (if Buffer_is_full buffer then Inr (False, buffer)
      else bindr (store_at (array buffer) (count buffer) b) (\<lambda>a.
        Inr (True, buffer\<lparr>array := a, count := count buffer + 1\<rparr>)))"

definition Buffer_clear :: "Buffer \<Rightarrow> error + Buffer" where
  "Buffer_clear buffer =
     bindr (memset (array buffer) 0 (count buffer)) (\<lambda>a. Inr (buffer\<lparr>array := a, count := 0\<rparr>))"

function Buffer_flush_loop :: "Buffer \<Rightarrow> nat \<Rightarrow> SbiCall list \<Rightarrow> error + SbiCall list" where
  "Buffer_flush_loop buffer i trace =
     (if i < count buffer
      then bindr (deref (array buffer) i) (\<lambda>c. Buffer_flush_loop buffer (i + 1) (sbi_putchar (ucast c) trace))
      else Inr trace)"
  by pat_completeness auto
termination
  by (relation "measure (\<lambda>(buffer, i, trace). count buffer - i)") auto

declare Buffer_flush_loop.simps [simp del]

definition Buffer_output_flush :: "Buffer \<Rightarrow> SbiCall list \<Rightarrow> error + Buffer \<times> SbiCall list" where
  "Buffer_output_flush buffer trace =
     bindr (Buffer_flush_loop buffer 0 trace) (\<lambda>trace1.
     bindr (Buffer_clear buffer) (\<lambda>buffer1. Inr (buffer1, trace1)))"

definition Buffer_output_handle_new :: "Buffer \<Rightarrow> byte \<Rightarrow> SbiCall list \<Rightarrow> error + Buffer \<times> SbiCall list" where
  "Buffer_output_handle_new buffer new trace =
     (if new = 10
      then bindr (Buffer_output_flush buffer trace) (\<lambda>(buffer1, trace1).
        Inr (buffer1, sbi_putchar (ucast new) trace1))
      else bindr (Buffer_try_push buffer new) (\<lambda>(pushed, buffer1).
        if \<not> pushed
        then bindr (Buffer_output_flush buffer1 trace) (\<lambda>(buffer2, trace2).
          bindr (Buffer_try_push buffer2 new) (\<lambda>(pushed2, buffer3).
            if pushed2 then Inr (buffer3, trace2) else Inl AssertFail))
        else Inr (buffer1, trace)))"

section \<open>A buffer delays the text, it never loses or reorders it\<close>

text \<open>A well-formed buffer has room, and \<open>pending\<close> is the text it still holds.\<close>

definition Buffer_ok :: "Buffer \<Rightarrow> bool" where
  "Buffer_ok b \<longleftrightarrow> count b \<le> capacity b \<and> capacity b \<le> length (array b) \<and> 0 < capacity b"

definition pending :: "Buffer \<Rightarrow> byte list" where
  "pending b = take (count b) (array b)"

lemma Buffer_wrap_ok:
  assumes "0 < cap" and "cap \<le> length backing"
  shows "\<exists>b. Buffer_wrap backing cap = Inr b \<and> Buffer_ok b \<and> pending b = [] \<and> capacity b = cap"
  using assms by (simp add: Buffer_wrap_def memset_eq Buffer_ok_def pending_def)

lemma ucast_u32_byte [simp]: "(ucast (ucast (c :: byte) :: u32) :: byte) = c"
  by (simp add: ucast_up_ucast_id is_up)

lemma Buffer_flush_loop_console:
  assumes "count b \<le> length (array b)"
  shows "\<exists>t. Buffer_flush_loop b i trace = Inr t \<and>
     console t = console trace @ drop i (take (count b) (array b))"
proof (induction "count b - i" arbitrary: i trace)
  case 0
  then show ?case by (subst Buffer_flush_loop.simps) auto
next
  case (Suc k)
  then have i: "i < count b" "i < length (array b)" using assms by simp_all
  then have "drop i (take (count b) (array b)) = array b ! i # drop (i + 1) (take (count b) (array b))"
    by (simp add: Cons_nth_drop_Suc [symmetric])
  moreover have "k = count b - (i + 1)" using Suc.hyps(2) by simp
  ultimately show ?case
    using i Suc.hyps(1) [of "i + 1" "sbi_putchar (ucast (array b ! i)) trace"]
    by (subst Buffer_flush_loop.simps) auto
qed

lemma Buffer_output_flush_ok:
  assumes "Buffer_ok b"
  shows "\<exists>b' t. Buffer_output_flush b trace = Inr (b', t) \<and> Buffer_ok b' \<and> pending b' = [] \<and>
     capacity b' = capacity b \<and> count b' = 0 \<and> console t = console trace @ pending b"
  using assms Buffer_flush_loop_console [of b 0 trace]
  by (auto simp: Buffer_output_flush_def Buffer_clear_def memset_eq Buffer_ok_def pending_def)

lemma Buffer_try_push_ok:
  assumes "Buffer_ok b"
  shows "if count b = capacity b then Buffer_try_push b c = Inr (False, b)
     else \<exists>b'. Buffer_try_push b c = Inr (True, b') \<and> Buffer_ok b' \<and> pending b' = pending b @ [c] \<and>
       capacity b' = capacity b"
  using assms
  by (auto simp: Buffer_try_push_def Buffer_is_full_def Buffer_ok_def pending_def
      take_Suc_conv_app_nth)

lemma Buffer_handle_new_ok:
  assumes "Buffer_ok b"
  shows "\<exists>b' t. Buffer_output_handle_new b c trace = Inr (b', t) \<and> Buffer_ok b' \<and>
     capacity b' = capacity b \<and> console t @ pending b' = console trace @ pending b @ [c] \<and>
     (c = 10 \<longrightarrow> pending b' = [])"
proof (cases "c = 10")
  case True
  then show ?thesis
    using Buffer_output_flush_ok [OF assms, of trace] by (auto simp: Buffer_output_handle_new_def)
next
  case newline: False
  show ?thesis
  proof (cases "count b = capacity b")
    case False
    then show ?thesis
      using newline Buffer_try_push_ok [OF assms, of c] by (auto simp: Buffer_output_handle_new_def)
  next
    case True
    obtain b1 t where flush: "Buffer_output_flush b trace = Inr (b1, t)" "Buffer_ok b1"
        "pending b1 = []" "capacity b1 = capacity b" "count b1 = 0" "console t = console trace @ pending b"
      using Buffer_output_flush_ok [OF assms, of trace] by auto
    then have "count b1 \<noteq> capacity b1" by (auto simp: Buffer_ok_def)
    then show ?thesis
      using True newline flush Buffer_try_push_ok [OF assms, of c] Buffer_try_push_ok [OF flush(2), of c]
      by (auto simp: Buffer_output_handle_new_def)
  qed
qed

text \<open>
  C38: whatever is put to a line buffer, the console text followed by what the buffer still holds is the
  text put so far, in order; the assertion that the second push succeeds never fails, nothing is written
  outside the array, and after a newline nothing is held back.
\<close>

theorem Buffer_output_in_order:
  assumes "Buffer_ok b"
  shows "\<exists>b' t. Buffer_output_handle_new b c trace = Inr (b', t) \<and> Buffer_ok b' \<and>
     console t @ pending b' = console trace @ pending b @ [c] \<and> (c = 10 \<longrightarrow> pending b' = [])"
  using Buffer_handle_new_ok [OF assms, of c trace] by auto

lemma Buffer_output_in_order_witness:
  "\<exists>b' t. Buffer_output_handle_new \<lparr>count = 2, capacity = 2, array = [104, 105]\<rparr> 33 [] = Inr (b', t) \<and>
     Buffer_ok b' \<and> console t @ pending b' = [104, 105, 33] \<and> ((33 :: byte) = 10 \<longrightarrow> pending b' = [])"
  using Buffer_output_in_order [of "\<lparr>count = 2, capacity = 2, array = [104, 105]\<rparr>" 33 "[]"]
  by (simp add: Buffer_ok_def pending_def)

end
