(* ===== verification/Common.thy ===== *)
theory Common
  imports Prelude
begin

text \<open>
  src/common: the macros of bits.h, endian.h, align.h, util.h and asm.h.  The operands are words of the
  width the callers use; \<open>align_up\<close> is what the compiler's builtin computes, \<open>align_up_macro\<close> the
  arithmetic of the fallback for other compilers.
\<close>

section \<open>Bits (common/bits.h)\<close>

text \<open>The value of \<open>1 << n\<close> is an \<open>int\<close>: the macros are used with \<open>n < 31\<close>.\<close>

definition BIT_TO_INT :: "nat \<Rightarrow> u64" where
  "BIT_TO_INT n = push_bit n 1"

definition BIT_SET :: "u64 \<Rightarrow> nat \<Rightarrow> u64" where
  "BIT_SET v n = v OR BIT_TO_INT n"

definition BIT_UNSET :: "u64 \<Rightarrow> nat \<Rightarrow> u64" where
  "BIT_UNSET v n = v AND NOT (BIT_TO_INT n)"

definition BIT_BOOL :: "u64 \<Rightarrow> nat \<Rightarrow> bool \<Rightarrow> u64" where
  "BIT_BOOL v n b = (if b then BIT_SET v n else BIT_UNSET v n)"

definition BIT_GET :: "u64 \<Rightarrow> nat \<Rightarrow> bool" where
  "BIT_GET v n \<longleftrightarrow> v AND BIT_TO_INT n \<noteq> 0"

lemma bit_BIT_TO_INT [simp]: "bit (BIT_TO_INT n) m \<longleftrightarrow> m = n \<and> n < 64"
  by (auto simp: BIT_TO_INT_def bit_simps)

lemma BIT_GET_bit: "BIT_GET v n \<longleftrightarrow> bit v n"
proof (cases "n < 64")
  case True
  have "v AND BIT_TO_INT n = (if bit v n then BIT_TO_INT n else 0)"
    by (rule bit_word_eqI) (auto simp: bit_simps)
  moreover have "BIT_TO_INT n \<noteq> 0"
    using True by (auto simp: bit_eq_iff intro: exI [of _ n])
  ultimately show ?thesis by (simp add: BIT_GET_def)
next
  case False
  then have "BIT_TO_INT n = 0" by (simp add: bit_eq_iff)
  moreover have "\<not> bit v n" using False bit_imp_le_length [of v n] by auto
  ultimately show ?thesis by (simp add: BIT_GET_def)
qed

lemma bit_BIT_SET: "n < 64 \<Longrightarrow> bit (BIT_SET v n) m \<longleftrightarrow> m = n \<or> bit v m"
  by (auto simp: BIT_SET_def bit_simps)

lemma bit_BIT_UNSET: "bit (BIT_UNSET v n) m \<longleftrightarrow> m \<noteq> n \<and> bit v m"
  by (auto simp: BIT_UNSET_def bit_simps dest: bit_imp_le_length)

lemma bit_BIT_BOOL: "n < 64 \<Longrightarrow> bit (BIT_BOOL v n b) m \<longleftrightarrow> (if m = n then b else bit v m)"
  by (auto simp: BIT_BOOL_def bit_BIT_SET bit_BIT_UNSET)

section \<open>Byte order (common/endian.h)\<close>

text \<open>The macro shifts the promoted operand: an \<open>int\<close> of which nothing is masked off.\<close>

definition SWAP_ENDIANNESS16 :: "u32 \<Rightarrow> u32" where
  "SWAP_ENDIANNESS16 num = drop_bit 8 num OR push_bit 8 num"

definition SWAP_ENDIANNESS32 :: "u32 \<Rightarrow> u32" where
  "SWAP_ENDIANNESS32 num =
     (drop_bit 24 num AND 0xFF) OR (drop_bit 8 num AND push_bit 8 0xFF) OR
     (push_bit 8 num AND push_bit 16 0xFF) OR (push_bit 24 num AND push_bit 24 0xFF)"

definition SWAP_ENDIANNESS64 :: "u64 \<Rightarrow> u64" where
  "SWAP_ENDIANNESS64 num =
     (drop_bit 56 num AND 0xFF) OR (drop_bit 40 num AND push_bit 8 0xFF) OR
     (drop_bit 24 num AND push_bit 16 0xFF) OR (drop_bit 8 num AND push_bit 24 0xFF) OR
     (push_bit 8 num AND push_bit 32 0xFF) OR (push_bit 24 num AND push_bit 40 0xFF) OR
     (push_bit 40 num AND push_bit 48 0xFF) OR (push_bit 56 num AND push_bit 56 0xFF)"

text \<open>Byte \<open>i\<close> of a word, counted from the least significant one.\<close>

definition byte_at :: "'a::len word \<Rightarrow> nat \<Rightarrow> byte" where
  "byte_at w i = ucast (drop_bit (8 * i) w)"

lemma bit_byte_at: "bit (byte_at w i) n \<longleftrightarrow> n < 8 \<and> bit w (8 * i + n)"
  by (auto simp: byte_at_def bit_simps add.commute dest: bit_imp_le_length)

lemma mask_255: "(0xFF :: 'a::len word) = mask 8" by (simp add: mask_eq_exp_minus_1)

lemma bit_SWAP_ENDIANNESS32:
  "bit (SWAP_ENDIANNESS32 v) n \<longleftrightarrow> n < 32 \<and> bit v (8 * (3 - n div 8) + n mod 8)"
proof (cases "n < 32")
  case True
  then have "n = 8 * (n div 8) + n mod 8" "n div 8 < 4" by simp_all
  then obtain i r where n: "n = 8 * i + r" "i < 4" "r < 8" by (metis mod_less_divisor zero_less_numeral)
  then have split: "n div 8 = i" "n mod 8 = r" by simp_all
  consider "i = 0" | "i = 1" | "i = 2" | "i = 3" using n by linarith
  then show ?thesis
    unfolding split using n by cases (simp_all add: SWAP_ENDIANNESS32_def mask_255 bit_simps add.commute)
next
  case False
  then show ?thesis using bit_imp_le_length [of "SWAP_ENDIANNESS32 v" n] by auto
qed

lemma bit_SWAP_ENDIANNESS64:
  "bit (SWAP_ENDIANNESS64 v) n \<longleftrightarrow> n < 64 \<and> bit v (8 * (7 - n div 8) + n mod 8)"
proof (cases "n < 64")
  case True
  then have "n = 8 * (n div 8) + n mod 8" "n div 8 < 8" by simp_all
  then obtain i r where n: "n = 8 * i + r" "i < 8" "r < 8" by (metis mod_less_divisor zero_less_numeral)
  then have split: "n div 8 = i" "n mod 8 = r" by simp_all
  consider "i = 0" | "i = 1" | "i = 2" | "i = 3" | "i = 4" | "i = 5" | "i = 6" | "i = 7" using n by linarith
  then show ?thesis
    unfolding split using n by cases (simp_all add: SWAP_ENDIANNESS64_def mask_255 bit_simps add.commute)
next
  case False
  then show ?thesis using bit_imp_le_length [of "SWAP_ENDIANNESS64 v" n] by auto
qed

lemma swap32_swap32 [simp]: "SWAP_ENDIANNESS32 (SWAP_ENDIANNESS32 v) = v"
proof (rule bit_word_eqI)
  fix n :: nat assume "n < LENGTH(32)"
  then have n: "n < 32" "3 - n div 8 \<le> 3" "(8 * (3 - n div 8) + n mod 8) div 8 = 3 - n div 8"
    "(8 * (3 - n div 8) + n mod 8) mod 8 = n mod 8" "3 - (3 - n div 8) = n div 8"
    by auto
  moreover have "8 * (3 - n div 8) + n mod 8 < 32" using n(1) by presburger
  ultimately show "bit (SWAP_ENDIANNESS32 (SWAP_ENDIANNESS32 v)) n = bit v n"
    unfolding bit_SWAP_ENDIANNESS32 by simp
qed

lemma swap32_bytes: "i < 4 \<Longrightarrow> byte_at (SWAP_ENDIANNESS32 v) i = byte_at v (3 - i)"
  by (rule bit_word_eqI) (auto simp: bit_byte_at bit_SWAP_ENDIANNESS32)

lemma swap64_bytes: "i < 8 \<Longrightarrow> byte_at (SWAP_ENDIANNESS64 v) i = byte_at v (7 - i)"
  by (rule bit_word_eqI) (auto simp: bit_byte_at bit_SWAP_ENDIANNESS64)

text \<open>
  The 32-bit and the 64-bit macro reverse the bytes of a word, and so undo themselves: a
  big-endian field of the device tree reads as its value.
\<close>

theorem swap_endianness_reverses:
  "map (byte_at (SWAP_ENDIANNESS32 v)) [0, 1, 2, 3] = rev (map (byte_at v) [0, 1, 2, 3]) \<and>
   map (byte_at (SWAP_ENDIANNESS64 w)) [0, 1, 2, 3, 4, 5, 6, 7] =
     rev (map (byte_at w) [0, 1, 2, 3, 4, 5, 6, 7]) \<and>
   SWAP_ENDIANNESS32 (SWAP_ENDIANNESS32 v) = v"
  by (simp add: swap32_bytes swap64_bytes)

section \<open>Alignment (common/align.h)\<close>

definition align_up :: "u64 \<Rightarrow> u64 \<Rightarrow> u64" where
  "align_up value align = (value + (align - 1)) AND NOT (align - 1)"

definition is_aligned :: "u64 \<Rightarrow> u64 \<Rightarrow> bool" where
  "is_aligned value align \<longleftrightarrow> value AND (align - 1) = 0"

definition align_up_macro :: "u64 \<Rightarrow> u64 \<Rightarrow> u64" where
  "align_up_macro value align = (if value mod align = 0 then value else value + align - value mod align)"

definition is_aligned_macro :: "u64 \<Rightarrow> u64 \<Rightarrow> bool" where
  "is_aligned_macro value align \<longleftrightarrow> 0 = value mod align"

definition INT_DIV_CEIL :: "u64 \<Rightarrow> u64 \<Rightarrow> u64" where
  "INT_DIV_CEIL num denom = (num + (denom - 1)) div denom"

lemma and_not_mask_eq: "(w :: u64) AND NOT (mask k) = w - w mod 2 ^ k"
proof -
  have "w mod 2 ^ k = w AND mask k" by (simp add: take_bit_eq_mod [symmetric] take_bit_eq_mask)
  moreover have "w = (w AND mask k) + (w AND NOT (mask k))"
    by (subst disjunctive_add) (auto simp: bit_eq_iff bit_simps)
  ultimately show ?thesis by (metis add_diff_cancel_left')
qed

lemma unat_exp_u64: "k < 64 \<Longrightarrow> unat (2 ^ k :: u64) = 2 ^ k"
proof -
  assume "k < 64"
  then have "(2 :: nat) ^ k < 2 ^ 64" by (rule power_strict_increasing) simp
  then have "unat (of_nat (2 ^ k) :: u64) = 2 ^ k" unfolding unat_of_nat by simp
  then show ?thesis by simp
qed

lemma mod_exp_pred:
  fixes v :: u64
  assumes "k < 64"
  shows "(v + (2 ^ k - 1)) mod 2 ^ k = (if v mod 2 ^ k = 0 then 2 ^ k - 1 else v mod 2 ^ k - 1)"
proof -
  let ?M = "2 ^ k :: nat"
  have M: "unat (2 ^ k :: u64) = ?M" "1 \<le> ?M" using assms by (simp_all add: unat_exp_u64)
  have pred: "unat (2 ^ k - 1 :: u64) = ?M - 1"
    using M by (metis One_nat_def unat_minus_one unat_0 not_one_le_zero)
  have "?M dvd 2 ^ 64" using assms by (intro le_imp_power_dvd) simp
  then have sum: "unat ((v + (2 ^ k - 1)) mod 2 ^ k) = (unat v + (?M - 1)) mod ?M"
    by (simp add: unat_mod M unat_word_ariths(1) pred mod_mod_cancel)
  have r: "unat (v mod 2 ^ k) = unat v mod ?M" by (simp add: unat_mod M)
  have split: "(x + (?M - 1)) mod ?M = (if x mod ?M = 0 then ?M - 1 else x mod ?M - 1)" for x :: nat
  proof -
    have "(x + (?M - 1)) mod ?M = (x mod ?M + (?M - 1)) mod ?M" by (rule mod_add_left_eq [symmetric])
    also have "\<dots> = (if x mod ?M = 0 then ?M - 1 else x mod ?M - 1)"
    proof (cases "x mod ?M = 0")
      case False
      then have "x mod ?M + (?M - 1) = (x mod ?M - 1) + ?M" using M(2) by simp
      moreover have "x mod ?M - 1 < ?M" using mod_less_divisor [of ?M x] M(2) by linarith
      ultimately have "(x mod ?M + (?M - 1)) mod ?M = x mod ?M - 1" by (metis mod_add_self2 mod_less)
      with False show ?thesis by presburger
    qed simp
    finally show ?thesis .
  qed
  show ?thesis
  proof (cases "v mod 2 ^ k = 0")
    case True
    then have "unat v mod ?M = 0" using r by simp
    then have "unat ((v + (2 ^ k - 1)) mod 2 ^ k) = unat (2 ^ k - 1 :: u64)"
      unfolding sum split pred by presburger
    then show ?thesis using True by (simp add: word_unat_eq_iff)
  next
    case False
    then have "unat v mod ?M \<noteq> 0" "unat (v mod 2 ^ k - 1) = unat v mod ?M - 1"
      using r by (auto simp: unat_minus_one word_unat_eq_iff [of _ 0])
    then have "unat ((v + (2 ^ k - 1)) mod 2 ^ k) = unat (v mod 2 ^ k - 1)"
      unfolding sum split by presburger
    then show ?thesis using False by (simp add: word_unat_eq_iff)
  qed
qed

lemma is_aligned_power: "is_aligned v (2 ^ k) \<longleftrightarrow> v mod 2 ^ k = 0"
  by (simp add: is_aligned_def mask_eq_exp_minus_1 [symmetric] take_bit_eq_mask [symmetric] take_bit_eq_mod)

text \<open>
  For an alignment that is a power of two the fallback macros compute what the builtins compute, on
  every word, the sums that wrap included.
\<close>

theorem align_up_agree:
  assumes "k < 64"
  shows "align_up_macro v (2 ^ k) = align_up v (2 ^ k) \<and> is_aligned_macro v (2 ^ k) = is_aligned v (2 ^ k)"
proof -
  have mask: "(2 ^ k - 1 :: u64) = mask k" by (simp add: mask_eq_exp_minus_1)
  have "is_aligned_macro v (2 ^ k) = is_aligned v (2 ^ k)"
    by (auto simp: is_aligned_macro_def is_aligned_power)
  moreover have "align_up v (2 ^ k) = v + (2 ^ k - 1) - (v + (2 ^ k - 1)) mod 2 ^ k"
    unfolding align_up_def mask by (rule and_not_mask_eq)
  ultimately show ?thesis
    by (simp add: align_up_macro_def mod_exp_pred [OF assms])
qed

lemma align_up_agree_witness:
  "align_up_macro 13 (2 ^ 3) = align_up 13 (2 ^ 3) \<and> is_aligned_macro 13 (2 ^ 3) = is_aligned 13 (2 ^ 3)"
  by (rule align_up_agree) simp

end
