(* ===== verification/Virtual_Memory.thy ===== *)
theory Virtual_Memory
  imports Common
begin

text \<open>
  kernel/virtual_memory and the sections of kernel/sections.c: page allocation, Sv39 page tables and
  the satp register.  Memory is a function from the address of a 64-bit word to the word; the tables
  are read and written only by whole entries, and a page is wiped when it is allocated.  The addresses
  of the sections come from the linker: they are an argument of the definitions.
\<close>

unbundle bit_operations_syntax

section \<open>Sections (kernel/sections.c)\<close>

datatype SectionType =
    SECTION_TYPE_NORMAL | SECTION_TYPE_META | SECTION_TYPE_SPECIAL | SECTION_TYPE_USER_PROGRAM

record Section =
  section_type :: SectionType
  start_address :: addr
  end_address :: addr

definition Section_size :: "Section \<Rightarrow> u64" where
  "Section_size s = end_address s - start_address s"

record Sections =
  SECTION_MEMORY :: Section
  SECTION_PAGES :: Section
  SECTION_GLOBAL_SPECIAL :: Section
  SECTION_USER_SPECIAL :: Section

section \<open>Page allocation (page.c)\<close>

definition PAGE_SIZE :: u64 where "PAGE_SIZE = 4096"

lemma page_aligned_mod:
  "is_aligned v PAGE_SIZE \<longleftrightarrow> v mod 4096 = 0" "is_aligned v 4096 \<longleftrightarrow> v mod 4096 = 0"
  using is_aligned_power [of v 12] by (simp_all add: PAGE_SIZE_def)

record VM =
  mem :: "addr \<Rightarrow> u64"
  next_page :: addr

definition wipe_page :: "(addr \<Rightarrow> u64) \<Rightarrow> addr \<Rightarrow> addr \<Rightarrow> u64" where
  "wipe_page m p a = (if a - p < PAGE_SIZE then 0 else m a)"

definition Page_alloc :: "Sections \<Rightarrow> VM \<Rightarrow> error + addr \<times> VM" where
  "Page_alloc ss vm =
     (let this_page = (if next_page vm = 0 then start_address (SECTION_PAGES ss) else next_page vm) in
      if this_page > end_address (SECTION_PAGES ss) - PAGE_SIZE
      then Inl (Panic ''page allocation would overflow page memory!'')
      else Inr (this_page, vm\<lparr>mem := wipe_page (mem vm) this_page, next_page := this_page + PAGE_SIZE\<rparr>))"

section \<open>Virtual addresses (virtual\_address.c)\<close>

text \<open>The bit fields of the union: a 12-bit offset, three 9-bit entry numbers, 25 unused bits.\<close>

definition page_offset :: "addr \<Rightarrow> u64" where
  "page_offset va = va AND mask 12"

definition level0_entry_number :: "addr \<Rightarrow> u64" where
  "level0_entry_number va = drop_bit 12 va AND mask 9"

definition level1_entry_number :: "addr \<Rightarrow> u64" where
  "level1_entry_number va = drop_bit 21 va AND mask 9"

definition level2_entry_number :: "addr \<Rightarrow> u64" where
  "level2_entry_number va = drop_bit 30 va AND mask 9"

definition VirtualAddress_get_level_entry_number :: "addr \<Rightarrow> nat \<Rightarrow> error + u64" where
  "VirtualAddress_get_level_entry_number va level =
     (if level = 0 then Inr (level0_entry_number va)
      else if level = 1 then Inr (level1_entry_number va)
      else if level = 2 then Inr (level2_entry_number va)
      else Inl (Panic ''VirtualAddress_get_level invalid level''))"

text \<open>The assignment to a bit field of \<open>n\<close> bits from bit \<open>k\<close> on.\<close>

definition set_field :: "nat \<Rightarrow> nat \<Rightarrow> u64 \<Rightarrow> u64 \<Rightarrow> u64" where
  "set_field k n w v = (w AND NOT (push_bit k (mask n))) OR push_bit k (v AND mask n)"

definition VirtualAddress_set_level_entry_number :: "addr \<Rightarrow> nat \<Rightarrow> u64 \<Rightarrow> error + addr" where
  "VirtualAddress_set_level_entry_number va level entry_number =
     (if level = 0 then Inr (set_field 12 9 va entry_number)
      else if level = 1 then Inr (set_field 21 9 va entry_number)
      else if level = 2 then Inr (set_field 30 9 va entry_number)
      else Inl (Panic ''VirtualAddress_set_level invalid level''))"

section \<open>Page table entries (page\_table.h)\<close>

type_synonym PageTableEntryFlags = byte
type_synonym PageTableEntry = u64
type_synonym PageTable = addr

definition PageTableEntryFlags_init :: "bool \<Rightarrow> bool \<Rightarrow> bool \<Rightarrow> bool \<Rightarrow> PageTableEntryFlags" where
  "PageTableEntryFlags_init r w x u =
     (if r then 2 else 0) OR (if w then 4 else 0) OR (if x then 8 else 0) OR (if u then 16 else 0)"

definition entry_flags :: "PageTableEntry \<Rightarrow> PageTableEntryFlags" where
  "entry_flags e = ucast e"

definition physical_page_num :: "PageTableEntry \<Rightarrow> u64" where
  "physical_page_num e = drop_bit 10 e AND mask 44"

definition set_physical_page_num :: "PageTableEntry \<Rightarrow> u64 \<Rightarrow> PageTableEntry" where
  "set_physical_page_num e n = set_field 10 44 e n"

definition set_flags :: "PageTableEntry \<Rightarrow> PageTableEntryFlags \<Rightarrow> PageTableEntry" where
  "set_flags e f = set_field 0 8 e (ucast f)"

definition flag_valid :: "PageTableEntryFlags \<Rightarrow> bool" where "flag_valid f = bit f 0"
definition flag_read :: "PageTableEntryFlags \<Rightarrow> bool" where "flag_read f = bit f 1"
definition flag_write :: "PageTableEntryFlags \<Rightarrow> bool" where "flag_write f = bit f 2"
definition flag_execute :: "PageTableEntryFlags \<Rightarrow> bool" where "flag_execute f = bit f 3"
definition flag_user :: "PageTableEntryFlags \<Rightarrow> bool" where "flag_user f = bit f 4"

definition PageTableEntryFlags_is_leaf :: "PageTableEntryFlags \<Rightarrow> bool" where
  "PageTableEntryFlags_is_leaf f \<longleftrightarrow> flag_read f \<or> flag_write f \<or> flag_execute f"

definition PageTableEntry_get_linked :: "PageTableEntry \<Rightarrow> error + PageTable" where
  "PageTableEntry_get_linked e =
     (if \<not> flag_valid (entry_flags e) then Inl (Panic ''passed invalid entry to get_linked_table'')
      else Inr (physical_page_num e * PAGE_SIZE))"

text \<open>The address of an entry of a table.\<close>

definition entry_addr :: "PageTable \<Rightarrow> u64 \<Rightarrow> addr" where
  "entry_addr table n = table + 8 * n"

section \<open>Mapping (page\_table.c)\<close>

text \<open>
  The loop of \<open>PageTable_map_address\<close> down to the table of level 0, whose entry is then set.
\<close>

fun PageTable_map_loop :: "Sections \<Rightarrow> addr \<Rightarrow> nat \<Rightarrow> PageTable \<Rightarrow> VM \<Rightarrow> error + addr \<times> VM" where
  "PageTable_map_loop ss va level current_table vm =
     bindr (VirtualAddress_get_level_entry_number va level) (\<lambda>entry_number.
       if current_table = 0 then Inl (Panic ''null PageTable at level'')
       else let entry = entry_addr current_table entry_number in
         case level of
           0 \<Rightarrow> Inr (entry, vm)
         | Suc next_level \<Rightarrow>
             if \<not> flag_valid (entry_flags (mem vm entry))
             then bindr (Page_alloc ss vm) (\<lambda>(new_page, vm1).
               let e1 = set_physical_page_num (mem vm1 entry) (new_page div PAGE_SIZE);
                   e2 = set_flags e1 (entry_flags e1 OR 1)
               in PageTable_map_loop ss va next_level new_page (vm1\<lparr>mem := (mem vm1)(entry := e2)\<rparr>))
             else bindr (PageTableEntry_get_linked (mem vm entry)) (\<lambda>next_table.
               PageTable_map_loop ss va next_level next_table vm))"

declare PageTable_map_loop.simps [simp del]

definition VIRTUAL_MEMORY_TOP_LEVEL :: nat where "VIRTUAL_MEMORY_TOP_LEVEL = 2"

definition PageTable_map_address ::
    "Sections \<Rightarrow> PageTable \<Rightarrow> addr \<Rightarrow> addr \<Rightarrow> PageTableEntryFlags \<Rightarrow> VM \<Rightarrow> error + VM" where
  "PageTable_map_address ss first_table va pa flags vm =
     (if \<not> is_aligned va PAGE_SIZE then Inl (Panic ''virtual address not aligned'')
      else if \<not> is_aligned pa PAGE_SIZE then Inl (Panic ''physical address not aligned'')
      else bindr (PageTable_map_loop ss va VIRTUAL_MEMORY_TOP_LEVEL first_table vm) (\<lambda>(entry, vm1).
        let e1 = set_physical_page_num (mem vm1 entry) (pa div PAGE_SIZE);
            e2 = set_flags e1 flags;
            e3 = set_flags e2 (entry_flags e2 OR 1);
            e4 = set_flags e3 (entry_flags e3 OR 2)
        in Inr (vm1\<lparr>mem := (mem vm1)(entry := e4)\<rparr>)))"

text \<open>
  The loop of \<open>PageTable_map_section\<close> compares with \<open><=\<close>.  It may not end, when the address wraps
  around: that is the value \<open>None\<close>.
\<close>

partial_function (option) PageTable_map_section_loop ::
    "Sections \<Rightarrow> PageTable \<Rightarrow> addr \<Rightarrow> addr \<Rightarrow> addr \<Rightarrow> PageTableEntryFlags \<Rightarrow> VM \<Rightarrow> (error + VM) option"
where
  "PageTable_map_section_loop ss table pa end_pa va flags vm =
     (if pa \<le> end_pa
      then case PageTable_map_address ss table va pa flags vm of
          Inl e \<Rightarrow> Some (Inl e)
        | Inr vm1 \<Rightarrow> PageTable_map_section_loop ss table (pa + PAGE_SIZE) end_pa (va + PAGE_SIZE) flags vm1
      else Some (Inr vm))"

declare PageTable_map_section_loop.simps [code]

definition PageTable_map_section ::
    "Sections \<Rightarrow> PageTable \<Rightarrow> Section \<Rightarrow> addr \<Rightarrow> PageTableEntryFlags \<Rightarrow> VM \<Rightarrow> error + VM" where
  "PageTable_map_section ss table s virtual_address_start flags vm =
     (case PageTable_map_section_loop ss table (start_address s) (end_address s)
             virtual_address_start flags vm of
        None \<Rightarrow> Inl Hangs
      | Some r \<Rightarrow> r)"

section \<open>The satp register (satp.c)\<close>

definition SATP_MODE :: u64 where "SATP_MODE = 8"

definition SatpRegister_from_PageTable :: "PageTable \<Rightarrow> u64" where
  "SatpRegister_from_PageTable table =
     set_field 0 44 (set_field 60 4 0 SATP_MODE) (table div PAGE_SIZE)"

section \<open>The kernel's and a user program's address space\<close>

text \<open>The device addresses of the board (device/board.c); 0 is a device the board does not have.\<close>

record Board =
  num_monitor_harts :: u64
  num_normal_harts :: u64
  sifive_test :: addr
  sifive_plic :: addr
  sifive_uart1 :: addr
  csr_stimecmp :: bool
  csr_time :: bool

definition board_virt :: Board where
  "board_virt = \<lparr>num_monitor_harts = 0, num_normal_harts = 16, sifive_test = 0x100000,
     sifive_plic = 0x0C000000, sifive_uart1 = 0, csr_stimecmp = True, csr_time = True\<rparr>"

definition board_sifive_u :: Board where
  "board_sifive_u = \<lparr>num_monitor_harts = 1, num_normal_harts = 4, sifive_test = 0,
     sifive_plic = 0x0C000000, sifive_uart1 = 0x10011000, csr_stimecmp = False, csr_time = False\<rparr>"

definition board_unknown :: Board where
  "board_unknown = \<lparr>num_monitor_harts = 0, num_normal_harts = 1, sifive_test = 0, sifive_plic = 0,
     sifive_uart1 = 0, csr_stimecmp = False, csr_time = False\<rparr>"

definition SIFIVE_PLIC_LEN :: u64 where "SIFIVE_PLIC_LEN = 0x4000000"

text \<open>The loop over the pages of the PLIC; the address does not wrap for the boards there are.\<close>

partial_function (option) map_plic_loop ::
    "Sections \<Rightarrow> PageTable \<Rightarrow> addr \<Rightarrow> addr \<Rightarrow> VM \<Rightarrow> (error + VM) option"
where
  "map_plic_loop ss table page end_page vm =
     (if page < end_page
      then case PageTable_map_address ss table page page (PageTableEntryFlags_init True True False False) vm of
          Inl e \<Rightarrow> Some (Inl e)
        | Inr vm1 \<Rightarrow> map_plic_loop ss table (page + PAGE_SIZE) end_page vm1
      else Some (Inr vm))"

declare map_plic_loop.simps [code]

text \<open>
  The root of the kernel's table and its satp value are global variables: 0 until the first call.
\<close>

record KernelTable =
  kernel_page_table :: PageTable
  kernel_page_satp :: u64

definition PageTable_kernel_init ::
    "Sections \<Rightarrow> Board \<Rightarrow> KernelTable \<Rightarrow> VM \<Rightarrow> error + KernelTable \<times> VM" where
  "PageTable_kernel_init ss board kt vm =
     (if kernel_page_table kt \<noteq> 0 then Inr (kt, vm)
      else
        bindr (Page_alloc ss vm) (\<lambda>(table, vm1).
        let kt1 = \<lparr>kernel_page_table = table, kernel_page_satp = SatpRegister_from_PageTable table\<rparr>;
            rw = PageTableEntryFlags_init True True False False in
        bindr (PageTable_map_section ss table (SECTION_MEMORY ss) (start_address (SECTION_MEMORY ss))
                 (PageTableEntryFlags_init True True True False) vm1) (\<lambda>vm2.
        bindr (if sifive_test board \<noteq> 0
               then PageTable_map_address ss table (sifive_test board) (sifive_test board) rw vm2
               else Inr vm2) (\<lambda>vm3.
        bindr (if sifive_plic board \<noteq> 0
               then (case map_plic_loop ss table (sifive_plic board) (sifive_plic board + SIFIVE_PLIC_LEN) vm3 of
                       None \<Rightarrow> Inl Hangs | Some r \<Rightarrow> r)
               else Inr vm3) (\<lambda>vm4.
        bindr (if sifive_uart1 board \<noteq> 0
               then PageTable_map_address ss table (sifive_uart1 board) (sifive_uart1 board) rw vm4
               else Inr vm4) (\<lambda>vm5.
        Inr (kt1, vm5)))))))"

definition PageTable_user_init ::
    "Sections \<Rightarrow> Section \<Rightarrow> addr \<Rightarrow> VM \<Rightarrow> error + PageTable \<times> VM" where
  "PageTable_user_init ss program_section start_virtual vm =
     (let rwx = PageTableEntryFlags_init True True True False in
      bindr (Page_alloc ss vm) (\<lambda>(table, vm1).
      bindr (PageTable_map_section ss table program_section start_virtual
               (PageTableEntryFlags_init True True True True) vm1) (\<lambda>vm2.
      bindr (PageTable_map_section ss table (SECTION_GLOBAL_SPECIAL ss)
               (start_address (SECTION_GLOBAL_SPECIAL ss)) rwx vm2) (\<lambda>vm3.
      bindr (PageTable_map_section ss table (SECTION_USER_SPECIAL ss)
               (start_address (SECTION_USER_SPECIAL ss)) rwx vm3) (\<lambda>vm4.
      Inr (table, vm4))))))"

section \<open>Looking an address up (page\_table.c)\<close>

fun PageTable_get_loop :: "(addr \<Rightarrow> u64) \<Rightarrow> addr \<Rightarrow> nat \<Rightarrow> PageTable \<Rightarrow> error + PageTableEntry" where
  "PageTable_get_loop m va level current_table =
     bindr (VirtualAddress_get_level_entry_number va level) (\<lambda>entry_number.
       if current_table = 0 then Inl (Panic ''null PageTable at level'')
       else let entry = m (entry_addr current_table entry_number) in
         case level of
           0 \<Rightarrow> Inr entry
         | Suc next_level \<Rightarrow>
             if \<not> flag_valid (entry_flags entry) then Inl (Panic ''Invalid inner table at level'')
             else bindr (PageTableEntry_get_linked entry) (PageTable_get_loop m va next_level))"

declare PageTable_get_loop.simps [simp del]

definition PageTable_get_physical_address :: "(addr \<Rightarrow> u64) \<Rightarrow> PageTable \<Rightarrow> addr \<Rightarrow> error + addr" where
  "PageTable_get_physical_address m table va =
     bindr (PageTable_get_loop m va VIRTUAL_MEMORY_TOP_LEVEL table) (\<lambda>entry.
       Inr (physical_page_num entry * PAGE_SIZE + page_offset va))"

end
