(* ===== verification/Devices.thy ===== *)
theory Devices
  imports Kernel_Buffer Virtual_Memory Common
begin

text \<open>
  kernel/device: the interrupt controller, the test device and the check that a board has a device.  The
  devices are outside the program: what the kernel does to them is the list of its accesses, oldest
  first, and what a read returns is an argument of the definitions that use it.
\<close>

section \<open>Accesses to device registers\<close>

datatype DeviceOp = ReadWord addr | WriteWord addr u32 | OrWord addr u32

text \<open>asm.h: \<open>amoor.w\<close> on a register, and plain loads and stores through a volatile pointer.\<close>

definition atomic_or_memory_word :: "addr \<Rightarrow> u32 \<Rightarrow> DeviceOp list \<Rightarrow> DeviceOp list" where
  "atomic_or_memory_word ptr value trace = trace @ [OrWord ptr value]"

definition store_word :: "addr \<Rightarrow> u32 \<Rightarrow> DeviceOp list \<Rightarrow> DeviceOp list" where
  "store_word ptr value trace = trace @ [WriteWord ptr value]"

definition load_word :: "addr \<Rightarrow> DeviceOp list \<Rightarrow> DeviceOp list" where
  "load_word ptr trace = trace @ [ReadWord ptr]"

section \<open>The board's devices (device/board.c)\<close>

definition board_check_valid_device :: "addr \<Rightarrow> string \<Rightarrow> error + addr" where
  "board_check_valid_device device field_str =
     (if device = 0 then Inl (Panic (''board panic: '' @ field_str @ '' is not set for current board''))
      else Inr device)"

section \<open>The interrupt controller (device/sifive\_plic.c)\<close>

definition SIFIVE_PLIC_PRIORITY_OFFSET :: u64 where "SIFIVE_PLIC_PRIORITY_OFFSET = 0"
definition SIFIVE_PLIC_INTERRUPT_ENABLE_OFFSET :: u64 where "SIFIVE_PLIC_INTERRUPT_ENABLE_OFFSET = 0x2000"
definition SIFIVE_PLIC_INTERRUPT_ENABLE_BLOCK_SIZE :: u64 where "SIFIVE_PLIC_INTERRUPT_ENABLE_BLOCK_SIZE = 0x80"
definition SIFIVE_PLIC_THRESHOLD_CLAIM_COMPLETE_OFFSET :: u64 where
  "SIFIVE_PLIC_THRESHOLD_CLAIM_COMPLETE_OFFSET = 0x200000"
definition SIFIVE_PLIC_THRESHOLD_CLAIM_COMPLETE_BLOCK_SIZE :: u64 where
  "SIFIVE_PLIC_THRESHOLD_CLAIM_COMPLETE_BLOCK_SIZE = 0x1000"

definition normal_hart_s_mode_block_index :: "Board \<Rightarrow> u64 \<Rightarrow> u64" where
  "normal_hart_s_mode_block_index board normal_hart_number =
     num_monitor_harts board + (normal_hart_number - num_monitor_harts board) * 2 + 1"

text \<open>\<open>ptr += 1\<close> moves by the four bytes of a register.\<close>

definition sifive_plic_enable_smode_interrupt ::
    "Board \<Rightarrow> u64 \<Rightarrow> u64 \<Rightarrow> DeviceOp list \<Rightarrow> error + DeviceOp list" where
  "sifive_plic_enable_smode_interrupt board normal_hart_number interrupt trace =
     bindr (board_check_valid_device (sifive_plic board) ''board.sifive_plic'') (\<lambda>addr.
       let ptr = addr + SIFIVE_PLIC_INTERRUPT_ENABLE_OFFSET +
             normal_hart_s_mode_block_index board normal_hart_number * SIFIVE_PLIC_INTERRUPT_ENABLE_BLOCK_SIZE;
           (ptr1, interrupt1) = (if 32 \<le> interrupt then (ptr + 4, interrupt - 32) else (ptr, interrupt))
       in Inr (atomic_or_memory_word ptr1 (ucast (BIT_TO_INT (unat interrupt1))) trace))"

definition sifive_plic_set_smode_threshold ::
    "Board \<Rightarrow> u64 \<Rightarrow> byte \<Rightarrow> DeviceOp list \<Rightarrow> error + DeviceOp list" where
  "sifive_plic_set_smode_threshold board normal_hart_number threshold trace =
     bindr (board_check_valid_device (sifive_plic board) ''board.sifive_plic'') (\<lambda>addr.
       let ptr = addr + SIFIVE_PLIC_THRESHOLD_CLAIM_COMPLETE_OFFSET +
             normal_hart_s_mode_block_index board normal_hart_number * SIFIVE_PLIC_THRESHOLD_CLAIM_COMPLETE_BLOCK_SIZE
       in Inr (store_word ptr (ucast (threshold AND 0x7)) trace))"

definition sifive_plic_set_priority ::
    "Board \<Rightarrow> u64 \<Rightarrow> byte \<Rightarrow> DeviceOp list \<Rightarrow> error + DeviceOp list" where
  "sifive_plic_set_priority board interrupt priority trace =
     bindr (board_check_valid_device (sifive_plic board) ''board.sifive_plic'') (\<lambda>addr.
       let ptr = addr + SIFIVE_PLIC_PRIORITY_OFFSET + interrupt * 4
       in Inr (store_word ptr (ucast (priority AND 0x7)) trace))"

text \<open>The register of claims and completions of a hart, the second of its block.\<close>

definition sifive_plic_claim_register :: "Board \<Rightarrow> u64 \<Rightarrow> error + addr" where
  "sifive_plic_claim_register board normal_hart_number =
     bindr (board_check_valid_device (sifive_plic board) ''board.sifive_plic'') (\<lambda>addr.
       Inr (addr + SIFIVE_PLIC_THRESHOLD_CLAIM_COMPLETE_OFFSET +
             normal_hart_s_mode_block_index board normal_hart_number * SIFIVE_PLIC_THRESHOLD_CLAIM_COMPLETE_BLOCK_SIZE + 4))"

text \<open>\<open>value\<close> is what the controller answers.\<close>

definition sifive_plic_claim :: "u32 \<Rightarrow> Board \<Rightarrow> u64 \<Rightarrow> DeviceOp list \<Rightarrow> error + u32 \<times> DeviceOp list" where
  "sifive_plic_claim value board normal_hart_number trace =
     bindr (sifive_plic_claim_register board normal_hart_number) (\<lambda>ptr. Inr (value, load_word ptr trace))"

definition sifive_plic_complete :: "Board \<Rightarrow> u64 \<Rightarrow> u32 \<Rightarrow> DeviceOp list \<Rightarrow> error + DeviceOp list" where
  "sifive_plic_complete board normal_hart_number interrupt trace =
     bindr (sifive_plic_claim_register board normal_hart_number) (\<lambda>ptr. Inr (store_word ptr interrupt trace))"

section \<open>The test device (device/sifive\_test.c)\<close>

definition SIFIVE_TEST_SUCCESS :: u32 where "SIFIVE_TEST_SUCCESS = 0x5555"
definition SIFIVE_TEST_FAILURE :: u32 where "SIFIVE_TEST_FAILURE = 0x3333"

definition sifive_test_exit :: "Board \<Rightarrow> u32 \<Rightarrow> DeviceOp list \<Rightarrow> error + DeviceOp list" where
  "sifive_test_exit board exit_code trace =
     bindr (board_check_valid_device (sifive_test board) ''board.sifive_test'') (\<lambda>pointer.
       let encoded = (if exit_code = 0 then SIFIVE_TEST_SUCCESS else push_bit 16 exit_code OR SIFIVE_TEST_FAILURE)
       in Inr (store_word pointer encoded trace))"

section \<open>The registers of different harts and interrupts\<close>

lemma div_mod_upper_half:
  fixes i :: nat
  assumes "n \<le> i" and "i < 2 * n"
  shows "i div n = 1" and "i mod n = i - n"
  using assms by (simp_all add: div_nat_eqI mod_if le_mod_geq)

lemma block_index_hart_one:
  "num_monitor_harts board \<le> 1 \<Longrightarrow> normal_hart_s_mode_block_index board 1 = 3 - num_monitor_harts board"
  by (simp add: normal_hart_s_mode_block_index_def)

text \<open>
  Interrupt \<open>i\<close> is bit \<open>i mod 32\<close> of enable register \<open>i div 32\<close> of the block, the layout of the
  controller's manual, for the interrupts up to 63 that the function distinguishes.
\<close>

lemma sifive_plic_enable_layout:
  assumes "sifive_plic board \<noteq> 0" and "i < 64"
  shows "sifive_plic_enable_smode_interrupt board n (of_nat i) trace = Inr (trace @
    [OrWord (sifive_plic board + 0x2000 + normal_hart_s_mode_block_index board n * 0x80 + 4 * of_nat (i div 32))
       (push_bit (i mod 32) 1)])"
proof -
  have i: "unat (of_nat i :: u64) = i" using assms(2) by (simp add: unat_of_nat)
  have bit: "(ucast (BIT_TO_INT j) :: u32) = push_bit j 1" if "j < 32" for j
    using that by (intro bit_word_eqI) (auto simp: bit_simps)
  show ?thesis
  proof (cases "i < 32")
    case True
    then have "\<not> 32 \<le> (of_nat i :: u64)" using i by (simp add: word_le_nat_alt)
    then show ?thesis
      using True assms i bit
      by (simp add: sifive_plic_enable_smode_interrupt_def board_check_valid_device_def
          atomic_or_memory_word_def SIFIVE_PLIC_INTERRUPT_ENABLE_OFFSET_def SIFIVE_PLIC_INTERRUPT_ENABLE_BLOCK_SIZE_def)
  next
    case False
    then have le: "32 \<le> (of_nat i :: u64)" using i by (simp add: word_le_nat_alt)
    have "of_nat i - 32 = (of_nat (i - 32) :: u64)" using False by simp
    then have "unat (of_nat i - 32 :: u64) = i - 32" using assms(2) by (simp add: unat_of_nat)
    moreover have "i div 32 = 1" "i mod 32 = i - 32"
      using div_mod_upper_half [of 32 i] False assms(2) by simp_all
    ultimately show ?thesis
      using le assms bit [of "i - 32"]
      by (simp add: sifive_plic_enable_smode_interrupt_def board_check_valid_device_def
          atomic_or_memory_word_def SIFIVE_PLIC_INTERRUPT_ENABLE_OFFSET_def SIFIVE_PLIC_INTERRUPT_ENABLE_BLOCK_SIZE_def)
  qed
qed

text \<open>
  Enabling an interrupt sets exactly the bit of that interrupt in the block of the hart, and two
  different interrupts below 64 never share a bit: either the registers or the bits differ.
\<close>

theorem plic_enable_distinct:
  assumes "sifive_plic board \<noteq> 0" and "i < 64" and "j < 64" and "i \<noteq> j"
  shows "\<exists>p q b c. sifive_plic_enable_smode_interrupt board n (of_nat i) [] = Inr [OrWord p b] \<and>
     sifive_plic_enable_smode_interrupt board n (of_nat j) [] = Inr [OrWord q c] \<and>
     b \<noteq> 0 \<and> c \<noteq> 0 \<and> (p = q \<longrightarrow> b AND c = 0)"
proof -
  let ?base = "sifive_plic board + 0x2000 + normal_hart_s_mode_block_index board n * 0x80"
  have nz: "push_bit (x mod 32) (1 :: u32) \<noteq> 0" for x :: nat
    by (auto simp: bit_eq_iff bit_simps intro: exI [of _ "x mod 32"])
  have same: "i div 32 = j div 32" if "?base + 4 * of_nat (i div 32) = ?base + 4 * of_nat (j div 32)"
  proof -
    have "i div 32 \<in> {0, 1}" "j div 32 \<in> {0, 1}" using assms by auto
    with that show ?thesis by auto
  qed
  have "push_bit (i mod 32) (1 :: u32) AND push_bit (j mod 32) 1 = 0" if "i div 32 = j div 32"
  proof -
    have "i mod 32 \<noteq> j mod 32" using that assms(4) by (metis div_mult_mod_eq)
    then show ?thesis by (intro bit_word_eqI) (auto simp: bit_simps)
  qed
  then show ?thesis
    using sifive_plic_enable_layout [OF assms(1,2), of n "[]"] sifive_plic_enable_layout [OF assms(1,3), of n "[]"]
      nz same by auto
qed

lemma plic_enable_distinct_witness:
  "\<exists>p q b c. sifive_plic_enable_smode_interrupt board_virt 1 (of_nat 5) [] = Inr [OrWord p b] \<and>
     sifive_plic_enable_smode_interrupt board_virt 1 (of_nat 37) [] = Inr [OrWord q c] \<and>
     b \<noteq> 0 \<and> c \<noteq> 0 \<and> (p = q \<longrightarrow> b AND c = 0)"
  by (rule plic_enable_distinct) (simp_all add: board_virt_def)

end
