(* ===== verification/Kernel_State.thy ===== *)
theory Kernel_State
  imports Devices
begin

text \<open>
  The state of the kernel, as the files process/process.h, hart.h, lock.h, trap/frame.h and csr.h declare
  it, and the operations on control registers, hart scratches and locks.  Code that runs on a hart gets
  the number of the hart as an argument \<open>h\<close>: \<open>my_hart_scratch()\<close> is entry \<open>h\<close> of the array.
  A \<open>Process*\<close> is an index into the process array.
\<close>

section \<open>Registers and frames\<close>

datatype reg =
    ra | gp | tp | t0 | t1 | t2 | t3 | t4 | t5 | t6
  | a0 | a1 | a2 | a3 | a4 | a5 | a6 | a7
  | s0 | s1 | s2 | s3 | s4 | s5 | s6 | s7 | s8 | s9 | s10 | s11 | sp

text \<open>The members of the same name are the function \<open>frame_regs\<close>; \<open>pc\<close> and \<open>satp\<close> stand alone.\<close>

record TrapFrame =
  frame_regs :: "reg \<Rightarrow> u64"
  frame_pc :: u64
  frame_satp :: u64

definition TrapFrame_zero :: TrapFrame where
  "TrapFrame_zero = \<lparr>frame_regs = (\<lambda>r. 0), frame_pc = 0, frame_satp = 0\<rparr>"

definition set_reg :: "reg \<Rightarrow> u64 \<Rightarrow> TrapFrame \<Rightarrow> TrapFrame" where
  "set_reg r v f = f\<lparr>frame_regs := (frame_regs f)(r := v)\<rparr>"

lemma set_reg_simps [simp]:
  "frame_regs (set_reg r v f) = (frame_regs f)(r := v)" "frame_pc (set_reg r v f) = frame_pc f"
  "frame_satp (set_reg r v f) = frame_satp f"
  by (simp_all add: set_reg_def)

section \<open>Processes, harts, locks and files\<close>

datatype ProcessState = PROCESS_UNUSED | PROCESS_READY | PROCESS_RUNNABLE | PROCESS_RUNNING

record Process =
  proc_id :: byte
  proc_state :: ProcessState
  proc_frame :: TrapFrame
  proc_page_table :: PageTable
  proc_buffer :: Buffer

record HartScratch =
  hart_frame :: TrapFrame
  current_process :: "nat option"
  hart_buffer :: Buffer
  interrupts_before_locking :: bool
  lock_depth :: u32

record SpinLock =
  locked :: u32
  hart_owner :: u64

datatype lock_id = processes_lock | io_spinlock | trap_print_lock | stdout_lock

datatype csr = sstatus | stvec | sip | sie | sscratch | sepc | scause | stval | satp | stimecmp | time

record kernel =
  csrs :: "nat \<Rightarrow> csr \<Rightarrow> u64"
  hart_scratches :: "HartScratch list"
  processes :: "Process list"
  locks :: "lock_id \<Rightarrow> SpinLock"
  vm :: VM
  kernel_table :: KernelTable
  uart1_buffer :: Buffer
  sbi :: "SbiCall list"
  mmio :: "DeviceOp list"

section \<open>Control registers (csr.c, trap/registers.c)\<close>

text \<open>The four macros of csr.c; each but the first returns the old value.\<close>

definition csr_read :: "csr \<Rightarrow> nat \<Rightarrow> kernel \<Rightarrow> u64" where
  "csr_read c h k = csrs k h c"

definition csr_write :: "csr \<Rightarrow> u64 \<Rightarrow> nat \<Rightarrow> kernel \<Rightarrow> u64 \<times> kernel" where
  "csr_write c v h k = (csrs k h c, k\<lparr>csrs := (csrs k)(h := (csrs k h)(c := v))\<rparr>)"

definition csr_set_mask :: "csr \<Rightarrow> u64 \<Rightarrow> nat \<Rightarrow> kernel \<Rightarrow> u64 \<times> kernel" where
  "csr_set_mask c m h k = (csrs k h c, k\<lparr>csrs := (csrs k)(h := (csrs k h)(c := csrs k h c OR m))\<rparr>)"

definition csr_clear_mask :: "csr \<Rightarrow> u64 \<Rightarrow> nat \<Rightarrow> kernel \<Rightarrow> u64 \<times> kernel" where
  "csr_clear_mask c m h k = (csrs k h c, k\<lparr>csrs := (csrs k)(h := (csrs k h)(c := csrs k h c AND NOT m))\<rparr>)"

definition SSTATUS_TRAPS_NOW :: nat where "SSTATUS_TRAPS_NOW = 1"
definition SSTATUS_TRAPS_AFTER_SRET :: nat where "SSTATUS_TRAPS_AFTER_SRET = 5"
definition SSTATUS_PRIVILEGE :: nat where "SSTATUS_PRIVILEGE = 8"
definition SSTATUS_SUM :: nat where "SSTATUS_SUM = 18"
definition SIE_SIP_SOFTWARE_INTERRUPT :: nat where "SIE_SIP_SOFTWARE_INTERRUPT = 1"
definition SIE_SIP_TIMER_INTERRUPT :: nat where "SIE_SIP_TIMER_INTERRUPT = 5"
definition SIE_SIP_EXTERNAL_INTERRUPT :: nat where "SIE_SIP_EXTERNAL_INTERRUPT = 9"

definition prepare_sstatus_for_return :: "bool \<Rightarrow> nat \<Rightarrow> kernel \<Rightarrow> kernel" where
  "prepare_sstatus_for_return to_kernel h k =
     (let v = csr_read sstatus h k in
      snd (csr_write sstatus
        (BIT_BOOL (BIT_SET (BIT_SET v SSTATUS_TRAPS_AFTER_SRET) SSTATUS_SUM) SSTATUS_PRIVILEGE to_kernel) h k))"

definition disable_traps_now :: "nat \<Rightarrow> kernel \<Rightarrow> bool \<times> kernel" where
  "disable_traps_now h k =
     (let (old, k') = csr_clear_mask sstatus (BIT_TO_INT SSTATUS_TRAPS_NOW) h k in
      (BIT_GET old SSTATUS_TRAPS_NOW, k'))"

definition enable_traps_now :: "nat \<Rightarrow> kernel \<Rightarrow> kernel" where
  "enable_traps_now h k = snd (csr_set_mask sstatus (BIT_TO_INT SSTATUS_TRAPS_NOW) h k)"

definition enable_interrupts :: "nat \<Rightarrow> kernel \<Rightarrow> kernel" where
  "enable_interrupts h k =
     (let v = csr_read sie h k OR (BIT_TO_INT SIE_SIP_SOFTWARE_INTERRUPT OR
          BIT_TO_INT SIE_SIP_TIMER_INTERRUPT OR BIT_TO_INT SIE_SIP_EXTERNAL_INTERRUPT) in
      snd (csr_write sie v h k))"

definition trigger_supervisor_software_interrupt :: "nat \<Rightarrow> kernel \<Rightarrow> kernel" where
  "trigger_supervisor_software_interrupt h k = snd (csr_set_mask sip (BIT_TO_INT SIE_SIP_SOFTWARE_INTERRUPT) h k)"

section \<open>Hart scratches (hart.c)\<close>

definition my_hart_scratch :: "nat \<Rightarrow> kernel \<Rightarrow> HartScratch" where
  "my_hart_scratch h k = hart_scratches k ! h"

definition set_scratch :: "nat \<Rightarrow> HartScratch \<Rightarrow> kernel \<Rightarrow> kernel" where
  "set_scratch h hs k = k\<lparr>hart_scratches := (hart_scratches k)[h := hs]\<rparr>"

definition my_hart_current_process :: "nat \<Rightarrow> kernel \<Rightarrow> nat option \<times> kernel" where
  "my_hart_current_process h k =
     (let (enabled_before, k1) = disable_traps_now h k;
          proc = current_process (my_hart_scratch h k1)
      in (proc, if enabled_before then enable_traps_now h k1 else k1))"

text \<open>A \<open>Buffer*\<close> to one of the kernel's buffers.\<close>

datatype BufferRef = HartBuffer nat | ProcessBuffer nat

definition my_hart_or_process_output_buffer :: "bool \<Rightarrow> nat \<Rightarrow> kernel \<Rightarrow> BufferRef" where
  "my_hart_or_process_output_buffer were_enabled h k =
     (case current_process (my_hart_scratch h k) of
        Some p \<Rightarrow> if were_enabled then ProcessBuffer p else HartBuffer h
      | None \<Rightarrow> HartBuffer h)"

definition my_hart_pre_lock_acquire :: "nat \<Rightarrow> kernel \<Rightarrow> bool \<times> kernel" where
  "my_hart_pre_lock_acquire h k =
     (let (were_enabled, k1) = disable_traps_now h k;
          hs = my_hart_scratch h k1;
          hs1 = (if lock_depth hs = 0 then hs\<lparr>interrupts_before_locking := were_enabled\<rparr> else hs)
      in (were_enabled, set_scratch h (hs1\<lparr>lock_depth := lock_depth hs1 + 1\<rparr>) k1))"

definition my_hart_post_lock_release :: "nat \<Rightarrow> kernel \<Rightarrow> error + kernel" where
  "my_hart_post_lock_release h k =
     (let hs = my_hart_scratch h k in
      if lock_depth hs = 0 then Inl (Panic ''post_lock_release lock_depth was 0'')
      else let hs1 = hs\<lparr>lock_depth := lock_depth hs - 1\<rparr>; k1 = set_scratch h hs1 k in
        if lock_depth hs1 = 0 \<and> interrupts_before_locking hs1 then Inr (enable_traps_now h k1) else Inr k1)"

fun HartScratch_init_loop :: "nat \<Rightarrow> kernel \<Rightarrow> error + kernel" where
  "HartScratch_init_loop 0 k = Inr k"
| "HartScratch_init_loop (Suc i) k =
     bindr (HartScratch_init_loop i k) (\<lambda>k1.
     bindr (Buffer_wrap (array (hart_buffer (my_hart_scratch i k1))) BUFFER_LEN) (\<lambda>b.
     Inr (set_scratch i ((my_hart_scratch i k1)\<lparr>hart_buffer := b\<rparr>) k1)))"

definition HartScratch_init_all :: "kernel \<Rightarrow> error + kernel" where
  "HartScratch_init_all = HartScratch_init_loop HART_MAXIMUM"

section \<open>Spin locks (lock.c)\<close>

text \<open>
  What one hart sees: an acquisition of a free lock swaps in 1 and reads 0 back; while the lock is held
  the loop goes round, which is \<open>Hangs\<close> as long as no other hart releases it.  The interleaving of
  harts, and what the loop does with its uninitialised variable, is the subject of \<open>Lock_Protocol\<close>.
\<close>

definition SpinLock_acquire :: "lock_id \<Rightarrow> nat \<Rightarrow> kernel \<Rightarrow> error + bool \<times> kernel" where
  "SpinLock_acquire l h k =
     (let (were_enabled, k1) = my_hart_pre_lock_acquire h k in
      if locked (locks k1 l) \<noteq> 0 then Inl Hangs
      else Inr (were_enabled,
        k1\<lparr>locks := (locks k1)(l := \<lparr>locked = 1, hart_owner = of_nat h\<rparr>)\<rparr>))"

definition SpinLock_release :: "lock_id \<Rightarrow> nat \<Rightarrow> kernel \<Rightarrow> error + kernel" where
  "SpinLock_release l h k =
     my_hart_post_lock_release h (k\<lparr>locks := (locks k)(l := \<lparr>locked = 0, hart_owner = -1\<rparr>)\<rparr>)"

end
