(* ===== verification/Kernel_Lock.thy ===== *)
theory Kernel_Lock
  imports Kernel_State
begin

text \<open>
  Locks as one hart uses them: the traps flag and the lock depth around a critical section.
\<close>

section \<open>The traps flag\<close>

lemma traps_now_64 [simp]: "SSTATUS_TRAPS_NOW < 64"
  by (simp add: SSTATUS_TRAPS_NOW_def)

definition traps_enabled :: "nat \<Rightarrow> kernel \<Rightarrow> bool" where
  "traps_enabled h k \<longleftrightarrow> bit (csrs k h sstatus) SSTATUS_TRAPS_NOW"

lemma clear_set_traps:
  "(v AND NOT (BIT_TO_INT SSTATUS_TRAPS_NOW)) OR BIT_TO_INT SSTATUS_TRAPS_NOW = v OR BIT_TO_INT SSTATUS_TRAPS_NOW"
  "bit v SSTATUS_TRAPS_NOW \<Longrightarrow> v OR BIT_TO_INT SSTATUS_TRAPS_NOW = v" "\<not> bit v SSTATUS_TRAPS_NOW \<Longrightarrow> v AND NOT (BIT_TO_INT SSTATUS_TRAPS_NOW) = v"
  by (rule bit_word_eqI, auto simp: bit_simps)+

lemma disable_traps_now_eq:
  "disable_traps_now h k =
     (traps_enabled h k, k\<lparr>csrs := (csrs k)(h := (csrs k h)(sstatus := csrs k h sstatus AND NOT (BIT_TO_INT SSTATUS_TRAPS_NOW)))\<rparr>)"
  by (simp add: disable_traps_now_def csr_clear_mask_def BIT_GET_bit traps_enabled_def traps_now_64)

lemma enable_traps_now_eq:
  "enable_traps_now h k =
     k\<lparr>csrs := (csrs k)(h := (csrs k h)(sstatus := csrs k h sstatus OR BIT_TO_INT SSTATUS_TRAPS_NOW))\<rparr>"
  by (simp add: enable_traps_now_def csr_set_mask_def)

lemma not_bit_disabled: "\<not> bit (v AND NOT (BIT_TO_INT SSTATUS_TRAPS_NOW)) SSTATUS_TRAPS_NOW"
  by (simp add: bit_simps traps_now_64)

lemma my_hart_current_process_eq [simp]:
  "my_hart_current_process h k = (current_process (my_hart_scratch h k), k)"
proof (cases "traps_enabled h k")
  case True
  then show ?thesis
    by (cases k) (simp add: my_hart_current_process_def disable_traps_now_eq enable_traps_now_eq Let_def
        my_hart_scratch_def traps_enabled_def clear_set_traps fun_upd_idem)
next
  case False
  then show ?thesis
    by (cases k) (simp add: my_hart_current_process_def disable_traps_now_eq Let_def my_hart_scratch_def
        traps_enabled_def clear_set_traps fun_upd_idem)
qed

lemma my_hart_scratch_set [simp]:
  "h < length (hart_scratches k) \<Longrightarrow> my_hart_scratch h (set_scratch h hs k) = hs"
  "my_hart_scratch h (k\<lparr>csrs := c\<rparr>) = my_hart_scratch h k"
  "my_hart_scratch h (k\<lparr>locks := l\<rparr>) = my_hart_scratch h k"
  "my_hart_scratch h (k\<lparr>sbi := tr\<rparr>) = my_hart_scratch h k"
  "my_hart_scratch h (k\<lparr>processes := ps\<rparr>) = my_hart_scratch h k"
  "my_hart_scratch h (k\<lparr>vm := v\<rparr>) = my_hart_scratch h k"
  by (simp_all add: my_hart_scratch_def set_scratch_def)

section \<open>A critical section\<close>

text \<open>What every use of a lock needs of the hart: the depth does not overflow, traps are off inside.\<close>

definition hart_ok :: "nat \<Rightarrow> kernel \<Rightarrow> bool" where
  "hart_ok h k \<longleftrightarrow> h < length (hart_scratches k) \<and> unat (lock_depth (my_hart_scratch h k)) < 2 ^ 32 - 1 \<and>
     (lock_depth (my_hart_scratch h k) \<noteq> 0 \<longrightarrow> \<not> traps_enabled h k)"

text \<open>The state inside a critical section that was entered in \<open>k\<close>.\<close>

definition entered :: "lock_id \<Rightarrow> nat \<Rightarrow> kernel \<Rightarrow> kernel" where
  "entered l h k =
     (let hs = my_hart_scratch h k in
      k\<lparr>csrs := (csrs k)(h := (csrs k h)(sstatus := csrs k h sstatus AND NOT (BIT_TO_INT SSTATUS_TRAPS_NOW))),
        hart_scratches := (hart_scratches k)[h := hs\<lparr>interrupts_before_locking :=
            (if lock_depth hs = 0 then traps_enabled h k else interrupts_before_locking hs),
          lock_depth := lock_depth hs + 1\<rparr>],
        locks := (locks k)(l := \<lparr>locked = 1, hart_owner = of_nat h\<rparr>)\<rparr>)"

lemma SpinLock_acquire_eq:
  "SpinLock_acquire l h k =
     (if locked (locks k l) \<noteq> 0 then Inl Hangs else Inr (traps_enabled h k, entered l h k))"
  by (simp add: SpinLock_acquire_def my_hart_pre_lock_acquire_def disable_traps_now_eq Let_def
      set_scratch_def entered_def my_hart_scratch_def)

text \<open>What \<open>interrupts_before_locking\<close> becomes in a critical section: the outermost one sets it.\<close>

definition lock_flag :: "nat \<Rightarrow> kernel \<Rightarrow> bool" where
  "lock_flag h k = (if lock_depth (my_hart_scratch h k) = 0 then traps_enabled h k
     else interrupts_before_locking (my_hart_scratch h k))"

text \<open>
  The release in a state \<open>k'\<close> that differs from the entered one only outside the control registers
  and the lock fields of the scratch.
\<close>

lemma SpinLock_release_eq:
  assumes "lock_depth (my_hart_scratch h k) \<noteq> 0"
  shows "SpinLock_release l h k =
     (let hs = my_hart_scratch h k;
          k1 = k\<lparr>locks := (locks k)(l := \<lparr>locked = 0, hart_owner = -1\<rparr>),
                 hart_scratches := (hart_scratches k)[h := hs\<lparr>lock_depth := lock_depth hs - 1\<rparr>]\<rparr> in
      if lock_depth hs = 1 \<and> interrupts_before_locking hs then Inr (enable_traps_now h k1) else Inr k1)"
  using assms
  by (simp add: SpinLock_release_def my_hart_post_lock_release_def Let_def set_scratch_def my_hart_scratch_def
      eq_diff_eq)

lemma depth_succ:
  fixes d :: u32
  assumes "unat d < 2 ^ 32 - 1"
  shows "d + 1 \<noteq> 0" "d + 1 - 1 = d" "unat (d + 1) = unat d + 1"
  using assms by (auto simp: unat_word_add_less word_unat_eq_iff [of _ 0])

text \<open>
  What the body of a critical section leaves alone: the control registers, the number of harts, and the
  lock fields of its own scratch.
\<close>

definition body_keeps :: "nat \<Rightarrow> kernel \<Rightarrow> kernel \<Rightarrow> bool" where
  "body_keeps h k1 k2 \<longleftrightarrow> csrs k2 = csrs k1 \<and> length (hart_scratches k2) = length (hart_scratches k1) \<and>
     lock_depth (my_hart_scratch h k2) = lock_depth (my_hart_scratch h k1) \<and>
     interrupts_before_locking (my_hart_scratch h k2) = interrupts_before_locking (my_hart_scratch h k1)"

lemma body_keeps_refl [simp]: "body_keeps h k k" by (simp add: body_keeps_def)

lemma entered_fields:
  assumes "h < length (hart_scratches k)"
  shows "csrs (entered l h k) = (csrs k)(h := (csrs k h)(sstatus := csrs k h sstatus AND NOT (BIT_TO_INT SSTATUS_TRAPS_NOW)))"
    "locks (entered l h k) = (locks k)(l := \<lparr>locked = 1, hart_owner = of_nat h\<rparr>)"
    "length (hart_scratches (entered l h k)) = length (hart_scratches k)"
    "my_hart_scratch h (entered l h k) = (my_hart_scratch h k)\<lparr>interrupts_before_locking :=
       (if lock_depth (my_hart_scratch h k) = 0 then traps_enabled h k else interrupts_before_locking (my_hart_scratch h k)),
       lock_depth := lock_depth (my_hart_scratch h k) + 1\<rparr>"
    "processes (entered l h k) = processes k" "vm (entered l h k) = vm k" "sbi (entered l h k) = sbi k"
    "kernel_table (entered l h k) = kernel_table k" "\<not> traps_enabled h (entered l h k)"
  using assms by (simp_all add: entered_def Let_def my_hart_scratch_def traps_enabled_def not_bit_disabled)

lemma SpinLock_release_after:
  assumes ok: "hart_ok h k" and body: "body_keeps h (entered l h k) k1"
  shows "SpinLock_release l h k1 = Inr (k1\<lparr>csrs := csrs k,
     locks := (locks k1)(l := \<lparr>locked = 0, hart_owner = -1\<rparr>),
     hart_scratches := (hart_scratches k1)[h := (my_hart_scratch h k1)\<lparr>lock_depth := lock_depth (my_hart_scratch h k)\<rparr>]\<rparr>)"
    (is "_ = Inr ?k2")
proof -
  let ?d = "lock_depth (my_hart_scratch h k)"
  have h: "h < length (hart_scratches k)" and d: "unat ?d < 2 ^ 32 - 1"
    and off: "?d \<noteq> 0 \<longrightarrow> \<not> traps_enabled h k"
    using ok by (simp_all add: hart_ok_def)
  note entered = entered_fields [OF h, of l]
  have depth: "lock_depth (my_hart_scratch h k1) = ?d + 1"
    and before: "interrupts_before_locking (my_hart_scratch h k1) =
      (if ?d = 0 then traps_enabled h k else interrupts_before_locking (my_hart_scratch h k))"
    and regs: "csrs k1 = (csrs k)(h := (csrs k h)(sstatus := csrs k h sstatus AND NOT (BIT_TO_INT SSTATUS_TRAPS_NOW)))"
    using body by (simp_all add: body_keeps_def entered)
  have nz: "lock_depth (my_hart_scratch h k1) \<noteq> 0" unfolding depth by (rule depth_succ(1) [OF d])
  have less: "lock_depth (my_hart_scratch h k1) - 1 = ?d" unfolding depth by (rule depth_succ(2) [OF d])
  then have one: "lock_depth (my_hart_scratch h k1) = 1 \<longleftrightarrow> ?d = 0"
    by (metis diff_add_cancel diff_self add_0)
  define on where "on \<longleftrightarrow> ?d = 0 \<and> traps_enabled h k"
  define k2 where "k2 = ?k2\<lparr>csrs := csrs k1\<rparr>"
  have again: "(lock_depth (my_hart_scratch h k1) = 1 \<and> interrupts_before_locking (my_hart_scratch h k1)) = on"
    unfolding one before on_def by simp
  have "SpinLock_release l h k1 = Inr (if on then enable_traps_now h k2 else k2)"
    unfolding SpinLock_release_eq [OF nz] Let_def less again k2_def by simp
  moreover have "(if on then enable_traps_now h k2 else k2) = k2\<lparr>csrs := csrs k\<rparr>"
  proof (cases on)
    case True
    then show ?thesis
      by (simp add: on_def enable_traps_now_eq k2_def regs traps_enabled_def clear_set_traps fun_upd_idem)
  next
    case False
    then have "\<not> traps_enabled h k" using off by (auto simp: on_def)
    with False show ?thesis by (simp add: k2_def regs traps_enabled_def clear_set_traps fun_upd_idem)
  qed
  ultimately show ?thesis by (simp add: k2_def)
qed

text \<open>
  C13: a critical section is a bracket: acquiring a free lock turns traps off, whatever the body does
  to the state other than the control registers and the lock fields of its scratch, the release succeeds,
  makes the lock free, restores the depth, and leaves the control registers as they were before the
  acquisition, so interrupts are on again exactly if this was the outermost section and they were on.
\<close>

theorem lock_bracket:
  assumes "hart_ok h k" and "locked (locks k l) = 0"
  shows "\<exists>k1. SpinLock_acquire l h k = Inr (traps_enabled h k, k1) \<and> \<not> traps_enabled h k1 \<and>
     locked (locks k1 l) = 1 \<and> hart_owner (locks k1 l) = of_nat h \<and>
     (\<forall>k2. body_keeps h k1 k2 \<longrightarrow> (\<exists>k3. SpinLock_release l h k2 = Inr k3 \<and> csrs k3 = csrs k \<and>
        lock_depth (my_hart_scratch h k3) = lock_depth (my_hart_scratch h k) \<and>
        locked (locks k3 l) = 0 \<and> processes k3 = processes k2 \<and> sbi k3 = sbi k2))"
proof -
  have h: "h < length (hart_scratches k)" using assms by (simp add: hart_ok_def)
  have "\<exists>k3. SpinLock_release l h k2 = Inr k3 \<and> csrs k3 = csrs k \<and>
        lock_depth (my_hart_scratch h k3) = lock_depth (my_hart_scratch h k) \<and>
        locked (locks k3 l) = 0 \<and> processes k3 = processes k2 \<and> sbi k3 = sbi k2"
    if body: "body_keeps h (entered l h k) k2" for k2
  proof -
    have "h < length (hart_scratches k2)" using body h by (simp add: body_keeps_def entered_fields)
    then show ?thesis using SpinLock_release_after [OF assms(1) body] by (simp add: my_hart_scratch_def)
  qed
  then show ?thesis
    using assms h by (simp add: SpinLock_acquire_eq entered_fields)
qed

text \<open>A kernel with one hart, traps on, and every lock free.\<close>

definition sample_hart :: HartScratch where
  "sample_hart = \<lparr>hart_frame = TrapFrame_zero, current_process = None,
     hart_buffer = \<lparr>count = 0, capacity = 256, array = replicate 256 0\<rparr>,
     interrupts_before_locking = False, lock_depth = 0\<rparr>"

definition sample_kernel :: "nat \<Rightarrow> Process list \<Rightarrow> kernel" where
  "sample_kernel harts ps = \<lparr>csrs = (\<lambda>h c. if c = sstatus then 2 else 0), hart_scratches = replicate harts sample_hart,
     processes = ps, locks = (\<lambda>l. \<lparr>locked = 0, hart_owner = -1\<rparr>), vm = \<lparr>mem = (\<lambda>a. 0), next_page = 0\<rparr>,
     kernel_table = \<lparr>kernel_page_table = 0, kernel_page_satp = 0\<rparr>, uart1_buffer = \<lparr>count = 0, capacity = 256, array = replicate 256 0\<rparr>,
     sbi = [], mmio = []\<rparr>"

lemma sample_kernel_simps [simp]:
  "hart_scratches (sample_kernel n ps) = replicate n sample_hart" "processes (sample_kernel n ps) = ps"
  "locks (sample_kernel n ps) = (\<lambda>l. \<lparr>locked = 0, hart_owner = -1\<rparr>)" "sbi (sample_kernel n ps) = []"
  "csrs (sample_kernel n ps) = (\<lambda>h c. if c = sstatus then 2 else 0)" "vm (sample_kernel n ps) = \<lparr>mem = (\<lambda>a. 0), next_page = 0\<rparr>"
  "mmio (sample_kernel n ps) = []" "uart1_buffer (sample_kernel n ps) = \<lparr>count = 0, capacity = 256, array = replicate 256 0\<rparr>"
  "kernel_table (sample_kernel n ps) = \<lparr>kernel_page_table = 0, kernel_page_satp = 0\<rparr>"
  "h < n \<Longrightarrow> my_hart_scratch h (sample_kernel n ps) = sample_hart"
  by (simp_all add: sample_kernel_def my_hart_scratch_def)

lemma sample_hart_simps [simp]:
  "hart_frame sample_hart = TrapFrame_zero" "current_process sample_hart = None" "lock_depth sample_hart = 0"
  "hart_buffer sample_hart = \<lparr>count = 0, capacity = 256, array = replicate 256 0\<rparr>"
  "interrupts_before_locking sample_hart = False"
  by (simp_all add: sample_hart_def)

lemma sample_hart_ok: "h < n \<Longrightarrow> hart_ok h (sample_kernel n ps)"
  by (simp add: hart_ok_def)

lemma lock_bracket_witness:
  "\<exists>k1. SpinLock_acquire io_spinlock 0 (sample_kernel 1 []) = Inr (traps_enabled 0 (sample_kernel 1 []), k1) \<and>
     \<not> traps_enabled 0 k1 \<and> locked (locks k1 io_spinlock) = 1"
  using lock_bracket [OF sample_hart_ok [of 0 1 "[]"], of io_spinlock] by auto

end
