(* ===== verification/Lock_Protocol.thy ===== *)
theory Lock_Protocol
  imports Kernel_Lock
begin

text \<open>
  The loop of \<open>SpinLock_acquire\<close> (kernel/lock.c) as the harts run it together: a step relation whose
  steps are the accesses to the lock word.  \<open>garbage\<close> is the set of values that the uninitialised
  variable \<open>former_value\<close> may have when a hart enters.
\<close>

section \<open>The machine\<close>

datatype lock_pc = Outside | Check | Swap | Test | Critical

record lock_machine =
  word :: u32
  at :: "nat \<Rightarrow> lock_pc"
  former_value :: "nat \<Rightarrow> u64"

text \<open>
  \<open>continue\<close> in a \<open>do ... while\<close> goes to the condition, so a hart that reads the word as taken tests
  \<open>former_value\<close> without having swapped.
\<close>

inductive lock_step :: "u64 set \<Rightarrow> nat \<Rightarrow> lock_machine \<Rightarrow> lock_machine \<Rightarrow> bool" for garbage i where
  enter: "at s i = Outside \<Longrightarrow> g \<in> garbage \<Longrightarrow>
    lock_step garbage i s (s\<lparr>at := (at s)(i := Check), former_value := (former_value s)(i := g)\<rparr>)"
| check_taken: "at s i = Check \<Longrightarrow> word s \<noteq> 0 \<Longrightarrow> lock_step garbage i s (s\<lparr>at := (at s)(i := Test)\<rparr>)"
| check_free: "at s i = Check \<Longrightarrow> word s = 0 \<Longrightarrow> lock_step garbage i s (s\<lparr>at := (at s)(i := Swap)\<rparr>)"
| swap: "at s i = Swap \<Longrightarrow>
    lock_step garbage i s (s\<lparr>word := 1, at := (at s)(i := Test), former_value := (former_value s)(i := scast (word s))\<rparr>)"
| test_again: "at s i = Test \<Longrightarrow> former_value s i \<noteq> 0 \<Longrightarrow> lock_step garbage i s (s\<lparr>at := (at s)(i := Check)\<rparr>)"
| test_done: "at s i = Test \<Longrightarrow> former_value s i = 0 \<Longrightarrow> lock_step garbage i s (s\<lparr>at := (at s)(i := Critical)\<rparr>)"
| release: "at s i = Critical \<Longrightarrow> lock_step garbage i s (s\<lparr>word := 0, at := (at s)(i := Outside)\<rparr>)"

inductive_cases lock_stepE: "lock_step garbage i s s'"

definition lock_start :: lock_machine where
  "lock_start = \<lparr>word = 0, at = (\<lambda>i. Outside), former_value = (\<lambda>i. 0)\<rparr>"

inductive lock_reachable :: "u64 set \<Rightarrow> lock_machine \<Rightarrow> bool" for garbage where
  start: "lock_reachable garbage lock_start"
| "step": "lock_reachable garbage s \<Longrightarrow> lock_step garbage i s s' \<Longrightarrow> lock_reachable garbage s'"

section \<open>Who holds the lock\<close>

definition holds :: "lock_machine \<Rightarrow> nat \<Rightarrow> bool" where
  "holds s i \<longleftrightarrow> at s i = Critical \<or> (at s i = Test \<and> former_value s i = 0)"

definition lock_inv :: "lock_machine \<Rightarrow> bool" where
  "lock_inv s \<longleftrightarrow> (\<forall>i j. holds s i \<and> holds s j \<longrightarrow> i = j) \<and> (word s = 0 \<or> word s = 1) \<and>
     (word s \<noteq> 0 \<longleftrightarrow> (\<exists>i. holds s i)) \<and> (\<forall>i. at s i = Check \<or> at s i = Swap \<longrightarrow> former_value s i \<noteq> 0)"

lemma lock_invI:
  assumes "\<And>i j. holds s i \<Longrightarrow> holds s j \<Longrightarrow> i = j" and "word s = 0 \<or> word s = 1"
    and "word s \<noteq> 0 \<longleftrightarrow> (\<exists>i. holds s i)"
    and "\<And>i. at s i = Check \<or> at s i = Swap \<Longrightarrow> former_value s i \<noteq> 0"
  shows "lock_inv s"
  using assms unfolding lock_inv_def by blast

lemma lock_inv_start: "lock_inv lock_start"
  by (simp add: lock_inv_def lock_start_def holds_def)

lemma scast_1 [simp]: "(scast (1 :: u32) :: u64) = 1"
  by (rule bit_word_eqI) (auto simp: bit_signed_iff min_def bit_simps)

text \<open>A step that leaves the word and the holders alone, and a step that changes them.\<close>

lemma lock_inv_same:
  assumes "lock_inv s" and "\<And>j. holds s' j \<longleftrightarrow> holds s j" and "word s' = word s"
    and "\<And>j. at s' j = Check \<or> at s' j = Swap \<Longrightarrow> former_value s' j \<noteq> 0"
  shows "lock_inv s'"
  using assms by (auto simp: lock_inv_def)

lemma lock_inv_step:
  assumes "0 \<notin> garbage" and "lock_step garbage i s s'" and inv: "lock_inv s"
  shows "lock_inv s'"
proof -
  have uniq: "\<And>j l. holds s j \<Longrightarrow> holds s l \<Longrightarrow> j = l" and bin: "word s = 0 \<or> word s = 1"
    and held: "word s \<noteq> 0 \<longleftrightarrow> (\<exists>j. holds s j)"
    and fv: "\<And>j. at s j = Check \<or> at s j = Swap \<Longrightarrow> former_value s j \<noteq> 0"
    using inv by (auto simp: lock_inv_def)
  from assms(2) show ?thesis
  proof cases
    case (enter g)
    then show ?thesis using assms(1) fv
      by (intro lock_inv_same [OF inv]) (auto simp: holds_def split: if_splits)
  next
    case check_taken
    then show ?thesis using fv by (intro lock_inv_same [OF inv]) (auto simp: holds_def split: if_splits)
  next
    case check_free
    then show ?thesis using fv by (intro lock_inv_same [OF inv]) (auto simp: holds_def split: if_splits)
  next
    case test_again
    then show ?thesis using fv by (intro lock_inv_same [OF inv]) (auto simp: holds_def split: if_splits)
  next
    case test_done
    then show ?thesis using fv by (intro lock_inv_same [OF inv]) (auto simp: holds_def split: if_splits)
  next
    case swap
    then have h: "\<And>j. holds s' j \<longleftrightarrow> (if j = i then word s = 0 else holds s j)"
      and w: "word s' = 1" and f: "\<And>j. at s' j = Check \<or> at s' j = Swap \<Longrightarrow> former_value s' j \<noteq> 0"
      using bin fv by (auto simp: holds_def split: if_splits)
    have i: "\<not> holds s i" using swap by (simp add: holds_def)
    show ?thesis
    proof (cases "word s = 0")
      case True
      then have "\<And>j. \<not> holds s j" using held by blast
      then show ?thesis using w f True by (intro lock_invI) (auto simp: h split: if_splits)
    next
      case False
      then have "\<exists>j. holds s j \<and> j \<noteq> i" using held i by blast
      then show ?thesis using w f False uniq by (intro lock_invI) (auto simp: h split: if_splits)
    qed
  next
    case release
    then have h: "\<And>j. holds s' j \<longleftrightarrow> j \<noteq> i \<and> holds s j" and w: "word s' = 0" and i: "holds s i"
      and f: "\<And>j. at s' j = Check \<or> at s' j = Swap \<Longrightarrow> former_value s' j \<noteq> 0"
      using fv by (auto simp: holds_def split: if_splits)
    show ?thesis by (rule lock_invI) (use w f uniq i in \<open>auto simp: h\<close>)
  qed
qed

lemma lock_inv_reachable:
  assumes "0 \<notin> garbage" and "lock_reachable garbage s"
  shows "lock_inv s"
  using assms(2) by induction (auto intro: lock_inv_start lock_inv_step [OF assms(1)])

section \<open>Mutual exclusion\<close>

text \<open>
  C8: when the uninitialised variable is never 0 on entry, no two harts are ever inside the critical
  section, in any interleaving of any number of harts.
\<close>

theorem lock_mutual_exclusion:
  assumes "0 \<notin> garbage" and "lock_reachable garbage s" and "at s i = Critical" and "at s j = Critical"
  shows "i = j"
  using lock_inv_reachable [OF assms(1,2)] assms(3,4) by (auto simp: lock_inv_def holds_def)

definition one_inside :: lock_machine where
  "one_inside = lock_start\<lparr>word := 1, at := (\<lambda>i. Outside)(0 := Critical), former_value := (\<lambda>i. 0)\<rparr>"

lemma reach_one_inside:
  assumes "g \<in> garbage"
  shows "lock_reachable garbage one_inside"
proof -
  let ?c = "lock_start\<lparr>at := (\<lambda>i. Outside)(0 := Check), former_value := (\<lambda>i. 0)(0 := g)\<rparr>"
  have zero: "(\<lambda>i :: nat. 0 :: u64)(0 := 0) = (\<lambda>i. 0)" by auto
  have 1: "lock_reachable garbage ?c"
    using lock_reachable.step [OF lock_reachable.start lock_step.enter [of lock_start 0 g garbage]] assms
    by (simp add: lock_start_def)
  have 2: "lock_reachable garbage (?c\<lparr>at := (\<lambda>i. Outside)(0 := Swap)\<rparr>)"
    using lock_reachable.step [OF 1 lock_step.check_free [of ?c 0 garbage]] by (simp add: lock_start_def)
  have 3: "lock_reachable garbage (?c\<lparr>word := 1, at := (\<lambda>i. Outside)(0 := Test), former_value := (\<lambda>i. 0)\<rparr>)"
    using lock_reachable.step [OF 2 lock_step.swap [of _ 0 garbage]] by (simp add: lock_start_def zero)
  show ?thesis
    using lock_reachable.step [OF 3 lock_step.test_done [of _ 0 garbage]] by (simp add: lock_start_def one_inside_def)
qed

lemma lock_mutual_exclusion_witness:
  "lock_reachable {1} one_inside \<and> at one_inside 0 = Critical \<and> (0 :: nat) = 0"
  using lock_mutual_exclusion [of "{1}" one_inside 0 0] reach_one_inside [of 1 "{1}"]
  by (simp add: one_inside_def)

text \<open>
  C12: when the variable may be 0 on entry, which the code does not rule out, two harts can be inside
  at once: the second one reads the word as taken, \<open>continue\<close>s to the condition and leaves the loop.
\<close>

theorem lock_uninitialised_unsafe:
  assumes "0 \<in> garbage"
  shows "\<exists>s. lock_reachable garbage s \<and> at s 0 = Critical \<and> at s 1 = Critical"
proof -
  let ?c = "one_inside\<lparr>at := (at one_inside)(1 := Check), former_value := (former_value one_inside)(1 := 0)\<rparr>"
  have 1: "lock_reachable garbage ?c"
    using lock_reachable.step [OF reach_one_inside [OF assms] lock_step.enter [of one_inside 1 0 garbage]] assms
    by (simp add: one_inside_def)
  have 2: "lock_reachable garbage (?c\<lparr>at := (at ?c)(1 := Test)\<rparr>)"
    using lock_reachable.step [OF 1 lock_step.check_taken [of ?c 1 garbage]] by (simp add: one_inside_def)
  have 3: "lock_reachable garbage (?c\<lparr>at := (at ?c)(1 := Critical)\<rparr>)"
    using lock_reachable.step [OF 2 lock_step.test_done [of _ 1 garbage]] by (simp add: one_inside_def)
  then show ?thesis by (intro exI [of _ "?c\<lparr>at := (at ?c)(1 := Critical)\<rparr>"]) (simp add: one_inside_def)
qed

lemma lock_uninitialised_unsafe_witness:
  "\<exists>s. lock_reachable {0} s \<and> at s 0 = Critical \<and> at s 1 = Critical"
  by (rule lock_uninitialised_unsafe) simp

section \<open>Progress\<close>

lemma run_from_check:
  assumes "at s i = Check" and "word s = 0"
  shows "\<exists>s'. (lock_step garbage i)\<^sup>*\<^sup>* s s' \<and> at s' i = Critical \<and> word s' = 1 \<and> (\<forall>j. j \<noteq> i \<longrightarrow> at s' j = at s j)"
proof -
  let ?a = "s\<lparr>at := (at s)(i := Swap)\<rparr>"
  let ?b = "?a\<lparr>word := 1, at := (at ?a)(i := Test), former_value := (former_value s)(i := 0)\<rparr>"
  let ?c = "?b\<lparr>at := (at ?b)(i := Critical)\<rparr>"
  have "lock_step garbage i s ?a" using assms by (rule lock_step.check_free)
  moreover have "lock_step garbage i ?a ?b" using lock_step.swap [of ?a i garbage] assms by simp
  moreover have "lock_step garbage i ?b ?c" using lock_step.test_done [of ?b i garbage] by simp
  ultimately have "(lock_step garbage i)\<^sup>*\<^sup>* s ?c"
    by (meson rtranclp.rtrancl_refl rtranclp.rtrancl_into_rtrancl)
  then show ?thesis by (intro exI [of _ ?c]) simp
qed

text \<open>
  The loop does not keep a hart out of a free lock: in every reachable state in which no hart
  holds the lock, a hart that is in the loop gets in by its own steps alone, and if the word is taken
  some hart holds it.
\<close>

theorem lock_progress:
  assumes "0 \<notin> garbage" and "lock_reachable garbage s" and "at s i \<noteq> Outside" and "\<forall>j. \<not> holds s j"
  shows "\<exists>s'. (lock_step garbage i)\<^sup>*\<^sup>* s s' \<and> at s' i = Critical"
proof -
  have "word s = 0" using lock_inv_reachable [OF assms(1,2)] assms(4) by (auto simp: lock_inv_def)
  consider "at s i = Check" | "at s i = Swap" | "at s i = Test" "former_value s i \<noteq> 0"
    using assms(3,4) by (cases "at s i") (auto simp: holds_def)
  then show ?thesis
  proof cases
    case 1
    then show ?thesis using run_from_check \<open>word s = 0\<close> by blast
  next
    case 2
    let ?b = "s\<lparr>word := 1, at := (at s)(i := Test), former_value := (former_value s)(i := 0)\<rparr>"
    have "lock_step garbage i s ?b" using lock_step.swap [of s i garbage] 2 \<open>word s = 0\<close> by simp
    moreover have "lock_step garbage i ?b (?b\<lparr>at := (at ?b)(i := Critical)\<rparr>)"
      using lock_step.test_done [of ?b i garbage] by simp
    ultimately have "(lock_step garbage i)\<^sup>*\<^sup>* s (?b\<lparr>at := (at ?b)(i := Critical)\<rparr>)"
      by (meson rtranclp.rtrancl_refl rtranclp.rtrancl_into_rtrancl)
    then show ?thesis by (intro exI [of _ "?b\<lparr>at := (at ?b)(i := Critical)\<rparr>"]) simp
  next
    case 3
    then have "lock_step garbage i s (s\<lparr>at := (at s)(i := Check)\<rparr>)" by (rule lock_step.test_again)
    moreover obtain s' where "(lock_step garbage i)\<^sup>*\<^sup>* (s\<lparr>at := (at s)(i := Check)\<rparr>) s'" "at s' i = Critical"
      using run_from_check [of "s\<lparr>at := (at s)(i := Check)\<rparr>" i garbage] \<open>word s = 0\<close> by auto
    ultimately show ?thesis by (meson converse_rtranclp_into_rtranclp)
  qed
qed

definition one_checking :: lock_machine where
  "one_checking = lock_start\<lparr>at := (\<lambda>i. Outside)(0 := Check), former_value := (\<lambda>i. 0)(0 := 1)\<rparr>"

lemma lock_progress_witness:
  "\<exists>s'. (lock_step {1} 0)\<^sup>*\<^sup>* one_checking s' \<and> at s' 0 = Critical"
proof (rule lock_progress)
  show "lock_reachable {1} one_checking"
    using lock_reachable.step [OF lock_reachable.start lock_step.enter [of lock_start 0 1 "{1}"]]
    by (simp add: lock_start_def one_checking_def)
qed (auto simp: one_checking_def lock_start_def holds_def)

section \<open>What one hart sees\<close>

text \<open>
  \<open>SpinLock_acquire\<close> as one hart sees it is a run of the machine in which only that hart moves,
  from the check to the critical section, and it hangs exactly when the word is taken.
\<close>

theorem acquire_refines_protocol:
  assumes "at s h = Check" and "word s = locked (locks k l)"
  shows "(\<exists>b k1 s'. SpinLock_acquire l h k = Inr (b, k1) \<and> (lock_step garbage h)\<^sup>*\<^sup>* s s' \<and> at s' h = Critical \<and>
     word s' = locked (locks k1 l)) \<or> (SpinLock_acquire l h k = Inl Hangs \<and> word s \<noteq> 0)"
  using assms run_from_check [of s h garbage]
  by (cases "word s = 0") (auto simp: SpinLock_acquire_eq entered_def Let_def)

lemma acquire_refines_protocol_witness:
  "(\<exists>b k1 s'. SpinLock_acquire io_spinlock 0 (sample_kernel 1 []) = Inr (b, k1) \<and>
     (lock_step {1} 0)\<^sup>*\<^sup>* one_checking s' \<and> at s' 0 = Critical \<and> word s' = locked (locks k1 io_spinlock)) \<or>
   (SpinLock_acquire io_spinlock 0 (sample_kernel 1 []) = Inl Hangs \<and> word one_checking \<noteq> 0)"
  by (rule acquire_refines_protocol) (simp_all add: one_checking_def lock_start_def)

end
