(* ===== verification/Page_Words.thy ===== *)
theory Page_Words
  imports Virtual_Memory
begin

text \<open>
  Word arithmetic of page tables: pages and the entries in them, and the bit fields of entries.
\<close>

section \<open>Pages\<close>

definition page_of :: "addr \<Rightarrow> u64" where
  "page_of a = drop_bit 12 a"

lemma is_aligned_iff: "is_aligned a PAGE_SIZE \<longleftrightarrow> take_bit 12 a = 0"
proof -
  have "a mod 2 ^ 12 = take_bit 12 a" by (simp only: take_bit_eq_mod)
  then show ?thesis by (simp add: page_aligned_mod PAGE_SIZE_def)
qed

lemma div_page: "a div PAGE_SIZE = page_of a"
proof -
  have "a div 2 ^ 12 = drop_bit 12 a" by (simp only: drop_bit_eq_div)
  then show ?thesis by (simp add: page_of_def PAGE_SIZE_def)
qed

lemma times_page: "n * PAGE_SIZE = push_bit 12 n"
  by (simp add: push_bit_eq_mult PAGE_SIZE_def)

lemma page_of_times: "is_aligned a PAGE_SIZE \<Longrightarrow> page_of a * PAGE_SIZE = a"
  using bits_ident [of 12 a] by (simp add: is_aligned_iff times_page page_of_def)

lemma aligned_times [simp]: "is_aligned (n * PAGE_SIZE) PAGE_SIZE"
  by (simp add: is_aligned_iff times_page take_bit_push_bit)

lemma page_of_eq: "is_aligned a PAGE_SIZE \<Longrightarrow> is_aligned b PAGE_SIZE \<Longrightarrow> page_of a = page_of b \<longleftrightarrow> a = b"
  by (metis page_of_times)

lemma page_of_offset:
  assumes "is_aligned p PAGE_SIZE" and "k < PAGE_SIZE"
  shows "page_of (p + k) = page_of p" and "take_bit 12 (p + k) = k"
proof -
  have k: "take_bit 12 k = k"
    using assms(2)
    by (simp add: PAGE_SIZE_def word_less_nat_alt word_unat_eq_iff unsigned_take_bit_eq take_bit_nat_eq_self)
  have disj: "p AND k = 0"
  proof (rule bit_word_eqI)
    fix n
    have "bit k n \<Longrightarrow> n < 12" using k by (metis bit_take_bit_iff)
    moreover have "n < 12 \<Longrightarrow> \<not> bit p n"
      using assms(1) by (metis bit_0_eq bit_take_bit_iff bot_apply bot_bool_def is_aligned_iff)
    ultimately show "bit (p AND k) n = bit 0 n" by (auto simp: bit_and_iff)
  qed
  then have or: "p + k = p OR k" by (simp add: disjunctive_add_eq_or)
  have "drop_bit 12 k = 0"
    using k by (metis drop_bit_take_bit diff_self_eq_0 take_bit_0)
  then show "page_of (p + k) = page_of p" by (simp add: page_of_def or drop_bit_or)
  show "take_bit 12 (p + k) = k" using assms(1) k by (simp add: or is_aligned_iff)
qed

lemma in_page_iff:
  assumes "is_aligned p PAGE_SIZE"
  shows "a - p < PAGE_SIZE \<longleftrightarrow> page_of a = page_of p"
proof
  assume "a - p < PAGE_SIZE"
  from page_of_offset(1) [OF assms this] show "page_of a = page_of p" by simp
next
  assume "page_of a = page_of p"
  then have "push_bit 12 (page_of a) = p"
    using page_of_times [OF assms] by (simp add: times_page)
  then have "a = p + take_bit 12 a"
    using bits_ident [of 12 a] by (simp add: page_of_def)
  then have "a - p = take_bit 12 a" by (metis add_diff_cancel_left')
  moreover have "take_bit 12 a < PAGE_SIZE"
    using take_bit_nat_less_exp [of 12 "unat a"]
    by (simp add: PAGE_SIZE_def word_less_nat_alt unsigned_take_bit_eq)
  ultimately show "a - p < PAGE_SIZE" by simp
qed

section \<open>Entries\<close>

text \<open>The entry of a table with a 9-bit number.\<close>

definition entry_at :: "PageTable \<Rightarrow> 9 word \<Rightarrow> addr" where
  "entry_at t n = entry_addr t (ucast n)"

lemma eight_ucast_less: "8 * (ucast (n :: 9 word) :: u64) < PAGE_SIZE"
proof -
  have "unat n < 512" using unsigned_less [of n] by simp
  then show ?thesis
    by (simp add: PAGE_SIZE_def word_less_nat_alt unat_word_ariths unsigned_ucast_eq
        take_bit_nat_eq_self)
qed

lemma page_of_entry [simp]: "is_aligned t PAGE_SIZE \<Longrightarrow> page_of (entry_at t n) = page_of t"
  by (simp add: entry_at_def entry_addr_def page_of_offset eight_ucast_less)

lemma entry_at_inj:
  assumes "is_aligned t PAGE_SIZE" and "is_aligned u PAGE_SIZE"
  shows "entry_at t n = entry_at u k \<longleftrightarrow> t = u \<and> n = k"
proof
  assume eq: "entry_at t n = entry_at u k"
  then have "page_of t = page_of u" by (metis assms page_of_entry)
  then have "t = u" using assms by (simp add: page_of_eq)
  moreover from this eq have "8 * (ucast n :: u64) = 8 * ucast k"
    by (simp add: entry_at_def entry_addr_def)
  then have "unat (8 * (ucast n :: u64)) = unat (8 * (ucast k :: u64))" by simp
  moreover have "unat (8 * (ucast i :: u64)) = 8 * unat i" for i :: "9 word"
  proof -
    have "unat i < 2 ^ 9" using unsigned_less [of i] by simp
    then show ?thesis by (simp add: unat_word_ariths unsigned_ucast_eq take_bit_nat_eq_self)
  qed
  ultimately show "t = u \<and> n = k" by (simp add: word_unat_eq_iff)
qed simp

section \<open>The fields of an entry\<close>

lemma set_field_bit:
  "bit (set_field k n w v) i \<longleftrightarrow>
     (if k \<le> i \<and> i < k + n then i < 64 \<and> bit v (i - k) else bit w i)"
  using bit_imp_le_length [of w i]
  by (auto simp: set_field_def bit_simps)

lemma entry_flags_bit: "bit (entry_flags e) i \<longleftrightarrow> i < 8 \<and> bit e i"
  by (auto simp: entry_flags_def bit_simps)

lemma entry_flags_set_flags [simp]: "entry_flags (set_flags e f) = f"
  by (rule bit_word_eqI) (auto simp: entry_flags_bit set_flags_def set_field_bit bit_simps)

lemma entry_flags_set_num [simp]: "entry_flags (set_physical_page_num e n) = entry_flags e"
  by (rule bit_word_eqI) (auto simp: entry_flags_bit set_physical_page_num_def set_field_bit)

lemma num_set_flags [simp]: "physical_page_num (set_flags e f) = physical_page_num e"
  by (rule bit_word_eqI)
    (auto simp: physical_page_num_def set_flags_def set_field_bit bit_simps)

lemma num_set_num [simp]: "physical_page_num (set_physical_page_num e n) = take_bit 44 n"
  by (rule bit_word_eqI)
    (auto simp: physical_page_num_def set_physical_page_num_def set_field_bit bit_simps)

lemma num_zero [simp]: "physical_page_num 0 = 0"
  by (simp add: physical_page_num_def)

lemma flags_zero [simp]: "entry_flags 0 = 0"
  by (simp add: entry_flags_def)

lemma flag_simps [simp]:
  "flag_valid (f OR 1)" "flag_valid (f OR 2) = flag_valid f" "\<not> flag_valid 0"
  "PageTableEntryFlags_is_leaf (f OR 1) = PageTableEntryFlags_is_leaf f"
  "PageTableEntryFlags_is_leaf (f OR 2)" "\<not> PageTableEntryFlags_is_leaf 0"
  "flag_user (f OR 1) = flag_user f" "flag_user (f OR 2) = flag_user f"
  by (simp_all add: flag_valid_def PageTableEntryFlags_is_leaf_def flag_read_def flag_write_def
      flag_execute_def flag_user_def bit_or_iff bit_1_iff bit_numeral_rec)

text \<open>The entry numbers of an address.\<close>

definition index :: "nat \<Rightarrow> addr \<Rightarrow> 9 word" where
  "index level va = ucast (drop_bit (12 + 9 * level) va)"

lemma entry_number_index:
  "level0_entry_number va = ucast (index 0 va)" "level1_entry_number va = ucast (index 1 va)"
  "level2_entry_number va = ucast (index 2 va)"
  by (rule bit_word_eqI, auto simp: level0_entry_number_def level1_entry_number_def
      level2_entry_number_def index_def bit_simps)+

lemma get_level_entry_number:
  "level \<le> 2 \<Longrightarrow> VirtualAddress_get_level_entry_number va level = Inr (ucast (index level va))"
  by (auto simp: VirtualAddress_get_level_entry_number_def entry_number_index le_Suc_eq numeral_2_eq_2)

lemma index_page: "index level va = ucast (drop_bit (9 * level) (page_of va))"
  by (simp add: index_def page_of_def add.commute)

text \<open>Two addresses of the 39-bit space have the same entry numbers exactly when they are in the same page.\<close>

lemma index_eq_iff:
  "index 0 va = index 0 va' \<and> index 1 va = index 1 va' \<and> index 2 va = index 2 va' \<longleftrightarrow>
     take_bit 27 (page_of va) = take_bit 27 (page_of va')"
proof -
  have bits: "bit (take_bit 27 (page_of v)) i =
      (if i < 9 then bit (index 0 v) i else if i < 18 then bit (index 1 v) (i - 9)
       else if i < 27 then bit (index 2 v) (i - 18) else False)" for v i
    by (auto simp: index_def page_of_def bit_simps)
  show ?thesis
  proof
    assume "index 0 va = index 0 va' \<and> index 1 va = index 1 va' \<and> index 2 va = index 2 va'"
    then show "take_bit 27 (page_of va) = take_bit 27 (page_of va')"
      by (intro bit_word_eqI) (simp add: bits)
  next
    assume eq: "take_bit 27 (page_of va) = take_bit 27 (page_of va')"
    have "bit (index 0 v) i \<longleftrightarrow> bit (take_bit 27 (page_of v)) i"
      "bit (index 1 v) i \<longleftrightarrow> bit (take_bit 27 (page_of v)) (i + 9)"
      "bit (index 2 v) i \<longleftrightarrow> bit (take_bit 27 (page_of v)) (i + 18)" if "i < 9" for v i
      using that by (simp_all add: bits)
    with eq show "index 0 va = index 0 va' \<and> index 1 va = index 1 va' \<and> index 2 va = index 2 va'"
      by (auto intro!: bit_word_eqI)
  qed
qed

end
