(* ===== verification/Page_Table.thy ===== *)
theory Page_Table
  imports Page_Words
begin

text \<open>
  Page tables as trees: the tables that are reached from a root, the mapping they hold, the invariant
  of the allocator and the trees, and the two kinds of stores that mapping an address makes.
\<close>

section \<open>The tree of a root\<close>

definition link :: "(addr \<Rightarrow> u64) \<Rightarrow> PageTable \<Rightarrow> 9 word \<Rightarrow> PageTable option" where
  "link m t n =
     (let e = m (entry_at t n) in
      if flag_valid (entry_flags e) then Some (physical_page_num e * PAGE_SIZE) else None)"

text \<open>The table at the end of a path of entry numbers.\<close>

definition table_at :: "(addr \<Rightarrow> u64) \<Rightarrow> PageTable \<Rightarrow> 9 word list \<Rightarrow> PageTable option" where
  "table_at m root p = fold (\<lambda>n t. Option.bind t (\<lambda>t. link m t n)) p (Some root)"

text \<open>What the tree maps: the physical page and the flags of a triple of entry numbers.\<close>

definition lookup :: "(addr \<Rightarrow> u64) \<Rightarrow> PageTable \<Rightarrow> 9 word \<times> 9 word \<times> 9 word \<Rightarrow> (addr \<times> PageTableEntryFlags) option"
where
  "lookup m root = (\<lambda>(n2, n1, n0).
     Option.bind (table_at m root [n2, n1]) (\<lambda>t.
       let e = m (entry_at t n0) in
       if flag_valid (entry_flags e) then Some (physical_page_num e * PAGE_SIZE, entry_flags e) else None))"

definition vpn :: "addr \<Rightarrow> 9 word \<times> 9 word \<times> 9 word" where
  "vpn va = (index 2 va, index 1 va, index 0 va)"

lemma vpn_eq_iff: "vpn va = vpn va' \<longleftrightarrow> take_bit 27 (page_of va) = take_bit 27 (page_of va')"
  unfolding index_eq_iff [symmetric] by (auto simp: vpn_def)

lemma table_at_simps [simp]:
  "table_at m root [] = Some root"
  "table_at m root (p @ [n]) = Option.bind (table_at m root p) (\<lambda>t. link m t n)"
  by (simp_all add: table_at_def)

lemma table_at_one: "table_at m root [n] = link m root n"
  by (simp add: table_at_def)

lemma table_at_two: "table_at m root [k, n] = Option.bind (link m root k) (\<lambda>t. link m t n)"
  by (simp add: table_at_def)

section \<open>The invariant\<close>

text \<open>
  \<open>A\<close> is the set of allocated pages.  Every table of the tree of a root is an allocated page, no page
  is used twice, and the entries above the last level are links.
\<close>

definition page_ok :: "addr \<Rightarrow> bool" where
  "page_ok p \<longleftrightarrow> is_aligned p PAGE_SIZE \<and> p \<noteq> 0 \<and> take_bit 44 (page_of p) = page_of p"

definition trees_ok :: "(addr \<Rightarrow> u64) \<Rightarrow> addr set \<Rightarrow> PageTable set \<Rightarrow> bool" where
  "trees_ok m A roots \<longleftrightarrow>
     (\<forall>p\<in>A. page_ok p) \<and>
     (\<forall>r\<in>roots. \<forall>p t. length p \<le> 2 \<longrightarrow> table_at m r p = Some t \<longrightarrow> t \<in> A) \<and>
     (\<forall>r\<in>roots. \<forall>r'\<in>roots. \<forall>p p' t. length p \<le> 2 \<longrightarrow> length p' \<le> 2 \<longrightarrow>
        table_at m r p = Some t \<longrightarrow> table_at m r' p' = Some t \<longrightarrow> r = r' \<and> p = p') \<and>
     (\<forall>r\<in>roots. \<forall>p t n. length p \<le> 1 \<longrightarrow> table_at m r p = Some t \<longrightarrow>
        \<not> PageTableEntryFlags_is_leaf (entry_flags (m (entry_at t n))))"

lemma trees_okD:
  assumes "trees_ok m A roots"
  shows "p \<in> A \<Longrightarrow> page_ok p"
    and "r \<in> roots \<Longrightarrow> length q \<le> 2 \<Longrightarrow> table_at m r q = Some t \<Longrightarrow> t \<in> A"
    and "r \<in> roots \<Longrightarrow> r' \<in> roots \<Longrightarrow> length q \<le> 2 \<Longrightarrow> length q' \<le> 2 \<Longrightarrow> table_at m r q = Some t \<Longrightarrow>
       table_at m r' q' = Some t \<Longrightarrow> r = r' \<and> q = q'"
    and "r \<in> roots \<Longrightarrow> length q \<le> 1 \<Longrightarrow> table_at m r q = Some t \<Longrightarrow>
       \<not> PageTableEntryFlags_is_leaf (entry_flags (m (entry_at t n)))"
  subgoal using assms by (simp add: trees_ok_def)
  subgoal using assms by (auto simp: trees_ok_def)
  subgoal using assms unfolding trees_ok_def by (elim conjE) metis
  subgoal using assms by (auto simp: trees_ok_def)
  done

lemma trees_ok_aligned:
  assumes "trees_ok m A roots" and "r \<in> roots" and "length q \<le> 2" and "table_at m r q = Some t"
  shows "is_aligned t PAGE_SIZE" "t \<noteq> 0" "t \<in> A"
  using trees_okD(1,2) [OF assms(1)] assms(2-) by (auto simp: page_ok_def)

lemma link_page:
  "page_ok p \<Longrightarrow> entry_flags e = f \<Longrightarrow> physical_page_num e = take_bit 44 (page_of p) \<Longrightarrow>
     physical_page_num e * PAGE_SIZE = p"
  by (simp add: page_ok_def page_of_times)

section \<open>Linking a new table\<close>

text \<open>
  The store that links the fresh page \<open>new\<close>, wiped, into entry \<open>n\<close> of the table \<open>t\<close> at path \<open>p\<close>.
\<close>

definition link_new :: "(addr \<Rightarrow> u64) \<Rightarrow> PageTable \<Rightarrow> 9 word \<Rightarrow> addr \<Rightarrow> addr \<Rightarrow> u64" where
  "link_new m t n new =
     (let m1 = wipe_page m new; e1 = set_physical_page_num (m1 (entry_at t n)) (new div PAGE_SIZE)
      in m1(entry_at t n := set_flags e1 (entry_flags e1 OR 1)))"

definition fresh_link ::
    "(addr \<Rightarrow> u64) \<Rightarrow> addr set \<Rightarrow> PageTable set \<Rightarrow> PageTable \<Rightarrow> 9 word list \<Rightarrow> PageTable \<Rightarrow> 9 word \<Rightarrow> addr \<Rightarrow> bool"
where
  "fresh_link m A roots r p t n new \<longleftrightarrow>
     trees_ok m A roots \<and> r \<in> roots \<and> length p \<le> 1 \<and> table_at m r p = Some t \<and> link m t n = None \<and>
     page_ok new \<and> new \<notin> A"

lemma fresh_linkD:
  assumes "fresh_link m A roots r p t n new"
  shows "trees_ok m A roots" "r \<in> roots" "length p \<le> 1" "table_at m r p = Some t" "link m t n = None"
    "page_ok new" "new \<notin> A" "is_aligned t PAGE_SIZE" "is_aligned new PAGE_SIZE" "t \<noteq> new"
proof -
  note L = assms [unfolded fresh_link_def]
  from L show ok: "trees_ok m A roots" and r: "r \<in> roots" and p: "length p \<le> 1"
    and t: "table_at m r p = Some t" and "link m t n = None" and new: "page_ok new" "new \<notin> A"
    by simp_all
  show "is_aligned t PAGE_SIZE" "t \<noteq> new" using trees_ok_aligned [OF ok r _ t] p new by auto
  show "is_aligned new PAGE_SIZE" using new by (simp add: page_ok_def)
qed

lemma link_new_at:
  assumes "fresh_link m A roots r p t n new" and "is_aligned u PAGE_SIZE"
  shows "link_new m t n new (entry_at u k) =
    (if u = t \<and> k = n then set_flags (set_physical_page_num (m (entry_at t n)) (page_of new))
         (entry_flags (m (entry_at t n)) OR 1)
     else if u = new then 0 else m (entry_at u k))"
proof -
  have "wipe_page m new (entry_at v i) = (if v = new then 0 else m (entry_at v i))"
    if "is_aligned v PAGE_SIZE" for v i
    using that fresh_linkD [OF assms(1)] by (simp add: wipe_page_def in_page_iff page_of_eq)
  then show ?thesis
    using assms(2) fresh_linkD [OF assms(1)] by (simp add: link_new_def Let_def entry_at_inj div_page)
qed

lemma link_new_link:
  assumes "fresh_link m A roots r p t n new" and "is_aligned u PAGE_SIZE"
  shows "link (link_new m t n new) u k =
    (if u = t \<and> k = n then Some new else if u = new then None else link m u k)"
  using fresh_linkD [OF assms(1)]
  by (simp add: link_def link_new_at [OF assms] Let_def page_ok_def page_of_times)

lemma table_at_link_new:
  assumes L: "fresh_link m A roots r p t n new" and r': "r' \<in> roots" and "length q \<le> 2"
  shows "table_at (link_new m t n new) r' q =
     (if r' = r \<and> q = p @ [n] then Some new else table_at m r' q)"
  using assms(3)
proof (induction q rule: rev_induct)
  case Nil
  then show ?case by simp
next
  case (snoc k q)
  note D = fresh_linkD [OF L]
  show ?case
  proof (cases "r' = r \<and> q = p @ [n]")
    case True
    have "table_at (link_new m t n new) r' q = Some new"
      using snoc.IH snoc.prems unfolding if_P [OF True] by simp
    moreover have "table_at m r (p @ [n]) = None" using D(4,5) by simp
    then have "table_at m r' q = None" by (simp only: True)
    ultimately have "table_at (link_new m t n new) r' (q @ [k]) = None" "table_at m r' (q @ [k]) = None"
      using D by (simp_all add: link_new_link [OF L])
    moreover have "\<not> (r' = r \<and> q @ [k] = p @ [n])" using True by simp
    ultimately show ?thesis by (simp only: if_False)
  next
    case False
    have same: "table_at (link_new m t n new) r' q = table_at m r' q"
      using snoc.IH snoc.prems unfolding if_not_P [OF False] by simp
    show ?thesis
    proof (cases "table_at m r' q")
      case None
      then have "\<not> (r' = r \<and> q = p)" using D(4) by auto
      with None same show ?thesis by auto
    next
      case (Some u)
      have u: "is_aligned u PAGE_SIZE" "u \<noteq> new"
        using trees_ok_aligned [OF D(1) r' _ Some] snoc.prems D(7) by auto
      have "u = t \<longleftrightarrow> r' = r \<and> q = p"
        using trees_okD(3) [OF D(1) r' D(2) _ _ Some, of p] snoc.prems D(3,4) Some by auto
      with Some same u show ?thesis by (auto simp: link_new_link [OF L])
    qed
  qed
qed

lemma trees_ok_link_new:
  assumes L: "fresh_link m A roots r p t n new"
  shows "trees_ok (link_new m t n new) (insert new A) roots"
proof -
  note D = fresh_linkD [OF L]
  note at = table_at_link_new [OF L]
  have tables: "u \<in> insert new A"
    if "r' \<in> roots" "length q \<le> 2" "table_at (link_new m t n new) r' q = Some u" for r' q u
    using that trees_okD(2) [OF D(1)] by (auto simp: at split: if_splits)
  have inj: "r1 = r2 \<and> q1 = q2"
    if "r1 \<in> roots" "r2 \<in> roots" "length q1 \<le> 2" "length q2 \<le> 2"
      "table_at (link_new m t n new) r1 q1 = Some u" "table_at (link_new m t n new) r2 q2 = Some u"
    for r1 r2 q1 q2 u
    using that trees_okD(3) [OF D(1), of r1 r2 q1 q2 u] trees_okD(2) [OF D(1), of r1 q1 u]
      trees_okD(2) [OF D(1), of r2 q2 u] D(7)
    by (auto simp: at split: if_splits)
  have links: "\<not> PageTableEntryFlags_is_leaf (entry_flags (link_new m t n new (entry_at u k)))"
    if r': "r' \<in> roots" and q: "length q \<le> 1" and u: "table_at (link_new m t n new) r' q = Some u" for r' q u k
  proof (cases "r' = r \<and> q = p @ [n]")
    case True
    have "length q \<le> 2" using q by simp
    then have "u = new" using u at [OF r', of q] unfolding if_P [OF True] by simp
    then show ?thesis using D by (simp add: link_new_at [OF L])
  next
    case False
    have "length q \<le> 2" using q by simp
    then have m: "table_at m r' q = Some u" using u at [OF r', of q] unfolding if_not_P [OF False] by simp
    then show ?thesis
      using trees_okD(4) [OF D(1) r' q m, of k] trees_ok_aligned [OF D(1) r' _ m] q D
        trees_okD(4) [OF D(1,2,3,4), of n]
      by (auto simp: link_new_at [OF L])
  qed
  show ?thesis
    unfolding trees_ok_def
  proof (intro conjI ballI allI impI)
    fix q assume "q \<in> insert new A"
    then show "page_ok q" using trees_okD(1) [OF D(1)] D(6) by auto
  next
    fix r1 r2 q1 q2 u
    assume "r1 \<in> roots" "r2 \<in> roots" "length q1 \<le> 2" "length q2 \<le> 2"
      "table_at (link_new m t n new) r1 q1 = Some u" "table_at (link_new m t n new) r2 q2 = Some u"
    from inj [OF this] show "r1 = r2" "q1 = q2" by simp_all
  qed (rule tables links; assumption)+
qed

lemma lookup_link_new:
  assumes L: "fresh_link m A roots r p t n new" and r': "r' \<in> roots"
  shows "lookup (link_new m t n new) r' = lookup m r'"
proof (rule ext, clarify)
  fix n2 n1 n0
  note D = fresh_linkD [OF L]
  note at = table_at_link_new [OF L r', of "[n2, n1]"]
  show "lookup (link_new m t n new) r' (n2, n1, n0) = lookup m r' (n2, n1, n0)"
  proof (cases "r' = r \<and> [n2, n1] = p @ [n]")
    case True
    have "table_at m r (p @ [n]) = None" using D(4,5) by simp
    then have "table_at m r' [n2, n1] = None" by (simp only: True)
    moreover have "table_at (link_new m t n new) r' [n2, n1] = Some new"
      using at unfolding if_P [OF True] by simp
    ultimately show ?thesis using D by (simp add: lookup_def link_new_at [OF L] Let_def)
  next
    case False
    have same: "table_at (link_new m t n new) r' [n2, n1] = table_at m r' [n2, n1]"
      using at unfolding if_not_P [OF False] by simp
    show ?thesis
    proof (cases "table_at m r' [n2, n1]")
      case None
      then show ?thesis using same by (simp add: lookup_def)
    next
      case (Some u)
      then have "u \<noteq> t" using trees_okD(3) [OF D(1) r' D(2) _ _ Some, of p] D(3,4) by auto
      moreover have "is_aligned u PAGE_SIZE" "u \<noteq> new"
        using trees_ok_aligned [OF D(1) r' _ Some] D(7) by auto
      ultimately show ?thesis using Some same by (simp add: lookup_def link_new_at [OF L])
    qed
  qed
qed

section \<open>Setting an entry of the last level\<close>

lemma store_leaf:
  assumes ok: "trees_ok m A roots" and r: "r \<in> roots" and t: "table_at m r [n2, n1] = Some t"
    and e: "flag_valid (entry_flags e)"
  shows "trees_ok (m(entry_at t n0 := e)) A roots"
    and "r' \<in> roots \<Longrightarrow> lookup (m(entry_at t n0 := e)) r' =
      (if r' = r then (lookup m r)((n2, n1, n0) \<mapsto> (physical_page_num e * PAGE_SIZE, entry_flags e))
       else lookup m r')"
proof -
  let ?m = "m(entry_at t n0 := e)"
  have t_al: "is_aligned t PAGE_SIZE" using trees_ok_aligned [OF ok r _ t] by simp
  have other: "?m (entry_at u k) = m (entry_at u k)"
    if "r' \<in> roots" "length q \<le> 1" "table_at m r' q = Some u" for r' q u k
    using trees_okD(3) [OF ok that(1) r _ _ that(3), of "[n2, n1]"] that t t_al
      trees_ok_aligned [OF ok that(1) _ that(3)]
    by (auto simp: entry_at_inj)
  have at: "table_at ?m r' q = table_at m r' q" if "r' \<in> roots" "length q \<le> 2" for r' q
    using that(2)
  proof (induction q rule: rev_induct)
    case Nil
    then show ?case by simp
  next
    case (snoc k q)
    then show ?case
      using other [OF that(1), of q _ k] by (cases "table_at m r' q") (simp_all add: link_def)
  qed
  show "trees_ok ?m A roots"
    using ok other unfolding trees_ok_def by (auto simp: at)
  show "lookup ?m r' =
      (if r' = r then (lookup m r)((n2, n1, n0) \<mapsto> (physical_page_num e * PAGE_SIZE, entry_flags e))
       else lookup m r')" if r': "r' \<in> roots"
  proof (rule ext, clarify)
    fix k2 k1 k0
    show "lookup ?m r' (k2, k1, k0) =
        (if r' = r then (lookup m r)((n2, n1, n0) \<mapsto> (physical_page_num e * PAGE_SIZE, entry_flags e))
         else lookup m r') (k2, k1, k0)"
    proof (cases "table_at m r' [k2, k1]")
      case None
      then have "\<not> (r' = r \<and> k2 = n2 \<and> k1 = n1)" using t by auto
      then show ?thesis using None r' by (auto simp: lookup_def at)
    next
      case (Some u)
      have "u = t \<longleftrightarrow> r' = r \<and> k2 = n2 \<and> k1 = n1"
        using trees_okD(3) [OF ok r' r _ _ Some, of "[n2, n1]"] t Some by auto
      moreover have "is_aligned u PAGE_SIZE" using trees_ok_aligned [OF ok r' _ Some] by simp
      ultimately show ?thesis using Some r' t_al e by (auto simp: lookup_def at Let_def entry_at_inj)
    qed
  qed
qed

section \<open>Stores elsewhere\<close>

text \<open>Two memories that agree on the entries of all allocated pages have the same trees.\<close>

definition tables_same :: "addr set \<Rightarrow> (addr \<Rightarrow> u64) \<Rightarrow> (addr \<Rightarrow> u64) \<Rightarrow> bool" where
  "tables_same A m m' \<longleftrightarrow> (\<forall>t\<in>A. \<forall>n. m' (entry_at t n) = m (entry_at t n))"

lemma table_at_same:
  assumes ok: "trees_ok m A roots" and same: "tables_same A m m'" and r: "r \<in> roots"
  shows "length q \<le> 2 \<Longrightarrow> table_at m' r q = table_at m r q"
proof (induction q rule: rev_induct)
  case (snoc n q)
  show ?case
  proof (cases "table_at m r q")
    case (Some t)
    then have "t \<in> A" using trees_okD(2) [OF ok r _ Some] snoc.prems by simp
    then show ?thesis using snoc Some same by (simp add: link_def tables_same_def)
  qed (use snoc in simp)
qed simp

lemma trees_ok_same:
  assumes ok: "trees_ok m A roots" and same: "tables_same A m m'"
  shows "trees_ok m' A roots" "r \<in> roots \<Longrightarrow> lookup m' r = lookup m r"
proof -
  note at = table_at_same [OF ok same]
  have entry: "m' (entry_at t n) = m (entry_at t n)" if "r \<in> roots" "length q \<le> 2" "table_at m r q = Some t" for r q t n
    using trees_okD(2) [OF ok that] same by (simp add: tables_same_def)
  show "trees_ok m' A roots"
    unfolding trees_ok_def
  proof (intro conjI ballI allI impI)
    show "page_ok p" if "p \<in> A" for p using trees_okD(1) [OF ok that] .
    show "t \<in> A" if "r \<in> roots" "length q \<le> 2" "table_at m' r q = Some t" for r q t
      using trees_okD(2) [OF ok that(1,2)] at [OF that(1,2)] that(3) by simp
    show "r = r'" "q = q'" if "r \<in> roots" "r' \<in> roots" "length q \<le> 2" "length q' \<le> 2" "table_at m' r q = Some t"
        "table_at m' r' q' = Some t" for r r' q q' t
    proof -
      have "table_at m r q = Some t" "table_at m r' q' = Some t"
        using at [OF that(1,3)] at [OF that(2,4)] that(5,6) by simp_all
      from trees_okD(3) [OF ok that(1-4) this] show "r = r'" "q = q'" by blast+
    qed
    show "\<not> PageTableEntryFlags_is_leaf (entry_flags (m' (entry_at t n)))"
      if "r \<in> roots" "length q \<le> 1" "table_at m' r q = Some t" for r q t n
    proof -
      have q: "length q \<le> 2" using that(2) by simp
      have t: "table_at m r q = Some t" using at [OF that(1) q] that(3) by simp
      then show ?thesis using trees_okD(4) [OF ok that(1,2) t] entry [OF that(1) q t] by simp
    qed
  qed
  show "lookup m' r = lookup m r" if r: "r \<in> roots"
  proof (rule ext, clarify)
    fix n2 n1 n0
    have "table_at m' r [n2, n1] = table_at m r [n2, n1]" by (rule at [OF r]) simp
    then show "lookup m' r (n2, n1, n0) = lookup m r (n2, n1, n0)"
      using entry [OF r, of "[n2, n1]"] by (cases "table_at m r [n2, n1]") (simp_all add: lookup_def)
  qed
qed

end
