(* ===== verification/Address_Space.thy ===== *)
theory Address_Space
  imports Page_Table
begin

text \<open>
  The page allocator and \<open>PageTable_map_address\<close> against an abstract specification: a root is a partial
  map from page numbers to physical pages with flags, allocating a root gives an empty map, and mapping
  an address is a map update of one root and leaves every other root alone.
\<close>

section \<open>The allocator\<close>

definition next_free_page :: "Sections \<Rightarrow> VM \<Rightarrow> addr" where
  "next_free_page ss vm = (if next_page vm = 0 then start_address (SECTION_PAGES ss) else next_page vm)"

definition allocated :: "Sections \<Rightarrow> VM \<Rightarrow> addr set" where
  "allocated ss vm = {p. is_aligned p PAGE_SIZE \<and> start_address (SECTION_PAGES ss) \<le> p \<and> p < next_free_page ss vm}"

definition pages_left :: "Sections \<Rightarrow> VM \<Rightarrow> nat" where
  "pages_left ss vm = unat (end_address (SECTION_PAGES ss)) div 4096 - unat (next_free_page ss vm) div 4096"

text \<open>What the linker script says of the pages section: page-aligned, not at 0, in physical memory.\<close>

definition pages_section_ok :: "Sections \<Rightarrow> bool" where
  "pages_section_ok ss \<longleftrightarrow>
     (let s = start_address (SECTION_PAGES ss); e = end_address (SECTION_PAGES ss) in
      is_aligned s PAGE_SIZE \<and> is_aligned e PAGE_SIZE \<and> 0 < s \<and> s \<le> e \<and> unat e \<le> 2 ^ 56)"

definition vm_ok :: "Sections \<Rightarrow> VM \<Rightarrow> PageTable set \<Rightarrow> bool" where
  "vm_ok ss vm roots \<longleftrightarrow>
     pages_section_ok ss \<and> is_aligned (next_free_page ss vm) PAGE_SIZE \<and>
     start_address (SECTION_PAGES ss) \<le> next_free_page ss vm \<and>
     next_free_page ss vm \<le> end_address (SECTION_PAGES ss) \<and>
     trees_ok (mem vm) (allocated ss vm) roots"

lemma is_aligned_dvd: "is_aligned p PAGE_SIZE \<longleftrightarrow> 4096 dvd unat p"
  by (simp add: page_aligned_mod PAGE_SIZE_def word_unat_eq_iff unat_mod dvd_eq_mod_eq_0)

definition out_of_pages :: error where
  "out_of_pages = Panic ''page allocation would overflow page memory!''"

lemma Page_alloc_cases:
  assumes "vm_ok ss vm roots"
  shows "if pages_left ss vm = 0 then Page_alloc ss vm = Inl out_of_pages
    else Page_alloc ss vm = Inr (next_free_page ss vm,
        \<lparr>mem = wipe_page (mem vm) (next_free_page ss vm), next_page = next_free_page ss vm + PAGE_SIZE\<rparr>) \<and>
      unat (next_free_page ss vm + PAGE_SIZE) = unat (next_free_page ss vm) + 4096 \<and>
      unat (next_free_page ss vm) + 4096 \<le> unat (end_address (SECTION_PAGES ss))"
proof -
  define s where "s = start_address (SECTION_PAGES ss)"
  define e where "e = end_address (SECTION_PAGES ss)"
  define np where "np = next_free_page ss vm"
  have al: "4096 dvd unat s" "4096 dvd unat e" "4096 dvd unat np" and s: "0 < unat s"
    and le: "unat s \<le> unat np" "unat np \<le> unat e" and e: "unat e \<le> 2 ^ 56"
    using assms by (auto simp: vm_ok_def pages_section_ok_def Let_def is_aligned_dvd word_le_nat_alt
        word_less_nat_alt s_def e_def np_def)
  from al obtain i j k where k: "unat s = 4096 * i" "unat e = 4096 * j" "unat np = 4096 * k"
    by (auto elim!: dvdE)
  have "4096 \<le> unat e" using k s le by simp
  then have e1: "unat (e - PAGE_SIZE) = unat e - 4096"
    by (simp add: PAGE_SIZE_def unat_sub word_le_nat_alt)
  have np1: "unat (np + PAGE_SIZE) = unat np + 4096"
    using le(2) e by (subst unat_word_add_less) (simp_all add: PAGE_SIZE_def)
  have full: "np > e - PAGE_SIZE \<longleftrightarrow> pages_left ss vm = 0"
    using k s le by (simp add: word_less_nat_alt e1 pages_left_def flip: np_def e_def) arith
  have alloc: "Page_alloc ss vm = (if np > e - PAGE_SIZE then Inl out_of_pages
      else Inr (np, \<lparr>mem = wipe_page (mem vm) np, next_page = np + PAGE_SIZE\<rparr>))"
    by (cases vm) (simp add: Page_alloc_def next_free_page_def np_def e_def out_of_pages_def Let_def)
  show ?thesis
  proof (cases "pages_left ss vm = 0")
    case True
    then show ?thesis using alloc full by simp
  next
    case False
    then have "unat np + 4096 \<le> unat e"
      using k by (simp add: pages_left_def flip: np_def e_def)
    then show ?thesis using alloc full False np1 by (simp flip: np_def e_def)
  qed
qed

text \<open>A successful allocation: the page is fresh, and exactly that page becomes allocated.\<close>

lemma Page_alloc_fresh:
  assumes ok: "vm_ok ss vm roots" and alloc: "Page_alloc ss vm = Inr (p, vm')"
  shows "page_ok p" "p \<notin> allocated ss vm" "mem vm' = wipe_page (mem vm) p"
    "allocated ss vm' = insert p (allocated ss vm)" "pages_left ss vm = Suc (pages_left ss vm')"
    "next_free_page ss vm' = p + PAGE_SIZE" "is_aligned (p + PAGE_SIZE) PAGE_SIZE"
    "start_address (SECTION_PAGES ss) \<le> p + PAGE_SIZE" "p + PAGE_SIZE \<le> end_address (SECTION_PAGES ss)"
proof -
  define s where "s = start_address (SECTION_PAGES ss)"
  define e where "e = end_address (SECTION_PAGES ss)"
  note c = Page_alloc_cases [OF ok]
  then have p: "p = next_free_page ss vm" and vm': "vm' = \<lparr>mem = wipe_page (mem vm) p, next_page = p + PAGE_SIZE\<rparr>"
    and next_p: "unat (p + PAGE_SIZE) = unat p + 4096" "unat p + 4096 \<le> unat e" and "pages_left ss vm \<noteq> 0"
    using alloc by (auto split: if_splits simp: e_def)
  have al: "4096 dvd unat s" "4096 dvd unat e" "4096 dvd unat p" and s: "0 < unat s" "unat s \<le> unat p"
    and e: "unat e \<le> 2 ^ 56"
    using ok by (auto simp: vm_ok_def pages_section_ok_def Let_def is_aligned_dvd word_le_nat_alt
        word_less_nat_alt s_def e_def p)
  have "unat (page_of p) = unat p div 4096"
    by (simp add: page_of_def drop_bit_eq_div unat_div)
  moreover have "unat p div 4096 < 2 ^ 44" using e next_p by simp
  ultimately have "take_bit 44 (page_of p) = page_of p"
    by (simp add: word_unat_eq_iff unsigned_take_bit_eq take_bit_nat_eq_self)
  then show "page_ok p" using al(3) s by (auto simp: page_ok_def is_aligned_dvd)
  show "p \<notin> allocated ss vm" by (simp add: allocated_def p)
  show "mem vm' = wipe_page (mem vm) p" by (simp add: vm')
  have nf: "next_free_page ss vm' = p + PAGE_SIZE"
    using next_p(1) by (auto simp: next_free_page_def vm' word_unat_eq_iff [of _ 0])
  then show "next_free_page ss vm' = p + PAGE_SIZE" .
  show "is_aligned (p + PAGE_SIZE) PAGE_SIZE" using al(3) next_p by (simp add: is_aligned_dvd)
  show "start_address (SECTION_PAGES ss) \<le> p + PAGE_SIZE" "p + PAGE_SIZE \<le> end_address (SECTION_PAGES ss)"
    using s next_p by (simp_all add: word_le_nat_alt flip: s_def e_def)
  have "q < p + PAGE_SIZE \<longleftrightarrow> q = p \<or> q < p" if "is_aligned q PAGE_SIZE" for q
  proof -
    from that al obtain i k where "unat q = 4096 * i" "unat p = 4096 * k"
      by (auto simp: is_aligned_dvd elim!: dvdE)
    then show ?thesis by (auto simp: word_less_nat_alt next_p(1) word_unat_eq_iff)
  qed
  then show "allocated ss vm' = insert p (allocated ss vm)"
    using al(3) s by (auto simp: allocated_def nf is_aligned_dvd word_le_nat_alt simp flip: p s_def)
  show "pages_left ss vm = Suc (pages_left ss vm')"
    using next_p al by (auto simp: pages_left_def nf simp flip: p e_def elim!: dvdE)
qed

section \<open>A new root\<close>

text \<open>Wiping a page that is not allocated changes no tree.\<close>

lemma wipe_fresh:
  assumes ok: "trees_ok m A roots" and new: "page_ok p" "p \<notin> A"
  shows "r \<in> roots \<Longrightarrow> length q \<le> 2 \<Longrightarrow> table_at (wipe_page m p) r q = table_at m r q"
    and "r \<in> roots \<Longrightarrow> lookup (wipe_page m p) r = lookup m r"
    and "trees_ok (wipe_page m p) (insert p A) (insert p roots)"
    and "lookup (wipe_page m p) p = Map.empty"
proof -
  let ?m = "wipe_page m p"
  have p: "is_aligned p PAGE_SIZE" using new by (simp add: page_ok_def)
  have at: "?m (entry_at u k) = (if u = p then 0 else m (entry_at u k))" if "is_aligned u PAGE_SIZE" for u k
    using that p by (simp add: wipe_page_def in_page_iff page_of_eq)
  have other: "?m (entry_at u k) = m (entry_at u k)"
    if "r \<in> roots" "length q \<le> 2" "table_at m r q = Some u" for r q u k
    using trees_ok_aligned [OF ok that] new by (auto simp: at)
  show tab: "table_at ?m r q = table_at m r q" if "r \<in> roots" "length q \<le> 2" for r q
    using that(2)
  proof (induction q rule: rev_induct)
    case Nil
    then show ?case by simp
  next
    case (snoc k q)
    then show ?case
      using other [OF that(1), of q _ k] by (cases "table_at m r q") (simp_all add: link_def)
  qed
  show "lookup ?m r = lookup m r" if r: "r \<in> roots" for r
  proof (rule ext, clarify)
    fix n2 n1 n0
    show "lookup ?m r (n2, n1, n0) = lookup m r (n2, n1, n0)"
      using tab [OF r, of "[n2, n1]"] other [OF r, of "[n2, n1]"]
      by (cases "table_at m r [n2, n1]") (simp_all add: lookup_def)
  qed
  have root: "table_at ?m p q = (if q = [] then Some p else None)" for q
    by (induction q rule: rev_induct) (auto simp: link_def at p)
  then show "lookup ?m p = Map.empty" by (auto simp: lookup_def)
  have tables: "u \<in> insert p A" if "r \<in> insert p roots" "length q \<le> 2" "table_at ?m r q = Some u" for r q u
    using that trees_okD(2) [OF ok] by (auto simp: root tab split: if_splits)
  have not_p: "u \<noteq> p" if "r \<in> roots" "length q \<le> 2" "table_at ?m r q = Some u" for r q u
    using that trees_okD(2) [OF ok] new(2) by (auto simp: tab)
  show "trees_ok ?m (insert p A) (insert p roots)"
    unfolding trees_ok_def
  proof (intro conjI ballI allI impI)
    fix q assume "q \<in> insert p A"
    then show "page_ok q" using trees_okD(1) [OF ok] new by auto
  next
    fix r1 r2 q1 q2 u
    assume a: "r1 \<in> insert p roots" "r2 \<in> insert p roots" "length q1 \<le> 2" "length q2 \<le> 2"
      "table_at ?m r1 q1 = Some u" "table_at ?m r2 q2 = Some u"
    have "p \<notin> roots" using not_p [of p "[]"] by auto
    with a have "r1 = r2 \<and> q1 = q2"
      using trees_okD(3) [OF ok, of r1 r2 q1 q2 u] not_p [of r1 q1] not_p [of r2 q2]
      by (auto simp: root tab split: if_splits)
    then show "r1 = r2" "q1 = q2" by simp_all
  next
    fix r q u k
    assume a: "r \<in> insert p roots" "length q \<le> 1" "table_at ?m r q = Some u"
    show "\<not> PageTableEntryFlags_is_leaf (entry_flags (?m (entry_at u k)))"
    proof (cases "r \<in> roots")
      case True
      then show ?thesis using a trees_okD(4) [OF ok True a(2), of u k] other [OF True, of q u k] by (simp add: tab)
    next
      case False
      then have "u = p" using a root by (auto split: if_splits)
      then show ?thesis by (simp add: at p)
    qed
  qed (rule tables; assumption)
qed

lemma vm_ok_alloc:
  assumes ok: "vm_ok ss vm roots" and alloc: "Page_alloc ss vm = Inr (p, vm')"
  shows "vm_ok ss vm' (insert p roots)" "lookup (mem vm') p = Map.empty"
    "r \<in> roots \<Longrightarrow> lookup (mem vm') r = lookup (mem vm) r" "p \<notin> roots"
proof -
  note fresh = Page_alloc_fresh [OF ok alloc]
  have trees: "trees_ok (mem vm) (allocated ss vm) roots" and s: "pages_section_ok ss"
    using ok by (simp_all add: vm_ok_def)
  note w = wipe_fresh [OF trees fresh(1,2)]
  show "vm_ok ss vm' (insert p roots)" using fresh w(3) s by (simp add: vm_ok_def)
  show "lookup (mem vm') p = Map.empty" using w(4) fresh(3) by simp
  show "r \<in> roots \<Longrightarrow> lookup (mem vm') r = lookup (mem vm) r" using w(2) fresh(3) by simp
  show "p \<notin> roots" using trees_okD(2) [OF trees, of p "[]" p] fresh(2) by auto
qed

lemma vm_ok_subset:
  assumes "vm_ok ss vm roots" and "roots' \<subseteq> roots"
  shows "vm_ok ss vm roots'"
  using assms by (auto simp: vm_ok_def trees_ok_def subset_iff) blast+

section \<open>Mapping an address\<close>

lemma map_loop_found:
  assumes "VirtualAddress_get_level_entry_number va (Suc level) = Inr (ucast n)" and "t \<noteq> 0"
    and "link (mem vm) t n = Some u"
  shows "PageTable_map_loop ss va (Suc level) t vm = PageTable_map_loop ss va level u vm"
proof -
  have "flag_valid (entry_flags (mem vm (entry_addr t (ucast n))))"
    "u = physical_page_num (mem vm (entry_addr t (ucast n))) * PAGE_SIZE"
    using assms(3) by (simp_all add: link_def Let_def entry_at_def split: if_splits)
  then show ?thesis
    using assms(1,2)
    by (simp add: PageTable_map_loop.simps [of ss va "Suc level" t vm] Let_def PageTableEntry_get_linked_def)
qed

lemma map_loop_alloc:
  assumes "VirtualAddress_get_level_entry_number va (Suc level) = Inr (ucast n)" and "t \<noteq> 0"
    and "link (mem vm) t n = None"
  shows "PageTable_map_loop ss va (Suc level) t vm =
     bindr (Page_alloc ss vm) (\<lambda>(new, vm1).
       PageTable_map_loop ss va level new (vm1\<lparr>mem := link_new (mem vm) t n new\<rparr>))"
proof -
  have invalid: "\<not> flag_valid (entry_flags (mem vm (entry_addr t (ucast n))))"
    using assms(3) by (simp add: link_def Let_def entry_at_def split: if_splits)
  note loop = PageTable_map_loop.simps [of ss va "Suc level" t vm]
  show ?thesis
  proof (cases "Page_alloc ss vm")
    case (Inl e)
    then show ?thesis using assms(1,2) invalid by (simp add: loop Let_def)
  next
    case (Inr a)
    then obtain new vm1 where alloc: "Page_alloc ss vm = Inr (new, vm1)" by (cases a) auto
    then have "mem vm1 = wipe_page (mem vm) new"
      by (auto simp: Page_alloc_def Let_def split: if_splits)
    then show ?thesis
      using assms(1,2) invalid alloc by (simp add: loop Let_def link_new_def entry_at_def)
  qed
qed

lemma PageTable_map_loop_ok:
  assumes "vm_ok ss vm roots" and "r \<in> roots" and "level \<le> 2"
    and "table_at (mem vm) r (take (2 - level) [index 2 va, index 1 va]) = Some t"
  shows "(pages_left ss vm < level \<and> PageTable_map_loop ss va level t vm = Inl out_of_pages) \<or>
    (\<exists>vm' t0. PageTable_map_loop ss va level t vm = Inr (entry_at t0 (index 0 va), vm') \<and>
       vm_ok ss vm' roots \<and> table_at (mem vm') r [index 2 va, index 1 va] = Some t0 \<and>
       (\<forall>r'\<in>roots. lookup (mem vm') r' = lookup (mem vm) r') \<and>
       pages_left ss vm \<le> pages_left ss vm' + level)"
  using assms
proof (induction level arbitrary: vm t)
  case 0
  have trees: "trees_ok (mem vm) (allocated ss vm) roots" using 0 by (simp add: vm_ok_def)
  have "t \<noteq> 0" by (rule trees_ok_aligned(2) [OF trees 0(2) _ 0(4)]) simp
  with 0 show ?case by (simp add: PageTable_map_loop.simps get_level_entry_number entry_at_def)
next
  case (Suc level)
  define p where "p = take (2 - Suc level) [index 2 va, index 1 va]"
  define n where "n = index (Suc level) va"
  have next_p: "take (2 - level) [index 2 va, index 1 va] = p @ [n]" and p1: "length p \<le> 1"
    using Suc.prems(3) by (auto simp: p_def n_def le_Suc_eq numeral_2_eq_2)
  have trees: "trees_ok (mem vm) (allocated ss vm) roots" and pages: "pages_section_ok ss"
    using Suc.prems(1) by (simp_all add: vm_ok_def)
  have t: "table_at (mem vm) r p = Some t" using Suc.prems(4) by (simp add: p_def)
  have t0: "t \<noteq> 0" using trees_ok_aligned(2) [OF trees Suc.prems(2) _ t] p1 by simp
  have num: "VirtualAddress_get_level_entry_number va (Suc level) = Inr (ucast n)"
    using Suc.prems(3) by (simp add: get_level_entry_number n_def)
  have level: "level \<le> 2" using Suc.prems(3) by simp
  show ?case
  proof (cases "link (mem vm) t n")
    case (Some u)
    then have "table_at (mem vm) r (take (2 - level) [index 2 va, index 1 va]) = Some u"
      using t by (simp only: next_p) simp
    from Suc.IH [OF Suc.prems(1,2) level this] show ?thesis
      unfolding map_loop_found [OF num t0 Some] by auto
  next
    case None
    note loop = map_loop_alloc [OF num t0 None, of ss]
    show ?thesis
    proof (cases "Page_alloc ss vm")
      case (Inl e)
      then have "pages_left ss vm = 0 \<and> e = out_of_pages"
        using Page_alloc_cases [OF Suc.prems(1)] by (auto split: if_splits)
      then show ?thesis using loop Inl by simp
    next
      case (Inr a)
      then obtain new vm1 where alloc: "Page_alloc ss vm = Inr (new, vm1)" by (cases a) auto
      note fresh = Page_alloc_fresh [OF Suc.prems(1) alloc]
      define vm2 where "vm2 = vm1\<lparr>mem := link_new (mem vm) t n new\<rparr>"
      have L: "fresh_link (mem vm) (allocated ss vm) roots r p t n new"
        using trees Suc.prems(2) p1 t None fresh by (simp add: fresh_link_def)
      have same: "allocated ss vm2 = allocated ss vm1" "next_free_page ss vm2 = next_free_page ss vm1"
          "pages_left ss vm2 = pages_left ss vm1"
        by (simp_all add: vm2_def allocated_def next_free_page_def pages_left_def)
      have ok2: "vm_ok ss vm2 roots"
        using trees_ok_link_new [OF L] fresh pages by (simp add: vm_ok_def same) (simp add: vm2_def)
      have "table_at (mem vm2) r (p @ [n]) = Some new"
        using table_at_link_new [OF L Suc.prems(2), of "p @ [n]"] p1 by (simp add: vm2_def)
      then have "table_at (mem vm2) r (take (2 - level) [index 2 va, index 1 va]) = Some new"
        by (simp only: next_p)
      note IH = Suc.IH [OF ok2 Suc.prems(2) level this]
      have look: "lookup (mem vm2) r' = lookup (mem vm) r'" if "r' \<in> roots" for r'
        using lookup_link_new [OF L that] by (simp add: vm2_def)
      have "PageTable_map_loop ss va (Suc level) t vm = PageTable_map_loop ss va level new vm2"
        using loop alloc by (simp add: vm2_def)
      then show ?thesis using IH look fresh(5) same(3) by auto
    qed
  qed
qed

text \<open>The entry that \<open>PageTable_map_address\<close> leaves.\<close>

definition mapped :: "addr \<Rightarrow> PageTableEntryFlags \<Rightarrow> addr \<times> PageTableEntryFlags" where
  "mapped pa flags = (pa, (flags OR 1) OR 2)"

lemma PageTable_map_address_ok:
  assumes ok: "vm_ok ss vm roots" and r: "r \<in> roots" and va: "is_aligned va PAGE_SIZE" and pa: "page_ok pa \<or> pa = 0"
  shows "(pages_left ss vm < 2 \<and> PageTable_map_address ss r va pa flags vm = Inl out_of_pages) \<or>
    (\<exists>vm'. PageTable_map_address ss r va pa flags vm = Inr vm' \<and> vm_ok ss vm' roots \<and>
       lookup (mem vm') r = (lookup (mem vm) r)(vpn va \<mapsto> mapped pa flags) \<and>
       (\<forall>r'\<in>roots. r' \<noteq> r \<longrightarrow> lookup (mem vm') r' = lookup (mem vm) r') \<and>
       pages_left ss vm \<le> pages_left ss vm' + 2)"
proof -
  have al: "is_aligned pa PAGE_SIZE" using pa by (auto simp: page_ok_def page_aligned_mod)
  have num: "take_bit 44 (page_of pa) * PAGE_SIZE = pa"
    using pa al page_of_times [OF al] by (cases "pa = 0") (auto simp: page_ok_def page_of_def)
  note loop = PageTable_map_loop_ok [OF ok r, of 2 va r]
  then consider "pages_left ss vm < 2" "PageTable_map_loop ss va 2 r vm = Inl out_of_pages"
    | vm1 t0 where "PageTable_map_loop ss va 2 r vm = Inr (entry_at t0 (index 0 va), vm1)"
       "vm_ok ss vm1 roots" "table_at (mem vm1) r [index 2 va, index 1 va] = Some t0"
       "\<forall>r'\<in>roots. lookup (mem vm1) r' = lookup (mem vm) r'" "pages_left ss vm \<le> pages_left ss vm1 + 2"
    by auto
  then show ?thesis
  proof cases
    case 1
    then show ?thesis using va al by (simp add: PageTable_map_address_def VIRTUAL_MEMORY_TOP_LEVEL_def)
  next
    case 2
    define e where "e = set_flags (set_flags (set_flags (set_physical_page_num
        (mem vm1 (entry_at t0 (index 0 va))) (pa div PAGE_SIZE)) flags) (flags OR 1)) ((flags OR 1) OR 2)"
    define vm' where "vm' = vm1\<lparr>mem := (mem vm1)(entry_at t0 (index 0 va) := e)\<rparr>"
    have res: "PageTable_map_address ss r va pa flags vm = Inr vm'"
      using va al 2 by (simp add: PageTable_map_address_def VIRTUAL_MEMORY_TOP_LEVEL_def Let_def e_def vm'_def)
    have trees: "trees_ok (mem vm1) (allocated ss vm1) roots" using 2 by (simp add: vm_ok_def)
    have e: "flag_valid (entry_flags e)" "physical_page_num e * PAGE_SIZE = pa" "entry_flags e = (flags OR 1) OR 2"
      by (simp_all add: e_def div_page num)
    note st = store_leaf [OF trees r 2(3) e(1)]
    have same: "next_free_page ss vm' = next_free_page ss vm1"
      by (simp add: vm'_def next_free_page_def)
    then have same': "allocated ss vm' = allocated ss vm1" "pages_left ss vm' = pages_left ss vm1"
      by (simp_all add: allocated_def pages_left_def)
    have "vm_ok ss vm' roots"
      using 2 st(1) by (simp add: vm_ok_def same same') (simp add: vm'_def)
    with same' show ?thesis
      using res 2 st(2) e r by (auto simp: vm'_def vpn_def mapped_def)
  qed
qed

end
