(* ===== verification/Map_Section.thy ===== *)
theory Map_Section
  imports Address_Space
begin

text \<open>
  Mapping runs of pages, stated against the interface that a mapper of single pages offers, and the
  interpretation of that interface by \<open>PageTable_map_address\<close>.
\<close>

section \<open>Runs of pages\<close>

fun map_pages :: "(addr \<Rightarrow> addr \<Rightarrow> 's \<Rightarrow> error + 's) \<Rightarrow> nat \<Rightarrow> addr \<Rightarrow> addr \<Rightarrow> 's \<Rightarrow> error + 's" where
  "map_pages f 0 va pa s = Inr s"
| "map_pages f (Suc n) va pa s = bindr (f va pa s) (map_pages f n (va + PAGE_SIZE) (pa + PAGE_SIZE))"

text \<open>The abstract counterpart: a run of updates.\<close>

fun run_map ::
    "nat \<Rightarrow> addr \<Rightarrow> addr \<Rightarrow> PageTableEntryFlags \<Rightarrow>
      (9 word \<times> 9 word \<times> 9 word \<Rightarrow> (addr \<times> PageTableEntryFlags) option) \<Rightarrow>
      9 word \<times> 9 word \<times> 9 word \<Rightarrow> (addr \<times> PageTableEntryFlags) option"
where
  "run_map 0 va pa flags M = M"
| "run_map (Suc n) va pa flags M = run_map n (va + PAGE_SIZE) (pa + PAGE_SIZE) flags (M(vpn va \<mapsto> mapped pa flags))"

lemma page_add: "is_aligned p PAGE_SIZE \<Longrightarrow> is_aligned (p + PAGE_SIZE) PAGE_SIZE"
proof -
  assume "is_aligned p PAGE_SIZE"
  from page_of_times [OF this] have "p + PAGE_SIZE = (page_of p + 1) * PAGE_SIZE"
    by (simp add: algebra_simps)
  then show ?thesis by simp
qed

lemma unat_page_of: "unat (page_of p) = unat p div 4096"
  by (simp add: page_of_def drop_bit_eq_div unat_div)

lemma vpn_eq_div:
  assumes "unat x < 2 ^ 39" and "unat y < 2 ^ 39"
  shows "vpn x = vpn y \<longleftrightarrow> unat x div 4096 = unat y div 4096"
proof -
  have "take_bit 27 (page_of z) = page_of z" if "unat z < 2 ^ 39" for z
  proof -
    have "unat (page_of z) < 2 ^ 27" using that by (simp add: unat_page_of)
    then show ?thesis by (simp add: word_unat_eq_iff unsigned_take_bit_eq take_bit_nat_eq_self)
  qed
  with assms show ?thesis by (simp add: vpn_eq_iff word_unat_eq_iff unat_page_of)
qed

text \<open>In the lower half of the address space a run maps exactly its pages, each to its own.\<close>

lemma run_map_at:
  assumes "is_aligned va PAGE_SIZE" and "unat va + 4096 * n \<le> 2 ^ 39" and "unat x < 2 ^ 39"
  shows "run_map n va pa flags M (vpn x) =
     (if unat va \<le> unat x \<and> unat x < unat va + 4096 * n
      then Some (mapped (pa + of_nat (4096 * (unat x div 4096 - unat va div 4096))) flags) else M (vpn x))"
  using assms
proof (induction n arbitrary: va pa M)
  case 0
  then show ?case by auto
next
  case (Suc n)
  obtain k where k: "unat va = 4096 * k" using Suc.prems(1) by (auto simp: is_aligned_dvd elim!: dvdE)
  have next_va: "unat (va + PAGE_SIZE) = unat va + 4096"
    using Suc.prems(2) by (subst unat_word_add_less) (simp_all add: PAGE_SIZE_def)
  have "unat va < 2 ^ 39" using Suc.prems(2) by simp
  note same = vpn_eq_div [OF Suc.prems(3) this]
  have IH: "run_map (Suc n) va pa flags M (vpn x) =
     (if unat va + 4096 \<le> unat x \<and> unat x < unat va + 4096 + 4096 * n
      then Some (mapped (pa + PAGE_SIZE + of_nat (4096 * (unat x div 4096 - (unat va + 4096) div 4096))) flags)
      else (M(vpn va \<mapsto> mapped pa flags)) (vpn x))"
    using Suc.IH [OF page_add [OF Suc.prems(1)]] Suc.prems next_va by simp
  consider "unat x < unat va" | "unat va \<le> unat x" "unat x < unat va + 4096" | "unat va + 4096 \<le> unat x"
    by linarith
  then show ?case
  proof cases
    case 1
    then have "unat x div 4096 \<noteq> unat va div 4096" using k by auto
    then show ?thesis using IH 1 same by simp
  next
    case 2
    then have "unat x div 4096 = k" using k by simp
    then show ?thesis using IH 2 same k by simp
  next
    case 3
    then have "Suc k \<le> unat x div 4096" using k by simp
    then obtain j where j: "unat x div 4096 = Suc k + j" by (metis le_add_diff_inverse)
    have d: "unat x div 4096 - unat va div 4096 = Suc j"
      "unat x div 4096 - (unat va + 4096) div 4096 = j"
      using j k by simp_all
    have "unat x div 4096 \<noteq> unat va div 4096" using j k by simp
    then show ?thesis
      using IH 3 unfolding d by (simp add: same PAGE_SIZE_def add.assoc)
  qed
qed

section \<open>The interface\<close>

text \<open>
  A mapper keeps the invariant \<open>ok\<close> of its state and a set of roots, maps a page by updating one
  root's map, and fails only when fewer than two pages are \<open>left\<close>.
\<close>

locale page_mapper =
  fixes ok :: "'s \<Rightarrow> PageTable set \<Rightarrow> bool"
    and look :: "'s \<Rightarrow> PageTable \<Rightarrow> 9 word \<times> 9 word \<times> 9 word \<Rightarrow> (addr \<times> PageTableEntryFlags) option"
    and left :: "'s \<Rightarrow> nat"
    and map_page :: "PageTable \<Rightarrow> addr \<Rightarrow> addr \<Rightarrow> PageTableEntryFlags \<Rightarrow> 's \<Rightarrow> error + 's"
  assumes map_page_ok:
    "ok s roots \<Longrightarrow> r \<in> roots \<Longrightarrow> is_aligned va PAGE_SIZE \<Longrightarrow> page_ok pa \<or> pa = 0 \<Longrightarrow>
      (left s < 2 \<and> map_page r va pa flags s = Inl out_of_pages) \<or>
      (\<exists>s'. map_page r va pa flags s = Inr s' \<and> ok s' roots \<and>
         look s' r = (look s r)(vpn va \<mapsto> mapped pa flags) \<and>
         (\<forall>r'\<in>roots. r' \<noteq> r \<longrightarrow> look s' r' = look s r') \<and> left s \<le> left s' + 2)"
begin

lemma map_pages_ok:
  assumes "ok s roots" and r: "r \<in> roots" and "is_aligned va PAGE_SIZE" and "is_aligned pa PAGE_SIZE"
    and "unat pa + 4096 * n \<le> 2 ^ 56"
  shows "(left s < 2 * n \<and> map_pages (\<lambda>va pa. map_page r va pa flags) n va pa s = Inl out_of_pages) \<or>
      (\<exists>s'. map_pages (\<lambda>va pa. map_page r va pa flags) n va pa s = Inr s' \<and> ok s' roots \<and>
         look s' r = run_map n va pa flags (look s r) \<and>
         (\<forall>r'\<in>roots. r' \<noteq> r \<longrightarrow> look s' r' = look s r') \<and> left s \<le> left s' + 2 * n)"
  using assms
proof (induction n arbitrary: s va pa)
  case 0
  then show ?case by simp
next
  case (Suc n)
  have "unat (page_of pa) < 2 ^ 44" using Suc.prems(5) by (simp add: unat_page_of)
  then have "take_bit 44 (page_of pa) = page_of pa"
    by (simp add: word_unat_eq_iff unsigned_take_bit_eq take_bit_nat_eq_self)
  then have pa: "page_ok pa \<or> pa = 0" using Suc.prems(4) by (auto simp: page_ok_def)
  have "unat (pa + PAGE_SIZE) = unat pa + 4096"
    using Suc.prems(5) by (subst unat_word_add_less) (simp_all add: PAGE_SIZE_def)
  then have next_pa: "unat (pa + PAGE_SIZE) + 4096 * n \<le> 2 ^ 56" using Suc.prems(5) by simp
  consider "left s < 2" "map_page r va pa flags s = Inl out_of_pages"
    | s1 where "map_page r va pa flags s = Inr s1" "ok s1 roots"
       "look s1 r = (look s r)(vpn va \<mapsto> mapped pa flags)"
       "\<forall>r'\<in>roots. r' \<noteq> r \<longrightarrow> look s1 r' = look s r'" "left s \<le> left s1 + 2"
    using map_page_ok [OF Suc.prems(1,2,3) pa] by auto
  then show ?case
  proof cases
    case 1
    then show ?thesis by simp
  next
    case 2
    note IH = Suc.IH [OF 2(2) r page_add [OF Suc.prems(3)] page_add [OF Suc.prems(4)] next_pa]
    then show ?thesis
    proof (elim disjE conjE exE)
      assume "left s1 < 2 * n"
        "map_pages (\<lambda>va pa. map_page r va pa flags) n (va + PAGE_SIZE) (pa + PAGE_SIZE) s1 = Inl out_of_pages"
      then show ?thesis using 2(1,5) by simp
    next
      fix s'
      assume s': "map_pages (\<lambda>va pa. map_page r va pa flags) n (va + PAGE_SIZE) (pa + PAGE_SIZE) s1 = Inr s'"
        "ok s' roots" "look s' r = run_map n (va + PAGE_SIZE) (pa + PAGE_SIZE) flags (look s1 r)"
        "\<forall>r'\<in>roots. r' \<noteq> r \<longrightarrow> look s' r' = look s1 r'" "left s1 \<le> left s' + 2 * n"
      have "look s' r = run_map (Suc n) va pa flags (look s r)"
        by (simp only: s'(3) 2(3) run_map.simps)
      moreover have "map_pages (\<lambda>va pa. map_page r va pa flags) (Suc n) va pa s = Inr s'"
        using s'(1) 2(1) by simp
      ultimately show ?thesis using s'(2,4,5) 2(4,5) by auto
    qed
  qed
qed

end

interpretation page_table: page_mapper "vm_ok ss" "\<lambda>vm. lookup (mem vm)" "pages_left ss" "PageTable_map_address ss"
  for ss
  by unfold_locales (rule PageTable_map_address_ok)

section \<open>Mapping a section\<close>

text \<open>The pages that the loop of \<open>PageTable_map_section\<close> maps: one more than the section has when its end is
  the first address after it.\<close>

definition section_rounds :: "addr \<Rightarrow> addr \<Rightarrow> nat" where
  "section_rounds start end_pa = (if start \<le> end_pa then (unat end_pa - unat start) div 4096 + 1 else 0)"

lemma PageTable_map_section_loop_run:
  assumes "unat end_pa < 2 ^ 56"
  shows "PageTable_map_section_loop ss r pa end_pa va flags vm =
     Some (map_pages (\<lambda>va pa. PageTable_map_address ss r va pa flags) (section_rounds pa end_pa) va pa vm)"
proof (induction "section_rounds pa end_pa" arbitrary: pa va vm)
  case 0
  then show ?case
    by (subst PageTable_map_section_loop.simps) (simp add: section_rounds_def split: if_splits)
next
  case (Suc n)
  then have le: "pa \<le> end_pa" by (simp add: section_rounds_def split: if_splits)
  then have le': "unat pa \<le> unat end_pa" by (simp add: word_le_nat_alt)
  have next_pa: "unat (pa + PAGE_SIZE) = unat pa + 4096"
    using le' assms by (subst unat_word_add_less) (simp_all add: PAGE_SIZE_def)
  have "n = section_rounds (pa + PAGE_SIZE) end_pa"
  proof (cases "unat pa + 4096 \<le> unat end_pa")
    case True
    then obtain d where "unat end_pa = unat pa + 4096 + d" by (metis le_add_diff_inverse)
    then show ?thesis using Suc.hyps(2) le by (simp add: section_rounds_def word_le_nat_alt next_pa)
  next
    case False
    then show ?thesis using Suc.hyps(2) le by (simp add: section_rounds_def word_le_nat_alt next_pa)
  qed
  note IH = Suc.hyps(1) [OF this] and n = this
  show ?case
    unfolding Suc.hyps(2) [symmetric]
    by (subst PageTable_map_section_loop.simps)
      (simp add: le IH flip: n split: sum.split)
qed

lemma PageTable_map_section_ok:
  assumes ok: "vm_ok ss vm roots" and r: "r \<in> roots" and va: "is_aligned va PAGE_SIZE"
    and pa: "is_aligned (start_address s) PAGE_SIZE" and end_s: "unat (end_address s) + 4096 \<le> 2 ^ 56"
  defines "n \<equiv> section_rounds (start_address s) (end_address s)"
  shows "(pages_left ss vm < 2 * n \<and> PageTable_map_section ss r s va flags vm = Inl out_of_pages) \<or>
    (\<exists>vm'. PageTable_map_section ss r s va flags vm = Inr vm' \<and> vm_ok ss vm' roots \<and>
       lookup (mem vm') r = run_map n va (start_address s) flags (lookup (mem vm) r) \<and>
       (\<forall>r'\<in>roots. r' \<noteq> r \<longrightarrow> lookup (mem vm') r' = lookup (mem vm) r') \<and>
       pages_left ss vm \<le> pages_left ss vm' + 2 * n)"
proof -
  have run: "PageTable_map_section ss r s va flags vm =
      map_pages (\<lambda>va pa. PageTable_map_address ss r va pa flags) n va (start_address s) vm"
    using PageTable_map_section_loop_run [of "end_address s" ss r "start_address s" va flags vm] end_s
    by (simp add: PageTable_map_section_def n_def)
  show ?thesis
  proof (cases "start_address s \<le> end_address s")
    case True
    have "4096 * ((unat (end_address s) - unat (start_address s)) div 4096)
        \<le> unat (end_address s) - unat (start_address s)" by simp
    then have "unat (start_address s) + 4096 * n \<le> 2 ^ 56"
      using True end_s by (simp add: n_def section_rounds_def word_le_nat_alt)
    from page_table.map_pages_ok [OF ok r va pa this, of flags] show ?thesis unfolding run .
  next
    case False
    then have "n = 0" by (simp add: n_def section_rounds_def)
    then show ?thesis using run ok by simp
  qed
qed

end
