(* ===== verification/Translation.thy ===== *)
theory Translation
  imports Map_Section
begin

text \<open>
  What the hardware makes of the page tables: the Sv39 translation of the RISC-V privileged
  architecture as a reference definition, and the theorems that the tables the kernel builds translate
  as the abstract maps say.
\<close>

section \<open>The Sv39 translation\<close>

fun sv39_walk :: "(addr \<Rightarrow> u64) \<Rightarrow> addr \<Rightarrow> nat \<Rightarrow> addr \<Rightarrow> (addr \<times> PageTableEntryFlags) option" where
  "sv39_walk m va level a =
     (let pte = m (entry_at a (index level va)); f = entry_flags pte; k = 12 + 9 * level;
          base = physical_page_num pte * PAGE_SIZE in
      if \<not> flag_valid f \<or> (\<not> flag_read f \<and> flag_write f) then None
      else if flag_read f \<or> flag_execute f
      then (if take_bit k base = 0 then Some (base OR take_bit k va, f) else None)
      else case level of 0 \<Rightarrow> None | Suc next_level \<Rightarrow> sv39_walk m va next_level base)"

declare sv39_walk.simps [simp del]

definition canonical :: "addr \<Rightarrow> bool" where
  "canonical va \<longleftrightarrow> signed_take_bit 38 va = va"

definition sv39_translate :: "(addr \<Rightarrow> u64) \<Rightarrow> u64 \<Rightarrow> addr \<Rightarrow> (addr \<times> PageTableEntryFlags) option" where
  "sv39_translate m satp va =
     (if drop_bit 60 satp = 8 \<and> canonical va
      then sv39_walk m va 2 ((satp AND mask 44) * PAGE_SIZE) else None)"

text \<open>What the last level makes of an entry.\<close>

definition leaf_access :: "addr \<Rightarrow> addr \<times> PageTableEntryFlags \<Rightarrow> (addr \<times> PageTableEntryFlags) option" where
  "leaf_access va = (\<lambda>(pa, f).
     if flag_read f \<or> (flag_execute f \<and> \<not> flag_write f) then Some (pa OR page_offset va, f) else None)"

lemma page_offset_take: "page_offset va = take_bit 12 va"
  by (simp add: page_offset_def take_bit_eq_mask)

lemma satp_fields:
  assumes "page_ok r"
  shows "drop_bit 60 (SatpRegister_from_PageTable r) = 8"
    and "(SatpRegister_from_PageTable r AND mask 44) * PAGE_SIZE = r"
proof -
  have eight: "bit (8 :: int) i \<longleftrightarrow> i = 3" for i
    using bit_exp_iff [where 'a = int, of 3 i] by simp
  show "drop_bit 60 (SatpRegister_from_PageTable r) = 8"
    by (rule bit_word_eqI)
      (auto simp: SatpRegister_from_PageTable_def set_field_bit bit_simps SATP_MODE_def eight)
  have "SatpRegister_from_PageTable r AND mask 44 = take_bit 44 (page_of r)"
    by (rule bit_word_eqI)
      (auto simp: SatpRegister_from_PageTable_def set_field_bit bit_simps SATP_MODE_def div_page)
  then show "(SatpRegister_from_PageTable r AND mask 44) * PAGE_SIZE = r"
    using assms by (simp add: page_ok_def page_of_times)
qed

lemma canonical_low: "unat va < 2 ^ 38 \<Longrightarrow> canonical va"
proof -
  assume "unat va < 2 ^ 38"
  then have "take_bit 38 va = va"
    by (simp add: word_unat_eq_iff unsigned_take_bit_eq take_bit_nat_eq_self)
  then have bit: "\<not> bit va i" if "38 \<le> i" for i
    using that by (metis bit_take_bit_iff not_less)
  show ?thesis
    unfolding canonical_def
    by (rule bit_word_eqI) (auto simp: bit_signed_take_bit_iff min_def bit)
qed

text \<open>A well-formed tree translates exactly as its map says.\<close>

lemma sv39_walk_link:
  assumes "\<not> PageTableEntryFlags_is_leaf (entry_flags (m (entry_at a (index (Suc level) va))))"
  shows "sv39_walk m va (Suc level) a =
     Option.bind (link m a (index (Suc level) va)) (sv39_walk m va level)"
  using assms
  by (subst sv39_walk.simps) (auto simp: link_def Let_def PageTableEntryFlags_is_leaf_def)

lemma sv39_walk_leaf:
  "sv39_walk m va 0 a =
     (let e = m (entry_at a (index 0 va)) in
      if flag_valid (entry_flags e) then leaf_access va (physical_page_num e * PAGE_SIZE, entry_flags e) else None)"
proof -
  have "take_bit 12 (n * PAGE_SIZE) = 0" for n :: u64
    using aligned_times [of n] by (simp only: is_aligned_iff)
  then show ?thesis
    by (subst sv39_walk.simps) (auto simp: Let_def leaf_access_def page_offset_take)
qed

lemma sv39_lookup:
  assumes ok: "trees_ok m A roots" and r: "r \<in> roots" and va: "canonical va"
  shows "sv39_translate m (SatpRegister_from_PageTable r) va = Option.bind (lookup m r (vpn va)) (leaf_access va)"
proof -
  have "page_ok r" using trees_okD(1,2) [OF ok] r by (metis list.size(3) table_at_simps(1) zero_le)
  note satp = satp_fields [OF this]
  have two: "(2 :: nat) = Suc (Suc 0)" by simp
  have top: "sv39_walk m va (Suc (Suc 0)) r = Option.bind (link m r (index 2 va)) (sv39_walk m va (Suc 0))"
    using trees_okD(4) [OF ok r, of "[]" r "index 2 va"] by (simp add: sv39_walk_link numeral_2_eq_2)
  have mid: "sv39_walk m va (Suc 0) t = Option.bind (link m t (index 1 va)) (sv39_walk m va 0)"
    if "link m r (index 2 va) = Some t" for t
    using trees_okD(4) [OF ok r, of "[index 2 va]" t "index 1 va"] that
    by (simp add: sv39_walk_link table_at_one)
  show ?thesis
    using va satp top mid
    by (cases "link m r (index 2 va)"; cases "link m (the (link m r (index 2 va))) (index 1 va)")
      (simp_all add: sv39_translate_def two sv39_walk_leaf lookup_def vpn_def table_at_two Let_def)
qed

lemma leaf_access_mapped:
  assumes "is_aligned pa PAGE_SIZE"
  shows "leaf_access va (mapped pa flags) = Some (pa + page_offset va, (flags OR 1) OR 2)"
proof -
  have "page_offset va < PAGE_SIZE"
    using take_bit_nat_less_exp [of 12 "unat va"]
    by (simp add: PAGE_SIZE_def word_less_nat_alt unsigned_take_bit_eq page_offset_take)
  have "pa AND page_offset va = 0"
  proof (rule bit_word_eqI)
    fix i
    have "i < 12 \<Longrightarrow> \<not> bit pa i"
      using assms by (metis bit_0_eq bit_take_bit_iff bot_apply bot_bool_def is_aligned_iff)
    then show "bit (pa AND page_offset va) i = bit 0 i" by (auto simp: bit_simps page_offset_take)
  qed
  then have "pa OR page_offset va = pa + page_offset va" by (simp add: disjunctive_add_eq_or)
  then show ?thesis
    by (simp add: leaf_access_def mapped_def flag_read_def bit_simps bit_numeral_rec)
qed

section \<open>Mapping an address\<close>

text \<open>
  C6: \<open>PageTable_map_address\<close> refines a map update.  On page-aligned addresses it either runs out of
  pages, and then fewer than two were left, or it keeps the invariant of all page tables, updates the
  abstract map of its own root at the page of the virtual address, and changes the map of no other root.
\<close>

theorem map_address_refines:
  assumes "vm_ok ss vm roots" and "r \<in> roots" and "is_aligned va PAGE_SIZE" and "page_ok pa \<or> pa = 0"
  shows "(pages_left ss vm < 2 \<and> PageTable_map_address ss r va pa flags vm = Inl out_of_pages) \<or>
    (\<exists>vm'. PageTable_map_address ss r va pa flags vm = Inr vm' \<and> vm_ok ss vm' roots \<and>
       lookup (mem vm') r = (lookup (mem vm) r)(vpn va \<mapsto> mapped pa flags) \<and>
       (\<forall>r'\<in>roots. r' \<noteq> r \<longrightarrow> lookup (mem vm') r' = lookup (mem vm) r'))"
  using PageTable_map_address_ok [OF assms] by auto

text \<open>A concrete machine for the witnesses: four free pages and one root.\<close>

definition sample_section :: "addr \<Rightarrow> addr \<Rightarrow> Section" where
  "sample_section s e = \<lparr>section_type = SECTION_TYPE_NORMAL, start_address = s, end_address = e\<rparr>"

definition sample_sections :: Sections where
  "sample_sections = \<lparr>SECTION_MEMORY = sample_section 0x200000 0x201000,
     SECTION_PAGES = sample_section 0x80000000 0x80100000,
     SECTION_GLOBAL_SPECIAL = sample_section 0x300000 0x301000,
     SECTION_USER_SPECIAL = sample_section 0x302000 0x303000\<rparr>"

definition sample_vm :: VM where
  "sample_vm = \<lparr>mem = (\<lambda>a. 0), next_page = 0\<rparr>"

lemma sample_ok: "vm_ok sample_sections sample_vm {}"
  by (simp add: vm_ok_def trees_ok_def pages_section_ok_def Let_def sample_sections_def sample_section_def
      sample_vm_def next_free_page_def allocated_def page_aligned_mod PAGE_SIZE_def not_less [symmetric])

lemma sample_pages: "pages_left sample_sections sample_vm = 256"
  by (simp add: pages_left_def next_free_page_def sample_sections_def sample_section_def sample_vm_def)

lemma sample_root:
  "\<exists>r vm. Page_alloc sample_sections sample_vm = Inr (r, vm) \<and> vm_ok sample_sections vm {r} \<and>
     pages_left sample_sections vm = 255 \<and> lookup (mem vm) r = Map.empty"
proof -
  obtain r vm where a: "Page_alloc sample_sections sample_vm = Inr (r, vm)"
    using Page_alloc_cases [OF sample_ok] sample_pages by auto
  then show ?thesis
    using vm_ok_alloc [OF sample_ok a] Page_alloc_fresh(5) [OF sample_ok a] sample_pages by auto
qed

lemma map_address_refines_witness:
  "\<exists>r vm vm'. PageTable_map_address sample_sections r 0x1000000 0x5000 6 vm = Inr vm' \<and>
     lookup (mem vm') r = [vpn 0x1000000 \<mapsto> mapped 0x5000 6]"
proof -
  obtain r vm where r: "vm_ok sample_sections vm {r}" "pages_left sample_sections vm = 255"
      "lookup (mem vm) r = Map.empty"
    using sample_root by blast
  have "is_aligned 0x1000000 PAGE_SIZE" "page_ok 0x5000 \<or> (0x5000 :: addr) = 0"
    by (simp_all add: page_aligned_mod PAGE_SIZE_def page_ok_def page_of_def drop_bit_eq_div take_bit_eq_mod)
  from map_address_refines [OF r(1) _ this, of r 6] r show ?thesis by auto
qed

text \<open>
  After a successful \<open>PageTable_map_address\<close> the hardware translates every address of the page to
  the same offset of the physical page, with the requested flags made valid and readable; every other
  address of the table, and every address of every other table, is translated as before.
\<close>

theorem map_address_translates:
  assumes ok: "vm_ok ss vm roots" and r: "r \<in> roots" and va: "is_aligned va PAGE_SIZE" and pa: "page_ok pa \<or> pa = 0"
    and res: "PageTable_map_address ss r va pa flags vm = Inr vm'" and x: "canonical x" and r': "r' \<in> roots"
  shows "sv39_translate (mem vm') (SatpRegister_from_PageTable r') x =
     (if r' = r \<and> take_bit 27 (page_of x) = take_bit 27 (page_of va)
      then Some (pa + page_offset x, (flags OR 1) OR 2)
      else sv39_translate (mem vm) (SatpRegister_from_PageTable r') x)"
proof -
  have m: "vm_ok ss vm' roots" "lookup (mem vm') r = (lookup (mem vm) r)(vpn va \<mapsto> mapped pa flags)"
      "\<forall>r'\<in>roots. r' \<noteq> r \<longrightarrow> lookup (mem vm') r' = lookup (mem vm) r'"
    using PageTable_map_address_ok [OF ok r va pa, of flags] res by auto
  have al: "is_aligned pa PAGE_SIZE" using pa by (auto simp: page_ok_def page_aligned_mod)
  have trees: "trees_ok (mem vm) (allocated ss vm) roots" "trees_ok (mem vm') (allocated ss vm') roots"
    using ok m(1) by (simp_all add: vm_ok_def)
  show ?thesis
    using m(2,3) r' by (auto simp: sv39_lookup [OF trees(1) r' x] sv39_lookup [OF trees(2) r' x]
        leaf_access_mapped al vpn_eq_iff)
qed

lemma map_address_translates_witness:
  "\<exists>r vm vm'. PageTable_map_address sample_sections r 0x1000000 0x5000 6 vm = Inr vm' \<and>
     sv39_translate (mem vm') (SatpRegister_from_PageTable r) 0x1000123 = Some (0x5123, 7)"
proof -
  obtain r vm where r: "vm_ok sample_sections vm {r}" "pages_left sample_sections vm = 255"
    using sample_root by blast
  have al: "is_aligned 0x1000000 PAGE_SIZE" "page_ok 0x5000 \<or> (0x5000 :: addr) = 0"
    by (simp_all add: page_aligned_mod PAGE_SIZE_def page_ok_def page_of_def drop_bit_eq_div take_bit_eq_mod)
  obtain vm' where "PageTable_map_address sample_sections r 0x1000000 0x5000 6 vm = Inr vm'"
    using PageTable_map_address_ok [OF r(1) _ al, of r 6] r(2) by auto
  moreover from map_address_translates [OF r(1) _ al this, of "0x1000123" r]
  have "sv39_translate (mem vm') (SatpRegister_from_PageTable r) 0x1000123 = Some (0x5123, 7)"
    by (simp add: canonical_low page_of_def page_offset_def drop_bit_eq_div take_bit_eq_mod mask_eq_exp_minus_1)
  ultimately show ?thesis by blast
qed

section \<open>Looking an address up\<close>

lemma get_loop_link:
  assumes "level < 2" and "t \<noteq> 0" and "link m t (index (Suc level) va) = Some u"
  shows "PageTable_get_loop m va (Suc level) t = PageTable_get_loop m va level u"
proof -
  have "flag_valid (entry_flags (m (entry_addr t (ucast (index (Suc level) va)))))"
    "u = physical_page_num (m (entry_addr t (ucast (index (Suc level) va)))) * PAGE_SIZE"
    using assms(3) by (simp_all add: link_def Let_def entry_at_def split: if_splits)
  then show ?thesis
    using assms(1,2)
    by (subst PageTable_get_loop.simps) (simp add: get_level_entry_number Let_def PageTableEntry_get_linked_def)
qed

lemma get_physical_address_table:
  assumes ok: "trees_ok m A roots" and r: "r \<in> roots"
    and t: "table_at m r [index 2 va, index 1 va] = Some t"
  shows "PageTable_get_physical_address m r va =
     Inr (physical_page_num (m (entry_at t (index 0 va))) * PAGE_SIZE + page_offset va)"
proof -
  obtain u where u: "link m r (index 2 va) = Some u" "link m u (index 1 va) = Some t"
    using t by (cases "link m r (index 2 va)") (auto simp: table_at_two)
  have nz: "r \<noteq> 0" "u \<noteq> 0" "t \<noteq> 0"
    using trees_ok_aligned(2) [OF ok r, of "[]" r] trees_ok_aligned(2) [OF ok r, of "[index 2 va]" u]
      trees_ok_aligned(2) [OF ok r _ t] u by (simp_all add: table_at_one)
  have "PageTable_get_loop m va 2 r = PageTable_get_loop m va 0 t"
    using get_loop_link [of 1 r m va u] get_loop_link [of 0 u m va t] u nz by (simp add: numeral_2_eq_2)
  also have "\<dots> = Inr (m (entry_at t (index 0 va)))"
    using nz by (subst PageTable_get_loop.simps) (simp add: get_level_entry_number entry_at_def)
  finally show ?thesis by (simp add: PageTable_get_physical_address_def VIRTUAL_MEMORY_TOP_LEVEL_def)
qed

text \<open>
  C11: \<open>PageTable_get_physical_address\<close> agrees with the hardware wherever the hardware translates.
\<close>

theorem get_physical_address_agrees:
  assumes "vm_ok ss vm roots" and "r \<in> roots"
    and "sv39_translate (mem vm) (SatpRegister_from_PageTable r) va = Some (pa, f)"
  shows "PageTable_get_physical_address (mem vm) r va = Inr pa"
proof -
  have trees: "trees_ok (mem vm) (allocated ss vm) roots" using assms(1) by (simp add: vm_ok_def)
  have "canonical va" using assms(3) by (auto simp: sv39_translate_def split: if_splits)
  then have access: "Option.bind (lookup (mem vm) r (vpn va)) (leaf_access va) = Some (pa, f)"
    using sv39_lookup [OF trees assms(2)] assms(3) by simp
  obtain t where t: "table_at (mem vm) r [index 2 va, index 1 va] = Some t"
    and pa: "pa = physical_page_num (mem vm (entry_at t (index 0 va))) * PAGE_SIZE OR page_offset va"
  proof (cases "table_at (mem vm) r [index 2 va, index 1 va]")
    case None
    then show ?thesis using access by (simp add: lookup_def vpn_def)
  next
    case (Some t)
    then show ?thesis
      using access that by (auto simp: lookup_def vpn_def Let_def leaf_access_def split: if_splits)
  qed
  have "physical_page_num (mem vm (entry_at t (index 0 va))) * PAGE_SIZE AND page_offset va = 0"
    by (rule bit_word_eqI) (auto simp: times_page page_offset_take bit_simps)
  then show ?thesis
    using get_physical_address_table [OF trees assms(2) t] pa by (simp add: disjunctive_add_eq_or)
qed

lemma get_physical_address_agrees_witness:
  "\<exists>r (vm :: VM). PageTable_get_physical_address (mem vm) r 0x1000123 = Inr 0x5123"
proof -
  obtain r vm where r: "vm_ok sample_sections vm {r}" "pages_left sample_sections vm = 255"
    using sample_root by blast
  have al: "is_aligned 0x1000000 PAGE_SIZE" "page_ok 0x5000 \<or> (0x5000 :: addr) = 0"
    by (simp_all add: page_aligned_mod PAGE_SIZE_def page_ok_def page_of_def drop_bit_eq_div take_bit_eq_mod)
  obtain vm' where vm': "PageTable_map_address sample_sections r 0x1000000 0x5000 6 vm = Inr vm'"
      "vm_ok sample_sections vm' {r}" "lookup (mem vm') r = (lookup (mem vm) r)(vpn 0x1000000 \<mapsto> mapped 0x5000 6)"
    using PageTable_map_address_ok [OF r(1) _ al, of r 6] r(2) by auto
  have "vpn 0x1000123 = vpn 0x1000000"
    by (simp add: vpn_eq_iff page_of_def drop_bit_eq_div)
  then have "sv39_translate (mem vm') (SatpRegister_from_PageTable r) 0x1000123 = Some (0x5123, (6 OR 1) OR 2)"
    using sv39_lookup [of "mem vm'" "allocated sample_sections vm'" "{r}" r "0x1000123"] vm'(2,3)
      leaf_access_mapped [of "0x5000" "0x1000123" 6]
    by (simp add: vm_ok_def canonical_low page_aligned_mod PAGE_SIZE_def page_offset_def mask_eq_exp_minus_1)
  from get_physical_address_agrees [OF vm'(2) singletonI this] show ?thesis by blast
qed

text \<open>
  It does not check the entry of the last level: an address that the hardware faults on, because
  it was never mapped, still gets some physical address instead of the panic, as soon as another page of
  the same 2 MiB is mapped.
\<close>

theorem get_physical_address_unmapped:
  assumes "vm_ok ss vm roots" and "r \<in> roots" and "canonical va"
    and "lookup (mem vm) r (vpn va) = None" and "lookup (mem vm) r (vpn va') \<noteq> None"
    and "index 2 va = index 2 va'" and "index 1 va = index 1 va'"
  shows "sv39_translate (mem vm) (SatpRegister_from_PageTable r) va = None \<and>
     (\<exists>pa. PageTable_get_physical_address (mem vm) r va = Inr pa)"
proof -
  have trees: "trees_ok (mem vm) (allocated ss vm) roots" using assms(1) by (simp add: vm_ok_def)
  obtain t where "table_at (mem vm) r [index 2 va, index 1 va] = Some t"
    using assms(5-7) by (cases "table_at (mem vm) r [index 2 va', index 1 va']") (auto simp: lookup_def vpn_def)
  then show ?thesis
    using get_physical_address_table [OF trees assms(2)] sv39_lookup [OF trees assms(2,3)] assms(4) by simp
qed

lemma get_physical_address_unmapped_witness:
  "\<exists>r (vm :: VM). sv39_translate (mem vm) (SatpRegister_from_PageTable r) 0x1001000 = None \<and>
     (\<exists>pa. PageTable_get_physical_address (mem vm) r 0x1001000 = Inr pa)"
proof -
  obtain r vm where r: "vm_ok sample_sections vm {r}" "pages_left sample_sections vm = 255"
      "lookup (mem vm) r = Map.empty"
    using sample_root by blast
  have al: "is_aligned 0x1000000 PAGE_SIZE" "page_ok 0x5000 \<or> (0x5000 :: addr) = 0"
    by (simp_all add: page_aligned_mod PAGE_SIZE_def page_ok_def page_of_def drop_bit_eq_div take_bit_eq_mod)
  obtain vm' where vm': "vm_ok sample_sections vm' {r}" "lookup (mem vm') r = [vpn 0x1000000 \<mapsto> mapped 0x5000 6]"
    using PageTable_map_address_ok [OF r(1) _ al, of r 6] r(2,3) by auto
  have "vpn 0x1001000 \<noteq> vpn 0x1000000"
    by (simp add: vpn_eq_iff page_of_def drop_bit_eq_div take_bit_eq_mod)
  then have "lookup (mem vm') r (vpn 0x1001000) = None" "lookup (mem vm') r (vpn 0x1000000) \<noteq> None"
    using vm'(2) by simp_all
  moreover have "index 2 (0x1001000 :: addr) = index 2 0x1000000" "index 1 (0x1001000 :: addr) = index 1 0x1000000"
    by (simp_all add: index_def drop_bit_eq_div)
  moreover have "canonical 0x1001000" by (simp add: canonical_low)
  ultimately show ?thesis using get_physical_address_unmapped [OF vm'(1) singletonI] by blast
qed

end
