(* ===== verification/Address_Init.thy ===== *)
theory Address_Init
  imports Translation
begin

text \<open>
  The address spaces that the kernel builds: a user program's table gives it its own pages and nothing
  else, the kernel's table is the identity, and building one leaves the others alone.
\<close>

section \<open>Canonical addresses\<close>

lemma vpn_take_bit: "vpn (take_bit 39 x) = vpn x"
proof -
  have "take_bit 27 (page_of (take_bit 39 x)) = take_bit 27 (page_of x)"
    by (rule bit_word_eqI) (auto simp: page_of_def bit_simps)
  then show ?thesis by (simp only: vpn_eq_iff)
qed

lemma unat_take_bit_39: "unat (take_bit 39 (x :: addr)) < 2 ^ 39"
  using take_bit_nat_less_exp [of 39 "unat x"] by (simp add: unsigned_take_bit_eq)

lemma take_bit_small: "unat (y :: addr) < 2 ^ k \<Longrightarrow> take_bit k y = y"
  by (simp add: word_unat_eq_iff unsigned_take_bit_eq take_bit_nat_eq_self)

lemma canonical_low_eq:
  assumes "canonical x" and "unat (take_bit 39 x) < 2 ^ 38"
  shows "take_bit 39 x = x"
proof -
  have "take_bit 38 (take_bit 39 x) = take_bit 39 x" by (rule take_bit_small [OF assms(2)])
  then have "\<not> bit (take_bit 39 x) 38" by (metis bit_take_bit_iff less_irrefl)
  then have b38: "\<not> bit x 38" by (simp add: bit_take_bit_iff)
  have ext: "signed_take_bit 38 x = x" using assms(1) by (simp add: canonical_def)
  have high: "\<not> bit x i" if "38 \<le> i" "i < 64" for i
  proof -
    have "bit (signed_take_bit 38 x) i = bit x (min 38 i)"
      using that by (simp add: bit_signed_take_bit_iff)
    with ext b38 that show ?thesis by (simp add: min_absorb1)
  qed
  show ?thesis
  proof (rule bit_word_eqI)
    fix i
    assume "i < LENGTH(64)"
    then show "bit (take_bit 39 x) i = bit x i"
      using high [of i] by (cases "i < 39") (simp_all add: bit_take_bit_iff)
  qed
qed

text \<open>A run in the lower half, looked up at any canonical address.\<close>

lemma run_map_canonical:
  assumes "is_aligned va PAGE_SIZE" and "unat va + 4096 * n \<le> 2 ^ 38" and "canonical x"
  shows "run_map n va pa flags M (vpn x) =
     (if unat va \<le> unat x \<and> unat x < unat va + 4096 * n
      then Some (mapped (pa + of_nat (4096 * (unat x div 4096 - unat va div 4096))) flags) else M (vpn x))"
proof -
  let ?y = "take_bit 39 x"
  have at: "run_map n va pa flags M (vpn x) =
     (if unat va \<le> unat ?y \<and> unat ?y < unat va + 4096 * n
      then Some (mapped (pa + of_nat (4096 * (unat ?y div 4096 - unat va div 4096))) flags) else M (vpn x))"
    using run_map_at [OF assms(1), of n ?y pa flags M] assms(2) unat_take_bit_39 [of x]
    by (simp add: vpn_take_bit)
  show ?thesis
  proof (cases "unat ?y < 2 ^ 38")
    case True
    then show ?thesis using at canonical_low_eq [OF assms(3)] by simp
  next
    case False
    have "unat ?y \<le> unat x" by (simp add: unsigned_take_bit_eq take_bit_nat_less_eq_self)
    then show ?thesis using at False assms(2) by auto
  qed
qed

section \<open>A user program's address space\<close>

text \<open>A section that can be mapped: page-aligned, and it and the page after it in the lower half.\<close>

definition section_ok :: "Section \<Rightarrow> bool" where
  "section_ok s \<longleftrightarrow> is_aligned (start_address s) PAGE_SIZE \<and> start_address s \<le> end_address s \<and>
     unat (end_address s) + 4096 \<le> 2 ^ 38"

definition rounds :: "Section \<Rightarrow> nat" where
  "rounds s = section_rounds (start_address s) (end_address s)"

lemma rounds_bound:
  assumes "section_ok s"
  shows "unat (start_address s) + 4096 * rounds s \<le> 2 ^ 38" and "rounds s = unat (Section_size s) div 4096 + 1"
proof -
  have le: "start_address s \<le> end_address s" using assms by (simp add: section_ok_def)
  then have "unat (Section_size s) = unat (end_address s) - unat (start_address s)"
    by (simp add: Section_size_def unat_sub)
  then show "rounds s = unat (Section_size s) div 4096 + 1"
    using le by (simp add: rounds_def section_rounds_def)
  have a: "unat (start_address s) \<le> unat (end_address s)" using le by (simp add: word_le_nat_alt)
  have "4096 * ((unat (end_address s) - unat (start_address s)) div 4096)
      \<le> unat (end_address s) - unat (start_address s)" by simp
  with a have "unat (start_address s) + 4096 * ((unat (end_address s) - unat (start_address s)) div 4096)
      \<le> unat (end_address s)" by linarith
  moreover have "unat (end_address s) + 4096 \<le> 2 ^ 38" using assms by (simp add: section_ok_def)
  moreover have "4096 * rounds s = 4096 * ((unat (end_address s) - unat (start_address s)) div 4096) + 4096"
    using le by (simp add: rounds_def section_rounds_def)
  ultimately show "unat (start_address s) + 4096 * rounds s \<le> 2 ^ 38" by linarith
qed

definition user_sections_ok :: "Sections \<Rightarrow> Section \<Rightarrow> addr \<Rightarrow> bool" where
  "user_sections_ok ss program_section start_virtual \<longleftrightarrow>
     section_ok (SECTION_GLOBAL_SPECIAL ss) \<and> section_ok (SECTION_USER_SPECIAL ss) \<and>
     section_ok program_section \<and> is_aligned start_virtual PAGE_SIZE \<and>
     unat start_virtual + 4096 * rounds program_section \<le> 2 ^ 38"

definition user_map ::
    "Sections \<Rightarrow> Section \<Rightarrow> addr \<Rightarrow> 9 word \<times> 9 word \<times> 9 word \<Rightarrow> (addr \<times> PageTableEntryFlags) option"
where
  "user_map ss p start_virtual =
     (let g = SECTION_GLOBAL_SPECIAL ss; u = SECTION_USER_SPECIAL ss; rwx = PageTableEntryFlags_init True True True False in
      run_map (rounds u) (start_address u) (start_address u) rwx
       (run_map (rounds g) (start_address g) (start_address g) rwx
        (run_map (rounds p) start_virtual (start_address p) (PageTableEntryFlags_init True True True True) Map.empty)))"

lemma section_step:
  assumes "vm_ok ss vm roots" and "r \<in> roots" and "section_ok s" and "is_aligned va PAGE_SIZE"
  shows "(pages_left ss vm < 2 * rounds s \<and> PageTable_map_section ss r s va flags vm = Inl out_of_pages) \<or>
    (\<exists>vm'. PageTable_map_section ss r s va flags vm = Inr vm' \<and> vm_ok ss vm' roots \<and>
       lookup (mem vm') r = run_map (rounds s) va (start_address s) flags (lookup (mem vm) r) \<and>
       (\<forall>r'\<in>roots. r' \<noteq> r \<longrightarrow> lookup (mem vm') r' = lookup (mem vm) r') \<and>
       pages_left ss vm \<le> pages_left ss vm' + 2 * rounds s)"
  using PageTable_map_section_ok [OF assms(1,2,4), of s flags] assms(3)
  by (auto simp: section_ok_def rounds_def)

lemma PageTable_user_init_ok:
  assumes ok: "vm_ok ss vm roots" and secs: "user_sections_ok ss p sv"
    and res: "PageTable_user_init ss p sv vm = Inr (table, vm')"
  shows "vm_ok ss vm' (insert table roots)" "table \<notin> roots" "lookup (mem vm') table = user_map ss p sv"
    "r \<in> roots \<Longrightarrow> lookup (mem vm') r = lookup (mem vm) r"
proof -
  let ?g = "SECTION_GLOBAL_SPECIAL ss" and ?u = "SECTION_USER_SPECIAL ss"
  let ?rwx = "PageTableEntryFlags_init True True True False"
  obtain vm1 vm2 vm3 where a: "Page_alloc ss vm = Inr (table, vm1)"
    and m1: "PageTable_map_section ss table p sv (PageTableEntryFlags_init True True True True) vm1 = Inr vm2"
    and m2: "PageTable_map_section ss table ?g (start_address ?g) ?rwx vm2 = Inr vm3"
    and m3: "PageTable_map_section ss table ?u (start_address ?u) ?rwx vm3 = Inr vm'"
    using res by (auto simp: PageTable_user_init_def Let_def bindr_Inr_iff)
  note al = vm_ok_alloc [OF ok a]
  have secs': "section_ok p" "section_ok ?g" "section_ok ?u" "is_aligned sv PAGE_SIZE"
      "is_aligned (start_address ?g) PAGE_SIZE" "is_aligned (start_address ?u) PAGE_SIZE"
    using secs by (auto simp: user_sections_ok_def section_ok_def)
  note s1 = section_step [OF al(1) insertI1 secs'(1,4), of "PageTableEntryFlags_init True True True True"]
  from s1 m1 have ok2: "vm_ok ss vm2 (insert table roots)" by auto
  note s2 = section_step [OF ok2 insertI1 secs'(2,5), of ?rwx]
  from s2 m2 have ok3: "vm_ok ss vm3 (insert table roots)" by auto
  note s3 = section_step [OF ok3 insertI1 secs'(3,6), of ?rwx]
  from s3 m3 show "vm_ok ss vm' (insert table roots)" by auto
  show "table \<notin> roots" by (rule al(4))
  show "lookup (mem vm') table = user_map ss p sv"
    using s1 s2 s3 m1 m2 m3 al(2) by (simp add: user_map_def Let_def)
  show "lookup (mem vm') r = lookup (mem vm) r" if "r \<in> roots"
    using s1 s2 s3 m1 m2 m3 al(3,4) that by (metis insertCI sum.inject(2) sum.distinct(1))
qed

lemma user_flags:
  "flag_user (PageTableEntryFlags_init True True True True)"
  "\<not> flag_user (PageTableEntryFlags_init True True True False)"
  "\<not> flag_user (PageTableEntryFlags_init True True False False)"
  by (simp_all add: flag_user_def PageTableEntryFlags_init_def bit_simps bit_numeral_rec)

lemma page_base_offset:
  assumes "is_aligned va PAGE_SIZE" and "unat va \<le> unat x"
  shows "of_nat (4096 * (unat x div 4096 - unat va div 4096)) + page_offset x = x - va"
proof -
  obtain k where k: "unat va = 4096 * k" using assms(1) by (auto simp: is_aligned_dvd elim!: dvdE)
  have "unat (page_offset x) = unat x mod 4096"
    by (simp add: page_offset_take take_bit_eq_mod unat_mod)
  moreover have "of_nat (unat (page_offset x)) = page_offset x" by simp
  ultimately have off: "page_offset x = of_nat (unat x mod 4096)" by simp
  have "4096 * (unat x div 4096 - k) + unat x mod 4096 = unat x - unat va"
    using assms(2) k by (simp add: right_diff_distrib')
  then have "of_nat (4096 * (unat x div 4096 - unat va div 4096)) + page_offset x = (of_nat (unat x - unat va) :: u64)"
    unfolding off of_nat_add [symmetric] using k by simp
  then show ?thesis using assms(2) by (simp add: of_nat_diff)
qed

definition in_run :: "addr \<Rightarrow> nat \<Rightarrow> addr \<Rightarrow> bool" where
  "in_run va n x \<longleftrightarrow> unat va \<le> unat x \<and> unat x < unat va + 4096 * n"

lemma aligned_plus_pages:
  assumes "is_aligned b PAGE_SIZE"
  shows "is_aligned (b + of_nat (4096 * k)) PAGE_SIZE"
proof -
  have "b + of_nat (4096 * k) = (page_of b + of_nat k) * PAGE_SIZE"
    using page_of_times [OF assms] by (simp add: algebra_simps PAGE_SIZE_def)
  then show ?thesis by simp
qed

text \<open>One run, as the hardware sees it.\<close>

lemma run_access:
  assumes va: "is_aligned va PAGE_SIZE" and "unat va + 4096 * n \<le> 2 ^ 38" and "canonical x"
    and pa: "is_aligned pa PAGE_SIZE"
  shows "Option.bind (run_map n va pa flags M (vpn x)) (leaf_access x) =
     (if in_run va n x then Some (pa + (x - va), (flags OR 1) OR 2) else Option.bind (M (vpn x)) (leaf_access x))"
proof -
  define d :: u64 where "d = of_nat (4096 * (unat x div 4096 - unat va div 4096))"
  have "leaf_access x (mapped (pa + d) flags) = Some (pa + (d + page_offset x), (flags OR 1) OR 2)"
    using leaf_access_mapped [OF aligned_plus_pages [OF pa]] unfolding d_def add.assoc .
  moreover have "d + page_offset x = x - va" if "unat va \<le> unat x"
    unfolding d_def by (rule page_base_offset [OF va that])
  ultimately show ?thesis
    using run_map_canonical [OF assms(1-3), of pa flags M, folded d_def] by (simp add: in_run_def)
qed

lemma user_access:
  assumes "user_sections_ok ss p sv" and can: "canonical x"
  shows "Option.bind (user_map ss p sv (vpn x)) (leaf_access x) =
     (let g = SECTION_GLOBAL_SPECIAL ss; u = SECTION_USER_SPECIAL ss;
          rwx = PageTableEntryFlags_init True True True False in
      if in_run (start_address u) (rounds u) x then Some (x, (rwx OR 1) OR 2)
      else if in_run (start_address g) (rounds g) x then Some (x, (rwx OR 1) OR 2)
      else if in_run sv (rounds p) x
      then Some (start_address p + (x - sv), (PageTableEntryFlags_init True True True True OR 1) OR 2)
      else None)"
proof -
  have ok: "section_ok p" "section_ok (SECTION_GLOBAL_SPECIAL ss)" "section_ok (SECTION_USER_SPECIAL ss)"
      and sv: "is_aligned sv PAGE_SIZE" "unat sv + 4096 * rounds p \<le> 2 ^ 38"
    using assms(1) by (simp_all add: user_sections_ok_def)
  then have al: "is_aligned (start_address p) PAGE_SIZE" "is_aligned (start_address (SECTION_GLOBAL_SPECIAL ss)) PAGE_SIZE"
      "is_aligned (start_address (SECTION_USER_SPECIAL ss)) PAGE_SIZE"
    by (simp_all add: section_ok_def)
  show ?thesis
    unfolding user_map_def Let_def
    by (simp add: run_access [OF al(3) rounds_bound(1) [OF ok(3)] can al(3)]
        run_access [OF al(2) rounds_bound(1) [OF ok(2)] can al(2)] run_access [OF sv can al(1)])
qed

text \<open>What the hardware does with such a table.\<close>

lemma user_map_confines:
  assumes trees: "trees_ok m A roots" "table \<in> roots" and space: "lookup m table = user_map ss p sv"
    and secs: "user_sections_ok ss p sv"
    and tr: "sv39_translate m (SatpRegister_from_PageTable table) x = Some (pa, f)" and user: "flag_user f"
  shows "sv \<le> x \<and> unat x < unat sv + 4096 * (unat (Section_size p) div 4096 + 1) \<and> pa = start_address p + (x - sv)"
proof -
  have can: "canonical x" using tr by (auto simp: sv39_translate_def split: if_splits)
  have acc: "Option.bind (user_map ss p sv (vpn x)) (leaf_access x) = Some (pa, f)"
    using tr sv39_lookup [OF trees can] space by simp
  have "in_run sv (rounds p) x \<and> pa = start_address p + (x - sv)"
    using acc user unfolding user_access [OF secs can] by (auto simp: Let_def user_flags split: if_splits)
  moreover have "section_ok p" using secs by (simp add: user_sections_ok_def)
  ultimately show ?thesis using rounds_bound(2) by (auto simp: in_run_def word_le_nat_alt)
qed

text \<open>The loop of \<open>PageTable_map_section\<close> maps the page after a section that ends with a page, too.\<close>

lemma user_map_past_end:
  assumes trees: "trees_ok m A roots" "table \<in> roots" and space: "lookup m table = user_map ss p sv"
    and secs: "user_sections_ok ss p sv" and size: "is_aligned (end_address p) PAGE_SIZE" and k: "k < PAGE_SIZE"
    and apart: "\<And>s. s \<in> {SECTION_GLOBAL_SPECIAL ss, SECTION_USER_SPECIAL ss} \<Longrightarrow>
       \<not> in_run (start_address s) (rounds s) (sv + Section_size p + k)"
  shows "\<exists>f. sv39_translate m (SatpRegister_from_PageTable table) (sv + Section_size p + k) =
     Some (end_address p + k, f) \<and> flag_user f \<and> flag_read f \<and> flag_write f \<and> flag_execute f"
proof -
  have p: "section_ok p" "unat sv + 4096 * rounds p \<le> 2 ^ 38" using secs by (simp_all add: user_sections_ok_def)
  let ?x = "sv + Section_size p + k"
  have k': "unat k < 4096" using k by (simp add: PAGE_SIZE_def word_less_nat_alt)
  have "unat (Section_size p) = unat (end_address p) - unat (start_address p)"
    using p by (simp add: Section_size_def section_ok_def unat_sub)
  moreover have "4096 dvd unat (end_address p)" "4096 dvd unat (start_address p)"
    using size p by (simp_all add: section_ok_def is_aligned_dvd)
  ultimately have "4096 * (unat (Section_size p) div 4096) = unat (Section_size p)" by simp
  then have bound: "unat sv + unat (Section_size p) + 4096 \<le> 2 ^ 38"
    using p(2) rounds_bound(2) [OF p(1)] by simp
  have x: "unat ?x = unat sv + unat (Section_size p) + unat k"
    using bound k' by (simp add: unat_word_add_less)
  then have run: "in_run sv (rounds p) ?x"
    using rounds_bound(2) [OF p(1)] k' \<open>4096 * (unat (Section_size p) div 4096) = unat (Section_size p)\<close>
    by (simp add: in_run_def)
  have "canonical ?x" using x bound k' by (intro canonical_low) simp
  note acc = sv39_lookup [OF trees this] user_access [OF secs this]
  have "start_address p + (?x - sv) = end_address p + k" by (simp add: Section_size_def)
  moreover have "flag_read ((PageTableEntryFlags_init True True True True OR 1) OR 2)"
    "flag_write ((PageTableEntryFlags_init True True True True OR 1) OR 2)"
    "flag_execute ((PageTableEntryFlags_init True True True True OR 1) OR 2)"
    by (simp_all add: flag_read_def flag_write_def flag_execute_def PageTableEntryFlags_init_def
        bit_simps bit_numeral_rec)
  ultimately show ?thesis
    using acc space run apart user_flags(1) by (simp add: Let_def)
qed

text \<open>
  C4: in the address space that \<open>PageTable_user_init\<close> builds, user mode can access only the pages
  that hold the program's section, starting at the virtual start address, and each only at its place. The pages are
  counted as the code counts them, one for each that is begun and one more if the section ends with a page:
  apart from that last one, no other physical memory, of the kernel or of another program, is reachable.
\<close>

theorem user_init_isolation:
  assumes "vm_ok ss vm roots" and secs: "user_sections_ok ss p sv"
    and "PageTable_user_init ss p sv vm = Inr (table, vm')"
    and tr: "sv39_translate (mem vm') (SatpRegister_from_PageTable table) x = Some (pa, f)" and user: "flag_user f"
  shows "sv \<le> x \<and> unat x < unat sv + 4096 * (unat (Section_size p) div 4096 + 1) \<and>
     pa = start_address p + (x - sv)"
proof -
  note init = PageTable_user_init_ok [OF assms(1,2,3)]
  have "trees_ok (mem vm') (allocated ss vm') (insert table roots)" using init(1) by (simp add: vm_ok_def)
  from user_map_confines [OF this insertI1 init(3) secs tr user] show ?thesis .
qed

lemma sample_user_sections:
  "user_sections_ok sample_sections (sample_section 0x80200000 0x80201000) 0x1000000"
  by (simp add: user_sections_ok_def section_ok_def sample_sections_def sample_section_def rounds_def
      section_rounds_def page_aligned_mod PAGE_SIZE_def)

lemma sample_user_init:
  "\<exists>table vm'. PageTable_user_init sample_sections (sample_section 0x80200000 0x80201000) 0x1000000 sample_vm =
     Inr (table, vm')"
proof -
  let ?ss = sample_sections and ?p = "sample_section 0x80200000 0x80201000"
  let ?g = "SECTION_GLOBAL_SPECIAL ?ss" and ?u = "SECTION_USER_SPECIAL ?ss"
  let ?rwx = "PageTableEntryFlags_init True True True False"
  have ok: "section_ok ?p" "section_ok ?g" "section_ok ?u" "is_aligned 0x1000000 PAGE_SIZE"
      and al: "is_aligned (start_address ?g) PAGE_SIZE" "is_aligned (start_address ?u) PAGE_SIZE"
    using sample_user_sections by (auto simp: user_sections_ok_def section_ok_def)
  have n: "rounds ?p = 2" "rounds ?g = 2" "rounds ?u = 2"
    by (simp_all add: rounds_def section_rounds_def sample_sections_def sample_section_def)
  obtain r vm where r: "Page_alloc ?ss sample_vm = Inr (r, vm)" "vm_ok ?ss vm {r}" "pages_left ?ss vm = 255"
    using sample_root by blast
  obtain vm1 where 1: "PageTable_map_section ?ss r ?p 0x1000000 (PageTableEntryFlags_init True True True True) vm = Inr vm1"
      "vm_ok ?ss vm1 {r}" "251 \<le> pages_left ?ss vm1"
    using section_step [OF r(2) _ ok(1,4), of r "PageTableEntryFlags_init True True True True"] r(3) n by auto
  obtain vm2 where 2: "PageTable_map_section ?ss r ?g (start_address ?g) ?rwx vm1 = Inr vm2"
      "vm_ok ?ss vm2 {r}" "247 \<le> pages_left ?ss vm2"
    using section_step [OF 1(2) _ ok(2) al(1), of r ?rwx] 1(3) n by auto
  obtain vm3 where "PageTable_map_section ?ss r ?u (start_address ?u) ?rwx vm2 = Inr vm3"
    using section_step [OF 2(2) _ ok(3) al(2), of r ?rwx] 2(3) n by auto
  with r 1 2 show ?thesis by (simp add: PageTable_user_init_def Let_def)
qed

lemma user_init_isolation_witness:
  "\<exists>table vm' pa f. PageTable_user_init sample_sections (sample_section 0x80200000 0x80201000) 0x1000000 sample_vm =
       Inr (table, vm') \<and>
     sv39_translate (mem vm') (SatpRegister_from_PageTable table) 0x1000008 = Some (pa, f) \<and> flag_user f \<and>
     (0x1000000 :: addr) \<le> 0x1000008 \<and> pa = 0x80200000 + (0x1000008 - 0x1000000)"
proof -
  obtain table vm' where i: "PageTable_user_init sample_sections (sample_section 0x80200000 0x80201000) 0x1000000
      sample_vm = Inr (table, vm')"
    using sample_user_init by blast
  note init = PageTable_user_init_ok [OF sample_ok sample_user_sections i]
  have can: "canonical 0x1000008" by (simp add: canonical_low)
  have trees: "trees_ok (mem vm') (allocated sample_sections vm') (insert table {})"
    using init(1) by (simp add: vm_ok_def)
  obtain pa f where tr: "sv39_translate (mem vm') (SatpRegister_from_PageTable table) 0x1000008 = Some (pa, f)"
      "flag_user f"
    using sv39_lookup [OF trees insertI1 can] init(3) user_access [OF sample_user_sections can] user_flags(1)
    by (simp add: Let_def in_run_def rounds_def section_rounds_def sample_sections_def sample_section_def)
  have "pa = 0x80200000 + (0x1000008 - 0x1000000)"
    using user_init_isolation [OF sample_ok sample_user_sections i tr] by (simp add: sample_section_def)
  with i tr show ?thesis by auto
qed

definition user_init_pages :: "Sections \<Rightarrow> Section \<Rightarrow> nat" where
  "user_init_pages ss p = 1 + 2 * (rounds p + rounds (SECTION_GLOBAL_SPECIAL ss) + rounds (SECTION_USER_SPECIAL ss))"

lemma PageTable_user_init_pages:
  assumes ok: "vm_ok ss vm roots" and secs: "user_sections_ok ss p sv"
  shows "(pages_left ss vm < user_init_pages ss p \<and> PageTable_user_init ss p sv vm = Inl out_of_pages) \<or>
    (\<exists>table vm'. PageTable_user_init ss p sv vm = Inr (table, vm') \<and> pages_left ss vm \<le> pages_left ss vm' + user_init_pages ss p)"
proof (cases "pages_left ss vm = 0")
  case True
  then show ?thesis
    using Page_alloc_cases [OF ok] by (simp add: PageTable_user_init_def user_init_pages_def Let_def)
next
  case False
  let ?g = "SECTION_GLOBAL_SPECIAL ss" and ?u = "SECTION_USER_SPECIAL ss"
  let ?rwx = "PageTableEntryFlags_init True True True False"
  obtain t vm1 where a: "Page_alloc ss vm = Inr (t, vm1)" using Page_alloc_cases [OF ok] False by auto
  have secs': "section_ok p" "section_ok ?g" "section_ok ?u" "is_aligned sv PAGE_SIZE"
      "is_aligned (start_address ?g) PAGE_SIZE" "is_aligned (start_address ?u) PAGE_SIZE"
    using secs by (auto simp: user_sections_ok_def section_ok_def)
  note s1 = section_step [OF vm_ok_alloc(1) [OF ok a] insertI1 secs'(1,4), of "PageTableEntryFlags_init True True True True"]
  note left = Page_alloc_fresh(5) [OF ok a]
  show ?thesis
  proof (cases "\<exists>vm2. PageTable_map_section ss t p sv (PageTableEntryFlags_init True True True True) vm1 = Inr vm2")
    case False
    then show ?thesis using s1 a left by (auto simp: PageTable_user_init_def user_init_pages_def Let_def)
  next
    case True
    then obtain vm2 where m1: "PageTable_map_section ss t p sv (PageTableEntryFlags_init True True True True) vm1 = Inr vm2"
        "vm_ok ss vm2 (insert t roots)" "pages_left ss vm1 \<le> pages_left ss vm2 + 2 * rounds p"
      using s1 by auto
    note s2 = section_step [OF m1(2) insertI1 secs'(2,5), of ?rwx]
    show ?thesis
    proof (cases "\<exists>vm3. PageTable_map_section ss t ?g (start_address ?g) ?rwx vm2 = Inr vm3")
      case False
      then show ?thesis using s2 a left m1 by (auto simp: PageTable_user_init_def user_init_pages_def Let_def)
    next
      case True
      then obtain vm3 where m2: "PageTable_map_section ss t ?g (start_address ?g) ?rwx vm2 = Inr vm3"
          "vm_ok ss vm3 (insert t roots)" "pages_left ss vm2 \<le> pages_left ss vm3 + 2 * rounds ?g"
        using s2 by auto
      then show ?thesis
        using section_step [OF m2(2) insertI1 secs'(3,6), of ?rwx] a left m1 m2
        by (auto simp: PageTable_user_init_def user_init_pages_def Let_def)
    qed
  qed
qed

lemma PageTable_user_init_total:
  assumes "vm_ok ss vm roots" and "user_sections_ok ss p sv"
  shows "(pages_left ss vm < user_init_pages ss p \<and> PageTable_user_init ss p sv vm = Inl out_of_pages) \<or>
    (\<exists>table vm'. PageTable_user_init ss p sv vm = Inr (table, vm'))"
  using PageTable_user_init_pages [OF assms] by blast

lemma PageTable_user_init_frame:
  assumes "vm_ok ss vm roots" and "user_sections_ok ss p sv"
    and "PageTable_user_init ss p sv vm = Inr (table, vm')" and "r \<in> roots"
  shows "sv39_translate (mem vm') (SatpRegister_from_PageTable r) x =
     sv39_translate (mem vm) (SatpRegister_from_PageTable r) x"
proof (cases "canonical x")
  case True
  note init = PageTable_user_init_ok [OF assms(1,2,3)]
  have trees: "trees_ok (mem vm) (allocated ss vm) roots"
      "trees_ok (mem vm') (allocated ss vm') (insert table roots)"
    using assms(1) init(1) by (simp_all add: vm_ok_def)
  show ?thesis
    using sv39_lookup [OF trees(1) assms(4) True] sv39_lookup [OF trees(2) insertI2 [OF assms(4)] True]
      init(4) [OF assms(4)] by simp
next
  case False
  then show ?thesis by (simp add: sv39_translate_def)
qed

text \<open>
  C5: building a program's address space succeeds when \<open>user_init_pages\<close> pages are left and can only
  run out of pages otherwise; the new table is none of the tables there were, the invariant of all
  tables holds, and in every table there was every address is translated as before.
\<close>

theorem user_init_frame:
  assumes "vm_ok ss vm roots" and "user_sections_ok ss p sv"
  shows "(pages_left ss vm < user_init_pages ss p \<and> PageTable_user_init ss p sv vm = Inl out_of_pages) \<or>
    (\<exists>table vm'. PageTable_user_init ss p sv vm = Inr (table, vm') \<and> table \<notin> roots \<and>
       vm_ok ss vm' (insert table roots) \<and>
       (\<forall>r\<in>roots. \<forall>x. sv39_translate (mem vm') (SatpRegister_from_PageTable r) x =
         sv39_translate (mem vm) (SatpRegister_from_PageTable r) x))"
  using PageTable_user_init_total [OF assms] PageTable_user_init_ok(1,2) [OF assms]
    PageTable_user_init_frame [OF assms] by blast

lemma user_init_frame_witness:
  "\<exists>table vm'. PageTable_user_init sample_sections (sample_section 0x80200000 0x80201000) 0x1000000 sample_vm =
     Inr (table, vm') \<and> vm_ok sample_sections vm' {table}"
proof -
  have "user_init_pages sample_sections (sample_section 0x80200000 0x80201000) = 13"
    by (simp add: user_init_pages_def rounds_def section_rounds_def sample_sections_def sample_section_def)
  then show ?thesis
    using user_init_frame [OF sample_ok sample_user_sections] sample_pages by auto
qed

text \<open>
  The comparison \<open><=\<close> in the loop of \<open>PageTable_map_section\<close> maps one page more than a section
  whose end is the first address after it, as the linker scripts define it: user mode can read, write and
  execute the page that follows the program, which belongs to the next program.
\<close>

theorem user_init_maps_past_end:
  assumes "vm_ok ss vm roots" and secs: "user_sections_ok ss p sv"
    and "PageTable_user_init ss p sv vm = Inr (table, vm')"
    and size: "is_aligned (end_address p) PAGE_SIZE" and k: "k < PAGE_SIZE"
    and apart: "\<And>s. s \<in> {SECTION_GLOBAL_SPECIAL ss, SECTION_USER_SPECIAL ss} \<Longrightarrow>
       \<not> in_run (start_address s) (rounds s) (sv + Section_size p + k)"
  shows "\<exists>f. sv39_translate (mem vm') (SatpRegister_from_PageTable table) (sv + Section_size p + k) =
     Some (end_address p + k, f) \<and> flag_user f \<and> flag_read f \<and> flag_write f \<and> flag_execute f"
proof -
  note init = PageTable_user_init_ok [OF assms(1,2,3)]
  have "trees_ok (mem vm') (allocated ss vm') (insert table roots)" using init(1) by (simp add: vm_ok_def)
  from user_map_past_end [OF this insertI1 init(3) secs size k apart] show ?thesis by simp
qed

lemma user_init_maps_past_end_witness:
  "\<exists>table vm' f. PageTable_user_init sample_sections (sample_section 0x80200000 0x80201000) 0x1000000 sample_vm =
       Inr (table, vm') \<and>
     sv39_translate (mem vm') (SatpRegister_from_PageTable table) 0x1001010 = Some (0x80201010, f) \<and> flag_user f"
proof -
  obtain table vm' where i: "PageTable_user_init sample_sections (sample_section 0x80200000 0x80201000) 0x1000000
      sample_vm = Inr (table, vm')"
    using sample_user_init by blast
  have "\<exists>f. sv39_translate (mem vm') (SatpRegister_from_PageTable table)
      (0x1000000 + Section_size (sample_section 0x80200000 0x80201000) + 0x10) =
     Some (end_address (sample_section 0x80200000 0x80201000) + 0x10, f) \<and>
     flag_user f \<and> flag_read f \<and> flag_write f \<and> flag_execute f"
    by (rule user_init_maps_past_end [OF sample_ok sample_user_sections i])
      (auto simp: sample_section_def sample_sections_def page_aligned_mod PAGE_SIZE_def in_run_def rounds_def
        section_rounds_def Section_size_def)
  then show ?thesis using i by (auto simp: sample_section_def Section_size_def)
qed

end
