(* ===== verification/Kernel_Space.thy ===== *)
theory Kernel_Space
  imports Address_Init
begin

text \<open>
  The kernel's own address space: \<open>PageTable_kernel_init\<close> builds an identity mapping of the kernel's
  memory and devices that user mode cannot use, once.
\<close>

section \<open>Identity maps\<close>

definition identity_map :: "(9 word \<times> 9 word \<times> 9 word \<Rightarrow> (addr \<times> PageTableEntryFlags) option) \<Rightarrow> bool" where
  "identity_map M \<longleftrightarrow>
     (\<forall>v p f. M v = Some (p, f) \<longrightarrow>
        v = vpn p \<and> is_aligned p PAGE_SIZE \<and> unat p < 2 ^ 38 \<and> flag_read f \<and> \<not> flag_user f)"

lemma identity_map_empty [simp]: "identity_map Map.empty"
  by (simp add: identity_map_def)

lemma identity_map_update:
  assumes "identity_map M" and "is_aligned p PAGE_SIZE" and "unat p < 2 ^ 38" and "\<not> flag_user f"
  shows "identity_map (M(vpn p \<mapsto> mapped p f))"
proof -
  have "flag_read ((f OR 1) OR 2)" by (simp add: flag_read_def bit_simps bit_numeral_rec)
  then show ?thesis using assms by (simp add: identity_map_def mapped_def)
qed

lemma unat_next_page: "unat (p :: addr) + 4096 \<le> 2 ^ 38 \<Longrightarrow> unat (p + PAGE_SIZE) = unat p + 4096"
  by (subst unat_word_add_less) (simp_all add: PAGE_SIZE_def)

lemma identity_map_run:
  assumes "identity_map M" and "is_aligned p PAGE_SIZE" and "unat p + 4096 * n \<le> 2 ^ 38" and "\<not> flag_user f"
  shows "identity_map (run_map n p p f M)"
  using assms
proof (induction n arbitrary: p M)
  case 0
  then show ?case by simp
next
  case (Suc n)
  have "unat (p + PAGE_SIZE) = unat p + 4096" using Suc.prems(3) by (intro unat_next_page) simp
  moreover have "identity_map (M(vpn p \<mapsto> mapped p f))"
    using Suc.prems by (intro identity_map_update) simp_all
  ultimately show ?case using Suc.IH [OF _ page_add [OF Suc.prems(2)]] Suc.prems(3,4) by simp
qed

lemma run_map_dom: "v \<in> dom M \<Longrightarrow> v \<in> dom (run_map n p q f M)"
  by (induction n arbitrary: p q M) auto

lemma identity_translate:
  assumes M: "identity_map (lookup m r)" and ok: "trees_ok m A roots" and r: "r \<in> roots"
    and tr: "sv39_translate m (SatpRegister_from_PageTable r) x = Some (pa, f)"
  shows "pa = x \<and> \<not> flag_user f"
proof -
  have can: "canonical x" using tr by (auto simp: sv39_translate_def split: if_splits)
  obtain p g where p: "lookup m r (vpn x) = Some (p, g)" and acc: "leaf_access x (p, g) = Some (pa, f)"
    using sv39_lookup [OF ok r can] tr by (cases "lookup m r (vpn x)") auto
  have v: "vpn x = vpn p" "is_aligned p PAGE_SIZE" "unat p < 2 ^ 38" "\<not> flag_user g"
    using M [unfolded identity_map_def, rule_format, OF p] by simp_all
  let ?y = "take_bit 39 x"
  have "unat ?y div 4096 = unat p div 4096"
    using vpn_eq_div [of ?y p] v(1,3) unat_take_bit_39 [of x] by (simp add: vpn_take_bit)
  moreover have "unat p div 4096 < 2 ^ 26" using v(3) by simp
  ultimately have "unat ?y < 2 ^ 38" by simp
  then have x: "?y = x" by (rule canonical_low_eq [OF can])
  then have "page_of x = page_of p"
    using \<open>unat ?y div 4096 = unat p div 4096\<close> by (simp add: word_unat_eq_iff unat_page_of)
  then have "push_bit 12 (page_of x) = p"
    using page_of_times [OF v(2)] by (simp add: times_page)
  moreover have "push_bit 12 (page_of x) OR page_offset x = x"
    by (rule bit_word_eqI) (auto simp: page_of_def page_offset_take bit_simps)
  ultimately show ?thesis using acc v(4) by (auto simp: leaf_access_def split: if_splits)
qed

section \<open>The steps of the initialisation\<close>

text \<open>A step of the initialisation of root \<open>r\<close>: it keeps the invariant, an identity map, and what was mapped.\<close>

definition grows :: "Sections \<Rightarrow> PageTable set \<Rightarrow> PageTable \<Rightarrow> VM \<Rightarrow> VM \<Rightarrow> bool" where
  "grows ss roots r vm vm' \<longleftrightarrow>
     vm_ok ss vm' roots \<and> identity_map (lookup (mem vm') r) \<and>
     dom (lookup (mem vm) r) \<subseteq> dom (lookup (mem vm') r) \<and>
     (\<forall>r'\<in>roots. r' \<noteq> r \<longrightarrow> lookup (mem vm') r' = lookup (mem vm) r')"

lemma grows_refl: "vm_ok ss vm roots \<Longrightarrow> identity_map (lookup (mem vm) r) \<Longrightarrow> grows ss roots r vm vm"
  by (simp add: grows_def)

lemma grows_trans:
  assumes "grows ss roots r vm1 vm2" and "grows ss roots r vm2 vm3"
  shows "grows ss roots r vm1 vm3"
proof -
  have "dom (lookup (mem vm1) r) \<subseteq> dom (lookup (mem vm3) r)"
    by (rule subset_trans [of _ "dom (lookup (mem vm2) r)"]) (use assms in \<open>simp_all add: grows_def\<close>)
  with assms show ?thesis unfolding grows_def by simp
qed

lemma grows_run:
  assumes "vm_ok ss vm roots" and "r \<in> roots" and "identity_map (lookup (mem vm) r)"
    and "is_aligned p PAGE_SIZE" and "unat p + 4096 * n \<le> 2 ^ 38" and "\<not> flag_user f"
    and "map_pages (\<lambda>va pa. PageTable_map_address ss r va pa f) n p p vm = Inr vm'"
  shows "grows ss roots r vm vm'" and "lookup (mem vm') r = run_map n p p f (lookup (mem vm) r)"
proof -
  have "unat p + 4096 * n \<le> 2 ^ 56" using assms(5) by simp
  from page_table.map_pages_ok [OF assms(1,2,4,4) this, of f] assms(7)
  have "vm_ok ss vm' roots" and look: "lookup (mem vm') r = run_map n p p f (lookup (mem vm) r)"
    and "\<forall>r'\<in>roots. r' \<noteq> r \<longrightarrow> lookup (mem vm') r' = lookup (mem vm) r'"
    by auto
  moreover have "dom (lookup (mem vm) r) \<subseteq> dom (run_map n p p f (lookup (mem vm) r))"
    by (rule subsetI) (rule run_map_dom)
  ultimately show "grows ss roots r vm vm'" "lookup (mem vm') r = run_map n p p f (lookup (mem vm) r)"
    using identity_map_run [OF assms(3-6)] by (simp_all add: grows_def)
qed

definition device_ok :: "addr \<Rightarrow> u64 \<Rightarrow> bool" where
  "device_ok a len \<longleftrightarrow> is_aligned a PAGE_SIZE \<and> is_aligned len PAGE_SIZE \<and> unat a + unat len + 4096 \<le> 2 ^ 38"

definition board_ok :: "Board \<Rightarrow> bool" where
  "board_ok b \<longleftrightarrow> device_ok (sifive_test b) 0 \<and> device_ok (sifive_plic b) SIFIVE_PLIC_LEN \<and> device_ok (sifive_uart1 b) 0"

lemma boards_ok: "board_ok board_virt" "board_ok board_sifive_u" "board_ok board_unknown"
  by (simp_all add: board_ok_def device_ok_def board_virt_def board_sifive_u_def board_unknown_def
      page_aligned_mod PAGE_SIZE_def SIFIVE_PLIC_LEN_def)

lemma map_one: "map_pages f (Suc 0) p p s = f p p s"
  by (cases "f p p s") simp_all

lemma map_plic_run:
  assumes "unat end_p = unat page + 4096 * n"
  shows "map_plic_loop ss r page end_p vm =
     Some (map_pages (\<lambda>va pa. PageTable_map_address ss r va pa (PageTableEntryFlags_init True True False False))
       n page page vm)"
  using assms
proof (induction n arbitrary: page vm)
  case 0
  then show ?case by (subst map_plic_loop.simps) (simp add: word_less_nat_alt)
next
  case (Suc n)
  have "unat end_p < 2 ^ LENGTH(64)" by (rule unsigned_less)
  then have next_p: "unat (page + PAGE_SIZE) = unat page + 4096"
    using Suc.prems by (subst unat_word_add_less) (simp_all add: PAGE_SIZE_def)
  then have "unat end_p = unat (page + PAGE_SIZE) + 4096 * n" using Suc.prems by simp
  note IH = Suc.IH [OF this]
  have "page < end_p" using Suc.prems by (simp add: word_less_nat_alt)
  then show ?case
    by (subst map_plic_loop.simps) (simp add: IH split: sum.split)
qed

lemma PageTable_kernel_init_ok:
  assumes ok: "vm_ok ss vm roots" and mem_ok: "section_ok (SECTION_MEMORY ss)" and board: "board_ok b"
    and first: "kernel_page_table kt = 0" and res: "PageTable_kernel_init ss b kt vm = Inr (kt', vm')"
  shows "kernel_page_satp kt' = SatpRegister_from_PageTable (kernel_page_table kt')"
    "kernel_page_table kt' \<noteq> 0" "kernel_page_table kt' \<notin> roots"
    "vm_ok ss vm' (insert (kernel_page_table kt') roots)"
    "identity_map (lookup (mem vm') (kernel_page_table kt'))"
    "canonical x \<Longrightarrow> in_run (start_address (SECTION_MEMORY ss)) (rounds (SECTION_MEMORY ss)) x \<Longrightarrow>
       vpn x \<in> dom (lookup (mem vm') (kernel_page_table kt'))"
    "r \<in> roots \<Longrightarrow> lookup (mem vm') r = lookup (mem vm) r"
proof -
  let ?m = "SECTION_MEMORY ss" and ?rw = "PageTableEntryFlags_init True True False False"
  let ?rwx = "PageTableEntryFlags_init True True True False"
  define t where "t = kernel_page_table kt'"
  let ?R = "insert t roots"
  obtain vm1 vm2 vm3 vm4 where a: "Page_alloc ss vm = Inr (t, vm1)"
    and m1: "PageTable_map_section ss t ?m (start_address ?m) ?rwx vm1 = Inr vm2"
    and m2: "(if sifive_test b \<noteq> 0 then PageTable_map_address ss t (sifive_test b) (sifive_test b) ?rw vm2
        else Inr vm2) = Inr vm3"
    and m3: "(if sifive_plic b \<noteq> 0
        then (case map_plic_loop ss t (sifive_plic b) (sifive_plic b + SIFIVE_PLIC_LEN) vm3 of
                None \<Rightarrow> Inl Hangs | Some r \<Rightarrow> r) else Inr vm3) = Inr vm4"
    and m4: "(if sifive_uart1 b \<noteq> 0 then PageTable_map_address ss t (sifive_uart1 b) (sifive_uart1 b) ?rw vm4
        else Inr vm4) = Inr vm'"
    and kt': "kt' = \<lparr>kernel_page_table = t, kernel_page_satp = SatpRegister_from_PageTable t\<rparr>"
  proof -
    have r0: "bindr (Page_alloc ss vm) (\<lambda>(table, vm1).
        let kt1 = \<lparr>kernel_page_table = table, kernel_page_satp = SatpRegister_from_PageTable table\<rparr> in
        bindr (PageTable_map_section ss table ?m (start_address ?m) ?rwx vm1) (\<lambda>vm2.
        bindr (if sifive_test b \<noteq> 0 then PageTable_map_address ss table (sifive_test b) (sifive_test b) ?rw vm2
               else Inr vm2) (\<lambda>vm3.
        bindr (if sifive_plic b \<noteq> 0
               then (case map_plic_loop ss table (sifive_plic b) (sifive_plic b + SIFIVE_PLIC_LEN) vm3 of
                       None \<Rightarrow> Inl Hangs | Some r \<Rightarrow> r)
               else Inr vm3) (\<lambda>vm4.
        bindr (if sifive_uart1 b \<noteq> 0 then PageTable_map_address ss table (sifive_uart1 b) (sifive_uart1 b) ?rw vm4
               else Inr vm4) (\<lambda>vm5.
        Inr (kt1, vm5)))))) = Inr (kt', vm')"
      using res unfolding PageTable_kernel_init_def Let_def first by (simp only: simp_thms if_False)
    obtain t0 vm1 where 1: "Page_alloc ss vm = Inr (t0, vm1)" by (rule bindr_pairE [OF r0])
    note r1 = r0 [unfolded 1 bindr_simps prod.case Let_def]
    obtain vm2 where 2: "PageTable_map_section ss t0 ?m (start_address ?m) ?rwx vm1 = Inr vm2"
      by (rule bindr_InrE [OF r1])
    note r2 = r1 [unfolded 2 bindr_simps]
    obtain vm3 where 3: "(if sifive_test b \<noteq> 0 then PageTable_map_address ss t0 (sifive_test b) (sifive_test b) ?rw vm2
        else Inr vm2) = Inr vm3"
      by (rule bindr_InrE [OF r2])
    note r3 = r2 [unfolded 3 bindr_simps]
    obtain vm4 where 4: "(if sifive_plic b \<noteq> 0
        then (case map_plic_loop ss t0 (sifive_plic b) (sifive_plic b + SIFIVE_PLIC_LEN) vm3 of
                None \<Rightarrow> Inl Hangs | Some r \<Rightarrow> r) else Inr vm3) = Inr vm4"
      by (rule bindr_InrE [OF r3])
    note r4 = r3 [unfolded 4 bindr_simps]
    obtain vm5 where 5: "(if sifive_uart1 b \<noteq> 0 then PageTable_map_address ss t0 (sifive_uart1 b) (sifive_uart1 b) ?rw vm4
        else Inr vm4) = Inr vm5"
      by (rule bindr_InrE [OF r4])
    note r5 = r4 [unfolded 5 bindr_simps sum.inject prod.inject]
    then have "t0 = t" "vm5 = vm'" by (auto simp: t_def)
    with 1 2 3 4 5 r5 show thesis using that by blast
  qed
  note al = vm_ok_alloc [OF ok a]
  have m_al: "is_aligned (start_address ?m) PAGE_SIZE" using mem_ok by (simp add: section_ok_def)
  note s1 = section_step [OF al(1) insertI1 mem_ok m_al, of ?rwx]
  have look2: "lookup (mem vm2) t = run_map (rounds ?m) (start_address ?m) (start_address ?m) ?rwx Map.empty"
    and ok2: "vm_ok ss vm2 ?R" and old2: "\<And>r. r \<in> roots \<Longrightarrow> lookup (mem vm2) r = lookup (mem vm) r"
    using s1 m1 al(2,3,4) by auto
  have id2: "identity_map (lookup (mem vm2) t)"
    unfolding look2 using rounds_bound(1) [OF mem_ok] m_al user_flags by (intro identity_map_run) simp_all
  have one: "grows ss ?R t v v'"
    if "grows ss ?R t vm2 v" "device_ok d 0"
      "(if d \<noteq> 0 then PageTable_map_address ss t d d ?rw v else Inr v) = Inr v'" for d v v'
  proof (cases "d = 0")
    case True
    then show ?thesis using that by (auto simp: grows_def)
  next
    case False
    then have "map_pages (\<lambda>va pa. PageTable_map_address ss t va pa ?rw) (Suc 0) d d v = Inr v'"
      using that(3) by (simp only: map_one simp_thms if_True)
    then show ?thesis
      using that(1,2) user_flags(3)
      by (intro grows_run(1) [where n = "Suc 0" and p = d and f = ?rw])
        (simp_all add: grows_def device_ok_def del: map_pages.simps)
  qed
  have g2: "grows ss ?R t vm2 vm2" by (rule grows_refl [OF ok2 id2])
  have g3: "grows ss ?R t vm2 vm3"
    using grows_trans [OF g2 one [OF g2 _ m2]] board by (simp add: board_ok_def)
  have g4: "grows ss ?R t vm3 vm4"
  proof (cases "sifive_plic b = 0")
    case True
    then show ?thesis using m3 g3 by (auto simp: grows_def)
  next
    case False
    define n where "n = unat SIFIVE_PLIC_LEN div 4096"
    have d: "is_aligned (sifive_plic b) PAGE_SIZE" "unat (sifive_plic b) + unat SIFIVE_PLIC_LEN + 4096 \<le> 2 ^ 38"
      using board by (simp_all add: board_ok_def device_ok_def)
    have n: "4096 * n = unat SIFIVE_PLIC_LEN" by (simp add: n_def SIFIVE_PLIC_LEN_def)
    have "unat (sifive_plic b + SIFIVE_PLIC_LEN) = unat (sifive_plic b) + 4096 * n"
      using d n by (simp add: unat_word_add_less)
    from map_plic_run [OF this, of ss t vm3] m3 False
    have "map_pages (\<lambda>va pa. PageTable_map_address ss t va pa ?rw) n (sifive_plic b) (sifive_plic b) vm3 = Inr vm4"
      by simp
    then show ?thesis
      using g3 d n user_flags(3)
      by (intro grows_run(1) [where n = n and p = "sifive_plic b" and f = ?rw]) (simp_all add: grows_def)
  qed
  have g24: "grows ss ?R t vm2 vm4" by (rule grows_trans [OF g3 g4])
  have g: "grows ss ?R t vm2 vm'"
    using grows_trans [OF g24 one [OF g24 _ m4]] board by (simp add: board_ok_def)
  show "kernel_page_satp kt' = SatpRegister_from_PageTable (kernel_page_table kt')" by (simp add: kt')
  show "kernel_page_table kt' \<noteq> 0" using Page_alloc_fresh(1) [OF ok a] by (simp add: kt' page_ok_def)
  show "kernel_page_table kt' \<notin> roots" using al(4) by (simp add: kt')
  show "vm_ok ss vm' (insert (kernel_page_table kt') roots)"
    "identity_map (lookup (mem vm') (kernel_page_table kt'))"
    using g by (simp_all add: grows_def kt')
  show "vpn x \<in> dom (lookup (mem vm') (kernel_page_table kt'))"
    if "canonical x" "in_run (start_address ?m) (rounds ?m) x"
  proof -
    have "vpn x \<in> dom (lookup (mem vm2) t)"
      unfolding look2 using run_map_canonical [OF m_al rounds_bound(1) [OF mem_ok] that(1)] that(2)
      by (auto simp: in_run_def)
    then show ?thesis using g by (auto simp: grows_def kt')
  qed
  show "lookup (mem vm') r = lookup (mem vm) r" if "r \<in> roots"
    using g old2 [OF that] that al(4) by (auto simp: grows_def)
qed

text \<open>Where an address space that is the identity covers the memory section, the hardware translates it.\<close>

lemma identity_memory:
  assumes trees: "trees_ok m A roots" and r: "r \<in> roots" and id: "identity_map (lookup m r)"
    and mem_ok: "section_ok s" and x: "start_address s \<le> x" "x \<le> end_address s"
    and dom: "canonical x \<Longrightarrow> in_run (start_address s) (rounds s) x \<Longrightarrow> vpn x \<in> dom (lookup m r)"
  shows "\<exists>f. sv39_translate m (SatpRegister_from_PageTable r) x = Some (x, f)"
proof -
  have "unat x < 2 ^ 38" using x(2) mem_ok by (simp add: section_ok_def word_le_nat_alt)
  then have can: "canonical x" by (rule canonical_low)
  have "unat (start_address s) \<le> unat x" "unat x \<le> unat (end_address s)" using x by (simp_all add: word_le_nat_alt)
  moreover have "rounds s = (unat (end_address s) - unat (start_address s)) div 4096 + 1"
    using x by (simp add: rounds_def section_rounds_def)
  moreover have "d < 4096 * (d div 4096 + 1)" for d :: nat by (simp add: dividend_less_times_div)
  ultimately have "in_run (start_address s) (rounds s) x" by (simp add: in_run_def)
  then obtain p f where p: "lookup m r (vpn x) = Some (p, f)" using dom [OF can] by auto
  moreover have "flag_read f" using id [unfolded identity_map_def, rule_format, OF p] by simp
  ultimately have "\<exists>q. sv39_translate m (SatpRegister_from_PageTable r) x = Some q"
    using sv39_lookup [OF trees r can] by (simp add: leaf_access_def)
  then show ?thesis using identity_translate [OF id trees r] by auto
qed

text \<open>
  C9: the address space of \<open>PageTable_kernel_init\<close> is the identity, no part of it is accessible in
  user mode, and it covers the whole memory section; the page tables there were are not changed.
\<close>

theorem kernel_init_identity:
  assumes ok: "vm_ok ss vm roots" and mem_ok: "section_ok (SECTION_MEMORY ss)" and board: "board_ok b"
    and first: "kernel_page_table kt = 0" and res: "PageTable_kernel_init ss b kt vm = Inr (kt', vm')"
  shows "(\<forall>pa f. sv39_translate (mem vm') (kernel_page_satp kt') x = Some (pa, f) \<longrightarrow> pa = x \<and> \<not> flag_user f) \<and>
     (start_address (SECTION_MEMORY ss) \<le> x \<and> x \<le> end_address (SECTION_MEMORY ss) \<longrightarrow>
        (\<exists>f. sv39_translate (mem vm') (kernel_page_satp kt') x = Some (x, f))) \<and>
     vm_ok ss vm' (insert (kernel_page_table kt') roots) \<and>
     (\<forall>r\<in>roots. lookup (mem vm') r = lookup (mem vm) r)"
proof -
  note init = PageTable_kernel_init_ok [OF assms]
  let ?r = "kernel_page_table kt'" and ?m = "SECTION_MEMORY ss"
  have trees: "trees_ok (mem vm') (allocated ss vm') (insert ?r roots)" using init(4) by (simp add: vm_ok_def)
  note id = identity_translate [OF init(5) trees insertI1, folded init(1)]
  have "\<exists>f. sv39_translate (mem vm') (kernel_page_satp kt') x = Some (x, f)"
    if "start_address ?m \<le> x" "x \<le> end_address ?m"
    using identity_memory [OF trees insertI1 init(5) mem_ok that init(6)] by (simp add: init(1))
  with id init(4,7) show ?thesis by auto
qed

lemma sample_kernel_init:
  "\<exists>kt' vm'. PageTable_kernel_init sample_sections board_unknown \<lparr>kernel_page_table = 0, kernel_page_satp = 0\<rparr>
     sample_vm = Inr (kt', vm') \<and> 251 \<le> pages_left sample_sections vm'"
proof -
  let ?ss = sample_sections and ?rwx = "PageTableEntryFlags_init True True True False"
  let ?m = "SECTION_MEMORY ?ss"
  have ok: "section_ok ?m" and n: "rounds ?m = 2" and al: "is_aligned (start_address ?m) PAGE_SIZE"
    by (simp_all add: section_ok_def rounds_def section_rounds_def sample_sections_def sample_section_def
        page_aligned_mod PAGE_SIZE_def)
  obtain r vm where r: "Page_alloc ?ss sample_vm = Inr (r, vm)" "vm_ok ?ss vm {r}" "pages_left ?ss vm = 255"
    using sample_root by blast
  obtain vm1 where "PageTable_map_section ?ss r ?m (start_address ?m) ?rwx vm = Inr vm1" "251 \<le> pages_left ?ss vm1"
    using section_step [OF r(2) _ ok al, of r ?rwx] r(3) n by auto
  with r show ?thesis by (simp add: PageTable_kernel_init_def Let_def board_unknown_def)
qed

lemma kernel_init_identity_witness:
  "\<exists>kt' vm' f. PageTable_kernel_init sample_sections board_unknown \<lparr>kernel_page_table = 0, kernel_page_satp = 0\<rparr>
     sample_vm = Inr (kt', vm') \<and> sv39_translate (mem vm') (kernel_page_satp kt') 0x200abc = Some (0x200abc, f)"
proof -
  obtain kt' vm' where i: "PageTable_kernel_init sample_sections board_unknown
      \<lparr>kernel_page_table = 0, kernel_page_satp = 0\<rparr> sample_vm = Inr (kt', vm')"
    using sample_kernel_init by blast
  have "section_ok (SECTION_MEMORY sample_sections)"
    by (simp add: section_ok_def sample_sections_def sample_section_def page_aligned_mod PAGE_SIZE_def)
  from kernel_init_identity [OF sample_ok this boards_ok(3) _ i, of "0x200abc"]
  have "\<exists>f. sv39_translate (mem vm') (kernel_page_satp kt') 0x200abc = Some (0x200abc, f)"
    by (simp add: sample_sections_def sample_section_def)
  with i show ?thesis by blast
qed

end
