(* ===== verification/Kernel_IO.thy ===== *)
theory Kernel_IO
  imports Kernel_Lock Stdio_Print
begin

text \<open>
  kernel/io.c and kernel/file.c: the kernel's output.  A character goes to the line buffer of the running
  process or of the hart, under the io lock; the direct functions skip both.  The kernel's \<open>fputc\<close> is an
  output stream, so what libc/stdio.c proves of \<open>printf\<close> holds of the kernel's console.
\<close>

section \<open>Buffered output (io.c)\<close>

definition get_buffer :: "BufferRef \<Rightarrow> kernel \<Rightarrow> error + Buffer" where
  "get_buffer ref k =
     (case ref of
        HartBuffer i \<Rightarrow> bindr (deref (hart_scratches k) i) (\<lambda>hs. Inr (hart_buffer hs))
      | ProcessBuffer p \<Rightarrow> bindr (deref (processes k) p) (\<lambda>proc. Inr (proc_buffer proc)))"

definition put_buffer :: "BufferRef \<Rightarrow> Buffer \<Rightarrow> kernel \<Rightarrow> kernel" where
  "put_buffer ref b k =
     (case ref of
        HartBuffer i \<Rightarrow> k\<lparr>hart_scratches := (hart_scratches k)[i := (hart_scratches k ! i)\<lparr>hart_buffer := b\<rparr>]\<rparr>
      | ProcessBuffer p \<Rightarrow> k\<lparr>processes := (processes k)[p := (processes k ! p)\<lparr>proc_buffer := b\<rparr>]\<rparr>)"

text \<open>A null \<open>buffer\<close> means the buffer of the process or the hart.\<close>

definition putchar_buffer :: "u32 \<Rightarrow> BufferRef option \<Rightarrow> nat \<Rightarrow> kernel \<Rightarrow> error + u32 \<times> kernel" where
  "putchar_buffer character buffer h k =
     bindr (SpinLock_acquire io_spinlock h k) (\<lambda>(were_interrupts_enabled, k1).
     let ref = (case buffer of
           None \<Rightarrow> my_hart_or_process_output_buffer were_interrupts_enabled h k1
         | Some ref \<Rightarrow> ref) in
     bindr (get_buffer ref k1) (\<lambda>b.
     bindr (Buffer_output_handle_new b (ucast character) (sbi k1)) (\<lambda>(b1, trace).
     bindr (SpinLock_release io_spinlock h (put_buffer ref b1 (k1\<lparr>sbi := trace\<rparr>))) (\<lambda>k2.
     Inr (character, k2)))))"

section \<open>Direct output (io.c)\<close>

fun put_direct_str :: "byte list \<Rightarrow> SbiCall list \<Rightarrow> error + SbiCall list" where
  "put_direct_str [] trace = Inl OutOfBounds"
| "put_direct_str (c # str) trace =
     (if c \<noteq> 0 then put_direct_str str (sbi_putchar (ucast c) trace) else Inr trace)"

text \<open>The third argument is \<open>shift + 1\<close>.\<close>

fun put_direct_hex32_loop :: "u32 \<Rightarrow> bool \<Rightarrow> nat \<Rightarrow> SbiCall list \<Rightarrow> SbiCall list" where
  "put_direct_hex32_loop val started 0 trace = trace"
| "put_direct_hex32_loop val started (Suc shift) trace =
     (let place_value = (ucast (drop_bit (shift * 4) val AND 0xf) :: u64) in
      if place_value = 0 \<and> \<not> started \<and> shift \<noteq> 0
      then put_direct_hex32_loop val started shift trace
      else let ascii = (if place_value \<le> 9 then 48 + place_value else 97 + place_value - 10) in
        put_direct_hex32_loop val True shift (sbi_putchar (ucast ascii) trace))"

definition put_direct_hex32 :: "u32 \<Rightarrow> SbiCall list \<Rightarrow> SbiCall list" where
  "put_direct_hex32 val trace =
     put_direct_hex32_loop val False 8 (sbi_putchar 120 (sbi_putchar 48 trace))"

text \<open>A digit above 9 would \<open>continue\<close> without making \<open>div\<close> smaller, so it would never end.\<close>

function put_direct_u32_loop :: "u32 \<Rightarrow> u32 \<Rightarrow> bool \<Rightarrow> SbiCall list \<Rightarrow> error + SbiCall list" where
  "put_direct_u32_loop val dv started trace =
     (if dv > 0 then
        if val \<ge> dv
        then let digit = val div dv in
          if digit > 9 then Inl Hangs
          else put_direct_u32_loop (val - digit * dv) (dv div 10) True (sbi_putchar (48 + digit) trace)
        else put_direct_u32_loop val (dv div 10) started (if started then sbi_putchar 48 trace else trace)
      else Inr trace)"
  by pat_completeness auto

termination
  by (relation "measure (\<lambda>(val, dv, started, trace). unat dv)") (auto intro: unat_div_ten_less)

declare put_direct_u32_loop.simps [simp del]

definition put_direct_u32 :: "u32 \<Rightarrow> SbiCall list \<Rightarrow> error + SbiCall list" where
  "put_direct_u32 val trace =
     (if val = 0 then Inr (sbi_putchar 48 trace) else put_direct_u32_loop val 1000000000 False trace)"

section \<open>Files (file.c)\<close>

datatype FileType = FILETYPE_STDOUT | FILETYPE_STDIN | FILETYPE_BUFFER

record File =
  file_type :: FileType
  file_data :: "BufferRef option"

definition File_stdout :: File where
  "File_stdout = \<lparr>file_type = FILETYPE_STDOUT, file_data = None\<rparr>"

definition File_stdin :: File where
  "File_stdin = \<lparr>file_type = FILETYPE_STDIN, file_data = None\<rparr>"

definition EOF :: u32 where "EOF = -1"

definition fopen :: "byte list option \<Rightarrow> byte list option \<Rightarrow> error + File option" where
  "fopen filename mode =
     (let matches = (\<lambda>name m. bindr (strcmp filename (Some (bytes_of name @ [0]))) (\<lambda>r.
            if r = 0 then bindr (strcmp mode (Some (bytes_of m @ [0]))) (\<lambda>r'. Inr (r' = 0)) else Inr False)) in
      bindr (matches ''stdout'' ''w'') (\<lambda>out.
        if out then Inr (Some File_stdout)
        else bindr (matches ''stdin'' ''r'') (\<lambda>input.
          Inr (if input then Some File_stdin else None))))"

definition fclose :: "File option \<Rightarrow> u32" where "fclose stream = 0"
definition fflush :: "File option \<Rightarrow> u32" where "fflush stream = 0"

text \<open>\<open>value\<close> is what the firmware answers.\<close>

definition fgetc :: "u64 \<Rightarrow> File option \<Rightarrow> kernel \<Rightarrow> error + u32 \<times> kernel" where
  "fgetc value stream k =
     (case stream of None \<Rightarrow> Inl NullDeref
      | Some f \<Rightarrow>
          if file_type f = FILETYPE_STDIN then Inr (ucast value, k\<lparr>sbi := sbi_getchar (sbi k)\<rparr>)
          else Inr (EOF, k))"

definition fputc :: "nat \<Rightarrow> (File option, kernel) fputc_fun" where
  "fputc h ch stream k =
     (case stream of None \<Rightarrow> Inl NullDeref
      | Some f \<Rightarrow>
          if file_type f = FILETYPE_STDOUT
          then bindr (putchar_buffer ch None h k) (\<lambda>(c, k1). Inr (ch, k1))
          else Inr (EOF, k))"

abbreviation kprintf :: "nat \<Rightarrow> byte list \<Rightarrow> vararg list \<Rightarrow> kernel \<Rightarrow> error + u32 \<times> kernel" where
  "kprintf h \<equiv> printf (fputc h) (Some File_stdout)"

section \<open>What output leaves alone\<close>

text \<open>
  Everything but the console, the line buffers, the io lock and the saved interrupt state of a scratch,
  which only means something while locks are held.
\<close>

definition strip_hart :: "HartScratch \<Rightarrow> TrapFrame \<times> nat option \<times> u32" where
  "strip_hart hs = (hart_frame hs, current_process hs, lock_depth hs)"

definition strip_process :: "Process \<Rightarrow> byte \<times> ProcessState \<times> TrapFrame \<times> PageTable" where
  "strip_process p = (proc_id p, proc_state p, proc_frame p, proc_page_table p)"

definition output_frame :: "kernel \<Rightarrow> kernel \<Rightarrow> bool" where
  "output_frame k k' \<longleftrightarrow> csrs k' = csrs k \<and> vm k' = vm k \<and> kernel_table k' = kernel_table k \<and>
     uart1_buffer k' = uart1_buffer k \<and> mmio k' = mmio k \<and>
     map strip_hart (hart_scratches k') = map strip_hart (hart_scratches k) \<and>
     map strip_process (processes k') = map strip_process (processes k) \<and>
     (\<forall>l. l \<noteq> io_spinlock \<longrightarrow> locks k' l = locks k l)"

lemma output_frame_refl [simp, intro]: "output_frame k k" by (simp add: output_frame_def)

lemma output_frame_trans: "output_frame k k1 \<Longrightarrow> output_frame k1 k2 \<Longrightarrow> output_frame k k2"
  by (simp add: output_frame_def)

lemma output_frame_length:
  assumes "output_frame k k'"
  shows "length (hart_scratches k') = length (hart_scratches k)" "length (processes k') = length (processes k)"
  using assms map_eq_imp_length_eq unfolding output_frame_def by blast+

lemma output_frame_hart:
  assumes "output_frame k k'" and "h < length (hart_scratches k)"
  shows "strip_hart (my_hart_scratch h k') = strip_hart (my_hart_scratch h k)"
  using assms output_frame_length [OF assms(1)] nth_map [of h _ strip_hart]
  unfolding output_frame_def my_hart_scratch_def by metis

lemma output_frame_process:
  assumes "output_frame k k'" and "p < length (processes k)"
  shows "strip_process (processes k' ! p) = strip_process (processes k ! p)"
  using assms output_frame_length [OF assms(1)] nth_map [of p _ strip_process]
  unfolding output_frame_def by metis

lemma hart_ok_frame:
  assumes "output_frame k k'" and "hart_ok h k"
  shows "hart_ok h k'"
  using assms output_frame_length(1) [OF assms(1)] output_frame_hart [OF assms(1), of h]
  by (auto simp: hart_ok_def strip_hart_def traps_enabled_def output_frame_def)

section \<open>One character\<close>

text \<open>The buffer that a hart's output goes to.\<close>

definition selected :: "nat \<Rightarrow> kernel \<Rightarrow> BufferRef" where
  "selected h k = my_hart_or_process_output_buffer (traps_enabled h k) h k"

lemma selected_frame:
  assumes "output_frame k k'" and "h < length (hart_scratches k)"
  shows "selected h k' = selected h k"
  using output_frame_hart [OF assms] assms(1)
  by (auto simp: selected_def my_hart_or_process_output_buffer_def strip_hart_def traps_enabled_def output_frame_def)

lemma get_buffer_entered:
  "h < length (hart_scratches k) \<Longrightarrow> get_buffer ref (entered l h k) = get_buffer ref k"
  by (cases ref) (auto simp: get_buffer_def entered_def Let_def my_hart_scratch_def deref_def nth_list_update)

lemma get_put_buffer:
  assumes "get_buffer ref k = Inr b0"
  shows "get_buffer r (put_buffer ref b k) = (if r = ref then Inr b else get_buffer r k)"
  using assms
  by (cases ref; cases r) (auto simp: get_buffer_def put_buffer_def deref_def nth_list_update split: if_splits)

lemma map_list_update_same: "f v = f (xs ! i) \<Longrightarrow> map f (xs[i := v]) = map f xs"
  by (cases "i < length xs") (simp_all add: map_update list_update_beyond, metis list_update_id nth_map)

lemma put_buffer_strip:
  "map strip_hart (hart_scratches (put_buffer ref b k)) = map strip_hart (hart_scratches k)"
  "map strip_process (processes (put_buffer ref b k)) = map strip_process (processes k)"
  "csrs (put_buffer ref b k) = csrs k" "locks (put_buffer ref b k) = locks k" "sbi (put_buffer ref b k) = sbi k"
  "vm (put_buffer ref b k) = vm k" "kernel_table (put_buffer ref b k) = kernel_table k"
  "uart1_buffer (put_buffer ref b k) = uart1_buffer k" "mmio (put_buffer ref b k) = mmio k"
  "length (hart_scratches (put_buffer ref b k)) = length (hart_scratches k)"
  by (cases ref; simp add: put_buffer_def map_list_update_same strip_hart_def strip_process_def)+

lemma nth_update_field:
  "f v = f (xs ! i) \<Longrightarrow> f (xs[i := v] ! h) = f (xs ! h)"
  by (cases "i = h"; cases "i < length xs") (simp_all add: list_update_beyond)

lemma put_buffer_lock_fields:
  "lock_depth (my_hart_scratch h (put_buffer ref b k)) = lock_depth (my_hart_scratch h k)"
  "interrupts_before_locking (my_hart_scratch h (put_buffer ref b k)) = interrupts_before_locking (my_hart_scratch h k)"
  by (cases ref; simp add: put_buffer_def my_hart_scratch_def nth_update_field)+

lemma strip_hart_release:
  assumes "h < length (hart_scratches k)" and "map strip_hart (hart_scratches k1) =
      map strip_hart ((hart_scratches k)[h := (my_hart_scratch h k)\<lparr>interrupts_before_locking := x, lock_depth := y\<rparr>])"
  shows "map strip_hart ((hart_scratches k1)[h := (my_hart_scratch h k1)\<lparr>lock_depth := lock_depth (my_hart_scratch h k)\<rparr>])
    = map strip_hart (hart_scratches k)"
proof -
  have len: "length (hart_scratches k1) = length (hart_scratches k)"
    using map_eq_imp_length_eq [OF assms(2)] by simp
  have nth: "strip_hart (hart_scratches k1 ! i) = strip_hart ((hart_scratches k)[h := (my_hart_scratch h k)
      \<lparr>interrupts_before_locking := x, lock_depth := y\<rparr>] ! i)" if "i < length (hart_scratches k)" for i
    using arg_cong [OF assms(2), of "\<lambda>l. l ! i"] that len by simp
  show ?thesis
  proof (rule nth_equalityI)
    fix i assume "i < length (map strip_hart ((hart_scratches k1)[h := (my_hart_scratch h k1)
        \<lparr>lock_depth := lock_depth (my_hart_scratch h k)\<rparr>]))"
    then have i: "i < length (hart_scratches k)" using len by simp
    then show "map strip_hart ((hart_scratches k1)[h := (my_hart_scratch h k1)
        \<lparr>lock_depth := lock_depth (my_hart_scratch h k)\<rparr>]) ! i = map strip_hart (hart_scratches k) ! i"
      using nth [OF i] assms(1) len
      by (cases "i = h") (simp_all add: strip_hart_def my_hart_scratch_def)
  qed (simp add: len)
qed

lemma putchar_buffer_ok:
  assumes ok: "hart_ok h k" and free: "locked (locks k io_spinlock) = 0"
    and ref: "ref = (case buffer of None \<Rightarrow> selected h k | Some r \<Rightarrow> r)"
    and b: "get_buffer ref k = Inr b" "Buffer_ok b"
  shows "\<exists>b' k'. putchar_buffer ch buffer h k = Inr (ch, k') \<and> output_frame k k' \<and>
     locked (locks k' io_spinlock) = 0 \<and> get_buffer ref k' = Inr b' \<and> Buffer_ok b' \<and>
     (\<forall>r. r \<noteq> ref \<longrightarrow> get_buffer r k' = get_buffer r k) \<and>
     console (sbi k') @ pending b' = console (sbi k) @ pending b @ [ucast ch] \<and>
     interrupts_before_locking (my_hart_scratch h k') = lock_flag h k \<and> (ucast ch = (10 :: byte) \<longrightarrow> pending b' = [])"
proof -
  have h: "h < length (hart_scratches k)" using ok by (simp add: hart_ok_def)
  let ?k1 = "entered io_spinlock h k"
  have ref1: "(case buffer of None \<Rightarrow> my_hart_or_process_output_buffer (traps_enabled h k) h ?k1 | Some r \<Rightarrow> r) = ref"
    unfolding ref by (cases buffer)
      (simp_all add: selected_def my_hart_or_process_output_buffer_def entered_fields [OF h])
  obtain b' tr where new: "Buffer_output_handle_new b (ucast ch) (sbi k) = Inr (b', tr)" "Buffer_ok b'"
      "console tr @ pending b' = console (sbi k) @ pending b @ [ucast ch]" "ucast ch = (10 :: byte) \<longrightarrow> pending b' = []"
    using Buffer_handle_new_ok [OF b(2), of "ucast ch" "sbi k"] by auto
  define k2 where "k2 = put_buffer ref b' (?k1\<lparr>sbi := tr\<rparr>)"
  have "my_hart_scratch h (?k1\<lparr>sbi := tr\<rparr>) = my_hart_scratch h ?k1" by simp
  then have body: "body_keeps h ?k1 k2"
    by (simp add: k2_def body_keeps_def put_buffer_strip put_buffer_lock_fields)
  define k3 where "k3 = k2\<lparr>csrs := csrs k, locks := (locks k2)(io_spinlock := \<lparr>locked = 0, hart_owner = -1\<rparr>),
     hart_scratches := (hart_scratches k2)[h := (my_hart_scratch h k2)\<lparr>lock_depth := lock_depth (my_hart_scratch h k)\<rparr>]\<rparr>"
  have run: "putchar_buffer ch buffer h k = Inr (ch, k3)"
    using free ref1 get_buffer_entered [OF h, of ref io_spinlock] b(1) new(1) SpinLock_release_after [OF ok body]
    by (simp add: putchar_buffer_def SpinLock_acquire_eq Let_def entered_fields [OF h] k2_def k3_def)
  have get1: "get_buffer r (?k1\<lparr>sbi := tr\<rparr>) = get_buffer r k" for r
    using get_buffer_entered [OF h, of r io_spinlock] by (cases r) (simp_all add: get_buffer_def)
  have get3: "get_buffer r k3 = get_buffer r k2" for r
    by (cases r) (auto simp: k3_def get_buffer_def deref_def my_hart_scratch_def nth_update_field [of hart_buffer])
  have get: "get_buffer r k3 = (if r = ref then Inr b' else get_buffer r k)" for r
    using get_put_buffer [of ref "?k1\<lparr>sbi := tr\<rparr>" b r b'] get1 b(1) by (simp add: get3 k2_def)
  have "map strip_hart (hart_scratches k2) = map strip_hart ((hart_scratches k)[h := (my_hart_scratch h k)
      \<lparr>interrupts_before_locking := (if lock_depth (my_hart_scratch h k) = 0 then traps_enabled h k
          else interrupts_before_locking (my_hart_scratch h k)), lock_depth := lock_depth (my_hart_scratch h k) + 1\<rparr>])"
    by (simp add: k2_def put_buffer_strip) (simp add: entered_def Let_def)
  note harts = strip_hart_release [OF h this]
  have "output_frame k k3"
    unfolding output_frame_def
    using harts by (simp add: k3_def k2_def put_buffer_strip entered_fields [OF h])
      (simp add: entered_def Let_def)
  moreover have "locked (locks k3 io_spinlock) = 0" "sbi k3 = tr"
    by (simp_all add: k3_def k2_def put_buffer_strip)
  moreover have "interrupts_before_locking (my_hart_scratch h k3) = lock_flag h k"
  proof -
    have "length (hart_scratches k2) = length (hart_scratches k)"
      by (simp add: k2_def put_buffer_strip) (simp add: entered_def Let_def)
    then have "interrupts_before_locking (my_hart_scratch h k3) = interrupts_before_locking (my_hart_scratch h k2)"
      using h by (simp add: k3_def my_hart_scratch_def)
    also have "\<dots> = interrupts_before_locking (my_hart_scratch h ?k1)"
      by (simp add: k2_def put_buffer_lock_fields)
    also have "\<dots> = lock_flag h k" using h by (simp add: entered_def Let_def my_hart_scratch_def lock_flag_def)
    finally show ?thesis .
  qed
  ultimately show ?thesis using run get new by auto
qed

section \<open>The kernel's output stream\<close>

text \<open>
  A hart can print when its lock depth does not overflow, nobody holds the io lock, and the buffer
  its output goes to is well formed.
\<close>

definition io_ready :: "nat \<Rightarrow> kernel \<Rightarrow> bool" where
  "io_ready h k \<longleftrightarrow> hart_ok h k \<and> locked (locks k io_spinlock) = 0 \<and>
     (case get_buffer (selected h k) k of Inl e \<Rightarrow> False | Inr b \<Rightarrow> Buffer_ok b)"

definition kernel_out :: "nat \<Rightarrow> kernel \<Rightarrow> byte list" where
  "kernel_out h k = console (sbi k) @ (case get_buffer (selected h k) k of Inl e \<Rightarrow> [] | Inr b \<Rightarrow> pending b)"

lemma io_readyE:
  assumes "io_ready h k"
  obtains b where "hart_ok h k" "locked (locks k io_spinlock) = 0" "get_buffer (selected h k) k = Inr b" "Buffer_ok b"
  using assms by (auto simp: io_ready_def split: sum.splits)

lemma fputc_ok:
  assumes "io_ready h k"
  shows "\<exists>k'. fputc h ch (Some File_stdout) k = Inr (ch, k') \<and> io_ready h k' \<and> output_frame k k' \<and>
     kernel_out h k' = kernel_out h k @ [ucast ch]"
proof -
  obtain b where b: "hart_ok h k" "locked (locks k io_spinlock) = 0" "get_buffer (selected h k) k = Inr b" "Buffer_ok b"
    using assms by (rule io_readyE)
  obtain b' k' where put: "putchar_buffer ch None h k = Inr (ch, k')" and frame: "output_frame k k'"
    and free: "locked (locks k' io_spinlock) = 0" and get: "get_buffer (selected h k) k' = Inr b'" "Buffer_ok b'"
    and out: "console (sbi k') @ pending b' = console (sbi k) @ pending b @ [ucast ch]"
    using putchar_buffer_ok [OF b(1,2) _ b(3,4), of None ch] by auto
  have sel: "selected h k' = selected h k" using selected_frame [OF frame] b(1) by (simp add: hart_ok_def)
  have "io_ready h k'" using hart_ok_frame [OF frame b(1)] free get by (simp add: io_ready_def sel)
  moreover have "kernel_out h k' = kernel_out h k @ [ucast ch]" using out get b(3) by (simp add: kernel_out_def sel)
  ultimately show ?thesis using put frame by (simp add: fputc_def File_stdout_def)
qed

interpretation kernel_stream: output_stream "fputc h" "Some File_stdout"
  "\<lambda>k. io_ready h k \<and> output_frame k0 k" "kernel_out h" for h k0
proof unfold_locales
  fix w ch
  assume w: "io_ready h w \<and> output_frame k0 w"
  then obtain k' where "fputc h ch (Some File_stdout) w = Inr (ch, k')" "io_ready h k'" "output_frame w k'"
      "kernel_out h k' = kernel_out h w @ [ucast ch]"
    using fputc_ok [of h w ch] by blast
  with w show "\<exists>r w'. fputc h ch (Some File_stdout) w = Inr (r, w') \<and> (io_ready h w' \<and> output_frame k0 w') \<and>
      kernel_out h w' = kernel_out h w @ [ucast ch]"
    using output_frame_trans by blast
qed

lemma kprintf_ok:
  assumes "io_ready h k" and "\<forall>d\<in>set ds. directive_ok d" and "format_text ds args = Some (text, args')"
  shows "\<exists>k'. kprintf h (format_string ds @ 0 # rest) args k = Inr (of_nat (length text), k') \<and>
     io_ready h k' \<and> output_frame k k' \<and> kernel_out h k' = kernel_out h k @ map ucast text"
  using kernel_stream.printf_format [of h k k ds args "text" args' rest] assms by auto

text \<open>
  C30: the kernel's \<open>printf\<close> of a well-formed format puts exactly the text the format means after
  what the hart has put so far, on the console or still in the line buffer, returns the number of
  characters, and leaves the rest of the kernel's state as it was: no lock is left taken, no process, page
  table or control register changes.
\<close>

theorem kernel_printf_correct:
  assumes "io_ready h k" and "\<forall>d\<in>set ds. directive_ok d" and "format_text ds args = Some (text, args')"
  shows "\<exists>k'. kprintf h (format_string ds @ 0 # rest) args k = Inr (of_nat (length text), k') \<and>
     io_ready h k' \<and> output_frame k k' \<and> kernel_out h k' = kernel_out h k @ map ucast text"
  using kprintf_ok [OF assms] .

lemma sample_io_ready: "h < n \<Longrightarrow> io_ready h (sample_kernel n ps)"
  by (simp add: io_ready_def sample_hart_ok selected_def my_hart_or_process_output_buffer_def get_buffer_def
      deref_def Buffer_ok_def)

lemma sample_kernel_out: "h < n \<Longrightarrow> kernel_out h (sample_kernel n ps) = []"
  by (simp add: kernel_out_def selected_def my_hart_or_process_output_buffer_def get_buffer_def deref_def pending_def)

lemma kernel_printf_correct_witness:
  "\<exists>k'. kprintf 0 (bytes_of ''pid %d'' @ [0]) [VWord 7] (sample_kernel 1 []) = Inr (5, k') \<and>
     kernel_out 0 k' = bytes_of ''pid 7''"
proof -
  let ?ds = "map Lit (bytes_of ''pid '') @ [Conv False False False NoWidth 0 ConvSigned]"
  have f: "format_string ?ds = bytes_of ''pid %d''" by (simp add: format_string_def bytes_of_def)
  have t: "format_text ?ds [VWord 7] = Some (chars (bytes_of ''pid 7''), [])"
    by (simp add: bytes_of_def pad_def signed_text_def radix.simps digit_char_def)
  have d: "\<forall>d\<in>set ?ds. directive_ok d" by (simp add: bytes_of_def)
  have "kernel_out 0 (sample_kernel 1 []) = []" by (rule sample_kernel_out) simp
  then show ?thesis
    using kernel_printf_correct [OF sample_io_ready [of 0 1 "[]"] d t, of "[]", unfolded f]
    by (auto simp: map_ucast_chars bytes_of_def)
qed

section \<open>Numbers put directly\<close>

lemma console_hex_loop:
  "console (put_direct_hex32_loop v started k trace) = console trace @ topdown 16 (unat v) started k"
proof (induction k arbitrary: started trace)
  case 0
  then show ?case by simp
next
  case (Suc k)
  define d where "d = (ucast (drop_bit (k * 4) v AND 0xf) :: u64)"
  have "drop_bit (k * 4) v AND 0xf = drop_bit (k * 4) v AND mask 4" by (simp add: mask_eq_exp_minus_1)
  then have ud: "unat d = unat v div 16 ^ k mod 16"
    by (simp add: d_def unat_drop_and_mask mult.commute [of k] power_mult)
  then have "unat d < 16" by simp
  note digit = hex_digit_ucast [OF this]
  have zero: "d = 0 \<longleftrightarrow> unat v div 16 ^ k mod 16 = 0"
    unfolding ud [symmetric] by (simp add: unat_eq_0)
  have "put_direct_hex32_loop v started (Suc k) trace =
      (if d = 0 \<and> \<not> started \<and> k \<noteq> 0 then put_direct_hex32_loop v started k trace
       else put_direct_hex32_loop v True k (sbi_putchar (ucast (digit_char (unat d))) trace))"
    by (simp only: put_direct_hex32_loop.simps Let_def d_def [symmetric] digit)
  then show ?case unfolding zero ud by (simp add: Suc.IH Let_def)
qed

lemma console_u32_loop:
  assumes "unat dv = 10 ^ m div 10" and "unat v < 10 ^ m" and "started \<or> v \<noteq> 0 \<or> m = 0"
  shows "\<exists>t. put_direct_u32_loop v dv started trace = Inr t \<and>
     console t = console trace @ topdown 10 (unat v) started m"
  using assms
proof (induction m arbitrary: v dv started trace)
  case 0
  then have "dv = 0" by (simp add: unat_eq_0)
  then show ?case by (subst put_direct_u32_loop.simps) simp
next
  case (Suc k)
  note unfold = put_direct_u32_loop.simps [of v dv started trace]
  from Suc.prems have dv: "unat dv = 10 ^ k" and v: "unat v div 10 ^ k < 10"
    by (simp_all add: div_less_iff_less_mult)
  then have pos: "0 < dv" by (simp add: word_less_nat_alt)
  have next_dv: "unat (dv div 10) = 10 ^ k div 10" by (simp add: unat_div dv)
  show ?case
  proof (cases "dv \<le> v")
    case True
    have digit: "unat (v div dv) = unat v div 10 ^ k" by (simp add: unat_div dv)
    have rest: "v - v div dv * dv = v mod dv" by (simp add: minus_div_mult_eq_mod)
    have small: "\<not> 9 < v div dv" using digit v by (simp add: word_less_nat_alt)
    have "(ucast (ucast (48 + v div dv) :: u32) :: byte) = digit_char (unat v div 10 ^ k)"
      using ucast_decimal_digit [of "v div dv"] digit v by simp
    moreover have "unat (v mod dv) = unat v mod 10 ^ k" by (simp add: unat_mod dv)
    moreover from True dv have "1 \<le> unat v div 10 ^ k"
      by (simp add: word_le_nat_alt less_eq_div_iff_mult_less_eq)
    ultimately show ?thesis
      using True pos v small Suc.IH [OF next_dv, of "v mod dv" True "sbi_putchar (48 + v div dv) trace"]
      by (simp add: unfold rest topdown_mod Let_def)
  next
    case False
    then have small: "unat v < 10 ^ k" using dv by (simp add: word_le_nat_alt)
    with Suc.prems have "started \<or> k \<noteq> 0" by (cases k) (auto simp: unat_eq_0)
    with False pos small Suc.prems(3) show ?thesis
      using Suc.IH [OF next_dv small, of started "if started then sbi_putchar 48 trace else trace"]
      by (auto simp: unfold Let_def digit_char_def)
  qed
qed

text \<open>
  The direct functions, which a panic prints with, put the number on the console at once: in
  hexadecimal after \<open>0x\<close> and in decimal, without leading zeros; the \<open>continue\<close> that would repeat for
  ever is never reached.
\<close>

theorem put_direct_numbers:
  "console (put_direct_hex32 v trace) = console trace @ bytes_of ''0x'' @ radix 16 (unat v) \<and>
   (\<exists>t. put_direct_u32 v trace = Inr t \<and> console t = console trace @ radix 10 (unat v))"
proof -
  have small: "unat v < 16 ^ 8" "unat v < 10 ^ 10"
    by (rule order_less_le_trans [OF unsigned_less], simp)+
  have "console (put_direct_hex32 v trace) = console trace @ bytes_of ''0x'' @ radix 16 (unat v)"
    using small(1) topdown_radix [of 16 "unat v" 7] by (simp add: put_direct_hex32_def console_hex_loop bytes_of_def)
  moreover have "\<exists>t. put_direct_u32 v trace = Inr t \<and> console t = console trace @ radix 10 (unat v)"
  proof (cases "v = 0")
    case True
    then show ?thesis by (simp add: put_direct_u32_def radix_small digit_char_def)
  next
    case False
    then show ?thesis
      using small(2) console_u32_loop [of 1000000000 10 v False trace] topdown_radix [of 10 "unat v" 9]
      by (simp add: put_direct_u32_def)
  qed
  ultimately show ?thesis by blast
qed

lemma put_direct_str_ok: "cstring str s \<Longrightarrow> \<exists>t. put_direct_str str trace = Inr t \<and> console t = console trace @ s"
proof (induction str arbitrary: s trace)
  case Nil
  then show ?case by (simp add: cstring_def)
next
  case (Cons c str)
  show ?case
  proof (cases "c = 0")
    case True
    then show ?thesis using Cons.prems by (simp add: cstring_def)
  next
    case False
    then have "cstring str (tl s)" "s = c # tl s" using Cons.prems by (auto simp: cstring_def)
    with Cons.IH [of "tl s" "sbi_putchar (ucast c) trace"] False show ?thesis by auto
  qed
qed

end
