(* ===== verification/Process_Switch.thy ===== *)
theory Process_Switch
  imports Kernel_IO
begin

text \<open>
  kernel/process/process.c, kernel/process/switch.c and kernel/timer.c: the round-robin choice of the
  next process, the switch that saves the running process and loads the chosen one into the hart's
  scratch, and the timer.  The addresses of code are the linker's: an argument.
\<close>

section \<open>Processes (process.c)\<close>

definition USER_PROGRAM_BASE :: addr where "USER_PROGRAM_BASE = 0x1000000"

definition Process_is_kernel_process :: "Process \<Rightarrow> kernel \<Rightarrow> bool" where
  "Process_is_kernel_process proc k \<longleftrightarrow> proc_page_table proc = kernel_page_table (kernel_table k)"

definition my_pid :: "nat \<Rightarrow> kernel \<Rightarrow> error + byte \<times> kernel" where
  "my_pid h k =
     (let (current, k1) = my_hart_current_process h k in
      case current of
        None \<Rightarrow> Inl (Panic ''my_pid called while no current process'')
      | Some p \<Rightarrow> bindr (deref (processes k1) p) (\<lambda>proc. Inr (proc_id proc, k1)))"

definition yield :: "nat \<Rightarrow> kernel \<Rightarrow> kernel" where
  "yield = trigger_supervisor_software_interrupt"

section \<open>The kernel's page table (virtual\_memory/page\_table.c)\<close>

text \<open>\<open>PageTable_activate_kernel\<close>; the fences around it order the memory accesses of the machine, which are in order here.\<close>

definition PageTable_activate_kernel :: "nat \<Rightarrow> kernel \<Rightarrow> kernel" where
  "PageTable_activate_kernel h k = snd (csr_write satp (kernel_page_satp (kernel_table k)) h k)"

section \<open>The timer (timer.c)\<close>

text \<open>\<open>rdtime\<close> and a read of the register \<open>time\<close> give the same counter.\<close>

definition read_time :: "Board \<Rightarrow> nat \<Rightarrow> kernel \<Rightarrow> u64" where
  "read_time board h k = csr_read time h k"

definition write_time :: "Board \<Rightarrow> u64 \<Rightarrow> nat \<Rightarrow> kernel \<Rightarrow> kernel" where
  "write_time board t h k =
     (if csr_stimecmp board then snd (csr_write stimecmp t h k) else k\<lparr>sbi := sbi_set_timer t (sbi k)\<rparr>)"

definition set_timer :: "Board \<Rightarrow> u64 \<Rightarrow> nat \<Rightarrow> kernel \<Rightarrow> kernel" where
  "set_timer board delay h k = write_time board (read_time board h k + delay) h k"

section \<open>Choosing the next process (switch.c)\<close>

text \<open>The sum is an \<open>int\<close>, so it does not wrap before the remainder is taken.\<close>

definition Pid_next :: "byte \<Rightarrow> byte" where
  "Pid_next i = of_nat ((unat i + 1) mod PROCESSES_MAXIMUM)"

definition runnable :: "Process \<Rightarrow> bool" where
  "runnable proc \<longleftrightarrow> proc_state proc = PROCESS_RUNNABLE \<or> proc_state proc = PROCESS_READY"

text \<open>The first argument is the number of processes still to be checked.\<close>

fun Process_find_loop :: "nat \<Rightarrow> byte \<Rightarrow> Process list \<Rightarrow> error + nat option" where
  "Process_find_loop 0 i ps = Inr None"
| "Process_find_loop (Suc n) i ps =
     bindr (deref ps (unat i)) (\<lambda>proc.
       if runnable proc then Inr (Some (unat i)) else Process_find_loop n (Pid_next i) ps)"

definition Process_find_next :: "byte \<Rightarrow> Process list \<Rightarrow> error + nat option" where
  "Process_find_next start_id ps = Process_find_loop PROCESSES_MAXIMUM start_id ps"

section \<open>The switch (switch.c)\<close>

text \<open>Addresses of code and of arrays that the kernel puts into registers.\<close>

record Symbols =
  ProcessExit_kernel_addr :: addr
  ProcessExit_user_addr :: addr
  trap_vector_addr :: addr
  boot_addr :: addr
  hart_scratches_addr :: addr
  processes_addr :: addr

definition set_process :: "nat \<Rightarrow> Process \<Rightarrow> kernel \<Rightarrow> kernel" where
  "set_process p proc k = k\<lparr>processes := (processes k)[p := proc]\<rparr>"

text \<open>Back up the running process, if there is one; the result is where the search starts.\<close>

definition switch_off :: "nat \<Rightarrow> kernel \<Rightarrow> error + byte \<times> kernel" where
  "switch_off h k =
     (let hs = my_hart_scratch h k in
      case current_process hs of
        None \<Rightarrow> Inr (0, k)
      | Some p \<Rightarrow> bindr (deref (processes k) p) (\<lambda>proc.
          let proc1 = proc\<lparr>proc_frame := hart_frame hs\<rparr>;
              proc2 = (if \<not> Process_is_kernel_process proc1 k
                       then proc1\<lparr>proc_frame := (proc_frame proc1)\<lparr>frame_pc := frame_pc (proc_frame proc1) + 4\<rparr>\<rparr>
                       else proc1);
              start_search_id = Pid_next (proc_id proc2)
          in Inr (start_search_id,
               set_scratch h (hs\<lparr>current_process := None\<rparr>)
                 (set_process p (proc2\<lparr>proc_state := PROCESS_RUNNABLE\<rparr>) k))))"

text \<open>
  Take a process, under the lock; the result says whether it runs for the first time.  With no process
  to run the loop goes round until another hart makes one runnable.
\<close>

definition switch_choose :: "byte \<Rightarrow> nat \<Rightarrow> kernel \<Rightarrow> error + bool \<times> kernel" where
  "switch_choose start_search_id h k =
     bindr (SpinLock_acquire processes_lock h k) (\<lambda>(were_enabled, k1).
     bindr (Process_find_next start_search_id (processes k1)) (\<lambda>next_process.
     case next_process of
       None \<Rightarrow> bindr (SpinLock_release processes_lock h k1) (\<lambda>k2. Inl Hangs)
     | Some p \<Rightarrow>
         let proc = processes k1 ! p;
             k2 = set_scratch h ((my_hart_scratch h k1)\<lparr>current_process := Some p\<rparr>) k1;
             process_first_run = (proc_state proc = PROCESS_READY);
             k3 = set_process p (proc\<lparr>proc_state := PROCESS_RUNNING\<rparr>) k2
         in bindr (SpinLock_release processes_lock h k3) (\<lambda>k4. Inr (process_first_run, k4))))"

text \<open>Load the process into the hart: the program counter, the registers, the address space, the timer.\<close>

definition switch_on :: "Symbols \<Rightarrow> Board \<Rightarrow> bool \<Rightarrow> nat \<Rightarrow> nat \<Rightarrow> kernel \<Rightarrow> error + kernel" where
  "switch_on sy board process_first_run p h k =
     bindr (deref (processes k) p) (\<lambda>proc.
     let is_kernel = Process_is_kernel_process proc k;
         (new_pc, proc1) = (if process_first_run
            then (frame_regs (proc_frame proc) ra,
                  proc\<lparr>proc_frame := set_reg ra (if is_kernel then ProcessExit_kernel_addr sy else ProcessExit_user_addr sy)
                     (proc_frame proc)\<rparr>)
            else (frame_pc (proc_frame proc), proc));
         k1 = snd (csr_write sepc new_pc h k);
         k2 = prepare_sstatus_for_return is_kernel h k1;
         k3 = enable_interrupts h k2;
         new_satp = SatpRegister_from_PageTable (proc_page_table proc1);
         proc2 = proc1\<lparr>proc_frame := (proc_frame proc1)\<lparr>frame_satp := new_satp\<rparr>\<rparr>;
         k4 = set_process p proc2 k3;
         k5 = set_scratch h ((my_hart_scratch h k4)\<lparr>hart_frame := proc_frame proc2\<rparr>) k4
     in Inr (set_timer board TIMER_INTERRUPT_DELAY h k5))"

definition kernel_switch :: "Symbols \<Rightarrow> Board \<Rightarrow> nat \<Rightarrow> kernel \<Rightarrow> error + kernel" where
  "kernel_switch sy board h k =
     bindr (switch_off h k) (\<lambda>(start_search_id, k1).
     if current_process (my_hart_scratch h k1) \<noteq> None then Inl AssertFail
     else bindr (switch_choose start_search_id h k1) (\<lambda>(process_first_run, k2).
       case current_process (my_hart_scratch h k2) of
         None \<Rightarrow> Inl NullDeref
       | Some p \<Rightarrow> switch_on sy board process_first_run p h k2))"

section \<open>Round robin\<close>

text \<open>The number of steps from \<open>i\<close> up to \<open>p\<close>, going round.\<close>

definition pid_distance :: "nat \<Rightarrow> nat \<Rightarrow> nat" where
  "pid_distance i p = (p + PROCESSES_MAXIMUM - i) mod PROCESSES_MAXIMUM"

lemma maximum_32: "PROCESSES_MAXIMUM = 32" by (simp add: PROCESSES_MAXIMUM_def)

lemma unat_Pid_next: "unat (Pid_next i) = (unat i + 1) mod 32"
proof -
  have "(unat i + 1) mod 32 < 2 ^ 8" by (rule order_less_le_trans [of _ 32]) simp_all
  then have "(unat i + 1) mod 32 mod 2 ^ 8 = (unat i + 1) mod 32" by (rule mod_less)
  then show ?thesis unfolding Pid_next_def maximum_32 unat_of_nat by simp
qed

lemma Process_find_loop_eq:
  assumes "length ps = 32" and "unat i < 32"
  shows "Process_find_loop n i ps = Inr (find (\<lambda>p. runnable (ps ! p)) (map (\<lambda>d. (unat i + d) mod 32) [0..<n]))"
  using assms(2)
proof (induction n arbitrary: i)
  case 0
  then show ?case by simp
next
  case (Suc n)
  have "unat (Pid_next i) < 32" by (simp add: unat_Pid_next)
  note IH = Suc.IH [OF this]
  have "map (\<lambda>d. (unat (Pid_next i) + d) mod 32) [0..<n] = map (\<lambda>d. (unat i + d) mod 32) (map Suc [0..<n])"
    by (simp add: unat_Pid_next mod_simps)
  moreover have "map Suc [0..<n] = [1..<Suc n]" by (simp add: map_Suc_upt)
  moreover have "[0..<Suc n] = 0 # [1..<Suc n]" by (simp add: upt_rec)
  ultimately show ?case using assms(1) Suc.prems IH by simp
qed

lemma pid_distance_if:
  assumes "i < 32" and "p < 32"
  shows "pid_distance i p = (if i \<le> p then p - i else p + 32 - i)"
proof (cases "i \<le> p")
  case True
  then have "p + 32 - i = (p - i) + 32" by simp
  moreover have "p - i < 32" using assms by simp
  ultimately show ?thesis using True unfolding pid_distance_def maximum_32 by (metis mod_add_self2 mod_less)
next
  case False
  then show ?thesis using assms by (simp add: pid_distance_def maximum_32)
qed

lemma add_mod_32: "i < 32 \<Longrightarrow> d < 32 \<Longrightarrow> (i + d) mod 32 = (if i + d < 32 then i + d else i + d - 32)"
  for i d :: nat
  by (simp add: mod_if)

lemma pid_distance_add: "i < 32 \<Longrightarrow> d < 32 \<Longrightarrow> pid_distance i ((i + d) mod 32) = d"
  by (subst pid_distance_if) (auto simp: add_mod_32)

lemma pid_distance_less: "pid_distance i p < 32"
  by (simp add: pid_distance_def maximum_32)

lemma pid_add_distance: "i < 32 \<Longrightarrow> p < 32 \<Longrightarrow> (i + pid_distance i p) mod 32 = p"
  using pid_distance_less [of i p] by (subst add_mod_32) (auto simp: pid_distance_if)

lemma Process_find_next_least:
  assumes "length ps = 32" and "unat i < 32"
  shows "Process_find_next i ps = Inr None \<and> (\<forall>p<32. \<not> runnable (ps ! p)) \<or>
    (\<exists>p<32. Process_find_next i ps = Inr (Some p) \<and> runnable (ps ! p) \<and>
      (\<forall>q<32. runnable (ps ! q) \<longrightarrow> pid_distance (unat i) p \<le> pid_distance (unat i) q))"
proof -
  let ?xs = "map (\<lambda>d. (unat i + d) mod 32) [0..<32]"
  have run: "Process_find_next i ps = Inr (find (\<lambda>p. runnable (ps ! p)) ?xs)"
    unfolding Process_find_next_def maximum_32 by (rule Process_find_loop_eq [OF assms])
  have at: "?xs ! pid_distance (unat i) q = q" if "q < 32" for q
    using pid_distance_less [of "unat i" q] pid_add_distance [OF assms(2) that] by simp
  show ?thesis
  proof (cases "find (\<lambda>p. runnable (ps ! p)) ?xs")
    case None
    then have "\<not> runnable (ps ! q)" if "q < 32" for q
      using at [OF that] pid_distance_less [of "unat i" q] nth_mem [of "pid_distance (unat i) q" ?xs]
      by (auto simp: find_None_iff)
    then show ?thesis using run None by simp
  next
    case (Some p)
    then obtain d where d: "d < 32" "runnable (ps ! p)" "p = (unat i + d) mod 32"
        "\<forall>j<d. \<not> runnable (ps ! (?xs ! j))"
      by (auto simp: find_Some_iff)
    have "d \<le> pid_distance (unat i) q" if "q < 32" "runnable (ps ! q)" for q
      using d(4) at [OF that(1)] that(2) by (metis not_le)
    then show ?thesis using run Some d pid_distance_add [OF assms(2) d(1)] by auto
  qed
qed

text \<open>
  \<open>Process_find_next\<close> is round robin: it finds a process exactly when there is one to run, and
  then the first one that can run, counted from the start and going round the table.
\<close>

theorem find_next_round_robin:
  assumes "length ps = PROCESSES_MAXIMUM" and "unat start_id < PROCESSES_MAXIMUM"
  shows "case Process_find_next start_id ps of
      Inl e \<Rightarrow> False
    | Inr None \<Rightarrow> \<forall>p<PROCESSES_MAXIMUM. \<not> runnable (ps ! p)
    | Inr (Some p) \<Rightarrow> p < PROCESSES_MAXIMUM \<and> runnable (ps ! p) \<and>
        (\<forall>q<PROCESSES_MAXIMUM. runnable (ps ! q) \<longrightarrow>
          pid_distance (unat start_id) p \<le> pid_distance (unat start_id) q)"
  using Process_find_next_least [of ps start_id] assms by (auto simp: maximum_32)

definition sample_process :: "nat \<Rightarrow> ProcessState \<Rightarrow> Process" where
  "sample_process i st = \<lparr>proc_id = of_nat i, proc_state = st, proc_frame = TrapFrame_zero, proc_page_table = 0,
     proc_buffer = \<lparr>count = 0, capacity = 256, array = replicate 256 0\<rparr>\<rparr>"

definition sample_table :: "(nat \<Rightarrow> ProcessState) \<Rightarrow> Process list" where
  "sample_table st = map (\<lambda>i. sample_process i (st i)) [0..<32]"

lemma sample_table_simps [simp]:
  "length (sample_table st) = 32" "p < 32 \<Longrightarrow> sample_table st ! p = sample_process p (st p)"
  by (simp_all add: sample_table_def)

lemma sample_process_simps [simp]:
  "proc_state (sample_process i st) = st" "proc_frame (sample_process i st) = TrapFrame_zero"
  "proc_page_table (sample_process i st) = 0" "proc_id (sample_process i st) = of_nat i"
  "proc_buffer (sample_process i st) = \<lparr>count = 0, capacity = 256, array = replicate 256 0\<rparr>"
  "runnable (sample_process i st) \<longleftrightarrow> st = PROCESS_RUNNABLE \<or> st = PROCESS_READY"
  by (simp_all add: sample_process_def runnable_def)

lemma find_next_round_robin_witness:
  "case Process_find_next 7 (sample_table (\<lambda>i. if i = 3 then PROCESS_READY else PROCESS_UNUSED)) of
      Inl e \<Rightarrow> False
    | Inr None \<Rightarrow> False
    | Inr (Some p) \<Rightarrow> p = 3"
  using find_next_round_robin [of "sample_table (\<lambda>i. if i = 3 then PROCESS_READY else PROCESS_UNUSED)" 7]
  by (auto simp: maximum_32 split: sum.splits option.splits if_splits)

text \<open>A process that can run and is passed over is strictly nearer at the next search.\<close>

lemma pid_distance_next:
  assumes "i < 32" and "p < 32" and "q < 32" and "p \<noteq> q" and "pid_distance i q \<le> pid_distance i p"
  shows "pid_distance ((q + 1) mod 32) p < pid_distance i p"
proof (cases "q = 31")
  case True
  then show ?thesis using assms by (auto simp: pid_distance_if split: if_splits)
next
  case False
  then show ?thesis using assms by (auto simp: pid_distance_if split: if_splits)
qed

text \<open>
  \<open>turns tab start chosen\<close>: a sequence of switches of one hart; at switch \<open>n\<close> the table is \<open>tab n\<close>, the
  search starts at \<open>start n\<close> and finds \<open>chosen n\<close>, and the next one starts after that process.
\<close>

definition turns :: "(nat \<Rightarrow> Process list) \<Rightarrow> (nat \<Rightarrow> byte) \<Rightarrow> (nat \<Rightarrow> nat) \<Rightarrow> bool" where
  "turns tab start chosen \<longleftrightarrow> (\<forall>n. length (tab n) = PROCESSES_MAXIMUM \<and> unat (start n) < PROCESSES_MAXIMUM \<and>
     Process_find_next (start n) (tab n) = Inr (Some (chosen n)) \<and> start (Suc n) = Pid_next (of_nat (chosen n)))"

lemma turnsD:
  assumes "turns tab start chosen"
  shows "chosen n < 32" "unat (start n) < 32" "unat (start (Suc n)) = (chosen n + 1) mod 32"
    "p < 32 \<Longrightarrow> runnable (tab n ! p) \<Longrightarrow> pid_distance (unat (start n)) (chosen n) \<le> pid_distance (unat (start n)) p"
proof -
  have t: "length (tab n) = 32" "unat (start n) < 32" "Process_find_next (start n) (tab n) = Inr (Some (chosen n))"
      "start (Suc n) = Pid_next (of_nat (chosen n))"
    using assms by (simp_all add: turns_def maximum_32)
  have l: "chosen n < 32 \<and> (\<forall>q<32. runnable (tab n ! q) \<longrightarrow>
      pid_distance (unat (start n)) (chosen n) \<le> pid_distance (unat (start n)) q)"
    using Process_find_next_least [OF t(1,2)] t(3) by auto
  then show "chosen n < 32"
    "p < 32 \<Longrightarrow> runnable (tab n ! p) \<Longrightarrow> pid_distance (unat (start n)) (chosen n) \<le> pid_distance (unat (start n)) p"
    by blast+
  show "unat (start n) < 32" by (rule t(2))
  have "unat (of_nat (chosen n) :: byte) = chosen n" using l by (simp add: unat_of_nat)
  then show "unat (start (Suc n)) = (chosen n + 1) mod 32" unfolding t(4) unat_Pid_next by simp
qed

lemma turns_shift: "turns tab start chosen \<Longrightarrow> turns (\<lambda>n. tab (Suc n)) (\<lambda>n. start (Suc n)) (\<lambda>n. chosen (Suc n))"
  unfolding turns_def by blast

lemma chosen_within:
  assumes "turns tab start chosen" and "p < 32" and "\<forall>n. runnable (tab n ! p)"
    and "pid_distance (unat (start 0)) p < m"
  shows "\<exists>n<m. chosen n = p"
  using assms
proof (induction m arbitrary: tab start chosen)
  case 0
  then show ?case by simp
next
  case (Suc m)
  show ?case
  proof (cases "chosen 0 = p")
    case False
    note t = turnsD [OF Suc.prems(1), of 0]
    have "pid_distance (unat (start (Suc 0))) p < pid_distance (unat (start 0)) p"
      unfolding t(3) by (rule pid_distance_next) (use t turnsD(4) [OF Suc.prems(1,2), of 0] Suc.prems(2,3) False in auto)
    then have "pid_distance (unat (start (Suc 0))) p < m" using Suc.prems(4) by linarith
    then obtain n where "n < m" "chosen (Suc n) = p"
      using Suc.IH [OF turns_shift [OF Suc.prems(1)] Suc.prems(2)] Suc.prems(3) by auto
    then show ?thesis by auto
  qed auto
qed



end
