(* ===== verification/Process_Lifecycle.thy ===== *)
theory Process_Lifecycle
  imports Process_Switch
begin

text \<open>
  kernel/process/lifecycle.c and exits.c: creating and destroying processes, and where a process ends.
\<close>

section \<open>Creating a process (lifecycle.c)\<close>

text \<open>The tagged union of the arguments: a user program's section, or the entry address of a kernel process.\<close>

datatype ProcessArguments = UserProgram Section | KernelProcess addr

text \<open>\<open>memset\<close> of the whole struct: the output array is part of it.\<close>

definition Process_zero :: Process where
  "Process_zero = \<lparr>proc_id = 0, proc_state = PROCESS_UNUSED, proc_frame = TrapFrame_zero, proc_page_table = 0,
     proc_buffer = \<lparr>count = 0, capacity = 0, array = replicate BUFFER_LEN 0\<rparr>\<rparr>"

text \<open>The search for an unused process, from \<open>index\<close> on.\<close>

fun find_unused :: "nat \<Rightarrow> Process list \<Rightarrow> nat option" where
  "find_unused index [] = None"
| "find_unused index (proc # ps) =
     (if proc_state proc = PROCESS_UNUSED then Some index else find_unused (index + 1) ps)"

definition Process_setup ::
    "Sections \<Rightarrow> ProcessArguments \<Rightarrow> nat \<Rightarrow> kernel \<Rightarrow> error + Process \<times> VM" where
  "Process_setup ss args index k =
     bindr (Buffer_wrap (array (proc_buffer Process_zero)) BUFFER_LEN) (\<lambda>buffer.
     let proc = Process_zero\<lparr>proc_id := of_nat index, proc_buffer := buffer\<rparr> in
     case args of
       UserProgram section \<Rightarrow>
         bindr (PageTable_user_init ss section USER_PROGRAM_BASE (vm k)) (\<lambda>(page_table, vm1).
         let frame1 = set_reg ra USER_PROGRAM_BASE (proc_frame proc);
             frame2 = set_reg sp (USER_PROGRAM_BASE + Section_size section) frame1
         in Inr (proc\<lparr>proc_page_table := page_table, proc_frame := frame2\<rparr>, vm1))
     | KernelProcess entry \<Rightarrow>
         bindr (Page_alloc ss (vm k)) (\<lambda>(stack_page, vm1).
         let frame1 = set_reg sp (stack_page + PAGE_SIZE) (proc_frame proc);
             frame2 = set_reg ra entry frame1
         in Inr (proc\<lparr>proc_page_table := kernel_page_table (kernel_table k), proc_frame := frame2\<rparr>, vm1)))"

definition Process_create ::
    "Sections \<Rightarrow> ProcessArguments \<Rightarrow> nat \<Rightarrow> kernel \<Rightarrow> error + nat \<times> kernel" where
  "Process_create ss args h k =
     bindr (SpinLock_acquire processes_lock h k) (\<lambda>(were_enabled, k1).
     case find_unused 0 (take PROCESSES_MAXIMUM (processes k1)) of
       None \<Rightarrow> Inl (Panic ''no more available processes'')
     | Some index \<Rightarrow>
         bindr (Process_setup ss args index k1) (\<lambda>(proc, vm1).
         let k2 = set_process index (proc\<lparr>proc_state := PROCESS_READY\<rparr>) (k1\<lparr>vm := vm1\<rparr>) in
         bindr (SpinLock_release processes_lock h k2) (\<lambda>k3. Inr (index, k3))))"

section \<open>Destroying the running process (lifecycle.c, exits.c)\<close>

definition Process_destroy_current :: "nat \<Rightarrow> kernel \<Rightarrow> error + kernel" where
  "Process_destroy_current h k =
     bindr (SpinLock_acquire processes_lock h k) (\<lambda>(were_enabled, k1).
     let hs = my_hart_scratch h k1;
         old_process = current_process hs;
         k2 = set_scratch h (hs\<lparr>current_process := None\<rparr>) k1
     in case old_process of
          None \<Rightarrow> Inl (Panic ''clean_process called but no current_process'')
        | Some p \<Rightarrow> bindr (deref (processes k2) p) (\<lambda>proc.
            SpinLock_release processes_lock h
              (set_process p (proc\<lparr>proc_id := - 1, proc_state := PROCESS_UNUSED\<rparr>) k2)))"

end
