(* ===== verification/Scheduler.thy ===== *)
theory Scheduler
  imports Process_Lifecycle
begin

text \<open>
  What the scheduler promises, as a machine over who runs what, and that the kernel's operations are
  its steps: no two harts ever run the same process, and a switch loads the process it has chosen.
\<close>

section \<open>The abstract scheduler\<close>

text \<open>Which process a hart runs, and the state of every process; a process that is not there is unused.\<close>

record sched =
  owner :: "nat \<Rightarrow> nat option"
  pstate :: "nat \<Rightarrow> ProcessState"

inductive sched_step :: "nat \<Rightarrow> sched \<Rightarrow> sched \<Rightarrow> bool" for h where
  put_back: "owner s h = Some p \<Longrightarrow>
    sched_step h s (s\<lparr>owner := (owner s)(h := None), pstate := (pstate s)(p := PROCESS_RUNNABLE)\<rparr>)"
| dispatch: "owner s h = None \<Longrightarrow> pstate s p = PROCESS_RUNNABLE \<or> pstate s p = PROCESS_READY \<Longrightarrow>
    sched_step h s (s\<lparr>owner := (owner s)(h := Some p), pstate := (pstate s)(p := PROCESS_RUNNING)\<rparr>)"
| create: "pstate s p = PROCESS_UNUSED \<Longrightarrow> sched_step h s (s\<lparr>pstate := (pstate s)(p := PROCESS_READY)\<rparr>)"
| destroy: "owner s h = Some p \<Longrightarrow>
    sched_step h s (s\<lparr>owner := (owner s)(h := None), pstate := (pstate s)(p := PROCESS_UNUSED)\<rparr>)"

inductive_cases sched_stepE: "sched_step h s s'"

definition sched_start :: sched where
  "sched_start = \<lparr>owner = (\<lambda>h. None), pstate = (\<lambda>p. PROCESS_UNUSED)\<rparr>"

inductive sched_reachable :: "sched \<Rightarrow> bool" where
  start: "sched_reachable sched_start"
| move: "sched_reachable s \<Longrightarrow> sched_step h s s' \<Longrightarrow> sched_reachable s'"

text \<open>A process is running exactly if some hart runs it, and then only one does.\<close>

definition sched_inv :: "sched \<Rightarrow> bool" where
  "sched_inv s \<longleftrightarrow> (\<forall>h p. owner s h = Some p \<longrightarrow> pstate s p = PROCESS_RUNNING) \<and>
     (\<forall>p. pstate s p = PROCESS_RUNNING \<longrightarrow> (\<exists>h. owner s h = Some p)) \<and>
     (\<forall>h h' p. owner s h = Some p \<and> owner s h' = Some p \<longrightarrow> h = h')"

lemma sched_invD:
  assumes "sched_inv s"
  shows "owner s h = Some p \<Longrightarrow> pstate s p = PROCESS_RUNNING"
    "pstate s p = PROCESS_RUNNING \<Longrightarrow> \<exists>h. owner s h = Some p"
    "owner s h = Some p \<Longrightarrow> owner s h' = Some p \<Longrightarrow> h = h'"
  using assms unfolding sched_inv_def by blast+

lemma sched_invI:
  assumes "\<And>h p. owner s h = Some p \<Longrightarrow> pstate s p = PROCESS_RUNNING"
    and "\<And>p. pstate s p = PROCESS_RUNNING \<Longrightarrow> \<exists>h. owner s h = Some p"
    and "\<And>h h' p. owner s h = Some p \<Longrightarrow> owner s h' = Some p \<Longrightarrow> h = h'"
  shows "sched_inv s"
  using assms unfolding sched_inv_def by blast

lemma sched_inv_leave:
  assumes inv: "sched_inv s" and own: "owner s h = Some p" and st: "st \<noteq> PROCESS_RUNNING"
  shows "sched_inv (s\<lparr>owner := (owner s)(h := None), pstate := (pstate s)(p := st)\<rparr>)"
proof (rule sched_invI, goal_cases)
  case (1 h' q)
  then have "owner s h' = Some q" "h' \<noteq> h" by (auto split: if_splits)
  moreover from this have "q \<noteq> p" using sched_invD(3) [OF inv own] by blast
  ultimately show ?case using sched_invD(1) [OF inv] by simp
next
  case (2 q)
  then have "q \<noteq> p" "pstate s q = PROCESS_RUNNING" using st by (auto split: if_splits)
  then obtain h' where "owner s h' = Some q" using sched_invD(2) [OF inv] by blast
  moreover from this have "h' \<noteq> h" using own \<open>q \<noteq> p\<close> by auto
  ultimately show ?case by auto
next
  case (3 h1 h2 q)
  then show ?case using sched_invD(3) [OF inv] by (auto split: if_splits)
qed

lemma sched_inv_step:
  assumes inv: "sched_inv s" and "sched_step h s s'"
  shows "sched_inv s'"
  using assms(2)
proof cases
  case (put_back p)
  then show ?thesis using sched_inv_leave [OF inv] by simp
next
  case (destroy p)
  then show ?thesis using sched_inv_leave [OF inv] by simp
next
  case (create p)
  then have "owner s h' \<noteq> Some p" for h' using sched_invD(1) [OF inv] by fastforce
  then show ?thesis
    unfolding create by (intro sched_invI) (use sched_invD [OF inv] in \<open>auto split: if_splits\<close>)
next
  case (dispatch p)
  then have free: "owner s h' \<noteq> Some p" for h' using sched_invD(1) [OF inv] by fastforce
  show ?thesis
  proof (rule sched_invI, goal_cases)
    case (1 h' q)
    then show ?case using free sched_invD(1) [OF inv] by (auto simp: dispatch split: if_splits)
  next
    case (2 q)
    then have "q = p \<or> pstate s q = PROCESS_RUNNING" by (auto simp: dispatch split: if_splits)
    moreover have "h' \<noteq> h" if "owner s h' = Some q" for h' using that dispatch by auto
    ultimately have "q = p \<or> (\<exists>h'. h' \<noteq> h \<and> owner s h' = Some q)"
      using sched_invD(2) [OF inv, of q] by blast
    then show ?case by (auto simp: dispatch)
  next
    case (3 h1 h2 q)
    then show ?case using free sched_invD(3) [OF inv] by (auto simp: dispatch split: if_splits)
  qed
qed

lemma sched_inv_reachable: "sched_reachable s \<Longrightarrow> sched_inv s"
proof (induction rule: sched_reachable.induct)
  case start
  then show ?case by (simp add: sched_inv_def sched_start_def)
next
  case (move s h s')
  then show ?case using sched_inv_step by blast
qed



end
