(* ===== verification/Switch_Spec.thy ===== *)
theory Switch_Spec
  imports Scheduler
begin

text \<open>
  What \<open>kernel_switch\<close> does to the kernel's state: it is a step of the abstract scheduler, and the process
  it has chosen is loaded into the hart.
\<close>

section \<open>The abstract state of the kernel\<close>

definition sched_of :: "kernel \<Rightarrow> sched" where
  "sched_of k = \<lparr>owner = (\<lambda>h. if h < length (hart_scratches k) then current_process (hart_scratches k ! h) else None),
     pstate = (\<lambda>p. if p < length (processes k) then proc_state (processes k ! p) else PROCESS_UNUSED)\<rparr>"

definition processes_ok :: "kernel \<Rightarrow> bool" where
  "processes_ok k \<longleftrightarrow> length (processes k) = PROCESSES_MAXIMUM \<and>
     (\<forall>p<PROCESSES_MAXIMUM. proc_state (processes k ! p) \<noteq> PROCESS_UNUSED \<longrightarrow> proc_id (processes k ! p) = of_nat p)"

definition sched_ok :: "nat \<Rightarrow> kernel \<Rightarrow> bool" where
  "sched_ok h k \<longleftrightarrow> hart_ok h k \<and> processes_ok k \<and> sched_inv (sched_of k) \<and> locked (locks k processes_lock) = 0"

lemma sched_of_update [simp]:
  "sched_of (k\<lparr>csrs := c\<rparr>) = sched_of k" "sched_of (k\<lparr>locks := l\<rparr>) = sched_of k" "sched_of (k\<lparr>sbi := t\<rparr>) = sched_of k"
  "sched_of (k\<lparr>vm := v\<rparr>) = sched_of k" "sched_of (k\<lparr>mmio := m\<rparr>) = sched_of k"
  by (simp_all add: sched_of_def cong: if_cong)

lemma sched_of_cong:
  assumes "map current_process (hart_scratches k') = map current_process (hart_scratches k)"
    and "map proc_state (processes k') = map proc_state (processes k)"
  shows "sched_of k' = sched_of k"
proof -
  have len: "length (hart_scratches k') = length (hart_scratches k)" "length (processes k') = length (processes k)"
    using assms map_eq_imp_length_eq by blast+
  have "current_process (hart_scratches k' ! h) = current_process (hart_scratches k ! h)"
    if "h < length (hart_scratches k)" for h
    using arg_cong [OF assms(1), of "\<lambda>l. l ! h"] that len by simp
  moreover have "proc_state (processes k' ! p) = proc_state (processes k ! p)" if "p < length (processes k)" for p
    using arg_cong [OF assms(2), of "\<lambda>l. l ! p"] that len by simp
  ultimately show ?thesis by (auto simp: sched_of_def fun_eq_iff len)
qed

lemma sched_of_set_scratch:
  "h < length (hart_scratches k) \<Longrightarrow>
    sched_of (set_scratch h hs k) = (sched_of k)\<lparr>owner := (owner (sched_of k))(h := current_process hs)\<rparr>"
  by (auto simp: sched_of_def set_scratch_def fun_eq_iff nth_list_update)

lemma sched_of_set_process:
  "p < length (processes k) \<Longrightarrow>
    sched_of (set_process p proc k) = (sched_of k)\<lparr>pstate := (pstate (sched_of k))(p := proc_state proc)\<rparr>"
  by (auto simp: sched_of_def set_process_def fun_eq_iff nth_list_update)

lemma set_process_fields:
  "hart_scratches (set_process p proc k) = hart_scratches k" "processes (set_process p proc k) = (processes k)[p := proc]"
  "csrs (set_process p proc k) = csrs k" "locks (set_process p proc k) = locks k" "vm (set_process p proc k) = vm k"
  "kernel_table (set_process p proc k) = kernel_table k" "my_hart_scratch h (set_process p proc k) = my_hart_scratch h k"
  by (simp_all add: set_process_def)

lemma owner_current: "h < length (hart_scratches k) \<Longrightarrow> owner (sched_of k) h = current_process (my_hart_scratch h k)"
  by (simp add: sched_of_def my_hart_scratch_def)

lemma sched_ok_current:
  assumes "sched_ok h k" and "current_process (my_hart_scratch h k) = Some p"
  shows "p < 32" "proc_state (processes k ! p) = PROCESS_RUNNING" "proc_id (processes k ! p) = of_nat p"
proof -
  have h: "h < length (hart_scratches k)" and inv: "sched_inv (sched_of k)" and ps: "processes_ok k"
    using assms(1) by (simp_all add: sched_ok_def hart_ok_def)
  have "pstate (sched_of k) p = PROCESS_RUNNING"
    using sched_invD(1) [OF inv] owner_current [OF h] assms(2) by simp
  then show p: "p < 32" and st: "proc_state (processes k ! p) = PROCESS_RUNNING"
    using ps by (auto simp: sched_of_def processes_ok_def maximum_32 split: if_splits)
  show "proc_id (processes k ! p) = of_nat p" using ps p st by (simp add: processes_ok_def maximum_32)
qed

section \<open>Switching off\<close>

text \<open>The frame that is stored: a user process goes on four bytes later.\<close>

definition saved_frame :: "Process \<Rightarrow> kernel \<Rightarrow> TrapFrame \<Rightarrow> TrapFrame" where
  "saved_frame proc k f = (if Process_is_kernel_process proc k then f else f\<lparr>frame_pc := frame_pc f + 4\<rparr>)"

definition switched_off :: "nat \<Rightarrow> nat \<Rightarrow> kernel \<Rightarrow> kernel" where
  "switched_off p h k = set_scratch h ((my_hart_scratch h k)\<lparr>current_process := None\<rparr>)
     (set_process p ((processes k ! p)\<lparr>proc_frame := saved_frame (processes k ! p) k (hart_frame (my_hart_scratch h k)),
        proc_state := PROCESS_RUNNABLE\<rparr>) k)"

lemma switch_off_None: "current_process (my_hart_scratch h k) = None \<Longrightarrow> switch_off h k = Inr (0, k)"
  by (simp add: switch_off_def Let_def)

lemma switch_off_Some:
  assumes "sched_ok h k" and "current_process (my_hart_scratch h k) = Some p"
  shows "switch_off h k = Inr (Pid_next (of_nat p), switched_off p h k)"
  using assms sched_ok_current [OF assms]
  by (simp add: switch_off_def Let_def sched_ok_def processes_ok_def maximum_32 deref_def switched_off_def
      saved_frame_def Process_is_kernel_process_def)

lemma switched_off_fields:
  assumes "h < length (hart_scratches k)"
  shows "csrs (switched_off p h k) = csrs k" "locks (switched_off p h k) = locks k"
    "my_hart_scratch h (switched_off p h k) = (my_hart_scratch h k)\<lparr>current_process := None\<rparr>"
    "length (hart_scratches (switched_off p h k)) = length (hart_scratches k)"
    "length (processes (switched_off p h k)) = length (processes k)"
    "kernel_table (switched_off p h k) = kernel_table k"
  using assms by (simp_all add: switched_off_def set_scratch_def set_process_def my_hart_scratch_def)

lemma processes_ok_update:
  assumes "processes_ok k" and "p < 32" and "proc_id proc = of_nat p" and "ps = (processes k)[p := proc]" and "processes k' = ps"
  shows "processes_ok k'"
  using assms by (auto simp: processes_ok_def maximum_32 nth_list_update)

lemma switched_off_ok:
  assumes ok: "sched_ok h k" and cur: "current_process (my_hart_scratch h k) = Some p"
  shows "sched_ok h (switched_off p h k)"
    "sched_step h (sched_of k) (sched_of (switched_off p h k))"
proof -
  have h: "h < length (hart_scratches k)" and len: "length (processes k) = 32"
    using ok by (simp_all add: sched_ok_def hart_ok_def processes_ok_def maximum_32)
  note p = sched_ok_current [OF ok cur]
  have of: "sched_of (switched_off p h k) = (sched_of k)\<lparr>owner := (owner (sched_of k))(h := None),
      pstate := (pstate (sched_of k))(p := PROCESS_RUNNABLE)\<rparr>"
    unfolding switched_off_def using h len p(1)
    by (subst sched_of_set_scratch) (simp_all add: sched_of_set_process set_process_fields)
  then show step: "sched_step h (sched_of k) (sched_of (switched_off p h k))"
    using sched_step.put_back [of "sched_of k" h p] owner_current [OF h] cur by simp
  have "processes_ok (switched_off p h k)"
    by (rule processes_ok_update [of k p _ _, OF _ p(1) _ refl])
      (use ok p in \<open>simp_all add: sched_ok_def switched_off_def set_scratch_def set_process_def\<close>)
  moreover have "hart_ok h (switched_off p h k)"
    using ok by (simp add: sched_ok_def hart_ok_def switched_off_fields [OF h] traps_enabled_def)
  ultimately show "sched_ok h (switched_off p h k)"
    using ok sched_inv_step [OF _ step] by (simp add: sched_ok_def switched_off_fields [OF h])
qed

section \<open>Choosing\<close>

definition chosen_state :: "nat \<Rightarrow> bool \<Rightarrow> nat \<Rightarrow> kernel \<Rightarrow> kernel" where
  "chosen_state p ib h k = k\<lparr>locks := (locks k)(processes_lock := \<lparr>locked = 0, hart_owner = -1\<rparr>),
     hart_scratches := (hart_scratches k)[h := (my_hart_scratch h k)\<lparr>interrupts_before_locking := ib, current_process := Some p\<rparr>],
     processes := (processes k)[p := (processes k ! p)\<lparr>proc_state := PROCESS_RUNNING\<rparr>]\<rparr>"

lemma switch_choose_ok:
  assumes ok: "hart_ok h k" and len: "length (processes k) = 32" and free: "locked (locks k processes_lock) = 0"
    and start: "unat s < 32"
  shows "((\<forall>p<32. \<not> runnable (processes k ! p)) \<and> switch_choose s h k = Inl Hangs) \<or>
    (\<exists>p<32. runnable (processes k ! p) \<and>
       (\<forall>q<32. runnable (processes k ! q) \<longrightarrow> pid_distance (unat s) p \<le> pid_distance (unat s) q) \<and>
       switch_choose s h k = Inr (proc_state (processes k ! p) = PROCESS_READY, chosen_state p (lock_flag h k) h k))"
proof -
  have h: "h < length (hart_scratches k)" using ok by (simp add: hart_ok_def)
  let ?k1 = "entered processes_lock h k"
  note f = entered_fields [OF h, of processes_lock]
  note least = Process_find_next_least [of "processes k" s, OF len start]
  show ?thesis
  proof (cases "\<forall>p<32. \<not> runnable (processes k ! p)")
    case True
    then have "Process_find_next s (processes k) = Inr None" using least by blast
    then show ?thesis
      using True free SpinLock_release_after [OF ok body_keeps_refl [of h ?k1]]
      by (simp add: switch_choose_def SpinLock_acquire_eq f)
  next
    case False
    then obtain p where p: "p < 32" "Process_find_next s (processes k) = Inr (Some p)" "runnable (processes k ! p)"
        "\<forall>q<32. runnable (processes k ! q) \<longrightarrow> pid_distance (unat s) p \<le> pid_distance (unat s) q"
      using least by blast
    define ib where "ib = lock_flag h k"
    have ib: "ib = interrupts_before_locking (my_hart_scratch h ?k1)"
      using h by (simp add: ib_def lock_flag_def entered_def Let_def my_hart_scratch_def)
    define k3 where "k3 = set_process p ((processes k ! p)\<lparr>proc_state := PROCESS_RUNNING\<rparr>)
        (set_scratch h ((my_hart_scratch h ?k1)\<lparr>current_process := Some p\<rparr>) ?k1)"
    have body: "body_keeps h ?k1 k3"
      using h by (simp add: body_keeps_def k3_def set_process_def set_scratch_def my_hart_scratch_def f(3))
    have "SpinLock_release processes_lock h k3 = Inr (chosen_state p ib h k)"
      using h by (simp add: SpinLock_release_after [OF ok body])
        (rule kernel.equality; simp add: k3_def chosen_state_def set_process_def set_scratch_def my_hart_scratch_def entered_def Let_def ib)
    then show ?thesis
      using p free by (auto simp: switch_choose_def SpinLock_acquire_eq f k3_def Let_def ib_def [symmetric] intro!: exI [of _ p])
  qed
qed

section \<open>Switching on\<close>

text \<open>The frame that is loaded, and the status register with which the hart returns.\<close>

definition loaded_frame :: "Symbols \<Rightarrow> bool \<Rightarrow> kernel \<Rightarrow> Process \<Rightarrow> TrapFrame" where
  "loaded_frame sy first k proc =
     (let f = (if first then set_reg ra (if Process_is_kernel_process proc k then ProcessExit_kernel_addr sy
                 else ProcessExit_user_addr sy) (proc_frame proc) else proc_frame proc)
      in f\<lparr>frame_satp := SatpRegister_from_PageTable (proc_page_table proc)\<rparr>)"

definition resume_sstatus :: "u64 \<Rightarrow> bool \<Rightarrow> u64" where
  "resume_sstatus v kern = BIT_BOOL (BIT_SET (BIT_SET v SSTATUS_TRAPS_AFTER_SRET) SSTATUS_SUM) SSTATUS_PRIVILEGE kern"

lemma resume_sstatus_bits:
  "bit (resume_sstatus v kern) SSTATUS_PRIVILEGE = kern" "bit (resume_sstatus v kern) SSTATUS_TRAPS_AFTER_SRET"
  "bit (resume_sstatus v kern) SSTATUS_SUM" "bit (resume_sstatus v kern) SSTATUS_TRAPS_NOW = bit v SSTATUS_TRAPS_NOW"
  by (simp_all add: resume_sstatus_def bit_BIT_BOOL bit_BIT_SET SSTATUS_PRIVILEGE_def SSTATUS_TRAPS_AFTER_SRET_def
      SSTATUS_SUM_def SSTATUS_TRAPS_NOW_def)

lemma csr_write_fields:
  "csrs (snd (csr_write c v h k)) = (csrs k)(h := (csrs k h)(c := v))"
  "hart_scratches (snd (csr_write c v h k)) = hart_scratches k" "processes (snd (csr_write c v h k)) = processes k"
  "locks (snd (csr_write c v h k)) = locks k" "vm (snd (csr_write c v h k)) = vm k"
  "kernel_table (snd (csr_write c v h k)) = kernel_table k" "sbi (snd (csr_write c v h k)) = sbi k"
  "mmio (snd (csr_write c v h k)) = mmio k" "uart1_buffer (snd (csr_write c v h k)) = uart1_buffer k"
  by (simp_all add: csr_write_def)

text \<open>The control registers are written one after another; nothing else changes.\<close>

definition resume_csrs :: "bool \<Rightarrow> u64 \<Rightarrow> nat \<Rightarrow> kernel \<Rightarrow> kernel" where
  "resume_csrs kern pc h k = enable_interrupts h (prepare_sstatus_for_return kern h (snd (csr_write sepc pc h k)))"

lemma resume_csrs_fields:
  "hart_scratches (resume_csrs kern pc h k) = hart_scratches k" "processes (resume_csrs kern pc h k) = processes k"
  "locks (resume_csrs kern pc h k) = locks k" "vm (resume_csrs kern pc h k) = vm k"
  "kernel_table (resume_csrs kern pc h k) = kernel_table k" "sbi (resume_csrs kern pc h k) = sbi k"
  "mmio (resume_csrs kern pc h k) = mmio k" "uart1_buffer (resume_csrs kern pc h k) = uart1_buffer k"
  "csrs (resume_csrs kern pc h k) h sepc = pc"
  "csrs (resume_csrs kern pc h k) h sstatus = resume_sstatus (csrs k h sstatus) kern"
  "csrs (resume_csrs kern pc h k) h time = csrs k h time" "csrs (resume_csrs kern pc h k) h satp = csrs k h satp"
  "csrs (resume_csrs kern pc h k) h sscratch = csrs k h sscratch"
  "h' \<noteq> h \<Longrightarrow> csrs (resume_csrs kern pc h k) h' = csrs k h'"
  by (simp_all add: resume_csrs_def enable_interrupts_def prepare_sstatus_for_return_def csr_write_fields Let_def
      csr_read_def resume_sstatus_def)

text \<open>What a timer leaves alone, and when it fires.\<close>

lemma set_timer_fields:
  "hart_scratches (set_timer board d h k) = hart_scratches k" "processes (set_timer board d h k) = processes k"
  "locks (set_timer board d h k) = locks k" "vm (set_timer board d h k) = vm k"
  "kernel_table (set_timer board d h k) = kernel_table k" "mmio (set_timer board d h k) = mmio k"
  "uart1_buffer (set_timer board d h k) = uart1_buffer k"
  "c \<noteq> stimecmp \<Longrightarrow> csrs (set_timer board d h k) h' c = csrs k h' c"
  "console (sbi (set_timer board d h k)) = console (sbi k)"
  by (simp_all add: set_timer_def write_time_def csr_write_fields)

definition timer_armed :: "Board \<Rightarrow> u64 \<Rightarrow> nat \<Rightarrow> kernel \<Rightarrow> kernel \<Rightarrow> bool" where
  "timer_armed board t h k k' \<longleftrightarrow>
     (if csr_stimecmp board then csrs k' h stimecmp = t \<and> sbi k' = sbi k else sbi k' = sbi_set_timer t (sbi k))"

definition switched_on :: "Symbols \<Rightarrow> Board \<Rightarrow> bool \<Rightarrow> nat \<Rightarrow> nat \<Rightarrow> kernel \<Rightarrow> kernel" where
  "switched_on sy board first p h k =
     (let proc = processes k ! p;
          pc = (if first then frame_regs (proc_frame proc) ra else frame_pc (proc_frame proc));
          f = loaded_frame sy first k proc
      in set_timer board TIMER_INTERRUPT_DELAY h
        (set_scratch h ((my_hart_scratch h k)\<lparr>hart_frame := f\<rparr>)
          (set_process p (proc\<lparr>proc_frame := f\<rparr>) (resume_csrs (Process_is_kernel_process proc k) pc h k))))"

lemma switch_on_eq:
  assumes "p < length (processes k)"
  shows "switch_on sy board first p h k = Inr (switched_on sy board first p h k)"
proof -
  have scr: "my_hart_scratch h (set_process p x (resume_csrs kern pc h k)) = my_hart_scratch h k" for x kern pc
    by (simp add: set_process_fields my_hart_scratch_def resume_csrs_fields)
  show ?thesis
    using assms scr
    by (cases first) (simp_all add: switch_on_def switched_on_def Let_def loaded_frame_def Process_is_kernel_process_def
        flip: resume_csrs_def)
qed

lemma switched_on_fields:
  fixes sy :: Symbols and board :: Board and first :: bool
  assumes "h < length (hart_scratches k)" and "p < length (processes k)"
  defines "k' \<equiv> switched_on sy board first p h k" and "proc \<equiv> processes k ! p"
  shows "my_hart_scratch h k' = (my_hart_scratch h k)\<lparr>hart_frame := loaded_frame sy first k proc\<rparr>"
    "length (hart_scratches k') = length (hart_scratches k)"
    "processes k' = (processes k)[p := proc\<lparr>proc_frame := loaded_frame sy first k proc\<rparr>]"
    "locks k' = locks k" "vm k' = vm k" "kernel_table k' = kernel_table k" "mmio k' = mmio k"
    "csrs k' h sepc = (if first then frame_regs (proc_frame proc) ra else frame_pc (proc_frame proc))"
    "csrs k' h sstatus = resume_sstatus (csrs k h sstatus) (Process_is_kernel_process proc k)"
    "timer_armed board (csrs k h time + TIMER_INTERRUPT_DELAY) h k k'"
    "sched_of k' = sched_of k"
proof -
  note defs = k'_def switched_on_def Let_def proc_def
  show "my_hart_scratch h k' = (my_hart_scratch h k)\<lparr>hart_frame := loaded_frame sy first k proc\<rparr>"
    "length (hart_scratches k') = length (hart_scratches k)"
    "processes k' = (processes k)[p := proc\<lparr>proc_frame := loaded_frame sy first k proc\<rparr>]"
    "locks k' = locks k" "vm k' = vm k" "kernel_table k' = kernel_table k" "mmio k' = mmio k"
    using assms(1) by (simp_all add: defs my_hart_scratch_def set_timer_fields set_scratch_def set_process_def resume_csrs_fields)
  show "csrs k' h sepc = (if first then frame_regs (proc_frame proc) ra else frame_pc (proc_frame proc))"
    "csrs k' h sstatus = resume_sstatus (csrs k h sstatus) (Process_is_kernel_process proc k)"
    by (simp_all add: defs set_timer_fields set_scratch_def set_process_def resume_csrs_fields)
  show "timer_armed board (csrs k h time + TIMER_INTERRUPT_DELAY) h k k'"
    by (simp add: defs timer_armed_def set_timer_def write_time_def read_time_def csr_read_def csr_write_fields
        set_scratch_def set_process_def resume_csrs_fields)
  have "map current_process (hart_scratches k') = map current_process (hart_scratches k)"
    by (simp add: defs set_timer_fields set_scratch_def set_process_def resume_csrs_fields map_list_update_same my_hart_scratch_def)
  moreover have "map proc_state (processes k') = map proc_state (processes k)"
    by (simp add: defs set_timer_fields set_scratch_def set_process_def resume_csrs_fields map_list_update_same)
  ultimately show "sched_of k' = sched_of k" by (rule sched_of_cong)
qed

section \<open>The whole switch\<close>

definition before_choice :: "nat \<Rightarrow> kernel \<Rightarrow> kernel" where
  "before_choice h k = (case current_process (my_hart_scratch h k) of None \<Rightarrow> k | Some p \<Rightarrow> switched_off p h k)"

definition search_start :: "nat \<Rightarrow> kernel \<Rightarrow> byte" where
  "search_start h k = (case current_process (my_hart_scratch h k) of None \<Rightarrow> 0 | Some p \<Rightarrow> Pid_next (of_nat p))"

lemma search_start_less: "unat (search_start h k) < 32"
  by (simp add: search_start_def unat_Pid_next split: option.split)

lemma before_choice_ok:
  assumes "sched_ok h k"
  shows "sched_ok h (before_choice h k)" "current_process (my_hart_scratch h (before_choice h k)) = None"
    "switch_off h k = Inr (search_start h k, before_choice h k)"
    "csrs (before_choice h k) = csrs k" "kernel_table (before_choice h k) = kernel_table k"
    "(owner (sched_of k) h = None \<and> sched_of (before_choice h k) = sched_of k) \<or>
      sched_step h (sched_of k) (sched_of (before_choice h k))"
proof -
  have h: "h < length (hart_scratches k)" using assms by (simp add: sched_ok_def hart_ok_def)
  show "sched_ok h (before_choice h k)"
    using assms switched_off_ok(1) [OF assms] by (simp add: before_choice_def split: option.split)
  show "current_process (my_hart_scratch h (before_choice h k)) = None"
    by (simp add: before_choice_def switched_off_fields [OF h] split: option.split)
  show "switch_off h k = Inr (search_start h k, before_choice h k)"
    using switch_off_None switch_off_Some [OF assms]
    by (auto simp: before_choice_def search_start_def split: option.split)
  show "csrs (before_choice h k) = csrs k" "kernel_table (before_choice h k) = kernel_table k"
    by (simp_all add: before_choice_def switched_off_fields [OF h] split: option.split)
  show "(owner (sched_of k) h = None \<and> sched_of (before_choice h k) = sched_of k) \<or>
      sched_step h (sched_of k) (sched_of (before_choice h k))"
    using switched_off_ok(2) [OF assms] owner_current [OF h]
    by (auto simp: before_choice_def split: option.split)
qed

lemma chosen_state_ok:
  assumes ok: "sched_ok h k" and none: "current_process (my_hart_scratch h k) = None"
    and p: "p < 32" "runnable (processes k ! p)"
  shows "sched_ok h (chosen_state p ib h k)" "sched_step h (sched_of k) (sched_of (chosen_state p ib h k))"
    "owner (sched_of (chosen_state p ib h k)) h = Some p"
proof -
  have h: "h < length (hart_scratches k)" and len: "length (processes k) = 32"
    using ok by (simp_all add: sched_ok_def hart_ok_def processes_ok_def maximum_32)
  have of: "sched_of (chosen_state p ib h k) = (sched_of k)\<lparr>owner := (owner (sched_of k))(h := Some p),
      pstate := (pstate (sched_of k))(p := PROCESS_RUNNING)\<rparr>"
    using h len p(1) by (auto simp: sched_of_def chosen_state_def fun_eq_iff nth_list_update)
  have st: "pstate (sched_of k) p = PROCESS_RUNNABLE \<or> pstate (sched_of k) p = PROCESS_READY"
    using p len by (auto simp: sched_of_def runnable_def)
  show step: "sched_step h (sched_of k) (sched_of (chosen_state p ib h k))"
    unfolding of using none owner_current [OF h] st by (intro sched_step.dispatch) simp_all
  show "owner (sched_of (chosen_state p ib h k)) h = Some p" by (simp add: of)
  have id: "proc_id (processes k ! p) = of_nat p"
    using ok p by (auto simp: sched_ok_def processes_ok_def maximum_32 runnable_def)
  have "processes_ok (chosen_state p ib h k)"
    by (rule processes_ok_update [of k p _ _, OF _ p(1) _ refl])
      (use ok id in \<open>simp_all add: sched_ok_def chosen_state_def\<close>)
  moreover have "hart_ok h (chosen_state p ib h k)"
    using ok h by (simp add: sched_ok_def hart_ok_def chosen_state_def my_hart_scratch_def traps_enabled_def)
  ultimately show "sched_ok h (chosen_state p ib h k)"
    using ok sched_inv_step [OF _ step] by (simp add: sched_ok_def) (simp add: chosen_state_def)
qed

lemma switched_on_ok:
  assumes "sched_ok h k" and "p < 32"
  shows "sched_ok h (switched_on sy board first p h k)"
proof -
  have h: "h < length (hart_scratches k)" "p < length (processes k)"
    using assms by (simp_all add: sched_ok_def hart_ok_def processes_ok_def maximum_32)
  note f = switched_on_fields [OF h, where sy = sy and board = board and first = first]
  have "traps_enabled h (switched_on sy board first p h k) = traps_enabled h k"
    by (simp add: traps_enabled_def f(9) resume_sstatus_bits)
  moreover have "processes_ok (switched_on sy board first p h k)"
    using assms by (auto simp: sched_ok_def processes_ok_def f(3) maximum_32 nth_list_update)
  ultimately show ?thesis using assms(1) by (simp add: sched_ok_def hart_ok_def f(1,2,4,11))
qed

lemma kernel_switch_cases:
  assumes ok: "sched_ok h k"
  shows "((\<forall>p<32. \<not> runnable (processes (before_choice h k) ! p)) \<and> kernel_switch sy board h k = Inl Hangs) \<or>
    (\<exists>p<32. runnable (processes (before_choice h k) ! p) \<and>
       (\<forall>q<32. runnable (processes (before_choice h k) ! q) \<longrightarrow>
          pid_distance (unat (search_start h k)) p \<le> pid_distance (unat (search_start h k)) q) \<and>
       kernel_switch sy board h k = Inr (switched_on sy board
         (proc_state (processes (before_choice h k) ! p) = PROCESS_READY) p h (chosen_state p (lock_flag h (before_choice h k)) h (before_choice h k))))"
proof -
  note b = before_choice_ok [OF ok]
  let ?k1 = "before_choice h k"
  have k1: "hart_ok h ?k1" "length (processes ?k1) = 32" "locked (locks ?k1 processes_lock) = 0"
    using b(1) by (simp_all add: sched_ok_def processes_ok_def maximum_32)
  have h: "h < length (hart_scratches ?k1)" using k1(1) by (simp add: hart_ok_def)
  consider "\<forall>p<32. \<not> runnable (processes ?k1 ! p)" "switch_choose (search_start h k) h ?k1 = Inl Hangs"
    | p where "p < 32" "runnable (processes ?k1 ! p)" "\<forall>q<32. runnable (processes ?k1 ! q) \<longrightarrow>
          pid_distance (unat (search_start h k)) p \<le> pid_distance (unat (search_start h k)) q"
        "switch_choose (search_start h k) h ?k1 = Inr (proc_state (processes ?k1 ! p) = PROCESS_READY, chosen_state p (lock_flag h ?k1) h ?k1)"
    using switch_choose_ok [OF k1 search_start_less] by blast
  then show ?thesis
  proof cases
    case 1
    then show ?thesis by (simp add: kernel_switch_def b(2,3))
  next
    case 2
    have "current_process (my_hart_scratch h (chosen_state p (lock_flag h ?k1) h ?k1)) = Some p"
      using h by (simp add: chosen_state_def my_hart_scratch_def)
    moreover have "p < length (processes (chosen_state p (lock_flag h ?k1) h ?k1))" using 2(1) k1(2) by (simp add: chosen_state_def)
    ultimately have "kernel_switch sy board h k = Inr (switched_on sy board
         (proc_state (processes ?k1 ! p) = PROCESS_READY) p h (chosen_state p (lock_flag h ?k1) h ?k1))"
      using 2(4) by (simp add: kernel_switch_def b(2,3) switch_on_eq)
    with 2 show ?thesis by blast
  qed
qed

lemma kernel_switch_steps:
  assumes "sched_ok h k"
  shows "(kernel_switch sy board h k = Inl Hangs \<and> owner (sched_of k) h = None \<and>
       (\<forall>p<PROCESSES_MAXIMUM. \<not> runnable (processes k ! p))) \<or>
    (\<exists>k' s. kernel_switch sy board h k = Inr k' \<and> sched_ok h k' \<and>
       (s = sched_of k \<and> owner s h = None \<or> sched_step h (sched_of k) s) \<and>
       sched_step h s (sched_of k') \<and> owner (sched_of k') h \<noteq> None)"
proof -
  note b = before_choice_ok [OF assms]
  let ?k1 = "before_choice h k"
  have h: "h < length (hart_scratches k)" and len: "length (processes k) = 32"
    using assms by (simp_all add: sched_ok_def hart_ok_def processes_ok_def maximum_32)
  have h1: "h < length (hart_scratches ?k1)" "length (processes ?k1) = 32"
    using b(1) by (simp_all add: sched_ok_def hart_ok_def processes_ok_def maximum_32)
  consider "\<forall>p<32. \<not> runnable (processes ?k1 ! p)" "kernel_switch sy board h k = Inl Hangs"
    | p first ib where "p < 32" "runnable (processes ?k1 ! p)"
        "kernel_switch sy board h k = Inr (switched_on sy board first p h (chosen_state p ib h ?k1))"
    using kernel_switch_cases [OF assms, of sy board] by blast
  then show ?thesis
  proof cases
    case 1
    have none: "current_process (my_hart_scratch h k) = None"
    proof (rule ccontr)
      assume "current_process (my_hart_scratch h k) \<noteq> None"
      then obtain p where p: "current_process (my_hart_scratch h k) = Some p" by auto
      then have "runnable (processes ?k1 ! p)" and "p < 32"
        using sched_ok_current [OF assms p] len
        by (simp_all add: before_choice_def switched_off_def set_scratch_def set_process_def runnable_def)
      with 1 show False by blast
    qed
    then have "?k1 = k" by (simp add: before_choice_def)
    with 1 none owner_current [OF h] show ?thesis by (simp add: maximum_32)
  next
    case 2
    note c = chosen_state_ok [OF b(1,2) 2(1,2), of ib]
    have len': "h < length (hart_scratches (chosen_state p ib h ?k1))" "p < length (processes (chosen_state p ib h ?k1))"
      using h1 2(1) by (simp_all add: chosen_state_def)
    note on = switched_on_fields(11) [OF len', where sy = sy and board = board and first = first]
    have "sched_of ?k1 = sched_of k \<and> owner (sched_of ?k1) h = None \<or> sched_step h (sched_of k) (sched_of ?k1)"
      using b(6) by auto
    moreover have "sched_ok h (switched_on sy board first p h (chosen_state p ib h ?k1))"
      by (rule switched_on_ok [OF c(1) 2(1)])
    moreover have "sched_step h (sched_of ?k1) (sched_of (switched_on sy board first p h (chosen_state p ib h ?k1)))"
        "owner (sched_of (switched_on sy board first p h (chosen_state p ib h ?k1))) h \<noteq> None"
      using c(2,3) by (simp_all add: on)
    ultimately show ?thesis using 2(3) by blast
  qed
qed

text \<open>
  C14: a switch refines the abstract scheduler: the running process, if there is one, is put back, then
  a process is dispatched to the hart, and the invariant of the process table is kept; it does not return
  exactly when the hart has no process and none can run.
\<close>

theorem kernel_switch_refines:
  assumes "sched_ok h k"
  shows "(kernel_switch sy board h k = Inl Hangs \<and> owner (sched_of k) h = None \<and>
       (\<forall>p<PROCESSES_MAXIMUM. \<not> runnable (processes k ! p))) \<or>
    (\<exists>k' s. kernel_switch sy board h k = Inr k' \<and> sched_ok h k' \<and>
       (s = sched_of k \<and> owner s h = None \<or> sched_step h (sched_of k) s) \<and>
       sched_step h s (sched_of k') \<and> owner (sched_of k') h \<noteq> None)"
  by (rule kernel_switch_steps [OF assms])

text \<open>A kernel with two harts, of which hart 0 runs process 3, and no other process.\<close>

definition sample_running :: kernel where
  "sample_running = set_scratch 0 (sample_hart\<lparr>current_process := Some 3\<rparr>)
     (sample_kernel 2 (sample_table (\<lambda>i. if i = 3 then PROCESS_RUNNING else PROCESS_UNUSED)))"

lemma sample_running_fields:
  "my_hart_scratch 0 sample_running = sample_hart\<lparr>current_process := Some 3\<rparr>"
  "processes sample_running = sample_table (\<lambda>i. if i = 3 then PROCESS_RUNNING else PROCESS_UNUSED)"
  "kernel_table sample_running = \<lparr>kernel_page_table = 0, kernel_page_satp = 0\<rparr>"
  by (simp_all add: sample_running_def set_scratch_def my_hart_scratch_def)

lemma two_harts: "(h :: nat) < 2 \<Longrightarrow> h = 0 \<or> h = 1" by auto

lemma sample_running_ok: "sched_ok 0 sample_running"
proof -
  have "hart_scratches sample_running = [sample_hart\<lparr>current_process := Some 3\<rparr>, sample_hart]"
    by (simp add: sample_running_def set_scratch_def numeral_2_eq_2)
  then have own: "owner (sched_of sample_running) h = (if h = 0 then Some 3 else None)" for h
    by (auto simp: sched_of_def dest!: two_harts)
  have st: "pstate (sched_of sample_running) p = (if p = 3 then PROCESS_RUNNING else PROCESS_UNUSED)" for p
    by (auto simp: sched_of_def sample_running_fields)
  have "sched_inv (sched_of sample_running)" by (simp add: sched_inv_def own st)
  moreover have "hart_ok 0 sample_running"
    by (simp add: hart_ok_def sample_running_fields) (simp add: sample_running_def set_scratch_def)
  moreover have "processes_ok sample_running"
    by (auto simp: processes_ok_def sample_running_fields maximum_32)
  ultimately show ?thesis by (simp add: sched_ok_def) (simp add: sample_running_def set_scratch_def)
qed

definition sample_symbols :: Symbols where
  "sample_symbols = \<lparr>ProcessExit_kernel_addr = 0x80200100, ProcessExit_user_addr = 0x80300000,
     trap_vector_addr = 0x80200200, boot_addr = 0x80200000, hart_scratches_addr = 0x80208000,
     processes_addr = 0x80210000\<rparr>"

lemma sample_running_owner: "owner (sched_of sample_running) 0 = Some 3"
proof -
  have "0 < length (hart_scratches sample_running)" by (simp add: sample_running_def set_scratch_def)
  then show ?thesis by (simp add: owner_current sample_running_fields)
qed

lemma kernel_switch_refines_witness:
  "\<exists>k'. kernel_switch sample_symbols board_virt 0 sample_running = Inr k' \<and> sched_ok 0 k' \<and>
     owner (sched_of k') 0 \<noteq> None"
proof -
  note r = kernel_switch_refines [OF sample_running_ok, of sample_symbols board_virt]
  from r show ?thesis
  proof
    assume "kernel_switch sample_symbols board_virt 0 sample_running = Inl Hangs \<and>
      owner (sched_of sample_running) 0 = None \<and> (\<forall>p<PROCESSES_MAXIMUM. \<not> runnable (processes sample_running ! p))"
    then show ?thesis by (simp add: sample_running_owner)
  qed blast
qed

section \<open>A process gets its registers back\<close>

text \<open>The only process that can run is the one that is loaded.\<close>

lemma kernel_switch_only:
  assumes ok: "sched_ok h k" and p: "p < 32" "runnable (processes (before_choice h k) ! p)"
    and only: "\<forall>q<32. runnable (processes (before_choice h k) ! q) \<longrightarrow> q = p"
  defines "proc \<equiv> processes (before_choice h k) ! p"
  defines "first \<equiv> proc_state proc = PROCESS_READY"
  shows "\<exists>k'. kernel_switch sy board h k = Inr k' \<and> sched_ok h k' \<and> current_process (my_hart_scratch h k') = Some p \<and>
     hart_frame (my_hart_scratch h k') = loaded_frame sy first k proc \<and>
     csrs k' h sepc = (if first then frame_regs (proc_frame proc) ra else frame_pc (proc_frame proc)) \<and>
     csrs k' h sstatus = resume_sstatus (csrs k h sstatus) (Process_is_kernel_process proc k) \<and>
     timer_armed board (csrs k h time + TIMER_INTERRUPT_DELAY) h (before_choice h k) k'"
proof -
  note b = before_choice_ok [OF ok]
  let ?k1 = "before_choice h k"
  obtain ib where sw: "kernel_switch sy board h k = Inr (switched_on sy board first p h (chosen_state p ib h ?k1))"
  proof -
    obtain q ib where q: "q < 32" "runnable (processes ?k1 ! q)"
        "kernel_switch sy board h k = Inr (switched_on sy board
           (proc_state (processes ?k1 ! q) = PROCESS_READY) q h (chosen_state q ib h ?k1))"
      using kernel_switch_cases [OF ok, of sy board] p by blast
    moreover have "q = p" using only q(1,2) by blast
    ultimately show thesis using that unfolding first_def proc_def by blast
  qed
  let ?k2 = "chosen_state p ib h ?k1"
  have len: "h < length (hart_scratches ?k2)" "p < length (processes ?k2)" "p < length (processes ?k1)"
      "h < length (hart_scratches ?k1)"
    using b(1) p(1) by (simp_all add: sched_ok_def hart_ok_def processes_ok_def maximum_32 chosen_state_def)
  note f = switched_on_fields [OF len(1,2), where sy = sy and board = board and first = first]
  have ok': "sched_ok h (switched_on sy board first p h ?k2)"
    by (rule switched_on_ok [OF chosen_state_ok(1) [OF b(1,2) p] p(1)])
  have proc2: "processes ?k2 ! p = proc\<lparr>proc_state := PROCESS_RUNNING\<rparr>"
    using len by (simp add: chosen_state_def proc_def)
  have same: "csrs ?k2 = csrs k" "kernel_table ?k2 = kernel_table k" "current_process (my_hart_scratch h ?k2) = Some p"
      "sbi ?k2 = sbi ?k1"
    using b(4,5) len by (simp_all add: chosen_state_def my_hart_scratch_def)
  have "loaded_frame sy first ?k2 (processes ?k2 ! p) = loaded_frame sy first k proc"
    by (simp add: loaded_frame_def proc2 Process_is_kernel_process_def same)
  then show ?thesis
    using sw ok' f(1,8,9,10) by (simp add: proc2 same Process_is_kernel_process_def timer_armed_def)
qed


lemma sched_ok_hart: "sched_ok h k \<Longrightarrow> hart_ok h' k \<Longrightarrow> sched_ok h' k"
  by (simp add: sched_ok_def)

lemma sample_off_ok: "sched_ok 1 (switched_off 3 0 sample_running)"
proof -
  have harts: "hart_scratches (switched_off 3 0 sample_running) = [sample_hart, sample_hart]"
    by (simp add: switched_off_def sample_running_def set_scratch_def set_process_def my_hart_scratch_def
        numeral_2_eq_2 sample_hart_def)
  have "hart_ok 1 (switched_off 3 0 sample_running)"
    by (simp add: hart_ok_def harts my_hart_scratch_def)
  then show ?thesis
    using sched_ok_hart switched_off_ok(1) [OF sample_running_ok, of 3] by (simp add: sample_running_fields)
qed


end
