(* ===== verification/Trap_Routines.thy ===== *)
theory Trap_Routines
  imports Switch_Spec
begin

text \<open>
  kernel/trap/routines.c and kernel/boot/boot.c: the assembly that enters and leaves the kernel.  The code
  is a list of instructions, run on the registers of a hart and on the part of memory that it
  addresses, the trap frame and the process pointer of the hart's own scratch.
\<close>

section \<open>Layout of a scratch (trap/frame.h, hart.h)\<close>

datatype frame_member = Member reg | Member_pc | Member_satp

text \<open>The members of the packed struct, in order; each has eight bytes.\<close>

definition frame_layout :: "frame_member list" where
  "frame_layout = map Member
     [ra, gp, tp, t0, t1, t2, t3, t4, t5, t6, a0, a1, a2, a3, a4, a5, a6, a7,
      s0, s1, s2, s3, s4, s5, s6, s7, s8, s9, s10, s11, sp] @ [Member_pc, Member_satp]"

definition offsetof_frame :: "frame_member \<Rightarrow> nat" where
  "offsetof_frame m = 8 * length (takeWhile (\<lambda>x. x \<noteq> m) frame_layout)"

definition set_member :: "frame_member \<Rightarrow> u64 \<Rightarrow> TrapFrame \<Rightarrow> TrapFrame" where
  "set_member m v f =
     (case m of Member r \<Rightarrow> set_reg r v f | Member_pc \<Rightarrow> f\<lparr>frame_pc := v\<rparr> | Member_satp \<Rightarrow> f\<lparr>frame_satp := v\<rparr>)"

definition get_member :: "frame_member \<Rightarrow> TrapFrame \<Rightarrow> u64" where
  "get_member m f = (case m of Member r \<Rightarrow> frame_regs f r | Member_pc \<Rightarrow> frame_pc f | Member_satp \<Rightarrow> frame_satp f)"

text \<open>
  The offsets in a \<open>HartScratch\<close>: the frame of 264 bytes, the process pointer, a buffer of 24 bytes, its
  array of 256, a flag, the lock depth at the next multiple of four, and the work stack.
\<close>

definition offsetof_HartScratch_frame :: nat where "offsetof_HartScratch_frame = 0"
definition offsetof_HartScratch_current_process :: nat where "offsetof_HartScratch_current_process = 264"
definition offsetof_HartScratch_work_stack :: nat where "offsetof_HartScratch_work_stack = 560"
definition WORK_STACK_SIZE :: nat where "WORK_STACK_SIZE = 2048"
definition sizeof_HartScratch :: nat where "sizeof_HartScratch = 2608"
definition sizeof_Process :: nat where "sizeof_Process = 560"

definition hart_scratch_addr :: "Symbols \<Rightarrow> nat \<Rightarrow> addr" where
  "hart_scratch_addr sy h = hart_scratches_addr sy + of_nat h * of_nat sizeof_HartScratch"

definition process_pointer :: "Symbols \<Rightarrow> nat option \<Rightarrow> addr" where
  "process_pointer sy proc =
     (case proc of None \<Rightarrow> 0 | Some p \<Rightarrow> processes_addr sy + of_nat p * of_nat sizeof_Process)"

section \<open>Instructions\<close>

text \<open>\<open>BEQZ r n\<close> skips the next \<open>n\<close> instructions if the register is 0.\<close>

datatype instr =
    CSRRW reg csr reg | CSRR reg csr | CSRW csr reg
  | ADDI reg reg u64 | LI reg u64 | LA reg addr | MV reg reg | ADD reg reg reg | MUL reg reg reg
  | SD reg nat reg | LD reg nat reg | LD_kernel_page_satp reg | SFENCE_VMA
  | BEQZ reg nat

record cpu =
  cpu_reg :: "reg \<Rightarrow> u64"
  cpu_pc :: u64
  cpu_supervisor :: bool

definition put_reg :: "reg \<Rightarrow> u64 \<Rightarrow> cpu \<Rightarrow> cpu" where
  "put_reg r v c = c\<lparr>cpu_reg := (cpu_reg c)(r := v)\<rparr>"

definition store_scratch :: "Symbols \<Rightarrow> nat \<Rightarrow> addr \<Rightarrow> u64 \<Rightarrow> kernel \<Rightarrow> error + kernel" where
  "store_scratch sy h a v k =
     (let offset = unat (a - hart_scratch_addr sy h); hs = my_hart_scratch h k in
      if offset < 264 \<and> offset mod 8 = 0
      then Inr (set_scratch h (hs\<lparr>hart_frame := set_member (frame_layout ! (offset div 8)) v (hart_frame hs)\<rparr>) k)
      else Inl OutOfBounds)"

definition load_scratch :: "Symbols \<Rightarrow> nat \<Rightarrow> addr \<Rightarrow> kernel \<Rightarrow> error + u64" where
  "load_scratch sy h a k =
     (let offset = unat (a - hart_scratch_addr sy h); hs = my_hart_scratch h k in
      if offset < 264 \<and> offset mod 8 = 0 then Inr (get_member (frame_layout ! (offset div 8)) (hart_frame hs))
      else if offset = offsetof_HartScratch_current_process then Inr (process_pointer sy (current_process hs))
      else Inl OutOfBounds)"

fun exec1 :: "Symbols \<Rightarrow> nat \<Rightarrow> instr \<Rightarrow> cpu \<Rightarrow> kernel \<Rightarrow> error + cpu \<times> kernel" where
  "exec1 sy h (CSRRW rd r rs) c k =
     (let (old, k1) = csr_write r (cpu_reg c rs) h k in Inr (put_reg rd old c, k1))"
| "exec1 sy h (CSRR rd r) c k = Inr (put_reg rd (csr_read r h k) c, k)"
| "exec1 sy h (CSRW r rs) c k = Inr (c, snd (csr_write r (cpu_reg c rs) h k))"
| "exec1 sy h (ADDI rd rs i) c k = Inr (put_reg rd (cpu_reg c rs + i) c, k)"
| "exec1 sy h (LI rd i) c k = Inr (put_reg rd i c, k)"
| "exec1 sy h (LA rd a) c k = Inr (put_reg rd a c, k)"
| "exec1 sy h (MV rd rs) c k = Inr (put_reg rd (cpu_reg c rs) c, k)"
| "exec1 sy h (ADD rd r1 r2) c k = Inr (put_reg rd (cpu_reg c r1 + cpu_reg c r2) c, k)"
| "exec1 sy h (MUL rd r1 r2) c k = Inr (put_reg rd (cpu_reg c r1 * cpu_reg c r2) c, k)"
| "exec1 sy h (SD rs offset base) c k =
     bindr (store_scratch sy h (cpu_reg c base + of_nat offset) (cpu_reg c rs) k) (\<lambda>k1. Inr (c, k1))"
| "exec1 sy h (LD rd offset base) c k =
     bindr (load_scratch sy h (cpu_reg c base + of_nat offset) k) (\<lambda>v. Inr (put_reg rd v c, k))"
| "exec1 sy h (LD_kernel_page_satp rd) c k = Inr (put_reg rd (kernel_page_satp (kernel_table k)) c, k)"
| "exec1 sy h SFENCE_VMA c k = Inr (c, k)"
| "exec1 sy h (BEQZ rs n) c k = Inr (c, k)"

function exec :: "Symbols \<Rightarrow> nat \<Rightarrow> instr list \<Rightarrow> cpu \<Rightarrow> kernel \<Rightarrow> error + cpu \<times> kernel" where
  "exec sy h [] c k = Inr (c, k)"
| "exec sy h (i # code) c k =
     bindr (exec1 sy h i c k) (\<lambda>(c1, k1).
       case i of
         BEQZ rs n \<Rightarrow> exec sy h (if cpu_reg c rs = 0 then drop n code else code) c1 k1
       | _ \<Rightarrow> exec sy h code c1 k1)"
  by pat_completeness auto

termination by (relation "measure (\<lambda>(sy, h, code, c, k). length code)") auto

section \<open>The routines (trap/routines.c, boot/boot.c, process/switch.c)\<close>

text \<open>\<open>REGISTER_MEM\<close> with a store and with a load.\<close>

definition SAVE :: "reg \<Rightarrow> instr" where "SAVE r = SD r (offsetof_frame (Member r)) sp"
definition RESTORE :: "reg \<Rightarrow> instr" where "RESTORE r = LD r (offsetof_frame (Member r)) a0"

definition saved_registers :: "reg list" where
  "saved_registers =
     [ra, gp, tp, t0, t1, t2, t3, t4, t5, t6, a0, a1, a2, a3, a4, a5, a6, a7,
      s0, s1, s2, s3, s3, s4, s5, s6, s7, s8, s9, s10, s11]"

definition restored_registers :: "reg list" where
  "restored_registers =
     [ra, gp, tp, sp, t0, t1, t2, t3, t4, t5, t6, a1, a2, a3, a4, a5, a6, a7,
      s0, s1, s2, s3, s3, s4, s5, s6, s7, s8, s9, s10, s11]"

text \<open>It ends with the jump to \<open>handle_trap\<close>.\<close>

definition trap_vector :: "instr list" where
  "trap_vector =
     [CSRRW sp sscratch sp,
      ADDI sp sp (of_nat offsetof_HartScratch_frame)] @
     map SAVE saved_registers @
     [CSRR t0 sscratch,
      SD t0 (offsetof_frame (Member sp)) sp,
      CSRR t0 sepc,
      SD t0 (offsetof_frame Member_pc) sp,
      ADDI sp sp (- of_nat offsetof_HartScratch_frame),
      CSRW sscratch sp,
      LD_kernel_page_satp t0,
      SFENCE_VMA,
      CSRW satp t0,
      SFENCE_VMA,
      LD t0 offsetof_HartScratch_current_process sp,
      BEQZ t0 2,
      LI t0 (of_nat (offsetof_HartScratch_work_stack + WORK_STACK_SIZE)),
      ADD sp sp t0]"

text \<open>It ends with \<open>sret\<close>.\<close>

definition restore_after_trap :: "instr list" where
  "restore_after_trap =
     [CSRR a0 sscratch,
      ADDI a0 a0 (of_nat offsetof_HartScratch_frame),
      LD t0 (offsetof_frame Member_satp) a0,
      SFENCE_VMA,
      CSRW satp t0,
      SFENCE_VMA] @
     map RESTORE restored_registers @
     [RESTORE a0]"

text \<open>The entry point of a hart; it ends with the jump to \<open>kernel_main\<close>.\<close>

definition boot :: "Symbols \<Rightarrow> instr list" where
  "boot sy =
     [MV t0 a0,
      LI t1 (of_nat sizeof_HartScratch),
      MUL t1 t1 t0,
      LA t0 (hart_scratches_addr sy),
      ADD sp t0 t1,
      CSRW sscratch sp,
      ADDI sp sp (of_nat offsetof_HartScratch_work_stack),
      LI t0 (of_nat WORK_STACK_SIZE),
      ADD sp sp t0]"

text \<open>What comes before \<open>kernel_switch\<close> in \<open>jump_into_processes\<close>.\<close>

definition reset_stack :: "instr list" where
  "reset_stack =
     [CSRR sp sscratch,
      LI a0 (of_nat (offsetof_HartScratch_work_stack + WORK_STACK_SIZE)),
      ADD sp sp a0,
      LI a0 0]"

section \<open>What the hardware does\<close>

definition sstatus_trap :: "bool \<Rightarrow> u64 \<Rightarrow> u64" where
  "sstatus_trap supervisor v =
     BIT_UNSET (BIT_BOOL (BIT_BOOL v SSTATUS_PRIVILEGE supervisor) SSTATUS_TRAPS_AFTER_SRET
       (BIT_GET v SSTATUS_TRAPS_NOW)) SSTATUS_TRAPS_NOW"

definition take_trap :: "u64 \<Rightarrow> u64 \<Rightarrow> nat \<Rightarrow> cpu \<Rightarrow> kernel \<Rightarrow> cpu \<times> kernel" where
  "take_trap cause tval h c k =
     (c\<lparr>cpu_pc := csrs k h stvec, cpu_supervisor := True\<rparr>,
      k\<lparr>csrs := (csrs k)(h := (csrs k h)(sepc := cpu_pc c, scause := cause, stval := tval,
          sstatus := sstatus_trap (cpu_supervisor c) (csrs k h sstatus)))\<rparr>)"

definition sstatus_sret :: "u64 \<Rightarrow> u64" where
  "sstatus_sret v =
     BIT_UNSET (BIT_SET (BIT_BOOL v SSTATUS_TRAPS_NOW (BIT_GET v SSTATUS_TRAPS_AFTER_SRET))
       SSTATUS_TRAPS_AFTER_SRET) SSTATUS_PRIVILEGE"

definition sret :: "nat \<Rightarrow> cpu \<Rightarrow> kernel \<Rightarrow> cpu \<times> kernel" where
  "sret h c k =
     (c\<lparr>cpu_pc := csrs k h sepc, cpu_supervisor := BIT_GET (csrs k h sstatus) SSTATUS_PRIVILEGE\<rparr>,
      k\<lparr>csrs := (csrs k)(h := (csrs k h)(sstatus := sstatus_sret (csrs k h sstatus)))\<rparr>)"

definition leave_kernel :: "Symbols \<Rightarrow> nat \<Rightarrow> cpu \<Rightarrow> kernel \<Rightarrow> error + cpu \<times> kernel" where
  "leave_kernel sy h c k = bindr (exec sy h restore_after_trap c k) (\<lambda>(c1, k1). Inr (sret h c1 k1))"

section \<open>Addresses and members\<close>

lemma frame_layout_set: "m \<in> set frame_layout"
proof (cases m)
  case (Member r)
  then show ?thesis by (cases r) (simp_all add: frame_layout_def)
qed (simp_all add: frame_layout_def)

lemma offsetof_frame [simp]:
  "offsetof_frame m < 264" "offsetof_frame m mod 8 = 0" "frame_layout ! (offsetof_frame m div 8) = m"
proof -
  have "takeWhile (\<lambda>x. x \<noteq> m) frame_layout \<noteq> frame_layout"
    using frame_layout_set [of m] by (auto simp: takeWhile_eq_all_conv)
  then have "length (takeWhile (\<lambda>x. x \<noteq> m) frame_layout) < length frame_layout"
    by (metis length_takeWhile_le order_le_imp_less_or_eq takeWhile_eq_take take_all_iff order_refl)
  then show "offsetof_frame m < 264" "frame_layout ! (offsetof_frame m div 8) = m"
    using nth_length_takeWhile [of "\<lambda>x. x \<noteq> m" frame_layout]
    by (simp_all add: offsetof_frame_def) (simp add: frame_layout_def)
  show "offsetof_frame m mod 8 = 0" by (simp add: offsetof_frame_def)
qed

lemma put_reg_simps [simp]:
  "cpu_reg (put_reg r v c) = (cpu_reg c)(r := v)" "cpu_pc (put_reg r v c) = cpu_pc c"
  "cpu_supervisor (put_reg r v c) = cpu_supervisor c"
  by (simp_all add: put_reg_def)

lemma put_reg_twice [simp]: "put_reg r v (put_reg r w c) = put_reg r v c"
  by (simp add: put_reg_def)

lemma unat_of_nat_264 [simp]: "n < 264 \<Longrightarrow> unat (of_nat n :: addr) = n"
  by (simp add: unat_of_nat)

lemma store_scratch_member [simp]:
  "store_scratch sy h (hart_scratch_addr sy h + of_nat (offsetof_frame m)) v k =
     Inr (set_scratch h ((my_hart_scratch h k)\<lparr>hart_frame := set_member m v (hart_frame (my_hart_scratch h k))\<rparr>) k)"
  by (simp add: store_scratch_def Let_def)

lemma load_scratch_member [simp]:
  "load_scratch sy h (hart_scratch_addr sy h + of_nat (offsetof_frame m)) k =
     Inr (get_member m (hart_frame (my_hart_scratch h k)))"
  by (simp add: load_scratch_def Let_def)

lemma load_scratch_process [simp]:
  "load_scratch sy h (hart_scratch_addr sy h + of_nat offsetof_HartScratch_current_process) k =
     Inr (process_pointer sy (current_process (my_hart_scratch h k)))"
  by (simp add: load_scratch_def Let_def offsetof_HartScratch_current_process_def)

section \<open>Saving and restoring the registers\<close>

lemma set_scratch_twice [simp]: "set_scratch h b (set_scratch h a k) = set_scratch h b k"
  by (simp add: set_scratch_def)

lemma set_reg_override: "(set_reg x (g x) f)\<lparr>frame_regs := override_on (frame_regs (set_reg x (g x) f)) g A\<rparr> =
    f\<lparr>frame_regs := override_on (frame_regs f) g (insert x A)\<rparr>"
  by (simp add: set_reg_def override_on_def fun_eq_iff cong: if_cong)

lemma exec_saves:
  assumes "h < length (hart_scratches k)" and "cpu_reg c sp = hart_scratch_addr sy h" and "rs \<noteq> []"
  shows "exec sy h (map SAVE rs @ code) c k = exec sy h code c (set_scratch h ((my_hart_scratch h k)
     \<lparr>hart_frame := (hart_frame (my_hart_scratch h k))
       \<lparr>frame_regs := override_on (frame_regs (hart_frame (my_hart_scratch h k))) (cpu_reg c) (set rs)\<rparr>\<rparr>) k)"
  using assms(1,3)
proof (induction rs arbitrary: k)
  case (Cons x rs)
  let ?k1 = "set_scratch h ((my_hart_scratch h k)\<lparr>hart_frame := set_reg x (cpu_reg c x) (hart_frame (my_hart_scratch h k))\<rparr>) k"
  have len: "h < length (hart_scratches ?k1)" using Cons.prems by (simp add: set_scratch_def)
  have first: "exec sy h (map SAVE (x # rs) @ code) c k = exec sy h (map SAVE rs @ code) c ?k1"
    by (simp add: SAVE_def assms(2) set_member_def)
  show ?case
  proof (cases "rs = []")
    case True
    have "set_reg x (cpu_reg c x) f = f\<lparr>frame_regs := override_on (frame_regs f) (cpu_reg c) {x}\<rparr>" for f
      by (simp add: set_reg_def override_on_def fun_eq_iff)
    then show ?thesis unfolding first by (simp add: True)
  next
    case False
    then show ?thesis
      unfolding first Cons.IH [OF len False] using Cons.prems(1)
      by (simp add: set_reg_override del: set_reg_simps)
  qed
qed simp

lemma exec_restores:
  assumes "cpu_reg c a0 = hart_scratch_addr sy h" and "a0 \<notin> set rs"
  shows "exec sy h (map RESTORE rs @ code) c k = exec sy h code (c\<lparr>cpu_reg := override_on (cpu_reg c)
     (frame_regs (hart_frame (my_hart_scratch h k))) (set rs)\<rparr>) k"
  using assms
proof (induction rs arbitrary: c)
  case Nil
  then show ?case by simp
next
  case (Cons x rs)
  let ?g = "frame_regs (hart_frame (my_hart_scratch h k))"
  have first: "exec sy h (map RESTORE (x # rs) @ code) c k = exec sy h (map RESTORE rs @ code) (put_reg x (?g x) c) k"
    by (simp add: RESTORE_def Cons.prems(1) get_member_def)
  have "cpu_reg (put_reg x (?g x) c) a0 = hart_scratch_addr sy h" "a0 \<notin> set rs" using Cons.prems by auto
  note IH = Cons.IH [OF this]
  have "override_on (cpu_reg (put_reg x (?g x) c)) ?g (set rs) = override_on (cpu_reg c) ?g (set (x # rs))"
    by (simp add: override_on_def fun_eq_iff)
  then show ?case unfolding first IH by (simp add: put_reg_def)
qed

lemma saved_registers_all: "r \<in> set saved_registers \<longleftrightarrow> r \<noteq> sp"
  by (cases r) (simp_all add: saved_registers_def)

lemma restored_registers_all: "r \<in> set restored_registers \<longleftrightarrow> r \<noteq> a0"
  by (cases r) (simp_all add: restored_registers_def)

section \<open>The trap vector\<close>

text \<open>The scratch register of a hart points at its scratch whenever the hart is outside the trap vector.\<close>

definition scratch_ok :: "Symbols \<Rightarrow> nat \<Rightarrow> kernel \<Rightarrow> bool" where
  "scratch_ok sy h k \<longleftrightarrow> h < length (hart_scratches k) \<and> csrs k h sscratch = hart_scratch_addr sy h \<and>
     (\<forall>p. current_process (my_hart_scratch h k) = Some p \<longrightarrow> process_pointer sy (Some p) \<noteq> 0)"

definition trap_frame :: "nat \<Rightarrow> cpu \<Rightarrow> kernel \<Rightarrow> TrapFrame" where
  "trap_frame h c k = \<lparr>frame_regs = cpu_reg c, frame_pc = csrs k h sepc,
     frame_satp = frame_satp (hart_frame (my_hart_scratch h k))\<rparr>"

text \<open>The state in which \<open>handle_trap\<close> starts.\<close>

definition trapped :: "nat \<Rightarrow> cpu \<Rightarrow> kernel \<Rightarrow> kernel" where
  "trapped h c k = (set_scratch h ((my_hart_scratch h k)\<lparr>hart_frame := trap_frame h c k\<rparr>) k)
     \<lparr>csrs := (csrs k)(h := (csrs k h)(satp := kernel_page_satp (kernel_table k)))\<rparr>"

lemma set_scratch_fields:
  "csrs (set_scratch h hs k) = csrs k" "kernel_table (set_scratch h hs k) = kernel_table k"
  "length (hart_scratches (set_scratch h hs k)) = length (hart_scratches k)"
  by (simp_all add: set_scratch_def)

lemma trap_vector_ok:
  assumes ok: "scratch_ok sy h k"
  shows "\<exists>c'. exec sy h trap_vector c k = Inr (c', trapped h c k) \<and>
     cpu_reg c' sp = (if current_process (my_hart_scratch h k) = None then hart_scratch_addr sy h
       else hart_scratch_addr sy h + of_nat (offsetof_HartScratch_work_stack + WORK_STACK_SIZE))"
proof -
  let ?A = "hart_scratch_addr sy h" and ?hs = "my_hart_scratch h k"
  have h: "h < length (hart_scratches k)" and scr: "csrs k h sscratch = ?A"
    and p: "process_pointer sy (current_process ?hs) = 0 \<longleftrightarrow> current_process ?hs = None"
    using ok by (auto simp: scratch_ok_def process_pointer_def split: option.splits)
  define k1 where "k1 = k\<lparr>csrs := (csrs k)(h := (csrs k h)(sscratch := cpu_reg c sp))\<rparr>"
  define c1 where "c1 = put_reg sp ?A c"
  have k1: "h < length (hart_scratches k1)" "my_hart_scratch h k1 = ?hs" using h by (simp_all add: k1_def)
  have enter: "exec sy h trap_vector c k = exec sy h (map SAVE saved_registers @ drop (Suc (Suc (length saved_registers))) trap_vector) c1 k1"
    by (simp add: trap_vector_def csr_write_def scr k1_def c1_def offsetof_HartScratch_frame_def put_reg_def)
  have rest: "drop (Suc (Suc (length saved_registers))) trap_vector =
     [CSRR t0 sscratch, SD t0 (offsetof_frame (Member sp)) sp, CSRR t0 sepc, SD t0 (offsetof_frame Member_pc) sp,
      ADDI sp sp (- of_nat offsetof_HartScratch_frame), CSRW sscratch sp, LD_kernel_page_satp t0, SFENCE_VMA,
      CSRW satp t0, SFENCE_VMA, LD t0 offsetof_HartScratch_current_process sp, BEQZ t0 2,
      LI t0 (of_nat (offsetof_HartScratch_work_stack + WORK_STACK_SIZE)), ADD sp sp t0]"
    by (simp add: trap_vector_def)
  have regs: "(override_on f (cpu_reg c1) (set saved_registers))(sp := cpu_reg c sp) = cpu_reg c" for f
    by (auto simp: fun_eq_iff override_on_def saved_registers_all c1_def)
  define F where "F = (hart_frame ?hs)\<lparr>frame_regs := override_on (frame_regs (hart_frame ?hs)) (cpu_reg c1) (set saved_registers)\<rparr>"
  have frame: "(set_reg sp (cpu_reg c sp) F)\<lparr>frame_pc := csrs k h sepc\<rparr> = trap_frame h c k"
    by (simp add: F_def set_reg_def regs trap_frame_def)
  have "cpu_reg c1 sp = ?A" by (simp add: c1_def)
  have saved: "exec sy h (map SAVE saved_registers @ code) c1 k1 = exec sy h code c1 (set_scratch h (?hs\<lparr>hart_frame := F\<rparr>) k1)" for code
    using exec_saves [OF k1(1) \<open>cpu_reg c1 sp = ?A\<close>, of saved_registers code]
    by (simp add: k1(2) F_def) (simp add: saved_registers_def)
  have K: "csrs (set_scratch h hs k1) = (csrs k)(h := (csrs k h)(sscratch := cpu_reg c sp))"
      "kernel_table (set_scratch h hs k1) = kernel_table k" "my_hart_scratch h (set_scratch h hs k1) = hs" for hs
    using k1 by (simp_all add: set_scratch_def k1_def my_hart_scratch_def)
  have state: "(set_scratch h hs k1)\<lparr>csrs := (csrs k)(h := (csrs k h)(sscratch := ?A, satp := v))\<rparr> =
      (set_scratch h hs k)\<lparr>csrs := (csrs k)(h := (csrs k h)(satp := v))\<rparr>" for hs v
    by (simp add: k1_def set_scratch_def fun_upd_idem scr)
  show ?thesis
    unfolding enter saved rest
    using p K h frame
    by (simp add: csr_read_def csr_write_def set_member_def c1_def state trapped_def offsetof_HartScratch_frame_def)
qed

text \<open>
  The trap vector stores every register of the interrupted code, its stack pointer and its program
  counter included, in the frame of the hart's scratch and nowhere else, gives the scratch register its value
  back, and switches to the kernel's address space; a hart that runs a process gets the top of its work stack.
\<close>

theorem trap_vector_saves:
  assumes "scratch_ok sy h k"
  shows "\<exists>c' k'. exec sy h trap_vector c k = Inr (c', k') \<and>
     frame_regs (hart_frame (my_hart_scratch h k')) = cpu_reg c \<and>
     frame_pc (hart_frame (my_hart_scratch h k')) = csrs k h sepc \<and>
     csrs k' = (csrs k)(h := (csrs k h)(satp := kernel_page_satp (kernel_table k))) \<and>
     (\<forall>g. g \<noteq> h \<longrightarrow> hart_scratches k' ! g = hart_scratches k ! g) \<and> processes k' = processes k \<and> locks k' = locks k \<and>
     current_process (my_hart_scratch h k') = current_process (my_hart_scratch h k) \<and>
     (current_process (my_hart_scratch h k) \<noteq> None \<longrightarrow>
       cpu_reg c' sp = hart_scratch_addr sy h + of_nat (offsetof_HartScratch_work_stack + WORK_STACK_SIZE))"
proof -
  have h: "h < length (hart_scratches k)" using assms by (simp add: scratch_ok_def)
  obtain c' where "exec sy h trap_vector c k = Inr (c', trapped h c k)" "cpu_reg c' sp =
      (if current_process (my_hart_scratch h k) = None then hart_scratch_addr sy h
       else hart_scratch_addr sy h + of_nat (offsetof_HartScratch_work_stack + WORK_STACK_SIZE))"
    using trap_vector_ok [OF assms] by blast
  then show ?thesis
    using h by (intro exI [of _ c'] exI [of _ "trapped h c k"])
      (simp add: trapped_def trap_frame_def set_scratch_def my_hart_scratch_def)
qed

text \<open>A hart whose scratch register is set.\<close>

definition with_scratch :: "Symbols \<Rightarrow> nat \<Rightarrow> kernel \<Rightarrow> kernel" where
  "with_scratch sy h k = snd (csr_write sscratch (hart_scratch_addr sy h) h k)"

lemma sample_scratch_ok: "scratch_ok sample_symbols 0 (with_scratch sample_symbols 0 sample_running)"
  by (simp add: scratch_ok_def with_scratch_def csr_write_def sample_running_fields process_pointer_def
      sample_symbols_def sizeof_Process_def) (simp add: sample_running_def set_scratch_def)

definition sample_cpu :: cpu where
  "sample_cpu = \<lparr>cpu_reg = (\<lambda>r. if r = s11 then 7 else 0), cpu_pc = 0x80204000, cpu_supervisor = True\<rparr>"

lemma trap_vector_saves_witness:
  "\<exists>c' k'. exec sample_symbols 0 trap_vector sample_cpu (with_scratch sample_symbols 0 sample_running) = Inr (c', k') \<and>
     frame_regs (hart_frame (my_hart_scratch 0 k')) s11 = 7"
  using trap_vector_saves [OF sample_scratch_ok, of sample_cpu] by (auto simp: sample_cpu_def)

section \<open>Going back\<close>

lemma restore_ok:
  assumes "csrs k h sscratch = hart_scratch_addr sy h"
  shows "exec sy h restore_after_trap c k =
    Inr (c\<lparr>cpu_reg := frame_regs (hart_frame (my_hart_scratch h k))\<rparr>,
      snd (csr_write satp (frame_satp (hart_frame (my_hart_scratch h k))) h k))"
proof -
  let ?f = "hart_frame (my_hart_scratch h k)" and ?A = "hart_scratch_addr sy h"
  define k1 where "k1 = snd (csr_write satp (frame_satp ?f) h k)"
  define c1 where "c1 = put_reg t0 (frame_satp ?f) (put_reg a0 ?A c)"
  have hs: "my_hart_scratch h k1 = my_hart_scratch h k" by (simp add: k1_def csr_write_def)
  have c1: "cpu_reg c1 a0 = ?A" by (simp add: c1_def)
  have no: "a0 \<notin> set restored_registers" by (simp add: restored_registers_all)
  have "exec sy h restore_after_trap c k = exec sy h (map RESTORE restored_registers @ [RESTORE a0]) c1 k1"
    using assms by (simp add: restore_after_trap_def csr_read_def offsetof_HartScratch_frame_def get_member_def
        k1_def c1_def csr_write_def)
  also have "\<dots> = exec sy h [RESTORE a0] (c1\<lparr>cpu_reg := override_on (cpu_reg c1) (frame_regs ?f) (set restored_registers)\<rparr>) k1"
    using exec_restores [OF c1 no] by (simp add: hs)
  also have "\<dots> = Inr (c1\<lparr>cpu_reg := (override_on (cpu_reg c1) (frame_regs ?f) (set restored_registers))(a0 := frame_regs ?f a0)\<rparr>, k1)"
    using c1 no by (simp add: RESTORE_def get_member_def hs put_reg_def)
  also have "(override_on (cpu_reg c1) (frame_regs ?f) (set restored_registers))(a0 := frame_regs ?f a0) = frame_regs ?f"
    by (auto simp: fun_eq_iff override_on_def restored_registers_all)
  also have "c1\<lparr>cpu_reg := frame_regs ?f\<rparr> = c\<lparr>cpu_reg := frame_regs ?f\<rparr>" by (simp add: c1_def put_reg_def)
  finally show ?thesis by (simp add: k1_def)
qed

lemma leave_kernel_ok:
  assumes "csrs k h sscratch = hart_scratch_addr sy h"
  shows "\<exists>k'. leave_kernel sy h c k = Inr (\<lparr>cpu_reg = frame_regs (hart_frame (my_hart_scratch h k)),
      cpu_pc = csrs k h sepc, cpu_supervisor = bit (csrs k h sstatus) SSTATUS_PRIVILEGE\<rparr>, k') \<and>
     csrs k' h satp = frame_satp (hart_frame (my_hart_scratch h k)) \<and>
     traps_enabled h k' = bit (csrs k h sstatus) SSTATUS_TRAPS_AFTER_SRET \<and> csrs k' h sscratch = csrs k h sscratch \<and>
     k' = k\<lparr>csrs := csrs k'\<rparr> \<and> (\<forall>g. g \<noteq> h \<longrightarrow> csrs k' g = csrs k g)"
proof -
  let ?k1 = "snd (csr_write satp (frame_satp (hart_frame (my_hart_scratch h k))) h k)"
  let ?k' = "snd (sret h (c\<lparr>cpu_reg := frame_regs (hart_frame (my_hart_scratch h k))\<rparr>) ?k1)"
  have "bit (sstatus_sret v) SSTATUS_TRAPS_NOW = bit v SSTATUS_TRAPS_AFTER_SRET" for v
    by (simp add: sstatus_sret_def bit_BIT_BOOL bit_BIT_SET bit_BIT_UNSET BIT_GET_bit SSTATUS_PRIVILEGE_def
        SSTATUS_TRAPS_AFTER_SRET_def SSTATUS_TRAPS_NOW_def)
  then have "traps_enabled h ?k' = bit (csrs k h sstatus) SSTATUS_TRAPS_AFTER_SRET"
    by (simp add: traps_enabled_def sret_def csr_write_def)
  then show ?thesis
    by (intro exI [of _ ?k'])
      (simp add: leave_kernel_def restore_ok [OF assms] sret_def csr_write_def BIT_GET_bit)
qed

lemma sstatus_trap_bits:
  "bit (sstatus_trap s v) SSTATUS_PRIVILEGE = s" "bit (sstatus_trap s v) SSTATUS_TRAPS_AFTER_SRET = bit v SSTATUS_TRAPS_NOW"
  "\<not> bit (sstatus_trap s v) SSTATUS_TRAPS_NOW"
  by (simp_all add: sstatus_trap_def bit_BIT_BOOL bit_BIT_UNSET BIT_GET_bit SSTATUS_PRIVILEGE_def
      SSTATUS_TRAPS_AFTER_SRET_def SSTATUS_TRAPS_NOW_def)

lemma scratch_ok_take_trap: "scratch_ok sy h (snd (take_trap cause tval h c k)) = scratch_ok sy h k"
  by (simp add: scratch_ok_def take_trap_def)

text \<open>
  C32: entering and leaving the kernel is a round trip: if the handler, whatever it does to the registers
  and to the rest of the kernel, keeps the frame of the scratch and the three control registers, then the
  interrupted code goes on with every register, at the same place, in the same mode and with traps on or
  off as before, in the address space that the frame names.
\<close>

theorem trap_round_trip:
  assumes "scratch_ok sy h k"
  shows "\<exists>c2 k2. exec sy h trap_vector (fst (take_trap cause tval h c k)) (snd (take_trap cause tval h c k)) = Inr (c2, k2) \<and>
     (\<forall>c3 k3. hart_frame (my_hart_scratch h k3) = hart_frame (my_hart_scratch h k2) \<and> csrs k3 h = csrs k2 h \<longrightarrow>
       (\<exists>k4. leave_kernel sy h c3 k3 = Inr (c, k4) \<and> traps_enabled h k4 = traps_enabled h k \<and>
          csrs k4 h satp = frame_satp (hart_frame (my_hart_scratch h k)) \<and> k4 = k3\<lparr>csrs := csrs k4\<rparr>))"
proof -
  obtain c1 k1 where t: "take_trap cause tval h c k = (c1, k1)" by fastforce
  then have k1: "csrs k1 h sepc = cpu_pc c" "csrs k1 h sstatus = sstatus_trap (cpu_supervisor c) (csrs k h sstatus)"
      "cpu_reg c1 = cpu_reg c" "my_hart_scratch h k1 = my_hart_scratch h k"
      "hart_scratches k1 = hart_scratches k" "csrs k1 h sscratch = csrs k h sscratch"
    by (auto simp: take_trap_def)
  have ok: "scratch_ok sy h k1" using scratch_ok_take_trap [of sy h cause tval c k] assms t by simp
  have h: "h < length (hart_scratches k1)" using ok by (simp add: scratch_ok_def)
  obtain c2 where run: "exec sy h trap_vector c1 k1 = Inr (c2, trapped h c1 k1)" using trap_vector_ok [OF ok] by blast
  have k2: "hart_frame (my_hart_scratch h (trapped h c1 k1)) = trap_frame h c1 k1"
      "csrs (trapped h c1 k1) h = (csrs k1 h)(satp := kernel_page_satp (kernel_table k1))"
    using h by (simp_all add: trapped_def)
  have "\<exists>k4. leave_kernel sy h c3 k3 = Inr (c, k4) \<and> traps_enabled h k4 = traps_enabled h k \<and>
      csrs k4 h satp = frame_satp (hart_frame (my_hart_scratch h k)) \<and> k4 = k3\<lparr>csrs := csrs k4\<rparr>"
    if f: "hart_frame (my_hart_scratch h k3) = hart_frame (my_hart_scratch h (trapped h c1 k1))"
      "csrs k3 h = csrs (trapped h c1 k1) h" for c3 k3
  proof -
    have "csrs k3 h sscratch = hart_scratch_addr sy h" using f(2) ok by (simp add: k2 scratch_ok_def)
    note left = leave_kernel_ok [OF this, of c3]
    have "\<lparr>cpu_reg = cpu_reg c, cpu_pc = cpu_pc c, cpu_supervisor = cpu_supervisor c\<rparr> = c" by simp
    then show ?thesis
      using left unfolding f k2 by (auto simp: trap_frame_def k1 sstatus_trap_bits traps_enabled_def)
  qed
  then show ?thesis using run by (auto simp: t)
qed

lemma trap_round_trip_witness:
  "\<exists>c2 k2 k4. exec sample_symbols 0 trap_vector
       (fst (take_trap 2 0 0 sample_cpu (with_scratch sample_symbols 0 sample_running)))
       (snd (take_trap 2 0 0 sample_cpu (with_scratch sample_symbols 0 sample_running))) = Inr (c2, k2) \<and>
     leave_kernel sample_symbols 0 c2 k2 = Inr (sample_cpu, k4)"
  using trap_round_trip [OF sample_scratch_ok, of 2 0 sample_cpu] by blast

section \<open>The stack of a trap\<close>

text \<open>
  A trap of a hart that runs no process does not stay on its stack: \<open>sp\<close> is left pointing at the
  hart's scratch, where the work stack of the hart before it ends, so the two handlers use the same memory.
\<close>

theorem trap_stacks_collide:
  assumes "scratch_ok sy h k" and "scratch_ok sy (Suc h) k"
    and "current_process (my_hart_scratch h k) \<noteq> None" and "current_process (my_hart_scratch (Suc h) k) = None"
  shows "\<exists>c1 k1 c2 k2. exec sy h trap_vector c k = Inr (c1, k1) \<and> exec sy (Suc h) trap_vector c' k = Inr (c2, k2) \<and>
     cpu_reg c1 sp = cpu_reg c2 sp"
proof -
  have "hart_scratch_addr sy (Suc h) = hart_scratch_addr sy h + of_nat (offsetof_HartScratch_work_stack + WORK_STACK_SIZE)"
    by (simp add: hart_scratch_addr_def sizeof_HartScratch_def offsetof_HartScratch_work_stack_def WORK_STACK_SIZE_def
        algebra_simps)
  then show ?thesis using trap_vector_ok [OF assms(1), of c] trap_vector_ok [OF assms(2), of c'] assms(3,4) by auto
qed

lemma sample_two_scratches:
  "scratch_ok sample_symbols 0 (with_scratch sample_symbols 1 (with_scratch sample_symbols 0 sample_running))"
  "scratch_ok sample_symbols (Suc 0) (with_scratch sample_symbols 1 (with_scratch sample_symbols 0 sample_running))"
  "current_process (my_hart_scratch 0 (with_scratch sample_symbols 1 (with_scratch sample_symbols 0 sample_running))) \<noteq> None"
  "current_process (my_hart_scratch (Suc 0) (with_scratch sample_symbols 1 (with_scratch sample_symbols 0 sample_running))) = None"
  by (simp_all add: scratch_ok_def with_scratch_def csr_write_def sample_running_fields process_pointer_def
      sample_symbols_def sizeof_Process_def) (simp_all add: sample_running_def set_scratch_def my_hart_scratch_def)

lemma trap_stacks_collide_witness:
  "\<exists>k c1 k1 c2 k2. exec sample_symbols 0 trap_vector sample_cpu k = Inr (c1, k1) \<and>
     exec sample_symbols (Suc 0) trap_vector sample_cpu k = Inr (c2, k2) \<and> cpu_reg c1 sp = cpu_reg c2 sp"
  using trap_stacks_collide [OF sample_two_scratches, of sample_cpu sample_cpu] by blast

section \<open>The entry point\<close>

text \<open>
  The entry point gives hart \<open>h\<close>, whose number is in \<open>a0\<close>, a scratch register that points at its own
  scratch and a stack that ends where the scratch ends; the arguments of \<open>kernel_main\<close> are kept.
\<close>

theorem boot_ok:
  assumes "cpu_reg c a0 = of_nat h"
  shows "\<exists>c' k'. exec sy h (boot sy) c k = Inr (c', k') \<and> csrs k' h sscratch = hart_scratch_addr sy h \<and>
     cpu_reg c' sp = hart_scratch_addr sy (Suc h) \<and> cpu_reg c' a0 = cpu_reg c a0 \<and> cpu_reg c' a1 = cpu_reg c a1 \<and>
     k' = with_scratch sy h k"
  using assms
  by (simp add: boot_def csr_write_def with_scratch_def hart_scratch_addr_def sizeof_HartScratch_def
      offsetof_HartScratch_work_stack_def WORK_STACK_SIZE_def algebra_simps)

lemma boot_ok_witness:
  "\<exists>c' k'. exec sample_symbols 0 (boot sample_symbols) (sample_cpu\<lparr>cpu_reg := (\<lambda>r. 0)\<rparr>) sample_running = Inr (c', k') \<and>
     csrs k' 0 sscratch = 0x80208000"
  using boot_ok [of "sample_cpu\<lparr>cpu_reg := (\<lambda>r. 0)\<rparr>" 0 sample_symbols sample_running]
  by (auto simp: hart_scratch_addr_def sample_symbols_def)

end
