(* ===== verification/Lifecycle_Spec.thy ===== *)
theory Lifecycle_Spec
  imports Switch_Spec Address_Init
begin

text \<open>
  What creating and destroying a process do: they are steps of the abstract scheduler, a new process has
  a stack or an address space of its own, and its first switch enters it at its entry point.
\<close>

section \<open>Finding a slot\<close>

lemma find_unused_Some:
  "find_unused i ps = Some j \<Longrightarrow> i \<le> j \<and> j < i + length ps \<and> proc_state (ps ! (j - i)) = PROCESS_UNUSED \<and>
     (\<forall>q. i \<le> q \<and> q < j \<longrightarrow> proc_state (ps ! (q - i)) \<noteq> PROCESS_UNUSED)"
proof (induction ps arbitrary: i)
  case (Cons proc ps)
  show ?case
  proof (cases "proc_state proc = PROCESS_UNUSED")
    case False
    then have "find_unused (Suc i) ps = Some j" using Cons.prems by simp
    from Cons.IH [OF this] have IH: "Suc i \<le> j" "j < Suc i + length ps" "proc_state (ps ! (j - Suc i)) = PROCESS_UNUSED"
        "\<And>q. Suc i \<le> q \<Longrightarrow> q < j \<Longrightarrow> proc_state (ps ! (q - Suc i)) \<noteq> PROCESS_UNUSED"
      by auto
    have at: "(proc # ps) ! (q - i) = (if q = i then proc else ps ! (q - Suc i))" if "i \<le> q" for q
      using that by (simp add: nth_Cons')
    have "proc_state ((proc # ps) ! (q - i)) \<noteq> PROCESS_UNUSED" if "i \<le> q" "q < j" for q
      using that False IH(4) [of q] by (simp add: at)
    moreover have "proc_state ((proc # ps) ! (j - i)) = PROCESS_UNUSED" using IH(1,3) by (simp add: at)
    ultimately show ?thesis using IH(1,2) by simp
  qed (use Cons in auto)
qed simp

lemma find_unused_None: "find_unused i ps = None \<longleftrightarrow> (\<forall>proc\<in>set ps. proc_state proc \<noteq> PROCESS_UNUSED)"
  by (induction ps arbitrary: i) auto

section \<open>Creating\<close>

lemma zero_buffer: "\<exists>b. Buffer_wrap (array (proc_buffer Process_zero)) BUFFER_LEN = Inr b \<and> Buffer_ok b \<and> pending b = []"
  using Buffer_wrap_ok [of BUFFER_LEN "array (proc_buffer Process_zero)"]
  by (auto simp: Process_zero_def BUFFER_LEN_def)

text \<open>The slot that is taken, and the state the kernel is left in.\<close>

lemma Process_create_cases:
  assumes ok: "sched_ok h k"
  shows "((\<forall>p<32. proc_state (processes k ! p) \<noteq> PROCESS_UNUSED) \<and>
       Process_create ss args h k = Inl (Panic ''no more available processes'')) \<or>
    (\<exists>i<32. proc_state (processes k ! i) = PROCESS_UNUSED \<and>
       (\<forall>q<i. proc_state (processes k ! q) \<noteq> PROCESS_UNUSED) \<and>
       (case Process_setup ss args i k of
          Inl e \<Rightarrow> Process_create ss args h k = Inl e
        | Inr (proc, vm1) \<Rightarrow> \<exists>k'. Process_create ss args h k = Inr (i, k') \<and> vm k' = vm1 \<and>
            processes k' = (processes k)[i := proc\<lparr>proc_state := PROCESS_READY\<rparr>] \<and>
            csrs k' = csrs k \<and> kernel_table k' = kernel_table k \<and> sbi k' = sbi k \<and>
            map strip_hart (hart_scratches k') = map strip_hart (hart_scratches k) \<and>
            locks k' = (locks k)(processes_lock := \<lparr>locked = 0, hart_owner = -1\<rparr>)))"
proof -
  have hart: "hart_ok h k" and len: "length (processes k) = 32" and free: "locked (locks k processes_lock) = 0"
    using ok by (simp_all add: sched_ok_def processes_ok_def maximum_32)
  have h: "h < length (hart_scratches k)" using hart by (simp add: hart_ok_def)
  let ?k1 = "entered processes_lock h k"
  note f = entered_fields [OF h, of processes_lock]
  have tk: "take PROCESSES_MAXIMUM (processes k) = processes k" using len by (simp add: maximum_32)
  have same_setup: "Process_setup ss args i ?k1 = Process_setup ss args i k" for i
    by (simp only: Process_setup_def f)
  show ?thesis
  proof (cases "find_unused 0 (processes k)")
    case None
    then have "\<forall>p<32. proc_state (processes k ! p) \<noteq> PROCESS_UNUSED"
      using len by (simp add: find_unused_None all_set_conv_all_nth)
    moreover have "Process_create ss args h k = Inl (Panic ''no more available processes'')"
      using None free by (simp add: Process_create_def SpinLock_acquire_eq f tk)
    ultimately show ?thesis by blast
  next
    case (Some i)
    have i: "i < 32" "proc_state (processes k ! i) = PROCESS_UNUSED"
        "\<forall>q<i. proc_state (processes k ! q) \<noteq> PROCESS_UNUSED"
      using find_unused_Some [OF Some] len by auto
    show ?thesis
    proof (cases "Process_setup ss args i k")
      case (Inl e)
      then show ?thesis using i Some free by (auto simp: Process_create_def SpinLock_acquire_eq f tk same_setup)
    next
      case (Inr r)
      obtain proc vm1 where r: "r = (proc, vm1)" by (cases r)
      define k2 where "k2 = set_process i (proc\<lparr>proc_state := PROCESS_READY\<rparr>) (?k1\<lparr>vm := vm1\<rparr>)"
      have body: "body_keeps h ?k1 k2" by (simp add: body_keeps_def k2_def set_process_def)
      define k3 where "k3 = k2\<lparr>csrs := csrs k, locks := (locks k2)(processes_lock := \<lparr>locked = 0, hart_owner = -1\<rparr>),
         hart_scratches := (hart_scratches k2)[h := (my_hart_scratch h k2)\<lparr>lock_depth := lock_depth (my_hart_scratch h k)\<rparr>]\<rparr>"
      have run: "Process_create ss args h k = Inr (i, k3)"
        using Some free Inr r SpinLock_release_after [OF hart body]
        by (simp add: Process_create_def SpinLock_acquire_eq f tk same_setup k2_def k3_def Let_def)
      have "map strip_hart (hart_scratches k2) = map strip_hart ((hart_scratches k)[h := (my_hart_scratch h k)
          \<lparr>interrupts_before_locking := (if lock_depth (my_hart_scratch h k) = 0 then traps_enabled h k
              else interrupts_before_locking (my_hart_scratch h k)), lock_depth := lock_depth (my_hart_scratch h k) + 1\<rparr>])"
        by (simp add: k2_def set_process_def entered_def Let_def)
      note harts = strip_hart_release [OF h this]
      have "vm k3 = vm1" "processes k3 = (processes k)[i := proc\<lparr>proc_state := PROCESS_READY\<rparr>]"
          "kernel_table k3 = kernel_table k" "csrs k3 = csrs k" "sbi k3 = sbi k"
          "map strip_hart (hart_scratches k3) = map strip_hart (hart_scratches k)"
          "locks k3 = (locks k)(processes_lock := \<lparr>locked = 0, hart_owner = -1\<rparr>)"
        using harts by (simp_all add: k3_def k2_def set_process_def f)
      with run Inr r i show ?thesis by auto
    qed
  qed
qed

text \<open>What the arguments need, and the pages they cost.\<close>

definition args_ok :: "Sections \<Rightarrow> ProcessArguments \<Rightarrow> bool" where
  "args_ok ss args \<longleftrightarrow> (case args of UserProgram s \<Rightarrow> user_sections_ok ss s USER_PROGRAM_BASE | KernelProcess entry \<Rightarrow> True)"

definition create_pages :: "Sections \<Rightarrow> ProcessArguments \<Rightarrow> nat" where
  "create_pages ss args = (case args of UserProgram s \<Rightarrow> user_init_pages ss s | KernelProcess entry \<Rightarrow> 1)"

text \<open>
  What a new process has: an empty output buffer, and either an address space of its own, in which it
  starts at the base of the program with the end of the program as its stack, or the kernel's, in which it
  starts at its entry with the top of a page that nobody had as its stack.
\<close>

definition fresh_process ::
    "Sections \<Rightarrow> ProcessArguments \<Rightarrow> PageTable set \<Rightarrow> kernel \<Rightarrow> VM \<Rightarrow> Process \<Rightarrow> bool" where
  "fresh_process ss args roots k vm1 proc \<longleftrightarrow> Buffer_ok (proc_buffer proc) \<and> pending (proc_buffer proc) = [] \<and>
     (let regs = frame_regs (proc_frame proc); table = proc_page_table proc in
      case args of
        UserProgram s \<Rightarrow> table \<notin> roots \<and> vm_ok ss vm1 (insert table roots) \<and> regs ra = USER_PROGRAM_BASE \<and>
          regs sp = USER_PROGRAM_BASE + Section_size s
      | KernelProcess entry \<Rightarrow> table = kernel_page_table (kernel_table k) \<and> vm_ok ss vm1 roots \<and> regs ra = entry \<and>
          regs sp - PAGE_SIZE \<notin> allocated ss (vm k) \<and> allocated ss vm1 = insert (regs sp - PAGE_SIZE) (allocated ss (vm k)))"

lemma Process_setup_ok:
  assumes ok: "vm_ok ss (vm k) roots" and args: "args_ok ss args"
  shows "(pages_left ss (vm k) < create_pages ss args \<and> Process_setup ss args i k = Inl out_of_pages) \<or>
    (\<exists>proc vm1. Process_setup ss args i k = Inr (proc, vm1) \<and> proc_id proc = of_nat i \<and>
       fresh_process ss args roots k vm1 proc)"
proof -
  obtain b where b: "Buffer_wrap (array (proc_buffer Process_zero)) BUFFER_LEN = Inr b" "Buffer_ok b" "pending b = []"
    using zero_buffer by blast
  show ?thesis
  proof (cases args)
    case (UserProgram s)
    have secs: "user_sections_ok ss s USER_PROGRAM_BASE" using args UserProgram by (simp add: args_ok_def)
    from PageTable_user_init_total [OF ok secs] show ?thesis
    proof
      assume "\<exists>table vm'. PageTable_user_init ss s USER_PROGRAM_BASE (vm k) = Inr (table, vm')"
      then obtain table vm' where t: "PageTable_user_init ss s USER_PROGRAM_BASE (vm k) = Inr (table, vm')" by blast
      from PageTable_user_init_ok(1,2) [OF ok secs t] show ?thesis
        by (simp add: UserProgram Process_setup_def b t Let_def fresh_process_def)
    qed (simp add: UserProgram Process_setup_def b create_pages_def)
  next
    case (KernelProcess entry)
    show ?thesis
    proof (cases "Page_alloc ss (vm k)")
      case (Inl e)
      then show ?thesis using Page_alloc_cases [OF ok]
        by (simp add: KernelProcess Process_setup_def b create_pages_def split: if_splits)
    next
      case (Inr r)
      then obtain p vm1 where a: "Page_alloc ss (vm k) = Inr (p, vm1)" by (cases r) simp
      have "vm_ok ss vm1 roots" by (rule vm_ok_subset [OF vm_ok_alloc(1) [OF ok a]]) auto
      then show ?thesis using Page_alloc_fresh(2,4) [OF ok a]
        by (simp add: KernelProcess Process_setup_def b a Let_def fresh_process_def)
    qed
  qed
qed

lemma sched_ok_created:
  assumes ok: "sched_ok h k" and i: "i < 32" "proc_state (processes k ! i) = PROCESS_UNUSED"
    and id: "proc_id proc = of_nat i" "proc_state proc = PROCESS_READY"
    and k': "processes k' = (processes k)[i := proc]" "map strip_hart (hart_scratches k') = map strip_hart (hart_scratches k)"
      "csrs k' = csrs k" "locked (locks k' processes_lock) = 0"
  shows "sched_ok h k' \<and> sched_step h (sched_of k) (sched_of k')"
proof -
  have len: "length (processes k) = 32" using ok by (simp add: sched_ok_def processes_ok_def maximum_32)
  have harts: "length (hart_scratches k') = length (hart_scratches k)" using k'(2) by (rule map_eq_imp_length_eq)
  have same: "strip_hart (hart_scratches k' ! g) = strip_hart (hart_scratches k ! g)" if "g < length (hart_scratches k)" for g
    using arg_cong [OF k'(2), of "\<lambda>l. l ! g"] that harts by simp
  have of: "sched_of k' = (sched_of k)\<lparr>pstate := (pstate (sched_of k))(i := PROCESS_READY)\<rparr>"
    using same len i id by (auto simp: sched_of_def fun_eq_iff harts k'(1) nth_list_update strip_hart_def)
  have "pstate (sched_of k) i = PROCESS_UNUSED" using i len by (simp add: sched_of_def)
  then have step: "sched_step h (sched_of k) (sched_of k')" unfolding of by (rule sched_step.create)
  have "processes_ok k'"
    by (rule processes_ok_update [of k i proc _, OF _ i(1) id(1) refl k'(1)]) (use ok in \<open>simp add: sched_ok_def\<close>)
  moreover have "hart_ok h k'"
    using ok same [of h] by (simp add: sched_ok_def hart_ok_def harts my_hart_scratch_def traps_enabled_def k'(3) strip_hart_def)
  ultimately show ?thesis using ok sched_inv_step [OF _ step] step k'(4) by (simp add: sched_ok_def)
qed

text \<open>Everything that creating a process can do.\<close>

lemma Process_create_ok:
  assumes ok: "sched_ok h k" and vm: "vm_ok ss (vm k) roots" and args: "args_ok ss args"
  shows "(Process_create ss args h k = Inl (Panic ''no more available processes'') \<and>
       (\<forall>p<32. proc_state (processes k ! p) \<noteq> PROCESS_UNUSED)) \<or>
    (Process_create ss args h k = Inl out_of_pages \<and> pages_left ss (vm k) < create_pages ss args) \<or>
    (\<exists>p<32. \<exists>proc k'. Process_create ss args h k = Inr (p, k') \<and> proc_state (processes k ! p) = PROCESS_UNUSED \<and>
       (\<forall>q<p. proc_state (processes k ! q) \<noteq> PROCESS_UNUSED) \<and> processes k' = (processes k)[p := proc] \<and>
       proc_id proc = of_nat p \<and> proc_state proc = PROCESS_READY \<and> fresh_process ss args roots k (vm k') proc \<and>
       csrs k' = csrs k \<and> kernel_table k' = kernel_table k \<and>
       map strip_hart (hart_scratches k') = map strip_hart (hart_scratches k) \<and>
       sched_ok h k' \<and> sched_step h (sched_of k) (sched_of k'))"
proof -
  consider "\<forall>p<32. proc_state (processes k ! p) \<noteq> PROCESS_UNUSED"
        "Process_create ss args h k = Inl (Panic ''no more available processes'')"
    | i where "i < 32" "proc_state (processes k ! i) = PROCESS_UNUSED" "\<forall>q<i. proc_state (processes k ! q) \<noteq> PROCESS_UNUSED"
        "case Process_setup ss args i k of Inl e \<Rightarrow> Process_create ss args h k = Inl e
         | Inr (proc, vm1) \<Rightarrow> \<exists>k'. Process_create ss args h k = Inr (i, k') \<and> vm k' = vm1 \<and>
            processes k' = (processes k)[i := proc\<lparr>proc_state := PROCESS_READY\<rparr>] \<and>
            csrs k' = csrs k \<and> kernel_table k' = kernel_table k \<and> sbi k' = sbi k \<and>
            map strip_hart (hart_scratches k') = map strip_hart (hart_scratches k) \<and>
            locks k' = (locks k)(processes_lock := \<lparr>locked = 0, hart_owner = -1\<rparr>)"
    using Process_create_cases [OF ok, of ss args] by blast
  then show ?thesis
  proof cases
    case 1
    then show ?thesis by blast
  next
    case (2 i)
    from Process_setup_ok [where i = i, OF vm args] show ?thesis
    proof
      assume "pages_left ss (vm k) < create_pages ss args \<and> Process_setup ss args i k = Inl out_of_pages"
      then show ?thesis using 2(4) by simp
    next
      assume "\<exists>proc vm1. Process_setup ss args i k = Inr (proc, vm1) \<and> proc_id proc = of_nat i \<and>
        fresh_process ss args roots k vm1 proc"
      then obtain proc vm1 where su: "Process_setup ss args i k = Inr (proc, vm1)" "proc_id proc = of_nat i"
          "fresh_process ss args roots k vm1 proc" by blast
      then obtain k' where k': "Process_create ss args h k = Inr (i, k')" "vm k' = vm1"
          "processes k' = (processes k)[i := proc\<lparr>proc_state := PROCESS_READY\<rparr>]" "csrs k' = csrs k"
          "kernel_table k' = kernel_table k" "map strip_hart (hart_scratches k') = map strip_hart (hart_scratches k)"
          "locks k' = (locks k)(processes_lock := \<lparr>locked = 0, hart_owner = -1\<rparr>)"
        using 2(4) by auto
      let ?proc = "proc\<lparr>proc_state := PROCESS_READY\<rparr>"
      have "sched_ok h k' \<and> sched_step h (sched_of k) (sched_of k')"
        by (rule sched_ok_created [OF ok 2(1,2) _ _ k'(3,6,4)]) (simp_all add: su k')
      moreover have "fresh_process ss args roots k (vm k') ?proc"
        using su(3) by (simp add: fresh_process_def k' cong: ProcessArguments.case_cong)
      ultimately show ?thesis
        using 2(1-3) k' su(2) by (intro disjI2 exI [of _ i] conjI exI [of _ ?proc] exI [of _ k']) simp_all
    qed
  qed
qed

text \<open>
  C17: \<open>Process_create\<close> either finds every slot taken, or runs out of pages when fewer than \<open>create_pages\<close>
  are left, or is a step of the abstract scheduler: it makes the first unused slot ready, under its own
  number, with an address space or a stack that nothing else has, and no other slot changes.
\<close>

theorem Process_create_refines:
  assumes "sched_ok h k" and "vm_ok ss (vm k) roots" and "args_ok ss args"
  shows "(Process_create ss args h k = Inl (Panic ''no more available processes'') \<and>
       (\<forall>p<PROCESSES_MAXIMUM. proc_state (processes k ! p) \<noteq> PROCESS_UNUSED)) \<or>
    (Process_create ss args h k = Inl out_of_pages \<and> pages_left ss (vm k) < create_pages ss args) \<or>
    (\<exists>p<PROCESSES_MAXIMUM. \<exists>proc k'. Process_create ss args h k = Inr (p, k') \<and>
       proc_state (processes k ! p) = PROCESS_UNUSED \<and> (\<forall>q<p. proc_state (processes k ! q) \<noteq> PROCESS_UNUSED) \<and>
       processes k' = (processes k)[p := proc] \<and> proc_id proc = of_nat p \<and> proc_state proc = PROCESS_READY \<and>
       fresh_process ss args roots k (vm k') proc \<and>
       sched_ok h k' \<and> sched_step h (sched_of k) (sched_of k'))"
  using Process_create_ok [OF assms] unfolding maximum_32 by blast

lemma sample_unused_ok: "sched_ok 0 (sample_kernel 1 (sample_table (\<lambda>i. PROCESS_UNUSED)))"
proof -
  have "sched_inv (sched_of (sample_kernel 1 (sample_table (\<lambda>i. PROCESS_UNUSED))))"
    by (auto simp: sched_inv_def sched_of_def split: if_splits)
  then show ?thesis by (simp add: sched_ok_def sample_hart_ok processes_ok_def maximum_32)
qed

definition sample_empty :: kernel where
  "sample_empty = sample_kernel 1 (sample_table (\<lambda>i. PROCESS_UNUSED))"

lemma sample_empty_facts:
  "sched_ok 0 sample_empty" "vm sample_empty = sample_vm" "p < 32 \<Longrightarrow> processes sample_empty ! p = sample_process p PROCESS_UNUSED"
  "current_process (my_hart_scratch 0 sample_empty) = None"
  using sample_unused_ok by (simp_all add: sample_empty_def sample_vm_def)

definition sample_program :: ProcessArguments where
  "sample_program = UserProgram (sample_section 0x80200000 0x80201000)"

lemma sample_program_facts:
  "args_ok sample_sections sample_program" "create_pages sample_sections sample_program = 13"
  using sample_user_sections
  by (simp_all add: sample_program_def args_ok_def USER_PROGRAM_BASE_def create_pages_def user_init_pages_def
      rounds_def section_rounds_def sample_sections_def sample_section_def)

lemma sample_empty_vm: "vm_ok sample_sections (vm sample_empty) {}"
  using sample_ok by (simp add: sample_empty_facts)

lemma Process_create_refines_witness:
  "\<exists>p k'. Process_create sample_sections sample_program 0 sample_empty = Inr (p, k') \<and> sched_ok 0 k'"
proof -
  from Process_create_refines [OF sample_empty_facts(1) sample_empty_vm sample_program_facts(1)]
  show ?thesis
  proof (elim disjE)
    assume "Process_create sample_sections sample_program 0 sample_empty = Inl (Panic ''no more available processes'') \<and>
       (\<forall>p<PROCESSES_MAXIMUM. proc_state (processes sample_empty ! p) \<noteq> PROCESS_UNUSED)"
    then have "proc_state (processes sample_empty ! 0) \<noteq> PROCESS_UNUSED" by (simp add: maximum_32)
    then show ?thesis using sample_empty_facts(3) [of 0] by simp
  next
    assume "Process_create sample_sections sample_program 0 sample_empty = Inl out_of_pages \<and>
      pages_left sample_sections (vm sample_empty) < create_pages sample_sections sample_program"
    then show ?thesis using sample_pages by (simp add: sample_empty_facts sample_program_facts)
  qed blast
qed

section \<open>Destroying\<close>

lemma Process_destroy_current_None:
  assumes ok: "sched_ok h k" and cur: "current_process (my_hart_scratch h k) = None"
  shows "Process_destroy_current h k = Inl (Panic ''clean_process called but no current_process'')"
proof -
  have h: "h < length (hart_scratches k)" using ok by (simp add: sched_ok_def hart_ok_def)
  have "current_process (my_hart_scratch h (entered processes_lock h k)) = None"
    using h cur by (simp add: entered_def Let_def my_hart_scratch_def)
  then show ?thesis
    using ok by (simp add: Process_destroy_current_def SpinLock_acquire_eq sched_ok_def)
qed

definition destroyed :: "nat \<Rightarrow> bool \<Rightarrow> nat \<Rightarrow> kernel \<Rightarrow> kernel" where
  "destroyed p ib h k = k\<lparr>locks := (locks k)(processes_lock := \<lparr>locked = 0, hart_owner = -1\<rparr>),
     hart_scratches := (hart_scratches k)[h := (my_hart_scratch h k)\<lparr>interrupts_before_locking := ib, current_process := None\<rparr>],
     processes := (processes k)[p := (processes k ! p)\<lparr>proc_id := - 1, proc_state := PROCESS_UNUSED\<rparr>]\<rparr>"

lemma Process_destroy_current_Some:
  assumes ok: "sched_ok h k" and cur: "current_process (my_hart_scratch h k) = Some p"
  shows "Process_destroy_current h k = Inr (destroyed p (lock_flag h k) h k)"
proof -
  have hart: "hart_ok h k" and len: "length (processes k) = 32" and free: "locked (locks k processes_lock) = 0"
    using ok by (simp_all add: sched_ok_def processes_ok_def maximum_32)
  have h: "h < length (hart_scratches k)" using hart by (simp add: hart_ok_def)
  let ?k1 = "entered processes_lock h k"
  note f = entered_fields [OF h, of processes_lock]
  define ib where "ib = lock_flag h k"
  have ib: "ib = interrupts_before_locking (my_hart_scratch h ?k1)"
    using h by (simp add: ib_def lock_flag_def entered_def Let_def my_hart_scratch_def)
  define k3 where "k3 = set_process p ((processes k ! p)\<lparr>proc_id := - 1, proc_state := PROCESS_UNUSED\<rparr>)
      (set_scratch h ((my_hart_scratch h ?k1)\<lparr>current_process := None\<rparr>) ?k1)"
  have body: "body_keeps h ?k1 k3"
    using h by (simp add: body_keeps_def k3_def set_process_def set_scratch_def my_hart_scratch_def f(3))
  have "SpinLock_release processes_lock h k3 = Inr (destroyed p ib h k)"
    using h by (simp add: SpinLock_release_after [OF hart body])
      (rule kernel.equality; simp add: k3_def destroyed_def set_process_def set_scratch_def my_hart_scratch_def entered_def Let_def ib)
  moreover have "current_process (my_hart_scratch h ?k1) = Some p"
    using h cur by (simp add: entered_def Let_def my_hart_scratch_def)
  moreover have "processes (set_scratch h hs ?k1) = processes k" for hs by (simp add: set_scratch_def f)
  ultimately show ?thesis
    using free sched_ok_current(1) [OF ok cur] len
    by (auto simp: Process_destroy_current_def SpinLock_acquire_eq Let_def deref_def k3_def ib_def [symmetric])
qed

lemma destroyed_ok:
  assumes ok: "sched_ok h k" and cur: "current_process (my_hart_scratch h k) = Some p"
  shows "sched_ok h (destroyed p ib h k) \<and> sched_step h (sched_of k) (sched_of (destroyed p ib h k))"
proof -
  have h: "h < length (hart_scratches k)" and len: "length (processes k) = 32"
    using ok by (simp_all add: sched_ok_def hart_ok_def processes_ok_def maximum_32)
  note p = sched_ok_current [OF ok cur]
  have of: "sched_of (destroyed p ib h k) = (sched_of k)\<lparr>owner := (owner (sched_of k))(h := None),
      pstate := (pstate (sched_of k))(p := PROCESS_UNUSED)\<rparr>"
    using h len p(1) by (auto simp: sched_of_def destroyed_def fun_eq_iff nth_list_update)
  then have step: "sched_step h (sched_of k) (sched_of (destroyed p ib h k))"
    using sched_step.destroy [of "sched_of k" h p] owner_current [OF h] cur by simp
  have "processes_ok (destroyed p ib h k)"
    using ok p(1) by (auto simp: sched_ok_def processes_ok_def destroyed_def nth_list_update maximum_32 split: if_splits)
  moreover have "hart_ok h (destroyed p ib h k)"
    using ok h by (simp add: sched_ok_def hart_ok_def destroyed_def my_hart_scratch_def traps_enabled_def)
  ultimately show ?thesis
    using ok sched_inv_step [OF _ step] step by (simp add: sched_ok_def destroyed_def)
qed

text \<open>
  \<open>Process_destroy_current\<close> panics when the hart runs no process, and is otherwise a step of the
  abstract scheduler: the hart runs nothing, the slot is unused again, no other slot changes, and the
  interrupts are as they were.
\<close>

theorem Process_destroy_refines:
  assumes "sched_ok h k"
  shows "case current_process (my_hart_scratch h k) of
      None \<Rightarrow> Process_destroy_current h k = Inl (Panic ''clean_process called but no current_process'')
    | Some p \<Rightarrow> \<exists>k'. Process_destroy_current h k = Inr k' \<and> sched_ok h k' \<and>
        sched_step h (sched_of k) (sched_of k') \<and> owner (sched_of k') h = None \<and>
        pstate (sched_of k') p = PROCESS_UNUSED \<and> csrs k' = csrs k \<and> (\<forall>q. q \<noteq> p \<longrightarrow> processes k' ! q = processes k ! q)"
proof (cases "current_process (my_hart_scratch h k)")
  case None
  then show ?thesis using Process_destroy_current_None [OF assms] by simp
next
  case (Some p)
  obtain ib where d: "Process_destroy_current h k = Inr (destroyed p ib h k)"
    using Process_destroy_current_Some [OF assms Some] by blast
  have h: "h < length (hart_scratches k)" and p: "p < length (processes k)"
    using assms sched_ok_current(1) [OF assms Some] by (simp_all add: sched_ok_def hart_ok_def processes_ok_def maximum_32)
  have "owner (sched_of (destroyed p ib h k)) h = None" "pstate (sched_of (destroyed p ib h k)) p = PROCESS_UNUSED"
      "csrs (destroyed p ib h k) = csrs k" "\<forall>q. q \<noteq> p \<longrightarrow> processes (destroyed p ib h k) ! q = processes k ! q"
    using h p by (simp_all add: sched_of_def destroyed_def)
  then show ?thesis using destroyed_ok [OF assms Some, of ib] Some d by simp
qed

lemma Process_destroy_refines_witness:
  "\<exists>k'. Process_destroy_current 0 sample_running = Inr k' \<and> sched_ok 0 k' \<and> pstate (sched_of k') 3 = PROCESS_UNUSED"
  using Process_destroy_refines [OF sample_running_ok] by (auto simp: sample_running_fields)

section \<open>The first run\<close>

text \<open>
  A process that was just created, and is the only one that can run, is entered by the next switch of
  any idle hart: a kernel process at its entry in supervisor mode, a user program at its base in user mode
  and in its own address space; returning from the entry leads to the exit function of its kind.
\<close>

theorem first_run_enters:
  assumes "sched_ok h k" and "vm_ok ss (vm k) roots" and "args_ok ss args"
    and "kernel_page_table (kernel_table k) \<in> roots"
    and "current_process (my_hart_scratch h k) = None" and "\<forall>q<PROCESSES_MAXIMUM. \<not> runnable (processes k ! q)"
    and "Process_create ss args h k = Inr (p, k1)"
  shows "\<exists>k2. kernel_switch sy board h k1 = Inr k2 \<and> current_process (my_hart_scratch h k2) = Some p \<and>
     (let f = hart_frame (my_hart_scratch h k2) in
      case args of
        UserProgram s \<Rightarrow> csrs k2 h sepc = USER_PROGRAM_BASE \<and> \<not> bit (csrs k2 h sstatus) SSTATUS_PRIVILEGE \<and>
          frame_regs f ra = ProcessExit_user_addr sy \<and> frame_regs f sp = USER_PROGRAM_BASE + Section_size s \<and>
          (\<exists>table. table \<notin> roots \<and> frame_satp f = SatpRegister_from_PageTable table \<and> vm_ok ss (vm k1) (insert table roots))
      | KernelProcess entry \<Rightarrow> csrs k2 h sepc = entry \<and> bit (csrs k2 h sstatus) SSTATUS_PRIVILEGE \<and>
          frame_regs f ra = ProcessExit_kernel_addr sy \<and>
          frame_satp f = SatpRegister_from_PageTable (kernel_page_table (kernel_table k)))"
proof -
  obtain proc where c: "p < 32" "processes k1 = (processes k)[p := proc]" "proc_state proc = PROCESS_READY"
      "fresh_process ss args roots k (vm k1) proc" "kernel_table k1 = kernel_table k"
      "map strip_hart (hart_scratches k1) = map strip_hart (hart_scratches k)" "sched_ok h k1"
    using Process_create_ok [OF assms(1-3)] assms(7) by auto
  have h: "h < length (hart_scratches k)" and len: "length (processes k) = 32"
    using assms(1) by (simp_all add: sched_ok_def hart_ok_def processes_ok_def maximum_32)
  have h1: "h < length (hart_scratches k1)" using c(7) by (simp add: sched_ok_def hart_ok_def)
  have "strip_hart (hart_scratches k1 ! h) = strip_hart (hart_scratches k ! h)"
    using arg_cong [OF c(6), of "\<lambda>l. l ! h"] h h1 by simp
  then have none: "before_choice h k1 = k1" using assms(5) by (simp add: before_choice_def strip_hart_def my_hart_scratch_def)
  have at: "processes k1 ! p = proc" using c(1,2) len by simp
  have "processes k1 ! q = processes k ! q" if "q \<noteq> p" for q using that by (simp add: c(2))
  then have only: "\<forall>q<32. runnable (processes k1 ! q) \<longrightarrow> q = p"
    using assms(6) unfolding maximum_32 by metis
  obtain k2 where k2: "kernel_switch sy board h k1 = Inr k2" "current_process (my_hart_scratch h k2) = Some p"
      "hart_frame (my_hart_scratch h k2) = loaded_frame sy True k1 proc" "csrs k2 h sepc = frame_regs (proc_frame proc) ra"
      "csrs k2 h sstatus = resume_sstatus (csrs k1 h sstatus) (Process_is_kernel_process proc k1)"
    using kernel_switch_only [OF c(7,1), of sy board] only by (auto simp: none at c(3) runnable_def)
  show ?thesis
  proof (cases args)
    case (UserProgram s)
    then have "proc_page_table proc \<noteq> kernel_page_table (kernel_table k)" using c(4) assms(4) by (auto simp: fresh_process_def Let_def)
    then show ?thesis
      using UserProgram c(4) k2 by (auto simp: fresh_process_def Let_def loaded_frame_def Process_is_kernel_process_def
          c(5) resume_sstatus_bits)
  next
    case (KernelProcess entry)
    then show ?thesis
      using c(4) k2 by (auto simp: fresh_process_def Let_def loaded_frame_def Process_is_kernel_process_def
          c(5) resume_sstatus_bits)
  qed
qed

text \<open>The kernel's table is a page that was allocated before.\<close>

definition sample_booted :: "PageTable \<Rightarrow> VM \<Rightarrow> kernel" where
  "sample_booted table vm1 = sample_empty\<lparr>vm := vm1, kernel_table := \<lparr>kernel_page_table = table, kernel_page_satp = 0\<rparr>\<rparr>"

lemma sample_booted_facts:
  "sched_ok 0 (sample_booted t v)" "vm (sample_booted t v) = v" "kernel_page_table (kernel_table (sample_booted t v)) = t"
  "current_process (my_hart_scratch 0 (sample_booted t v)) = None"
  "processes (sample_booted t v) = sample_table (\<lambda>i. PROCESS_UNUSED)"
  using sample_unused_ok
  by (simp_all add: sample_booted_def sample_empty_def sched_ok_def hart_ok_def processes_ok_def my_hart_scratch_def
      traps_enabled_def sched_of_def maximum_32 cong: if_cong)

lemma first_run_enters_witness:
  "\<exists>k p k1 k2. Process_create sample_sections (KernelProcess 0x80205000) 0 k = Inr (p, k1) \<and>
     kernel_switch sample_symbols board_virt 0 k1 = Inr k2 \<and> csrs k2 0 sepc = 0x80205000"
proof -
  obtain t v where a: "Page_alloc sample_sections sample_vm = Inr (t, v)" "pages_left sample_sections v = 255"
    using Page_alloc_cases [OF sample_ok] Page_alloc_fresh(5) [OF sample_ok] sample_pages by (auto split: if_splits)
  let ?k = "sample_booted t v" and ?args = "KernelProcess 0x80205000"
  have vm: "vm_ok sample_sections (vm ?k) {t}" using vm_ok_alloc(1) [OF sample_ok a(1)] by (simp add: sample_booted_facts)
  have args: "args_ok sample_sections ?args" by (simp add: args_ok_def)
  have free: "\<forall>q<32. proc_state (processes ?k ! q) = PROCESS_UNUSED" by (simp add: sample_booted_facts)
  have "proc_state (processes ?k ! 0) = PROCESS_UNUSED" by (simp add: sample_booted_facts)
  then obtain p k1 where c: "Process_create sample_sections ?args 0 ?k = Inr (p, k1)"
    using Process_create_ok [OF sample_booted_facts(1) vm args] a(2)
    by (auto simp: create_pages_def sample_booted_facts(2))
  have idle: "\<forall>q<PROCESSES_MAXIMUM. \<not> runnable (processes ?k ! q)" using free by (simp add: runnable_def maximum_32)
  from first_run_enters [OF sample_booted_facts(1) vm args _ sample_booted_facts(4) idle c, of sample_symbols board_virt]
  obtain k2 where "kernel_switch sample_symbols board_virt 0 k1 = Inr k2" "csrs k2 0 sepc = 0x80205000"
    by (auto simp: sample_booted_facts Let_def)
  with c show ?thesis by blast
qed

end
