(* ===== verification/Serial.thy ===== *)
theory Serial
  imports Kernel_IO
begin

text \<open>
  kernel/device/sifive\_uart.c: the second serial port.  The device is outside the program: \<open>dev a d\<close> is
  what a read of the word at \<open>a\<close> returns in its state \<open>d\<close>, and the state after it.
\<close>

section \<open>Registers\<close>

text \<open>The registers are words: \<open>SIFIVE_UART_REG\<close> adds to a pointer to 32-bit words.\<close>

definition SIFIVE_UART_REG :: "addr \<Rightarrow> u64 \<Rightarrow> addr" where
  "SIFIVE_UART_REG pointer register = pointer + 4 * register"

definition SIFIVE_UART_REG_RECEIVE_DATA :: u64 where "SIFIVE_UART_REG_RECEIVE_DATA = 1"
definition SIFIVE_UART_REG_RECEIVE_CONTROL :: u64 where "SIFIVE_UART_REG_RECEIVE_CONTROL = 3"
definition SIFIVE_UART_REG_INTERRUPT_ENABLE :: u64 where "SIFIVE_UART_REG_INTERRUPT_ENABLE = 4"
definition SIFIVE_UART_REG_INTERRUPT_PENDING :: u64 where "SIFIVE_UART_REG_INTERRUPT_PENDING = 5"
definition SIFIVE_UART_REG_BAUD_DIVISOR :: u64 where "SIFIVE_UART_REG_BAUD_DIVISOR = 6"
definition SIFIVE_UART_CONTROL_ENABLE :: nat where "SIFIVE_UART_CONTROL_ENABLE = 0"
definition SIFIVE_UART_INTERRUPT_RECEIVE :: nat where "SIFIVE_UART_INTERRUPT_RECEIVE = 1"
definition SIFIVE_UART1_INTERRUPT :: u32 where "SIFIVE_UART1_INTERRUPT = 5"

type_synonym 'd device = "addr \<Rightarrow> 'd \<Rightarrow> u32 \<times> 'd"

definition sifive_uart_read_register :: "'d device \<Rightarrow> addr \<Rightarrow> kernel \<Rightarrow> 'd \<Rightarrow> u32 \<times> kernel \<times> 'd" where
  "sifive_uart_read_register dev uart k d =
     (let (value, d1) = dev uart d in (value, k\<lparr>mmio := load_word uart (mmio k)\<rparr>, d1))"

section \<open>Setting up\<close>

text \<open>\<open>backing\<close> is the static array of the buffer, which its initial value holds.\<close>

definition sifive_uart_init :: "Board \<Rightarrow> kernel \<Rightarrow> error + kernel" where
  "sifive_uart_init board k =
     bindr (board_check_valid_device (sifive_uart1 board) ''board.sifive_uart1'') (\<lambda>base.
     bindr (Buffer_wrap (array (uart1_buffer k)) BUFFER_LEN) (\<lambda>buffer.
     let m1 = atomic_or_memory_word (SIFIVE_UART_REG base SIFIVE_UART_REG_INTERRUPT_ENABLE)
                (ucast (BIT_TO_INT SIFIVE_UART_INTERRUPT_RECEIVE)) (mmio k);
         m2 = atomic_or_memory_word (SIFIVE_UART_REG base SIFIVE_UART_REG_RECEIVE_CONTROL)
                (ucast (BIT_TO_INT SIFIVE_UART_CONTROL_ENABLE)) m1;
         m3 = store_word (SIFIVE_UART_REG base SIFIVE_UART_REG_BAUD_DIVISOR) 16000 m2
     in bindr (sifive_plic_enable_smode_interrupt board 1 5 m3) (\<lambda>m4.
        bindr (sifive_plic_set_smode_threshold board 1 0 m4) (\<lambda>m5.
        bindr (sifive_plic_set_priority board 5 1 m5) (\<lambda>m6.
        Inr (k\<lparr>uart1_buffer := buffer, mmio := m6\<rparr>))))))"

section \<open>Draining\<close>

text \<open>The body of the loop once an interrupt is pending: one character, or the message about none.\<close>

definition sifive_uart_receive :: "'d device \<Rightarrow> addr \<Rightarrow> nat \<Rightarrow> kernel \<Rightarrow> 'd \<Rightarrow> error + kernel \<times> 'd" where
  "sifive_uart_receive dev receive h k d =
     (let (read, k1, d1) = sifive_uart_read_register dev receive k d in
      if read AND push_bit 31 1 \<noteq> 0
      then bindr (kprintf h (bytes_of ''SiFiveUart empty???'' @ [10, 0]) [] k1) (\<lambda>(n, k2). Inr (k2, d1))
      else let ch = (ucast (read AND 0xff) :: byte) in
        bindr (Buffer_output_handle_new (uart1_buffer k1) ch (sbi k1)) (\<lambda>(b, trace).
          Inr (k1\<lparr>uart1_buffer := b, sbi := trace\<rparr>, d1)))"

text \<open>The loop goes on as long as the device says that something is pending: \<open>None\<close> if that never ends.\<close>

partial_function (option) sifive_uart_drain_loop ::
    "'d device \<Rightarrow> addr \<Rightarrow> addr \<Rightarrow> nat \<Rightarrow> kernel \<Rightarrow> 'd \<Rightarrow> (error + kernel \<times> 'd) option" where
  "sifive_uart_drain_loop dev receive interrupt_pending h k d =
     (let (flags, k1, d1) = sifive_uart_read_register dev interrupt_pending k d in
      if BIT_GET (ucast flags) SIFIVE_UART_INTERRUPT_RECEIVE
      then (case sifive_uart_receive dev receive h k1 d1 of
              Inl e \<Rightarrow> Some (Inl e)
            | Inr (k2, d2) \<Rightarrow> sifive_uart_drain_loop dev receive interrupt_pending h k2 d2)
      else Some (Inr (k1, d1)))"

definition sifive_uart_drain ::
    "'d device \<Rightarrow> Board \<Rightarrow> nat \<Rightarrow> kernel \<Rightarrow> 'd \<Rightarrow> error + kernel \<times> 'd" where
  "sifive_uart_drain dev board h k d =
     bindr (board_check_valid_device (sifive_uart1 board) ''board.sifive_uart1'') (\<lambda>pointer.
       case sifive_uart_drain_loop dev (SIFIVE_UART_REG pointer SIFIVE_UART_REG_RECEIVE_DATA)
              (SIFIVE_UART_REG pointer SIFIVE_UART_REG_INTERRUPT_PENDING) h k d of
         None \<Rightarrow> Inl Hangs
       | Some r \<Rightarrow> r)"

section \<open>A device with a queue\<close>

text \<open>
  What the manual of the device says of the two registers: the receive bit is set exactly while its queue is
  not empty, and a read of the data register takes the first character off a queue that is not empty;
  \<open>queue d\<close> is the content of the queue in state \<open>d\<close>.
\<close>

definition receives_queue :: "'d device \<Rightarrow> addr \<Rightarrow> ('d \<Rightarrow> byte list) \<Rightarrow> bool" where
  "receives_queue dev base queue \<longleftrightarrow> (\<forall>d.
     (case dev (SIFIVE_UART_REG base SIFIVE_UART_REG_INTERRUPT_PENDING) d of (v, d1) \<Rightarrow>
        bit v SIFIVE_UART_INTERRUPT_RECEIVE = (queue d \<noteq> []) \<and> queue d1 = queue d) \<and>
     (case dev (SIFIVE_UART_REG base SIFIVE_UART_REG_RECEIVE_DATA) d of (v, d1) \<Rightarrow>
        (\<forall>c cs. queue d = c # cs \<longrightarrow> v = ucast c \<and> queue d1 = cs)))"

lemma ucast_byte_u32: "(ucast (c :: byte) :: u32) AND 0x80000000 = 0" "(ucast ((ucast c :: u32) AND 0xff) :: byte) = c"
proof -
  have m: "(0xff :: u32) = mask 8" by (simp add: mask_eq_exp_minus_1)
  have low: "(ucast c :: u32) AND 0xff = ucast c"
    unfolding m by (intro bit_word_eqI) (auto simp: bit_simps dest: bit_imp_le_length)
  then have "(ucast c :: u32) AND 0x80000000 = (ucast c AND 0xff) AND 0x80000000" by simp
  also have "\<dots> = 0" by (simp only: and.assoc) simp
  finally show "(ucast c :: u32) AND 0x80000000 = 0" .
  show "(ucast ((ucast c :: u32) AND 0xff) :: byte) = c" unfolding low by (simp add: ucast_up_ucast_id is_up)
qed

lemma drain_step_pending:
  assumes dev: "receives_queue dev base queue" and q: "queue d = c # cs" and ok: "Buffer_ok (uart1_buffer k)"
  shows "\<exists>b t d2. sifive_uart_drain_loop dev (SIFIVE_UART_REG base SIFIVE_UART_REG_RECEIVE_DATA)
       (SIFIVE_UART_REG base SIFIVE_UART_REG_INTERRUPT_PENDING) h k d =
     sifive_uart_drain_loop dev (SIFIVE_UART_REG base SIFIVE_UART_REG_RECEIVE_DATA)
       (SIFIVE_UART_REG base SIFIVE_UART_REG_INTERRUPT_PENDING) h
       (k\<lparr>mmio := mmio k @ [ReadWord (SIFIVE_UART_REG base SIFIVE_UART_REG_INTERRUPT_PENDING),
            ReadWord (SIFIVE_UART_REG base SIFIVE_UART_REG_RECEIVE_DATA)], uart1_buffer := b, sbi := t\<rparr>) d2 \<and>
     queue d2 = cs \<and> Buffer_ok b \<and> console t @ pending b = console (sbi k) @ pending (uart1_buffer k) @ [c]"
proof -
  obtain v1 d1 where d1: "dev (SIFIVE_UART_REG base SIFIVE_UART_REG_INTERRUPT_PENDING) d = (v1, d1)" by fastforce
  obtain v2 d2 where d2: "dev (SIFIVE_UART_REG base SIFIVE_UART_REG_RECEIVE_DATA) d1 = (v2, d2)" by fastforce
  have pend: "bit v1 SIFIVE_UART_INTERRUPT_RECEIVE" "queue d1 = c # cs"
    using dev d1 q unfolding receives_queue_def by (metis (mono_tags, lifting) case_prod_conv list.distinct(1))+
  have got: "v2 = ucast c" "queue d2 = cs"
    using dev d2 pend(2) unfolding receives_queue_def by (metis (mono_tags, lifting) case_prod_conv)+
  obtain b t where new: "Buffer_output_handle_new (uart1_buffer k) c (sbi k) = Inr (b, t)" "Buffer_ok b"
      "console t @ pending b = console (sbi k) @ pending (uart1_buffer k) @ [c]"
    using Buffer_handle_new_ok [OF ok, of c "sbi k"] by auto
  have "BIT_GET (ucast v1) SIFIVE_UART_INTERRUPT_RECEIVE"
    using pend(1) by (simp add: BIT_GET_bit bit_simps SIFIVE_UART_INTERRUPT_RECEIVE_def)
  then show ?thesis
    using new got
    by (subst sifive_uart_drain_loop.simps)
      (auto simp: sifive_uart_read_register_def d1 d2 sifive_uart_receive_def ucast_byte_u32 load_word_def
        intro!: exI [of _ b] exI [of _ t] exI [of _ d2])
qed

lemma drain_loop_ok:
  assumes dev: "receives_queue dev base queue" and ok: "Buffer_ok (uart1_buffer k)"
  shows "\<exists>b t m d'. sifive_uart_drain_loop dev (SIFIVE_UART_REG base SIFIVE_UART_REG_RECEIVE_DATA)
       (SIFIVE_UART_REG base SIFIVE_UART_REG_INTERRUPT_PENDING) h k d =
     Some (Inr (k\<lparr>mmio := m, uart1_buffer := b, sbi := t\<rparr>, d')) \<and> queue d' = [] \<and> Buffer_ok b \<and>
     console t @ pending b = console (sbi k) @ pending (uart1_buffer k) @ queue d"
  using ok
proof (induction "queue d" arbitrary: d k)
  case Nil
  obtain v1 d1 where d1: "dev (SIFIVE_UART_REG base SIFIVE_UART_REG_INTERRUPT_PENDING) d = (v1, d1)" by fastforce
  have "\<not> bit v1 SIFIVE_UART_INTERRUPT_RECEIVE" "queue d1 = []"
    using dev d1 Nil(1) unfolding receives_queue_def by (metis (mono_tags, lifting) case_prod_conv)+
  then show ?case
    using Nil
    by (subst sifive_uart_drain_loop.simps)
      (auto simp: sifive_uart_read_register_def d1 BIT_GET_bit bit_simps intro!: exI [of _ "load_word _ (mmio k)"]
        exI [of _ "uart1_buffer k"] exI [of _ "sbi k"])
next
  case (Cons c cs)
  obtain b t d2 where s: "sifive_uart_drain_loop dev (SIFIVE_UART_REG base SIFIVE_UART_REG_RECEIVE_DATA)
       (SIFIVE_UART_REG base SIFIVE_UART_REG_INTERRUPT_PENDING) h k d =
     sifive_uart_drain_loop dev (SIFIVE_UART_REG base SIFIVE_UART_REG_RECEIVE_DATA)
       (SIFIVE_UART_REG base SIFIVE_UART_REG_INTERRUPT_PENDING) h
       (k\<lparr>mmio := mmio k @ [ReadWord (SIFIVE_UART_REG base SIFIVE_UART_REG_INTERRUPT_PENDING),
            ReadWord (SIFIVE_UART_REG base SIFIVE_UART_REG_RECEIVE_DATA)], uart1_buffer := b, sbi := t\<rparr>) d2"
      "cs = queue d2" "Buffer_ok b" "console t @ pending b = console (sbi k) @ pending (uart1_buffer k) @ [c]"
    using drain_step_pending [OF dev Cons(2) [symmetric] Cons.prems, of h] by blast
  from Cons(1) [OF s(2), of "k\<lparr>mmio := mmio k @ [ReadWord (SIFIVE_UART_REG base SIFIVE_UART_REG_INTERRUPT_PENDING),
            ReadWord (SIFIVE_UART_REG base SIFIVE_UART_REG_RECEIVE_DATA)], uart1_buffer := b, sbi := t\<rparr>"] s
  obtain b2 t2 m d' where r: "sifive_uart_drain_loop dev (SIFIVE_UART_REG base SIFIVE_UART_REG_RECEIVE_DATA)
       (SIFIVE_UART_REG base SIFIVE_UART_REG_INTERRUPT_PENDING) h k d =
     Some (Inr (k\<lparr>mmio := m, uart1_buffer := b2, sbi := t2\<rparr>, d'))" "queue d' = []" "Buffer_ok b2"
      and out: "console t2 @ pending b2 = (console t @ pending b) @ queue d2" by auto
  have "console t2 @ pending b2 = console (sbi k) @ pending (uart1_buffer k) @ queue d"
    unfolding out s(4) by (simp add: Cons(2) [symmetric] s(2))
  with r show ?case by blast
qed


text \<open>A device that is just its queue.\<close>

definition sample_device :: "addr \<Rightarrow> byte list device" where
  "sample_device base a d =
     (if a = SIFIVE_UART_REG base SIFIVE_UART_REG_INTERRUPT_PENDING then (if d = [] then 0 else 2, d)
      else case d of [] \<Rightarrow> (0x80000000, []) | c # cs \<Rightarrow> (ucast c, cs))"


end
