(* ===== verification/Trap_Handler.thy ===== *)
theory Trap_Handler
  imports Trap_Routines Lifecycle_Spec Serial
begin

text \<open>
  kernel/trap/handler.c, scause.c and frame.c, kernel/syscall.c, kernel/process/exits.c and the entry into
  the processes: what the kernel does between the trap vector and the way back.
\<close>

section \<open>Causes (trap/scause.h, trap/scause.c)\<close>

definition SCAUSE :: "u64 \<Rightarrow> u64 \<Rightarrow> u64" where
  "SCAUSE interrupt exception = push_bit (POINTER_BITS - 1) interrupt OR exception"

definition SCAUSE_SUPERVISOR_SOFTWARE_INTERRUPT :: u64 where "SCAUSE_SUPERVISOR_SOFTWARE_INTERRUPT = SCAUSE 1 1"
definition SCAUSE_ECALL_U_MODE :: u64 where "SCAUSE_ECALL_U_MODE = SCAUSE 0 8"
definition SCAUSE_SUPERVISOR_TIMER_INTERRUPT :: u64 where "SCAUSE_SUPERVISOR_TIMER_INTERRUPT = SCAUSE 1 5"
definition SCAUSE_SUPERVISOR_EXTERNAL_INTERRUPT :: u64 where "SCAUSE_SUPERVISOR_EXTERNAL_INTERRUPT = SCAUSE 1 9"

definition decode_scause :: "u64 \<Rightarrow> string" where
  "decode_scause cause =
     (if cause = SCAUSE_SUPERVISOR_SOFTWARE_INTERRUPT then ''Supervisor software interrupt''
      else if cause = SCAUSE_SUPERVISOR_TIMER_INTERRUPT then ''Supervisor timer interrupt''
      else if cause = SCAUSE_SUPERVISOR_EXTERNAL_INTERRUPT then ''Supervisor external interrupt''
      else if cause = SCAUSE 1 13 then ''Counter-overflow interrupt''
      else if cause = SCAUSE 0 0 then ''Instruction address misaligned''
      else if cause = SCAUSE 0 1 then ''Instruction access fault''
      else if cause = SCAUSE 0 2 then ''Illegal instruction''
      else if cause = SCAUSE 0 3 then ''Breakpoint''
      else if cause = SCAUSE 0 4 then ''Load address misaligned''
      else if cause = SCAUSE 0 5 then ''Load access fault''
      else if cause = SCAUSE 0 6 then ''Store/AMO address misaligned''
      else if cause = SCAUSE 0 7 then ''Store/AMO access fault''
      else if cause = SCAUSE_ECALL_U_MODE then ''Environment call from U-mode''
      else if cause = SCAUSE 0 9 then ''Environment call from S-mode''
      else if cause = SCAUSE 0 12 then ''Instruction page fault''
      else if cause = SCAUSE 0 13 then ''Load page fault''
      else if cause = SCAUSE 0 15 then ''Store/AMO page fault''
      else if cause = SCAUSE 0 18 then ''Software check''
      else if cause = SCAUSE 0 19 then ''Hardware error''
      else ''(unknown)'')"

section \<open>Printing a frame (trap/frame.c)\<close>

definition cstr :: "string \<Rightarrow> byte list" where
  "cstr s = bytes_of s @ [0]"

fun member_name :: "frame_member \<Rightarrow> string" where
  "member_name Member_pc = ''pc''"
| "member_name Member_satp = ''satp''"
| "member_name (Member r) =
     (case r of ra \<Rightarrow> ''ra'' | gp \<Rightarrow> ''gp'' | tp \<Rightarrow> ''tp'' | sp \<Rightarrow> ''sp''
      | t0 \<Rightarrow> ''t0'' | t1 \<Rightarrow> ''t1'' | t2 \<Rightarrow> ''t2'' | t3 \<Rightarrow> ''t3'' | t4 \<Rightarrow> ''t4'' | t5 \<Rightarrow> ''t5'' | t6 \<Rightarrow> ''t6''
      | a0 \<Rightarrow> ''a0'' | a1 \<Rightarrow> ''a1'' | a2 \<Rightarrow> ''a2'' | a3 \<Rightarrow> ''a3'' | a4 \<Rightarrow> ''a4'' | a5 \<Rightarrow> ''a5'' | a6 \<Rightarrow> ''a6'' | a7 \<Rightarrow> ''a7''
      | s0 \<Rightarrow> ''s0'' | s1 \<Rightarrow> ''s1'' | s2 \<Rightarrow> ''s2'' | s3 \<Rightarrow> ''s3'' | s4 \<Rightarrow> ''s4'' | s5 \<Rightarrow> ''s5'' | s6 \<Rightarrow> ''s6''
      | s7 \<Rightarrow> ''s7'' | s8 \<Rightarrow> ''s8'' | s9 \<Rightarrow> ''s9'' | s10 \<Rightarrow> ''s10'' | s11 \<Rightarrow> ''s11'')"

definition print_member :: "nat \<Rightarrow> TrapFrame \<Rightarrow> frame_member \<Rightarrow> kernel \<Rightarrow> error + kernel" where
  "print_member h f m k =
     bindr (kprintf h (bytes_of ''%3s:'' @ [9] @ bytes_of ''%p'' @ [10, 0])
              [VStr (cstr (member_name m)), VWord (get_member m f)] k) (\<lambda>(n, k1). Inr k1)"

fun print_members :: "nat \<Rightarrow> TrapFrame \<Rightarrow> frame_member list \<Rightarrow> kernel \<Rightarrow> error + kernel" where
  "print_members h f [] k = Inr k"
| "print_members h f (m # ms) k = bindr (print_member h f m k) (print_members h f ms)"

definition TrapFrame_print :: "nat \<Rightarrow> TrapFrame \<Rightarrow> kernel \<Rightarrow> error + kernel" where
  "TrapFrame_print h f =
     print_members h f ([Member ra, Member sp, Member_pc] @ map Member
       [gp, tp, t0, t1, t2, t3, t4, t5, t6, a0, a1, a2, a3, a4, a5, a6, a7,
        s0, s1, s2, s3, s4, s5, s6, s7, s8, s9, s10, s11])"

section \<open>System calls (syscall.c)\<close>

definition SYSCALL_EXIT :: u64 where "SYSCALL_EXIT = 0x0F"
definition SYSCALL_YIELD :: u64 where "SYSCALL_YIELD = 0x10"
definition SYSCALL_PUTCHAR :: u64 where "SYSCALL_PUTCHAR = 0xAA"

text \<open>The frame is the one in the hart's scratch; \<open>(int)\<close> cuts the register off and is extended back.\<close>

definition set_scratch_reg :: "nat \<Rightarrow> reg \<Rightarrow> u64 \<Rightarrow> kernel \<Rightarrow> kernel" where
  "set_scratch_reg h r v k =
     (let hs = my_hart_scratch h k in set_scratch h (hs\<lparr>hart_frame := set_reg r v (hart_frame hs)\<rparr>) k)"

definition handle_syscall :: "nat \<Rightarrow> kernel \<Rightarrow> error + kernel" where
  "handle_syscall h k =
     (let regs = frame_regs (hart_frame (my_hart_scratch h k)) in
      if regs a0 = SYSCALL_YIELD then Inr k
      else if regs a0 = SYSCALL_PUTCHAR then
        let ch = (ucast (regs a1) :: u32); (proc, k1) = my_hart_current_process h k in
        case proc of
          None \<Rightarrow> Inl NullDeref
        | Some p \<Rightarrow>
            bindr (putchar_buffer ch (Some (ProcessBuffer p)) h k1) (\<lambda>(c, k2).
              Inr (set_scratch_reg h a0 (scast ch) k2))
      else if regs a0 = SYSCALL_EXIT then Process_destroy_current h k
      else bindr (kprintf h (bytes_of ''handle_syscall: ignoring unknown syscall #%lu(%p)'' @ [10, 0])
                   [VWord (regs a0), VWord (regs a0)] k) (\<lambda>(n, k1). Inr k1))"

section \<open>The handler (trap/handler.c)\<close>

definition fatal_trap :: "bool \<Rightarrow> bool \<Rightarrow> u64 \<Rightarrow> bool" where
  "fatal_trap was_in_kernel_mode was_in_process cause \<longleftrightarrow>
     (let software_interrupt = (cause = SCAUSE_SUPERVISOR_SOFTWARE_INTERRUPT);
          ecall = (cause = SCAUSE_ECALL_U_MODE);
          timer_interrupt = (cause = SCAUSE_SUPERVISOR_TIMER_INTERRUPT);
          external_interrupt = (cause = SCAUSE_SUPERVISOR_EXTERNAL_INTERRUPT)
      in ((was_in_kernel_mode \<and> \<not> (software_interrupt \<or> timer_interrupt) \<or>
           \<not> was_in_kernel_mode \<and> \<not> (ecall \<or> timer_interrupt)) \<and> \<not> external_interrupt) \<or> \<not> was_in_process)"

definition report_trap :: "Symbols \<Rightarrow> u32 \<Rightarrow> nat \<Rightarrow> kernel \<Rightarrow> error + kernel" where
  "report_trap sy pid h k =
     (let hs = my_hart_scratch h k; cause = csr_read scause h k; status = csr_read sstatus h k in
      bindr (kprintf h ([10] @ bytes_of ''***'' @ [10] @ bytes_of ''trap: %s'' @ [10] @
               bytes_of ''scause:  %p, stval: %p, sepc: %p'' @ [10] @
               bytes_of ''sstatus: %p, hart_scratch: %p'' @ [10] @
               bytes_of ''hart: %#x, pid: %d, was_in_process: %s'' @ [10] @
               bytes_of ''(was in %s mode)'' @ [10, 0])
             [VStr (cstr (decode_scause cause)), VWord cause, VWord (csr_read stval h k), VWord (csr_read sepc h k),
              VWord status, VWord (hart_scratch_addr sy h), VWord (of_nat h), VWord (scast pid),
              VStr (cstr (if current_process hs \<noteq> None then ''yes'' else ''no'')),
              VStr (cstr (if BIT_GET status SSTATUS_PRIVILEGE then ''kernel'' else ''user''))] k) (\<lambda>(n, k1).
      bindr (TrapFrame_print h (hart_frame hs) k1) (\<lambda>k2.
      bindr (kprintf h (bytes_of ''***'' @ [10, 0]) [] k2) (\<lambda>(n, k3). Inr k3))))"

text \<open>\<open>claimed\<close> is what the interrupt controller answers.\<close>

definition handle_external_interrupt ::
    "Board \<Rightarrow> 'd device \<Rightarrow> u32 \<Rightarrow> nat \<Rightarrow> kernel \<Rightarrow> 'd \<Rightarrow> error + kernel \<times> 'd" where
  "handle_external_interrupt board dev claimed h k d =
     bindr (board_check_valid_device (sifive_plic board) ''board.sifive_plic'') (\<lambda>plic.
     bindr (board_check_valid_device (sifive_uart1 board) ''board.sifive_uart1'') (\<lambda>uart.
     bindr (sifive_plic_claim claimed board 1 (mmio k)) (\<lambda>(interrupt, trace).
     bindr (if interrupt = SIFIVE_UART1_INTERRUPT then sifive_uart_drain dev board h (k\<lparr>mmio := trace\<rparr>) d
            else bindr (SpinLock_release trap_print_lock h (k\<lparr>mmio := trace\<rparr>)) (\<lambda>k1.
              Inl (Panic ''claimed unknown external interrupt''))) (\<lambda>(k1, d1).
     bindr (sifive_plic_complete board 1 interrupt (mmio k1)) (\<lambda>trace1.
     Inr (k1\<lparr>mmio := trace1\<rparr>, d1))))))"

text \<open>Everything up to the call of \<open>kernel_switch\<close>, with which both branches that return end.\<close>

definition handle_trap_before_switch ::
    "Symbols \<Rightarrow> Board \<Rightarrow> 'd device \<Rightarrow> u32 \<Rightarrow> nat \<Rightarrow> kernel \<Rightarrow> 'd \<Rightarrow> error + kernel \<times> 'd" where
  "handle_trap_before_switch sy board dev claimed h k d =
     (let cause = csr_read scause h k;
          hs = my_hart_scratch h k;
          was_in_kernel_mode = BIT_GET (csr_read sstatus h k) SSTATUS_PRIVILEGE;
          ecall = (cause = SCAUSE_ECALL_U_MODE);
          external_interrupt = (cause = SCAUSE_SUPERVISOR_EXTERNAL_INTERRUPT);
          was_in_process = (current_process hs \<noteq> None);
          fatal = fatal_trap was_in_kernel_mode was_in_process cause
      in
      bindr (if was_in_process then bindr (my_pid h k) (\<lambda>(pid, k1). Inr (ucast pid :: u32, k1)) else Inr (- 1, k)) (\<lambda>(pid, k1).
      bindr (SpinLock_acquire trap_print_lock h k1) (\<lambda>(were_enabled, k2).
      bindr (if fatal \<and> was_in_kernel_mode then report_trap sy pid h k2 else Inr k2) (\<lambda>k3.
      if \<not> fatal then
        let k4 = snd (csr_write sip 0 h k3) in
        bindr (if ecall then handle_syscall h k4 else Inr k4) (\<lambda>k5.
        if external_interrupt then handle_external_interrupt board dev claimed h k5 d else Inr (k5, d))
      else if \<not> was_in_kernel_mode then
        bindr (kprintf h (bytes_of ''killing pid %d: %s'' @ [10, 0]) [VWord (scast pid), VStr (cstr (decode_scause cause))] k3) (\<lambda>(n, k4).
        bindr (Process_destroy_current h k4) (\<lambda>k5. Inr (k5, d)))
      else
        bindr (SpinLock_release trap_print_lock h k3) (\<lambda>k4. Inl (Panic ''fatal trap''))))))"

definition handle_trap ::
    "Symbols \<Rightarrow> Board \<Rightarrow> 'd device \<Rightarrow> u32 \<Rightarrow> nat \<Rightarrow> kernel \<Rightarrow> 'd \<Rightarrow> error + kernel \<times> 'd" where
  "handle_trap sy board dev claimed h k d =
     bindr (handle_trap_before_switch sy board dev claimed h k d) (\<lambda>(k1, d1).
     bindr (kernel_switch sy board h k1) (\<lambda>k2.
     bindr (SpinLock_release trap_print_lock h k2) (\<lambda>k3. Inr (k3, d1))))"

section \<open>A whole trap, and the entry into processes\<close>

text \<open>The registers that the C code leaves behind are an argument: the way back reads none of them.\<close>

definition trap_cycle ::
    "Symbols \<Rightarrow> Board \<Rightarrow> 'd device \<Rightarrow> u32 \<Rightarrow> cpu \<Rightarrow> nat \<Rightarrow> cpu \<Rightarrow> kernel \<Rightarrow> 'd \<Rightarrow> error + cpu \<times> kernel \<times> 'd" where
  "trap_cycle sy board dev claimed left_over h c k d =
     bindr (exec sy h trap_vector c k) (\<lambda>(c1, k1).
     bindr (handle_trap sy board dev claimed h k1 d) (\<lambda>(k2, d1).
     bindr (leave_kernel sy h left_over k2) (\<lambda>(c2, k3). Inr (c2, k3, d1))))"

definition jump_into_processes :: "Symbols \<Rightarrow> Board \<Rightarrow> cpu \<Rightarrow> nat \<Rightarrow> cpu \<Rightarrow> kernel \<Rightarrow> error + cpu \<times> kernel" where
  "jump_into_processes sy board left_over h c k =
     bindr (exec sy h reset_stack c k) (\<lambda>(c1, k1).
     bindr (kernel_switch sy board h k1) (\<lambda>k2. leave_kernel sy h left_over k2))"

definition set_trap_vector :: "Symbols \<Rightarrow> nat \<Rightarrow> kernel \<Rightarrow> kernel" where
  "set_trap_vector sy h k = snd (csr_write stvec (trap_vector_addr sy) h k)"

definition ProcessExit_kernel :: "Symbols \<Rightarrow> Board \<Rightarrow> cpu \<Rightarrow> nat \<Rightarrow> cpu \<Rightarrow> kernel \<Rightarrow> error + cpu \<times> kernel" where
  "ProcessExit_kernel sy board left_over h c k =
     (let (enabled, k1) = disable_traps_now h k in
      bindr (Process_destroy_current h k1) (jump_into_processes sy board left_over h c))"

text \<open>What comes before the \<open>ecall\<close>.\<close>

definition ProcessExit_user :: "instr list" where
  "ProcessExit_user = [LI a0 SYSCALL_EXIT]"

end
