(* ===== verification/Device_Tree.thy ===== *)
theory Device_Tree
  imports Common Libc_String
begin

text \<open>
  src/kernel/list.c and src/kernel/device/device\_tree.c: the parser of the flattened device tree that
  the firmware hands over, and the searches in the parsed tree.  The blob is the list of its bytes, and a
  pointer into it is the offset from the header, which the firmware aligns to eight bytes; a read past its
  end is \<open>OutOfBounds\<close>.  A pointer to a parsed node or property is its index in the static array.  What the
  parser prints for its debug flag is left out, and so is the line \<open>next_free\<close> prints before it returns
  \<open>NULL\<close>: its callers then store through that pointer, which is \<open>NullDeref\<close>.
\<close>

section \<open>Words of the blob\<close>

definition load32 :: "byte list \<Rightarrow> nat \<Rightarrow> error + u32" where
  "load32 blob p =
     (if p + 4 \<le> length blob
      then Inr (ucast (blob ! p) OR push_bit 8 (ucast (blob ! (p + 1))) OR
                push_bit 16 (ucast (blob ! (p + 2))) OR push_bit 24 (ucast (blob ! (p + 3))))
      else Inl OutOfBounds)"

text \<open>\<open>DeviceTreeHeadersRaw\<close>: where each member of the header is.\<close>

definition offsetof_magic :: nat where "offsetof_magic = 0"
definition offsetof_totalsize :: nat where "offsetof_totalsize = 4"
definition offsetof_off_dt_struct :: nat where "offsetof_off_dt_struct = 8"
definition offsetof_off_dt_strings :: nat where "offsetof_off_dt_strings = 12"
definition offsetof_version :: nat where "offsetof_version = 20"
definition offsetof_last_comp_version :: nat where "offsetof_last_comp_version = 24"
definition offsetof_boot_cpuid_phys :: nat where "offsetof_boot_cpuid_phys = 28"

definition DEVICE_TREE_MAGIC :: u32 where "DEVICE_TREE_MAGIC = 0xD00DFEED"
definition DEVICE_TREE_VERSION :: u32 where "DEVICE_TREE_VERSION = 17"
definition STRUCTURE_BEGIN_NODE :: u32 where "STRUCTURE_BEGIN_NODE = 1"
definition STRUCTURE_END_NODE :: u32 where "STRUCTURE_END_NODE = 2"
definition STRUCTURE_PROP :: u32 where "STRUCTURE_PROP = 3"
definition STRUCTURE_NOP :: u32 where "STRUCTURE_NOP = 4"
definition STRUCTURE_END :: u32 where "STRUCTURE_END = 9"

definition NUM_DEVICE_TREE_PROPERTIES :: nat where "NUM_DEVICE_TREE_PROPERTIES = 1024"
definition NUM_DEVICE_TREE_NODES :: nat where "NUM_DEVICE_TREE_NODES = 256"

text \<open>\<open>align_up_ptr\<close> of a pointer into the blob.\<close>

definition align_offset :: "nat \<Rightarrow> nat \<Rightarrow> nat" where
  "align_offset p align = unat (align_up (of_nat p) (of_nat align))"

section \<open>The parsed tree\<close>

record DeviceTreeProperty =
  prop_name :: "nat option"
  prop_value :: "nat option"
  prop_value_len :: nat
  prop_next :: "nat option"

record DeviceTreeNode =
  node_name :: "nat option"
  node_properties :: "nat option"
  node_child :: "nat option"
  node_next :: "nat option"

record DeviceTree =
  boot_cpuid_phys :: u32
  root :: nat

text \<open>The arrays and counters that \<open>ALLOCATE_ARRAY_AND_COUNTER\<close> declares; they start as zeros.\<close>

record tree_arrays =
  nodes_items :: "DeviceTreeNode list"
  nodes_next :: nat
  props_items :: "DeviceTreeProperty list"
  props_next :: nat

definition zero_node :: DeviceTreeNode where
  "zero_node = \<lparr>node_name = None, node_properties = None, node_child = None, node_next = None\<rparr>"

definition zero_prop :: DeviceTreeProperty where
  "zero_prop = \<lparr>prop_name = None, prop_value = None, prop_value_len = 0, prop_next = None\<rparr>"

definition empty_arrays :: tree_arrays where
  "empty_arrays =
     \<lparr>nodes_items = replicate NUM_DEVICE_TREE_NODES zero_node, nodes_next = 0,
      props_items = replicate NUM_DEVICE_TREE_PROPERTIES zero_prop, props_next = 0\<rparr>"

definition update_node :: "nat \<Rightarrow> (DeviceTreeNode \<Rightarrow> DeviceTreeNode) \<Rightarrow> tree_arrays \<Rightarrow> tree_arrays" where
  "update_node i f s = s\<lparr>nodes_items := (nodes_items s)[i := f (nodes_items s ! i)]\<rparr>"

definition update_prop :: "nat \<Rightarrow> (DeviceTreeProperty \<Rightarrow> DeviceTreeProperty) \<Rightarrow> tree_arrays \<Rightarrow> tree_arrays" where
  "update_prop i f s = s\<lparr>props_items := (props_items s)[i := f (props_items s ! i)]\<rparr>"

section \<open>Static arrays and linked lists (list.c)\<close>

text \<open>\<open>next_free\<close> yields the index of the item and the new counter.\<close>

definition next_free :: "nat \<Rightarrow> nat \<Rightarrow> nat option \<times> nat" where
  "next_free next maximum = (if next \<ge> maximum - 1 then (None, next) else (Some next, next + 1))"

text \<open>
  \<open>insert_at\<close> points to \<open>base\<close> (\<open>None\<close>) or to the next pointer of an item; \<open>read\<close> is the pointer stored
  there.  The walk yields where the new item is stored, and \<open>None\<close> if the list is circular.
\<close>

partial_function (option) add_linked_walk ::
    "(nat option \<Rightarrow> error + nat option) \<Rightarrow> nat option \<Rightarrow> (error + nat option) option" where
  "add_linked_walk read insert_at =
     (case read insert_at of
        Inl e \<Rightarrow> Some (Inl e)
      | Inr None \<Rightarrow> Some (Inr insert_at)
      | Inr (Some item) \<Rightarrow> add_linked_walk read (Some item))"

definition add_linked ::
    "(nat option \<Rightarrow> error + nat option) \<Rightarrow> (nat option \<Rightarrow> 's) \<Rightarrow> error + 's" where
  "add_linked read store =
     (case add_linked_walk read None of
        None \<Rightarrow> Inl Hangs
      | Some r \<Rightarrow> bindr r (\<lambda>insert_at. Inr (store insert_at)))"

definition read_property_link :: "nat \<Rightarrow> tree_arrays \<Rightarrow> nat option \<Rightarrow> error + nat option" where
  "read_property_link parsed s insert_at =
     (case insert_at of
        None \<Rightarrow> bindr (deref (nodes_items s) parsed) (\<lambda>node. Inr (node_properties node))
      | Some i \<Rightarrow> bindr (deref (props_items s) i) (\<lambda>prop. Inr (prop_next prop)))"

definition store_property_link :: "nat \<Rightarrow> nat \<Rightarrow> tree_arrays \<Rightarrow> nat option \<Rightarrow> tree_arrays" where
  "store_property_link parsed prop s insert_at =
     (case insert_at of
        None \<Rightarrow> update_node parsed (node_properties_update (\<lambda>_. Some prop)) s
      | Some i \<Rightarrow> update_prop i (prop_next_update (\<lambda>_. Some prop)) s)"

definition read_child_link :: "nat \<Rightarrow> tree_arrays \<Rightarrow> nat option \<Rightarrow> error + nat option" where
  "read_child_link parsed s insert_at =
     (case insert_at of
        None \<Rightarrow> bindr (deref (nodes_items s) parsed) (\<lambda>node. Inr (node_child node))
      | Some i \<Rightarrow> bindr (deref (nodes_items s) i) (\<lambda>node. Inr (node_next node)))"

definition store_child_link :: "nat \<Rightarrow> nat \<Rightarrow> tree_arrays \<Rightarrow> nat option \<Rightarrow> tree_arrays" where
  "store_child_link parsed child s insert_at =
     (case insert_at of
        None \<Rightarrow> update_node parsed (node_child_update (\<lambda>_. Some child)) s
      | Some i \<Rightarrow> update_node i (node_next_update (\<lambda>_. Some child)) s)"

section \<open>The parser\<close>

lemma load32_less: "load32 blob p = Inr v \<Longrightarrow> p + 4 \<le> length blob"
  by (simp add: load32_def split: if_splits)

function skip_nops :: "byte list \<Rightarrow> nat \<Rightarrow> error + nat" where
  "skip_nops blob pointer =
     bindr (load32 blob pointer) (\<lambda>v.
       if v = SWAP_ENDIANNESS32 STRUCTURE_NOP then skip_nops blob (pointer + 4) else Inr pointer)"
  by pat_completeness auto
termination
  by (relation "measure (\<lambda>(blob, pointer). length blob - pointer)") (auto dest: load32_less)

declare skip_nops.simps [simp del]

text \<open>The name runs to its NUL; the new pointer is after the padding.\<close>

function node_name_end :: "byte list \<Rightarrow> nat \<Rightarrow> error + nat" where
  "node_name_end blob p =
     (if p < length blob
      then (if blob ! p \<noteq> 0 then node_name_end blob (p + 1) else Inr p)
      else Inl OutOfBounds)"
  by pat_completeness auto
termination
  by (relation "measure (\<lambda>(blob, p). length blob - p)") auto

declare node_name_end.simps [simp del]

definition parse_node_name :: "byte list \<Rightarrow> nat \<Rightarrow> error + nat \<times> nat" where
  "parse_node_name blob pointer =
     bindr (node_name_end blob pointer) (\<lambda>node_name_end.
       Inr (pointer, align_offset (node_name_end + 1) 4))"

definition DeviceTreeProperty_parse ::
    "byte list \<Rightarrow> nat \<Rightarrow> tree_arrays \<Rightarrow> error + nat option \<times> nat \<times> tree_arrays" where
  "DeviceTreeProperty_parse blob pointer s =
     bindr (skip_nops blob pointer) (\<lambda>pointer1.
     bindr (load32 blob pointer1) (\<lambda>token.
       if token \<noteq> SWAP_ENDIANNESS32 STRUCTURE_PROP then Inr (None, pointer1, s)
       else
         let raw = pointer1 + 4; (parsed, new_next) = next_free (props_next s) NUM_DEVICE_TREE_NODES in
         bindr (load32 blob offsetof_off_dt_strings) (\<lambda>off_dt_strings.
         bindr (load32 blob (raw + 4)) (\<lambda>nameoff.
           case parsed of
             None \<Rightarrow> Inl NullDeref
           | Some i \<Rightarrow>
               bindr (load32 blob raw) (\<lambda>len.
                 let value = raw + 8; value_len = unat (SWAP_ENDIANNESS32 len) in
                 Inr (Some i, align_offset (value + value_len) 4,
                   update_prop i
                     (\<lambda>prop. prop\<lparr>prop_name := Some (unat (SWAP_ENDIANNESS32 off_dt_strings) +
                                                     unat (SWAP_ENDIANNESS32 nameoff)),
                                  prop_value := Some value, prop_value_len := value_len\<rparr>)
                     (s\<lparr>props_next := new_next\<rparr>)))))))"

text \<open>
  The two loops of \<open>DeviceTreeNode_parse\<close> end because the pointer moves up; the fuel is the recursion
  depth and the number of rounds, of which \<open>DeviceTree_parse\<close> allows more than the blob has bytes.
\<close>

fun parse_properties_loop :: "nat \<Rightarrow> byte list \<Rightarrow> nat \<Rightarrow> nat \<Rightarrow> tree_arrays \<Rightarrow> error + nat \<times> tree_arrays" where
  "parse_properties_loop 0 blob parsed pointer s = Inl Hangs"
| "parse_properties_loop (Suc fuel) blob parsed pointer s =
     bindr (skip_nops blob pointer) (\<lambda>pointer1.
     bindr (DeviceTreeProperty_parse blob pointer1 s) (\<lambda>(prop, pointer2, s2).
       case prop of
         None \<Rightarrow> Inr (pointer2, s2)
       | Some i \<Rightarrow>
           bindr (add_linked (read_property_link parsed s2) (store_property_link parsed i s2)) (\<lambda>s3.
             parse_properties_loop fuel blob parsed pointer2 s3)))"

fun DeviceTreeNode_parse ::
      "nat \<Rightarrow> byte list \<Rightarrow> nat \<Rightarrow> tree_arrays \<Rightarrow> error + nat option \<times> nat \<times> tree_arrays"
  and parse_children_loop ::
      "nat \<Rightarrow> byte list \<Rightarrow> nat \<Rightarrow> nat \<Rightarrow> tree_arrays \<Rightarrow> error + nat \<times> tree_arrays"
where
  "DeviceTreeNode_parse 0 blob pointer s = Inl Hangs"
| "DeviceTreeNode_parse (Suc fuel) blob pointer s =
     bindr (skip_nops blob pointer) (\<lambda>pointer1.
     bindr (load32 blob pointer1) (\<lambda>token.
       if token \<noteq> SWAP_ENDIANNESS32 STRUCTURE_BEGIN_NODE then Inr (None, pointer1, s)
       else
         let (allocated, new_next) = next_free (nodes_next s) NUM_DEVICE_TREE_NODES in
         bindr (parse_node_name blob (pointer1 + 4)) (\<lambda>(name, pointer2).
           case allocated of
             None \<Rightarrow> Inl NullDeref
           | Some parsed \<Rightarrow>
               let s2 = update_node parsed (node_name_update (\<lambda>_. Some name)) (s\<lparr>nodes_next := new_next\<rparr>) in
               bindr (parse_properties_loop (Suc (length blob)) blob parsed pointer2 s2) (\<lambda>(pointer3, s3).
               bindr (parse_children_loop fuel blob parsed pointer3 s3) (\<lambda>(pointer4, s4).
               bindr (skip_nops blob pointer4) (\<lambda>pointer5.
               bindr (load32 blob pointer5) (\<lambda>token2.
                 if token2 \<noteq> SWAP_ENDIANNESS32 STRUCTURE_END_NODE
                 then Inl (Panic ''unclosed device tree node'')
                 else Inr (Some parsed, pointer5 + 4, s4))))))))"
| "parse_children_loop 0 blob parsed pointer s = Inl Hangs"
| "parse_children_loop (Suc fuel) blob parsed pointer s =
     bindr (skip_nops blob pointer) (\<lambda>pointer1.
     bindr (DeviceTreeNode_parse fuel blob pointer1 s) (\<lambda>(child, pointer2, s2).
       case child of
         None \<Rightarrow> Inr (pointer2, s2)
       | Some i \<Rightarrow>
           bindr (add_linked (read_child_link parsed s2) (store_child_link parsed i s2)) (\<lambda>s3.
             parse_children_loop fuel blob parsed pointer2 s3)))"

definition DeviceTree_parse :: "byte list \<Rightarrow> tree_arrays \<Rightarrow> error + DeviceTree \<times> tree_arrays" where
  "DeviceTree_parse blob s =
     bindr (load32 blob offsetof_magic) (\<lambda>magic.
       if magic \<noteq> SWAP_ENDIANNESS32 DEVICE_TREE_MAGIC
       then Inl (Panic ''bad magic on device tree header: 0x%08x'')
       else
     bindr (load32 blob offsetof_version) (\<lambda>version.
     bindr (if version \<noteq> SWAP_ENDIANNESS32 DEVICE_TREE_VERSION
            then bindr (load32 blob offsetof_last_comp_version) (\<lambda>last_comp_version.
                   Inr (last_comp_version \<noteq> SWAP_ENDIANNESS32 DEVICE_TREE_VERSION))
            else Inr False) (\<lambda>bad_version.
       if bad_version then Inl (Panic ''bad version/comp_version on device tree header: %d'')
       else
     bindr (load32 blob offsetof_off_dt_struct) (\<lambda>off_dt_struct.
     bindr (DeviceTreeNode_parse (length blob + 2) blob (unat (SWAP_ENDIANNESS32 off_dt_struct)) s)
       (\<lambda>(parsed, pointer, s1).
     bindr (load32 blob pointer) (\<lambda>token.
       if token \<noteq> SWAP_ENDIANNESS32 STRUCTURE_END then Inl (Panic ''device tree structure not closed'')
       else case parsed of
           None \<Rightarrow> Inl (Panic ''device tree NULL root node'')
         | Some r \<Rightarrow>
             bindr (load32 blob offsetof_boot_cpuid_phys) (\<lambda>cpu.
               Inr (\<lparr>boot_cpuid_phys = SWAP_ENDIANNESS32 cpu, root = r\<rparr>, s1))))))))"

section \<open>The searches\<close>

text \<open>The string that a pointer into the blob points to, as \<open>strcmp\<close> takes it.\<close>

definition string_at :: "byte list \<Rightarrow> nat option \<Rightarrow> byte list option" where
  "string_at blob p = map_option (\<lambda>offset. drop offset blob) p"

text \<open>One test of the loop: \<open>None\<close> where it stops at \<open>prop\<close>, else the next value of \<open>prop\<close>.\<close>

definition find_property_step ::
    "byte list \<Rightarrow> tree_arrays \<Rightarrow> byte list \<Rightarrow> nat option \<Rightarrow> error + nat option option" where
  "find_property_step blob s property_name prop =
     (case prop of
        None \<Rightarrow> Inr None
      | Some i \<Rightarrow>
          bindr (deref (props_items s) i) (\<lambda>p.
          bindr (strcmp (string_at blob (prop_name p)) (Some property_name)) (\<lambda>r.
            Inr (if 0 = r then None else Some (prop_next p)))))"

partial_function (option) find_property_loop ::
    "byte list \<Rightarrow> tree_arrays \<Rightarrow> byte list \<Rightarrow> nat option \<Rightarrow> (error + nat option) option" where
  "find_property_loop blob s property_name prop =
     (case find_property_step blob s property_name prop of
        Inl e \<Rightarrow> Some (Inl e)
      | Inr None \<Rightarrow> Some (Inr prop)
      | Inr (Some next) \<Rightarrow> find_property_loop blob s property_name next)"

definition DeviceTreeNode_find_property ::
    "byte list \<Rightarrow> tree_arrays \<Rightarrow> nat option \<Rightarrow> byte list \<Rightarrow> (error + nat option) option" where
  "DeviceTreeNode_find_property blob s node property_name =
     (case node of
        None \<Rightarrow> Some (Inr None)
      | Some i \<Rightarrow>
          (case deref (nodes_items s) i of
             Inl e \<Rightarrow> Some (Inl e)
           | Inr n \<Rightarrow> find_property_loop blob s property_name (node_properties n)))"

text \<open>
  A path is the array of its strings with a \<open>NULL\<close> at the end; \<open>depth\<close> is a \<open>uint8_t\<close>.  \<open>None\<close> stands for a
  search that never ends.
\<close>

type_synonym DeviceTreePath = "byte list option list"

text \<open>The two conditions on the node itself: its name is the one at \<open>depth\<close>, and that is the last one.\<close>

definition find_child_test ::
    "byte list \<Rightarrow> tree_arrays \<Rightarrow> nat \<Rightarrow> DeviceTreePath \<Rightarrow> byte \<Rightarrow> error + DeviceTreeNode \<times> bool \<times> bool" where
  "find_child_test blob s i path depth =
     bindr (deref (nodes_items s) i) (\<lambda>node.
     bindr (deref path (unat depth)) (\<lambda>here.
     bindr (strcmp (string_at blob (node_name node)) here) (\<lambda>r.
       if 0 = r
       then bindr (deref path (unat depth + 1)) (\<lambda>after. Inr (node, True, after = None))
       else Inr (node, False, False))))"

partial_function (option) DeviceTreeNode_find_child_recursive ::
    "byte list \<Rightarrow> tree_arrays \<Rightarrow> nat \<Rightarrow> DeviceTreePath \<Rightarrow> byte \<Rightarrow> (error + nat option) option" where
  "DeviceTreeNode_find_child_recursive blob s i path depth =
     (case find_child_test blob s i path depth of
        Inl e \<Rightarrow> Some (Inl e)
      | Inr (node, here_matches, final) \<Rightarrow>
          if here_matches \<and> final then Some (Inr (Some i))
          else
            Option.bind
              (if here_matches
               then (case node_child node of
                       None \<Rightarrow> Some (Inr None)
                     | Some c \<Rightarrow> DeviceTreeNode_find_child_recursive blob s c path (depth + 1))
               else Some (Inr None))
              (\<lambda>below. case below of
                 Inl e \<Rightarrow> Some (Inl e)
               | Inr (Some check) \<Rightarrow> Some (Inr (Some check))
               | Inr None \<Rightarrow>
                   (case node_next node of
                      None \<Rightarrow> Some (Inr None)
                    | Some sibling \<Rightarrow> DeviceTreeNode_find_child_recursive blob s sibling path depth)))"

definition DeviceTreeNode_find_child ::
    "byte list \<Rightarrow> tree_arrays \<Rightarrow> nat \<Rightarrow> DeviceTreePath \<Rightarrow> (error + nat option) option" where
  "DeviceTreeNode_find_child blob s node path = DeviceTreeNode_find_child_recursive blob s node path 0"

text \<open>\<open>DEVICE_TREE_PATH_FROM_ROOT\<close>, on NUL-terminated names.\<close>

definition DEVICE_TREE_PATH_FROM_ROOT :: "byte list list \<Rightarrow> DeviceTreePath" where
  "DEVICE_TREE_PATH_FROM_ROOT names = map (\<lambda>name. Some (name @ [0])) ([] # names) @ [None]"

end
