(* ===== verification/Printers.thy ===== *)
theory Printers
  imports Trap_Handler Device_Tree
begin

text \<open>
  The parts of the kernel that only print: sections (kernel/sections.c), processes (kernel/process/process.c), page
  tables (kernel/virtual\_memory/page\_table.c) and device trees (kernel/device/device\_tree.c).  None of them changes
  anything they print, so each is the sequence of its calls of \<open>printf\<close>, which \<open>run_actions\<close> makes one after the
  other; \<open>Stop\<close> is where a printer does not come any further, with the reason.
\<close>

section \<open>Sequences of calls of \<open>printf\<close>\<close>

datatype action = Print "byte list" "vararg list" | Stop error

fun run_actions :: "nat \<Rightarrow> action list \<Rightarrow> kernel \<Rightarrow> error + kernel" where
  "run_actions h [] k = Inr k"
| "run_actions h (Print fmt args # rest) k = bindr (kprintf h fmt args k) (\<lambda>(n, k1). run_actions h rest k1)"
| "run_actions h (Stop e # rest) k = Inl e"

abbreviation line :: "string \<Rightarrow> byte list" where
  "line s \<equiv> bytes_of s @ [10, 0]"

abbreviation tab_line :: "string \<Rightarrow> byte list" where
  "tab_line s \<equiv> 9 # bytes_of s @ [10, 0]"

text \<open>A value that a call needs and that may not be there.\<close>

definition with_value :: "error + 'a \<Rightarrow> ('a \<Rightarrow> action list) \<Rightarrow> action list" where
  "with_value r f = (case r of Inl e \<Rightarrow> [Stop e] | Inr x \<Rightarrow> f x)"

lemma with_value_simps [simp]: "with_value (Inl e) f = [Stop e]" "with_value (Inr x) f = f x"
  by (simp_all add: with_value_def)

section \<open>Sections (sections.c)\<close>

text \<open>The name is a NUL-terminated string; start and end come from the linker, by the name.\<close>

record NamedSection = Section +
  section_name :: "byte list"

definition SECTION_IMPL :: "(string \<Rightarrow> addr \<times> addr) \<Rightarrow> string \<Rightarrow> SectionType \<Rightarrow> NamedSection" where
  "SECTION_IMPL linker name t =
     \<lparr>section_type = t, start_address = fst (linker name), end_address = snd (linker name), section_name = cstr name\<rparr>"

definition SectionType_str :: "SectionType \<Rightarrow> byte list" where
  "SectionType_str t = cstr (case t of
       SECTION_TYPE_NORMAL \<Rightarrow> ''normal'' | SECTION_TYPE_META \<Rightarrow> ''meta'' | SECTION_TYPE_SPECIAL \<Rightarrow> ''special''
     | SECTION_TYPE_USER_PROGRAM \<Rightarrow> ''user program'')"

definition Section_print :: "NamedSection \<Rightarrow> action list" where
  "Section_print s =
     (let size = Section_size (Section.truncate s);
          kibibytes = INT_DIV_CEIL size 1024;
          pages = INT_DIV_CEIL size PAGE_SIZE
      in [Print (line ''section %s'') [VStr (section_name s)],
          Print (tab_line ''type:       %s'') [VStr (SectionType_str (section_type s))],
          Print (tab_line ''addresses:  %p - %p'') [VWord (start_address s), VWord (end_address s)],
          Print (tab_line ''size:       %lu pages (~%lu kB, %lu bytes)'') [VWord pages, VWord kibibytes, VWord size]])"

definition kernel_sections :: "(string \<Rightarrow> addr \<times> addr) \<Rightarrow> NamedSection list" where
  "kernel_sections linker =
     [SECTION_IMPL linker ''MEMORY'' SECTION_TYPE_META,
      SECTION_IMPL linker ''TEXT'' SECTION_TYPE_NORMAL, SECTION_IMPL linker ''RODATA'' SECTION_TYPE_NORMAL,
      SECTION_IMPL linker ''BSS'' SECTION_TYPE_NORMAL, SECTION_IMPL linker ''PAGES'' SECTION_TYPE_NORMAL,
      SECTION_IMPL linker ''GLOBAL_SPECIAL'' SECTION_TYPE_SPECIAL, SECTION_IMPL linker ''USER_SPECIAL'' SECTION_TYPE_SPECIAL,
      SECTION_IMPL linker ''USER_PROGRAMS'' SECTION_TYPE_META]"

definition print_all_sections :: "(string \<Rightarrow> addr \<times> addr) \<Rightarrow> NamedSection list \<Rightarrow> action list" where
  "print_all_sections linker user_programs =
     concat (map Section_print (kernel_sections linker)) @ concat (map Section_print user_programs)"

section \<open>Page tables (page\_table.c)\<close>

definition flag_global :: "PageTableEntryFlags \<Rightarrow> bool" where "flag_global f = bit f 5"
definition flag_accessed :: "PageTableEntryFlags \<Rightarrow> bool" where "flag_accessed f = bit f 6"
definition flag_dirty :: "PageTableEntryFlags \<Rightarrow> bool" where "flag_dirty f = bit f 7"

definition PRINTF_IF :: "bool \<Rightarrow> byte list \<Rightarrow> vararg list \<Rightarrow> action list" where
  "PRINTF_IF b fmt args = (if b then [Print fmt args] else [])"

text \<open>\<open>all_flags\<close> is the constant \<open>PAGE_TABLE_PRINT_ALL_FLAGS\<close> of the build.\<close>

definition PageTableEntryFlags_print :: "bool \<Rightarrow> PageTableEntryFlags \<Rightarrow> bool \<Rightarrow> action list" where
  "PageTableEntryFlags_print all_flags flags print_leafiness =
     (let flag = (\<lambda>b. VWord (of_bool b)) in
      (if all_flags
       then [Print (cstr ''v%ur%uw%ux%uu%ug%ua%ud%u'')
               [flag (flag_valid flags), flag (flag_read flags), flag (flag_write flags), flag (flag_execute flags),
                flag (flag_user flags), flag (flag_global flags), flag (flag_accessed flags), flag (flag_dirty flags)]]
       else PRINTF_IF (flag_valid flags) (cstr ''v'') [] @ PRINTF_IF (flag_read flags) (cstr ''r'') [] @
         PRINTF_IF (flag_write flags) (cstr ''w'') [] @ PRINTF_IF (flag_execute flags) (cstr ''x'') [] @
         PRINTF_IF (flag_user flags) (cstr ''u'') [] @ PRINTF_IF (flag_global flags) (cstr ''g'') [] @
         PRINTF_IF (flag_accessed flags) (cstr ''a'') [] @ PRINTF_IF (flag_dirty flags) (cstr ''d'') []) @
      (if print_leafiness
       then [Print (cstr (if PageTableEntryFlags_is_leaf flags then '' (leaf)'' else '' (inner)'')) []]
       else []))"

definition PageTableEntry_print :: "bool \<Rightarrow> PageTableEntry \<Rightarrow> action list" where
  "PageTableEntry_print all_flags entry =
     [Print (cstr ''Entry { flags: '') []] @ PageTableEntryFlags_print all_flags (entry_flags entry) True @
     [Print (line '', physical_page_num: 0x%llx }'') [VWord (physical_page_num entry)]]"

text \<open>
  \<open>PageTable_print\<close> follows every entry that is not a leaf, also below level 0, where \<open>level\<close> is a \<open>uint8_t\<close>; the
  first argument bounds the depth.
\<close>

fun PageTable_print :: "nat \<Rightarrow> bool \<Rightarrow> (addr \<Rightarrow> u64) \<Rightarrow> PageTable \<Rightarrow> bool \<Rightarrow> bool \<Rightarrow> byte \<Rightarrow> action list" where
  "PageTable_print 0 all_flags m table only_valid_entries recurse level = [Stop Hangs]"
| "PageTable_print (Suc fuel) all_flags m table only_valid_entries recurse level =
     concat (map (\<lambda>i. let entry = m (entry_addr table (of_nat i)) in
       if only_valid_entries \<and> \<not> flag_valid (entry_flags entry) then []
       else (if recurse then [Print (cstr ''(level[%-3u]) '') [VWord (ucast level)]] else []) @
         [Print (cstr ''PageTable %p entry[%-3u] = '') [VWord table, VWord (of_nat i)]] @
         PageTableEntry_print all_flags entry @
         (if recurse \<and> \<not> PageTableEntryFlags_is_leaf (entry_flags entry)
          then with_value (PageTableEntry_get_linked entry) (\<lambda>linked.
            PageTable_print fuel all_flags m linked only_valid_entries recurse (level - 1))
          else [])) [0..<512])"

text \<open>
  The printer of the addresses that are mapped.  It goes down exactly to level 0; the entry number that the loop puts
  into \<open>virtual_address\<close> stays there for the entries that follow.
\<close>

fun PageTable_print_page_addresses :: "(addr \<Rightarrow> u64) \<Rightarrow> nat \<Rightarrow> PageTable \<Rightarrow> addr \<Rightarrow> nat list \<Rightarrow> action list" where
  "PageTable_print_page_addresses m level table virtual_address [] = []"
| "PageTable_print_page_addresses m level table virtual_address (i # is) =
     (let entry = m (entry_addr table (of_nat i)) in
      if \<not> flag_valid (entry_flags entry)
      then PageTable_print_page_addresses m level table virtual_address is
      else with_value (VirtualAddress_set_level_entry_number virtual_address level (of_nat i)) (\<lambda>va.
        (case level of
           0 \<Rightarrow>
             (let physical_address = physical_page_num entry * PAGE_SIZE in
              [if va = physical_address then Print (line ''vaddr %p => (transparent)'') [VWord va]
               else Print (line ''vaddr %p => paddr %p'') [VWord va, VWord physical_address]])
         | Suc level1 \<Rightarrow>
             with_value (PageTableEntry_get_linked entry) (\<lambda>linked.
               PageTable_print_page_addresses m level1 linked va [0..<512])) @
        PageTable_print_page_addresses m level table va is))"

text \<open>The level and the address at the root.\<close>

definition PageTablePrintPageAddressesState_start :: "nat \<times> addr" where
  "PageTablePrintPageAddressesState_start = (VIRTUAL_MEMORY_TOP_LEVEL, 0)"

section \<open>Processes (process.c)\<close>

fun ProcessState_number :: "ProcessState \<Rightarrow> u64" where
  "ProcessState_number PROCESS_UNUSED = 0"
| "ProcessState_number PROCESS_READY = 1"
| "ProcessState_number PROCESS_RUNNABLE = 2"
| "ProcessState_number PROCESS_RUNNING = 3"

definition Process_type_str :: "Process \<Rightarrow> kernel \<Rightarrow> byte list" where
  "Process_type_str p k = cstr (if Process_is_kernel_process p k then ''kernel'' else ''user'')"

definition ProcessState_print :: "ProcessState \<Rightarrow> action list" where
  "ProcessState_print state =
     [Print (cstr ''%d('') [VWord (ProcessState_number state)],
      Print (cstr (case state of PROCESS_UNUSED \<Rightarrow> ''UNUSED'' | PROCESS_READY \<Rightarrow> ''READY'' | PROCESS_RUNNABLE \<Rightarrow> ''RUNNABLE''
        | PROCESS_RUNNING \<Rightarrow> ''RUNNING'')) [],
      Print (cstr '')'') []]"

definition PRINT_CONTEXT_REG :: "string \<Rightarrow> u64 \<Rightarrow> action" where
  "PRINT_CONTEXT_REG name v = Print (9 # bytes_of name @ line '': %p,'') [VWord v]"

definition Process_print :: "Process \<Rightarrow> kernel \<Rightarrow> action list" where
  "Process_print p k =
     (let frame = proc_frame p in
      [Print (line ''Process {'') [],
       Print (tab_line ''pid: %u,'') [VWord (ucast (proc_id p))],
       Print (tab_line ''page_table: (%s) %p'')
         [VStr (if proc_page_table p = 0 then cstr ''NULL'' else Process_type_str p k), VWord (proc_page_table p)],
       Print (9 # cstr ''state: '') []] @
      ProcessState_print (proc_state p) @
      [Print (line '','') [], PRINT_CONTEXT_REG ''ra'' (frame_regs frame ra)] @
      (if proc_page_table p \<noteq> 0
       then with_value (PageTable_get_physical_address (mem (vm k)) (proc_page_table p) (frame_regs frame ra)) (\<lambda>pa.
         [Print (tab_line ''ra vaddr = paddr %p,'') [VWord pa]])
       else []) @
      [PRINT_CONTEXT_REG ''sp'' (frame_regs frame sp), PRINT_CONTEXT_REG ''pc'' (frame_pc frame), Print (line ''}'') []])"

section \<open>Device trees (device\_tree.c)\<close>

definition D :: "nat \<Rightarrow> action" where
  "D x = Print (cstr ''%*s'') [VWord (of_nat (x * 4)), VStr [0]]"

text \<open>A \<open>char*\<close> into the blob as an argument of \<open>%s\<close>.\<close>

definition string_arg :: "byte list \<Rightarrow> nat option \<Rightarrow> error + vararg" where
  "string_arg blob p =
     (case p of None \<Rightarrow> Inl NullDeref
      | Some offset \<Rightarrow> if 0 \<in> set (drop offset blob) then Inr (VStr (drop offset blob)) else Inl OutOfBounds)"

text \<open>\<open>value[i]\<close> of a property; the subscript of the last byte of an empty value is the largest \<open>size_t\<close>.\<close>

definition value_at :: "byte list \<Rightarrow> DeviceTreeProperty \<Rightarrow> int \<Rightarrow> error + byte" where
  "value_at blob p i =
     (case prop_value p of None \<Rightarrow> Inl NullDeref
      | Some v \<Rightarrow> if int v + i < 0 then Inl OutOfBounds else deref blob (nat (int v + i)))"

text \<open>The loop that looks for a byte that is not text: \<open>normal_ascii\<close> and \<open>all_zeros\<close> at its end.\<close>

fun scan_value :: "byte list \<Rightarrow> DeviceTreeProperty \<Rightarrow> nat list \<Rightarrow> bool \<Rightarrow> error + bool \<times> bool" where
  "scan_value blob p [] all_zeros = Inr (True, all_zeros)"
| "scan_value blob p (i # is) all_zeros =
     bindr (value_at blob p (int i)) (\<lambda>v.
       if (v < 0x20 \<or> v > 0x7e) \<and> v \<noteq> 0 \<and> \<not> (v = 10 \<or> v = 9 \<or> v = 13) then Inr (False, all_zeros)
       else scan_value blob p is (all_zeros \<and> v = 0))"

definition is_text_value :: "byte list \<Rightarrow> DeviceTreeProperty \<Rightarrow> error + bool" where
  "is_text_value blob p =
     bindr (value_at blob p (int (prop_value_len p) - 1)) (\<lambda>end_byte.
     bindr (if prop_value_len p > 0 then bindr (value_at blob p 0) (\<lambda>v. Inr (v \<noteq> 0)) else Inr False) (\<lambda>first_is_not_zero.
     bindr (scan_value blob p [0..<prop_value_len p] True) (\<lambda>(normal_ascii, all_zeros).
     Inr (normal_ascii \<and> \<not> all_zeros \<and> end_byte = 0 \<and> first_is_not_zero))))"

definition DeviceTreeProperty_print :: "byte list \<Rightarrow> DeviceTreeProperty \<Rightarrow> nat \<Rightarrow> nat \<Rightarrow> action list" where
  "DeviceTreeProperty_print blob p depth counter =
     [D (depth + 1), Print (cstr ''prop[%d]: '') [VWord (of_nat counter)], Print (cstr ''DeviceTreeProperty { '') []] @
     with_value (string_arg blob (prop_name p)) (\<lambda>name.
       [Print (bytes_of ''name: \"%s\", '' @ [0]) [name], Print (cstr ''data: '') []]) @
     with_value (is_text_value blob p) (\<lambda>is_text.
       if is_text then with_value (string_arg blob (prop_value p)) (\<lambda>v. [Print (cstr ''\"%s\" '') [v]]) else []) @
     [Print (cstr ''[%d] '') [VWord (of_nat (prop_value_len p))]] @
     concat (map (\<lambda>i. with_value (value_at blob p (int i)) (\<lambda>v. [Print (cstr ''%02x '') [VWord (ucast v)]]))
       [0..<prop_value_len p]) @
     [Print (line ''},'') []]"

text \<open>The loops follow the lists; the fuel is more than the items there are.\<close>

fun print_properties_loop :: "nat \<Rightarrow> byte list \<Rightarrow> tree_arrays \<Rightarrow> nat \<Rightarrow> nat \<Rightarrow> nat option \<Rightarrow> action list" where
  "print_properties_loop 0 blob s depth counter prop = [Stop Hangs]"
| "print_properties_loop (Suc fuel) blob s depth counter prop =
     (case prop of
        None \<Rightarrow> []
      | Some i \<Rightarrow>
          with_value (deref (props_items s) i) (\<lambda>p.
            DeviceTreeProperty_print blob p depth counter @
            print_properties_loop fuel blob s depth (counter + 1) (prop_next p)))"

fun DeviceTreeNode_print :: "nat \<Rightarrow> byte list \<Rightarrow> tree_arrays \<Rightarrow> nat \<Rightarrow> nat \<Rightarrow> action list"
and print_children_loop :: "nat \<Rightarrow> byte list \<Rightarrow> tree_arrays \<Rightarrow> nat \<Rightarrow> nat \<Rightarrow> nat option \<Rightarrow> action list" where
  "DeviceTreeNode_print 0 blob s node depth = [Stop Hangs]"
| "DeviceTreeNode_print (Suc fuel) blob s node depth =
     with_value (deref (nodes_items s) node) (\<lambda>n.
       [Print (line ''DeviceTreeNode {'') [], D (depth + 1)] @
       with_value (string_arg blob (node_name n)) (\<lambda>name. [Print (line ''name: \"%s\",'') [name]]) @
       print_properties_loop (NUM_DEVICE_TREE_PROPERTIES + 1) blob s depth 0 (node_properties n) @
       print_children_loop fuel blob s depth 0 (node_child n) @
       [D depth, Print (line ''},'') []])"
| "print_children_loop 0 blob s depth counter child = [Stop Hangs]"
| "print_children_loop (Suc fuel) blob s depth counter child =
     (case child of
        None \<Rightarrow> []
      | Some c \<Rightarrow>
          with_value (deref (nodes_items s) c) (\<lambda>n.
            [D (depth + 1), Print (cstr ''child[%d]: '') [VWord (of_nat counter)]] @
            DeviceTreeNode_print fuel blob s c (depth + 1) @
            print_children_loop fuel blob s depth (counter + 1) (node_next n)))"

definition DeviceTree_print :: "byte list \<Rightarrow> tree_arrays \<Rightarrow> DeviceTree \<Rightarrow> action list" where
  "DeviceTree_print blob s tree =
     [Print (line ''DeviceTree {'') [], D 1, Print (line ''boot_cpuid_phys: %x,'') [VWord (ucast (boot_cpuid_phys tree))], D 1] @
     DeviceTreeNode_print (2 * NUM_DEVICE_TREE_NODES + 1) blob s (root tree) 1 @
     [Print (line ''}'') []]"

text \<open>The whole blob as bytes; \<open>header\<close> is its address.\<close>

definition DeviceTree_dump_raw :: "byte list \<Rightarrow> addr \<Rightarrow> action list" where
  "DeviceTree_dump_raw blob header =
     [Print (line ''raw header address: %p'') [VWord header], Print (line ''--- start DeviceTree dump ---'') []] @
     with_value (load32 blob offsetof_totalsize) (\<lambda>totalsize.
       concat (map (\<lambda>i. (if i \<noteq> 0 \<and> i mod 16 = 0 then [Print [10, 0] []] else []) @
           with_value (deref blob i) (\<lambda>v. [Print (cstr ''%02x '') [VWord (ucast v)]]))
         [0..<unat (SWAP_ENDIANNESS32 totalsize)])) @
     [Print [10, 0] [], Print (line ''--- end DeviceTree dump ---'') []]"

end
