(* ===== verification/Boot.thy ===== *)
theory Boot
  imports Trap_Handler Device_Tree
begin

text \<open>
  kernel/boot/kernel.c, kernel/example\_process.c, kernel/exit.c and kernel/panic.c: from the entry of a hart into
  the kernel to its first process, and the ways the kernel stops.  The firmware's answers to the requests that
  start other harts, and the addresses that the linker gives the example processes, are arguments.
\<close>

section \<open>Stopping (exit.c, panic.c)\<close>

text \<open>
  \<open>exit\<close> does not return: the result is the state in which it goes round its last loop, which it reaches only if
  neither the test device nor the firmware stops the machine.
\<close>

definition exit :: "Board \<Rightarrow> u32 \<Rightarrow> nat \<Rightarrow> kernel \<Rightarrow> error + kernel" where
  "exit board exit_code h k =
     bindr (if sifive_test board \<noteq> 0
            then bindr (sifive_test_exit board exit_code (mmio k)) (\<lambda>trace. Inr (k\<lparr>mmio := trace\<rparr>))
            else Inr k) (\<lambda>k1.
     bindr (kprintf h (bytes_of ''---EXITCODE %d---'' @ [10, 0]) [VWord (scast exit_code)] k1) (\<lambda>(n, k2).
     let k3 = k2\<lparr>sbi := sbi_shutdown 0x1 (sbi_shutdown 0x0 (sbi k2))\<rparr> in
     bindr (kprintf h ([10] @ bytes_of ''%s'' @ [10, 0]) [VStr (cstr ''---UNABLE TO SHUTDOWN---'')] k3) (\<lambda>(n, k4).
     Inr k4)))"

definition panic_start :: "nat \<Rightarrow> kernel \<Rightarrow> kernel" where
  "panic_start h k = snd (disable_traps_now h k)"

definition panic_end :: "Board \<Rightarrow> nat \<Rightarrow> kernel \<Rightarrow> error + kernel" where
  "panic_end board h k = exit board 1 h k"

definition my_hart_id :: "Symbols \<Rightarrow> nat \<Rightarrow> kernel \<Rightarrow> u64" where
  "my_hart_id sy h k = (csr_read sscratch h k - hart_scratches_addr sy) div of_nat sizeof_HartScratch"

text \<open>The panic that prints without taking a lock; \<open>file\<close> and \<open>func\<close> are NUL-terminated.\<close>

definition panic_safe ::
    "Symbols \<Rightarrow> Board \<Rightarrow> byte list \<Rightarrow> u64 \<Rightarrow> byte list \<Rightarrow> nat \<Rightarrow> kernel \<Rightarrow> error + kernel" where
  "panic_safe sy board file line func h k =
     (let k1 = panic_start h k in
      bindr (put_direct_str (bytes_of ''!!!'' @ [10, 0]) (sbi k1)) (\<lambda>trace1.
      bindr (put_direct_str (cstr ''Kernel panic on hart '') trace1) (\<lambda>trace2.
      bindr (put_direct_str [10, 0] (put_direct_hex32 (ucast (my_hart_id sy h k1)) trace2)) (\<lambda>trace3.
      bindr (put_direct_str file trace3) (\<lambda>trace4.
      bindr (put_direct_str (cstr '':'') trace4) (\<lambda>trace5.
      bindr (put_direct_u32 (ucast line) trace5) (\<lambda>trace6.
      bindr (put_direct_str ([10] @ cstr ''func '') trace6) (\<lambda>trace7.
      bindr (put_direct_str func trace7) (\<lambda>trace8.
      bindr (put_direct_str ([10] @ bytes_of ''!!!'' @ [10, 0]) trace8) (\<lambda>trace9.
      panic_end board h (k1\<lparr>sbi := trace9\<rparr>)))))))))))"

section \<open>The example processes (example\_process.c)\<close>

record ExampleEntries =
  process_load_a0 :: addr
  process_load_from_stack :: addr
  process_that_returns :: addr
  process_mem_ops :: addr
  process_never_yields :: addr

text \<open>\<open>SomeData\<close> is eight bytes, four bytes, an array of sixteen, and four bytes of padding.\<close>

definition sizeof_SomeData :: u64 where "sizeof_SomeData = 32"

text \<open>Stores of bytes to the memory, which the model of the page tables keeps as 64-bit words.\<close>

definition store_byte :: "addr \<Rightarrow> byte \<Rightarrow> (addr \<Rightarrow> u64) \<Rightarrow> addr \<Rightarrow> u64" where
  "store_byte a b m =
     (let w = a AND NOT 7; i = 8 * unat (a AND 7) in
      m(w := (m w AND NOT (push_bit i 0xFF)) OR push_bit i (ucast b)))"

fun store_bytes :: "addr \<Rightarrow> byte list \<Rightarrow> (addr \<Rightarrow> u64) \<Rightarrow> addr \<Rightarrow> u64" where
  "store_bytes a [] m = m"
| "store_bytes a (b # bs) m = store_bytes (a + 1) bs (store_byte a b m)"

definition store_SomeData :: "addr \<Rightarrow> (addr \<Rightarrow> u64) \<Rightarrow> addr \<Rightarrow> u64" where
  "store_SomeData a m =
     (let m1 = store_bytes a (map (byte_at (0xdeaddeaddeadbeef :: u64)) [0..<8]) m;
          m2 = store_bytes (a + 8) (map (byte_at (0xfeedcafe :: u32)) [0..<4]) m1
      in store_bytes (a + 12) (cstr ''abcdefghijklmno'') m2)"

definition edit_frame :: "nat \<Rightarrow> (TrapFrame \<Rightarrow> TrapFrame) \<Rightarrow> kernel \<Rightarrow> error + kernel" where
  "edit_frame p f k =
     bindr (deref (processes k) p) (\<lambda>proc. Inr (set_process p (proc\<lparr>proc_frame := f (proc_frame proc)\<rparr>) k))"

text \<open>The loop over \<open>process_load_a0\<close>, from \<open>i\<close> to 10.\<close>

function start_load_a0 :: "Sections \<Rightarrow> ExampleEntries \<Rightarrow> nat \<Rightarrow> nat \<Rightarrow> kernel \<Rightarrow> error + kernel" where
  "start_load_a0 ss entries i h k =
     (if i < 10
      then bindr (Process_create ss (KernelProcess (process_load_a0 entries)) h k) (\<lambda>(p, k1).
           bindr (edit_frame p (set_reg a0 (of_nat i)) k1) (start_load_a0 ss entries (i + 1) h))
      else Inr k)"
  by pat_completeness auto
termination
  by (relation "measure (\<lambda>(ss, entries, i, h, k). 10 - i)") auto

declare start_load_a0.simps [simp del]

definition start_load_from_stack :: "Sections \<Rightarrow> ExampleEntries \<Rightarrow> nat \<Rightarrow> kernel \<Rightarrow> error + kernel" where
  "start_load_from_stack ss entries h k =
     bindr (Process_create ss (KernelProcess (process_load_from_stack entries)) h k) (\<lambda>(p, k1).
     bindr (deref (processes k1) p) (\<lambda>proc.
     let stack_data = frame_regs (proc_frame proc) sp - sizeof_SomeData;
         k2 = k1\<lparr>vm := (vm k1)\<lparr>mem := store_SomeData stack_data (mem (vm k1))\<rparr>\<rparr>
     in edit_frame p (\<lambda>f. set_reg a0 stack_data (set_reg sp stack_data f)) k2))"

text \<open>The processes that are created and left as they are.\<close>

fun start_all :: "Sections \<Rightarrow> ProcessArguments list \<Rightarrow> nat \<Rightarrow> kernel \<Rightarrow> error + kernel" where
  "start_all ss [] h k = Inr k"
| "start_all ss (args # rest) h k = bindr (Process_create ss args h k) (\<lambda>(p, k1). start_all ss rest h k1)"

definition start_example_processes ::
    "Sections \<Rightarrow> ExampleEntries \<Rightarrow> Section list \<Rightarrow> nat \<Rightarrow> kernel \<Rightarrow> error + kernel" where
  "start_example_processes ss entries user_programs h k =
     bindr (start_load_a0 ss entries 0 h k) (\<lambda>k1.
     bindr (start_load_from_stack ss entries h k1) (\<lambda>k2.
     start_all ss
       ([KernelProcess (process_that_returns entries), KernelProcess (process_mem_ops entries)] @
        replicate 11 (KernelProcess (process_never_yields entries)) @ map UserProgram user_programs) h k2))"

section \<open>Entering the kernel (kernel.c)\<close>

definition SECONDARY_CLAIM :: u32 where "SECONDARY_CLAIM = 0x7FFFFFFF"

text \<open>The atomic or of \<open>kernel_main\<close>: whether this hart is the first, and the new word.\<close>

definition take_claim :: "u32 \<Rightarrow> bool \<times> u32" where
  "take_claim claim = (claim = 0, claim OR SECONDARY_CLAIM)"

definition print_startup :: "Symbols \<Rightarrow> byte list \<Rightarrow> u64 \<Rightarrow> bool \<Rightarrow> nat \<Rightarrow> kernel \<Rightarrow> error + kernel" where
  "print_startup sy compiler hart_id is_primary h k =
     bindr (kprintf h (bytes_of ''Hello kernel_main'' @ [10, 0]) [] k) (\<lambda>(n, k1).
     bindr (kprintf h (bytes_of ''sscratch:   %p'' @ [10, 0]) [VWord (csr_read sscratch h k1)] k1) (\<lambda>(n, k2).
     bindr (kprintf h (bytes_of ''a0 hartid:  %d'' @ [10, 0]) [VWord hart_id] k2) (\<lambda>(n, k3).
     bindr (kprintf h (bytes_of ''my_hart_id: %d'' @ [10, 0]) [VWord (my_hart_id sy h k3)] k3) (\<lambda>(n, k4).
     bindr (kprintf h (bytes_of ''main type:  %s'' @ [10, 0])
              [VStr (cstr (if is_primary then ''primary'' else ''secondary''))] k4) (\<lambda>(n, k5).
     bindr (if is_primary then kprintf h (bytes_of ''(compiled with %s)'' @ [10, 0]) [VStr compiler] k5 else Inr (0, k5)) (\<lambda>(n, k6).
     bindr (kprintf h [10, 0] [] k6) (\<lambda>(n, k7). Inr k7)))))))"

text \<open>What the firmware answers to the request to start a hart: an error and a value.\<close>

type_synonym firmware = "u64 \<Rightarrow> u64 \<times> u64"

lemma next_hart:
  "w \<le> of_nat HART_MAXIMUM \<Longrightarrow> 10 - unat (w + 1) < 10 - unat (w :: u64) \<and> unat (w + 1) = unat w + 1 \<and> unat w \<le> 9"
proof -
  assume "w \<le> of_nat HART_MAXIMUM"
  then have "unat w \<le> 9" by (simp add: HART_MAXIMUM_def word_le_nat_alt)
  moreover from this have "unat (w + 1) = unat w + 1" by (subst unat_word_add_less) simp_all
  ultimately show ?thesis by simp
qed

function start_harts ::
    "firmware \<Rightarrow> addr \<Rightarrow> addr \<Rightarrow> u64 \<Rightarrow> u64 \<Rightarrow> u64 \<Rightarrow> nat \<Rightarrow> kernel \<Rightarrow> error + kernel" where
  "start_harts fw boot_at headers hart_id highest hart_to_wake h k =
     (if hart_to_wake \<le> highest \<and> hart_to_wake \<le> of_nat HART_MAXIMUM
      then if hart_to_wake = hart_id
           then bindr (kprintf h (bytes_of ''not starting own hart 0x%x'' @ [10, 0]) [VWord hart_to_wake] k) (\<lambda>(n, k1).
                start_harts fw boot_at headers hart_id highest (hart_to_wake + 1) h k1)
           else bindr (kprintf h (bytes_of ''starting hart id 0x%x'' @ [10, 0]) [VWord hart_to_wake] k) (\<lambda>(n, k1).
                let k2 = k1\<lparr>sbi := sbi_hart_start hart_to_wake boot_at headers (sbi k1)\<rparr>;
                    (ret_error, ret_value) = fw hart_to_wake in
                bindr (if 0 \<noteq> ret_error
                       then bindr (kprintf h (bytes_of ''hart_start return { error %d, value %d }'' @ [10, 0])
                                [VWord ret_error, VWord ret_value] k2) (\<lambda>(n, k3). Inr k3)
                       else Inr k2) (\<lambda>k4.
                start_harts fw boot_at headers hart_id highest (hart_to_wake + 1) h k4))
      else Inr k)"
  by pat_completeness auto
termination
  by (relation "measure (\<lambda>(fw, boot_at, headers, hart_id, highest, hart_to_wake, h, k). 10 - unat hart_to_wake)")
    (auto dest: next_hart)

declare start_harts.simps [simp del]

text \<open>What the linker, the board and the build give the kernel.\<close>

record Image =
  im_symbols :: Symbols
  im_sections :: Sections
  im_board :: Board
  im_entries :: ExampleEntries
  im_user_programs :: "Section list"
  im_compiler_string :: "byte list"

text \<open>
  The primary hart, up to its jump into the processes: \<open>blob\<close> is the device tree and \<open>headers\<close> its address.  The
  debugging that build flags turn on is left out.
\<close>

definition primary_setup ::
    "Image \<Rightarrow> firmware \<Rightarrow> u64 \<Rightarrow> byte list \<Rightarrow> addr \<Rightarrow> tree_arrays \<Rightarrow> nat \<Rightarrow> kernel \<Rightarrow>
     error + DeviceTree \<times> tree_arrays \<times> kernel" where
  "primary_setup im fw hart_id blob headers arrays h k =
     bindr (HartScratch_init_all k) (\<lambda>k1.
     bindr (PageTable_kernel_init (im_sections im) (im_board im) (kernel_table k1) (vm k1)) (\<lambda>(table, vm1).
     let k2 = k1\<lparr>kernel_table := table, vm := vm1\<rparr> in
     bindr (DeviceTree_parse blob arrays) (\<lambda>(tree, arrays1).
     bindr (SpinLock_acquire stdout_lock h k2) (\<lambda>(e, k3).
     bindr (if sifive_uart1 (im_board im) \<noteq> 0 then sifive_uart_init (im_board im) k3 else Inr k3) (\<lambda>k4.
     bindr (SpinLock_release stdout_lock h k4) (\<lambda>k5.
     bindr (SpinLock_acquire stdout_lock h k5) (\<lambda>(e, k6).
     bindr (print_startup (im_symbols im) (im_compiler_string im) hart_id True h k6) (\<lambda>k7.
     bindr (start_harts fw (boot_addr (im_symbols im)) headers hart_id (num_normal_harts (im_board im))
              (num_monitor_harts (im_board im)) h k7) (\<lambda>k8.
     bindr (kprintf h (bytes_of ''done starting harts'' @ [10, 10, 0]) [] k8) (\<lambda>(n, k9).
     bindr (SpinLock_release stdout_lock h k9) (\<lambda>k10.
     bindr (start_example_processes (im_sections im) (im_entries im) (im_user_programs im) h k10) (\<lambda>k11.
     Inr (tree, arrays1, set_trap_vector (im_symbols im) h k11)))))))))))))"

definition primary_main ::
    "Image \<Rightarrow> firmware \<Rightarrow> u64 \<Rightarrow> byte list \<Rightarrow> addr \<Rightarrow> tree_arrays \<Rightarrow> cpu \<Rightarrow> nat \<Rightarrow> cpu \<Rightarrow> kernel \<Rightarrow> error + cpu \<times> kernel" where
  "primary_main im fw hart_id blob headers arrays left_over h c k =
     bindr (primary_setup im fw hart_id blob headers arrays h k) (\<lambda>(tree, arrays1, k1).
     jump_into_processes (im_symbols im) (im_board im) left_over h c k1)"

definition secondary_main :: "Image \<Rightarrow> u64 \<Rightarrow> cpu \<Rightarrow> nat \<Rightarrow> cpu \<Rightarrow> kernel \<Rightarrow> error + cpu \<times> kernel" where
  "secondary_main im hart_id left_over h c k =
     bindr (SpinLock_acquire stdout_lock h k) (\<lambda>(e, k1).
     bindr (print_startup (im_symbols im) (im_compiler_string im) hart_id False h k1) (\<lambda>k2.
     bindr (SpinLock_release stdout_lock h k2) (\<lambda>k3.
     jump_into_processes (im_symbols im) (im_board im) left_over h c (set_trap_vector (im_symbols im) h k3))))"

definition kernel_main ::
    "Image \<Rightarrow> firmware \<Rightarrow> u64 \<Rightarrow> byte list \<Rightarrow> addr \<Rightarrow> tree_arrays \<Rightarrow> u32 \<Rightarrow> cpu \<Rightarrow> nat \<Rightarrow> cpu \<Rightarrow> kernel \<Rightarrow>
     error + u32 \<times> cpu \<times> kernel" where
  "kernel_main im fw hart_id blob headers arrays claim left_over h c k =
     (let (first, claim1) = take_claim claim in
      bindr (if first then primary_main im fw hart_id blob headers arrays left_over h c k
             else secondary_main im hart_id left_over h c k) (\<lambda>(c1, k1). Inr (claim1, c1, k1)))"

end
