(* ===== verification/Hart_Frame.thy ===== *)
theory Hart_Frame
  imports Trap_Handler
begin

text \<open>
  What code that runs on one hart leaves to the others: their control registers, frames, processes and
  lock depths, the address spaces, and the way back through its own scratch.
\<close>

section \<open>The relation\<close>

definition others_keep :: "nat \<Rightarrow> kernel \<Rightarrow> kernel \<Rightarrow> bool" where
  "others_keep h k k' \<longleftrightarrow> vm k' = vm k \<and> kernel_table k' = kernel_table k \<and>
     map proc_page_table (processes k') = map proc_page_table (processes k) \<and>
     length (hart_scratches k') = length (hart_scratches k) \<and> csrs k' h sscratch = csrs k h sscratch \<and>
     (\<forall>g. g \<noteq> h \<longrightarrow> csrs k' g = csrs k g) \<and>
     (\<forall>g. g \<noteq> h \<longrightarrow> g < length (hart_scratches k) \<longrightarrow>
        strip_hart (my_hart_scratch g k') = strip_hart (my_hart_scratch g k))"

lemma others_keep_refl [simp, intro]: "others_keep h k k"
  by (simp add: others_keep_def)

lemma others_keep_trans [trans]: "others_keep h k k1 \<Longrightarrow> others_keep h k1 k2 \<Longrightarrow> others_keep h k k2"
  by (simp add: others_keep_def)

lemma others_keepD:
  assumes "others_keep h k k'"
  shows "kernel_table k' = kernel_table k" "length (hart_scratches k') = length (hart_scratches k)"
    "length (processes k') = length (processes k)" "csrs k' h sscratch = csrs k h sscratch"
    "p < length (processes k) \<Longrightarrow> proc_page_table (processes k' ! p) = proc_page_table (processes k ! p)"
    "g \<noteq> h \<Longrightarrow> csrs k' g = csrs k g"
    "g \<noteq> h \<Longrightarrow> g < length (hart_scratches k) \<Longrightarrow> current_process (my_hart_scratch g k') = current_process (my_hart_scratch g k)"
    "g \<noteq> h \<Longrightarrow> g < length (hart_scratches k) \<Longrightarrow> lock_depth (my_hart_scratch g k') = lock_depth (my_hart_scratch g k)"
    "vm k' = vm k"
proof -
  show len: "length (processes k') = length (processes k)"
    using assms map_eq_imp_length_eq unfolding others_keep_def by blast
  show "proc_page_table (processes k' ! p) = proc_page_table (processes k ! p)" if "p < length (processes k)"
    using assms that len nth_map [of p _ proc_page_table] unfolding others_keep_def by metis
qed (use assms in \<open>auto simp: others_keep_def strip_hart_def\<close>)

text \<open>It is enough that the scratches of the others are untouched.\<close>

lemma others_keepI:
  assumes "vm k' = vm k" "kernel_table k' = kernel_table k" "hart_scratches k' = (hart_scratches k)[h := hs]"
    "map proc_page_table (processes k') = map proc_page_table (processes k)"
    "csrs k' h sscratch = csrs k h sscratch" "\<And>g. g \<noteq> h \<Longrightarrow> csrs k' g = csrs k g"
  shows "others_keep h k k'"
  using assms by (simp add: others_keep_def my_hart_scratch_def)

section \<open>The operations of a handler\<close>

lemma others_keep_output: "output_frame k k' \<Longrightarrow> others_keep h k k'"
proof -
  assume f: "output_frame k k'"
  have "map proc_page_table ps = map (\<lambda>(i, s, f, t). t) (map strip_process ps)" for ps
    by (simp add: strip_process_def)
  then have "map proc_page_table (processes k') = map proc_page_table (processes k)"
    using f unfolding output_frame_def by metis
  then show ?thesis
    using f output_frame_length(1) [OF f] output_frame_hart [OF f] by (simp add: others_keep_def output_frame_def)
qed

lemma others_keep_entered: "others_keep h k (entered l h k)"
  unfolding entered_def Let_def
  by (rule others_keepI [where hs = "(my_hart_scratch h k)\<lparr>interrupts_before_locking := (if lock_depth (my_hart_scratch h k) = 0
      then traps_enabled h k else interrupts_before_locking (my_hart_scratch h k)),
      lock_depth := lock_depth (my_hart_scratch h k) + 1\<rparr>"]) simp_all

lemma others_keep_csr: "c \<noteq> sscratch \<Longrightarrow> others_keep h k (snd (csr_write c v h k))"
  by (rule others_keepI [where hs = "my_hart_scratch h k"]) (simp_all add: csr_write_def my_hart_scratch_def)

lemma others_keep_device: "others_keep h k (k\<lparr>mmio := m, uart1_buffer := b, sbi := t\<rparr>)"
  by (rule others_keepI [where hs = "my_hart_scratch h k"]) (simp_all add: my_hart_scratch_def)

lemma others_keep_set_scratch_reg: "others_keep h k (set_scratch_reg h r v k)"
  unfolding set_scratch_reg_def Let_def
  by (rule others_keepI [where hs = "(my_hart_scratch h k)\<lparr>hart_frame := set_reg r v (hart_frame (my_hart_scratch h k))\<rparr>"])
    (simp_all add: set_scratch_def)

lemma others_keep_destroyed: "others_keep h k (destroyed p ib h k)"
  by (rule others_keepI [where hs = "(my_hart_scratch h k)\<lparr>interrupts_before_locking := ib, current_process := None\<rparr>"])
    (simp_all add: destroyed_def map_list_update_same)

lemma others_keep_trapped: "others_keep h k (trapped h c k)"
  by (rule others_keepI [where hs = "(my_hart_scratch h k)\<lparr>hart_frame := trap_frame h c k\<rparr>"])
    (simp_all add: trapped_def set_scratch_def)

section \<open>The switch\<close>

lemma others_keep_before_choice: "others_keep h k (before_choice h k)"
proof (cases "current_process (my_hart_scratch h k)")
  case (Some p)
  then show ?thesis
    by (intro others_keepI [where hs = "(my_hart_scratch h k)\<lparr>current_process := None\<rparr>"])
      (simp_all add: before_choice_def switched_off_def set_scratch_def set_process_def map_list_update_same)
qed (simp add: before_choice_def)

lemma others_keep_chosen: "others_keep h k (chosen_state p ib h k)"
  by (rule others_keepI [where hs = "(my_hart_scratch h k)\<lparr>interrupts_before_locking := ib, current_process := Some p\<rparr>"])
    (simp_all add: chosen_state_def map_list_update_same)

lemma set_timer_others: "g \<noteq> h \<Longrightarrow> csrs (set_timer board d h k) g = csrs k g"
  by (simp add: set_timer_def write_time_def csr_write_fields)

lemma others_keep_switched_on: "others_keep h k (switched_on sy board first p h k)"
  by (rule others_keepI [where hs = "(my_hart_scratch h k)\<lparr>hart_frame := loaded_frame sy first k (processes k ! p)\<rparr>"])
    (simp_all add: switched_on_def Let_def set_timer_fields set_timer_others set_scratch_def set_process_def resume_csrs_fields
      map_list_update_same my_hart_scratch_def)

lemma others_keep_switch:
  assumes "sched_ok h k" and "kernel_switch sy board h k = Inr k'"
  shows "others_keep h k k'"
proof -
  obtain p first where "k' = switched_on sy board first p h (chosen_state p (lock_flag h (before_choice h k)) h (before_choice h k))"
    using kernel_switch_cases [OF assms(1), of sy board] assms(2) by auto
  then show ?thesis
    using others_keep_trans [OF others_keep_before_choice others_keep_trans [OF others_keep_chosen others_keep_switched_on]] by simp
qed

end
