(* ===== verification/Trap_Spec.thy ===== *)
theory Trap_Spec
  imports Hart_Frame
begin

text \<open>
  What a trap does to the kernel: which traps kill a process, which stop the machine, and that every other
  one ends in a switch with all locks free and the interrupts as they were; and the case in which the
  handler waits with a lock that every other handler needs.
\<close>

section \<open>A hart that enters the handler\<close>

definition buffers_ok :: "kernel \<Rightarrow> bool" where
  "buffers_ok k \<longleftrightarrow> (\<forall>hs\<in>set (hart_scratches k). Buffer_ok (hart_buffer hs)) \<and>
     (\<forall>proc\<in>set (processes k). proc_state proc \<noteq> PROCESS_UNUSED \<longrightarrow> Buffer_ok (proc_buffer proc))"

text \<open>What that says of a process; the slot of an unused process need not hold a buffer.\<close>

definition buffer_state :: "Process \<Rightarrow> Buffer \<times> bool" where
  "buffer_state proc = (proc_buffer proc, proc_state proc = PROCESS_UNUSED)"

lemma buffers_ok_alt: "buffers_ok k \<longleftrightarrow> (\<forall>b\<in>set (map hart_buffer (hart_scratches k)). Buffer_ok b) \<and>
    (\<forall>(b, unused)\<in>set (map buffer_state (processes k)). \<not> unused \<longrightarrow> Buffer_ok b)"
  by (auto simp: buffers_ok_def buffer_state_def)

lemma buffers_ok_cong:
  "map hart_buffer (hart_scratches k') = map hart_buffer (hart_scratches k) \<Longrightarrow>
   map buffer_state (processes k') = map buffer_state (processes k) \<Longrightarrow> buffers_ok k' = buffers_ok k"
  by (simp only: buffers_ok_alt)

definition trap_ready :: "nat \<Rightarrow> kernel \<Rightarrow> bool" where
  "trap_ready h k \<longleftrightarrow> sched_ok h k \<and> lock_depth (my_hart_scratch h k) = 0 \<and> \<not> traps_enabled h k \<and>
     locked (locks k trap_print_lock) = 0 \<and> locked (locks k io_spinlock) = 0 \<and> buffers_ok k"

text \<open>The state inside the critical section of the handler.\<close>

definition in_handler :: "nat \<Rightarrow> kernel \<Rightarrow> bool" where
  "in_handler h k \<longleftrightarrow> sched_ok h k \<and> lock_depth (my_hart_scratch h k) = 1 \<and> \<not> traps_enabled h k \<and>
     \<not> interrupts_before_locking (my_hart_scratch h k) \<and> locked (locks k trap_print_lock) = 1 \<and>
     locked (locks k io_spinlock) = 0 \<and> buffers_ok k"

text \<open>
  What serving a trap does to the process \<open>p\<close> that runs on the hart: it goes on with the registers \<open>r\<close>, in
  the frame of the hart's scratch, or it is gone; nothing of any other process or hart is changed.
\<close>

definition trap_served :: "nat \<Rightarrow> nat \<Rightarrow> (reg \<Rightarrow> u64) option \<Rightarrow> kernel \<Rightarrow> kernel \<Rightarrow> bool" where
  "trap_served h p r k k' \<longleftrightarrow> in_handler h k' \<and> others_keep h k k' \<and>
     (case r of
        Some regs \<Rightarrow> current_process (my_hart_scratch h k') = Some p \<and>
          hart_frame (my_hart_scratch h k') = (hart_frame (my_hart_scratch h k))\<lparr>frame_regs := regs\<rparr> \<and>
          map strip_process (processes k') = map strip_process (processes k)
      | None \<Rightarrow> current_process (my_hart_scratch h k') = None \<and>
          map strip_process (processes k') = (map strip_process (processes k))
            [p := strip_process ((processes k ! p)\<lparr>proc_id := - 1, proc_state := PROCESS_UNUSED\<rparr>)])"

lemma entered_off:
  assumes "\<not> traps_enabled h k"
  shows "csrs (entered l h k) = csrs k"
proof -
  have "csrs k h sstatus AND NOT (BIT_TO_INT SSTATUS_TRAPS_NOW) = csrs k h sstatus"
    using assms clear_set_traps(3) by (simp add: traps_enabled_def)
  then show ?thesis by (simp add: entered_def Let_def fun_upd_idem)
qed

lemma entered_scratch:
  "h < length (hart_scratches k) \<Longrightarrow> my_hart_scratch h (entered l h k) = (my_hart_scratch h k)
     \<lparr>interrupts_before_locking := lock_flag h k, lock_depth := lock_depth (my_hart_scratch h k) + 1\<rparr>"
  by (simp add: entered_def Let_def my_hart_scratch_def lock_flag_def)

lemma sched_of_entered: "sched_of (entered l h k) = sched_of k"
  by (rule sched_of_cong) (simp_all add: entered_def Let_def map_list_update_same my_hart_scratch_def)

lemma trap_ready_entered:
  assumes "trap_ready h k"
  shows "SpinLock_acquire trap_print_lock h k = Inr (False, entered trap_print_lock h k)"
    "in_handler h (entered trap_print_lock h k)" "csrs (entered trap_print_lock h k) = csrs k"
    "sched_of (entered trap_print_lock h k) = sched_of k"
    "my_hart_scratch h (entered trap_print_lock h k) = (my_hart_scratch h k)\<lparr>interrupts_before_locking := False, lock_depth := 1\<rparr>"
    "processes (entered trap_print_lock h k) = processes k" "kernel_table (entered trap_print_lock h k) = kernel_table k"
    "sbi (entered trap_print_lock h k) = sbi k"
proof -
  note r = assms [unfolded trap_ready_def]
  have h: "h < length (hart_scratches k)" using r by (simp add: sched_ok_def hart_ok_def)
  let ?k1 = "entered trap_print_lock h k"
  show "SpinLock_acquire trap_print_lock h k = Inr (False, ?k1)" using r by (simp add: SpinLock_acquire_eq)
  show c: "csrs ?k1 = csrs k" using r by (simp add: entered_off)
  show s: "sched_of ?k1 = sched_of k" by (rule sched_of_entered)
  show m: "my_hart_scratch h ?k1 = (my_hart_scratch h k)\<lparr>interrupts_before_locking := False, lock_depth := 1\<rparr>"
    using r by (simp add: entered_scratch [OF h] lock_flag_def)
  show p: "processes ?k1 = processes k" "kernel_table ?k1 = kernel_table k" "sbi ?k1 = sbi k"
    by (simp_all add: entered_def Let_def)
  have "length (hart_scratches ?k1) = length (hart_scratches k)" by (simp add: entered_def Let_def)
  then have "hart_ok h ?k1" using r h by (simp add: hart_ok_def m traps_enabled_def c)
  moreover have "locks ?k1 = (locks k)(trap_print_lock := \<lparr>locked = 1, hart_owner = of_nat h\<rparr>)"
    by (simp add: entered_def Let_def)
  moreover have "buffers_ok ?k1"
  proof -
    have "hart_scratches ?k1 = (hart_scratches k)[h := my_hart_scratch h ?k1]"
      using h by (simp add: my_hart_scratch_def entered_def Let_def)
    moreover have "Buffer_ok (hart_buffer (my_hart_scratch h k))" using r h by (auto simp: buffers_ok_def my_hart_scratch_def)
    ultimately show ?thesis
      using r by (auto simp: buffers_ok_def p m dest!: set_update_subset_insert [THEN subsetD])
  qed
  ultimately show "in_handler h ?k1"
    using r by (simp add: in_handler_def sched_ok_def processes_ok_def s p m traps_enabled_def c)
qed

section \<open>From the switch to the end\<close>

text \<open>What a switch leaves alone.\<close>

lemma kernel_switch_keeps:
  assumes ok: "sched_ok h k" and run: "kernel_switch sy board h k = Inr k'"
  shows "lock_depth (my_hart_scratch h k') = lock_depth (my_hart_scratch h k)"
    "lock_depth (my_hart_scratch h k) \<noteq> 0 \<Longrightarrow>
      interrupts_before_locking (my_hart_scratch h k') = interrupts_before_locking (my_hart_scratch h k)"
    "locks k' = (locks k)(processes_lock := \<lparr>locked = 0, hart_owner = -1\<rparr>)" "traps_enabled h k' = traps_enabled h k"
    "buffers_ok k \<Longrightarrow> buffers_ok k'" "csrs k' h sscratch = csrs k h sscratch" "vm k' = vm k"
    "kernel_table k' = kernel_table k" "sched_ok h k'"
proof -
  let ?k1 = "before_choice h k"
  note b = before_choice_ok [OF ok]
  obtain p first where p: "p < 32" "runnable (processes ?k1 ! p)"
      "k' = switched_on sy board first p h (chosen_state p (lock_flag h ?k1) h ?k1)"
    using kernel_switch_cases [OF ok, of sy board] run by auto
  let ?k2 = "chosen_state p (lock_flag h ?k1) h ?k1"
  have h: "h < length (hart_scratches k)" "length (processes k) = 32"
    using ok by (simp_all add: sched_ok_def hart_ok_def processes_ok_def maximum_32)
  have h1: "h < length (hart_scratches ?k1)" "length (processes ?k1) = 32"
    using b(1) by (simp_all add: sched_ok_def hart_ok_def processes_ok_def maximum_32)
  have h2: "h < length (hart_scratches ?k2)" "p < length (processes ?k2)" using h1 p by (simp_all add: chosen_state_def)
  note f = switched_on_fields [OF h2, where sy = sy and board = board and first = first]
  have k1: "lock_depth (my_hart_scratch h ?k1) = lock_depth (my_hart_scratch h k)"
      "interrupts_before_locking (my_hart_scratch h ?k1) = interrupts_before_locking (my_hart_scratch h k)"
      "locks ?k1 = locks k" "vm ?k1 = vm k" "kernel_table ?k1 = kernel_table k"
    using h by (auto simp: before_choice_def switched_off_def set_scratch_def set_process_def my_hart_scratch_def split: option.split)
  have k2: "my_hart_scratch h ?k2 = (my_hart_scratch h ?k1)\<lparr>interrupts_before_locking := lock_flag h ?k1, current_process := Some p\<rparr>"
    using h1 by (simp add: chosen_state_def my_hart_scratch_def)
  show "lock_depth (my_hart_scratch h k') = lock_depth (my_hart_scratch h k)"
    "lock_depth (my_hart_scratch h k) \<noteq> 0 \<Longrightarrow>
      interrupts_before_locking (my_hart_scratch h k') = interrupts_before_locking (my_hart_scratch h k)"
    "locks k' = (locks k)(processes_lock := \<lparr>locked = 0, hart_owner = -1\<rparr>)" "vm k' = vm k" "kernel_table k' = kernel_table k"
    using k1 unfolding p(3) f(1,4,5,6) k2 by (simp_all add: lock_flag_def chosen_state_def)
  have "csrs ?k2 = csrs k" by (simp add: chosen_state_def b(4))
  then show "traps_enabled h k' = traps_enabled h k"
    unfolding p(3) traps_enabled_def f(9) resume_sstatus_bits by simp
  show "csrs k' h sscratch = csrs k h sscratch"
    unfolding p(3) switched_on_def Let_def
    by (simp add: set_timer_fields set_scratch_def set_process_def resume_csrs_fields) (simp add: chosen_state_def b(4))
  show "sched_ok h k'" unfolding p(3)
    by (rule switched_on_ok [OF chosen_state_ok(1) [OF b(1,2) p(1,2)] p(1)])
  have bufs: "map hart_buffer (hart_scratches k') = map hart_buffer (hart_scratches k)"
      "map buffer_state (processes k') = map buffer_state (processes k)"
  proof -
    have "map hart_buffer (hart_scratches ?k1) = map hart_buffer (hart_scratches k)"
        "map buffer_state (processes ?k1) = map buffer_state (processes k)"
      using sched_ok_current(2) [OF ok]
      by (auto simp: before_choice_def switched_off_def set_scratch_def set_process_def my_hart_scratch_def
          map_list_update_same buffer_state_def split: option.split)
    moreover have "map hart_buffer (hart_scratches ?k2) = map hart_buffer (hart_scratches ?k1)"
        "map buffer_state (processes ?k2) = map buffer_state (processes ?k1)"
      using p(2) by (auto simp: chosen_state_def my_hart_scratch_def map_list_update_same buffer_state_def runnable_def)
    moreover have "map hart_buffer (hart_scratches k') = map hart_buffer (hart_scratches ?k2)"
        "map buffer_state (processes k') = map buffer_state (processes ?k2)"
      unfolding p(3) switched_on_def Let_def
      by (simp_all add: set_timer_fields set_scratch_def set_process_def resume_csrs_fields my_hart_scratch_def map_list_update_same
          buffer_state_def)
    ultimately show "map hart_buffer (hart_scratches k') = map hart_buffer (hart_scratches k)"
      "map buffer_state (processes k') = map buffer_state (processes k)" by simp_all
  qed
  show "buffers_ok k'" if "buffers_ok k"
    using that buffers_ok_cong [OF bufs] by simp
qed

section \<open>Printing in the handler\<close>

definition live_buffer :: "BufferRef \<Rightarrow> kernel \<Rightarrow> bool" where
  "live_buffer ref k \<longleftrightarrow>
     (case ref of HartBuffer i \<Rightarrow> True | ProcessBuffer p \<Rightarrow> proc_state (processes k ! p) \<noteq> PROCESS_UNUSED)"

lemma buffers_ok_iff: "buffers_ok k \<longleftrightarrow> (\<forall>ref b. live_buffer ref k \<longrightarrow> get_buffer ref k = Inr b \<longrightarrow> Buffer_ok b)"
proof
  assume ok: "buffers_ok k"
  show "\<forall>ref b. live_buffer ref k \<longrightarrow> get_buffer ref k = Inr b \<longrightarrow> Buffer_ok b"
  proof (intro allI impI)
    fix ref b assume "live_buffer ref k" "get_buffer ref k = Inr b"
    then show "Buffer_ok b" using ok
      by (cases ref) (auto simp: get_buffer_def buffers_ok_def deref_def live_buffer_def split: if_splits)
  qed
next
  assume all: "\<forall>ref b. live_buffer ref k \<longrightarrow> get_buffer ref k = Inr b \<longrightarrow> Buffer_ok b"
  have "Buffer_ok (hart_buffer (hart_scratches k ! i))" if "i < length (hart_scratches k)" for i
    using all [rule_format, of "HartBuffer i"] that by (simp add: get_buffer_def live_buffer_def)
  moreover have "Buffer_ok (proc_buffer (processes k ! i))"
    if "i < length (processes k)" "proc_state (processes k ! i) \<noteq> PROCESS_UNUSED" for i
    using all [rule_format, of "ProcessBuffer i"] that by (simp add: get_buffer_def live_buffer_def)
  ultimately show "buffers_ok k" by (auto simp: buffers_ok_def in_set_conv_nth)
qed

lemma live_buffer_frame:
  assumes "output_frame k k'" and "get_buffer ref k' = Inr b"
  shows "live_buffer ref k' = live_buffer ref k"
proof (cases ref)
  case (ProcessBuffer p)
  then have "p < length (processes k')" using assms(2) by (auto simp: get_buffer_def deref_def split: if_splits)
  then have "strip_process (processes k' ! p) = strip_process (processes k ! p)"
    using output_frame_process [OF assms(1), of p] output_frame_length(2) [OF assms(1)] by simp
  then show ?thesis using ProcessBuffer by (simp add: live_buffer_def strip_process_def)
qed (simp add: live_buffer_def)

lemma putchar_buffers:
  assumes "hart_ok h k" and "locked (locks k io_spinlock) = 0" and "buffers_ok k"
    and ref: "ref = (case buffer of None \<Rightarrow> selected h k | Some r \<Rightarrow> r)"
    and b: "get_buffer ref k = Inr b" and live: "live_buffer ref k"
  shows "\<exists>b' k'. putchar_buffer ch buffer h k = Inr (ch, k') \<and> output_frame k k' \<and> locked (locks k' io_spinlock) = 0 \<and>
     buffers_ok k' \<and> get_buffer ref k' = Inr b' \<and> (\<forall>r. r \<noteq> ref \<longrightarrow> get_buffer r k' = get_buffer r k) \<and>
     interrupts_before_locking (my_hart_scratch h k') = lock_flag h k \<and>
     console (sbi k') @ pending b' = console (sbi k) @ pending b @ [ucast ch] \<and> (ucast ch = (10 :: byte) \<longrightarrow> pending b' = [])"
proof -
  have "Buffer_ok b" using assms(3) b live by (simp add: buffers_ok_iff)
  then obtain b' k' where *: "putchar_buffer ch buffer h k = Inr (ch, k')" "output_frame k k'"
     "locked (locks k' io_spinlock) = 0" "get_buffer ref k' = Inr b'" "Buffer_ok b'"
     "\<forall>r. r \<noteq> ref \<longrightarrow> get_buffer r k' = get_buffer r k" "interrupts_before_locking (my_hart_scratch h k') = lock_flag h k"
     "console (sbi k') @ pending b' = console (sbi k) @ pending b @ [ucast ch]" "ucast ch = (10 :: byte) \<longrightarrow> pending b' = []"
    using putchar_buffer_ok [OF assms(1,2) ref b, of ch] by auto
  have "buffers_ok k'"
    unfolding buffers_ok_iff
  proof (intro allI impI)
    fix r c assume "live_buffer r k'" "get_buffer r k' = Inr c"
    then show "Buffer_ok c" using *(4,5,6) assms(3) live_buffer_frame [OF *(2)]
      by (cases "r = ref") (auto simp: buffers_ok_iff)
  qed
  with * show ?thesis by blast
qed

text \<open>The hart's own buffer, since traps are off in the handler.\<close>

definition quiet_io :: "nat \<Rightarrow> kernel \<Rightarrow> bool" where
  "quiet_io h k \<longleftrightarrow> hart_ok h k \<and> \<not> traps_enabled h k \<and>
     \<not> interrupts_before_locking (my_hart_scratch h k) \<and> locked (locks k io_spinlock) = 0 \<and> buffers_ok k"

lemma selected_off: "\<not> traps_enabled h k \<Longrightarrow> selected h k = HartBuffer h"
  by (simp add: selected_def my_hart_or_process_output_buffer_def split: option.split)

lemma fputc_quiet:
  assumes "quiet_io h k"
  shows "\<exists>k'. fputc h ch (Some File_stdout) k = Inr (ch, k') \<and> quiet_io h k' \<and> output_frame k k' \<and>
     kernel_out h k' = kernel_out h k @ [ucast ch]"
proof -
  have q: "hart_ok h k" "\<not> traps_enabled h k" "locked (locks k io_spinlock) = 0" "buffers_ok k"
    using assms by (simp_all add: quiet_io_def)
  have h: "h < length (hart_scratches k)" using q(1) by (simp add: hart_ok_def)
  obtain b where b: "get_buffer (HartBuffer h) k = Inr b" using h by (simp add: get_buffer_def)
  have sel: "HartBuffer h = (case None of None \<Rightarrow> selected h k | Some r \<Rightarrow> r)" by (simp add: selected_off [OF q(2)])
  obtain b' k' where *: "putchar_buffer ch None h k = Inr (ch, k')" "output_frame k k'" "locked (locks k' io_spinlock) = 0"
     "buffers_ok k'" "get_buffer (HartBuffer h) k' = Inr b'" "interrupts_before_locking (my_hart_scratch h k') = lock_flag h k"
     "console (sbi k') @ pending b' = console (sbi k) @ pending b @ [ucast ch]"
    using putchar_buffers [OF q(1,3,4) sel b, of ch] by (auto simp: live_buffer_def)
  have "\<not> traps_enabled h k'" using q(2) *(2) by (simp add: traps_enabled_def output_frame_def)
  moreover have "\<not> lock_flag h k" using assms by (simp add: lock_flag_def quiet_io_def)
  ultimately show ?thesis
    using * b q(2) hart_ok_frame [OF *(2) q(1)]
    by (simp add: quiet_io_def fputc_def File_stdout_def kernel_out_def selected_off)
qed

interpretation handler_stream: output_stream "fputc h" "Some File_stdout"
  "\<lambda>k. quiet_io h k \<and> output_frame k0 k" "kernel_out h" for h k0
proof unfold_locales
  fix w ch
  assume w: "quiet_io h w \<and> output_frame k0 w"
  then obtain k' where "fputc h ch (Some File_stdout) w = Inr (ch, k')" "quiet_io h k'" "output_frame w k'"
      "kernel_out h k' = kernel_out h w @ [ucast ch]"
    using fputc_quiet [of h w ch] by blast
  with w show "\<exists>r w'. fputc h ch (Some File_stdout) w = Inr (r, w') \<and> (quiet_io h w' \<and> output_frame k0 w') \<and>
      kernel_out h w' = kernel_out h w @ [ucast ch]"
    using output_frame_trans by blast
qed

lemma kprintf_quiet:
  assumes "quiet_io h k" and "\<forall>d\<in>set ds. directive_ok d" and "format_text ds args = Some (text, args')"
    and "fmt = format_string ds @ [0]"
  shows "\<exists>k'. kprintf h fmt args k = Inr (of_nat (length text), k') \<and> quiet_io h k' \<and> output_frame k k' \<and>
     kernel_out h k' = kernel_out h k @ map ucast text"
  using handler_stream.printf_format [of h k k ds args "text" args' "[]"] assms by auto

lemma in_handler_quiet: "in_handler h k \<Longrightarrow> quiet_io h k"
  by (simp add: in_handler_def quiet_io_def sched_ok_def)

text \<open>Output keeps what the handler relies on.\<close>

lemma sched_of_frame:
  assumes "output_frame k k'"
  shows "sched_of k' = sched_of k"
proof (rule sched_of_cong)
  have "map current_process hs = map (\<lambda>(f, p, d). p) (map strip_hart hs)" for hs
    by (simp add: strip_hart_def)
  then show "map current_process (hart_scratches k') = map current_process (hart_scratches k)"
    using assms unfolding output_frame_def by metis
  have "map proc_state ps = map (\<lambda>(i, s, f, t). s) (map strip_process ps)" for ps
    by (simp add: strip_process_def)
  then show "map proc_state (processes k') = map proc_state (processes k)"
    using assms unfolding output_frame_def by metis
qed

lemma processes_ok_frame:
  assumes "output_frame k k'" and "processes_ok k"
  shows "processes_ok k'"
  using assms(2) output_frame_length(2) [OF assms(1)] output_frame_process [OF assms(1)]
  by (simp add: processes_ok_def strip_process_def)

lemma sched_ok_frame:
  assumes "output_frame k k'" and "sched_ok h k"
  shows "sched_ok h k'"
  using assms sched_of_frame [OF assms(1)] processes_ok_frame [OF assms(1)] hart_ok_frame [OF assms(1), of h]
  by (simp add: sched_ok_def output_frame_def)

lemma in_handler_frame:
  assumes "in_handler h k" and "output_frame k k'" and "quiet_io h k'"
  shows "in_handler h k'"
proof -
  have h: "h < length (hart_scratches k)" using assms(1) by (simp add: in_handler_def sched_ok_def hart_ok_def)
  show ?thesis
    using assms sched_ok_frame [OF assms(2), of h] output_frame_hart [OF assms(2) h]
    by (simp add: in_handler_def quiet_io_def output_frame_def strip_hart_def)
qed

section \<open>The end of the handler\<close>

lemma handler_end:
  assumes "in_handler h k" and run: "kernel_switch sy board h k = Inr k2"
  shows "\<exists>k3. SpinLock_release trap_print_lock h k2 = Inr k3 \<and> trap_ready h k3 \<and> sched_of k3 = sched_of k2 \<and>
     k3 = k2\<lparr>locks := locks k3, hart_scratches := hart_scratches k3\<rparr> \<and> length (hart_scratches k3) = length (hart_scratches k2) \<and>
     hart_frame (my_hart_scratch h k3) = hart_frame (my_hart_scratch h k2) \<and>
     current_process (my_hart_scratch h k3) = current_process (my_hart_scratch h k2) \<and> others_keep h k k3"
proof -
  have i: "sched_ok h k" "lock_depth (my_hart_scratch h k) = 1" "\<not> traps_enabled h k"
      "\<not> interrupts_before_locking (my_hart_scratch h k)" "locked (locks k io_spinlock) = 0" "buffers_ok k"
    using assms(1) by (simp_all add: in_handler_def)
  note f = kernel_switch_keeps [OF i(1) run]
  have h: "h < length (hart_scratches k2)" using f(9) by (simp add: sched_ok_def hart_ok_def)
  have two: "lock_depth (my_hart_scratch h k2) = 1" "\<not> interrupts_before_locking (my_hart_scratch h k2)"
      "\<not> traps_enabled h k2" "buffers_ok k2" "sched_ok h k2"
    using f i by simp_all
  let ?k3 = "k2\<lparr>locks := (locks k2)(trap_print_lock := \<lparr>locked = 0, hart_owner = -1\<rparr>),
     hart_scratches := (hart_scratches k2)[h := (my_hart_scratch h k2)\<lparr>lock_depth := 0\<rparr>]\<rparr>"
  have rel: "SpinLock_release trap_print_lock h k2 = Inr ?k3"
    using two by (subst SpinLock_release_eq) (simp_all add: Let_def)
  have m: "my_hart_scratch h ?k3 = (my_hart_scratch h k2)\<lparr>lock_depth := 0\<rparr>" using h by (simp add: my_hart_scratch_def)
  have sched: "sched_of ?k3 = sched_of k2"
    by (rule sched_of_cong) (simp_all add: map_list_update_same my_hart_scratch_def)
  have "hart_ok h ?k3" using h two(3) by (simp add: hart_ok_def m traps_enabled_def)
  moreover have "processes_ok ?k3" using two(5) by (simp add: sched_ok_def processes_ok_def)
  moreover have "buffers_ok ?k3"
    using two(4) h by (auto simp: buffers_ok_def my_hart_scratch_def dest!: set_update_subset_insert [THEN subsetD])
  moreover have "locked (locks k2 io_spinlock) = 0" using f(3) i(5) by simp
  ultimately have "trap_ready h ?k3"
    using two(5,3) by (simp add: trap_ready_def sched_ok_def sched m traps_enabled_def)
  moreover have "others_keep h k2 ?k3"
    by (rule others_keepI [where hs = "(my_hart_scratch h k2)\<lparr>lock_depth := 0\<rparr>"]) simp_all
  then have "others_keep h k ?k3" by (rule others_keep_trans [OF others_keep_switch [OF i(1) run]])
  ultimately show ?thesis using rel sched m by (intro exI [of _ ?k3]) simp
qed

lemma handle_trap_end:
  assumes body: "handle_trap_before_switch sy board dev claimed h k d = Inr (k1, d1)" and "in_handler h k1"
  shows "(kernel_switch sy board h k1 = Inl Hangs \<and> handle_trap sy board dev claimed h k d = Inl Hangs) \<or>
    (\<exists>k2 k3. kernel_switch sy board h k1 = Inr k2 \<and> handle_trap sy board dev claimed h k d = Inr (k3, d1) \<and>
       trap_ready h k3 \<and> sched_of k3 = sched_of k2 \<and> k3 = k2\<lparr>locks := locks k3, hart_scratches := hart_scratches k3\<rparr> \<and>
       hart_frame (my_hart_scratch h k3) = hart_frame (my_hart_scratch h k2) \<and>
       current_process (my_hart_scratch h k3) = current_process (my_hart_scratch h k2) \<and> others_keep h k1 k3)"
proof -
  have ok: "sched_ok h k1" using assms(2) by (simp add: in_handler_def)
  from kernel_switch_cases [OF ok, of sy board] consider "kernel_switch sy board h k1 = Inl Hangs"
    | k2 where "kernel_switch sy board h k1 = Inr k2" by blast
  then show ?thesis
  proof cases
    case 1
    then show ?thesis using body by (simp add: handle_trap_def)
  next
    case 2
    then show ?thesis using body handler_end [OF assms(2) 2] by (auto simp: handle_trap_def)
  qed
qed

section \<open>Traps that only switch\<close>

lemma scause_values:
  "SCAUSE_SUPERVISOR_SOFTWARE_INTERRUPT = 0x8000000000000001" "SCAUSE_ECALL_U_MODE = 8"
  "SCAUSE_SUPERVISOR_TIMER_INTERRUPT = 0x8000000000000005" "SCAUSE_SUPERVISOR_EXTERNAL_INTERRUPT = 0x8000000000000009"
  by (simp_all add: SCAUSE_SUPERVISOR_SOFTWARE_INTERRUPT_def SCAUSE_ECALL_U_MODE_def SCAUSE_SUPERVISOR_TIMER_INTERRUPT_def
      SCAUSE_SUPERVISOR_EXTERNAL_INTERRUPT_def SCAUSE_def POINTER_BITS_def)

definition kernel_mode :: "nat \<Rightarrow> kernel \<Rightarrow> bool" where
  "kernel_mode h k \<longleftrightarrow> bit (csrs k h sstatus) SSTATUS_PRIVILEGE"

text \<open>A timer interrupt, the yield of a kernel process, and the yield of a user process.\<close>

definition yields :: "nat \<Rightarrow> kernel \<Rightarrow> bool" where
  "yields h k \<longleftrightarrow> csrs k h scause = SCAUSE_SUPERVISOR_TIMER_INTERRUPT \<or>
     (kernel_mode h k \<and> csrs k h scause = SCAUSE_SUPERVISOR_SOFTWARE_INTERRUPT) \<or>
     (\<not> kernel_mode h k \<and> csrs k h scause = SCAUSE_ECALL_U_MODE \<and>
      frame_regs (hart_frame (my_hart_scratch h k)) a0 = SYSCALL_YIELD)"

lemma my_pid_current:
  assumes "sched_ok h k" and "current_process (my_hart_scratch h k) = Some p"
  shows "my_pid h k = Inr (of_nat p, k)"
  using assms sched_ok_current [OF assms] by (simp add: my_pid_def sched_ok_def processes_ok_def maximum_32)

definition sip_cleared :: "nat \<Rightarrow> kernel \<Rightarrow> kernel" where
  "sip_cleared h k = snd (csr_write sip 0 h k)"

lemma sip_cleared_fields [simp]:
  "hart_scratches (sip_cleared h k) = hart_scratches k" "processes (sip_cleared h k) = processes k"
  "locks (sip_cleared h k) = locks k" "vm (sip_cleared h k) = vm k" "kernel_table (sip_cleared h k) = kernel_table k"
  "sbi (sip_cleared h k) = sbi k" "c \<noteq> sip \<Longrightarrow> csrs (sip_cleared h k) g c = csrs k g c"
  "my_hart_scratch g (sip_cleared h k) = my_hart_scratch g k" "sched_of (sip_cleared h k) = sched_of k"
  "traps_enabled g (sip_cleared h k) = traps_enabled g k"
  by (simp_all add: sip_cleared_def csr_write_def my_hart_scratch_def traps_enabled_def)

lemma others_keep_sip: "others_keep h k (sip_cleared h (entered l h k))"
  unfolding sip_cleared_def by (rule others_keep_trans [OF others_keep_entered others_keep_csr]) simp

lemma in_handler_sip [simp]: "in_handler h (sip_cleared h k) = in_handler h k"
  by (simp add: in_handler_def sched_ok_def hart_ok_def processes_ok_def buffers_ok_def)

lemma fatal_trap_simps:
  "current_process (my_hart_scratch h k) \<noteq> None \<Longrightarrow> yields h k \<Longrightarrow>
    \<not> fatal_trap (kernel_mode h k) True (csrs k h scause)"
  "\<not> fatal_trap m True SCAUSE_SUPERVISOR_EXTERNAL_INTERRUPT"
  "\<not> fatal_trap False True SCAUSE_ECALL_U_MODE"
  by (auto simp: fatal_trap_def Let_def yields_def scause_values)

lemma BIT_GET_privilege: "BIT_GET (csrs k h sstatus) SSTATUS_PRIVILEGE = kernel_mode h k"
  by (simp add: BIT_GET_bit kernel_mode_def)

lemma before_switch_yields:
  assumes r: "trap_ready h k" and cur: "current_process (my_hart_scratch h k) = Some p" and y: "yields h k"
  shows "handle_trap_before_switch sy board dev claimed h k d = Inr (sip_cleared h (entered trap_print_lock h k), d)"
proof -
  have ok: "sched_ok h k" using r by (simp add: trap_ready_def)
  note e = trap_ready_entered [OF r]
  have nf: "\<not> fatal_trap (kernel_mode h k) True (csrs k h scause)"
    using fatal_trap_simps(1) [OF _ y] cur by simp
  have a0: "handle_syscall h (sip_cleared h (entered trap_print_lock h k)) = Inr (sip_cleared h (entered trap_print_lock h k))"
    if "csrs k h scause = SCAUSE_ECALL_U_MODE"
    using that y by (auto simp: handle_syscall_def Let_def yields_def e(5) scause_values)
  have ext: "csrs k h scause \<noteq> SCAUSE_SUPERVISOR_EXTERNAL_INTERRUPT"
    using y by (auto simp: yields_def scause_values)
  show ?thesis
    using nf a0 ext
    by (simp add: handle_trap_before_switch_def Let_def csr_read_def BIT_GET_privilege cur my_pid_current [OF ok cur] e(1)
        flip: sip_cleared_def)
qed

lemma yields_switch:
  assumes r: "trap_ready h k" and cur: "current_process (my_hart_scratch h k) = Some p" and y: "yields h k"
  shows "\<exists>k2 k3 s. kernel_switch sy board h (sip_cleared h (entered trap_print_lock h k)) = Inr k2 \<and>
     handle_trap sy board dev claimed h k d = Inr (k3, d) \<and> trap_ready h k3 \<and>
     sched_step h (sched_of k) s \<and> sched_step h s (sched_of k3) \<and> owner (sched_of k3) h \<noteq> None \<and>
     k3 = k2\<lparr>locks := locks k3, hart_scratches := hart_scratches k3\<rparr> \<and>
     hart_frame (my_hart_scratch h k3) = hart_frame (my_hart_scratch h k2) \<and>
     current_process (my_hart_scratch h k3) = current_process (my_hart_scratch h k2)"
proof -
  note e = trap_ready_entered [OF r]
  let ?k1 = "sip_cleared h (entered trap_print_lock h k)"
  have i: "in_handler h ?k1" using e(2) by simp
  then have ok: "sched_ok h ?k1" by (simp add: in_handler_def)
  have h: "h < length (hart_scratches ?k1)" using ok by (simp add: sched_ok_def hart_ok_def)
  have own: "owner (sched_of ?k1) h \<noteq> None" using owner_current [OF h] by (simp add: e(5) cur)
  then obtain k2 s where k2: "kernel_switch sy board h ?k1 = Inr k2" "sched_step h (sched_of ?k1) s"
      "sched_step h s (sched_of k2)" "owner (sched_of k2) h \<noteq> None"
    using kernel_switch_steps [OF ok, of sy board] by auto
  show ?thesis
    using handle_trap_end [OF before_switch_yields [OF r cur y, of sy board dev claimed d] i] k2 by (auto simp: e(4))
qed

text \<open>
  A timer interrupt or a yield always comes back from the handler: the running process is put back and
  one that can run is dispatched, which is a run of the abstract scheduler, every lock is free again, traps
  are still off, and no call of the handler waits for another hart.
\<close>

theorem preemption_switches:
  assumes "trap_ready h k" and "current_process (my_hart_scratch h k) \<noteq> None" and "yields h k"
  shows "\<exists>k' s. handle_trap sy board dev claimed h k d = Inr (k', d) \<and> trap_ready h k' \<and>
     sched_step h (sched_of k) s \<and> sched_step h s (sched_of k') \<and> owner (sched_of k') h \<noteq> None"
proof -
  obtain p where "current_process (my_hart_scratch h k) = Some p" using assms(2) by auto
  from yields_switch [OF assms(1) this assms(3), of sy board dev claimed d] show ?thesis by blast
qed

text \<open>Hart 0 runs process 3 and has just trapped.\<close>

definition sample_trap :: "u64 \<Rightarrow> u64 \<Rightarrow> kernel" where
  "sample_trap cause status = sample_running\<lparr>csrs := (\<lambda>h c. if c = scause then cause else if c = sstatus then status
     else if c = sscratch then hart_scratch_addr sample_symbols h else 0)\<rparr>"

lemma sample_trap_fields:
  "my_hart_scratch 0 (sample_trap cause status) = sample_hart\<lparr>current_process := Some 3\<rparr>"
  "processes (sample_trap cause status) = sample_table (\<lambda>i. if i = 3 then PROCESS_RUNNING else PROCESS_UNUSED)"
  "hart_scratches (sample_trap cause status) = [sample_hart\<lparr>current_process := Some 3\<rparr>, sample_hart]"
  "csrs (sample_trap cause status) h scause = cause" "csrs (sample_trap cause status) h sstatus = status"
  "csrs (sample_trap cause status) h sscratch = hart_scratch_addr sample_symbols h"
  "kernel_table (sample_trap cause status) = \<lparr>kernel_page_table = 0, kernel_page_satp = 0\<rparr>"
  by (simp_all add: sample_trap_def sample_running_def set_scratch_def my_hart_scratch_def numeral_2_eq_2)

lemma sample_trap_ready:
  assumes "\<not> bit status SSTATUS_TRAPS_NOW"
  shows "trap_ready 0 (sample_trap cause status)"
proof -
  have "sched_ok 0 (sample_trap cause status)"
    using sample_running_ok assms
    by (simp add: sample_trap_def sched_ok_def hart_ok_def processes_ok_def traps_enabled_def)
  moreover have "Buffer_ok (proc_buffer (sample_process i st))" for i st by (simp add: Buffer_ok_def)
  ultimately show ?thesis
    using assms
    by (auto simp: trap_ready_def sample_trap_fields buffers_ok_def traps_enabled_def sample_table_def Buffer_ok_def)
      (simp_all add: sample_trap_def sample_running_def set_scratch_def)
qed

lemma preemption_switches_witness:
  "\<exists>k'. handle_trap sample_symbols board_virt (\<lambda>a d. (0, d)) 0 0 (sample_trap SCAUSE_SUPERVISOR_TIMER_INTERRUPT 0x100) () =
     Inr (k', ()) \<and> trap_ready 0 k'"
proof -
  have off: "\<not> bit (0x100 :: u64) SSTATUS_TRAPS_NOW" by (simp add: SSTATUS_TRAPS_NOW_def bit_numeral_rec)
  show ?thesis
    using preemption_switches [OF sample_trap_ready [OF off], of SCAUSE_SUPERVISOR_TIMER_INTERRUPT sample_symbols board_virt
        "\<lambda>a d. (0, d)" 0 "()"] by (auto simp: sample_trap_fields yields_def)
qed

section \<open>Traps that end a process\<close>

text \<open>
  The exit of a user process, and every trap of one that is no timer or external interrupt and no other
  system call: a software interrupt in user mode is among them.
\<close>

definition ends_process :: "nat \<Rightarrow> kernel \<Rightarrow> bool" where
  "ends_process h k \<longleftrightarrow> \<not> kernel_mode h k \<and>
     (if csrs k h scause = SCAUSE_ECALL_U_MODE then frame_regs (hart_frame (my_hart_scratch h k)) a0 = SYSCALL_EXIT
      else csrs k h scause \<notin> {SCAUSE_SUPERVISOR_TIMER_INTERRUPT, SCAUSE_SUPERVISOR_EXTERNAL_INTERRUPT})"

lemma buffers_ok_destroyed:
  assumes "buffers_ok k"
  shows "buffers_ok (destroyed p ib h k)"
proof -
  have "map hart_buffer (hart_scratches (destroyed p ib h k)) = map hart_buffer (hart_scratches k)"
    by (simp add: destroyed_def my_hart_scratch_def map_list_update_same)
  then show ?thesis
    using assms set_update_subset_insert [of "processes k" p "(processes k ! p)\<lparr>proc_id := - 1, proc_state := PROCESS_UNUSED\<rparr>"]
    by (simp add: buffers_ok_alt) (auto simp: destroyed_def buffer_state_def)
qed

lemma destroyed_in_handler:
  assumes i: "in_handler h k" and cur: "current_process (my_hart_scratch h k) = Some p"
  shows "Process_destroy_current h k = Inr (destroyed p False h k)" "in_handler h (destroyed p False h k)"
    "sched_step h (sched_of k) (sched_of (destroyed p False h k))"
    "my_hart_scratch h (destroyed p False h k) = (my_hart_scratch h k)\<lparr>interrupts_before_locking := False, current_process := None\<rparr>"
proof -
  have ok: "sched_ok h k" and flag: "\<not> lock_flag h k" using i by (simp_all add: in_handler_def lock_flag_def)
  have h: "h < length (hart_scratches k)" using ok by (simp add: sched_ok_def hart_ok_def)
  note p = sched_ok_current [OF ok cur]
  show "Process_destroy_current h k = Inr (destroyed p False h k)"
    using Process_destroy_current_Some [OF ok cur] flag by simp
  note d = destroyed_ok [OF ok cur, of False]
  show "sched_step h (sched_of k) (sched_of (destroyed p False h k))" using d by simp
  show m: "my_hart_scratch h (destroyed p False h k) =
      (my_hart_scratch h k)\<lparr>interrupts_before_locking := False, current_process := None\<rparr>"
    using h by (simp add: destroyed_def my_hart_scratch_def)
  have "buffers_ok (destroyed p False h k)" using i by (simp add: in_handler_def buffers_ok_destroyed)
  then show "in_handler h (destroyed p False h k)"
    using i d by (simp add: in_handler_def m) (simp add: destroyed_def traps_enabled_def)
qed

lemma cstr_text: "0 \<in> set (cstr s)" "length (takeWhile (\<lambda>b. b \<noteq> 0) (cstr s)) \<le> length s + 1"
proof -
  show "0 \<in> set (cstr s)" by (simp add: cstr_def)
  have "length (takeWhile (\<lambda>b. b \<noteq> 0) (cstr s)) \<le> length (cstr s)" by (rule length_takeWhile_le)
  then show "length (takeWhile (\<lambda>b. b \<noteq> 0) (cstr s)) \<le> length s + 1" by (simp add: cstr_def bytes_of_def)
qed

lemma length_decode_scause: "length (decode_scause cause) \<le> 30"
  by (simp add: decode_scause_def)

lemma killing_text:
  "\<exists>ds text. bytes_of ''killing pid %d: %s'' @ [10, 0] = format_string ds @ [0] \<and> (\<forall>d\<in>set ds. directive_ok d) \<and>
     format_text ds [VWord pid, VStr (cstr (decode_scause cause))] = Some (text, [])"
proof -
  let ?ds = "map Lit (bytes_of ''killing pid '') @ [Conv False False False NoWidth 0 ConvSigned] @
     map Lit (bytes_of '': '') @ [Conv False False False NoWidth 0 ConvStr, Lit 10]"
  have "bytes_of ''killing pid %d: %s'' @ [10, 0] = format_string ?ds @ [0]" by (simp add: format_string_def bytes_of_def)
  moreover have "\<forall>d\<in>set ?ds. directive_ok d" by (simp add: bytes_of_def)
  moreover have "length (takeWhile (\<lambda>b. b \<noteq> 0) (cstr (decode_scause cause))) < 2 ^ 31"
      "length (signed_text (sint (ucast pid :: u32))) < 2 ^ 31"
    using cstr_text(2) [of "decode_scause cause"] length_decode_scause [of cause] length_signed_text [of "ucast pid"]
    by simp_all
  then have "\<exists>text. format_text ?ds [VWord pid, VStr (cstr (decode_scause cause))] = Some (text, [])"
    by (simp add: bytes_of_def cstr_text(1))
  ultimately show ?thesis by blast
qed

lemma stripped_destroyed:
  assumes "map strip_process (processes k') = map strip_process (processes k)" and "p < length (processes k')"
  shows "map strip_process (processes (destroyed p ib h k')) = (map strip_process (processes k))
    [p := strip_process ((processes k ! p)\<lparr>proc_id := - 1, proc_state := PROCESS_UNUSED\<rparr>)]"
proof -
  have "length (processes k') = length (processes k)" by (rule map_eq_imp_length_eq [OF assms(1)])
  then have "strip_process (processes k' ! p) = strip_process (processes k ! p)"
    using assms nth_map [of p _ strip_process] by metis
  then show ?thesis using assms(1) by (simp add: destroyed_def map_update strip_process_def)
qed

lemma before_switch_ends:
  assumes r: "trap_ready h k" and cur: "current_process (my_hart_scratch h k) = Some p" and e: "ends_process h k"
  shows "\<exists>k1. handle_trap_before_switch sy board dev claimed h k d = Inr (k1, d) \<and> in_handler h k1 \<and>
     sched_step h (sched_of k) (sched_of k1) \<and> owner (sched_of k1) h = None \<and> pstate (sched_of k1) p = PROCESS_UNUSED \<and>
     trap_served h p None k k1"
proof -
  have ok: "sched_ok h k" using r by (simp add: trap_ready_def)
  note t = trap_ready_entered [OF r]
  let ?k1 = "entered trap_print_lock h k"
  have final: "in_handler h (destroyed p False h k2) \<and> Process_destroy_current h k2 = Inr (destroyed p False h k2) \<and>
      sched_step h (sched_of k) (sched_of (destroyed p False h k2)) \<and> owner (sched_of (destroyed p False h k2)) h = None \<and>
      pstate (sched_of (destroyed p False h k2)) p = PROCESS_UNUSED \<and> trap_served h p None k (destroyed p False h k2)"
    if i: "in_handler h k2" and c: "current_process (my_hart_scratch h k2) = Some p" and s: "sched_of k2 = sched_of k"
      and o: "others_keep h k k2" "map strip_process (processes k2) = map strip_process (processes k)" for k2
  proof -
    note d = destroyed_in_handler [OF i c]
    have ok2: "sched_ok h k2" using i by (simp add: in_handler_def)
    have h: "h < length (hart_scratches k2)" "p < length (processes k2)"
      using ok2 sched_ok_current(1) [OF ok2 c] by (simp_all add: sched_ok_def hart_ok_def processes_ok_def maximum_32)
    have "owner (sched_of (destroyed p False h k2)) h = None" "pstate (sched_of (destroyed p False h k2)) p = PROCESS_UNUSED"
      using h by (simp_all add: sched_of_def destroyed_def)
    moreover have "trap_served h p None k (destroyed p False h k2)"
      using others_keep_trans [OF o(1) others_keep_destroyed] d(2,4) stripped_destroyed [OF o(2) h(2)] by (simp add: trap_served_def)
    ultimately show ?thesis using d s by simp
  qed
  show ?thesis
  proof (cases "csrs k h scause = SCAUSE_ECALL_U_MODE")
    case True
    let ?k2 = "sip_cleared h ?k1"
    have "handle_syscall h ?k2 = Process_destroy_current h ?k2"
      using True e by (simp add: handle_syscall_def Let_def ends_process_def t(5) SYSCALL_EXIT_def SYSCALL_YIELD_def SYSCALL_PUTCHAR_def)
    moreover have "in_handler h ?k2" "current_process (my_hart_scratch h ?k2) = Some p" "sched_of ?k2 = sched_of k"
      "others_keep h k ?k2" "map strip_process (processes ?k2) = map strip_process (processes k)"
      using t cur others_keep_sip by simp_all
    note f = final [OF this]
    moreover have "\<not> fatal_trap (kernel_mode h k) True SCAUSE_ECALL_U_MODE"
      using e fatal_trap_simps(3) by (simp add: ends_process_def)
    moreover have "SCAUSE_ECALL_U_MODE \<noteq> SCAUSE_SUPERVISOR_EXTERNAL_INTERRUPT" by (simp add: scause_values)
    ultimately have "handle_trap_before_switch sy board dev claimed h k d = Inr (destroyed p False h ?k2, d)"
      by (simp add: handle_trap_before_switch_def Let_def csr_read_def BIT_GET_privilege cur my_pid_current [OF ok cur] t(1) True
          flip: sip_cleared_def)
    then show ?thesis using f by blast
  next
    case False
    obtain ds "text" where fmt: "bytes_of ''killing pid %d: %s'' @ [10, 0] = format_string ds @ [0]" "\<forall>d\<in>set ds. directive_ok d"
        "format_text ds [VWord (scast (ucast (of_nat p :: byte) :: u32)), VStr (cstr (decode_scause (csrs k h scause)))] = Some (text, [])"
      using killing_text by blast
    obtain k2 where k2: "kprintf h (bytes_of ''killing pid %d: %s'' @ [10, 0])
          [VWord (scast (ucast (of_nat p :: byte) :: u32)), VStr (cstr (decode_scause (csrs k h scause)))] ?k1 =
        Inr (of_nat (length text), k2)" "quiet_io h k2" "output_frame ?k1 k2"
      using kprintf_quiet [OF in_handler_quiet [OF t(2)] fmt(2,3,1)] by blast
    have "in_handler h k2" by (rule in_handler_frame [OF t(2) k2(3,2)])
    moreover have "h < length (hart_scratches ?k1)" using t(2) by (simp add: in_handler_def sched_ok_def hart_ok_def)
    then have "current_process (my_hart_scratch h k2) = Some p"
      using output_frame_hart [OF k2(3)] cur by (simp add: strip_hart_def t(5))
    moreover have "sched_of k2 = sched_of k" using sched_of_frame [OF k2(3)] by (simp add: t(4))
    moreover have "others_keep h k k2" by (rule others_keep_trans [OF others_keep_entered others_keep_output [OF k2(3)]])
    moreover have "map strip_process (processes k2) = map strip_process (processes k)"
      using k2(3) by (simp add: output_frame_def t(6))
    ultimately have f: "in_handler h (destroyed p False h k2) \<and> Process_destroy_current h k2 = Inr (destroyed p False h k2) \<and>
      sched_step h (sched_of k) (sched_of (destroyed p False h k2)) \<and> owner (sched_of (destroyed p False h k2)) h = None \<and>
      pstate (sched_of (destroyed p False h k2)) p = PROCESS_UNUSED \<and> trap_served h p None k (destroyed p False h k2)" by (rule final)
    have m: "\<not> kernel_mode h k" "fatal_trap False True (csrs k h scause)"
      using e False by (auto simp: ends_process_def fatal_trap_def Let_def scause_values)
    have "handle_trap_before_switch sy board dev claimed h k d = Inr (destroyed p False h k2, d)"
      using m k2(1) f
      by (simp add: handle_trap_before_switch_def Let_def csr_read_def BIT_GET_privilege cur my_pid_current [OF ok cur] t(1))
    then show ?thesis using f by blast
  qed
qed

text \<open>
  The exit and every fault of a user process end that process and only it: the slot is freed, and the
  hart goes on with a process that can run, with all locks free, unless there is none.
\<close>

theorem fault_ends_process:
  assumes "trap_ready h k" and "current_process (my_hart_scratch h k) = Some p" and "ends_process h k"
  shows "\<exists>s. sched_step h (sched_of k) s \<and> owner s h = None \<and> pstate s p = PROCESS_UNUSED \<and>
     ((handle_trap sy board dev claimed h k d = Inl Hangs \<and>
        (\<forall>q<PROCESSES_MAXIMUM. pstate s q \<noteq> PROCESS_RUNNABLE \<and> pstate s q \<noteq> PROCESS_READY)) \<or>
      (\<exists>k'. handle_trap sy board dev claimed h k d = Inr (k', d) \<and> trap_ready h k' \<and>
        sched_step h s (sched_of k') \<and> owner (sched_of k') h \<noteq> None))"
proof -
  obtain k1 where b: "handle_trap_before_switch sy board dev claimed h k d = Inr (k1, d)" "in_handler h k1"
      "sched_step h (sched_of k) (sched_of k1)" "owner (sched_of k1) h = None" "pstate (sched_of k1) p = PROCESS_UNUSED"
    using before_switch_ends [OF assms, of sy board dev claimed d] by blast
  have ok: "sched_ok h k1" using b(2) by (simp add: in_handler_def)
  have step: "sched_step h (sched_of k1) (sched_of k2)" "owner (sched_of k2) h \<noteq> None"
    if run: "kernel_switch sy board h k1 = Inr k2" for k2
  proof -
    have "before_choice h k1 = k1"
      using b(4) owner_current [of h k1] ok by (simp add: before_choice_def sched_ok_def hart_ok_def)
    then obtain q where q: "q < 32" "runnable (processes k1 ! q)"
        "k2 = switched_on sy board (proc_state (processes k1 ! q) = PROCESS_READY) q h (chosen_state q (lock_flag h k1) h k1)"
      using kernel_switch_cases [OF ok, of sy board] run by auto
    have none: "current_process (my_hart_scratch h k1) = None"
      using b(4) owner_current [of h k1] ok by (simp add: sched_ok_def hart_ok_def)
    have len: "h < length (hart_scratches (chosen_state q (lock_flag h k1) h k1))"
        "q < length (processes (chosen_state q (lock_flag h k1) h k1))"
      using ok q(1) by (simp_all add: chosen_state_def sched_ok_def hart_ok_def processes_ok_def maximum_32)
    show "sched_step h (sched_of k1) (sched_of k2)" "owner (sched_of k2) h \<noteq> None"
      using chosen_state_ok(2,3) [OF ok none q(1,2), of "lock_flag h k1"] switched_on_fields(11) [OF len]
      by (simp_all add: q(3))
  qed
  from kernel_switch_cases [OF ok, of sy board]
  show ?thesis
  proof (elim disjE exE conjE)
    assume none: "\<forall>p<32. \<not> runnable (processes (before_choice h k1) ! p)" and hang: "kernel_switch sy board h k1 = Inl Hangs"
    have "before_choice h k1 = k1"
      using b(4) owner_current [of h k1] ok by (simp add: before_choice_def sched_ok_def hart_ok_def)
    then have "\<forall>q<PROCESSES_MAXIMUM. pstate (sched_of k1) q \<noteq> PROCESS_RUNNABLE \<and> pstate (sched_of k1) q \<noteq> PROCESS_READY"
      using none by (auto simp: maximum_32 sched_of_def runnable_def)
    then show ?thesis using b hang by (intro exI [of _ "sched_of k1"]) (simp add: handle_trap_def)
  next
    fix q assume "kernel_switch sy board h k1 = Inr (switched_on sy board
         (proc_state (processes (before_choice h k1) ! q) = PROCESS_READY) q h
           (chosen_state q (lock_flag h (before_choice h k1)) h (before_choice h k1)))"
    then obtain k2 where k2: "kernel_switch sy board h k1 = Inr k2" by blast
    then show ?thesis
      using handle_trap_end [OF b(1,2)] step [OF k2] b(3-5) by (intro exI [of _ "sched_of k1"]) auto
  qed
qed

lemma privilege_off: "\<not> bit (0 :: u64) SSTATUS_TRAPS_NOW" by simp

lemma fault_ends_process_witness:
  "\<exists>s. sched_step 0 (sched_of (sample_trap (SCAUSE 0 13) 0)) s \<and> owner s 0 = None \<and> pstate s 3 = PROCESS_UNUSED"
proof -
  have e: "ends_process 0 (sample_trap (SCAUSE 0 13) 0)"
    by (simp add: ends_process_def sample_trap_fields kernel_mode_def SCAUSE_def scause_values)
  have "current_process (my_hart_scratch 0 (sample_trap (SCAUSE 0 13) 0)) = Some 3" by (simp add: sample_trap_fields)
  from fault_ends_process [OF sample_trap_ready [OF privilege_off] this e, of sample_symbols board_virt "\<lambda>a d. (0, d)" 0 "()"]
  show ?thesis by blast
qed

section \<open>A handler that waits for ever\<close>

text \<open>
  C31: when a process ends and no other can run, its hart waits inside the handler with the lock that
  every handler takes first: from then on a trap of any other hart waits too, also a timer interrupt of the
  hart that runs the last process, so no process is ever put back and the wait never ends.
\<close>

theorem trap_lock_deadlock:
  assumes "trap_ready h k" and "current_process (my_hart_scratch h k) = Some p" and "ends_process h k"
    and "\<forall>q<PROCESSES_MAXIMUM. \<not> runnable (processes k ! q)"
  shows "\<exists>k1. handle_trap_before_switch sy board dev claimed h k d = Inr (k1, d) \<and>
     kernel_switch sy board h k1 = Inl Hangs \<and> handle_trap sy board dev claimed h k d = Inl Hangs \<and>
     (\<forall>h' k2 d'. locks k2 = locks k1 \<and> sched_ok h' k2 \<longrightarrow> handle_trap sy board dev claimed h' k2 d' = Inl Hangs)"
proof -
  obtain k1 where b: "handle_trap_before_switch sy board dev claimed h k d = Inr (k1, d)" "in_handler h k1"
      "sched_step h (sched_of k) (sched_of k1)" "owner (sched_of k1) h = None" "pstate (sched_of k1) p = PROCESS_UNUSED"
    using before_switch_ends [OF assms(1-3), of sy board dev claimed d] by blast
  have ok: "sched_ok h k" "sched_ok h k1" using assms(1) b(2) by (simp_all add: trap_ready_def in_handler_def)
  have len: "length (processes k) = 32" "length (processes k1) = 32" "h < length (hart_scratches k)" "h < length (hart_scratches k1)"
    using ok by (simp_all add: sched_ok_def processes_ok_def hart_ok_def maximum_32)
  have no: "pstate (sched_of k) q \<noteq> PROCESS_RUNNABLE" "pstate (sched_of k) q \<noteq> PROCESS_READY" for q
    using assms(4) len by (auto simp: sched_of_def runnable_def maximum_32)
  have own: "owner (sched_of k) h = Some p" using owner_current [OF len(3)] assms(2) by simp
  have "pstate (sched_of k1) q \<noteq> PROCESS_RUNNABLE \<and> pstate (sched_of k1) q \<noteq> PROCESS_READY" for q
    using b(3)
  proof cases
    case (put_back p')
    then have "p' = p" using own by simp
    then show ?thesis using b(5) unfolding put_back by simp
  next
    case (dispatch p')
    then show ?thesis using own by simp
  next
    case (create p')
    then show ?thesis using b(4) own by simp
  next
    case (destroy p')
    then show ?thesis using no [of q] by simp
  qed
  then have none: "\<forall>q<32. \<not> runnable (processes k1 ! q)"
    using len(2) unfolding sched_of_def runnable_def by (metis (mono_tags, lifting) sched.select_convs(2))
  have cur: "current_process (my_hart_scratch h k1) = None" using owner_current [OF len(4)] b(4) by simp
  then have "before_choice h k1 = k1" by (simp add: before_choice_def)
  then have hang: "kernel_switch sy board h k1 = Inl Hangs"
    using kernel_switch_cases [OF ok(2), of sy board] none by auto
  have "handle_trap sy board dev claimed h' k2 d' = Inl Hangs" if k2: "locks k2 = locks k1" "sched_ok h' k2" for h' k2 d'
  proof -
    have "locked (locks k2 trap_print_lock) = 1" using k2(1) b(2) by (simp add: in_handler_def)
    moreover have "\<exists>pid. (if current_process (my_hart_scratch h' k2) \<noteq> None
        then bindr (my_pid h' k2) (\<lambda>(pid, k1). Inr (ucast pid :: u32, k1)) else Inr (- 1, k2)) = Inr (pid, k2)"
      using my_pid_current [OF k2(2)] by auto
    ultimately show ?thesis
      by (auto simp: handle_trap_def handle_trap_before_switch_def Let_def SpinLock_acquire_eq)
  qed
  then show ?thesis using b(1) hang by (auto simp: handle_trap_def)
qed

lemma trap_lock_deadlock_witness:
  "handle_trap sample_symbols board_virt (\<lambda>a d. (0, d)) 0 0 (sample_trap (SCAUSE 0 13) 0) () = Inl Hangs"
proof -
  have e: "ends_process 0 (sample_trap (SCAUSE 0 13) 0)"
    by (simp add: ends_process_def sample_trap_fields kernel_mode_def SCAUSE_def scause_values)
  have c: "current_process (my_hart_scratch 0 (sample_trap (SCAUSE 0 13) 0)) = Some 3" by (simp add: sample_trap_fields)
  have "\<forall>q<PROCESSES_MAXIMUM. \<not> runnable (processes (sample_trap (SCAUSE 0 13) 0) ! q)"
    by (simp add: sample_trap_fields maximum_32)
  from trap_lock_deadlock [OF sample_trap_ready [OF privilege_off] c e this, of sample_symbols board_virt "\<lambda>a d. (0, d)" 0 "()"]
  show ?thesis by blast
qed

end
