(* ===== verification/Trap_Cycle.thy ===== *)
theory Trap_Cycle
  imports Trap_Spec
begin

text \<open>
  A trap from the interrupted instruction back to it: what a process sees of a timer interrupt and of the
  system call that puts a character, and how a fault of the kernel ends.
\<close>

section \<open>A whole trap\<close>

text \<open>A hart that runs code, before a trap.\<close>

definition hart_running :: "Symbols \<Rightarrow> nat \<Rightarrow> kernel \<Rightarrow> bool" where
  "hart_running sy h k \<longleftrightarrow> scratch_ok sy h k \<and> sched_ok h k \<and> lock_depth (my_hart_scratch h k) = 0 \<and>
     locked (locks k trap_print_lock) = 0 \<and> locked (locks k io_spinlock) = 0 \<and> buffers_ok k"

lemma take_trap_fields:
  "hart_scratches (snd (take_trap cause tval h c k)) = hart_scratches k" "processes (snd (take_trap cause tval h c k)) = processes k"
  "locks (snd (take_trap cause tval h c k)) = locks k" "kernel_table (snd (take_trap cause tval h c k)) = kernel_table k"
  "csrs (snd (take_trap cause tval h c k)) h scause = cause" "csrs (snd (take_trap cause tval h c k)) h sepc = cpu_pc c"
  "csrs (snd (take_trap cause tval h c k)) h sstatus = sstatus_trap (cpu_supervisor c) (csrs k h sstatus)"
  "cpu_reg (fst (take_trap cause tval h c k)) = cpu_reg c"
  "my_hart_scratch g (snd (take_trap cause tval h c k)) = my_hart_scratch g k"
  by (simp_all add: take_trap_def my_hart_scratch_def)

lemma trapped_fields:
  assumes "h < length (hart_scratches k)"
  shows "my_hart_scratch h (trapped h c k) = (my_hart_scratch h k)\<lparr>hart_frame := trap_frame h c k\<rparr>"
    "processes (trapped h c k) = processes k" "locks (trapped h c k) = locks k" "kernel_table (trapped h c k) = kernel_table k"
    "length (hart_scratches (trapped h c k)) = length (hart_scratches k)" "sched_of (trapped h c k) = sched_of k"
    "r \<noteq> satp \<Longrightarrow> csrs (trapped h c k) h r = csrs k h r" "buffers_ok (trapped h c k) = buffers_ok k"
proof -
  show "my_hart_scratch h (trapped h c k) = (my_hart_scratch h k)\<lparr>hart_frame := trap_frame h c k\<rparr>"
    "processes (trapped h c k) = processes k" "locks (trapped h c k) = locks k" "kernel_table (trapped h c k) = kernel_table k"
    "length (hart_scratches (trapped h c k)) = length (hart_scratches k)" "r \<noteq> satp \<Longrightarrow> csrs (trapped h c k) h r = csrs k h r"
    using assms by (simp_all add: trapped_def set_scratch_def my_hart_scratch_def)
  show "sched_of (trapped h c k) = sched_of k"
    by (rule sched_of_cong) (simp_all add: trapped_def set_scratch_def my_hart_scratch_def map_list_update_same)
  show "buffers_ok (trapped h c k) = buffers_ok k"
    by (rule buffers_ok_cong) (simp_all add: trapped_def set_scratch_def my_hart_scratch_def map_list_update_same)
qed

text \<open>From running code to the start of the handler.\<close>

definition at_handler :: "u64 \<Rightarrow> u64 \<Rightarrow> nat \<Rightarrow> cpu \<Rightarrow> kernel \<Rightarrow> kernel" where
  "at_handler cause tval h c k = trapped h (fst (take_trap cause tval h c k)) (snd (take_trap cause tval h c k))"

lemma at_handler_ok:
  assumes "hart_running sy h k"
  shows "\<exists>c'. exec sy h trap_vector (fst (take_trap cause tval h c k)) (snd (take_trap cause tval h c k)) =
       Inr (c', at_handler cause tval h c k)"
    "trap_ready h (at_handler cause tval h c k)" "csrs (at_handler cause tval h c k) h scause = cause"
    "kernel_mode h (at_handler cause tval h c k) = cpu_supervisor c" "sched_of (at_handler cause tval h c k) = sched_of k"
    "csrs (at_handler cause tval h c k) h sscratch = hart_scratch_addr sy h"
    "frame_regs (hart_frame (my_hart_scratch h (at_handler cause tval h c k))) = cpu_reg c"
    "frame_pc (hart_frame (my_hart_scratch h (at_handler cause tval h c k))) = cpu_pc c"
    "current_process (my_hart_scratch h (at_handler cause tval h c k)) = current_process (my_hart_scratch h k)"
    "processes (at_handler cause tval h c k) = processes k" "kernel_table (at_handler cause tval h c k) = kernel_table k"
    "bit (csrs (at_handler cause tval h c k) h sstatus) SSTATUS_TRAPS_NOW = False"
proof -
  let ?t = "take_trap cause tval h c k"
  have ok: "scratch_ok sy h (snd ?t)" and h: "h < length (hart_scratches (snd ?t))"
    using assms by (simp_all add: hart_running_def scratch_ok_take_trap) (simp_all add: scratch_ok_def take_trap_fields)
  show "\<exists>c'. exec sy h trap_vector (fst ?t) (snd ?t) = Inr (c', at_handler cause tval h c k)"
    using trap_vector_ok [OF ok] unfolding at_handler_def by blast
  note f = trapped_fields [OF h, where c = "fst ?t", folded at_handler_def]
  have frame: "trap_frame h (fst ?t) (snd ?t) = \<lparr>frame_regs = cpu_reg c, frame_pc = cpu_pc c,
      frame_satp = frame_satp (hart_frame (my_hart_scratch h k))\<rparr>"
    by (simp add: trap_frame_def take_trap_fields)
  have st: "csrs (at_handler cause tval h c k) h sstatus = sstatus_trap (cpu_supervisor c) (csrs k h sstatus)"
    by (simp add: f take_trap_fields)
  show sched: "sched_of (at_handler cause tval h c k) = sched_of k"
    unfolding f(6) by (rule sched_of_cong) (simp_all add: take_trap_fields)
  show "csrs (at_handler cause tval h c k) h scause = cause" by (simp add: f take_trap_fields)
  show "kernel_mode h (at_handler cause tval h c k) = cpu_supervisor c"
    by (simp add: kernel_mode_def st sstatus_trap_bits)
  show "bit (csrs (at_handler cause tval h c k) h sstatus) SSTATUS_TRAPS_NOW = False"
    by (simp add: st sstatus_trap_bits)
  have "csrs (snd ?t) h sscratch = csrs k h sscratch" by (simp add: take_trap_def)
  then show "csrs (at_handler cause tval h c k) h sscratch = hart_scratch_addr sy h"
    using assms by (simp add: f hart_running_def scratch_ok_def)
  show "frame_regs (hart_frame (my_hart_scratch h (at_handler cause tval h c k))) = cpu_reg c"
    "frame_pc (hart_frame (my_hart_scratch h (at_handler cause tval h c k))) = cpu_pc c"
    "current_process (my_hart_scratch h (at_handler cause tval h c k)) = current_process (my_hart_scratch h k)"
    "processes (at_handler cause tval h c k) = processes k" "kernel_table (at_handler cause tval h c k) = kernel_table k"
    by (simp_all add: f frame take_trap_fields)
  have "\<not> traps_enabled h (at_handler cause tval h c k)" by (simp add: traps_enabled_def st sstatus_trap_bits)
  moreover have "buffers_ok (at_handler cause tval h c k)"
  proof -
    have "buffers_ok (snd ?t) = buffers_ok k" by (simp add: buffers_ok_def take_trap_fields)
    then show ?thesis using assms by (simp add: f(8) hart_running_def)
  qed
  ultimately show "trap_ready h (at_handler cause tval h c k)"
    using assms h
    by (simp add: trap_ready_def hart_running_def sched_ok_def hart_ok_def processes_ok_def sched f(1-5) take_trap_fields)
qed

text \<open>
  A timer interrupt is invisible to a kernel process: when no other process can run, the whole way
  through the trap vector, the handler, the switch and back ends with the registers, the program counter
  and the mode that it began with, and traps on.  A user process goes on four bytes further: the instruction
  it was interrupted before is skipped.
\<close>

theorem timer_interrupt_resumes:
  assumes "hart_running sy h k" and "current_process (my_hart_scratch h k) = Some p"
    and "\<forall>q<PROCESSES_MAXIMUM. \<not> runnable (processes k ! q)"
    and "cpu_supervisor c = Process_is_kernel_process (processes k ! p) k"
  shows "\<exists>k'. trap_cycle sy board dev claimed left_over h (fst (take_trap SCAUSE_SUPERVISOR_TIMER_INTERRUPT tval h c k))
       (snd (take_trap SCAUSE_SUPERVISOR_TIMER_INTERRUPT tval h c k)) d =
     Inr (c\<lparr>cpu_pc := cpu_pc c + (if cpu_supervisor c then 0 else 4)\<rparr>, k', d) \<and> traps_enabled h k' \<and>
     csrs k' h satp = SatpRegister_from_PageTable (proc_page_table (processes k ! p))"
proof -
  let ?K = "at_handler SCAUSE_SUPERVISOR_TIMER_INTERRUPT tval h c k"
  note a = at_handler_ok [OF assms(1), of SCAUSE_SUPERVISOR_TIMER_INTERRUPT tval c]
  obtain c1 where vec: "exec sy h trap_vector (fst (take_trap SCAUSE_SUPERVISOR_TIMER_INTERRUPT tval h c k))
      (snd (take_trap SCAUSE_SUPERVISOR_TIMER_INTERRUPT tval h c k)) = Inr (c1, ?K)" using a(1) by blast
  have cur: "current_process (my_hart_scratch h ?K) = Some p" using a(9) assms(2) by simp
  have y: "yields h ?K" using a(3) by (simp add: yields_def)
  let ?k1 = "sip_cleared h (entered trap_print_lock h ?K)"
  note e = trap_ready_entered [OF a(2)]
  have ok: "sched_ok h ?k1" using e(2) in_handler_sip [of h "entered trap_print_lock h ?K"] unfolding in_handler_def by blast
  have cur1: "current_process (my_hart_scratch h ?k1) = Some p" by (simp add: e(5) cur)
  note p = sched_ok_current [OF ok cur1]
  have h: "h < length (hart_scratches ?k1)" and len: "length (processes ?k1) = 32"
    using ok by (simp_all add: sched_ok_def hart_ok_def processes_ok_def maximum_32)
  have off: "before_choice h ?k1 = switched_off p h ?k1" unfolding before_choice_def cur1 by simp
  define proc where "proc = processes (before_choice h ?k1) ! p"
  have proc: "proc = (processes k ! p)\<lparr>proc_frame := saved_frame (processes ?k1 ! p) ?k1 (hart_frame (my_hart_scratch h ?K)),
      proc_state := PROCESS_RUNNABLE\<rparr>"
    using len p(1) by (simp add: proc_def off switched_off_def set_scratch_def set_process_def e a(10))
  have run: "runnable (processes (before_choice h ?k1) ! p)" using proc by (simp add: runnable_def proc_def)
  have "processes (before_choice h ?k1) ! q = processes k ! q" if "q \<noteq> p" for q
    using that by (simp add: off switched_off_def set_scratch_def set_process_def e a(10))
  then have only: "\<forall>q<32. runnable (processes (before_choice h ?k1) ! q) \<longrightarrow> q = p"
    using assms(3) unfolding maximum_32 by metis
  obtain k2 where k2: "kernel_switch sy board h ?k1 = Inr k2"
      "hart_frame (my_hart_scratch h k2) = loaded_frame sy False ?k1 proc"
      "csrs k2 h sepc = frame_pc (proc_frame proc)"
      "csrs k2 h sstatus = resume_sstatus (csrs ?k1 h sstatus) (Process_is_kernel_process proc ?k1)"
    using kernel_switch_only [OF ok p(1) run only, of sy board, folded proc_def] proc by auto
  obtain k2' k3 where k3: "kernel_switch sy board h ?k1 = Inr k2'" "handle_trap sy board dev claimed h ?K d = Inr (k3, d)"
      "k3 = k2'\<lparr>locks := locks k3, hart_scratches := hart_scratches k3\<rparr>"
      "hart_frame (my_hart_scratch h k3) = hart_frame (my_hart_scratch h k2')"
    using yields_switch [OF a(2) cur y, of sy board dev claimed d] by blast
  have same: "k2' = k2" using k2(1) k3(1) by simp
  have csrs3: "csrs k3 = csrs k2" using k3(3) same by (metis kernel.select_convs(1) kernel.surjective kernel.update_convs(2,4))
  have "csrs k2 h sscratch = hart_scratch_addr sy h"
    using kernel_switch_keeps(6) [OF ok k2(1)] by (simp add: e(3) a(6))
  then have "csrs k3 h sscratch = hart_scratch_addr sy h" by (simp add: csrs3)
  from leave_kernel_ok [OF this, of left_over] obtain k4 where
    k4: "leave_kernel sy h left_over k3 = Inr (\<lparr>cpu_reg = frame_regs (hart_frame (my_hart_scratch h k3)),
        cpu_pc = csrs k3 h sepc, cpu_supervisor = bit (csrs k3 h sstatus) SSTATUS_PRIVILEGE\<rparr>, k4)"
      "csrs k4 h satp = frame_satp (hart_frame (my_hart_scratch h k3))"
      "traps_enabled h k4 = bit (csrs k3 h sstatus) SSTATUS_TRAPS_AFTER_SRET" by blast
  have mode: "Process_is_kernel_process proc ?k1 = cpu_supervisor c"
    unfolding assms(4) by (simp add: Process_is_kernel_process_def proc e a(11))
  have kp: "Process_is_kernel_process x ?k1 = Process_is_kernel_process x k" for x
    by (simp add: Process_is_kernel_process_def e a(11))
  have frame: "frame_regs (hart_frame (my_hart_scratch h k3)) = cpu_reg c"
      "frame_satp (hart_frame (my_hart_scratch h k3)) = SatpRegister_from_PageTable (proc_page_table (processes k ! p))"
    by (simp_all add: k3(4) same k2(2) loaded_frame_def proc saved_frame_def a(7))
  have pc: "csrs k3 h sepc = cpu_pc c + (if cpu_supervisor c then 0 else 4)"
    by (simp add: csrs3 k2(3) proc saved_frame_def kp e(6) a(8,10) assms(4))
  have st: "bit (csrs k3 h sstatus) SSTATUS_PRIVILEGE = cpu_supervisor c" "bit (csrs k3 h sstatus) SSTATUS_TRAPS_AFTER_SRET"
    by (simp_all add: csrs3 k2(4) resume_sstatus_bits mode)
  have "\<lparr>cpu_reg = cpu_reg c, cpu_pc = x, cpu_supervisor = cpu_supervisor c\<rparr> = c\<lparr>cpu_pc := x\<rparr>" for x by (cases c) simp
  then show ?thesis
    using vec k3(2) k4 frame pc st by (auto simp: trap_cycle_def)
qed

definition sample_hart_running :: kernel where
  "sample_hart_running = with_scratch sample_symbols 0 sample_running"

lemma sample_hart_running_ok: "hart_running sample_symbols 0 sample_hart_running"
proof -
  have "sched_ok 0 sample_hart_running"
    using sample_running_ok
    by (simp add: sample_hart_running_def with_scratch_def csr_write_def sched_ok_def hart_ok_def processes_ok_def traps_enabled_def)
  moreover have "Buffer_ok (proc_buffer (sample_process i st))" for i st by (simp add: Buffer_ok_def)
  ultimately show ?thesis
    using sample_scratch_ok
    by (auto simp: hart_running_def buffers_ok_def sample_hart_running_def with_scratch_def csr_write_def sample_running_fields
        sample_table_def) (auto simp: sample_running_def set_scratch_def Buffer_ok_def set_replicate_conv_if
        dest!: set_update_subset_insert [THEN subsetD])
qed

lemma timer_interrupt_resumes_witness:
  "\<exists>k'. trap_cycle sample_symbols board_virt (\<lambda>a d. (0, d)) 0 sample_cpu 0
     (fst (take_trap SCAUSE_SUPERVISOR_TIMER_INTERRUPT 0 0 sample_cpu sample_hart_running))
     (snd (take_trap SCAUSE_SUPERVISOR_TIMER_INTERRUPT 0 0 sample_cpu sample_hart_running)) () = Inr (sample_cpu, k', ())"
proof -
  have cur: "current_process (my_hart_scratch 0 sample_hart_running) = Some 3"
    by (simp add: sample_hart_running_def with_scratch_def csr_write_def sample_running_fields)
  have none: "\<forall>q<PROCESSES_MAXIMUM. \<not> runnable (processes sample_hart_running ! q)"
    by (simp add: sample_hart_running_def with_scratch_def csr_write_def sample_running_fields maximum_32)
  have mode: "cpu_supervisor sample_cpu = Process_is_kernel_process (processes sample_hart_running ! 3) sample_hart_running"
    by (simp add: sample_hart_running_def with_scratch_def csr_write_def sample_running_fields sample_cpu_def
        Process_is_kernel_process_def)
  show ?thesis
    using timer_interrupt_resumes [OF sample_hart_running_ok cur none mode, of board_virt "\<lambda>a d. (0, d)" 0 sample_cpu 0 "()"]
    by (auto simp: sample_cpu_def)
qed

section \<open>Output of a user process\<close>

lemma set_scratch_reg_facts:
  assumes h: "h < length (hart_scratches k)"
  shows "sched_of (set_scratch_reg h r v k) = sched_of k"
    "my_hart_scratch h (set_scratch_reg h r v k) =
      (my_hart_scratch h k)\<lparr>hart_frame := set_reg r v (hart_frame (my_hart_scratch h k))\<rparr>"
    "get_buffer ref (set_scratch_reg h r v k) = get_buffer ref k" "sbi (set_scratch_reg h r v k) = sbi k"
    "csrs (set_scratch_reg h r v k) = csrs k" "locks (set_scratch_reg h r v k) = locks k"
    "sched_ok h (set_scratch_reg h r v k) = sched_ok h k" "buffers_ok (set_scratch_reg h r v k) = buffers_ok k"
    "traps_enabled h (set_scratch_reg h r v k) = traps_enabled h k"
proof -
  show m: "my_hart_scratch h (set_scratch_reg h r v k) =
      (my_hart_scratch h k)\<lparr>hart_frame := set_reg r v (hart_frame (my_hart_scratch h k))\<rparr>"
    using h by (simp add: set_scratch_reg_def Let_def)
  show s: "sched_of (set_scratch_reg h r v k) = sched_of k"
    by (rule sched_of_cong) (simp_all add: set_scratch_reg_def Let_def set_scratch_def my_hart_scratch_def map_list_update_same)
  show g: "get_buffer ref (set_scratch_reg h r v k) = get_buffer ref k" for ref
    by (cases ref) (auto simp: get_buffer_def set_scratch_reg_def Let_def set_scratch_def my_hart_scratch_def deref_def
        nth_update_field [of hart_buffer])
  show c: "sbi (set_scratch_reg h r v k) = sbi k" "csrs (set_scratch_reg h r v k) = csrs k"
    "locks (set_scratch_reg h r v k) = locks k"
    by (simp_all add: set_scratch_reg_def Let_def set_scratch_def)
  show "buffers_ok (set_scratch_reg h r v k) = buffers_ok k"
    by (rule buffers_ok_cong) (simp_all add: set_scratch_reg_def Let_def set_scratch_def my_hart_scratch_def map_list_update_same)
  have "processes (set_scratch_reg h r v k) = processes k"
      "length (hart_scratches (set_scratch_reg h r v k)) = length (hart_scratches k)"
    by (simp_all add: set_scratch_reg_def Let_def set_scratch_def)
  then show "sched_ok h (set_scratch_reg h r v k) = sched_ok h k" "traps_enabled h (set_scratch_reg h r v k) = traps_enabled h k"
    by (simp_all add: sched_ok_def hart_ok_def processes_ok_def m s c traps_enabled_def)
qed

lemma in_handler_set_reg:
  assumes "in_handler h k"
  shows "in_handler h (set_scratch_reg h r v k)"
proof -
  have h: "h < length (hart_scratches k)" using assms by (simp add: in_handler_def sched_ok_def hart_ok_def)
  then show ?thesis using assms by (simp add: in_handler_def set_scratch_reg_facts [OF h])
qed

lemma trap_ready_set_reg:
  assumes "trap_ready h k"
  shows "trap_ready h (set_scratch_reg h r v k)"
proof -
  have h: "h < length (hart_scratches k)" using assms by (simp add: trap_ready_def sched_ok_def hart_ok_def)
  then show ?thesis using assms by (simp add: trap_ready_def set_scratch_reg_facts [OF h])
qed

lemma get_buffer_sip: "get_buffer ref (sip_cleared h k) = get_buffer ref k"
  by (cases ref) (simp_all add: get_buffer_def)

lemma get_buffer_entered_process: "get_buffer (ProcessBuffer p) (entered l h k) = get_buffer (ProcessBuffer p) k"
  by (simp add: get_buffer_def entered_def Let_def)

text \<open>The system call that puts a character, inside the handler.\<close>

lemma handle_syscall_putchar:
  assumes i: "in_handler h k" and cur: "current_process (my_hart_scratch h k) = Some p"
    and call: "frame_regs (hart_frame (my_hart_scratch h k)) a0 = SYSCALL_PUTCHAR"
    and g: "get_buffer (ProcessBuffer p) k = Inr b"
  shows "\<exists>k' b'. handle_syscall h k = Inr k' \<and> in_handler h k' \<and> current_process (my_hart_scratch h k') = Some p \<and>
     get_buffer (ProcessBuffer p) k' = Inr b' \<and>
     console (sbi k') @ pending b' = console (sbi k) @ pending b @ [ucast (frame_regs (hart_frame (my_hart_scratch h k)) a1)] \<and>
     frame_regs (hart_frame (my_hart_scratch h k')) = (frame_regs (hart_frame (my_hart_scratch h k)))
       (a0 := scast (ucast (frame_regs (hart_frame (my_hart_scratch h k)) a1) :: u32)) \<and>
     (ucast (frame_regs (hart_frame (my_hart_scratch h k)) a1) = (10 :: byte) \<longrightarrow> pending b' = []) \<and>
     trap_served h p (Some ((frame_regs (hart_frame (my_hart_scratch h k)))
       (a0 := scast (ucast (frame_regs (hart_frame (my_hart_scratch h k)) a1) :: u32)))) k k'"
proof -
  let ?c = "ucast (frame_regs (hart_frame (my_hart_scratch h k)) a1) :: u32"
  have i': "sched_ok h k" "hart_ok h k" "locked (locks k io_spinlock) = 0" "buffers_ok k" "h < length (hart_scratches k)"
    using i unfolding in_handler_def sched_ok_def hart_ok_def by blast+
  have live: "live_buffer (ProcessBuffer p) k" using sched_ok_current(2) [OF i'(1) cur] by (simp add: live_buffer_def)
  obtain b' k2 where k2: "putchar_buffer ?c (Some (ProcessBuffer p)) h k = Inr (?c, k2)" "output_frame k k2"
      "locked (locks k2 io_spinlock) = 0" "buffers_ok k2" "get_buffer (ProcessBuffer p) k2 = Inr b'"
      "interrupts_before_locking (my_hart_scratch h k2) = lock_flag h k"
      "console (sbi k2) @ pending b' = console (sbi k) @ pending b @ [ucast ?c]" "ucast ?c = (10 :: byte) \<longrightarrow> pending b' = []"
    using putchar_buffers [OF i'(2-4) _ g live, of "Some (ProcessBuffer p)" ?c] by auto
  have "\<not> lock_flag h k" using i by (simp add: lock_flag_def in_handler_def)
  then have "quiet_io h k2"
    using hart_ok_frame [OF k2(2) i'(2)] k2(2-4,6) i
    by (simp add: quiet_io_def in_handler_def traps_enabled_def output_frame_def)
  then have i2: "in_handler h k2" by (rule in_handler_frame [OF i k2(2)])
  have h2: "h < length (hart_scratches k2)" using i2 by (simp add: in_handler_def sched_ok_def hart_ok_def)
  note r = in_handler_set_reg [OF i2, where r = a0 and v = "scast ?c"]
    and r' = set_scratch_reg_facts [OF h2, where r = a0 and v = "scast ?c"]
  have frame: "hart_frame (my_hart_scratch h k2) = hart_frame (my_hart_scratch h k)"
      "current_process (my_hart_scratch h k2) = Some p"
    using output_frame_hart [OF k2(2) i'(5)] by (simp_all add: strip_hart_def cur)
  have "handle_syscall h k = Inr (set_scratch_reg h a0 (scast ?c) k2)"
    using cur call k2(1) by (simp add: handle_syscall_def Let_def SYSCALL_PUTCHAR_def SYSCALL_YIELD_def)
  moreover have "(ucast ?c :: byte) = ucast (frame_regs (hart_frame (my_hart_scratch h k)) a1)"
    by (intro bit_word_eqI) (auto simp: bit_simps)
  ultimately show ?thesis
    using r k2(5,7,8) frame k2(2) others_keep_trans [OF others_keep_output [OF k2(2)] others_keep_set_scratch_reg]
    by (intro exI [of _ "set_scratch_reg h a0 (scast ?c) k2"] exI [of _ b'])
      (simp add: r'(2-4) trap_served_def output_frame_def set_reg_def, simp add: set_scratch_reg_def Let_def set_scratch_def)
qed

text \<open>
  The system call that puts a character comes back from the handler; until the switch the character
  follows everything the process has put before, on the console or in the process's own line buffer, the
  process's \<open>a0\<close> is the character cut off to an \<open>int\<close>, and every other register is as the trap vector saved it.
\<close>

theorem putchar_syscall:
  assumes "trap_ready h k" and "current_process (my_hart_scratch h k) = Some p" and "\<not> kernel_mode h k"
    and "csrs k h scause = SCAUSE_ECALL_U_MODE" and "frame_regs (hart_frame (my_hart_scratch h k)) a0 = SYSCALL_PUTCHAR"
    and "get_buffer (ProcessBuffer p) k = Inr b"
  shows "\<exists>k1 b1 k'. handle_trap_before_switch sy board dev claimed h k d = Inr (k1, d) \<and>
     get_buffer (ProcessBuffer p) k1 = Inr b1 \<and>
     console (sbi k1) @ pending b1 = console (sbi k) @ pending b @ [ucast (frame_regs (hart_frame (my_hart_scratch h k)) a1)] \<and>
     frame_regs (hart_frame (my_hart_scratch h k1)) = (frame_regs (hart_frame (my_hart_scratch h k)))
       (a0 := scast (ucast (frame_regs (hart_frame (my_hart_scratch h k)) a1) :: u32)) \<and>
     handle_trap sy board dev claimed h k d = Inr (k', d) \<and> trap_ready h k'"
proof -
  have ok: "sched_ok h k" using assms(1) by (simp add: trap_ready_def)
  note t = trap_ready_entered [OF assms(1)]
  let ?k1 = "sip_cleared h (entered trap_print_lock h k)"
  have i: "in_handler h ?k1" using t(2) by simp
  have g: "get_buffer (ProcessBuffer p) ?k1 = Inr b" by (simp add: get_buffer_sip get_buffer_entered_process assms(6))
  obtain k2 b1 where k2: "handle_syscall h ?k1 = Inr k2" "in_handler h k2" "current_process (my_hart_scratch h k2) = Some p"
      "get_buffer (ProcessBuffer p) k2 = Inr b1"
      "console (sbi k2) @ pending b1 = console (sbi k) @ pending b @ [ucast (frame_regs (hart_frame (my_hart_scratch h k)) a1)]"
      "frame_regs (hart_frame (my_hart_scratch h k2)) = (frame_regs (hart_frame (my_hart_scratch h k)))
        (a0 := scast (ucast (frame_regs (hart_frame (my_hart_scratch h k)) a1) :: u32))"
    using handle_syscall_putchar [OF i _ _ g] assms(2,5) by (auto simp: t(5,8))
  moreover have "\<not> fatal_trap False True SCAUSE_ECALL_U_MODE" by (rule fatal_trap_simps(3))
  moreover have "SCAUSE_ECALL_U_MODE \<noteq> SCAUSE_SUPERVISOR_EXTERNAL_INTERRUPT" by (simp add: scause_values)
  ultimately have body: "handle_trap_before_switch sy board dev claimed h k d = Inr (k2, d)"
    using assms(2-4)
    by (simp add: handle_trap_before_switch_def Let_def csr_read_def BIT_GET_privilege my_pid_current [OF ok] t(1) flip: sip_cleared_def)
  have ok2: "sched_ok h k2" "h < length (hart_scratches k2)" using k2(2) by (simp_all add: in_handler_def sched_ok_def hart_ok_def)
  have "owner (sched_of k2) h = Some p" using owner_current [OF ok2(2)] k2(3) by simp
  then have "kernel_switch sy board h k2 \<noteq> Inl Hangs"
    using kernel_switch_steps [OF ok2(1), of sy board] by auto
  then obtain k' where "handle_trap sy board dev claimed h k d = Inr (k', d)" "trap_ready h k'"
    using handle_trap_end [OF body k2(2)] by blast
  then show ?thesis using body k2(4-6) by blast
qed

lemma putchar_syscall_witness:
  "\<exists>k1 b1. handle_trap_before_switch sample_symbols board_virt (\<lambda>a d. (0, d)) 0 0
       (set_scratch_reg 0 a1 33 (set_scratch_reg 0 a0 SYSCALL_PUTCHAR (sample_trap SCAUSE_ECALL_U_MODE 0))) () = Inr (k1, ()) \<and>
     get_buffer (ProcessBuffer 3) k1 = Inr b1 \<and> console (sbi k1) @ pending b1 = [33]"
proof -
  let ?k = "sample_trap SCAUSE_ECALL_U_MODE 0"
  let ?k1 = "set_scratch_reg 0 a0 SYSCALL_PUTCHAR ?k"
  have h: "0 < length (hart_scratches ?k)" "0 < length (hart_scratches ?k1)"
    by (simp_all add: sample_trap_fields set_scratch_reg_def Let_def set_scratch_def)
  note f = set_scratch_reg_facts [OF h(1), where r = a0 and v = SYSCALL_PUTCHAR]
    and g = set_scratch_reg_facts [OF h(2), where r = a1 and v = 33]
  have r: "trap_ready 0 (set_scratch_reg 0 a1 33 ?k1)"
    by (intro trap_ready_set_reg sample_trap_ready privilege_off)
  have sbi: "sbi ?k = []" by (simp add: sample_trap_def sample_running_def set_scratch_def)
  have b: "get_buffer (ProcessBuffer 3) (set_scratch_reg 0 a1 33 ?k1) = Inr \<lparr>count = 0, capacity = 256, array = replicate 256 0\<rparr>"
    unfolding g(3) f(3) by (simp add: get_buffer_def sample_trap_fields)
  show ?thesis
    using putchar_syscall [OF r _ _ _ _ b, of sample_symbols board_virt "\<lambda>a d. (0, d)" 0 "()"]
    by (auto simp: f g sample_trap_fields kernel_mode_def sbi pending_def)
qed

section \<open>A fault of the kernel\<close>

lemma length_hex: "length (radix 16 (unat (w :: u64))) \<le> 16" "length (radix 16 (unat (v :: u32))) \<le> 16"
proof -
  have "unat w < 16 ^ Suc 15" "unat v < 16 ^ Suc 15"
    by (rule order_less_le_trans [OF unsigned_less], simp)+
  then show "length (radix 16 (unat w)) \<le> 16" "length (radix 16 (unat v)) \<le> 16"
    using length_radix [of 16 _ 15] by simp_all
qed

lemma text_bounds:
  "length (radix 16 (unat (w :: u64))) < 2147483648" "length (radix 16 (unat (v :: u32))) < 2147483646"
  "length (signed_text (sint v)) < 2147483648"
  "length s < 2147483647 \<Longrightarrow> length (takeWhile (\<lambda>b. b \<noteq> 0) (cstr s)) < 2147483648" "0 \<in> set (cstr s)"
  using length_hex(1) [of w] length_hex(2) [of v] length_signed_text [of v] cstr_text(2) [of s] cstr_text(1) [of s] by linarith+

lemma member_text:
  "\<exists>ds text. bytes_of ''%3s:'' @ [9] @ bytes_of ''%p'' @ [10, 0] = format_string ds @ [0] \<and> (\<forall>d\<in>set ds. directive_ok d) \<and>
     format_text ds [VStr (cstr (member_name m)), VWord v] = Some (text, [])"
proof -
  let ?ds = "[Conv False False False (Width 3) 0 ConvStr, Lit 58, Lit 9, Conv False False False NoWidth 0 ConvPtr, Lit 10]"
  have "length (member_name m) < 5" by (cases m) (simp_all split: reg.split)
  then have "length (takeWhile (\<lambda>b. b \<noteq> 0) (cstr (member_name m))) < 2147483648" by (intro text_bounds(4)) simp
  then have "\<exists>text. format_text ?ds [VStr (cstr (member_name m)), VWord v] = Some (text, [])"
    by (simp add: text_bounds)
  moreover have "bytes_of ''%3s:'' @ [9] @ bytes_of ''%p'' @ [10, 0] = format_string ?ds @ [0]"
    by (simp add: format_string_def bytes_of_def radix.simps digit_char_def)
  moreover have "\<forall>d\<in>set ?ds. directive_ok d" by simp
  ultimately show ?thesis by blast
qed

lemma print_members_ok:
  "quiet_io h k \<Longrightarrow> \<exists>k'. print_members h f ms k = Inr k' \<and> quiet_io h k' \<and> output_frame k k'"
proof (induction ms arbitrary: k)
  case (Cons m ms)
  obtain ds "text" where fmt: "bytes_of ''%3s:'' @ [9] @ bytes_of ''%p'' @ [10, 0] = format_string ds @ [0]"
      "\<forall>d\<in>set ds. directive_ok d" "format_text ds [VStr (cstr (member_name m)), VWord (get_member m f)] = Some (text, [])"
    using member_text by blast
  obtain k1 where k1: "print_member h f m k = Inr k1" "quiet_io h k1" "output_frame k k1"
    using kprintf_quiet [OF Cons.prems fmt(2,3,1)] by (auto simp: print_member_def)
  from Cons.IH [OF k1(2)] show ?case using k1 output_frame_trans by fastforce
qed auto

lemma report_text:
  fixes a b c d e f :: u64
  shows "\<exists>ds text. [10] @ bytes_of ''***'' @ [10] @ bytes_of ''trap: %s'' @ [10] @
       bytes_of ''scause:  %p, stval: %p, sepc: %p'' @ [10] @ bytes_of ''sstatus: %p, hart_scratch: %p'' @ [10] @
       bytes_of ''hart: %#x, pid: %d, was_in_process: %s'' @ [10] @ bytes_of ''(was in %s mode)'' @ [10, 0] =
     format_string ds @ [0] \<and> (\<forall>d\<in>set ds. directive_ok d) \<and>
     format_text ds [VStr (cstr (decode_scause cause)), VWord a, VWord b, VWord c, VWord d, VWord e, VWord f, VWord g,
       VStr (cstr (if in_proc then ''yes'' else ''no'')), VStr (cstr (if mode then ''kernel'' else ''user''))] = Some (text, [])"
proof -
  let ?str = "Conv False False False NoWidth 0 ConvStr" and ?ptr = "Conv False False False NoWidth 0 ConvPtr"
  let ?ds = "map Lit ([10] @ bytes_of ''***'' @ [10] @ bytes_of ''trap: '') @ [?str] @ map Lit ([10] @ bytes_of ''scause:  '') @
    [?ptr] @ map Lit (bytes_of '', stval: '') @ [?ptr] @ map Lit (bytes_of '', sepc: '') @ [?ptr] @
    map Lit ([10] @ bytes_of ''sstatus: '') @ [?ptr] @ map Lit (bytes_of '', hart_scratch: '') @ [?ptr] @
    map Lit ([10] @ bytes_of ''hart: '') @ [Conv False True False NoWidth 0 ConvHex] @ map Lit (bytes_of '', pid: '') @
    [Conv False False False NoWidth 0 ConvSigned] @ map Lit (bytes_of '', was_in_process: '') @ [?str] @
    map Lit ([10] @ bytes_of ''(was in '') @ [?str] @ map Lit (bytes_of '' mode)'' @ [10])"
  have len: "length (takeWhile (\<lambda>b. b \<noteq> 0) (cstr (decode_scause cause))) < 2147483648"
      "length (takeWhile (\<lambda>b. b \<noteq> 0) (cstr (if in_proc then ''yes'' else ''no''))) < 2147483648"
      "length (takeWhile (\<lambda>b. b \<noteq> 0) (cstr (if mode then ''kernel'' else ''user''))) < 2147483648"
    using length_decode_scause [of cause] by (intro text_bounds(4), simp)+
  have "\<exists>text. format_text ?ds [VStr (cstr (decode_scause cause)), VWord a, VWord b, VWord c, VWord d, VWord e, VWord f, VWord g,
       VStr (cstr (if in_proc then ''yes'' else ''no'')), VStr (cstr (if mode then ''kernel'' else ''user''))] = Some (text, [])"
    using len text_bounds(2) [of "ucast f"] by (simp add: bytes_of_def text_bounds(1,3,5) del: if_split)
  moreover have "[10] @ bytes_of ''***'' @ [10] @ bytes_of ''trap: %s'' @ [10] @
       bytes_of ''scause:  %p, stval: %p, sepc: %p'' @ [10] @ bytes_of ''sstatus: %p, hart_scratch: %p'' @ [10] @
       bytes_of ''hart: %#x, pid: %d, was_in_process: %s'' @ [10] @ bytes_of ''(was in %s mode)'' @ [10, 0] =
     format_string ?ds @ [0]" by (simp add: format_string_def bytes_of_def)
  moreover have "\<forall>d\<in>set ?ds. directive_ok d" by (simp add: bytes_of_def)
  ultimately show ?thesis by blast
qed

lemma report_trap_ok:
  assumes "quiet_io h k"
  shows "\<exists>k'. report_trap sy pid h k = Inr k' \<and> quiet_io h k' \<and> output_frame k k'"
proof -
  obtain k1 n where k1: "kprintf h ([10] @ bytes_of ''***'' @ [10] @ bytes_of ''trap: %s'' @ [10] @
       bytes_of ''scause:  %p, stval: %p, sepc: %p'' @ [10] @ bytes_of ''sstatus: %p, hart_scratch: %p'' @ [10] @
       bytes_of ''hart: %#x, pid: %d, was_in_process: %s'' @ [10] @ bytes_of ''(was in %s mode)'' @ [10, 0])
      [VStr (cstr (decode_scause (csr_read scause h k))), VWord (csr_read scause h k), VWord (csr_read stval h k),
       VWord (csr_read sepc h k), VWord (csr_read sstatus h k), VWord (hart_scratch_addr sy h), VWord (of_nat h),
       VWord (scast pid), VStr (cstr (if current_process (my_hart_scratch h k) \<noteq> None then ''yes'' else ''no'')),
       VStr (cstr (if BIT_GET (csr_read sstatus h k) SSTATUS_PRIVILEGE then ''kernel'' else ''user''))] k = Inr (n, k1)"
      "quiet_io h k1" "output_frame k k1"
    using report_text kprintf_quiet [OF assms] by metis
  obtain k2 where k2: "TrapFrame_print h (hart_frame (my_hart_scratch h k)) k1 = Inr k2" "quiet_io h k2" "output_frame k1 k2"
    using print_members_ok [OF k1(2)] unfolding TrapFrame_print_def by blast
  have "bytes_of ''***'' @ [10, 0] = format_string (map Lit (bytes_of ''***'' @ [10])) @ [0]"
      "\<forall>d\<in>set (map Lit (bytes_of ''***'' @ [10])). directive_ok d"
      "format_text (map Lit (bytes_of ''***'' @ [10])) [] = Some ([42, 42, 42, 10], [])"
    by (simp_all add: format_string_def bytes_of_def)
  then obtain k3 m where k3: "kprintf h (bytes_of ''***'' @ [10, 0]) [] k2 = Inr (m, k3)" "quiet_io h k3" "output_frame k2 k3"
    using kprintf_quiet [OF k2(2)] by metis
  show ?thesis
    using k1 k2 k3 output_frame_trans [OF output_frame_trans [OF k1(3) k2(3)] k3(3)]
    by (simp add: report_trap_def Let_def)
qed

text \<open>
  A trap of the kernel that is neither a timer interrupt nor a software or external interrupt of a
  running process prints its report to the end and then panics; it never comes back.
\<close>

theorem kernel_fault_panics:
  assumes "trap_ready h k" and "kernel_mode h k"
    and "current_process (my_hart_scratch h k) = None \<or> csrs k h scause \<notin> {SCAUSE_SUPERVISOR_SOFTWARE_INTERRUPT,
      SCAUSE_SUPERVISOR_TIMER_INTERRUPT, SCAUSE_SUPERVISOR_EXTERNAL_INTERRUPT}"
  shows "\<exists>k1. report_trap sy (case current_process (my_hart_scratch h k) of None \<Rightarrow> - 1 | Some p \<Rightarrow> ucast (of_nat p :: byte)) h
      (entered trap_print_lock h k) = Inr k1 \<and> handle_trap sy board dev claimed h k d = Inl (Panic ''fatal trap'')"
proof -
  have ok: "sched_ok h k" using assms(1) by (simp add: trap_ready_def)
  note t = trap_ready_entered [OF assms(1)]
  let ?pid = "(case current_process (my_hart_scratch h k) of None \<Rightarrow> - 1 | Some p \<Rightarrow> ucast (of_nat p :: byte)) :: u32"
  obtain k1 where k1: "report_trap sy ?pid h (entered trap_print_lock h k) = Inr k1" "quiet_io h k1"
      "output_frame (entered trap_print_lock h k) k1"
    using report_trap_ok [OF in_handler_quiet [OF t(2)]] by blast
  have "in_handler h k1" by (rule in_handler_frame [OF t(2) k1(3,2)])
  then have "lock_depth (my_hart_scratch h k1) \<noteq> 0" by (simp add: in_handler_def)
  then obtain k2 where k2: "SpinLock_release trap_print_lock h k1 = Inr k2"
    using SpinLock_release_eq [of h k1 trap_print_lock] by (auto simp: Let_def split: if_splits)
  have fatal: "fatal_trap True (current_process (my_hart_scratch h k) \<noteq> None) (csrs k h scause)"
    using assms(3) by (auto simp: fatal_trap_def Let_def)
  have pid: "(if current_process (my_hart_scratch h k) \<noteq> None then bindr (my_pid h k) (\<lambda>(pid, k1). Inr (ucast pid :: u32, k1))
      else Inr (- 1, k)) = Inr (?pid, k)"
    using my_pid_current [OF ok] by (auto split: option.split)
  have "handle_trap_before_switch sy board dev claimed h k d = Inl (Panic ''fatal trap'')"
    unfolding handle_trap_before_switch_def Let_def csr_read_def BIT_GET_privilege pid
    using assms(2) fatal k1(1) k2 t(1) by simp
  then show ?thesis using k1(1) by (simp add: handle_trap_def)
qed

lemma kernel_fault_panics_witness:
  "handle_trap sample_symbols board_virt (\<lambda>a d. (0, d)) 0 0 (sample_trap (SCAUSE 0 5) 0x100) () = Inl (Panic ''fatal trap'')"
proof -
  have off: "\<not> bit (0x100 :: u64) SSTATUS_TRAPS_NOW" by (simp add: SSTATUS_TRAPS_NOW_def bit_numeral_rec)
  have m: "kernel_mode 0 (sample_trap (SCAUSE 0 5) 0x100)"
    by (simp add: kernel_mode_def sample_trap_fields SSTATUS_PRIVILEGE_def bit_numeral_rec)
  show ?thesis
    using kernel_fault_panics [OF sample_trap_ready [OF off] m, of sample_symbols board_virt "\<lambda>a d. (0, d)" 0 "()"]
    by (auto simp: sample_trap_fields SCAUSE_def scause_values)
qed

end
