(* ===== verification/Boot_Output.thy ===== *)
theory Boot_Output
  imports Boot Trap_Cycle
begin

text \<open>
  What the boot code prints and asks of the firmware: output leaves the other calls of the firmware alone, the
  primary hart asks for exactly the other harts to be started, and the two ways of stopping end in the calls
  that turn the machine off.
\<close>

section \<open>Calls other than output\<close>

definition requests :: "SbiCall list \<Rightarrow> SbiCall list" where
  "requests trace = filter (\<lambda>c. eid c \<noteq> 0x1) trace"

lemma replicate_small: "replicate 3 x = [x, x, x]" "replicate 4 x = [x, x, x, x]"
  by (simp_all add: numeral_eq_Suc)

lemma requests_simps [simp]:
  "requests (sbi_putchar ch trace) = requests trace"
  "requests (sbi_hart_start i a b trace) = requests trace @ [\<lparr>eid = 0x48534D, fid = 0, sbi_args = [i, a, b, 0, 0, 0]\<rparr>]"
  "requests (sbi_shutdown type trace) = requests trace @ [\<lparr>eid = 0x53525354, fid = 0, sbi_args = [type, 0, 0, 0, 0, 0]\<rparr>]"
  by (simp_all add: requests_def sbi_putchar_def sbi_hart_start_def sbi_shutdown_def sbi_call_def replicate_small)

lemma requests_flush_loop: "Buffer_flush_loop b i trace = Inr t \<Longrightarrow> requests t = requests trace"
proof (induction b i trace rule: Buffer_flush_loop.induct)
  case (1 b i trace)
  then show ?case
    by (subst (asm) (2) Buffer_flush_loop.simps) (auto simp: deref_def bindr_Inr_iff split: if_splits)
qed

lemma requests_handle_new:
  "Buffer_output_handle_new b ch trace = Inr (b', t) \<Longrightarrow> requests t = requests trace"
  by (auto simp: Buffer_output_handle_new_def Buffer_output_flush_def bindr_Inr_iff
      dest!: requests_flush_loop split: if_splits prod.splits)

lemma SpinLock_sbi:
  "SpinLock_acquire l h k = Inr (e, k') \<Longrightarrow> sbi k' = sbi k" "SpinLock_release l h k = Inr k' \<Longrightarrow> sbi k' = sbi k"
  by (auto simp: SpinLock_acquire_def SpinLock_release_def my_hart_pre_lock_acquire_def my_hart_post_lock_release_def
      Let_def disable_traps_now_def enable_traps_now_def csr_clear_mask_def csr_set_mask_def set_scratch_def
      split: if_splits)

lemma requests_putchar_buffer:
  assumes "putchar_buffer ch buffer h k = Inr (r, k')"
  shows "requests (sbi k') = requests (sbi k)"
proof -
  obtain e k1 where a: "SpinLock_acquire io_spinlock h k = Inr (e, k1)"
    using assms by (auto simp: putchar_buffer_def bindr_Inr_iff split: prod.splits)
  obtain ref b b1 trace where
    "Buffer_output_handle_new b (ucast ch) (sbi k1) = Inr (b1, trace)"
    "SpinLock_release io_spinlock h (put_buffer ref b1 (k1\<lparr>sbi := trace\<rparr>)) = Inr k'"
    using assms a by (auto simp: putchar_buffer_def bindr_Inr_iff Let_def split: prod.splits)
  then have "sbi k' = trace" "requests trace = requests (sbi k1)"
    using SpinLock_sbi(2) requests_handle_new by (force simp: put_buffer_strip)+
  then show ?thesis using SpinLock_sbi(1) [OF a] by simp
qed

lemma requests_fputc: "fputc h ch (Some File_stdout) k = Inr (r, k') \<Longrightarrow> requests (sbi k') = requests (sbi k)"
  by (auto simp: fputc_def File_stdout_def bindr_Inr_iff split: prod.splits dest!: requests_putchar_buffer)

section \<open>Printing while booting\<close>

text \<open>Output that leaves the rest of the kernel and the other calls of the firmware alone.\<close>

definition prints_only :: "nat \<Rightarrow> kernel \<Rightarrow> kernel \<Rightarrow> bool" where
  "prints_only h k k' \<longleftrightarrow> quiet_io h k' \<and> output_frame k k' \<and> requests (sbi k') = requests (sbi k)"

lemma prints_only_trans: "prints_only h k k1 \<Longrightarrow> prints_only h k1 k2 \<Longrightarrow> prints_only h k k2"
  using output_frame_trans by (auto simp: prints_only_def)

interpretation boot_stream: output_stream "fputc h" "Some File_stdout" "prints_only h k0" "kernel_out h" for h k0
proof unfold_locales
  fix w ch
  assume w: "prints_only h k0 w"
  then obtain k' where *: "fputc h ch (Some File_stdout) w = Inr (ch, k')" "quiet_io h k'" "output_frame w k'"
      "kernel_out h k' = kernel_out h w @ [ucast ch]"
    using fputc_quiet [of h w ch] by (auto simp: prints_only_def)
  with w requests_fputc [OF *(1)] have "prints_only h k0 k'"
    using output_frame_trans by (auto simp: prints_only_def)
  with * show "\<exists>r w'. fputc h ch (Some File_stdout) w = Inr (r, w') \<and> prints_only h k0 w' \<and>
      kernel_out h w' = kernel_out h w @ [ucast ch]" by blast
qed

lemma kprintf_boot:
  assumes "quiet_io h k" and "fmt = format_string ds @ [0]" and "\<forall>d\<in>set ds. directive_ok d"
    and "format_text ds args = Some (text, args')"
  obtains n k' where "kprintf h fmt args k = Inr (n, k')" "prints_only h k k'"
    "kernel_out h k' = kernel_out h k @ map ucast text"
proof -
  have "prints_only h k k" using assms(1) by (simp add: prints_only_def)
  from boot_stream.printf_format [OF this assms(3,4), of "[]"] assms(2) that show ?thesis by auto
qed

text \<open>A line with at most one conversion.\<close>

definition plain :: "byte list \<Rightarrow> bool" where
  "plain bs \<longleftrightarrow> list_all (\<lambda>c. c \<noteq> 0 \<and> c \<noteq> 37) bs"

lemma format_lits:
  "plain bs \<Longrightarrow> \<forall>d\<in>set (map Lit bs). directive_ok d"
  "format_string (map Lit bs @ ds) = bs @ format_string ds"
  "format_text (map Lit bs @ ds) args = map_option (\<lambda>(t, r). (chars bs @ t, r)) (format_text ds args)"
proof -
  show "plain bs \<Longrightarrow> \<forall>d\<in>set (map Lit bs). directive_ok d" by (simp add: plain_def list_all_iff)
  show "format_string (map Lit bs @ ds) = bs @ format_string ds"
    by (induction bs) (simp_all add: format_string_def)
  show "format_text (map Lit bs @ ds) args = map_option (\<lambda>(t, r). (chars bs @ t, r)) (format_text ds args)"
    by (induction bs) (auto simp: option.map_comp option.map_ident split: option.splits)
qed

lemma length_bytes_of [simp]: "length (bytes_of s) = length s"
  by (simp add: bytes_of_def)

lemma literal_format: "plain bs \<Longrightarrow> format_string (map Lit bs) = bs" "plain bs \<Longrightarrow> \<forall>d\<in>set (map Lit bs). directive_ok d"
  "format_text (map Lit bs) args = Some (chars bs, args)"
  using format_lits(2) [of bs "[]"] format_lits(3) [of bs "[]" args] format_lits(1) [of bs]
  by (simp_all add: format_string_def)

lemma kprintf_literal:
  assumes "quiet_io h k" and "plain bs"
  shows "\<exists>k'. kprintf h (bs @ [0]) [] k = Inr (of_nat (length bs), k') \<and> prints_only h k k' \<and>
     kernel_out h k' = kernel_out h k @ bs"
proof -
  have "prints_only h k k" using assms(1) by (simp add: prints_only_def)
  from boot_stream.printf_format [OF this literal_format(2) [OF assms(2)] literal_format(3), of "[]"]
  show ?thesis by (simp add: literal_format(1) [OF assms(2)] map_ucast_chars)
qed

lemma kprintf_text:
  assumes "quiet_io h k" and "plain before" and "plain after" and "directive_ok d"
    and "format_text [d] args = Some (text, [])" and "fmt = before @ directive_string d @ after @ [0]"
  shows "\<exists>n k'. kprintf h fmt args k = Inr (n, k') \<and> prints_only h k k' \<and>
     kernel_out h k' = kernel_out h k @ before @ map ucast text @ after"
proof -
  let ?ds = "map Lit before @ d # map Lit after"
  have "fmt = format_string ?ds @ [0]"
    using format_lits(2) [of before "d # map Lit after"] format_lits(2) [of after "[]"] assms(6)
    by (simp add: format_string_def)
  moreover have "\<forall>x\<in>set ?ds. directive_ok x" using format_lits(1) assms(2,3,4) by auto
  moreover have "format_text ?ds args = Some (chars before @ text @ chars after, [])"
    using assms(5) format_lits(3) [of after "[]" "[]"] by (auto simp: format_lits(3) split: option.splits prod.splits)
  moreover have "map ucast (chars before @ text @ chars after) = before @ map ucast text @ after"
    by (simp only: map_append map_ucast_chars)
  ultimately show ?thesis using kprintf_boot [OF assms(1)] by metis
qed

lemma kprintf_line:
  assumes "quiet_io h k" and "plain before" and "plain after" and "directive_ok d"
    and "format_text [d] args = Some (text, [])" and "fmt = before @ directive_string d @ after @ [0]"
  shows "\<exists>n k'. kprintf h fmt args k = Inr (n, k') \<and> prints_only h k k'"
  using kprintf_text [OF assms] by blast

lemma kprintf_plain:
  assumes "quiet_io h k" and "plain bs" and "fmt = bs @ [0]"
  shows "\<exists>n k'. kprintf h fmt [] k = Inr (n, k') \<and> prints_only h k k'"
  using kprintf_literal [OF assms(1,2)] assms(3) by blast

lemma quiet_prints: "prints_only h k k' \<Longrightarrow> quiet_io h k'" by (simp add: prints_only_def)

text \<open>The conversions that the boot code uses, with the lines around them.\<close>

abbreviation simple :: "conv \<Rightarrow> directive" where
  "simple c \<equiv> Conv False False False NoWidth 0 c"

lemma simple_texts:
  "\<exists>t. format_text [simple ConvPtr] [VWord w] = Some (t, [])"
  "\<exists>t. format_text [simple ConvSigned] [VWord w] = Some (t, [])"
  "\<exists>t. format_text [simple ConvHex] [VWord w] = Some (t, [])"
  "0 \<in> set s \<Longrightarrow> length (takeWhile (\<lambda>b. b \<noteq> 0) s) < 2147483648 \<Longrightarrow>
     \<exists>t. format_text [simple ConvStr] [VStr s] = Some (t, [])"
  using text_bounds(2) [of "ucast w"] by (simp_all add: text_bounds(1,3))

lemma kprintf_conv:
  assumes "quiet_io h k" and "\<exists>t. format_text [simple c] args = Some (t, [])" and "plain before" and "plain after"
    and "fmt = before @ [37, conv_letter c] @ after @ [0]"
  shows "\<exists>n k'. kprintf h fmt args k = Inr (n, k') \<and> prints_only h k k'"
proof -
  from assms(2) obtain t where t: "format_text [simple c] args = Some (t, [])" by blast
  show ?thesis
    by (rule kprintf_line [OF assms(1,3,4) _ t]) (simp_all add: assms(5))
qed

lemmas plain_simps = plain_def bytes_of_def

lemma print_startup_ok:
  assumes "quiet_io h k" and "0 \<in> set compiler" and "length compiler < 2 ^ 31"
  shows "\<exists>k'. print_startup sy compiler hart_id primary h k = Inr k' \<and> prints_only h k k'"
proof -
  have len: "length (takeWhile (\<lambda>b. b \<noteq> 0) compiler) < 2147483648"
    using length_takeWhile_le [of "\<lambda>b. b \<noteq> 0" compiler] assms(3) by simp
  have "\<exists>n k1. kprintf h (bytes_of ''Hello kernel_main'' @ [10, 0]) [] k = Inr (n, k1) \<and> prints_only h k k1"
    by (rule kprintf_plain [OF assms(1), of "bytes_of ''Hello kernel_main'' @ [10]"]) (simp_all add: plain_simps)
  then obtain n1 k1 where k1: "kprintf h (bytes_of ''Hello kernel_main'' @ [10, 0]) [] k = Inr (n1, k1)" "prints_only h k k1"
    by blast
  have "\<exists>n k2. kprintf h (bytes_of ''sscratch:   %p'' @ [10, 0]) [VWord (csr_read sscratch h k1)] k1 = Inr (n, k2) \<and>
      prints_only h k1 k2"
    by (rule kprintf_conv [OF quiet_prints [OF k1(2)] simple_texts(1), of "bytes_of ''sscratch:   ''" "[10]"])
      (simp_all add: plain_simps)
  then obtain n2 k2 where k2: "kprintf h (bytes_of ''sscratch:   %p'' @ [10, 0]) [VWord (csr_read sscratch h k1)] k1 =
      Inr (n2, k2)" "prints_only h k1 k2" by blast
  have "\<exists>n k3. kprintf h (bytes_of ''a0 hartid:  %d'' @ [10, 0]) [VWord hart_id] k2 = Inr (n, k3) \<and> prints_only h k2 k3"
    by (rule kprintf_conv [OF quiet_prints [OF k2(2)] simple_texts(2), of "bytes_of ''a0 hartid:  ''" "[10]"])
      (simp_all add: plain_simps)
  then obtain n3 k3 where k3: "kprintf h (bytes_of ''a0 hartid:  %d'' @ [10, 0]) [VWord hart_id] k2 = Inr (n3, k3)"
      "prints_only h k2 k3" by blast
  have "\<exists>n k4. kprintf h (bytes_of ''my_hart_id: %d'' @ [10, 0]) [VWord (my_hart_id sy h k3)] k3 = Inr (n, k4) \<and>
      prints_only h k3 k4"
    by (rule kprintf_conv [OF quiet_prints [OF k3(2)] simple_texts(2), of "bytes_of ''my_hart_id: ''" "[10]"])
      (simp_all add: plain_simps)
  then obtain n4 k4 where k4: "kprintf h (bytes_of ''my_hart_id: %d'' @ [10, 0]) [VWord (my_hart_id sy h k3)] k3 =
      Inr (n4, k4)" "prints_only h k3 k4" by blast
  let ?type = "cstr (if primary then ''primary'' else ''secondary'')"
  have type: "0 \<in> set ?type" "length (takeWhile (\<lambda>b. b \<noteq> 0) ?type) < 2147483648"
    by (rule text_bounds(5)) (rule text_bounds(4), simp)
  have "\<exists>n k5. kprintf h (bytes_of ''main type:  %s'' @ [10, 0]) [VStr ?type] k4 = Inr (n, k5) \<and> prints_only h k4 k5"
    by (rule kprintf_conv [OF quiet_prints [OF k4(2)] simple_texts(4) [OF type], of "bytes_of ''main type:  ''" "[10]"])
      (simp_all add: plain_simps)
  then obtain n5 k5 where k5: "kprintf h (bytes_of ''main type:  %s'' @ [10, 0]) [VStr ?type] k4 = Inr (n5, k5)"
      "prints_only h k4 k5" by blast
  have "\<exists>n k6. (if primary then kprintf h (bytes_of ''(compiled with %s)'' @ [10, 0]) [VStr compiler] k5 else Inr (0, k5)) =
      Inr (n, k6) \<and> prints_only h k5 k6"
  proof (cases primary)
    case True
    have "\<exists>n k6. kprintf h (bytes_of ''(compiled with %s)'' @ [10, 0]) [VStr compiler] k5 = Inr (n, k6) \<and> prints_only h k5 k6"
      by (rule kprintf_conv [OF quiet_prints [OF k5(2)] simple_texts(4) [OF assms(2) len],
            of "bytes_of ''(compiled with ''" "bytes_of '')'' @ [10]"]) (simp_all add: plain_simps)
    then show ?thesis using True by simp
  qed (use k5(2) in \<open>simp add: prints_only_def\<close>)
  then obtain n6 k6 where k6: "(if primary then kprintf h (bytes_of ''(compiled with %s)'' @ [10, 0]) [VStr compiler] k5
      else Inr (0, k5)) = Inr (n6, k6)" "prints_only h k5 k6" by blast
  have "\<exists>n k7. kprintf h [10, 0] [] k6 = Inr (n, k7) \<and> prints_only h k6 k7"
    by (rule kprintf_plain [OF quiet_prints [OF k6(2)], of "[10]"]) (simp_all add: plain_simps)
  then obtain n7 k7 where k7: "kprintf h [10, 0] [] k6 = Inr (n7, k7)" "prints_only h k6 k7" by blast
  have "prints_only h k k7"
    using k1(2) k2(2) k3(2) k4(2) k5(2) k6(2) k7(2) by (meson prints_only_trans)
  then show ?thesis by (simp add: print_startup_def k1 k2 k3 k4 k5 k6 k7)
qed

section \<open>Starting the other harts\<close>

definition start_call :: "addr \<Rightarrow> addr \<Rightarrow> u64 \<Rightarrow> SbiCall" where
  "start_call boot_at headers hart = \<lparr>eid = 0x48534D, fid = 0, sbi_args = [hart, boot_at, headers, 0, 0, 0]\<rparr>"

text \<open>The harts from \<open>i\<close> to the board's last one, at most 9, but not \<open>own\<close>.\<close>

definition other_harts :: "u64 \<Rightarrow> u64 \<Rightarrow> u64 \<Rightarrow> u64 list" where
  "other_harts own highest i = filter (\<lambda>w. w \<noteq> own) (map of_nat [unat i..<min (unat highest) 9 + 1])"

lemma other_harts_step:
  assumes "i \<le> highest" and "i \<le> of_nat HART_MAXIMUM"
  shows "other_harts own highest i = (if i = own then [] else [i]) @ other_harts own highest (i + 1)"
proof -
  have "unat i \<le> unat highest" "unat i \<le> 9" "unat (i + 1) = unat i + 1"
    using assms next_hart [OF assms(2)] by (simp_all add: word_le_nat_alt)
  then have "[unat i..<min (unat highest) 9 + 1] = unat i # [unat (i + 1)..<min (unat highest) 9 + 1]"
    by (simp only: upt_conv_Cons) simp
  then show ?thesis by (simp only: other_harts_def list.map filter.simps) simp
qed

lemma other_harts_end:
  assumes "\<not> (i \<le> highest \<and> i \<le> of_nat HART_MAXIMUM)"
  shows "other_harts own highest i = []"
  using assms by (auto simp: other_harts_def word_le_nat_alt HART_MAXIMUM_def)

lemma kprintf_two_signed:
  assumes "quiet_io h k" and "plain before" and "plain mid" and "plain after"
    and "fmt = before @ [37, 100] @ mid @ [37, 100] @ after @ [0]"
  shows "\<exists>n k'. kprintf h fmt [VWord x, VWord y] k = Inr (n, k') \<and> prints_only h k k'"
proof -
  let ?d = "simple ConvSigned"
  let ?ds = "map Lit before @ ?d # map Lit mid @ ?d # map Lit after"
  have "fmt = format_string ?ds @ [0]"
    using format_lits(2) [of before "?d # map Lit mid @ ?d # map Lit after"]
      format_lits(2) [of mid "?d # map Lit after"] format_lits(2) [of after "[]"] assms(5)
    by (simp add: format_string_def)
  moreover have "\<forall>x\<in>set ?ds. directive_ok x" using format_lits(1) assms(2,3,4) by auto
  moreover have "\<exists>t. format_text ?ds [VWord x, VWord y] = Some (t, [])"
    using format_lits(3) [of after "[]" "[]"]
    by (auto simp: format_lits(3) text_bounds(3) split: option.splits prod.splits)
  ultimately show ?thesis using kprintf_boot [OF assms(1)] by metis
qed

lemma prints_call:
  assumes "prints_only h k k1"
  shows "quiet_io h (k1\<lparr>sbi := trace\<rparr>)" "output_frame k (k1\<lparr>sbi := trace\<rparr>)"
  using assms
  by (auto simp: prints_only_def quiet_io_def output_frame_def hart_ok_def traps_enabled_def my_hart_scratch_def
      buffers_ok_def csr_read_def)

text \<open>The body of the loop: the hart is asked for unless it is the own one.\<close>

definition wake_result :: "firmware \<Rightarrow> u64 \<Rightarrow> nat \<Rightarrow> kernel \<Rightarrow> error + kernel" where
  "wake_result fw w h k2 =
     (case fw w of (ret_error, ret_value) \<Rightarrow>
      if 0 \<noteq> ret_error
      then bindr (kprintf h (bytes_of ''hart_start return { error %d, value %d }'' @ [10, 0])
             [VWord ret_error, VWord ret_value] k2) (\<lambda>(n, k3). Inr k3)
      else Inr k2)"

lemma start_harts_step:
  "start_harts fw boot_at headers own highest i h k =
     (if i \<le> highest \<and> i \<le> of_nat HART_MAXIMUM
      then if i = own
           then bindr (kprintf h (bytes_of ''not starting own hart 0x%x'' @ [10, 0]) [VWord i] k) (\<lambda>(n, k1).
                start_harts fw boot_at headers own highest (i + 1) h k1)
           else bindr (kprintf h (bytes_of ''starting hart id 0x%x'' @ [10, 0]) [VWord i] k) (\<lambda>(n, k1).
                bindr (wake_result fw i h (k1\<lparr>sbi := sbi_hart_start i boot_at headers (sbi k1)\<rparr>)) (\<lambda>k4.
                start_harts fw boot_at headers own highest (i + 1) h k4))
      else Inr k)"
  by (subst start_harts.simps) (simp add: wake_result_def Let_def split_def)

lemma wake_result_ok:
  assumes "quiet_io h k"
  shows "\<exists>k'. wake_result fw w h k = Inr k' \<and> prints_only h k k'"
proof -
  obtain e v where fw: "fw w = (e, v)" by fastforce
  have "\<exists>n k'. kprintf h (bytes_of ''hart_start return { error %d, value %d }'' @ [10, 0]) [VWord e, VWord v] k =
      Inr (n, k') \<and> prints_only h k k'"
    by (rule kprintf_two_signed [OF assms, of "bytes_of ''hart_start return { error ''" "bytes_of '', value ''"
          "bytes_of '' }'' @ [10]"]) (simp_all add: plain_simps)
  then show ?thesis using assms fw by (auto simp: wake_result_def prints_only_def)
qed

lemma start_harts_ok:
  assumes "quiet_io h k"
  shows "\<exists>k'. start_harts fw boot_at headers own highest i h k = Inr k' \<and> quiet_io h k' \<and> output_frame k k' \<and>
     requests (sbi k') = requests (sbi k) @ map (start_call boot_at headers) (other_harts own highest i)"
  using assms
proof (induction "10 - unat i" arbitrary: i k rule: less_induct)
  case less
  show ?case
  proof (cases "i \<le> highest \<and> i \<le> of_nat HART_MAXIMUM")
    case False
    show ?thesis
      using less.prems other_harts_end [OF False] by (subst start_harts_step, simp only: if_not_P [OF False]) simp
  next
    case True
    note hart = other_harts_step [OF conjunct1 [OF True] conjunct2 [OF True], of own]
    have smaller: "10 - unat (i + 1) < 10 - unat i" using next_hart [OF conjunct2 [OF True]] by blast
    show ?thesis
    proof (cases "i = own")
      case own: True
      have "\<exists>n k1. kprintf h (bytes_of ''not starting own hart 0x%x'' @ [10, 0]) [VWord i] k = Inr (n, k1) \<and>
          prints_only h k k1"
        by (rule kprintf_conv [OF less.prems simple_texts(3), of "bytes_of ''not starting own hart 0x''" "[10]"])
          (simp_all add: plain_simps)
      then obtain n k1 where k1: "kprintf h (bytes_of ''not starting own hart 0x%x'' @ [10, 0]) [VWord i] k = Inr (n, k1)"
          "prints_only h k k1" by blast
      obtain k' where "start_harts fw boot_at headers own highest (i + 1) h k1 = Inr k'" "quiet_io h k'"
          "output_frame k1 k'"
          "requests (sbi k') = requests (sbi k1) @ map (start_call boot_at headers) (other_harts own highest (i + 1))"
        using less.hyps [OF smaller quiet_prints [OF k1(2)]] by blast
      then show ?thesis
        using k1 own True hart output_frame_trans [of k k1 k']
        by (subst start_harts_step, simp only: if_P [OF True] if_P [OF own]) (simp add: prints_only_def)
    next
      case other: False
      have "\<exists>n k1. kprintf h (bytes_of ''starting hart id 0x%x'' @ [10, 0]) [VWord i] k = Inr (n, k1) \<and>
          prints_only h k k1"
        by (rule kprintf_conv [OF less.prems simple_texts(3), of "bytes_of ''starting hart id 0x''" "[10]"])
          (simp_all add: plain_simps)
      then obtain n k1 where k1: "kprintf h (bytes_of ''starting hart id 0x%x'' @ [10, 0]) [VWord i] k = Inr (n, k1)"
          "prints_only h k k1" by blast
      let ?k2 = "k1\<lparr>sbi := sbi_hart_start i boot_at headers (sbi k1)\<rparr>"
      obtain k4 where k4: "wake_result fw i h ?k2 = Inr k4" "prints_only h ?k2 k4"
        using wake_result_ok [OF prints_call(1) [OF k1(2)]] by blast
      obtain k' where k': "start_harts fw boot_at headers own highest (i + 1) h k4 = Inr k'" "quiet_io h k'"
          "output_frame k4 k'"
          "requests (sbi k') = requests (sbi k4) @ map (start_call boot_at headers) (other_harts own highest (i + 1))"
        using less.hyps [OF smaller quiet_prints [OF k4(2)]] by blast
      have "output_frame k k'"
        using prints_call(2) [OF k1(2)] k4(2) k'(3) by (meson output_frame_trans prints_only_def)
      moreover have "requests (sbi k') = requests (sbi k) @ map (start_call boot_at headers) (other_harts own highest i)"
        using k'(4) k4(2) k1(2) other by (simp add: hart prints_only_def start_call_def)
      ultimately show ?thesis
        using k'(1,2) k1(1) k4(1) other
        by (subst start_harts_step, simp only: if_P [OF True] if_not_P [OF other]) simp
    qed
  qed
qed

section \<open>Stopping the machine\<close>

definition shutdown_call :: "u64 \<Rightarrow> SbiCall" where
  "shutdown_call type = \<lparr>eid = 0x53525354, fid = 0, sbi_args = [type, 0, 0, 0, 0, 0]\<rparr>"

definition exit_text :: "u32 \<Rightarrow> byte list" where
  "exit_text exit_code = bytes_of ''---EXITCODE '' @ signed_text (sint exit_code) @ bytes_of ''---'' @ [10, 10] @
     bytes_of ''---UNABLE TO SHUTDOWN---'' @ [10]"

text \<open>What is written to the test device, where the board has one.\<close>

definition exit_writes :: "Board \<Rightarrow> u32 \<Rightarrow> DeviceOp list" where
  "exit_writes board exit_code =
     (if sifive_test board = 0 then []
      else [WriteWord (sifive_test board)
              (if exit_code = 0 then SIFIVE_TEST_SUCCESS else push_bit 16 exit_code OR SIFIVE_TEST_FAILURE)])"

lemma ucast_scast_u32: "(ucast (scast (w :: u32) :: u64) :: u32) = w"
  by (rule bit_word_eqI) (auto simp: bit_ucast_iff bit_simps)

lemma console_shutdown [simp]: "console (sbi_shutdown x trace) = console trace"
  by (simp add: console_def console_char_def sbi_shutdown_def sbi_call_def)

lemma exit_device:
  "(if sifive_test board \<noteq> 0
    then bindr (sifive_test_exit board exit_code (mmio k)) (\<lambda>trace. Inr (k\<lparr>mmio := trace\<rparr>))
    else Inr k) = Inr (k\<lparr>mmio := mmio k @ exit_writes board exit_code\<rparr>)"
  by (simp add: sifive_test_exit_def board_check_valid_device_def exit_writes_def store_word_def Let_def)

lemma quiet_io_devices:
  "quiet_io h (k\<lparr>mmio := t\<rparr>) = quiet_io h k" "quiet_io h (k\<lparr>sbi := u\<rparr>) = quiet_io h k"
  by (auto simp: quiet_io_def hart_ok_def traps_enabled_def my_hart_scratch_def buffers_ok_def csr_read_def)

lemma kernel_out_quiet:
  assumes "quiet_io h k"
  shows "kernel_out h k = console (sbi k) @ pending (hart_buffer (my_hart_scratch h k))"
proof -
  have "h < length (hart_scratches k)" "selected h k = HartBuffer h"
    using assms selected_off by (auto simp: quiet_io_def hart_ok_def)
  then show ?thesis by (simp add: kernel_out_def get_buffer_def my_hart_scratch_def)
qed

lemma kernel_out_devices:
  assumes "quiet_io h k"
  shows "kernel_out h (k\<lparr>mmio := t\<rparr>) = kernel_out h k" "kernel_out h (k\<lparr>sbi := sbi_shutdown x (sbi k)\<rparr>) = kernel_out h k"
  using assms by (simp_all add: kernel_out_quiet quiet_io_devices my_hart_scratch_def)

lemma exit_ok:
  assumes "quiet_io h k"
  shows "\<exists>k'. exit board exit_code h k = Inr k' \<and>
     requests (sbi k') = requests (sbi k) @ [shutdown_call 0, shutdown_call 1] \<and>
     mmio k' = mmio k @ exit_writes board exit_code \<and> kernel_out h k' = kernel_out h k @ exit_text exit_code"
proof -
  let ?k1 = "k\<lparr>mmio := mmio k @ exit_writes board exit_code\<rparr>"
  have q1: "quiet_io h ?k1" using assms by (simp add: quiet_io_devices)
  have t: "format_text [simple ConvSigned] [VWord (scast exit_code)] = Some (chars (signed_text (sint exit_code)), [])"
    using text_bounds(3) [of exit_code] by (simp add: ucast_scast_u32 pad_def)
  obtain n k2 where k2: "kprintf h (bytes_of ''---EXITCODE %d---'' @ [10, 0]) [VWord (scast exit_code)] ?k1 = Inr (n, k2)"
      "prints_only h ?k1 k2"
      "kernel_out h k2 = kernel_out h k @ bytes_of ''---EXITCODE '' @ signed_text (sint exit_code) @ bytes_of ''---'' @ [10]"
    using kprintf_text [OF q1 _ _ _ t, of "bytes_of ''---EXITCODE ''" "bytes_of ''---'' @ [10]"
        "bytes_of ''---EXITCODE %d---'' @ [10, 0]"] kernel_out_devices(1) [OF assms]
    by (auto simp: plain_simps map_ucast_chars)
  let ?k3 = "k2\<lparr>sbi := sbi_shutdown 0x1 (sbi_shutdown 0x0 (sbi k2))\<rparr>"
  have q3: "quiet_io h ?k3" using quiet_prints [OF k2(2)] by (simp add: quiet_io_devices)
  have out3: "kernel_out h ?k3 = kernel_out h k2"
    using quiet_prints [OF k2(2)] kernel_out_quiet q3 by (simp add: my_hart_scratch_def)
  have len: "length (bytes_of ''---UNABLE TO SHUTDOWN---'') < 2147483648" by (simp add: bytes_of_def)
  have t4: "format_text [simple ConvStr] [VStr (cstr ''---UNABLE TO SHUTDOWN---'')] =
      Some (chars (bytes_of ''---UNABLE TO SHUTDOWN---''), [])"
    using len by (simp add: pad_def cstr_def bytes_of_def)
  obtain n k4 where k4: "kprintf h ([10] @ bytes_of ''%s'' @ [10, 0]) [VStr (cstr ''---UNABLE TO SHUTDOWN---'')] ?k3 = Inr (n, k4)"
      "prints_only h ?k3 k4"
      "kernel_out h k4 = kernel_out h k2 @ [10] @ bytes_of ''---UNABLE TO SHUTDOWN---'' @ [10]"
    using kprintf_text [OF q3 _ _ _ t4, of "[10]" "[10]" "[10] @ bytes_of ''%s'' @ [10, 0]"] out3
    by (auto simp: plain_simps map_ucast_chars)
  have "exit board exit_code h k = Inr k4" using k2(1) k4(1) by (simp add: exit_def exit_device Let_def)
  moreover have "requests (sbi k4) = requests (sbi k) @ [shutdown_call 0, shutdown_call 1]"
    using k2(2) k4(2) by (simp add: prints_only_def shutdown_call_def)
  moreover have "mmio k4 = mmio k @ exit_writes board exit_code"
    using k2(2) k4(2) by (simp add: prints_only_def output_frame_def)
  ultimately show ?thesis using k2(3) k4(3) by (simp add: exit_text_def)
qed

text \<open>The output that takes no lock asks for nothing else.\<close>

lemma requests_put_direct:
  "put_direct_str str trace = Inr t \<Longrightarrow> requests t = requests trace"
  "requests (put_direct_hex32 v trace) = requests trace"
  "put_direct_u32 v trace = Inr t \<Longrightarrow> requests t = requests trace"
proof -
  show "put_direct_str str trace = Inr t \<Longrightarrow> requests t = requests trace"
    by (induction str arbitrary: trace) (auto split: if_splits)
  have "requests (put_direct_hex32_loop v started n u) = requests u" for started n u
    by (induction n arbitrary: started u) (simp_all add: Let_def)
  then show "requests (put_direct_hex32 v trace) = requests trace" by (simp add: put_direct_hex32_def)
  have "put_direct_u32_loop val dv started u = Inr t \<Longrightarrow> requests t = requests u" for val dv started u
  proof (induction val dv started u rule: put_direct_u32_loop.induct)
    case (1 val dv started u)
    then show ?case
      by (subst (asm) (3) put_direct_u32_loop.simps) (auto simp: Let_def split: if_splits)
  qed
  then show "put_direct_u32 v trace = Inr t \<Longrightarrow> requests t = requests trace"
    by (auto simp: put_direct_u32_def split: if_splits)
qed

lemma put_direct_text:
  assumes "cstring str s"
  shows "\<exists>t. put_direct_str str trace = Inr t \<and> console t = console trace @ s \<and> requests t = requests trace"
  using put_direct_str_ok [OF assms, of trace] requests_put_direct(1) by blast

lemma put_direct_decimal:
  "\<exists>t. put_direct_u32 v trace = Inr t \<and> console t = console trace @ radix 10 (unat v) \<and> requests t = requests trace"
  using put_direct_numbers [of v trace] requests_put_direct(3) by blast

lemma put_direct_hexadecimal:
  "console (put_direct_hex32 v trace) = console trace @ bytes_of ''0x'' @ radix 16 (unat v)"
  using put_direct_numbers [of v trace] by blast

definition panic_text :: "u32 \<Rightarrow> byte list \<Rightarrow> u32 \<Rightarrow> byte list \<Rightarrow> byte list" where
  "panic_text hart file line func =
     bytes_of ''!!!'' @ [10] @ bytes_of ''Kernel panic on hart 0x'' @ radix 16 (unat hart) @ [10] @
     file @ bytes_of '':'' @ radix 10 (unat line) @ [10] @ bytes_of ''func '' @ func @ [10] @ bytes_of ''!!!'' @ [10]"

lemma literal_cstrings:
  "cstring (bytes_of ''!!!'' @ [10, 0]) (bytes_of ''!!!'' @ [10])"
  "cstring (cstr ''Kernel panic on hart '') (bytes_of ''Kernel panic on hart '')" "cstring [10, 0] [10]"
  "cstring (cstr '':'') (bytes_of '':'')" "cstring ([10] @ cstr ''func '') ([10] @ bytes_of ''func '')"
  "cstring ([10] @ bytes_of ''!!!'' @ [10, 0]) ([10] @ bytes_of ''!!!'' @ [10])"
  by (simp_all add: cstr_def bytes_of_def)

lemma panic_safe_prints:
  assumes "cstring file f" and "cstring func g"
  shows "\<exists>trace. panic_safe sy board file line func h k = panic_end board h ((panic_start h k)\<lparr>sbi := trace\<rparr>) \<and>
     console trace = console (sbi k) @ panic_text (ucast (my_hart_id sy h (panic_start h k))) f (ucast line) g \<and>
     requests trace = requests (sbi k)"
proof -
  let ?k1 = "panic_start h k"
  have same: "sbi ?k1 = sbi k" by (simp add: panic_start_def disable_traps_now_def csr_clear_mask_def)
  let ?hex = "put_direct_hex32 (ucast (my_hart_id sy h ?k1))"
  note texts = literal_cstrings [THEN put_direct_text] assms [THEN put_direct_text]
  obtain t1 where t1: "put_direct_str (bytes_of ''!!!'' @ [10, 0]) (sbi k) = Inr t1"
      "console t1 = console (sbi k) @ bytes_of ''!!!'' @ [10]" "requests t1 = requests (sbi k)"
    using texts(1) by blast
  obtain t2 where t2: "put_direct_str (cstr ''Kernel panic on hart '') t1 = Inr t2"
      "console t2 = console t1 @ bytes_of ''Kernel panic on hart ''" "requests t2 = requests t1"
    using texts(2) by blast
  obtain t3 where t3: "put_direct_str [10, 0] (?hex t2) = Inr t3"
      "console t3 = console (?hex t2) @ [10]" "requests t3 = requests (?hex t2)"
    using texts(3) by blast
  obtain t4 where t4: "put_direct_str file t3 = Inr t4" "console t4 = console t3 @ f" "requests t4 = requests t3"
    using texts(7) by blast
  obtain t5 where t5: "put_direct_str (cstr '':'') t4 = Inr t5" "console t5 = console t4 @ bytes_of '':''"
      "requests t5 = requests t4"
    using texts(4) by blast
  obtain t6 where t6: "put_direct_u32 (ucast line) t5 = Inr t6" "console t6 = console t5 @ radix 10 (unat (ucast line :: u32))"
      "requests t6 = requests t5"
    using put_direct_decimal by blast
  obtain t7 where t7: "put_direct_str ([10] @ cstr ''func '') t6 = Inr t7"
      "console t7 = console t6 @ [10] @ bytes_of ''func ''" "requests t7 = requests t6"
    using texts(5) by blast
  obtain t8 where t8: "put_direct_str func t7 = Inr t8" "console t8 = console t7 @ g" "requests t8 = requests t7"
    using texts(8) by blast
  obtain t9 where t9: "put_direct_str ([10] @ bytes_of ''!!!'' @ [10, 0]) t8 = Inr t9"
      "console t9 = console t8 @ [10] @ bytes_of ''!!!'' @ [10]" "requests t9 = requests t8"
    using texts(6) by blast
  have "panic_safe sy board file line func h k = panic_end board h (?k1\<lparr>sbi := t9\<rparr>)"
    by (simp only: panic_safe_def Let_def same t1(1) t2(1) t3(1) t4(1) t5(1) t6(1) t7(1) t8(1) t9(1) bindr_simps)
  moreover have "bytes_of ''Kernel panic on hart 0x'' = bytes_of ''Kernel panic on hart '' @ bytes_of ''0x''"
    by (simp add: bytes_of_def)
  then have "console t9 = console (sbi k) @ panic_text (ucast (my_hart_id sy h ?k1)) f (ucast line) g"
    by (simp only: t9(2) t8(2) t7(2) t6(2) t5(2) t4(2) t3(2) t2(2) t1(2) put_direct_hexadecimal panic_text_def append_assoc)
  moreover have "requests t9 = requests (sbi k)"
    by (simp only: t9(3) t8(3) t7(3) t6(3) t5(3) t4(3) t3(3) t2(3) t1(3) requests_put_direct(2))
  ultimately show ?thesis by blast
qed

lemma panic_start_fields:
  "sbi (panic_start h k) = sbi k" "locks (panic_start h k) = locks k" "mmio (panic_start h k) = mmio k"
  "my_hart_scratch h (panic_start h k) = my_hart_scratch h k"
  by (simp_all add: panic_start_def disable_traps_now_def csr_clear_mask_def my_hart_scratch_def)

text \<open>
  The panic that takes no lock puts its whole report on the console, before anything that is still
  held back in the buffer of the hart, then tells the test device, where there is one, that the run failed,
  and asks the firmware first for a shutdown and then for a reset; the exit line comes after the report.
\<close>

theorem panic_safe_reports:
  assumes "quiet_io h (panic_start h k)" and "cstring file f" and "cstring func g"
  shows "\<exists>k'. panic_safe sy board file line func h k = Inr k' \<and>
     requests (sbi k') = requests (sbi k) @ [shutdown_call 0, shutdown_call 1] \<and>
     mmio k' = mmio k @ exit_writes board 1 \<and>
     kernel_out h k' = console (sbi k) @ panic_text (ucast (my_hart_id sy h (panic_start h k))) f (ucast line) g @
       pending (hart_buffer (my_hart_scratch h k)) @ exit_text 1"
proof -
  obtain trace where t: "panic_safe sy board file line func h k = panic_end board h ((panic_start h k)\<lparr>sbi := trace\<rparr>)"
     "console trace = console (sbi k) @ panic_text (ucast (my_hart_id sy h (panic_start h k))) f (ucast line) g"
     "requests trace = requests (sbi k)"
    using panic_safe_prints [OF assms(2,3)] by blast
  let ?k1 = "(panic_start h k)\<lparr>sbi := trace\<rparr>"
  have q: "quiet_io h ?k1" using assms(1) by (simp add: quiet_io_devices)
  have "my_hart_scratch h ?k1 = my_hart_scratch h k" by (simp add: my_hart_scratch_def panic_start_fields [unfolded my_hart_scratch_def])
  then have "kernel_out h ?k1 = console trace @ pending (hart_buffer (my_hart_scratch h k))"
    using kernel_out_quiet [OF q] by simp
  then show ?thesis
    using exit_ok [OF q, of board 1] by (simp add: t panic_end_def panic_start_fields)
qed

lemma sample_panic: "quiet_io 0 (panic_start 0 (sample_kernel 1 []))"
  by (simp add: quiet_io_def hart_ok_def traps_enabled_def panic_start_def disable_traps_now_def csr_clear_mask_def
      my_hart_scratch_def buffers_ok_def Buffer_ok_def csr_read_def BIT_GET_def BIT_TO_INT_def SSTATUS_TRAPS_NOW_def)

lemma panic_safe_reports_witness:
  "\<exists>k'. panic_safe sample_symbols board_sifive_u (cstr ''a.c'') 7 (cstr ''f'') 0 (sample_kernel 1 []) = Inr k' \<and>
     requests (sbi k') = [shutdown_call 0, shutdown_call 1]"
proof -
  have "cstring (cstr ''a.c'') (bytes_of ''a.c'')" "cstring (cstr ''f'') (bytes_of ''f'')"
    by (simp_all add: cstr_def bytes_of_def)
  from panic_safe_reports [OF sample_panic this, of sample_symbols board_sifive_u 7] show ?thesis
    by (auto simp: requests_def)
qed

text \<open>A format that starts with text needs the output lock at once.\<close>

lemma kprintf_hangs:
  assumes "locked (locks k io_spinlock) \<noteq> 0" and "c \<noteq> 0" and "c \<noteq> 37"
  shows "kprintf h (c # fmt) args k = Inl Hangs"
proof -
  have "SpinLock_acquire io_spinlock h k = Inl Hangs"
    using assms(1) by (simp add: SpinLock_acquire_def my_hart_pre_lock_acquire_def disable_traps_now_def csr_clear_mask_def
        set_scratch_def Let_def split_def)
  then show ?thesis
    using assms(2,3)
    by (simp add: printf_def PrintTarget_do_print_def putchar_maybe_max_def NO_MAX_OUTPUT_def do_print_loop.simps(2)
        fputc_def File_stdout_def putchar_buffer_def)
qed

text \<open>
  On a board without the test device, a panic that needs no lock for its report still waits for ever
  if the output lock is taken, because \<open>exit\<close> prints before it asks for the shutdown: a hart that
  panics while it, or a hart that has stopped, is inside \<open>putchar_buffer\<close> never turns the machine off.
\<close>

theorem panic_safe_can_hang:
  assumes "sifive_test board = 0" and "locked (locks k io_spinlock) \<noteq> 0" and "cstring file f" and "cstring func g"
  shows "panic_safe sy board file line func h k = Inl Hangs"
proof -
  obtain trace where t: "panic_safe sy board file line func h k = panic_end board h ((panic_start h k)\<lparr>sbi := trace\<rparr>)"
    using panic_safe_prints [OF assms(3,4)] by blast
  have "kprintf h (45 # fmt) args ((panic_start h k)\<lparr>sbi := trace\<rparr>) = Inl Hangs" for fmt args
    by (rule kprintf_hangs) (simp_all add: panic_start_fields assms(2))
  then show ?thesis by (simp add: t panic_end_def exit_def assms(1) bytes_of_def)
qed

lemma panic_safe_can_hang_witness:
  "panic_safe sample_symbols board_sifive_u (cstr ''a.c'') 7 (cstr ''f'') 0 (entered io_spinlock 0 (sample_kernel 1 [])) = Inl Hangs"
  by (rule panic_safe_can_hang [of _ _ _ "bytes_of ''a.c''" _ "bytes_of ''f''"])
    (simp_all add: board_sifive_u_def entered_def Let_def cstr_def bytes_of_def)

section \<open>Who starts the others\<close>



end
