(* ===== verification/Boot_Spec.thy ===== *)
theory Boot_Spec
  imports Boot_Output Kernel_Space
begin

text \<open>
  What the boot code leaves behind: the array of processes, the free pages and the page tables after the example
  processes and the user programs have been created, in a state in which every hart can enter its first process.
\<close>

section \<open>Stores beside the page tables\<close>

lemma trees_ok_outside:
  assumes ok: "trees_ok m A roots" and p: "is_aligned p PAGE_SIZE"
    and no_table: "\<And>r q. r \<in> roots \<Longrightarrow> length q \<le> 2 \<Longrightarrow> table_at m r q \<noteq> Some p"
    and same: "\<And>x. page_of x \<noteq> page_of p \<Longrightarrow> m' x = m x"
  shows "trees_ok m' A roots" "r \<in> roots \<Longrightarrow> lookup m' r = lookup m r"
proof -
  have other: "m' (entry_at u n) = m (entry_at u n)" if "r \<in> roots" "length q \<le> 2" "table_at m r q = Some u" for r q u n
  proof -
    have "is_aligned u PAGE_SIZE" "u \<noteq> p" using trees_ok_aligned [OF ok that] no_table [OF that(1,2)] that(3) by auto
    then have "page_of (entry_at u n) \<noteq> page_of p" using p by (simp add: page_of_eq)
    then show ?thesis by (rule same)
  qed
  have tab: "table_at m' r q = table_at m r q" if "r \<in> roots" "length q \<le> 2" for r q
    using that(2)
  proof (induction q rule: rev_induct)
    case (snoc n q)
    then show ?case
      using other [OF that(1), of q _ n] by (cases "table_at m r q") (simp_all add: link_def)
  qed simp
  show "lookup m' r = lookup m r" if r: "r \<in> roots" for r
  proof (rule ext, clarify)
    fix n2 n1 n0
    show "lookup m' r (n2, n1, n0) = lookup m r (n2, n1, n0)"
      using tab [OF r, of "[n2, n1]"] other [OF r, of "[n2, n1]"]
      by (cases "table_at m r [n2, n1]") (simp_all add: lookup_def)
  qed
  show "trees_ok m' A roots"
    unfolding trees_ok_def
  proof (intro conjI ballI allI impI)
    fix q assume "q \<in> A" then show "page_ok q" by (rule trees_okD(1) [OF ok])
  next
    fix r q t assume "r \<in> roots" "length q \<le> 2" "table_at m' r q = Some t"
    then show "t \<in> A" using trees_okD(2) [OF ok] by (simp add: tab)
  next
    fix r r' q q' t
    assume "r \<in> roots" "r' \<in> roots" "length q \<le> 2" "length q' \<le> 2" "table_at m' r q = Some t" "table_at m' r' q' = Some t"
    then have "r = r' \<and> q = q'" using trees_okD(3) [OF ok, of r r' q q' t] by (simp add: tab)
    then show "r = r'" "q = q'" by simp_all
  next
    fix r q t n assume a: "r \<in> roots" "length q \<le> 1" "table_at m' r q = Some t"
    then have "table_at m r q = Some t" by (simp add: tab)
    then show "\<not> PageTableEntryFlags_is_leaf (entry_flags (m' (entry_at t n)))"
      using trees_okD(4) [OF ok a(1,2), of t n] other [OF a(1), of q t n] a(2) by simp
  qed
qed

text \<open>The bytes of the memory, and what a store of bytes changes.\<close>

definition load_byte :: "addr \<Rightarrow> (addr \<Rightarrow> u64) \<Rightarrow> byte" where
  "load_byte a m = ucast (drop_bit (8 * unat (a AND 7)) (m (a AND NOT 7)))"

lemma seven: "(7 :: u64) = mask 3"
  by (simp add: mask_eq_exp_minus_1)

lemma page_of_word: "page_of (a AND NOT 7) = page_of a"
  by (rule bit_word_eqI) (auto simp: page_of_def seven bit_simps dest: bit_imp_le_length)

lemma store_byte_other: "page_of x \<noteq> page_of a \<Longrightarrow> store_byte a b m x = m x"
  using page_of_word [of a] by (auto simp: store_byte_def Let_def)

lemma store_bytes_other:
  assumes "\<forall>j<length bs. page_of (a + of_nat j) = p" and "page_of x \<noteq> p"
  shows "store_bytes a bs m x = m x"
  using assms(1)
proof (induction bs arbitrary: a m)
  case (Cons b bs)
  have "page_of (a + 1 + of_nat j) = p" if "j < length bs" for j
    using Cons.prems [rule_format, of "Suc j"] that by (simp add: add.assoc)
  then have "store_bytes (a + 1) bs (store_byte a b m) x = store_byte a b m x" by (intro Cons.IH) blast
  moreover have "page_of a = p" using Cons.prems [rule_format, of 0] by simp
  ultimately show ?case using assms(2) by (simp add: store_byte_other)
qed simp

lemma store_SomeData_other:
  assumes "is_aligned p PAGE_SIZE" and "page_of x \<noteq> page_of p"
  shows "store_SomeData (p + PAGE_SIZE - sizeof_SomeData) m x = m x"
proof -
  have page: "page_of (p + PAGE_SIZE - sizeof_SomeData + of_nat j) = page_of p" if "j < 32" for j
  proof -
    have "4064 + of_nat j < (PAGE_SIZE :: u64)"
      using that by (simp add: PAGE_SIZE_def word_less_nat_alt unat_word_ariths unat_of_nat take_bit_nat_eq_self)
    from page_of_offset(1) [OF assms(1) this] show ?thesis by (simp add: PAGE_SIZE_def sizeof_SomeData_def algebra_simps)
  qed
  have "page_of (p + PAGE_SIZE - sizeof_SomeData + 8 + of_nat j) = page_of p" if "j < 4" for j
    using page [of "8 + j"] that by (simp add: add.assoc)
  moreover have "page_of (p + PAGE_SIZE - sizeof_SomeData + 12 + of_nat j) = page_of p" if "j < 16" for j
    using page [of "12 + j"] that by (simp add: add.assoc)
  ultimately show ?thesis
    using page assms(2) unfolding store_SomeData_def Let_def
    by (subst store_bytes_other [of _ _ "page_of p"], simp_all add: cstr_def bytes_of_def)+
qed

text \<open>Reading back: a byte that was stored is the last one stored at its address.\<close>

lemma same_word: "(x :: u64) AND NOT 7 = a AND NOT 7 \<Longrightarrow> x AND 7 = a AND 7 \<Longrightarrow> x = a"
proof -
  assume eq: "x AND NOT 7 = a AND NOT 7" "x AND 7 = a AND 7"
  have "w = (w AND NOT 7) OR (w AND 7)" for w :: u64 by (rule bit_word_eqI) (auto simp: bit_simps)
  then show "x = a" using eq by metis
qed

lemma low_bits: "unat ((x :: u64) AND 7) < 8"
  using and_mask_less' [of 3 x] by (simp add: seven word_less_nat_alt)

lemma load_store_byte: "load_byte x (store_byte a b m) = (if x = a then b else load_byte x m)"
proof (cases "x AND NOT 7 = a AND NOT 7")
  case True
  let ?i = "8 * unat (a AND 7)" and ?j = "8 * unat (x AND 7)"
  have mem: "store_byte a b m (x AND NOT 7) = (m (x AND NOT 7) AND NOT (push_bit ?i 0xFF)) OR push_bit ?i (ucast b)"
    using True by (simp add: store_byte_def Let_def)
  have ff: "(0xFF :: u64) = mask 8" by (simp add: mask_eq_exp_minus_1)
  show ?thesis
  proof (cases "x = a")
    case True
    then have "load_byte x (store_byte a b m) = b"
      using low_bits [of a] mem unfolding load_byte_def
      by (intro bit_word_eqI) (auto simp: bit_simps ff)
    then show ?thesis using True by simp
  next
    case False
    then have "x AND 7 \<noteq> a AND 7" using same_word [OF True] by blast
    then have "unat (x AND 7) \<noteq> unat (a AND 7)" by (simp add: word_unat_eq_iff)
    then have "load_byte x (store_byte a b m) = load_byte x m"
      unfolding load_byte_def mem
      by (intro bit_word_eqI) (auto simp: bit_simps ff dest: bit_imp_le_length)
    then show ?thesis using False by simp
  qed
next
  case False
  then have "x \<noteq> a" by auto
  then show ?thesis using False by (simp add: load_byte_def store_byte_def Let_def)
qed

lemma load_store_bytes_other:
  "\<forall>j<length bs. x \<noteq> a + of_nat j \<Longrightarrow> load_byte x (store_bytes a bs m) = load_byte x m"
proof (induction bs arbitrary: a m)
  case (Cons b bs)
  have "x \<noteq> a + 1 + of_nat j" if "j < length bs" for j
    using Cons.prems [rule_format, of "Suc j"] that by (simp add: add.assoc)
  moreover have "x \<noteq> a" using Cons.prems [rule_format, of 0] by simp
  ultimately show ?case using Cons.IH [of "a + 1"] by (simp add: load_store_byte)
qed simp

lemma of_nat_nonzero: "0 < n \<Longrightarrow> n < 2 ^ 64 \<Longrightarrow> (of_nat n :: u64) \<noteq> 0"
  by (simp add: word_unat_eq_iff unat_of_nat take_bit_nat_eq_self)

lemma load_store_bytes:
  "length bs < 2 ^ 64 \<Longrightarrow> j < length bs \<Longrightarrow> load_byte (a + of_nat j) (store_bytes a bs m) = bs ! j"
proof (induction bs arbitrary: a j m)
  case (Cons b bs)
  show ?case
  proof (cases j)
    case 0
    have "a \<noteq> a + 1 + of_nat i" if "i < length bs" for i
    proof -
      have "(of_nat (Suc i) :: u64) \<noteq> 0" by (rule of_nat_nonzero) (use that Cons.prems(1) in simp_all)
      then show ?thesis by (simp add: add.assoc)
    qed
    then show ?thesis using 0 load_store_bytes_other [of bs a "a + 1"] by (simp add: load_store_byte)
  next
    case (Suc i)
    then show ?thesis using Cons.IH [of i "a + 1"] Cons.prems by (simp add: add.assoc)
  qed
qed simp

lemma store_bytes_append:
  "store_bytes a (bs @ cs) m = store_bytes (a + of_nat (length bs)) cs (store_bytes a bs m)"
  by (induction bs arbitrary: a m) (simp_all add: add.assoc)

text \<open>The bytes of the struct without its padding.\<close>

definition SomeData_bytes :: "byte list" where
  "SomeData_bytes = map (byte_at (0xdeaddeaddeadbeef :: u64)) [0..<8] @ map (byte_at (0xfeedcafe :: u32)) [0..<4] @
     cstr ''abcdefghijklmno''"

lemma store_SomeData_bytes: "store_SomeData a m = store_bytes a SomeData_bytes m"
  by (simp add: store_SomeData_def SomeData_bytes_def store_bytes_append add.assoc Let_def)

lemma length_SomeData_bytes: "length SomeData_bytes = 28"
  by (simp add: SomeData_bytes_def cstr_def bytes_of_def)

section \<open>One more process\<close>

text \<open>What creating processes leaves alone.\<close>

definition boot_frame :: "kernel \<Rightarrow> kernel \<Rightarrow> bool" where
  "boot_frame k k' \<longleftrightarrow> csrs k' = csrs k \<and> sbi k' = sbi k \<and> kernel_table k' = kernel_table k \<and>
     map strip_hart (hart_scratches k') = map strip_hart (hart_scratches k)"

lemma create_keeps:
  assumes "Process_create ss args h k = Inr (p, k')"
  shows "map hart_buffer (hart_scratches k') = map hart_buffer (hart_scratches k)"
    "l \<noteq> processes_lock \<Longrightarrow> locks k' l = locks k l"
proof -
  have acq: "map hart_buffer (hart_scratches k2) = map hart_buffer (hart_scratches k1) \<and>
      (\<forall>l'. l' \<noteq> l0 \<longrightarrow> locks k2 l' = locks k1 l')" if "SpinLock_acquire l0 h k1 = Inr (e, k2)" for l0 k1 e k2
    using that
    by (auto simp: SpinLock_acquire_def my_hart_pre_lock_acquire_def disable_traps_now_def csr_clear_mask_def set_scratch_def
        my_hart_scratch_def map_list_update_same Let_def split: if_splits)
  have rel: "map hart_buffer (hart_scratches k2) = map hart_buffer (hart_scratches k1) \<and>
      (\<forall>l'. l' \<noteq> l0 \<longrightarrow> locks k2 l' = locks k1 l')" if "SpinLock_release l0 h k1 = Inr k2" for l0 k1 k2
    using that
    by (auto simp: SpinLock_release_def my_hart_post_lock_release_def enable_traps_now_def csr_set_mask_def set_scratch_def
        my_hart_scratch_def map_list_update_same Let_def split: if_splits)
  obtain e k1 where k1: "SpinLock_acquire processes_lock h k = Inr (e, k1)"
    using assms by (auto simp: Process_create_def bindr_Inr_iff)
  then obtain proc vm1 where "SpinLock_release processes_lock h (set_process p (proc\<lparr>proc_state := PROCESS_READY\<rparr>) (k1\<lparr>vm := vm1\<rparr>)) = Inr k'"
    using assms by (auto simp: Process_create_def bindr_Inr_iff Let_def split: option.splits prod.splits)
  from acq [OF k1] rel [OF this]
  show "map hart_buffer (hart_scratches k') = map hart_buffer (hart_scratches k)"
    "l \<noteq> processes_lock \<Longrightarrow> locks k' l = locks k l"
    by (simp_all add: set_process_def)
qed

definition entry_of :: "ProcessArguments \<Rightarrow> addr" where
  "entry_of args = (case args of UserProgram s \<Rightarrow> USER_PROGRAM_BASE | KernelProcess entry \<Rightarrow> entry)"

lemma setup_regs:
  assumes "Process_setup ss args i k = Inr (proc, vm1)"
  shows "frame_regs (proc_frame proc) a0 = 0" "frame_regs (proc_frame proc) ra = entry_of args"
  using assms
  by (cases args; auto simp: Process_setup_def bindr_Inr_iff entry_of_def Process_zero_def TrapFrame_zero_def Let_def
      split: prod.splits)+

lemma setup_pages:
  assumes "vm_ok ss (vm k) roots" and "args_ok ss args" and "Process_setup ss args i k = Inr (proc, vm1)"
  shows "pages_left ss (vm k) \<le> pages_left ss vm1 + create_pages ss args"
proof (cases args)
  case (UserProgram s)
  then show ?thesis
    using assms PageTable_user_init_pages [OF assms(1), of s USER_PROGRAM_BASE]
    by (auto simp: Process_setup_def bindr_Inr_iff Let_def args_ok_def create_pages_def split: prod.splits)
next
  case (KernelProcess entry)
  then show ?thesis
    using assms(3) Page_alloc_fresh(5) [OF assms(1)]
    by (auto simp: Process_setup_def bindr_Inr_iff Let_def create_pages_def split: prod.splits)
qed

text \<open>The address space of a process: the kernel's (\<open>None\<close>), or its own with what it maps.\<close>

type_synonym space = "9 word \<times> 9 word \<times> 9 word \<Rightarrow> (addr \<times> PageTableEntryFlags) option"

definition space_of :: "Sections \<Rightarrow> ProcessArguments \<Rightarrow> space option" where
  "space_of ss args = (case args of UserProgram s \<Rightarrow> Some (user_map ss s USER_PROGRAM_BASE) | KernelProcess entry \<Rightarrow> None)"

definition has_space :: "PageTable set \<Rightarrow> kernel \<Rightarrow> PageTable \<Rightarrow> space option \<Rightarrow> bool" where
  "has_space roots k table space = (let kt = kernel_page_table (kernel_table k) in
     case space of None \<Rightarrow> table = kt | Some M \<Rightarrow> table \<in> roots \<and> table \<noteq> kt \<and> lookup (mem (vm k)) table = M)"

lemma setup_space:
  assumes ok: "vm_ok ss (vm k) roots" and args: "args_ok ss args" and kt: "kernel_page_table (kernel_table k) \<in> roots"
    and su: "Process_setup ss args i k = Inr (proc, vm1)" and k': "vm k' = vm1" "kernel_table k' = kernel_table k"
  shows "\<exists>roots'. roots \<subseteq> roots' \<and> vm_ok ss vm1 roots' \<and> (\<forall>r\<in>roots. lookup (mem vm1) r = lookup (mem (vm k)) r) \<and>
     has_space roots' k' (proc_page_table proc) (space_of ss args)"
proof (cases args)
  case (UserProgram s)
  then have secs: "user_sections_ok ss s USER_PROGRAM_BASE" using args by (simp add: args_ok_def)
  obtain t where t: "PageTable_user_init ss s USER_PROGRAM_BASE (vm k) = Inr (t, vm1)" "proc_page_table proc = t"
    using su UserProgram by (auto simp: Process_setup_def bindr_Inr_iff Let_def split: prod.splits)
  show ?thesis
    using PageTable_user_init_ok [OF ok secs t(1)] UserProgram t(2) kt
    by (intro exI [of _ "insert t roots"]) (auto simp: space_of_def has_space_def Let_def k')
next
  case (KernelProcess entry)
  then obtain p where a: "Page_alloc ss (vm k) = Inr (p, vm1)" "proc_page_table proc = kernel_page_table (kernel_table k)"
    using su by (auto simp: Process_setup_def bindr_Inr_iff Let_def split: prod.splits)
  have "vm_ok ss vm1 roots" by (rule vm_ok_subset [OF vm_ok_alloc(1) [OF ok a(1)]]) auto
  then show ?thesis
    using vm_ok_alloc(3) [OF ok a(1)] kt KernelProcess a(2)
    by (intro exI [of _ roots]) (auto simp: space_of_def has_space_def k')
qed

text \<open>
  The state while processes are being created: the slots from 0 on hold the processes that start at the given
  addresses with the given arguments in the given address spaces, all others are unused, the kernel's address
  space is \<open>K\<close>, and a hart that enters the processes finds everything it needs.
\<close>

definition spaces_ok :: "Sections \<Rightarrow> space \<Rightarrow> space option list \<Rightarrow> PageTable set \<Rightarrow> kernel \<Rightarrow> bool" where
  "spaces_ok ss K spaces roots k \<longleftrightarrow> vm_ok ss (vm k) roots \<and> kernel_page_table (kernel_table k) \<in> roots \<and>
     lookup (mem (vm k)) (kernel_page_table (kernel_table k)) = K \<and>
     (\<forall>p<length spaces. has_space roots k (proc_page_table (processes k ! p)) (spaces ! p))"

definition started :: "Sections \<Rightarrow> space \<Rightarrow> (addr \<times> u64 \<times> space option) list \<Rightarrow> nat \<Rightarrow> kernel \<Rightarrow> bool" where
  "started ss K es h k \<longleftrightarrow> trap_ready h k \<and> length es \<le> 32 \<and> (\<exists>roots. spaces_ok ss K (map (snd \<circ> snd) es) roots k) \<and>
     (\<forall>p<32. if p < length es
        then proc_state (processes k ! p) = PROCESS_READY \<and> frame_regs (proc_frame (processes k ! p)) ra = fst (es ! p) \<and>
          frame_regs (proc_frame (processes k ! p)) a0 = fst (snd (es ! p))
        else proc_state (processes k ! p) = PROCESS_UNUSED)"

lemma has_space_cong: "vm k' = vm k \<Longrightarrow> kernel_table k' = kernel_table k \<Longrightarrow> has_space roots k' = has_space roots k"
  by (simp add: has_space_def fun_eq_iff split: option.split)

lemma has_space_keep:
  assumes "has_space roots k table space" and "roots \<subseteq> roots'" and "\<forall>r\<in>roots. lookup (mem (vm k')) r = lookup (mem (vm k)) r"
    and "kernel_table k' = kernel_table k"
  shows "has_space roots' k' table space"
  using assms by (auto simp: has_space_def Let_def split: option.splits)

lemma spaces_ok_append:
  assumes ok: "spaces_ok ss K spaces roots k" and sub: "roots \<subseteq> roots'" and vm': "vm_ok ss (vm k') roots'"
    and same: "\<forall>r\<in>roots. lookup (mem (vm k')) r = lookup (mem (vm k)) r" and kt: "kernel_table k' = kernel_table k"
    and old: "\<And>p. p < length spaces \<Longrightarrow> proc_page_table (processes k' ! p) = proc_page_table (processes k ! p)"
    and new: "has_space roots' k' (proc_page_table (processes k' ! length spaces)) new_space"
  shows "spaces_ok ss K (spaces @ [new_space]) roots' k'"
  using ok sub vm' same old new has_space_keep [OF _ sub same kt] unfolding spaces_ok_def kt
  by (auto simp: nth_append less_Suc_eq)

lemma trap_ready_created:
  assumes ready: "trap_ready h k" and run: "Process_create ss args h k = Inr (i, k')"
    and i: "i < 32" "proc_state (processes k ! i) = PROCESS_UNUSED"
    and proc: "processes k' = (processes k)[i := proc]" "proc_id proc = of_nat i" "proc_state proc = PROCESS_READY"
      "Buffer_ok (proc_buffer proc)"
    and k': "csrs k' = csrs k" "map strip_hart (hart_scratches k') = map strip_hart (hart_scratches k)"
      "locked (locks k' processes_lock) = 0"
  shows "trap_ready h k'"
proof -
  have ok: "sched_ok h k" using ready by (simp add: trap_ready_def)
  have "sched_ok h k'" using sched_ok_created [OF ok i proc(2,3,1) k'(2,1,3)] by blast
  moreover have "lock_depth (my_hart_scratch h k') = lock_depth (my_hart_scratch h k)"
  proof -
    have "h < length (hart_scratches k)" using ok by (simp add: sched_ok_def hart_ok_def)
    moreover have "length (hart_scratches k') = length (hart_scratches k)" using k'(2) by (rule map_eq_imp_length_eq)
    ultimately have "strip_hart (hart_scratches k' ! h) = strip_hart (hart_scratches k ! h)"
      using arg_cong [OF k'(2), of "\<lambda>l. l ! h"] by simp
    then show ?thesis by (simp add: strip_hart_def my_hart_scratch_def)
  qed
  moreover have "buffers_ok k'"
  proof -
    have "\<forall>b\<in>set (map hart_buffer (hart_scratches k')). Buffer_ok b"
      using ready unfolding create_keeps(1) [OF run] by (simp add: trap_ready_def buffers_ok_def)
    moreover have "Buffer_ok (proc_buffer q)" if "q \<in> set (processes k')" "proc_state q \<noteq> PROCESS_UNUSED" for q
      using that ready proc(4) set_update_subset_insert [of "processes k" i proc]
      by (auto simp: trap_ready_def buffers_ok_def proc(1))
    ultimately show ?thesis by (simp add: buffers_ok_def)
  qed
  ultimately show ?thesis
    using ready create_keeps(2) [OF run] by (simp add: trap_ready_def traps_enabled_def k'(1))
qed

lemma startedD:
  assumes "started ss K es h k"
  shows "trap_ready h k" "sched_ok h k" "length es \<le> 32" "\<exists>roots. spaces_ok ss K (map (snd \<circ> snd) es) roots k" "length (processes k) = 32"
    "p < length es \<Longrightarrow> proc_state (processes k ! p) = PROCESS_READY"
    "length es \<le> p \<Longrightarrow> p < 32 \<Longrightarrow> proc_state (processes k ! p) = PROCESS_UNUSED"
  using assms by (auto simp: started_def trap_ready_def sched_ok_def processes_ok_def maximum_32 split: if_splits)

lemma create_started:
  assumes st: "started ss K es h k" and args: "args_ok ss args"
  shows "(length es = 32 \<and> Process_create ss args h k = Inl (Panic ''no more available processes'')) \<or>
    (pages_left ss (vm k) < create_pages ss args \<and> Process_create ss args h k = Inl out_of_pages) \<or>
    (length es < 32 \<and> (\<exists>k' proc. Process_create ss args h k = Inr (length es, k') \<and>
       started ss K (es @ [(entry_of args, 0, space_of ss args)]) h k' \<and> Process_setup ss args (length es) k = Inr (proc, vm k') \<and>
       processes k' = (processes k)[length es := proc\<lparr>proc_state := PROCESS_READY\<rparr>] \<and> kernel_table k' = kernel_table k \<and>
       pages_left ss (vm k) \<le> pages_left ss (vm k') + create_pages ss args \<and> boot_frame k k'))"
proof -
  note D = startedD [OF st]
  obtain roots where sp: "spaces_ok ss K (map (snd \<circ> snd) es) roots k" using D(4) by blast
  then have vm: "vm_ok ss (vm k) roots" by (simp add: spaces_ok_def)
  let ?i = "length es"
  consider "\<forall>p<32. proc_state (processes k ! p) \<noteq> PROCESS_UNUSED"
        "Process_create ss args h k = Inl (Panic ''no more available processes'')"
    | i where "i < 32" "proc_state (processes k ! i) = PROCESS_UNUSED" "\<forall>q<i. proc_state (processes k ! q) \<noteq> PROCESS_UNUSED"
        "case Process_setup ss args i k of Inl e \<Rightarrow> Process_create ss args h k = Inl e
         | Inr (proc, vm1) \<Rightarrow> \<exists>k'. Process_create ss args h k = Inr (i, k') \<and> vm k' = vm1 \<and>
            processes k' = (processes k)[i := proc\<lparr>proc_state := PROCESS_READY\<rparr>] \<and>
            csrs k' = csrs k \<and> kernel_table k' = kernel_table k \<and> sbi k' = sbi k \<and>
            map strip_hart (hart_scratches k') = map strip_hart (hart_scratches k) \<and>
            locks k' = (locks k)(processes_lock := \<lparr>locked = 0, hart_owner = -1\<rparr>)"
    using Process_create_cases [OF D(2), of ss args] by blast
  then show ?thesis
  proof cases
    case 1
    then have "\<not> ?i < 32" using D(7) [of ?i] by auto
    then show ?thesis using 1(2) D(3) by simp
  next
    case (2 i)
    have i: "i = ?i"
    proof (rule linorder_cases [of i ?i])
      assume "i < ?i" then show ?thesis using D(6) 2(2) by simp
    next
      assume "?i < i" then show ?thesis using D(7) [of ?i] 2(1,3) by simp
    qed simp
    from Process_setup_ok [where i = i, OF vm args] show ?thesis
    proof
      assume "pages_left ss (vm k) < create_pages ss args \<and> Process_setup ss args i k = Inl out_of_pages"
      then show ?thesis using 2(4) by simp
    next
      assume "\<exists>proc vm1. Process_setup ss args i k = Inr (proc, vm1) \<and> proc_id proc = of_nat i \<and>
        fresh_process ss args roots k vm1 proc"
      then obtain proc vm1 where su: "Process_setup ss args i k = Inr (proc, vm1)" "proc_id proc = of_nat i"
          "fresh_process ss args roots k vm1 proc" by blast
      then obtain k' where k': "Process_create ss args h k = Inr (i, k')" "vm k' = vm1"
          "processes k' = (processes k)[i := proc\<lparr>proc_state := PROCESS_READY\<rparr>]" "csrs k' = csrs k" "sbi k' = sbi k"
          "kernel_table k' = kernel_table k" "map strip_hart (hart_scratches k') = map strip_hart (hart_scratches k)"
          "locks k' = (locks k)(processes_lock := \<lparr>locked = 0, hart_owner = -1\<rparr>)"
        using 2(4) by auto
      have "Buffer_ok (proc_buffer proc)" using su(3) by (simp add: fresh_process_def)
      then have ready: "trap_ready h k'"
        by (intro trap_ready_created [OF D(1) k'(1) 2(1,2) k'(3)]) (simp_all add: su k')
      obtain roots' where r': "roots \<subseteq> roots'" "vm_ok ss vm1 roots'" "\<forall>r\<in>roots. lookup (mem vm1) r = lookup (mem (vm k)) r"
          "has_space roots' k' (proc_page_table proc) (space_of ss args)"
        using setup_space [OF vm args _ su(1) k'(2,6)] sp by (auto simp: spaces_ok_def)
      have "spaces_ok ss K (map (snd \<circ> snd) es @ [space_of ss args]) roots' k'"
        by (rule spaces_ok_append [OF sp r'(1)]) (use r' k' i 2(1) D(5) in \<open>simp_all\<close>)
      then have "started ss K (es @ [(entry_of args, 0, space_of ss args)]) h k'"
        using st ready i 2(1) D(5) setup_regs [OF su(1)]
        by (auto simp: started_def k'(3) nth_append nth_list_update less_Suc_eq)
      then show ?thesis
        using setup_pages [OF vm args su(1)] k' su(1) 2(1) unfolding i boot_frame_def by blast
    qed
  qed
qed

section \<open>All example processes\<close>

text \<open>
  What a step that creates processes comes to: it runs out of pages, which takes fewer free pages than it costs, or
  the processes are there and it has used no more than that.
\<close>

definition outcome :: "Sections \<Rightarrow> space \<Rightarrow> nat \<Rightarrow> (addr \<times> u64 \<times> space option) list \<Rightarrow> nat \<Rightarrow> kernel \<Rightarrow> error + kernel \<Rightarrow> bool" where
  "outcome ss K cost es h k r \<longleftrightarrow>
     (r = Inl out_of_pages \<and> pages_left ss (vm k) < cost) \<or>
     (\<exists>k'. r = Inr k' \<and> started ss K es h k' \<and> boot_frame k k' \<and>
        pages_left ss (vm k) \<le> pages_left ss (vm k') + cost)"

lemma outcome_refl: "started ss K es h k \<Longrightarrow> outcome ss K 0 es h k (Inr k)"
  by (simp add: outcome_def boot_frame_def)

lemma outcome_after:
  "outcome ss K c es h k (Inr k1) \<Longrightarrow> outcome ss K c' es' h k1 r \<Longrightarrow> outcome ss K (c + c') es' h k r"
  by (auto simp: outcome_def boot_frame_def)

lemma outcome_bind:
  assumes "outcome ss K c es h k r" and "\<And>k1. started ss K es h k1 \<Longrightarrow> outcome ss K c' es' h k1 (f k1)"
  shows "outcome ss K (c + c') es' h k (bindr r f)"
  using assms(1) unfolding outcome_def [of ss K c]
proof
  assume "r = Inl out_of_pages \<and> pages_left ss (vm k) < c"
  then show ?thesis by (simp add: outcome_def)
next
  assume "\<exists>k'. r = Inr k' \<and> started ss K es h k' \<and> boot_frame k k' \<and>
    pages_left ss (vm k) \<le> pages_left ss (vm k') + c"
  then obtain k1 where k1: "r = Inr k1" "started ss K es h k1" "boot_frame k k1"
      "pages_left ss (vm k) \<le> pages_left ss (vm k1) + c" by blast
  have "outcome ss K c es h k (Inr k1)" using assms(1) k1(1) by simp
  from outcome_after [OF this assms(2) [OF k1(2)]] show ?thesis using k1(1) by simp
qed

lemma outcome_create:
  assumes "started ss K es h k" and "args_ok ss args" and "length es < 32"
    and "\<And>p k1 proc. Process_create ss args h k = Inr (length es, k1) \<Longrightarrow> started ss K (es @ [(entry_of args, 0, space_of ss args)]) h k1 \<Longrightarrow>
       Process_setup ss args (length es) k = Inr (proc, vm k1) \<Longrightarrow>
       processes k1 = (processes k)[length es := proc\<lparr>proc_state := PROCESS_READY\<rparr>] \<Longrightarrow> kernel_table k1 = kernel_table k \<Longrightarrow>
       outcome ss K 0 es' h k1 (f (length es, k1))"
  shows "outcome ss K (create_pages ss args) es' h k (bindr (Process_create ss args h k) f)"
proof -
  from create_started [OF assms(1,2)] assms(3) consider
      "pages_left ss (vm k) < create_pages ss args" "Process_create ss args h k = Inl out_of_pages"
    | k1 proc where "Process_create ss args h k = Inr (length es, k1)" "started ss K (es @ [(entry_of args, 0, space_of ss args)]) h k1"
       "Process_setup ss args (length es) k = Inr (proc, vm k1)" "processes k1 = (processes k)[length es := proc\<lparr>proc_state := PROCESS_READY\<rparr>]" "kernel_table k1 = kernel_table k"
       "pages_left ss (vm k) \<le> pages_left ss (vm k1) + create_pages ss args" "boot_frame k k1"
    by auto
  then show ?thesis
  proof cases
    case 1
    then show ?thesis by (simp add: outcome_def)
  next
    case (2 k1 proc)
    from assms(4) [OF 2(1-5)] show ?thesis using 2(1,2,6,7) by (auto simp: outcome_def boot_frame_def)
  qed
qed

text \<open>Changing the saved registers of the newest process.\<close>

lemma started_edit:
  assumes st: "started ss K (es @ [e]) h k"
    and regs: "frame_regs (f (proc_frame (processes k ! length es))) ra = fst e'"
      "frame_regs (f (proc_frame (processes k ! length es))) a0 = fst (snd e')" "snd (snd e') = snd (snd e)"
  shows "outcome ss K 0 (es @ [e']) h k (edit_frame (length es) f k)"
proof -
  note D = startedD [OF st]
  let ?p = "length es" and ?proc = "processes k ! length es"
  let ?k' = "set_process ?p (?proc\<lparr>proc_frame := f (proc_frame ?proc)\<rparr>) k"
  have p: "?p < length (processes k)" "?p < 32" using D(3,5) by simp_all
  have run: "edit_frame ?p f k = Inr ?k'" using p by (simp add: edit_frame_def deref_def)
  have ps: "processes ?k' = (processes k)[?p := ?proc\<lparr>proc_frame := f (proc_frame ?proc)\<rparr>]" by (simp add: set_process_def)
  have same: "sched_of ?k' = sched_of k" "processes_ok ?k'" "buffers_ok ?k' = buffers_ok k"
  proof -
    show "sched_of ?k' = sched_of k"
      by (rule sched_of_cong) (simp_all add: set_process_def map_list_update_same)
    show "processes_ok ?k'"
      by (rule processes_ok_update [OF _ p(2) _ refl ps])
        (use D(2) D(6) [of ?p] p in \<open>simp_all add: sched_ok_def processes_ok_def maximum_32\<close>)
    show "buffers_ok ?k' = buffers_ok k"
      by (rule buffers_ok_cong) (simp_all add: set_process_def map_list_update_same buffer_state_def)
  qed
  then have ready: "trap_ready h ?k'"
    using D(1) by (simp add: trap_ready_def sched_ok_def hart_ok_def traps_enabled_def) (simp add: set_process_def my_hart_scratch_def)
  have same_space: "map (snd \<circ> snd) (es @ [e']) = map (snd \<circ> snd) (es @ [e])" using regs(3) by simp
  obtain roots where sp: "spaces_ok ss K (map (snd \<circ> snd) (es @ [e'])) roots k" using D(4) unfolding same_space by blast
  have "proc_page_table (processes ?k' ! q) = proc_page_table (processes k ! q)" for q
    using p(1) by (cases "q = ?p") (simp_all add: ps)
  moreover have "vm ?k' = vm k" "kernel_table ?k' = kernel_table k" by (simp_all add: set_process_def)
  ultimately have "spaces_ok ss K (map (snd \<circ> snd) (es @ [e'])) roots ?k'"
    using sp has_space_cong [of ?k' k] unfolding spaces_ok_def by simp
  then have "started ss K (es @ [e']) h ?k'"
    using st p regs ready unfolding started_def ps
    by (auto simp: nth_append nth_list_update)
  then show ?thesis by (simp add: outcome_def run boot_frame_def) (simp add: set_process_def)
qed

text \<open>A process that runs in the kernel's address space.\<close>

abbreviation kernel_process :: "addr \<Rightarrow> u64 \<Rightarrow> addr \<times> u64 \<times> space option" where
  "kernel_process entry arg \<equiv> (entry, arg, None)"

lemma kernel_args:
  "create_pages ss (KernelProcess entry) = 1" "args_ok ss (KernelProcess entry)" "entry_of (KernelProcess entry) = entry"
  "space_of ss (KernelProcess entry) = None"
  by (simp_all add: create_pages_def args_ok_def entry_of_def space_of_def)

lemma start_load_a0_ok:
  assumes "started ss K es h k" and "i \<le> 10" and "length es + (10 - i) \<le> 32"
  shows "outcome ss K (10 - i) (es @ map (\<lambda>j. kernel_process (process_load_a0 entries) (of_nat j)) [i..<10]) h k
     (start_load_a0 ss entries i h k)"
  using assms
proof (induction "10 - i" arbitrary: i es k)
  case 0
  then show ?case by (subst start_load_a0.simps) (simp add: outcome_refl)
next
  case (Suc n)
  let ?args = "KernelProcess (process_load_a0 entries)" and ?e = "kernel_process (process_load_a0 entries) (of_nat i)"
  have i: "i < 10" "n = 10 - Suc i" using Suc by simp_all
  have "outcome ss K 1 (es @ [?e]) h k
      (bindr (Process_create ss ?args h k) (\<lambda>(p, k1). edit_frame p (set_reg a0 (of_nat i)) k1))"
    unfolding kernel_args(1) [of ss "process_load_a0 entries", symmetric]
  proof (rule outcome_create [OF Suc.prems(1) kernel_args(2)])
    fix k1 proc
    assume st: "started ss K (es @ [(entry_of ?args, 0, space_of ss ?args)]) h k1"
    have "frame_regs (proc_frame (processes k1 ! length es)) ra = process_load_a0 entries"
      using st Suc.prems(3) i by (auto simp: started_def kernel_args nth_append)
    then have "outcome ss K 0 (es @ [?e]) h k1 (edit_frame (length es) (set_reg a0 (of_nat i)) k1)"
      by (intro started_edit [OF st]) (simp_all add: kernel_args)
    then show "outcome ss K 0 (es @ [?e]) h k1 (case (length es, k1) of (p, k1) \<Rightarrow> edit_frame p (set_reg a0 (of_nat i)) k1)"
      by simp
  qed (use Suc.prems(3) i in simp)
  moreover have "outcome ss K (10 - Suc i) ((es @ [?e]) @
      map (\<lambda>j. kernel_process (process_load_a0 entries) (of_nat j)) [Suc i..<10]) h k1 (start_load_a0 ss entries (Suc i) h k1)"
    if "started ss K (es @ [?e]) h k1" for k1
    using that Suc.prems i by (intro Suc.hyps(1)) simp_all
  ultimately have "outcome ss K (1 + (10 - Suc i)) ((es @ [?e]) @
      map (\<lambda>j. kernel_process (process_load_a0 entries) (of_nat j)) [Suc i..<10]) h k
      (bindr (bindr (Process_create ss ?args h k) (\<lambda>(p, k1). edit_frame p (set_reg a0 (of_nat i)) k1))
        (start_load_a0 ss entries (Suc i) h))"
    by (rule outcome_bind)
  moreover have "1 + (10 - Suc i) = 10 - i" using i by simp
  ultimately show ?case
    using i by (subst start_load_a0.simps) (simp add: bindr_assoc upt_conv_Cons split_def)
qed

text \<open>The stack page of a new kernel process is none of the page tables.\<close>

lemma stack_page:
  assumes ok: "vm_ok ss (vm k) roots" and su: "Process_setup ss (KernelProcess entry) i k = Inr (proc, vm1)"
  obtains p where "is_aligned p PAGE_SIZE" "frame_regs (proc_frame proc) sp = p + PAGE_SIZE" "vm_ok ss vm1 roots"
    "\<forall>r\<in>roots. lookup (mem vm1) r = lookup (mem (vm k)) r" "\<And>r q. r \<in> roots \<Longrightarrow> length q \<le> 2 \<Longrightarrow> table_at (mem vm1) r q \<noteq> Some p"
proof -
  obtain p where a: "Page_alloc ss (vm k) = Inr (p, vm1)" "frame_regs (proc_frame proc) sp = p + PAGE_SIZE"
    using su by (auto simp: Process_setup_def bindr_Inr_iff Let_def split: prod.splits)
  note fresh = Page_alloc_fresh [OF ok a(1)]
  have trees: "trees_ok (mem (vm k)) (allocated ss (vm k)) roots" using ok by (simp add: vm_ok_def)
  have "table_at (mem vm1) r q \<noteq> Some p" if "r \<in> roots" "length q \<le> 2" for r q
    using wipe_fresh(1) [OF trees fresh(1,2) that] trees_okD(2) [OF trees that] fresh(2,3) by auto
  moreover have "vm_ok ss vm1 roots" by (rule vm_ok_subset [OF vm_ok_alloc(1) [OF ok a(1)]]) auto
  moreover have "is_aligned p PAGE_SIZE" using fresh(1) by (simp add: page_ok_def)
  moreover have "\<forall>r\<in>roots. lookup (mem vm1) r = lookup (mem (vm k)) r" using vm_ok_alloc(3) [OF ok a(1)] by blast
  ultimately show ?thesis using that [OF _ a(2)] by blast
qed

lemma started_store:
  assumes st: "started ss K es h k" and sp: "spaces_ok ss K (map (snd \<circ> snd) es) roots k" and p: "is_aligned p PAGE_SIZE"
    and no_table: "\<And>r q. r \<in> roots \<Longrightarrow> length q \<le> 2 \<Longrightarrow> table_at (mem (vm k)) r q \<noteq> Some p"
    and same: "\<And>x. page_of x \<noteq> page_of p \<Longrightarrow> m x = mem (vm k) x"
  shows "outcome ss K 0 es h k (Inr (k\<lparr>vm := (vm k)\<lparr>mem := m\<rparr>\<rparr>))"
proof -
  let ?v = "(vm k)\<lparr>mem := m\<rparr>"
  have pages: "next_free_page ss ?v = next_free_page ss (vm k)" "allocated ss ?v = allocated ss (vm k)"
      "pages_left ss ?v = pages_left ss (vm k)"
    by (simp_all add: next_free_page_def allocated_def pages_left_def)
  have trees: "trees_ok (mem (vm k)) (allocated ss (vm k)) roots" using sp by (simp add: spaces_ok_def vm_ok_def)
  note out = trees_ok_outside [OF trees p no_table same]
  have "vm_ok ss ?v roots" using sp out(1) by (simp add: vm_ok_def pages spaces_ok_def)
  moreover have "has_space roots (k\<lparr>vm := ?v\<rparr>) t s" if "has_space roots k t s" for t s
    by (rule has_space_keep [OF that subset_refl]) (use out(2) in simp_all)
  ultimately have "spaces_ok ss K (map (snd \<circ> snd) es) roots (k\<lparr>vm := ?v\<rparr>)"
    using sp out(2) by (simp add: spaces_ok_def)
  moreover have "sched_of (k\<lparr>vm := ?v\<rparr>) = sched_of k" by (rule sched_of_cong) simp_all
  then have "trap_ready h (k\<lparr>vm := ?v\<rparr>)"
    using startedD(1) [OF st]
    by (simp add: trap_ready_def sched_ok_def hart_ok_def processes_ok_def traps_enabled_def my_hart_scratch_def buffers_ok_def)
  ultimately show ?thesis using st pages by (auto simp: outcome_def started_def boot_frame_def)
qed

lemma start_load_from_stack_ok:
  assumes st: "started ss K es h k" and "length es < 32"
  shows "\<exists>a. outcome ss K 1 (es @ [kernel_process (process_load_from_stack entries) a]) h k (start_load_from_stack ss entries h k)"
proof -
  let ?args = "KernelProcess (process_load_from_stack entries)"
  obtain roots where sp: "spaces_ok ss K (map (snd \<circ> snd) es) roots k" using startedD(4) [OF st] by blast
  then have vm: "vm_ok ss (vm k) roots" and kt: "kernel_page_table (kernel_table k) \<in> roots" by (simp_all add: spaces_ok_def)
  define a where "a = (case Process_create ss ?args h k of Inl e \<Rightarrow> 0
     | Inr (p, k1) \<Rightarrow> frame_regs (proc_frame (processes k1 ! p)) sp - sizeof_SomeData)"
  let ?e = "kernel_process (process_load_from_stack entries) a"
  have "outcome ss K (create_pages ss ?args) (es @ [?e]) h k (start_load_from_stack ss entries h k)"
    unfolding start_load_from_stack_def
  proof (rule outcome_create [OF st kernel_args(2) assms(2)])
    fix p k1 proc
    assume c: "Process_create ss ?args h k = Inr (length es, k1)" "started ss K (es @ [(entry_of ?args, 0, space_of ss ?args)]) h k1"
      "Process_setup ss ?args (length es) k = Inr (proc, vm k1)"
      "processes k1 = (processes k)[length es := proc\<lparr>proc_state := PROCESS_READY\<rparr>]" "kernel_table k1 = kernel_table k"
    have p: "length es < length (processes k)" using startedD(5) [OF st] assms(2) by simp
    have frame: "proc_frame (processes k1 ! length es) = proc_frame proc"
        "proc_page_table (processes k1 ! length es) = kernel_page_table (kernel_table k)"
      using p c(3) by (auto simp: c(4) Process_setup_def bindr_Inr_iff Let_def split: prod.splits)
    obtain pg where pg: "is_aligned pg PAGE_SIZE" "frame_regs (proc_frame proc) sp = pg + PAGE_SIZE"
        "vm_ok ss (vm k1) roots" "\<And>r q. r \<in> roots \<Longrightarrow> length q \<le> 2 \<Longrightarrow> table_at (mem (vm k1)) r q \<noteq> Some pg"
        "\<forall>r\<in>roots. lookup (mem (vm k1)) r = lookup (mem (vm k)) r"
      using stack_page [OF vm c(3)] by metis
    have "spaces_ok ss K (map (snd \<circ> snd) es @ [None]) roots k1"
      by (rule spaces_ok_append [OF sp subset_refl pg(3,5) c(5)])
        (use p sp pg(5) kt frame in \<open>simp_all add: c(4) spaces_ok_def has_space_def c(5)\<close>)
    then have sp1: "spaces_ok ss K (map (snd \<circ> snd) (es @ [(entry_of ?args, 0, space_of ss ?args)])) roots k1"
      by (simp add: kernel_args)
    have a: "a = pg + PAGE_SIZE - sizeof_SomeData" by (simp add: a_def c(1) frame pg(2))
    let ?k2 = "k1\<lparr>vm := (vm k1)\<lparr>mem := store_SomeData a (mem (vm k1))\<rparr>\<rparr>"
    have out2: "outcome ss K 0 (es @ [(entry_of ?args, 0, space_of ss ?args)]) h k1 (Inr ?k2)"
      by (rule started_store [OF c(2) sp1 pg(1,4)]) (simp_all add: a store_SomeData_other [OF pg(1)])
    have edit: "outcome ss K 0 (es @ [?e]) h k2 (edit_frame (length es) (\<lambda>f. set_reg a0 a (set_reg sp a f)) k2)"
      if "started ss K (es @ [(entry_of ?args, 0, space_of ss ?args)]) h k2" for k2
    proof (rule started_edit [OF that])
      show "frame_regs (set_reg a0 a (set_reg sp a (proc_frame (processes k2 ! length es)))) ra = fst ?e"
        using that assms(2) by (auto simp: started_def kernel_args nth_append)
    qed (simp_all add: kernel_args)
    have "deref (processes k1) (length es) = Inr (processes k1 ! length es)"
      using startedD(5) [OF c(2)] assms(2) by (simp add: deref_def)
    then show "outcome ss K 0 (es @ [?e]) h k1
       (case (length es, k1) of (p, k1) \<Rightarrow> bindr (deref (processes k1) p) (\<lambda>proc.
          let stack_data = frame_regs (proc_frame proc) sp - sizeof_SomeData;
              k2 = k1\<lparr>vm := (vm k1)\<lparr>mem := store_SomeData stack_data (mem (vm k1))\<rparr>\<rparr>
          in edit_frame p (\<lambda>f. set_reg a0 stack_data (set_reg sp stack_data f)) k2))"
      using outcome_bind [OF out2 edit] by (simp add: frame pg(2) a Let_def)
  qed
  then show ?thesis unfolding kernel_args(1) by blast
qed

lemma start_all_ok:
  assumes "started ss K es h k" and "\<forall>args\<in>set argss. args_ok ss args" and "length es + length argss \<le> 32"
  shows "outcome ss K (\<Sum>args\<leftarrow>argss. create_pages ss args) (es @ map (\<lambda>args. (entry_of args, 0, space_of ss args)) argss) h k (start_all ss argss h k)"
  using assms
proof (induction argss arbitrary: es k)
  case Nil
  then show ?case by (simp add: outcome_refl)
next
  case (Cons args argss)
  have first: "outcome ss K (create_pages ss args) (es @ [(entry_of args, 0, space_of ss args)]) h k
      (bindr (Process_create ss args h k) (\<lambda>(p, k1). Inr k1))"
  proof (rule outcome_create [OF Cons.prems(1)])
    show "args_ok ss args" "length es < 32" using Cons.prems(2,3) by auto
  qed (auto intro: outcome_refl)
  have rest: "outcome ss K (\<Sum>args\<leftarrow>argss. create_pages ss args)
      ((es @ [(entry_of args, 0, space_of ss args)]) @ map (\<lambda>args. (entry_of args, 0, space_of ss args)) argss) h k1 (start_all ss argss h k1)"
    if "started ss K (es @ [(entry_of args, 0, space_of ss args)]) h k1" for k1
    using Cons.prems by (intro Cons.IH [OF that]) auto
  show ?case using outcome_bind [OF first rest] by (simp add: bindr_assoc split_def)
qed

lemma start_all_full:
  assumes "started ss K es h k" and "\<forall>args\<in>set argss. args_ok ss args" and "32 < length es + length argss"
  shows "start_all ss argss h k \<in> {Inl out_of_pages, Inl (Panic ''no more available processes'')}"
  using assms
proof (induction argss arbitrary: es k)
  case Nil
  then show ?case using startedD(3) by fastforce
next
  case (Cons args argss)
  from create_started [OF Cons.prems(1), of args] Cons.prems(2) consider
      "Process_create ss args h k = Inl (Panic ''no more available processes'')"
    | "Process_create ss args h k = Inl out_of_pages"
    | k1 where "Process_create ss args h k = Inr (length es, k1)" "started ss K (es @ [(entry_of args, 0, space_of ss args)]) h k1"
    by auto
  then show ?case
    using Cons.IH [of "es @ [(entry_of args, 0, space_of ss args)]"] Cons.prems by cases (auto simp del: insert_iff)
qed

text \<open>
  The processes after the boot, in the order of their slots: entry, first argument and address space.  \<open>a\<close> is the
  address of the data on the stack of the eleventh process.
\<close>

definition boot_table ::
    "Sections \<Rightarrow> ExampleEntries \<Rightarrow> addr \<Rightarrow> Section list \<Rightarrow> (addr \<times> u64 \<times> space option) list" where
  "boot_table ss entries a programs =
     map (\<lambda>i. kernel_process (process_load_a0 entries) (of_nat i)) [0..<10] @
     [kernel_process (process_load_from_stack entries) a, kernel_process (process_that_returns entries) 0,
      kernel_process (process_mem_ops entries) 0] @
     replicate 11 (kernel_process (process_never_yields entries) 0) @
     map (\<lambda>s. (USER_PROGRAM_BASE, 0, Some (user_map ss s USER_PROGRAM_BASE))) programs"

lemma length_boot_table: "length (boot_table ss entries a programs) = 24 + length programs"
  by (simp add: boot_table_def)

definition boot_pages :: "Sections \<Rightarrow> Section list \<Rightarrow> nat" where
  "boot_pages ss programs = 24 + (\<Sum>s\<leftarrow>programs. user_init_pages ss s)"

abbreviation rest_of_examples :: "ExampleEntries \<Rightarrow> Section list \<Rightarrow> ProcessArguments list" where
  "rest_of_examples entries programs \<equiv>
     [KernelProcess (process_that_returns entries), KernelProcess (process_mem_ops entries)] @
     replicate 11 (KernelProcess (process_never_yields entries)) @ map UserProgram programs"

lemma rest_of_examples:
  assumes "\<forall>s\<in>set programs. user_sections_ok ss s USER_PROGRAM_BASE"
  shows "\<forall>args\<in>set (rest_of_examples entries programs). args_ok ss args"
    "(\<Sum>args\<leftarrow>rest_of_examples entries programs. create_pages ss args) = 13 + (\<Sum>s\<leftarrow>programs. user_init_pages ss s)"
    "map (\<lambda>args. (entry_of args, 0, space_of ss args)) (rest_of_examples entries programs) =
       [kernel_process (process_that_returns entries) 0, kernel_process (process_mem_ops entries) 0] @
       replicate 11 (kernel_process (process_never_yields entries) 0) @
       map (\<lambda>s. (USER_PROGRAM_BASE, 0, Some (user_map ss s USER_PROGRAM_BASE))) programs"
proof -
  have user: "create_pages ss \<circ> UserProgram = user_init_pages ss" by (simp add: fun_eq_iff create_pages_def)
  show "\<forall>args\<in>set (rest_of_examples entries programs). args_ok ss args"
    using assms by (auto simp: kernel_args(2) args_ok_def)
  show "(\<Sum>args\<leftarrow>rest_of_examples entries programs. create_pages ss args) = 13 + (\<Sum>s\<leftarrow>programs. user_init_pages ss s)"
    by (simp add: kernel_args(1) user sum_list_replicate)
  show "map (\<lambda>args. (entry_of args, 0, space_of ss args)) (rest_of_examples entries programs) =
       [kernel_process (process_that_returns entries) 0, kernel_process (process_mem_ops entries) 0] @
       replicate 11 (kernel_process (process_never_yields entries) 0) @
       map (\<lambda>s. (USER_PROGRAM_BASE, 0, Some (user_map ss s USER_PROGRAM_BASE))) programs"
    by (simp add: entry_of_def space_of_def)
qed

lemma start_example_processes_ok:
  assumes st: "started ss K [] h k" and programs: "\<forall>s\<in>set programs. user_sections_ok ss s USER_PROGRAM_BASE"
  shows "if length programs \<le> 8
     then \<exists>a. outcome ss K (boot_pages ss programs) (boot_table ss entries a programs) h k
       (start_example_processes ss entries programs h k)
     else start_example_processes ss entries programs h k \<in> {Inl out_of_pages, Inl (Panic ''no more available processes'')}"
proof -
  let ?loads = "map (\<lambda>j. kernel_process (process_load_a0 entries) (of_nat j)) [0..<10]"
  note r = rest_of_examples [OF programs]
  have one: "outcome ss K 10 ?loads h k (start_load_a0 ss entries 0 h k)"
    using start_load_a0_ok [OF st, of 0 entries] by simp
  have two: "\<exists>a. outcome ss K 1 (?loads @ [kernel_process (process_load_from_stack entries) a]) h k1 (start_load_from_stack ss entries h k1)"
    if "started ss K ?loads h k1" for k1
    using start_load_from_stack_ok [OF that] by simp
  have def3: "start_example_processes ss entries programs h k = bindr (start_load_a0 ss entries 0 h k) (\<lambda>k1.
      bindr (start_load_from_stack ss entries h k1) (start_all ss (rest_of_examples entries programs) h))"
    unfolding start_example_processes_def by (simp only: append_assoc)
  show ?thesis
  proof (cases "start_load_a0 ss entries 0 h k")
    case (Inl e)
    then have out: "e = out_of_pages" "pages_left ss (vm k) < 10" using one by (simp_all add: outcome_def)
    then show ?thesis using Inl by (auto simp: def3 outcome_def boot_pages_def)
  next
    case (Inr k1)
    then have k1: "started ss K ?loads h k1" using one by (simp add: outcome_def)
    obtain a where a: "outcome ss K 1 (?loads @ [kernel_process (process_load_from_stack entries) a]) h k1 (start_load_from_stack ss entries h k1)"
      using two [OF k1] by blast
    show ?thesis
    proof (cases "length programs \<le> 8")
      case True
      have three: "outcome ss K (13 + (\<Sum>s\<leftarrow>programs. user_init_pages ss s)) (boot_table ss entries a programs) h k2
          (start_all ss (rest_of_examples entries programs) h k2)"
        if "started ss K (?loads @ [kernel_process (process_load_from_stack entries) a]) h k2" for k2
        using start_all_ok [OF that r(1)] True unfolding r(2,3) by (simp add: boot_table_def)
      have "outcome ss K (1 + (13 + (\<Sum>s\<leftarrow>programs. user_init_pages ss s))) (boot_table ss entries a programs) h k1
          (bindr (start_load_from_stack ss entries h k1) (start_all ss (rest_of_examples entries programs) h))"
        by (rule outcome_bind [OF a three])
      from outcome_after [OF one [unfolded Inr] this] show ?thesis
        using True Inr by (auto simp: def3 boot_pages_def add.assoc simp del: start_all.simps)
    next
      case False
      show ?thesis
      proof (cases "start_load_from_stack ss entries h k1")
        case (Inl e)
        then show ?thesis using a False Inr by (simp add: def3 outcome_def)
      next
        case k2: (Inr k2)
        then have "started ss K (?loads @ [kernel_process (process_load_from_stack entries) a]) h k2" using a by (simp add: outcome_def)
        from start_all_full [OF this r(1)] False Inr k2 show ?thesis by (simp add: def3)
      qed
    qed
  qed
qed

section \<open>Into the first process\<close>

lemma reset_stack_ok: "\<exists>c'. exec sy h reset_stack c k = Inr (c', k)"
  by (simp add: reset_stack_def)

text \<open>A hart without a process takes the first one that can run; here that one has not run before.\<close>

lemma jump_into_first:
  assumes ok: "sched_ok h k" and scratch: "csrs k h sscratch = hart_scratch_addr sy h"
    and none: "current_process (my_hart_scratch h k) = None" and p: "p < 32" "proc_state (processes k ! p) = PROCESS_READY"
    and least: "\<forall>q<p. \<not> runnable (processes k ! q)"
  shows "\<exists>k'. jump_into_processes sy board left_over h c k =
       Inr (\<lparr>cpu_reg = frame_regs (loaded_frame sy True k (processes k ! p)),
         cpu_pc = frame_regs (proc_frame (processes k ! p)) ra,
         cpu_supervisor = Process_is_kernel_process (processes k ! p) k\<rparr>, k') \<and>
     traps_enabled h k' \<and> csrs k' h satp = SatpRegister_from_PageTable (proc_page_table (processes k ! p)) \<and>
     current_process (my_hart_scratch h k') = Some p \<and> vm k' = vm k \<and> locked (locks k' processes_lock) = 0"
proof -
  have b: "before_choice h k = k" "search_start h k = 0" by (simp_all add: before_choice_def search_start_def none)
  have run: "runnable (processes k ! p)" using p(2) by (simp add: runnable_def)
  obtain q where q: "q < 32" "runnable (processes k ! q)"
      "\<forall>r<32. runnable (processes k ! r) \<longrightarrow> pid_distance 0 q \<le> pid_distance 0 r"
      "kernel_switch sy board h k = Inr (switched_on sy board (proc_state (processes k ! q) = PROCESS_READY) q h
         (chosen_state q (lock_flag h k) h k))"
    using kernel_switch_cases [OF ok, of sy board] p(1) run by (auto simp: b)
  have "q \<le> p" using q(1,3) p(1) run by (auto simp: pid_distance_def maximum_32)
  moreover have "\<not> q < p" using q(2) least by blast
  ultimately have qp: "q = p" by simp
  let ?k1 = "chosen_state p (lock_flag h k) h k" and ?proc = "processes k ! p"
  let ?k2 = "switched_on sy board True p h ?k1"
  have h: "h < length (hart_scratches k)" "length (processes k) = 32"
    using ok by (simp_all add: sched_ok_def hart_ok_def processes_ok_def maximum_32)
  have h1: "h < length (hart_scratches ?k1)" "p < length (processes ?k1)" using h p(1) by (simp_all add: chosen_state_def)
  note f = switched_on_fields [OF h1, where sy = sy and board = board and first = True]
  have sw: "kernel_switch sy board h k = Inr ?k2" using q(4) p(2) by (simp add: qp)
  have proc1: "processes ?k1 ! p = ?proc\<lparr>proc_state := PROCESS_RUNNING\<rparr>" using h p(1) by (simp add: chosen_state_def)
  have same: "kernel_table ?k1 = kernel_table k" "csrs ?k1 = csrs k" "vm ?k1 = vm k" by (simp_all add: chosen_state_def)
  have kern: "Process_is_kernel_process (processes ?k1 ! p) ?k1 = Process_is_kernel_process ?proc k"
    by (simp add: Process_is_kernel_process_def proc1 same)
  have frame: "loaded_frame sy True ?k1 (processes ?k1 ! p) = loaded_frame sy True k ?proc"
    unfolding loaded_frame_def kern by (simp add: proc1)
  note keeps = kernel_switch_keeps [OF ok sw]
  have "csrs ?k2 h sscratch = hart_scratch_addr sy h" using keeps(6) scratch by simp
  from leave_kernel_ok [OF this, of left_over] obtain k3 where k3:
      "leave_kernel sy h left_over ?k2 = Inr (\<lparr>cpu_reg = frame_regs (hart_frame (my_hart_scratch h ?k2)),
        cpu_pc = csrs ?k2 h sepc, cpu_supervisor = bit (csrs ?k2 h sstatus) SSTATUS_PRIVILEGE\<rparr>, k3)"
      "csrs k3 h satp = frame_satp (hart_frame (my_hart_scratch h ?k2))"
      "traps_enabled h k3 = bit (csrs ?k2 h sstatus) SSTATUS_TRAPS_AFTER_SRET" "k3 = ?k2\<lparr>csrs := csrs k3\<rparr>"
    by blast
  have k3_same: "hart_scratches k3 = hart_scratches ?k2" "vm k3 = vm ?k2" "locks k3 = locks ?k2"
    by (subst k3(4), simp)+
  obtain c' where "exec sy h reset_stack c k = Inr (c', k)" using reset_stack_ok by blast
  then have "jump_into_processes sy board left_over h c k = leave_kernel sy h left_over ?k2"
    by (simp add: jump_into_processes_def sw)
  moreover have "hart_frame (my_hart_scratch h ?k2) = loaded_frame sy True k ?proc" using f(1) frame by simp
  moreover have "current_process (my_hart_scratch h k3) = Some p"
    using f(1) h by (simp add: my_hart_scratch_def k3_same) (simp add: chosen_state_def)
  moreover have "frame_satp (loaded_frame sy True k ?proc) = SatpRegister_from_PageTable (proc_page_table ?proc)"
    by (simp add: loaded_frame_def Let_def)
  ultimately show ?thesis
    using k3(1,2,3) keeps(3,7) kern by (simp add: f(8,9) resume_sstatus_bits k3_same) (simp add: proc1)
qed

end
