(* ===== verification/Device_Tree_Encode.thy ===== *)
theory Device_Tree_Encode
  imports Device_Tree
begin

text \<open>
  The flattened form of a device tree, as the devicetree specification lays it out, and how the words and
  strings of a blob read: the vocabulary in which Device\_Tree\_Spec states what the parser does.
\<close>

section \<open>Trees and their flattened form\<close>

text \<open>
  A property is the number of NOP tokens before it, the offset of its name in the strings block and its
  value; a node the NOPs before it, its name, properties, children and the NOPs before its end.
\<close>

datatype dt_prop = DProp (prop_nops: nat) (nameoff: u32) (prop_bytes: "byte list")

datatype dt_node =
  DNode (node_nops: nat) (dt_name: "byte list") (dt_props: "dt_prop list") (dt_children: "dt_node list") (end_nops: nat)

definition be32 :: "u32 \<Rightarrow> byte list" where
  "be32 v = [byte_at v 3, byte_at v 2, byte_at v 1, byte_at v 0]"

definition padding :: "nat \<Rightarrow> byte list" where
  "padding n = replicate ((4 - n mod 4) mod 4) 0"

definition flat_nops :: "nat \<Rightarrow> byte list" where
  "flat_nops k = concat (replicate k (be32 STRUCTURE_NOP))"

fun flat_prop :: "dt_prop \<Rightarrow> byte list" where
  "flat_prop (DProp k off v) =
     flat_nops k @ be32 STRUCTURE_PROP @ be32 (of_nat (length v)) @ be32 off @ v @ padding (length v)"

fun flat_node :: "dt_node \<Rightarrow> byte list" where
  "flat_node (DNode k name ps cs e) =
     flat_nops k @ be32 STRUCTURE_BEGIN_NODE @ name @ [0] @ padding (length name + 1) @
     concat (map flat_prop ps) @ concat (map flat_node cs) @ flat_nops e @ be32 STRUCTURE_END_NODE"

fun node_count :: "dt_node \<Rightarrow> nat" where
  "node_count (DNode k name ps cs e) = 1 + sum_list (map node_count cs)"

fun prop_count :: "dt_node \<Rightarrow> nat" where
  "prop_count (DNode k name ps cs e) = length ps + sum_list (map prop_count cs)"

text \<open>Names hold no NUL, and the length of a value fits its field.\<close>

fun dt_wf :: "dt_node \<Rightarrow> bool" where
  "dt_wf (DNode k name ps cs e) \<longleftrightarrow>
     0 \<notin> set name \<and> list_all (\<lambda>p. length (prop_bytes p) < 2 ^ 32) ps \<and> list_all dt_wf cs"

section \<open>What a blob blob_holds\<close>

definition blob_holds :: "byte list \<Rightarrow> nat \<Rightarrow> byte list \<Rightarrow> bool" where
  "blob_holds blob p bs \<longleftrightarrow> p + length bs \<le> length blob \<and> take (length bs) (drop p blob) = bs"

lemma holds_append [simp]:
  "blob_holds blob p (xs @ ys) \<longleftrightarrow> blob_holds blob p xs \<and> blob_holds blob (p + length xs) ys"
  by (auto simp: blob_holds_def take_add add.commute [of p] append_eq_append_conv)

lemma holds_Cons: "blob_holds blob p (x # xs) \<longleftrightarrow> p < length blob \<and> blob ! p = x \<and> blob_holds blob (p + 1) xs"
  by (auto simp: blob_holds_def Cons_nth_drop_Suc [symmetric] not_less_eq_eq [symmetric])

lemma holds_le: "blob_holds blob p bs \<Longrightarrow> p + length bs \<le> length blob" by (simp add: blob_holds_def)

lemma holds_self: "blob_holds (pre @ bs @ post) (length pre) bs" by (simp add: blob_holds_def)

lemma length_be32 [simp]: "length (be32 v) = 4" by (simp add: be32_def)

lemma length_flat_nops [simp]: "length (flat_nops k) = 4 * k"
  by (induction k) (simp_all add: flat_nops_def)

lemma swap32_eq [simp]: "SWAP_ENDIANNESS32 a = SWAP_ENDIANNESS32 b \<longleftrightarrow> a = b"
  by (metis swap32_swap32)

lemma bytes_word:
  "ucast (byte_at v 0) OR push_bit 8 (ucast (byte_at v 1)) OR push_bit 16 (ucast (byte_at v 2)) OR
   push_bit 24 (ucast (byte_at v 3)) = (v :: u32)"
proof (rule bit_word_eqI)
  fix n :: nat assume "n < LENGTH(32)"
  then have n: "n < 32" by simp
  consider "n < 8" | "8 \<le> n" "n < 16" | "16 \<le> n" "n < 24" | "24 \<le> n" by linarith
  then show "bit (ucast (byte_at v 0) OR push_bit 8 (ucast (byte_at v 1)) OR push_bit 16 (ucast (byte_at v 2)) OR
     push_bit 24 (ucast (byte_at v 3)) :: u32) n = bit v n"
    using n by cases (auto simp: bit_simps bit_byte_at)
qed

lemma load32_be32: assumes "blob_holds blob p (be32 v)" shows "load32 blob p = Inr (SWAP_ENDIANNESS32 v)"
proof -
  have "p + 4 \<le> length blob" using holds_le [OF assms] by simp
  moreover have "blob ! p = byte_at (SWAP_ENDIANNESS32 v) 0" "blob ! (p + 1) = byte_at (SWAP_ENDIANNESS32 v) 1"
    "blob ! (p + 2) = byte_at (SWAP_ENDIANNESS32 v) 2" "blob ! (p + 3) = byte_at (SWAP_ENDIANNESS32 v) 3"
    using assms by (simp_all add: be32_def holds_Cons swap32_bytes numeral_2_eq_2 numeral_3_eq_3)
  ultimately show ?thesis by (simp only: load32_def bytes_word if_True)
qed

lemma token_neq [simp]:
  "STRUCTURE_BEGIN_NODE \<noteq> STRUCTURE_NOP" "STRUCTURE_END_NODE \<noteq> STRUCTURE_NOP" "STRUCTURE_PROP \<noteq> STRUCTURE_NOP"
  "STRUCTURE_END \<noteq> STRUCTURE_NOP" "STRUCTURE_BEGIN_NODE \<noteq> STRUCTURE_PROP" "STRUCTURE_END_NODE \<noteq> STRUCTURE_PROP"
  "STRUCTURE_END_NODE \<noteq> STRUCTURE_BEGIN_NODE" "STRUCTURE_END \<noteq> STRUCTURE_BEGIN_NODE"
  by (simp_all add: STRUCTURE_BEGIN_NODE_def STRUCTURE_END_NODE_def STRUCTURE_NOP_def STRUCTURE_PROP_def
      STRUCTURE_END_def)

section \<open>NOPs, names and padding\<close>

lemma skip_nops_stop:
  "load32 blob p = Inr v \<Longrightarrow> v \<noteq> SWAP_ENDIANNESS32 STRUCTURE_NOP \<Longrightarrow> skip_nops blob p = Inr p"
  by (subst skip_nops.simps) simp

lemma skip_nops_flat: "blob_holds blob p (flat_nops k) \<Longrightarrow> skip_nops blob p = skip_nops blob (p + 4 * k)"
proof (induction k arbitrary: p)
  case (Suc k)
  then have "blob_holds blob p (be32 STRUCTURE_NOP)" "blob_holds blob (p + 4) (flat_nops k)"
    by (simp_all add: flat_nops_def)
  with Suc.IH [of "p + 4"] show ?case
    by (subst skip_nops.simps) (simp add: load32_be32 add.assoc)
qed (simp add: flat_nops_def)

lemma skip_nops_token:
  assumes "blob_holds blob p (flat_nops k @ be32 v)" and "v \<noteq> STRUCTURE_NOP"
  shows "skip_nops blob p = Inr (p + 4 * k)"
proof -
  have h: "blob_holds blob p (flat_nops k)" "blob_holds blob (p + 4 * k) (be32 v)" using assms(1) by simp_all
  have "skip_nops blob (p + 4 * k) = Inr (p + 4 * k)"
    by (rule skip_nops_stop [OF load32_be32 [OF h(2)]]) (simp add: assms(2))
  then show ?thesis using skip_nops_flat [OF h(1)] by simp
qed

lemma skip_nops_twice: "skip_nops blob p = Inr q \<Longrightarrow> skip_nops blob q = Inr q"
proof (induction blob p rule: skip_nops.induct)
  case (1 blob p)
  then show ?case
    by (subst (asm) (2) skip_nops.simps)
      (auto simp: bindr_Inr_iff skip_nops_stop split: if_splits)
qed

lemma node_name_end_at:
  "blob_holds blob p (name @ [0]) \<Longrightarrow> 0 \<notin> set name \<Longrightarrow> node_name_end blob p = Inr (p + length name)"
proof (induction name arbitrary: p)
  case Nil
  then show ?case by (subst node_name_end.simps) (simp add: holds_Cons)
next
  case (Cons c name)
  then show ?case by (subst node_name_end.simps) (auto simp: holds_Cons)
qed

lemma holds_cstring: "blob_holds blob p (name @ [0]) \<Longrightarrow> 0 \<notin> set name \<Longrightarrow> cstring (drop p blob) name"
proof -
  assume h: "blob_holds blob p (name @ [0])" "0 \<notin> set name"
  then have "take (length name + 1) (drop p blob) = name @ [0]" by (simp add: blob_holds_def del: holds_append)
  then have "drop p blob = (name @ [0]) @ drop (length name + 1) (drop p blob)" by (metis append_take_drop_id)
  then show ?thesis using h(2) by (metis append_Cons append_assoc append_self_conv2 cstring_append_NUL)
qed

lemma align_offset_4: assumes "p + 3 < 2 ^ 64" shows "align_offset p 4 = (p + 3) div 4 * 4"
proof -
  have "(of_nat 4 :: u64) - 1 = mask 2" by (simp add: mask_eq_exp_minus_1)
  then have "align_up (of_nat p) (of_nat 4) = (of_nat p + mask 2) AND NOT (mask 2)" by (simp only: align_up_def)
  also have "\<dots> = of_nat (p + 3) - of_nat (p + 3) mod 2 ^ 2"
    unfolding and_not_mask_eq by (simp add: mask_eq_exp_minus_1)
  finally have e: "align_up (of_nat p) (of_nat 4) = (of_nat (p + 3) :: u64) - of_nat (p + 3) mod 4" by simp
  have u: "unat (of_nat (p + 3) :: u64) = p + 3" using assms by (simp only: unat_of_nat) simp
  have m: "unat ((of_nat (p + 3) :: u64) mod 4) = (p + 3) mod 4" by (simp only: unat_mod u) simp
  have "(of_nat (p + 3) :: u64) mod 4 \<le> of_nat (p + 3)" by (simp only: word_le_nat_alt m u mod_less_eq_dividend)
  then have "unat (align_up (of_nat p) (of_nat 4)) = (p + 3) - (p + 3) mod 4"
    by (simp only: e unat_sub m u)
  then show ?thesis unfolding align_offset_def by (metis minus_mod_eq_div_mult)
qed

lemma length_padding [simp]: "length (padding n) = (4 - n mod 4) mod 4" by (simp add: padding_def)

lemma padding_arith: "4 dvd n + (4 - n mod 4) mod (4 :: nat)"
proof -
  have "n mod 4 + (4 - n mod 4) mod 4 \<in> {0, 4}" by (cases "n mod 4 = 0") simp_all
  then have "4 dvd n mod 4 + (4 - n mod 4) mod 4" by auto
  moreover have "4 dvd n - n mod 4" "n mod 4 \<le> n" by simp_all
  ultimately have "4 dvd (n - n mod 4) + (n mod 4 + (4 - n mod 4) mod 4)" using dvd_add by blast
  then show ?thesis by (simp add: add.assoc [symmetric])
qed

lemma padding_dvd: "4 dvd n + length (padding n)"
  unfolding length_padding by (rule padding_arith)

lemma align_offset_padding:
  assumes "4 dvd p" and "p + n + length (padding n) < 2 ^ 63"
  shows "align_offset (p + n) 4 = p + n + length (padding n)"
proof -
  obtain q where q: "p = 4 * q" using assms(1) by (rule dvdE)
  obtain m where m: "n + length (padding n) = 4 * m" using padding_dvd [of n] by (rule dvdE)
  have l: "length (padding n) < 4" by simp
  have "(p + n + 3) div 4 = q + m" using q m l by linarith
  moreover have "p + n + 3 < 2 ^ 64" using assms(2) by simp
  ultimately show ?thesis using q m by (simp add: align_offset_4 del: length_padding)
qed

lemma flat_prop_dvd [simp]: "4 dvd length (flat_prop p)"
proof (cases p)
  case (DProp k off v)
  have "length (flat_prop p) = 4 * (k + 3) + (length v + length (padding (length v)))"
    using DProp by simp
  then show ?thesis using padding_dvd [of "length v"] by (simp del: length_padding)
qed

lemma dvd_concat: "(\<And>x. x \<in> set xs \<Longrightarrow> 4 dvd length (f x)) \<Longrightarrow> 4 dvd length (concat (map f xs))"
  by (induction xs) auto

lemma flat_node_dvd [simp]: "4 dvd length (flat_node t)"
proof (induction t)
  case (DNode k name ps cs e)
  have "4 dvd length (concat (map flat_prop ps))" by (rule dvd_concat) simp
  moreover have "4 dvd length (concat (map flat_node cs))" by (rule dvd_concat) (rule DNode)
  moreover have "length (flat_node (DNode k name ps cs e)) =
    4 * (k + e + 2) + (length name + 1 + length (padding (length name + 1))) +
    length (concat (map flat_prop ps)) + length (concat (map flat_node cs))" by simp
  ultimately show ?case using padding_dvd [of "length name + 1"] by (simp only: dvd_add dvd_triv_left)
qed

end
