(* ===== verification/Device_Tree_Links.thy ===== *)
theory Device_Tree_Links
  imports Device_Tree_Encode
begin

text \<open>
  The singly linked lists of list.c as an interface, with its two instances in the device tree: the
  properties of a node and the children of a node.
\<close>

section \<open>Linked lists\<close>

text \<open>\<open>linked read at items\<close>: the pointer stored at \<open>at\<close> leads through \<open>items\<close>, in order, to a \<open>NULL\<close>.\<close>

fun linked :: "(nat option \<Rightarrow> error + nat option) \<Rightarrow> nat option \<Rightarrow> nat list \<Rightarrow> bool" where
  "linked read at [] \<longleftrightarrow> read at = Inr None"
| "linked read at (i # items) \<longleftrightarrow> read at = Inr (Some i) \<and> linked read (Some i) items"

text \<open>The place of the \<open>NULL\<close>.\<close>

definition tail_link :: "nat option \<Rightarrow> nat list \<Rightarrow> nat option" where
  "tail_link at items = (if items = [] then at else Some (last items))"

lemma tail_link_simps [simp]:
  "tail_link at [] = at" "tail_link at (i # items) = tail_link (Some i) items"
  "tail_link at (items @ [i]) = Some i"
  by (simp_all add: tail_link_def)

lemma linked_walk: "linked read at items \<Longrightarrow> add_linked_walk read at = Some (Inr (tail_link at items))"
  by (induction items arbitrary: at) (subst add_linked_walk.simps; simp)+

lemma linked_functional: "linked read at xs \<Longrightarrow> linked read at ys \<Longrightarrow> xs = ys"
proof (induction xs arbitrary: at ys)
  case Nil then show ?case by (cases ys) auto
next
  case (Cons x xs) then show ?case by (cases ys) auto
qed

lemma linked_frame:
  "linked read at items \<Longrightarrow> read' at = read at \<Longrightarrow> (\<And>i. i \<in> set items \<Longrightarrow> read' (Some i) = read (Some i)) \<Longrightarrow>
   linked read' at items"
  by (induction items arbitrary: at) auto

text \<open>
  What the two instances promise: a store changes the link it is given, if it is one, and no other.
\<close>

locale linked_list =
  fixes read :: "'s \<Rightarrow> nat option \<Rightarrow> error + nat option"
    and store :: "nat \<Rightarrow> 's \<Rightarrow> nat option \<Rightarrow> 's"
  assumes read_same: "read s at = Inr x \<Longrightarrow> read (store new s at) at = Inr (Some new)"
    and read_other: "at' \<noteq> at \<Longrightarrow> read (store new s at) at' = read s at'"
begin

lemma linked_store:
  "linked (read s) at items \<Longrightarrow> at \<notin> Some ` set items \<Longrightarrow> distinct items \<Longrightarrow> new \<notin> set items \<Longrightarrow> at \<noteq> Some new \<Longrightarrow>
   read s (Some new) = Inr None \<Longrightarrow> linked (read (store new s (tail_link at items))) at (items @ [new])"
proof (induction items arbitrary: at)
  case Nil
  then show ?case by (simp add: read_same read_other)
next
  case (Cons i items)
  have "at \<noteq> tail_link (Some i) items" using Cons.prems(2) by (auto simp: tail_link_def)
  moreover have "linked (read (store new s (tail_link (Some i) items))) (Some i) (items @ [new])"
    by (rule Cons.IH) (use Cons.prems in auto)
  ultimately show ?case using Cons.prems(1) by (simp add: read_other)
qed

lemma add_linked_appends:
  assumes "linked (read s) None items" and "distinct (items @ [new])" and "read s (Some new) = Inr None"
  shows "add_linked (read s) (store new s) = Inr (store new s (tail_link None items)) \<and>
    linked (read (store new s (tail_link None items))) None (items @ [new])"
proof -
  have "linked (read (store new s (tail_link None items))) None (items @ [new])"
    by (rule linked_store) (use assms in auto)
  then show ?thesis using linked_walk [OF assms(1)] by (simp add: add_linked_def)
qed

lemma add_linked_terminates: "linked (read s) None items \<Longrightarrow> add_linked (read s) f \<noteq> Inl Hangs"
  by (simp add: add_linked_def linked_walk)

end

section \<open>The two instances\<close>

lemmas link_defs = read_property_link_def store_property_link_def read_child_link_def store_child_link_def
  update_node_def update_prop_def deref_def

lemma nth_update_if: "xs[i := v] ! j = (if i = j \<and> i < length xs then v else xs ! j)"
  by (cases "i < length xs") (auto simp: nth_list_update list_update_beyond)

interpretation property_list: linked_list "read_property_link parsed" "store_property_link parsed" for parsed
  by unfold_locales (auto simp: link_defs nth_update_if split: option.splits if_splits)

interpretation child_list: linked_list "read_child_link parsed" "store_child_link parsed" for parsed
  by unfold_locales (auto simp: link_defs nth_update_if split: option.splits if_splits)

end
