(* ===== verification/Device_Tree_Spec.thy ===== *)
theory Device_Tree_Spec
  imports Device_Tree_Links
begin

text \<open>
  What the parser of the device tree does: on the flattened form of a tree it fills the static arrays with
  exactly that tree, in document order.
\<close>

section \<open>How the arrays hold a tree\<close>

text \<open>The node at \<open>i\<close> is followed by its descendants: the indices of a list of siblings.\<close>

fun roots :: "nat \<Rightarrow> dt_node list \<Rightarrow> nat list" where
  "roots i [] = []"
| "roots i (t # ts) = i # roots (i + node_count t) ts"

definition prop_at :: "byte list \<Rightarrow> nat \<Rightarrow> tree_arrays \<Rightarrow> nat \<Rightarrow> dt_prop \<Rightarrow> bool" where
  "prop_at blob strings s j p \<longleftrightarrow>
     j < length (props_items s) \<and>
     prop_name (props_items s ! j) = Some (strings + unat (nameoff p)) \<and>
     prop_value_len (props_items s ! j) = length (prop_bytes p) \<and>
     (case prop_value (props_items s ! j) of None \<Rightarrow> False | Some o' \<Rightarrow> 0 < o' \<and> blob_holds blob o' (prop_bytes p))"

fun node_at :: "byte list \<Rightarrow> nat \<Rightarrow> tree_arrays \<Rightarrow> nat \<Rightarrow> nat \<Rightarrow> dt_node \<Rightarrow> bool"
  and forest_at :: "byte list \<Rightarrow> nat \<Rightarrow> tree_arrays \<Rightarrow> nat \<Rightarrow> nat \<Rightarrow> dt_node list \<Rightarrow> bool"
where
  "node_at blob strings s i m (DNode k name ps cs e) \<longleftrightarrow>
     i < length (nodes_items s) \<and>
     (case node_name (nodes_items s ! i) of None \<Rightarrow> False | Some o' \<Rightarrow> cstring (drop o' blob) name) \<and>
     linked (read_property_link i s) None [m ..< m + length ps] \<and>
     list_all2 (prop_at blob strings s) [m ..< m + length ps] ps \<and>
     linked (read_child_link i s) None (roots (i + 1) cs) \<and>
     forest_at blob strings s (i + 1) (m + length ps) cs"
| "forest_at blob strings s i m [] \<longleftrightarrow> True"
| "forest_at blob strings s i m (t # ts) \<longleftrightarrow>
     node_at blob strings s i m t \<and>
     forest_at blob strings s (i + node_count t) (m + prop_count t) ts"

abbreviation nodes_count :: "dt_node list \<Rightarrow> nat" where
  "nodes_count ts \<equiv> sum_list (map node_count ts)"

abbreviation props_count :: "dt_node list \<Rightarrow> nat" where
  "props_count ts \<equiv> sum_list (map prop_count ts)"

lemma node_count_pos [simp]: "0 < node_count t" by (cases t) simp

lemma roots_append: "roots i (xs @ ys) = roots i xs @ roots (i + nodes_count xs) ys"
  by (induction xs arbitrary: i) (simp_all add: add.assoc)

lemma roots_range: "j \<in> set (roots i ts) \<Longrightarrow> i \<le> j \<and> j < i + nodes_count ts"
proof (induction ts arbitrary: i)
  case (Cons t ts)
  show ?case
  proof (cases "j = i")
    case False
    then have "j \<in> set (roots (i + node_count t) ts)" using Cons.prems by simp
    then show ?thesis using Cons.IH by fastforce
  qed simp
qed simp

lemma distinct_roots: "distinct (roots i ts)"
proof (induction ts arbitrary: i)
  case (Cons t ts)
  moreover have "i \<notin> set (roots (i + node_count t) ts)"
    using roots_range [of i "i + node_count t" ts] node_count_pos [of t] by linarith
  ultimately show ?case by simp
qed simp

lemma forest_append: "forest_at blob strings s i m (xs @ ys) \<longleftrightarrow>
    forest_at blob strings s i m xs \<and> forest_at blob strings s (i + nodes_count xs) (m + props_count xs) ys"
  by (induction xs arbitrary: i m) (simp_all add: add.assoc)

section \<open>Frames\<close>

text \<open>
  The nodes in \<open>I\<close> and the properties in \<open>P\<close> are as before, but for the sibling links of the nodes in \<open>X\<close>.
\<close>

definition keeps :: "nat set \<Rightarrow> nat set \<Rightarrow> nat set \<Rightarrow> tree_arrays \<Rightarrow> tree_arrays \<Rightarrow> bool" where
  "keeps I X P s s' \<longleftrightarrow>
     length (nodes_items s') = length (nodes_items s) \<and> length (props_items s') = length (props_items s) \<and>
     (\<forall>j\<in>I. node_name (nodes_items s' ! j) = node_name (nodes_items s ! j) \<and>
        node_properties (nodes_items s' ! j) = node_properties (nodes_items s ! j) \<and>
        node_child (nodes_items s' ! j) = node_child (nodes_items s ! j) \<and>
        (j \<notin> X \<longrightarrow> node_next (nodes_items s' ! j) = node_next (nodes_items s ! j))) \<and>
     (\<forall>j\<in>P. props_items s' ! j = props_items s ! j)"

lemma keeps_mono: "keeps I X P s s' \<Longrightarrow> I' \<subseteq> I \<Longrightarrow> X \<inter> I' \<subseteq> X' \<Longrightarrow> P' \<subseteq> P \<Longrightarrow> keeps I' X' P' s s'"
  unfolding keeps_def by (meson IntI subsetD)

lemma node_at_frame:
  "node_at blob strings s i m t \<Longrightarrow> keeps {i..<i + node_count t} {i} {m..<m + prop_count t} s s' \<Longrightarrow>
   node_at blob strings s' i m t"
  and forest_at_frame:
  "forest_at blob strings s i m ts \<Longrightarrow>
   keeps {i..<i + nodes_count ts} (set (roots i ts)) {m..<m + props_count ts} s s' \<Longrightarrow>
   forest_at blob strings s' i m ts"
proof (induction blob strings s i m t and blob strings s i m ts rule: node_at_forest_at.induct)
  case (1 blob strings s i m k name ps cs e)
  note k = "1.prems"(2) [unfolded keeps_def]
  have "list_all2 (prop_at blob strings s') [m..<m + length ps] ps"
    using "1.prems" k by (auto simp: list_all2_conv_all_nth prop_at_def)
  moreover have "linked (read_property_link i s') None [m..<m + length ps]"
    by (rule linked_frame [where read = "read_property_link i s"])
      (use "1.prems"(1) k in \<open>auto simp: read_property_link_def deref_def split: if_splits\<close>)
  moreover have "linked (read_child_link i s') None (roots (i + 1) cs)"
  proof (rule linked_frame [where read = "read_child_link i s"])
    fix j assume "j \<in> set (roots (i + 1) cs)"
    then have "i < j" "j < i + 1 + nodes_count cs" using roots_range by fastforce+
    then show "read_child_link i s' (Some j) = read_child_link i s (Some j)"
      using k by (auto simp: read_child_link_def deref_def)
  qed (use "1.prems"(1) k in \<open>auto simp: read_child_link_def deref_def\<close>)
  moreover have "keeps {i + 1..<i + 1 + nodes_count cs} (set (roots (i + 1) cs))
      {m + length ps..<m + length ps + props_count cs} s s'"
    by (rule keeps_mono [OF "1.prems"(2)]) auto
  then have "forest_at blob strings s' (i + 1) (m + length ps) cs" using 1 by simp
  ultimately show ?case using "1.prems"(1) k by (auto split: option.splits)
next
  case (3 blob strings s i m t ts)
  let ?r = "roots (i + node_count t) ts"
  have "{i} = set (roots i (t # ts)) \<inter> {i..<i + node_count t}"
    using roots_range [of _ "i + node_count t" ts] node_count_pos [of t] by fastforce
  then have "keeps {i..<i + node_count t} {i} {m..<m + prop_count t} s s'"
    by (intro keeps_mono [OF "3.prems"(2)]) auto
  moreover have "set (roots i (t # ts)) \<inter> {i + node_count t..<i + node_count t + nodes_count ts} \<subseteq> set ?r"
    using node_count_pos [of t] by auto
  then have "keeps {i + node_count t..<i + node_count t + nodes_count ts} (set ?r)
      {m + prop_count t..<m + prop_count t + props_count ts} s s'"
    by (intro keeps_mono [OF "3.prems"(2)]) auto
  ultimately show ?case using 3 by simp
qed simp

section \<open>Parsing properties\<close>

text \<open>Nothing behind the counters has been written, and the arrays have their size.\<close>

definition fresh :: "tree_arrays \<Rightarrow> bool" where
  "fresh s \<longleftrightarrow> length (nodes_items s) = NUM_DEVICE_TREE_NODES \<and>
     length (props_items s) = NUM_DEVICE_TREE_PROPERTIES \<and>
     (\<forall>j. nodes_next s \<le> j \<and> j < NUM_DEVICE_TREE_NODES \<longrightarrow> nodes_items s ! j = zero_node) \<and>
     (\<forall>j. props_next s \<le> j \<and> j < NUM_DEVICE_TREE_PROPERTIES \<longrightarrow> props_items s ! j = zero_prop)"

lemmas capacities = NUM_DEVICE_TREE_NODES_def NUM_DEVICE_TREE_PROPERTIES_def

lemma fresh_empty: "fresh empty_arrays"
  by (simp add: fresh_def empty_arrays_def)

text \<open>What a blob is that blob_holds part of a tree at \<open>p\<close>; \<open>strings\<close> is where its strings block starts.\<close>

definition blob_ok :: "byte list \<Rightarrow> nat \<Rightarrow> bool" where
  "blob_ok blob strings \<longleftrightarrow> length blob < 2 ^ 63 \<and>
     (\<exists>v. load32 blob offsetof_off_dt_strings = Inr (SWAP_ENDIANNESS32 v) \<and> strings = unat v)"

lemma property_parse_skip:
  "skip_nops blob p = Inr q \<Longrightarrow> DeviceTreeProperty_parse blob p s = DeviceTreeProperty_parse blob q s"
  by (simp add: DeviceTreeProperty_parse_def skip_nops_twice)

lemma property_parse_ok:
  assumes h: "blob_holds blob p (flat_prop (DProp k off v))" and p: "4 dvd p" and len: "length v < 2 ^ 32"
    and blob: "blob_ok blob strings" and room: "props_next s < 255"
  shows "DeviceTreeProperty_parse blob p s =
    Inr (Some (props_next s), p + length (flat_prop (DProp k off v)),
      update_prop (props_next s)
        (\<lambda>prop. prop\<lparr>prop_name := Some (strings + unat off), prop_value := Some (p + 4 * k + 12),
                     prop_value_len := length v\<rparr>)
        (s\<lparr>props_next := props_next s + 1\<rparr>))"
proof -
  have words: "blob_holds blob p (flat_nops k @ be32 STRUCTURE_PROP)" "blob_holds blob (p + 4 * k) (be32 STRUCTURE_PROP)"
    "blob_holds blob (p + 4 * k + 4) (be32 (of_nat (length v)))" "blob_holds blob (p + 4 * k + 8) (be32 off)"
    using h by (simp_all add: add.assoc)
  have n: "unat (of_nat (length v) :: u32) = length v" using len by (simp add: unat_of_nat)
  have e: "p + length (flat_prop (DProp k off v)) = (p + 4 * k + 12) + length v + length (padding (length v))"
    by simp
  moreover have "p + length (flat_prop (DProp k off v)) < 2 ^ 63"
    using holds_le [OF h] blob by (simp add: blob_ok_def del: flat_prop.simps)
  ultimately have "align_offset (p + 4 * k + 12 + length v) 4 = p + length (flat_prop (DProp k off v))"
    by (subst align_offset_padding) (use p in \<open>simp_all del: length_padding flat_prop.simps add: e\<close>)
  moreover have "next_free (props_next s) NUM_DEVICE_TREE_NODES = (Some (props_next s), props_next s + 1)"
    using room by (simp add: next_free_def capacities)
  moreover define q where "q = p + 4 * k"
  moreover obtain w where "load32 blob offsetof_off_dt_strings = Inr (SWAP_ENDIANNESS32 w)" "strings = unat w"
    using blob by (auto simp: blob_ok_def)
  moreover note skip_nops_token [OF words(1)] load32_be32 [OF words(2)] load32_be32 [OF words(3)] load32_be32 [OF words(4)]
  ultimately show ?thesis
    by (simp add: DeviceTreeProperty_parse_def n Let_def add.commute [of 8] add.commute [of 12] del: flat_prop.simps)
qed

text \<open>Where a list of properties is stored and linked, from the slot \<open>m\<close> on.\<close>

definition props_at :: "byte list \<Rightarrow> nat \<Rightarrow> tree_arrays \<Rightarrow> nat \<Rightarrow> nat \<Rightarrow> dt_prop list \<Rightarrow> bool" where
  "props_at blob strings s i m ps \<longleftrightarrow>
     linked (read_property_link i s) None [m..<m + length ps] \<and>
     list_all2 (prop_at blob strings s) [m..<m + length ps] ps"

text \<open>The store at the end of the list of properties of \<open>i\<close>, for the property in the slot \<open>j\<close>.\<close>

lemma store_property_frame:
  assumes "at = None \<or> (\<exists>l. at = Some l \<and> m \<le> l \<and> l < j)" and "s' = store_property_link i j s at"
  shows "keeps (- {i}) {} {..<m} s s'" "node_name (nodes_items s' ! i) = node_name (nodes_items s ! i)"
    "node_child (nodes_items s' ! i) = node_child (nodes_items s ! i)"
    "node_next (nodes_items s' ! i) = node_next (nodes_items s ! i)"
    "nodes_next s' = nodes_next s" "props_next s' = props_next s"
    "prop_at blob strings s' l d = prop_at blob strings s l d"
    "j \<le> l \<Longrightarrow> props_items s' ! l = props_items s ! l"
  using assms(1) unfolding assms(2)
  by (auto simp: keeps_def store_property_link_def update_node_def update_prop_def prop_at_def nth_update_if
      split: if_splits)

text \<open>One round of the loop that collects the properties of the node \<open>i\<close>.\<close>

lemma properties_step:
  assumes h: "blob_holds blob p (flat_prop d)" and p: "4 dvd p" and len: "length (prop_bytes d) < 2 ^ 32"
    and blob: "blob_ok blob strings" and fresh: "fresh s" and i: "i < nodes_next s"
    and m: "props_next s = m + length ds" and room: "m + length ds < 255" and ds: "props_at blob strings s i m ds"
  shows "\<exists>s'. parse_properties_loop (Suc fuel) blob i p s =
      parse_properties_loop fuel blob i (p + length (flat_prop d)) s' \<and>
    fresh s' \<and> props_next s' = m + length (ds @ [d]) \<and> nodes_next s' = nodes_next s \<and>
    props_at blob strings s' i m (ds @ [d]) \<and>
    keeps (- {i}) {} {..<m} s s' \<and> node_name (nodes_items s' ! i) = node_name (nodes_items s ! i) \<and>
    node_child (nodes_items s' ! i) = node_child (nodes_items s ! i) \<and>
    node_next (nodes_items s' ! i) = node_next (nodes_items s ! i)"
proof -
  obtain k off v where d: "d = DProp k off v" by (cases d)
  let ?j = "m + length ds"
  define s1 where "s1 = update_prop ?j
    (\<lambda>prop. prop\<lparr>prop_name := Some (strings + unat off), prop_value := Some (p + 4 * k + 12),
                 prop_value_len := length v\<rparr>) (s\<lparr>props_next := ?j + 1\<rparr>)"
  have bytes: "blob_holds blob (p + 4 * k + 12) v" "blob_holds blob p (flat_nops k @ be32 STRUCTURE_PROP)"
    using h d by (simp_all add: add.assoc)
  have skip: "skip_nops blob p = Inr (p + 4 * k)" by (rule skip_nops_token [OF bytes(2)]) simp
  have parsed: "DeviceTreeProperty_parse blob (p + 4 * k) s = Inr (Some ?j, p + length (flat_prop d), s1)"
    using property_parse_ok [OF h [unfolded d] p _ blob, of s] len room
    unfolding property_parse_skip [OF skip, symmetric] s1_def d m by simp
  have size: "?j < length (props_items s)" "props_items s ! ?j = zero_prop"
    using fresh room m by (simp_all add: fresh_def capacities)
  have old: "l \<noteq> ?j \<Longrightarrow> props_items s1 ! l = props_items s ! l" for l
    by (simp add: s1_def update_prop_def)
  have new: "prop_next (props_items s1 ! ?j) = None" "prop_at blob strings s1 ?j d"
    using size bytes by (simp_all add: s1_def update_prop_def prop_at_def d zero_prop_def)
  have nodes: "nodes_items s1 = nodes_items s" "length (props_items s1) = length (props_items s)"
    "nodes_next s1 = nodes_next s" "props_next s1 = Suc ?j"
    by (simp_all add: s1_def update_prop_def)
  have links: "linked (read_property_link i s1) None [m..<?j]"
    by (rule linked_frame [where read = "read_property_link i s"])
      (use ds old nodes in \<open>auto simp: props_at_def read_property_link_def deref_def\<close>)
  let ?at = "tail_link None [m..<?j]"
  define s' where "s' = store_property_link i ?j s1 ?at"
  have "add_linked (read_property_link i s1) (store_property_link i ?j s1) = Inr s' \<and>
      linked (read_property_link i s') None ([m..<?j] @ [?j])"
    unfolding s'_def by (rule property_list.add_linked_appends [OF links])
      (use new(1) size nodes in \<open>simp_all add: read_property_link_def\<close>)
  then have added: "add_linked (read_property_link i s1) (store_property_link i ?j s1) = Inr s'"
    "linked (read_property_link i s') None [m..<m + length (ds @ [d])]" by simp_all
  have at: "?at = None \<or> (\<exists>l. ?at = Some l \<and> m \<le> l \<and> l < ?j)" by (cases ds) (auto simp: tail_link_def)
  note frame = store_property_frame [OF at s'_def]
  have "list_all2 (prop_at blob strings s1) [m..<?j] ds"
    using ds old nodes by (auto simp: props_at_def list_all2_conv_all_nth prop_at_def)
  moreover have same: "prop_at blob strings s' = prop_at blob strings s1" by (intro ext) (rule frame(7))
  ultimately have "list_all2 (prop_at blob strings s') ([m..<?j] @ [?j]) (ds @ [d])"
    using new(2) by (intro list_all2_appendI) (simp_all add: same)
  with added(2) have "props_at blob strings s' i m (ds @ [d])" by (simp add: props_at_def)
  moreover have "keeps (- {i}) {} {..<m} s s'"
    using frame(1) old nodes by (simp add: keeps_def)
  moreover have "fresh s'"
    using fresh frame(1,5,6,8) nodes old i m by (auto simp: fresh_def keeps_def)
  moreover have "parse_properties_loop (Suc fuel) blob i p s =
      parse_properties_loop fuel blob i (p + length (flat_prop d)) s'"
    using skip parsed added(1) by simp
  moreover have "nodes_next s' = nodes_next s" "props_next s' = m + length (ds @ [d])"
    using frame(5,6) nodes by simp_all
  moreover have "node_name (nodes_items s' ! i) = node_name (nodes_items s ! i)"
    "node_child (nodes_items s' ! i) = node_child (nodes_items s ! i)"
    "node_next (nodes_items s' ! i) = node_next (nodes_items s ! i)"
    using frame(2-4) nodes by simp_all
  ultimately show ?thesis by blast
qed

lemma properties_loop:
  assumes "blob_holds blob p (concat (map flat_prop ps))" and "4 dvd p"
    and "list_all (\<lambda>d. length (prop_bytes d) < 2 ^ 32) ps"
    and "blob_ok blob strings" and "fresh s" and "i < nodes_next s"
    and "props_next s = m + length ds" and "m + length ds + length ps \<le> 255" and "props_at blob strings s i m ds"
    and "length blob < fuel + p"
  shows "\<exists>s' fuel'. parse_properties_loop fuel blob i p s =
      parse_properties_loop fuel' blob i (p + length (concat (map flat_prop ps))) s' \<and>
    length blob < fuel' + p + length (concat (map flat_prop ps)) \<and>
    fresh s' \<and> props_next s' = m + length (ds @ ps) \<and> nodes_next s' = nodes_next s \<and>
    props_at blob strings s' i m (ds @ ps) \<and>
    keeps (- {i}) {} {..<m} s s' \<and> node_name (nodes_items s' ! i) = node_name (nodes_items s ! i) \<and>
    node_child (nodes_items s' ! i) = node_child (nodes_items s ! i) \<and>
    node_next (nodes_items s' ! i) = node_next (nodes_items s ! i)"
  using assms
proof (induction ps arbitrary: p fuel s ds)
  case Nil
  then show ?case by (auto simp: keeps_def intro!: exI [of _ s] exI [of _ fuel])
next
  case (Cons d ps)
  have h: "blob_holds blob p (flat_prop d)" "blob_holds blob (p + length (flat_prop d)) (concat (map flat_prop ps))"
    using Cons.prems(1) by simp_all
  have twelve: "12 \<le> length (flat_prop d)" by (cases d) simp
  then obtain fuel1 where fuel: "fuel = Suc fuel1"
    using Cons.prems(10) holds_le [OF h(1)] by (cases fuel) auto
  from properties_step [OF h(1) Cons.prems(2) _ Cons.prems(4,5,6,7) _ Cons.prems(9), of fuel1] Cons.prems(3,8)
  obtain s1 where s1: "parse_properties_loop fuel blob i p s =
      parse_properties_loop fuel1 blob i (p + length (flat_prop d)) s1" "fresh s1"
    "props_next s1 = m + length (ds @ [d])" "nodes_next s1 = nodes_next s" "props_at blob strings s1 i m (ds @ [d])"
    "keeps (- {i}) {} {..<m} s s1" "node_name (nodes_items s1 ! i) = node_name (nodes_items s ! i)"
    "node_child (nodes_items s1 ! i) = node_child (nodes_items s ! i)"
    "node_next (nodes_items s1 ! i) = node_next (nodes_items s ! i)"
    unfolding fuel by auto
  have "4 dvd p + length (flat_prop d)" using Cons.prems(2) by simp
  from Cons.IH [OF h(2) this _ Cons.prems(4) s1(2) _ s1(3) _ s1(5), of fuel1] s1 Cons.prems(3,6,8,10) fuel twelve
  obtain s' fuel' where "parse_properties_loop fuel1 blob i (p + length (flat_prop d)) s1 =
      parse_properties_loop fuel' blob i (p + length (flat_prop d) + length (concat (map flat_prop ps))) s'"
    "length blob < fuel' + (p + length (flat_prop d)) + length (concat (map flat_prop ps))"
    "fresh s'" "props_next s' = m + length ((ds @ [d]) @ ps)" "nodes_next s' = nodes_next s1"
    "props_at blob strings s' i m ((ds @ [d]) @ ps)"
    "keeps (- {i}) {} {..<m} s1 s'" "node_name (nodes_items s' ! i) = node_name (nodes_items s1 ! i)"
    "node_child (nodes_items s' ! i) = node_child (nodes_items s1 ! i)"
    "node_next (nodes_items s' ! i) = node_next (nodes_items s1 ! i)" by auto
  with s1 show ?case by (auto simp: keeps_def add.assoc intro!: exI [of _ s'] exI [of _ fuel'])
qed

text \<open>A token that is not a property ends the loop, after the NOPs before it.\<close>

lemma properties_end:
  assumes "skip_nops blob p = Inr q" and "load32 blob q = Inr v" and "v \<noteq> SWAP_ENDIANNESS32 STRUCTURE_PROP"
  shows "parse_properties_loop (Suc fuel) blob i p s = Inr (q, s)"
  using assms skip_nops_twice [OF assms(1)] by (simp add: DeviceTreeProperty_parse_def)

section \<open>Parsing nodes\<close>

text \<open>
  The result \<open>r\<close> of parsing the node \<open>t\<close> that the blob blob_holds at \<open>p\<close>: it and its descendants are behind what
  was there, which is as before.
\<close>

definition parses :: "byte list \<Rightarrow> nat \<Rightarrow> dt_node \<Rightarrow> nat \<Rightarrow> tree_arrays \<Rightarrow>
    error + nat option \<times> nat \<times> tree_arrays \<Rightarrow> bool" where
  "parses blob strings t p s r \<longleftrightarrow>
     (\<exists>s'. r = Inr (Some (nodes_next s), p + length (flat_node t), s') \<and> fresh s' \<and>
        nodes_next s' = nodes_next s + node_count t \<and> props_next s' = props_next s + prop_count t \<and>
        node_at blob strings s' (nodes_next s) (props_next s) t \<and>
        node_next (nodes_items s' ! nodes_next s) = None \<and>
        keeps {..<nodes_next s} {} {..<props_next s} s s')"

lemma parses_fresh_slot:
  "fresh s' \<Longrightarrow> i < nodes_next s' \<Longrightarrow> nodes_next s' \<le> 255 \<Longrightarrow> i < length (nodes_items s')"
  by (simp add: fresh_def capacities)

lemma store_child_frame:
  assumes "s' = store_child_link i j s at"
  shows "nodes_next s' = nodes_next s" "props_next s' = props_next s" "props_items s' = props_items s"
    "length (nodes_items s') = length (nodes_items s)"
    "node_name (nodes_items s' ! l) = node_name (nodes_items s ! l)"
    "node_properties (nodes_items s' ! l) = node_properties (nodes_items s ! l)"
    "l \<noteq> i \<Longrightarrow> node_child (nodes_items s' ! l) = node_child (nodes_items s ! l)"
    "Some l \<noteq> at \<Longrightarrow> node_next (nodes_items s' ! l) = node_next (nodes_items s ! l)"
  unfolding assms
  by (auto simp: store_child_link_def update_node_def nth_update_if split: option.splits)

lemma store_child_fresh:
  assumes "fresh s" and "i < nodes_next s" and "\<And>l. at = Some l \<Longrightarrow> l < nodes_next s"
  shows "fresh (store_child_link i j s at)"
  using assms by (auto simp: fresh_def store_child_link_def update_node_def nth_update_if split: option.splits)

text \<open>One more child: the node \<open>t\<close> has just been parsed into the slot \<open>j\<close> of \<open>s\<close> and is linked in.\<close>

lemma append_child:
  assumes links: "linked (read_child_link i s) None (roots (i + 1) ds)"
    and forest: "forest_at blob strings s (i + 1) m ds"
    and j: "j = i + 1 + nodes_count ds" and t: "node_at blob strings s j (m + props_count ds) t"
    and last: "node_next (nodes_items s ! j) = None"
    and fresh: "fresh s" and room: "nodes_next s = j + node_count t" "nodes_next s \<le> 255"
    and s': "s' = store_child_link i j s (tail_link None (roots (i + 1) ds))"
  shows "add_linked (read_child_link i s) (store_child_link i j s) = Inr s'"
    "linked (read_child_link i s') None (roots (i + 1) (ds @ [t]))"
    "forest_at blob strings s' (i + 1) m (ds @ [t])" "fresh s'" "keeps (- {i}) (set (roots (i + 1) ds)) UNIV s s'"
proof -
  let ?r = "roots (i + 1) ds"
  have range: "l \<in> set ?r \<Longrightarrow> i < l \<and> l < j" for l using roots_range [of l "i + 1" ds] j by auto
  have "j < length (nodes_items s)"
    using parses_fresh_slot [OF fresh _ room(2), of j] room(1) by simp
  then have "read_child_link i s (Some j) = Inr None" using last by (simp add: read_child_link_def)
  moreover have "distinct (?r @ [j])" using distinct_roots range by auto
  ultimately show "add_linked (read_child_link i s) (store_child_link i j s) = Inr s'"
    "linked (read_child_link i s') None (roots (i + 1) (ds @ [t]))"
    using child_list.add_linked_appends [OF links] by (simp_all add: s' roots_append j)
  have tail: "tail_link None ?r = Some l \<Longrightarrow> l \<in> set ?r" for l
    by (auto simp: tail_link_def split: if_splits)
  show keep: "keeps (- {i}) (set ?r) UNIV s s'"
    using store_child_frame [OF s'] tail unfolding keeps_def by (metis (no_types, lifting) ComplD singletonI)
  have "forest_at blob strings s' (i + 1) m ds"
    by (rule forest_at_frame [OF forest]) (rule keeps_mono [OF keep], auto)
  moreover have "node_at blob strings s' j (m + props_count ds) t"
    by (rule node_at_frame [OF t]) (rule keeps_mono [OF keep], use j in \<open>auto dest: range [simplified]\<close>)
  ultimately show "forest_at blob strings s' (i + 1) m (ds @ [t])"
    by (simp add: forest_append j)
  show "fresh s'" unfolding s'
    by (rule store_child_fresh [OF fresh]) (use room range tail j in \<open>force+\<close>)
qed

lemma node_parse_skip:
  "skip_nops blob q = skip_nops blob p \<Longrightarrow> DeviceTreeNode_parse f blob q s = DeviceTreeNode_parse f blob p s"
  by (cases f) simp_all

text \<open>What parsing \<open>t\<close> does wherever the blob blob_holds it, in every state with room for it.\<close>

definition node_parses :: "byte list \<Rightarrow> nat \<Rightarrow> dt_node \<Rightarrow> bool" where
  "node_parses blob strings t \<longleftrightarrow>
     (\<forall>p q s f. blob_holds blob p (flat_node t) \<longrightarrow> 4 dvd p \<longrightarrow> skip_nops blob q = skip_nops blob p \<longrightarrow> fresh s \<longrightarrow>
        nodes_next s + node_count t \<le> 255 \<longrightarrow> props_next s + prop_count t \<le> 255 \<longrightarrow> length blob < f + p \<longrightarrow>
        parses blob strings t p s (DeviceTreeNode_parse f blob q s))"

lemma node_parsesD:
  "node_parses blob strings t \<Longrightarrow> blob_holds blob p (flat_node t) \<Longrightarrow> 4 dvd p \<Longrightarrow> skip_nops blob q = skip_nops blob p \<Longrightarrow>
   fresh s \<Longrightarrow> nodes_next s + node_count t \<le> 255 \<Longrightarrow> props_next s + prop_count t \<le> 255 \<Longrightarrow>
   length blob < f + p \<Longrightarrow> parses blob strings t p s (DeviceTreeNode_parse f blob q s)"
  by (simp add: node_parses_def)

text \<open>The loop over the children, when parsing each of them does what it should.\<close>

lemma children_loop:
  assumes "\<forall>t\<in>set cs. node_parses blob strings t"
    and "blob_holds blob p (concat (map flat_node cs) @ flat_nops e @ be32 STRUCTURE_END_NODE)" and "4 dvd p"
    and "skip_nops blob q = skip_nops blob p" and "fresh s"
    and "nodes_next s = i + 1 + nodes_count ds" and "props_next s = m + props_count ds"
    and "nodes_next s + nodes_count cs \<le> 255" and "props_next s + props_count cs \<le> 255"
    and "linked (read_child_link i s) None (roots (i + 1) ds)" and "forest_at blob strings s (i + 1) m ds"
    and "length blob + 1 < f + p"
  shows "\<exists>s'. parse_children_loop f blob i q s = Inr (p + length (concat (map flat_node cs)) + 4 * e, s') \<and>
    fresh s' \<and> nodes_next s' = i + 1 + nodes_count (ds @ cs) \<and> props_next s' = m + props_count (ds @ cs) \<and>
    linked (read_child_link i s') None (roots (i + 1) (ds @ cs)) \<and> forest_at blob strings s' (i + 1) m (ds @ cs) \<and>
    keeps {..<i} {} {..<m} s s' \<and> node_name (nodes_items s' ! i) = node_name (nodes_items s ! i) \<and>
    node_properties (nodes_items s' ! i) = node_properties (nodes_items s ! i) \<and>
    node_next (nodes_items s' ! i) = node_next (nodes_items s ! i)"
  using assms
proof (induction cs arbitrary: p q s ds f)
  case Nil
  have h: "blob_holds blob p (flat_nops e @ be32 STRUCTURE_END_NODE)" "blob_holds blob (p + 4 * e) (be32 STRUCTURE_END_NODE)"
    using Nil.prems(2) by simp_all
  have skip: "skip_nops blob q = Inr (p + 4 * e)" using skip_nops_token [OF h(1)] Nil.prems(4) by simp
  obtain f2 where f: "f = Suc (Suc f2)"
    using Nil.prems(12) holds_le [OF h(1)] by (cases f; cases "f - 1") auto
  have "DeviceTreeNode_parse (Suc f2) blob (p + 4 * e) s = Inr (None, p + 4 * e, s)"
    using skip_nops_twice [OF skip] load32_be32 [OF h(2)] by simp
  then have "parse_children_loop f blob i q s = Inr (p + 4 * e, s)" using skip by (simp add: f)
  then show ?case using Nil by (simp add: keeps_def)
next
  case (Cons t cs)
  obtain k name ps cs' e' where t: "t = DNode k name ps cs' e'" by (cases t)
  have h: "blob_holds blob p (flat_node t)"
    "blob_holds blob (p + length (flat_node t)) (concat (map flat_node cs) @ flat_nops e @ be32 STRUCTURE_END_NODE)"
    using Cons.prems(2) by (simp_all add: add.assoc)
  have "blob_holds blob p (flat_nops k @ be32 STRUCTURE_BEGIN_NODE)" using h(1) by (simp add: t)
  then have skip: "skip_nops blob q = Inr (p + 4 * k)" using skip_nops_token Cons.prems(4) by simp
  have long: "4 \<le> length (flat_node t)" by (simp add: t)
  obtain f1 where f: "f = Suc f1" using Cons.prems(12) holds_le [OF h(1)] by (cases f) auto
  have "parses blob strings t p s (DeviceTreeNode_parse f1 blob q s)"
    by (rule node_parsesD [OF _ h(1) Cons.prems(3,4,5)]) (use Cons.prems f in auto)
  then obtain s2 where s2: "DeviceTreeNode_parse f1 blob q s =
      Inr (Some (nodes_next s), p + length (flat_node t), s2)" "fresh s2"
    "nodes_next s2 = nodes_next s + node_count t" "props_next s2 = props_next s + prop_count t"
    "node_at blob strings s2 (nodes_next s) (props_next s) t" "node_next (nodes_items s2 ! nodes_next s) = None"
    "keeps {..<nodes_next s} {} {..<props_next s} s s2"
    unfolding parses_def by blast
  let ?j = "nodes_next s"
  have j: "?j = i + 1 + nodes_count ds" by (rule Cons.prems(6))
  define s3 where "s3 = store_child_link i ?j s2 (tail_link None (roots (i + 1) ds))"
  have links: "linked (read_child_link i s2) None (roots (i + 1) ds)"
  proof (rule linked_frame [OF Cons.prems(10)])
    show "read_child_link i s2 None = read_child_link i s None"
      using s2(7) j by (simp add: read_child_link_def deref_def keeps_def)
    fix l assume "l \<in> set (roots (i + 1) ds)"
    then have "l < ?j" using roots_range [of l "i + 1" ds] j by simp
    then show "read_child_link i s2 (Some l) = read_child_link i s (Some l)"
      using s2(7) by (simp add: read_child_link_def deref_def keeps_def)
  qed
  have forest: "forest_at blob strings s2 (i + 1) m ds"
    by (rule forest_at_frame [OF Cons.prems(11)], rule keeps_mono [OF s2(7)]) (use j Cons.prems(7) in auto)
  have "node_at blob strings s2 ?j (m + props_count ds) t" using s2(5) Cons.prems(7) by simp
  note child = append_child [OF links forest j this s2(6,2,3) _ s3_def]
  have room: "nodes_next s2 \<le> 255" using Cons.prems(8) s2(3) by simp
  note store = store_child_frame [OF s3_def]
  have step: "parse_children_loop f blob i q s = parse_children_loop f1 blob i (p + length (flat_node t)) s3"
    using skip s2(1) child(1) [OF room] node_parse_skip [of blob "p + 4 * k" q f1 s] skip_nops_twice [OF skip]
    by (simp add: f)
  have IH: "\<forall>t\<in>set cs. node_parses blob strings t" using Cons.prems(1) by simp
  have at: "4 dvd p + length (flat_node t)" "nodes_next s3 = i + 1 + nodes_count (ds @ [t])"
    "props_next s3 = m + props_count (ds @ [t])" "nodes_next s3 + nodes_count cs \<le> 255"
    "props_next s3 + props_count cs \<le> 255" "length blob + 1 < f1 + (p + length (flat_node t))"
    using Cons.prems(3,6,7,8,9,12) store(1,2) s2(3,4) f long by simp_all
  from Cons.IH [OF IH h(2) at(1) refl child(4) [OF room] at(2,3,4,5) child(2) [OF room] child(3) [OF room] at(6)]
  obtain s' where s': "parse_children_loop f1 blob i (p + length (flat_node t)) s3 =
      Inr (p + length (flat_node t) + length (concat (map flat_node cs)) + 4 * e, s')" "fresh s'"
    "nodes_next s' = i + 1 + nodes_count ((ds @ [t]) @ cs)" "props_next s' = m + props_count ((ds @ [t]) @ cs)"
    "linked (read_child_link i s') None (roots (i + 1) ((ds @ [t]) @ cs))"
    "forest_at blob strings s' (i + 1) m ((ds @ [t]) @ cs)" "keeps {..<i} {} {..<m} s3 s'"
    "node_name (nodes_items s' ! i) = node_name (nodes_items s3 ! i)"
    "node_properties (nodes_items s' ! i) = node_properties (nodes_items s3 ! i)"
    "node_next (nodes_items s' ! i) = node_next (nodes_items s3 ! i)"
    by (elim exE conjE) rule
  have ni: "Some i \<noteq> tail_link None (roots (i + 1) ds)"
    using roots_range [of i "i + 1" ds] by (auto simp: tail_link_def split: if_splits) (metis last_in_set)
  have "keeps {..<i} {} {..<m} s s'"
  proof -
    have "keeps {..<i} {} {..<m} s s2" by (rule keeps_mono [OF s2(7)]) (use j Cons.prems(7) in auto)
    moreover have "keeps {..<i} {} {..<m} s2 s3"
      by (rule keeps_mono [OF child(5) [OF room]]) (use roots_range [of _ "i + 1" ds] in fastforce)+
    ultimately show ?thesis using s'(7) by (simp add: keeps_def)
  qed
  moreover have "node_name (nodes_items s' ! i) = node_name (nodes_items s ! i)"
    "node_properties (nodes_items s' ! i) = node_properties (nodes_items s ! i)"
    "node_next (nodes_items s' ! i) = node_next (nodes_items s ! i)"
    using s'(8,9,10) store(5,6) store(8) [OF ni] s2(7) j by (simp_all add: keeps_def)
  moreover have "parse_children_loop f blob i q s =
      Inr (p + length (concat (map flat_node (t # cs))) + 4 * e, s')"
    using step s'(1) by (simp add: add.assoc)
  ultimately show ?case using s'(2-6) by auto
qed

lemma parse_node_name_ok:
  assumes "blob_holds blob p (name @ [0])" and "0 \<notin> set name" and "4 dvd p"
    and "p + (length name + 1) + length (padding (length name + 1)) < 2 ^ 63"
  shows "parse_node_name blob p = Inr (p, p + (length name + 1) + length (padding (length name + 1)))"
  using node_name_end_at [OF assms(1,2)] align_offset_padding [OF assms(3,4)]
  by (simp add: parse_node_name_def del: length_padding)

text \<open>What follows the properties of a node is not a property.\<close>

lemma after_properties:
  assumes "blob_holds blob p (concat (map flat_node cs) @ flat_nops e @ be32 STRUCTURE_END_NODE)"
  shows "\<exists>q v. skip_nops blob p = Inr q \<and> load32 blob q = Inr v \<and> v \<noteq> SWAP_ENDIANNESS32 STRUCTURE_PROP"
proof -
  have token: "\<exists>q v. skip_nops blob p = Inr q \<and> load32 blob q = Inr v \<and> v \<noteq> SWAP_ENDIANNESS32 STRUCTURE_PROP"
    if "blob_holds blob p (flat_nops k @ be32 t)" "t \<noteq> STRUCTURE_NOP" "t \<noteq> STRUCTURE_PROP" for k t
  proof -
    have "load32 blob (p + 4 * k) = Inr (SWAP_ENDIANNESS32 t)" using that(1) by (intro load32_be32) simp
    then show ?thesis using skip_nops_token [OF that(1,2)] that(3) by simp
  qed
  show ?thesis
  proof (cases cs)
    case Nil
    then show ?thesis using assms by (intro token [of e STRUCTURE_END_NODE]) simp_all
  next
    case (Cons c cs')
    obtain k name ps cs'' e' where "c = DNode k name ps cs'' e'" by (cases c)
    then show ?thesis using assms Cons by (intro token [of k STRUCTURE_BEGIN_NODE]) simp_all
  qed
qed

text \<open>Claiming a node: its slot blob_holds nothing but the name.\<close>

lemma claim_node:
  assumes "fresh s" and "nodes_next s < 255"
    and "s' = update_node (nodes_next s) (node_name_update (\<lambda>_. Some p)) (s\<lparr>nodes_next := nodes_next s + 1\<rparr>)"
  shows "fresh s'" "nodes_items s' ! nodes_next s = zero_node\<lparr>node_name := Some p\<rparr>"
    "nodes_next s' = nodes_next s + 1" "props_next s' = props_next s" "nodes_next s < length (nodes_items s')"
    "keeps {..<nodes_next s} {} {..<props_next s} s s'"
  using assms(1,2) unfolding assms(3)
  by (auto simp: fresh_def capacities update_node_def keeps_def nth_update_if)


lemma props_at_frame:
  assumes "props_at blob strings s i m ps" and "keeps {} {} {m..<m + length ps} s s'"
    and "i < length (nodes_items s)" and "node_properties (nodes_items s' ! i) = node_properties (nodes_items s ! i)"
  shows "props_at blob strings s' i m ps"
proof -
  have "linked (read_property_link i s') None [m..<m + length ps]"
    by (rule linked_frame [where read = "read_property_link i s"])
      (use assms in \<open>auto simp: props_at_def keeps_def read_property_link_def deref_def\<close>)
  moreover have "list_all2 (prop_at blob strings s') [m..<m + length ps] ps"
    using assms by (auto simp: props_at_def keeps_def list_all2_conv_all_nth prop_at_def)
  ultimately show ?thesis by (simp add: props_at_def)
qed

text \<open>The node itself: where its properties start, and what is done with them.\<close>

lemma node_body:
  assumes h: "blob_holds blob p (flat_node (DNode k name ps cs e))" and p: "4 dvd p"
    and q: "skip_nops blob q = skip_nops blob p" and name: "0 \<notin> set name" and blob: "length blob < 2 ^ 63"
    and room: "nodes_next s < 255"
    and s2: "s2 = update_node (nodes_next s) (node_name_update (\<lambda>_. Some (p + 4 * k + 4))) (s\<lparr>nodes_next := nodes_next s + 1\<rparr>)"
  shows "\<exists>p2. 4 dvd p2 \<and> p + 8 \<le> p2 \<and> cstring (drop (p + 4 * k + 4) blob) name \<and>
    blob_holds blob p2 (concat (map flat_prop ps) @ concat (map flat_node cs) @ flat_nops e @ be32 STRUCTURE_END_NODE) \<and>
    p + length (flat_node (DNode k name ps cs e)) =
      p2 + length (concat (map flat_prop ps)) + length (concat (map flat_node cs)) + 4 * e + 4 \<and>
    DeviceTreeNode_parse (Suc f) blob q s =
      bindr (parse_properties_loop (Suc (length blob)) blob (nodes_next s) p2 s2) (\<lambda>(pointer3, s3).
      bindr (parse_children_loop f blob (nodes_next s) pointer3 s3) (\<lambda>(pointer4, s4).
      bindr (skip_nops blob pointer4) (\<lambda>pointer5.
      bindr (load32 blob pointer5) (\<lambda>token2.
        if token2 \<noteq> SWAP_ENDIANNESS32 STRUCTURE_END_NODE then Inl (Panic ''unclosed device tree node'')
        else Inr (Some (nodes_next s), pointer5 + 4, s4)))))"
proof -
  define rest where "rest = concat (map flat_prop ps) @ concat (map flat_node cs) @ flat_nops e @ be32 STRUCTURE_END_NODE"
  define p1 where "p1 = p + 4 * k"
  define p2 where "p2 = p1 + 4 + (length name + 1) + length (padding (length name + 1))"
  have start: "blob_holds blob p (flat_nops k @ be32 STRUCTURE_BEGIN_NODE)" "blob_holds blob p1 (be32 STRUCTURE_BEGIN_NODE)"
    using h by (simp_all add: p1_def)
  have "blob_holds blob (p1 + 4) ((name @ [0]) @ padding (length name + 1) @ rest)"
    using h by (simp add: p1_def rest_def add.assoc)
  then have named: "blob_holds blob (p1 + 4) (name @ [0])" "blob_holds blob (p1 + 4 + (length name + 1)) (padding (length name + 1) @ rest)"
    by (metis holds_append length_append_singleton Suc_eq_plus1)+
  then have body: "blob_holds blob p2 rest" unfolding p2_def by (metis holds_append)
  have al: "4 dvd p1 + 4" using p by (simp add: p1_def)
  have p2: "4 dvd p2" using al padding_dvd [of "length name + 1"] unfolding p2_def by (metis add.assoc dvd_add)
  have bound: "p2 < 2 ^ 63" using holds_le [OF body] blob by simp
  have "skip_nops blob q = Inr p1" "load32 blob p1 = Inr (SWAP_ENDIANNESS32 STRUCTURE_BEGIN_NODE)"
    using skip_nops_token [OF start(1)] load32_be32 [OF start(2)] q by (simp_all add: p1_def)
  moreover have "parse_node_name blob (p1 + 4) = Inr (p1 + 4, p2)"
    unfolding p2_def by (rule parse_node_name_ok [OF named(1) name al]) (rule bound [unfolded p2_def])
  moreover have "next_free (nodes_next s) NUM_DEVICE_TREE_NODES = (Some (nodes_next s), nodes_next s + 1)"
    using room by (simp add: next_free_def capacities)
  ultimately have "DeviceTreeNode_parse (Suc f) blob q s =
      bindr (parse_properties_loop (Suc (length blob)) blob (nodes_next s) p2 s2) (\<lambda>(pointer3, s3).
      bindr (parse_children_loop f blob (nodes_next s) pointer3 s3) (\<lambda>(pointer4, s4).
      bindr (skip_nops blob pointer4) (\<lambda>pointer5.
      bindr (load32 blob pointer5) (\<lambda>token2.
        if token2 \<noteq> SWAP_ENDIANNESS32 STRUCTURE_END_NODE then Inl (Panic ''unclosed device tree node'')
        else Inr (Some (nodes_next s), pointer5 + 4, s4)))))"
    by (simp add: s2 p1_def Let_def del: parse_properties_loop.simps)
  moreover have "p + 8 \<le> p2" using padding_dvd [of "length name + 1"] unfolding p2_def p1_def
    by (auto dest!: dvd_imp_le simp del: length_padding)
  moreover have "p + length (flat_node (DNode k name ps cs e)) =
      p2 + length (concat (map flat_prop ps)) + length (concat (map flat_node cs)) + 4 * e + 4"
    by (simp add: p1_def p2_def)
  moreover have "cstring (drop (p + 4 * k + 4) blob) name"
    using holds_cstring [OF named(1) name] by (simp add: p1_def)
  ultimately show ?thesis using p2 body by (intro exI [of _ p2]) (simp add: rest_def del: flat_node.simps)
qed

text \<open>Parsing a node, from its first NOP to its end token.\<close>

lemma parse_node:
  "dt_wf t \<Longrightarrow> blob_ok blob strings \<Longrightarrow> node_parses blob strings t"
proof (induction t)
  case (DNode k name ps cs e)
  let ?t = "DNode k name ps cs e"
  have wf: "0 \<notin> set name" "list_all (\<lambda>p. length (prop_bytes p) < 2 ^ 32) ps" "\<forall>c\<in>set cs. dt_wf c"
    using DNode.prems(1) by (simp_all add: list_all_iff)
  have children: "\<forall>c\<in>set cs. node_parses blob strings c" using DNode.IH DNode.prems(2) wf(3) by blast
  have small: "length blob < 2 ^ 63" using DNode.prems(2) by (simp add: blob_ok_def)
  show ?case unfolding node_parses_def
  proof (intro allI impI)
    fix p q s f
    assume h: "blob_holds blob p (flat_node ?t)" and p: "4 dvd p" and q: "skip_nops blob q = skip_nops blob p"
      and fresh: "fresh s" and nodes: "nodes_next s + node_count ?t \<le> 255"
      and props: "props_next s + prop_count ?t \<le> 255" and f: "length blob < f + p"
    let ?i = "nodes_next s"
    obtain f1 where f1: "f = Suc f1" using f holds_le [OF h] by (cases f) auto
    define s2 where "s2 = update_node ?i (node_name_update (\<lambda>_. Some (p + 4 * k + 4))) (s\<lparr>nodes_next := ?i + 1\<rparr>)"
    have room: "?i < 255" using nodes by simp
    note claimed = claim_node [OF fresh room s2_def]
    obtain p2 where p2: "4 dvd p2" "p + 8 \<le> p2" and name_at: "cstring (drop (p + 4 * k + 4) blob) name"
      and body: "blob_holds blob p2 (concat (map flat_prop ps) @ concat (map flat_node cs) @ flat_nops e @ be32 STRUCTURE_END_NODE)"
      and e: "p + length (flat_node ?t) =
        p2 + length (concat (map flat_prop ps)) + length (concat (map flat_node cs)) + 4 * e + 4"
      and run: "DeviceTreeNode_parse f blob q s =
        bindr (parse_properties_loop (Suc (length blob)) blob ?i p2 s2) (\<lambda>(pointer3, s3).
        bindr (parse_children_loop f1 blob ?i pointer3 s3) (\<lambda>(pointer4, s4).
        bindr (skip_nops blob pointer4) (\<lambda>pointer5.
        bindr (load32 blob pointer5) (\<lambda>token2.
          if token2 \<noteq> SWAP_ENDIANNESS32 STRUCTURE_END_NODE then Inl (Panic ''unclosed device tree node'')
          else Inr (Some ?i, pointer5 + 4, s4)))))"
      using node_body [OF h p q wf(1) small room s2_def, of f1] unfolding f1 by blast
    define p3 where "p3 = p2 + length (concat (map flat_prop ps))"
    define p4 where "p4 = p3 + length (concat (map flat_node cs))"
    have parts: "blob_holds blob p2 (concat (map flat_prop ps))"
      "blob_holds blob p3 (concat (map flat_node cs) @ flat_nops e @ be32 STRUCTURE_END_NODE)"
      "blob_holds blob (p4 + 4 * e) (be32 STRUCTURE_END_NODE)"
      using body by (simp_all add: p3_def p4_def)
    have p3: "4 dvd p3" unfolding p3_def by (rule dvd_add [OF p2(1)]) (rule dvd_concat, simp)
    have "props_at blob strings s2 ?i (props_next s) []"
      using claimed(2,5) by (simp add: props_at_def read_property_link_def zero_node_def)
    then obtain s3 fuel' where s3: "parse_properties_loop (Suc (length blob)) blob ?i p2 s2 =
        parse_properties_loop fuel' blob ?i p3 s3" "length blob < fuel' + p3" "fresh s3"
      "props_next s3 = props_next s + length ps" "nodes_next s3 = ?i + 1"
      "props_at blob strings s3 ?i (props_next s) ps" "keeps (- {?i}) {} {..<props_next s} s2 s3"
      "node_name (nodes_items s3 ! ?i) = Some (p + 4 * k + 4)" "node_child (nodes_items s3 ! ?i) = None"
      "node_next (nodes_items s3 ! ?i) = None"
      using properties_loop [OF parts(1) p2(1) wf(2) DNode.prems(2) claimed(1), of ?i "props_next s" "[]" "Suc (length blob)"]
        claimed props by (auto simp: p3_def zero_node_def add.assoc)
    obtain q3 v where q3: "skip_nops blob p3 = Inr q3" "load32 blob q3 = Inr v" "v \<noteq> SWAP_ENDIANNESS32 STRUCTURE_PROP"
      using after_properties [OF parts(2)] by blast
    obtain fuel1 where "fuel' = Suc fuel1" using s3(2) holds_le [OF parts(2)] by (cases fuel') auto
    then have props_done: "parse_properties_loop (Suc (length blob)) blob ?i p2 s2 = Inr (q3, s3)"
      using s3(1) properties_end [OF q3] by simp
    have i3: "?i < length (nodes_items s3)" using claimed(5) s3(7) by (simp add: keeps_def)
    obtain s' where s': "parse_children_loop f1 blob ?i q3 s3 = Inr (p4 + 4 * e, s')" "fresh s'"
      "nodes_next s' = ?i + 1 + nodes_count cs" "props_next s' = props_next s + length ps + props_count cs"
      "linked (read_child_link ?i s') None (roots (?i + 1) cs)"
      "forest_at blob strings s' (?i + 1) (props_next s + length ps) cs"
      "keeps {..<?i} {} {..<props_next s + length ps} s3 s'"
      "node_name (nodes_items s' ! ?i) = Some (p + 4 * k + 4)"
      "node_properties (nodes_items s' ! ?i) = node_properties (nodes_items s3 ! ?i)"
      "node_next (nodes_items s' ! ?i) = None"
      using children_loop [OF children parts(2) p3 _ s3(3), of q3 ?i "[]" "props_next s + length ps" f1]
        skip_nops_twice [OF q3(1)] q3(1) s3 nodes props f f1 i3 p2(2)
      by (auto simp: read_child_link_def p4_def p3_def)
    have parsed: "DeviceTreeNode_parse f blob q s = Inr (Some ?i, p + length (flat_node ?t), s')"
      using props_done s'(1) skip_nops_stop [OF load32_be32 [OF parts(3)]] load32_be32 [OF parts(3)]
      unfolding run e by (simp add: p3_def p4_def del: parse_properties_loop.simps)
    have "props_at blob strings s' ?i (props_next s) ps"
      by (rule props_at_frame [OF s3(6) keeps_mono [OF s'(7)] i3 s'(9)]) auto
    then have "node_at blob strings s' ?i (props_next s) ?t"
      using s' name_at i3 by (simp add: props_at_def keeps_def)
    moreover have "keeps {..<?i} {} {..<props_next s} s s'"
      using claimed(6) s3(7) s'(7) by (simp add: keeps_def)
    ultimately show "parses blob strings ?t p s (DeviceTreeNode_parse f blob q s)"
      unfolding parses_def using parsed s' by (intro exI [of _ s']) simp
  qed
qed

section \<open>The whole blob\<close>

text \<open>
  A blob in the format of the devicetree specification, version 17: the header, and at the offset it names the
  structure block with one root node and the end token.
\<close>

definition encodes :: "byte list \<Rightarrow> nat \<Rightarrow> dt_node \<Rightarrow> u32 \<Rightarrow> bool" where
  "encodes blob strings t cpu \<longleftrightarrow>
     blob_holds blob offsetof_magic (be32 DEVICE_TREE_MAGIC) \<and>
     blob_holds blob offsetof_version (be32 DEVICE_TREE_VERSION) \<and>
     blob_holds blob offsetof_boot_cpuid_phys (be32 cpu) \<and>
     blob_holds blob offsetof_off_dt_strings (be32 (of_nat strings)) \<and> strings < 2 ^ 32 \<and>
     (\<exists>off. blob_holds blob offsetof_off_dt_struct (be32 off) \<and> 4 dvd unat off \<and>
        blob_holds blob (unat off) (flat_node t @ be32 STRUCTURE_END))"

lemma encodes_blob_ok: "encodes blob strings t cpu \<Longrightarrow> length blob < 2 ^ 63 \<Longrightarrow> blob_ok blob strings"
  unfolding encodes_def blob_ok_def
  using load32_be32 [of blob offsetof_off_dt_strings "of_nat strings"] by (auto simp: unat_of_nat)

text \<open>The entry point on any root node: what remains are the checks of the header and of the end.\<close>

lemma DeviceTree_parse_encodes:
  assumes e: "encodes blob strings t cpu"
  shows "\<exists>p. blob_holds blob p (flat_node t @ be32 STRUCTURE_END) \<and> 4 dvd p \<and>
    DeviceTree_parse blob s =
      bindr (DeviceTreeNode_parse (length blob + 2) blob p s) (\<lambda>(parsed, pointer, s1).
        bindr (load32 blob pointer) (\<lambda>token.
          if token \<noteq> SWAP_ENDIANNESS32 STRUCTURE_END then Inl (Panic ''device tree structure not closed'')
          else case parsed of
              None \<Rightarrow> Inl (Panic ''device tree NULL root node'')
            | Some r \<Rightarrow> Inr (\<lparr>boot_cpuid_phys = cpu, root = r\<rparr>, s1)))"
proof -
  obtain off where off: "blob_holds blob offsetof_off_dt_struct (be32 off)" "4 dvd unat off"
    "blob_holds blob (unat off) (flat_node t @ be32 STRUCTURE_END)" using e by (auto simp: encodes_def)
  have h: "load32 blob offsetof_magic = Inr (SWAP_ENDIANNESS32 DEVICE_TREE_MAGIC)"
    "load32 blob offsetof_version = Inr (SWAP_ENDIANNESS32 DEVICE_TREE_VERSION)"
    "load32 blob offsetof_boot_cpuid_phys = Inr (SWAP_ENDIANNESS32 cpu)"
    "load32 blob offsetof_off_dt_struct = Inr (SWAP_ENDIANNESS32 off)"
    using e off by (simp_all add: encodes_def load32_be32)
  show ?thesis
    by (intro exI [of _ "unat off"] conjI off)
      (simp add: DeviceTree_parse_def h del: DeviceTreeNode_parse.simps cong: option.case_cong if_cong)
qed

lemma parse_encodes_arrays:
  assumes "encodes blob strings t cpu" and "dt_wf t" and "length blob < 2 ^ 63"
    and "node_count t \<le> 255" and "prop_count t \<le> 255"
  shows "\<exists>s. DeviceTree_parse blob empty_arrays = Inr (\<lparr>boot_cpuid_phys = cpu, root = 0\<rparr>, s) \<and>
    node_at blob strings s 0 0 t \<and> node_next (nodes_items s ! 0) = None \<and>
    nodes_next s = node_count t \<and> props_next s = prop_count t"
proof -
  obtain p where p: "blob_holds blob p (flat_node t @ be32 STRUCTURE_END)" "4 dvd p"
    "DeviceTree_parse blob empty_arrays =
      bindr (DeviceTreeNode_parse (length blob + 2) blob p empty_arrays) (\<lambda>(parsed, pointer, s1).
        bindr (load32 blob pointer) (\<lambda>token.
          if token \<noteq> SWAP_ENDIANNESS32 STRUCTURE_END then Inl (Panic ''device tree structure not closed'')
          else case parsed of
              None \<Rightarrow> Inl (Panic ''device tree NULL root node'')
            | Some r \<Rightarrow> Inr (\<lparr>boot_cpuid_phys = cpu, root = r\<rparr>, s1)))"
    using DeviceTree_parse_encodes [OF assms(1), of empty_arrays] by blast
  have h: "blob_holds blob p (flat_node t)" "blob_holds blob (p + length (flat_node t)) (be32 STRUCTURE_END)"
    using p(1) by simp_all
  have "node_parses blob strings t"
    by (rule parse_node [OF assms(2) encodes_blob_ok [OF assms(1,3)]])
  then have "parses blob strings t p empty_arrays (DeviceTreeNode_parse (length blob + 2) blob p empty_arrays)"
    by (rule node_parsesD [OF _ h(1) p(2) refl fresh_empty]) (simp_all add: empty_arrays_def assms)
  then obtain s where "DeviceTreeNode_parse (length blob + 2) blob p empty_arrays =
      Inr (Some 0, p + length (flat_node t), s)" "nodes_next s = node_count t" "props_next s = prop_count t"
    "node_at blob strings s 0 0 t" "node_next (nodes_items s ! 0) = None"
    by (auto simp: parses_def empty_arrays_def)
  then show ?thesis using load32_be32 [OF h(2)] by (simp add: p(3) del: DeviceTreeNode_parse.simps)
qed

text \<open>
  C20: on the flattened form of a tree of at most 255 nodes and 255 properties, with NOP tokens anywhere
  inside, the parser succeeds and the arrays hold exactly that tree: each node with its name, its
  properties and its children, in document order.
\<close>

theorem DeviceTree_parse_encoded:
  assumes "encodes blob strings t cpu" and "dt_wf t" and "length blob < 2 ^ 63"
    and "node_count t \<le> 255" and "prop_count t \<le> 255"
  shows "\<exists>s. DeviceTree_parse blob empty_arrays = Inr (\<lparr>boot_cpuid_phys = cpu, root = 0\<rparr>, s) \<and>
    node_at blob strings s 0 0 t \<and> node_next (nodes_items s ! 0) = None \<and>
    nodes_next s = node_count t \<and> props_next s = prop_count t"
  by (rule parse_encodes_arrays [OF assms])

text \<open>A blob: a root with one property and two children, the second of them with a NOP before it.\<close>

definition sample_tree :: dt_node where
  "sample_tree = DNode 0 [] [DProp 0 0 [1, 2, 3]]
     [DNode 0 [99] [] [] 0, DNode 1 [98] [DProp 1 2 []] [] 0] 1"

lemma sample_tree_counts: "dt_wf sample_tree" "node_count sample_tree = 3" "prop_count sample_tree = 2"
  by (simp_all add: sample_tree_def)

definition sample_blob :: "byte list" where
  "sample_blob = be32 DEVICE_TREE_MAGIC @ be32 0 @ be32 44 @ be32 40 @ be32 0 @ be32 DEVICE_TREE_VERSION @ be32 16 @
     be32 3 @ be32 0 @ be32 0 @ [120, 0, 121, 0] @ flat_node sample_tree @ be32 STRUCTURE_END"

lemma sample_blob_encodes: "encodes sample_blob 40 sample_tree 3" "length sample_blob = 124"
proof -
  have "blob_holds sample_blob (unat (44 :: u32)) (flat_node sample_tree @ be32 STRUCTURE_END)"
    by (simp add: blob_holds_def sample_blob_def)
  then show "encodes sample_blob 40 sample_tree 3"
    unfolding encodes_def
    by (intro conjI exI [of _ 44])
      (simp_all add: blob_holds_def sample_blob_def offsetof_magic_def offsetof_version_def offsetof_boot_cpuid_phys_def
        offsetof_off_dt_strings_def offsetof_off_dt_struct_def)
  show "length sample_blob = 124" by (simp add: sample_blob_def sample_tree_def)
qed

theorem DeviceTree_parse_encoded_witness:
  "\<exists>s. DeviceTree_parse sample_blob empty_arrays = Inr (\<lparr>boot_cpuid_phys = 3, root = 0\<rparr>, s) \<and>
    node_at sample_blob 40 s 0 0 sample_tree \<and> node_next (nodes_items s ! 0) = None \<and>
    nodes_next s = 3 \<and> props_next s = 2"
  using DeviceTree_parse_encoded [OF sample_blob_encodes(1) sample_tree_counts(1)]
  by (simp add: sample_blob_encodes(2) sample_tree_counts)

end
