(* ===== verification/Kernel_Boot.thy ===== *)
theory Kernel_Boot
  imports Boot_Spec Device_Tree_Spec
begin

text \<open>
  The whole boot of the primary hart: from zeroed variables to the first instruction of the first process.
\<close>

section \<open>A critical section that prints\<close>

text \<open>A hart that runs the boot code, outside the lock on its output.\<close>

definition booting :: "nat \<Rightarrow> kernel \<Rightarrow> bool" where
  "booting h k \<longleftrightarrow> trap_ready h k \<and> locked (locks k stdout_lock) = 0"

text \<open>What printing under that lock comes to, once it is released.\<close>

definition printed :: "nat \<Rightarrow> kernel \<Rightarrow> kernel \<Rightarrow> bool" where
  "printed h k k' \<longleftrightarrow> booting h k' \<and> csrs k' = csrs k \<and> vm k' = vm k \<and> kernel_table k' = kernel_table k \<and>
     map strip_process (processes k') = map strip_process (processes k) \<and>
     map strip_hart (hart_scratches k') = map strip_hart (hart_scratches k) \<and>
     current_process (my_hart_scratch h k') = current_process (my_hart_scratch h k)"

lemma printed_trans: "printed h k k1 \<Longrightarrow> printed h k1 k2 \<Longrightarrow> printed h k k2"
  by (simp add: printed_def)

lemma printed_section:
  assumes "booting h k"
  shows "SpinLock_acquire stdout_lock h k = Inr (False, entered stdout_lock h k)" "quiet_io h (entered stdout_lock h k)"
    "sbi (entered stdout_lock h k) = sbi k"
    "quiet_io h k2 \<Longrightarrow> output_frame (entered stdout_lock h k) k2 \<Longrightarrow>
       \<exists>k3. SpinLock_release stdout_lock h k2 = Inr k3 \<and> printed h k k3 \<and> sbi k3 = sbi k2"
proof -
  let ?k1 = "entered stdout_lock h k"
  have r: "sched_ok h k" "lock_depth (my_hart_scratch h k) = 0" "\<not> traps_enabled h k" "locked (locks k trap_print_lock) = 0"
      "locked (locks k io_spinlock) = 0" "buffers_ok k" "locked (locks k stdout_lock) = 0"
    using assms by (simp_all add: booting_def trap_ready_def)
  have hart: "hart_ok h k" and h: "h < length (hart_scratches k)" using r(1) by (simp_all add: sched_ok_def hart_ok_def)
  note f = entered_fields [OF h, of stdout_lock]
  have m: "my_hart_scratch h ?k1 = (my_hart_scratch h k)\<lparr>interrupts_before_locking := False, lock_depth := 1\<rparr>"
    using r by (simp add: f)
  show "SpinLock_acquire stdout_lock h k = Inr (False, ?k1)" using r by (simp add: SpinLock_acquire_eq)
  have bufs: "buffers_ok ?k1 = buffers_ok k"
    by (rule buffers_ok_cong) (simp_all add: entered_def Let_def my_hart_scratch_def map_list_update_same)
  show q1: "quiet_io h ?k1" using r h bufs by (simp add: quiet_io_def hart_ok_def m f)
  show "sbi ?k1 = sbi k" by (simp add: f)
  show "\<exists>k3. SpinLock_release stdout_lock h k2 = Inr k3 \<and> printed h k k3 \<and> sbi k3 = sbi k2"
    if q: "quiet_io h k2" and fr: "output_frame ?k1 k2"
  proof -
    have h1: "h < length (hart_scratches ?k1)" using h by (simp add: f)
    have strip: "strip_hart (my_hart_scratch h k2) = strip_hart (my_hart_scratch h ?k1)" by (rule output_frame_hart [OF fr h1])
    have len: "length (hart_scratches k2) = length (hart_scratches k)" using output_frame_length(1) [OF fr] by (simp add: f)
    have "body_keeps h ?k1 k2"
      using q fr strip len by (simp add: body_keeps_def quiet_io_def output_frame_def strip_hart_def m f)
    note rel = SpinLock_release_after [OF hart this]
    let ?k3 = "k2\<lparr>csrs := csrs k, locks := (locks k2)(stdout_lock := \<lparr>locked = 0, hart_owner = -1\<rparr>),
       hart_scratches := (hart_scratches k2)[h := (my_hart_scratch h k2)\<lparr>lock_depth := lock_depth (my_hart_scratch h k)\<rparr>]\<rparr>"
    have h2: "h < length (hart_scratches k2)" using h len by simp
    have sched: "sched_of ?k3 = sched_of k"
    proof -
      have "sched_of ?k3 = sched_of k2" by (rule sched_of_cong) (simp_all add: my_hart_scratch_def map_list_update_same)
      then show ?thesis using sched_of_frame [OF fr] sched_of_entered by simp
    qed
    have ps: "map strip_process (processes k2) = map strip_process (processes k)"
      using fr by (simp add: output_frame_def f)
    have "processes_ok ?k1" using r(1) by (simp add: sched_ok_def processes_ok_def f)
    then have "processes_ok k2" by (rule processes_ok_frame [OF fr])
    then have "processes_ok ?k3" by (simp add: processes_ok_def)
    moreover have "hart_ok h ?k3" using hart h2 by (simp add: hart_ok_def my_hart_scratch_def traps_enabled_def)
    moreover have "locked (locks k2 processes_lock) = 0" "locked (locks k2 trap_print_lock) = 0" "locked (locks k2 io_spinlock) = 0"
      using fr q r(4,1) by (simp_all add: output_frame_def f quiet_io_def sched_ok_def)
    moreover have "buffers_ok ?k3 = buffers_ok k2"
      by (rule buffers_ok_cong) (simp_all add: my_hart_scratch_def map_list_update_same)
    then have "buffers_ok ?k3" using q by (simp add: quiet_io_def)
    ultimately have "booting h ?k3"
      using r h2 sched by (simp add: booting_def trap_ready_def sched_ok_def my_hart_scratch_def traps_enabled_def)
    moreover have "current_process (my_hart_scratch h ?k3) = current_process (my_hart_scratch h k)"
      using strip h2 by (simp add: my_hart_scratch_def) (simp add: strip_hart_def m my_hart_scratch_def [symmetric])
    moreover have "map strip_hart (hart_scratches ?k3) = map strip_hart (hart_scratches k)"
    proof (rule nth_equalityI)
      fix g assume g: "g < length (map strip_hart (hart_scratches ?k3))"
      then have "strip_hart (my_hart_scratch g k2) = strip_hart (my_hart_scratch g ?k1)"
        using output_frame_hart [OF fr] by (simp add: f len)
      then show "map strip_hart (hart_scratches ?k3) ! g = map strip_hart (hart_scratches k) ! g"
        using g h len m by (cases "g = h") (simp_all add: my_hart_scratch_def strip_hart_def, simp add: entered_def Let_def)
    qed (simp add: len)
    ultimately have "printed h k ?k3" using fr ps by (simp add: printed_def output_frame_def f)
    then show ?thesis using rel by auto
  qed
qed

section \<open>The zeroed kernel\<close>

definition zero_scratch :: HartScratch where
  "zero_scratch = \<lparr>hart_frame = TrapFrame_zero, current_process = None,
     hart_buffer = \<lparr>count = 0, capacity = 0, array = replicate BUFFER_LEN 0\<rparr>,
     interrupts_before_locking = False, lock_depth = 0\<rparr>"

text \<open>
  The variables of the kernel before its first instruction in C, with the registers that \<open>boot\<close> leaves on hart \<open>h\<close>.
\<close>

definition at_reset :: "Symbols \<Rightarrow> nat \<Rightarrow> kernel \<Rightarrow> bool" where
  "at_reset sy h k \<longleftrightarrow> hart_scratches k = replicate HART_MAXIMUM zero_scratch \<and>
     processes k = replicate PROCESSES_MAXIMUM Process_zero \<and> (\<forall>l. locked (locks k l) = 0) \<and>
     kernel_table k = \<lparr>kernel_page_table = 0, kernel_page_satp = 0\<rparr> \<and> h < HART_MAXIMUM \<and> \<not> traps_enabled h k \<and>
     csrs k h sscratch = hart_scratch_addr sy h"

lemma init_loop_zero:
  assumes "Buffer_wrap (array (hart_buffer zero_scratch)) BUFFER_LEN = Inr b" and "hart_scratches k = replicate m zero_scratch"
    and "n \<le> m"
  shows "HartScratch_init_loop n k = Inr (k\<lparr>hart_scratches :=
     replicate n (zero_scratch\<lparr>hart_buffer := b\<rparr>) @ replicate (m - n) zero_scratch\<rparr>)"
  using assms(3)
proof (induction n)
  case 0
  then show ?case using assms(2) by simp
next
  case (Suc n)
  let ?done = "replicate n (zero_scratch\<lparr>hart_buffer := b\<rparr>)"
  have split: "replicate (m - n) zero_scratch = zero_scratch # replicate (m - Suc n) zero_scratch"
    using Suc.prems by (metis Suc_diff_Suc Suc_le_lessD replicate_Suc)
  have at: "(?done @ replicate (m - n) zero_scratch) ! n = zero_scratch" by (simp add: nth_append split)
  have upd: "(?done @ replicate (m - n) zero_scratch)[n := x] = ?done @ x # replicate (m - Suc n) zero_scratch" for x
    by (simp add: list_update_append split)
  show ?case
    using Suc by (simp add: my_hart_scratch_def at assms(1) set_scratch_def upd replicate_append_same [symmetric] del: replicate_append_same)
qed

lemma reset_booting:
  assumes "at_reset sy h k"
  shows "\<exists>k1. HartScratch_init_all k = Inr k1 \<and> booting h k1 \<and> k1 = k\<lparr>hart_scratches := hart_scratches k1\<rparr> \<and>
     current_process (my_hart_scratch h k1) = None \<and>
     map strip_hart (hart_scratches k1) = replicate HART_MAXIMUM (strip_hart zero_scratch)"
proof -
  have "0 < BUFFER_LEN" "BUFFER_LEN \<le> length (array (hart_buffer zero_scratch))"
    by (simp_all add: zero_scratch_def BUFFER_LEN_def)
  then obtain b where b: "Buffer_wrap (array (hart_buffer zero_scratch)) BUFFER_LEN = Inr b" "Buffer_ok b"
    using Buffer_wrap_ok by blast
  let ?hs = "zero_scratch\<lparr>hart_buffer := b\<rparr>"
  let ?k1 = "k\<lparr>hart_scratches := replicate HART_MAXIMUM ?hs\<rparr>"
  have r: "hart_scratches k = replicate HART_MAXIMUM zero_scratch" "processes k = replicate PROCESSES_MAXIMUM Process_zero"
      "\<forall>l. locked (locks k l) = 0" "h < HART_MAXIMUM" "\<not> traps_enabled h k"
    using assms by (simp_all add: at_reset_def)
  have "my_hart_scratch h ?k1 = ?hs" using r(4) by (simp add: my_hart_scratch_def)
  then have m: "lock_depth (my_hart_scratch h ?k1) = 0" "current_process (my_hart_scratch h ?k1) = None"
    unfolding zero_scratch_def by simp_all
  have "HartScratch_init_all k = Inr ?k1"
    using init_loop_zero [OF b(1) r(1), of HART_MAXIMUM] by (simp add: HartScratch_init_all_def)
  moreover have "booting h ?k1"
  proof -
    have "hart_ok h ?k1" using r(4,5) m(1) unfolding hart_ok_def by (simp add: traps_enabled_def)
    moreover have "processes_ok ?k1" by (simp add: processes_ok_def r(2) Process_zero_def)
    moreover have "sched_inv (sched_of ?k1)"
      by (auto simp: sched_inv_def sched_of_def zero_scratch_def r(2) Process_zero_def split: if_splits)
    moreover have "buffers_ok ?k1" using b(2) by (simp add: buffers_ok_def r(2) Process_zero_def)
    ultimately show ?thesis
      using r m(1) unfolding booting_def trap_ready_def sched_ok_def by (simp add: traps_enabled_def)
  qed
  moreover have "map strip_hart (hart_scratches ?k1) = replicate HART_MAXIMUM (strip_hart zero_scratch)"
    by (simp add: strip_hart_def)
  ultimately show ?thesis using m(2) by (intro exI [of _ ?k1]) simp
qed

text \<open>Nothing of the above looks at the memory.\<close>

lemma booting_memory: "booting h (k\<lparr>kernel_table := kt, vm := v\<rparr>) = booting h k"
proof -
  have "sched_of (k\<lparr>kernel_table := kt, vm := v\<rparr>) = sched_of k" by (rule sched_of_cong) simp_all
  then show ?thesis
    by (simp add: booting_def trap_ready_def sched_ok_def hart_ok_def processes_ok_def traps_enabled_def my_hart_scratch_def
        buffers_ok_def)
qed

section \<open>From the reset to the processes\<close>

text \<open>What the linker, the build and the board have to give the kernel; the board has no second serial port.\<close>

definition image_ok :: "Image \<Rightarrow> VM \<Rightarrow> bool" where
  "image_ok im v \<longleftrightarrow> vm_ok (im_sections im) v {} \<and> section_ok (SECTION_MEMORY (im_sections im)) \<and> board_ok (im_board im) \<and>
     sifive_uart1 (im_board im) = 0 \<and> 0 \<in> set (im_compiler_string im) \<and> length (im_compiler_string im) < 2 ^ 31 \<and>
     (\<forall>s\<in>set (im_user_programs im). user_sections_ok (im_sections im) s USER_PROGRAM_BASE)"

text \<open>The two critical sections of the boot code.\<close>

lemma boot_sections:
  assumes "booting h k" and im: "image_ok im v"
  shows "\<exists>k3 k5 k6 k7 k8 n k9 k10. SpinLock_acquire stdout_lock h k = Inr (False, k3) \<and>
     SpinLock_release stdout_lock h k3 = Inr k5 \<and> SpinLock_acquire stdout_lock h k5 = Inr (False, k6) \<and>
     print_startup (im_symbols im) (im_compiler_string im) hart_id True h k6 = Inr k7 \<and>
     start_harts fw (boot_addr (im_symbols im)) headers hart_id (num_normal_harts (im_board im))
       (num_monitor_harts (im_board im)) h k7 = Inr k8 \<and>
     kprintf h (bytes_of ''done starting harts'' @ [10, 10, 0]) [] k8 = Inr (n, k9) \<and>
     SpinLock_release stdout_lock h k9 = Inr k10 \<and> printed h k k10 \<and>
     requests (sbi k10) = requests (sbi k) @ map (start_call (boot_addr (im_symbols im)) headers)
       (other_harts hart_id (num_normal_harts (im_board im)) (num_monitor_harts (im_board im)))"
proof -
  let ?k3 = "entered stdout_lock h k"
  note one = printed_section [OF assms(1)]
  obtain k5 where k5: "SpinLock_release stdout_lock h ?k3 = Inr k5" "printed h k k5" "sbi k5 = sbi ?k3"
    using one(4) [OF one(2) output_frame_refl] by blast
  have "booting h k5" using k5(2) by (simp add: printed_def)
  note two = printed_section [OF this]
  let ?k6 = "entered stdout_lock h k5"
  obtain k7 where k7: "print_startup (im_symbols im) (im_compiler_string im) hart_id True h ?k6 = Inr k7" "prints_only h ?k6 k7"
    using print_startup_ok [OF two(2), of "im_compiler_string im"] im unfolding image_ok_def by blast
  obtain k8 where k8: "start_harts fw (boot_addr (im_symbols im)) headers hart_id (num_normal_harts (im_board im))
      (num_monitor_harts (im_board im)) h k7 = Inr k8" "quiet_io h k8" "output_frame k7 k8"
      "requests (sbi k8) = requests (sbi k7) @ map (start_call (boot_addr (im_symbols im)) headers)
        (other_harts hart_id (num_normal_harts (im_board im)) (num_monitor_harts (im_board im)))"
    using start_harts_ok [OF quiet_prints [OF k7(2)]] by blast
  have "\<exists>n k9. kprintf h (bytes_of ''done starting harts'' @ [10, 10, 0]) [] k8 = Inr (n, k9) \<and> prints_only h k8 k9"
    by (rule kprintf_plain [OF k8(2), of "bytes_of ''done starting harts'' @ [10, 10]"]) (simp_all add: plain_simps)
  then obtain n k9 where k9: "kprintf h (bytes_of ''done starting harts'' @ [10, 10, 0]) [] k8 = Inr (n, k9)" "prints_only h k8 k9"
    by blast
  have "output_frame ?k6 k9" "quiet_io h k9"
    using k7(2) k8(3) k9(2) output_frame_trans unfolding prints_only_def by blast+
  then obtain k10 where k10: "SpinLock_release stdout_lock h k9 = Inr k10" "printed h k5 k10" "sbi k10 = sbi k9"
    using two(4) by blast
  have "requests (sbi k10) = requests (sbi k) @ map (start_call (boot_addr (im_symbols im)) headers)
       (other_harts hart_id (num_normal_harts (im_board im)) (num_monitor_harts (im_board im)))"
    using k7(2) k8(4) k9(2) by (simp add: k10(3) prints_only_def one(3) two(3) k5(3))
  then show ?thesis
    using one(1) k5(1) two(1) k7(1) k8(1) k9(1) k10(1) printed_trans [OF k5(2) k10(2)] by blast
qed

text \<open>Setting the trap vector.\<close>

lemma set_vector:
  shows "hart_scratches (set_trap_vector sy h k) = hart_scratches k" "processes (set_trap_vector sy h k) = processes k"
    "locks (set_trap_vector sy h k) = locks k" "vm (set_trap_vector sy h k) = vm k"
    "kernel_table (set_trap_vector sy h k) = kernel_table k" "sbi (set_trap_vector sy h k) = sbi k"
    "csrs (set_trap_vector sy h k) h stvec = trap_vector_addr sy"
    "c \<noteq> stvec \<Longrightarrow> csrs (set_trap_vector sy h k) h c = csrs k h c"
  by (simp_all add: set_trap_vector_def csr_write_fields)

lemma set_vector_ready: "trap_ready h (set_trap_vector sy h k) = trap_ready h k"
proof -
  have "sched_of (set_trap_vector sy h k) = sched_of k" by (rule sched_of_cong) (simp_all add: set_vector)
  then show ?thesis
    by (simp add: trap_ready_def sched_ok_def hart_ok_def processes_ok_def traps_enabled_def my_hart_scratch_def buffers_ok_def
        set_vector)
qed

lemma primary_setup_ok:
  assumes reset: "at_reset (im_symbols im) h k" and im: "image_ok im (vm k)"
    and table: "PageTable_kernel_init (im_sections im) (im_board im) (kernel_table k) (vm k) = Inr (kt, vm1)"
    and tree: "DeviceTree_parse blob arrays = Inr (tree, arrays1)" and few: "length (im_user_programs im) \<le> 8"
  shows "(primary_setup im fw hart_id blob headers arrays h k = Inl out_of_pages \<and>
       pages_left (im_sections im) vm1 < boot_pages (im_sections im) (im_user_programs im)) \<or>
    (\<exists>k' a. primary_setup im fw hart_id blob headers arrays h k = Inr (tree, arrays1, k') \<and>
       started (im_sections im) (lookup (mem vm1) (kernel_page_table kt))
         (boot_table (im_sections im) (im_entries im) a (im_user_programs im)) h k' \<and>
       requests (sbi k') = requests (sbi k) @ map (start_call (boot_addr (im_symbols im)) headers)
         (other_harts hart_id (num_normal_harts (im_board im)) (num_monitor_harts (im_board im))) \<and>
       csrs k' h stvec = trap_vector_addr (im_symbols im) \<and> csrs k' h sscratch = hart_scratch_addr (im_symbols im) h \<and>
       kernel_table k' = kt \<and> current_process (my_hart_scratch h k') = None \<and>
       map strip_hart (hart_scratches k') = replicate HART_MAXIMUM (strip_hart zero_scratch))"
proof -
  let ?ss = "im_sections im" and ?programs = "im_user_programs im"
  let ?K = "lookup (mem vm1) (kernel_page_table kt)"
  have r: "kernel_table k = \<lparr>kernel_page_table = 0, kernel_page_satp = 0\<rparr>" "csrs k h sscratch = hart_scratch_addr (im_symbols im) h"
      "processes k = replicate 32 Process_zero"
    using reset by (simp_all add: at_reset_def maximum_32)
  obtain k1 where k1: "HartScratch_init_all k = Inr k1" "booting h k1" "k1 = k\<lparr>hart_scratches := hart_scratches k1\<rparr>"
      "current_process (my_hart_scratch h k1) = None"
      "map strip_hart (hart_scratches k1) = replicate HART_MAXIMUM (strip_hart zero_scratch)"
    using reset_booting [OF reset] by blast
  have k1_same: "vm k1 = vm k" "kernel_table k1 = kernel_table k" "processes k1 = processes k" "csrs k1 = csrs k" "sbi k1 = sbi k"
    by (subst k1(3), simp)+
  let ?k2 = "k1\<lparr>kernel_table := kt, vm := vm1\<rparr>"
  have boot2: "booting h ?k2" using k1(2) by (simp add: booting_memory)
  obtain k3 k5 k6 k7 k8 n k9 k10 where p: "SpinLock_acquire stdout_lock h ?k2 = Inr (False, k3)"
     "SpinLock_release stdout_lock h k3 = Inr k5" "SpinLock_acquire stdout_lock h k5 = Inr (False, k6)"
     "print_startup (im_symbols im) (im_compiler_string im) hart_id True h k6 = Inr k7"
     "start_harts fw (boot_addr (im_symbols im)) headers hart_id (num_normal_harts (im_board im))
       (num_monitor_harts (im_board im)) h k7 = Inr k8"
     "kprintf h (bytes_of ''done starting harts'' @ [10, 10, 0]) [] k8 = Inr (n, k9)"
     "SpinLock_release stdout_lock h k9 = Inr k10" "printed h ?k2 k10"
     "requests (sbi k10) = requests (sbi ?k2) @ map (start_call (boot_addr (im_symbols im)) headers)
       (other_harts hart_id (num_normal_harts (im_board im)) (num_monitor_harts (im_board im)))"
    using boot_sections [OF boot2 im, of hart_id fw headers] by blast
  have prim: "primary_setup im fw hart_id blob headers arrays h k =
      bindr (start_example_processes ?ss (im_entries im) ?programs h k10) (\<lambda>k11.
        Inr (tree, arrays1, set_trap_vector (im_symbols im) h k11))"
    using im table tree by (simp add: primary_setup_def k1(1) k1_same p(1-7) image_ok_def)
  have k10: "trap_ready h k10" "vm k10 = vm1" "kernel_table k10 = kt" "csrs k10 = csrs k"
      "map strip_process (processes k10) = map strip_process (replicate 32 Process_zero)"
      "current_process (my_hart_scratch h k10) = None"
      "map strip_hart (hart_scratches k10) = replicate HART_MAXIMUM (strip_hart zero_scratch)"
    using p(8) k1(4,5) r(3) by (simp_all add: printed_def booting_def k1_same) (simp_all add: my_hart_scratch_def)
  have unused: "proc_state (processes k10 ! q) = PROCESS_UNUSED" if "q < 32" for q
  proof -
    have "length (processes k10) = 32" using k10(5) by (metis length_map length_replicate)
    then have "strip_process (processes k10 ! q) = strip_process Process_zero"
      using arg_cong [OF k10(5), of "\<lambda>l. l ! q"] that by simp
    then show ?thesis by (simp add: strip_process_def Process_zero_def)
  qed
  have kt: "vm_ok ?ss vm1 {kernel_page_table kt}"
  proof -
    have "kernel_page_table (kernel_table k) = 0" by (simp add: r(1))
    from PageTable_kernel_init_ok(4) [OF _ _ _ this table] im show ?thesis by (simp add: image_ok_def)
  qed
  have "spaces_ok ?ss ?K [] {kernel_page_table kt} k10" using kt by (simp add: spaces_ok_def k10)
  then have "started ?ss ?K [] h k10" using k10(1) unused by (auto simp: started_def)
  from start_example_processes_ok [OF this, of ?programs "im_entries im"] im few
  obtain a where a: "outcome ?ss ?K (boot_pages ?ss ?programs) (boot_table ?ss (im_entries im) a ?programs) h k10
      (start_example_processes ?ss (im_entries im) ?programs h k10)"
    by (auto simp: image_ok_def)
  from a show ?thesis
    unfolding outcome_def
  proof
    assume "start_example_processes ?ss (im_entries im) ?programs h k10 = Inl out_of_pages \<and>
      pages_left ?ss (vm k10) < boot_pages ?ss ?programs"
    then show ?thesis by (simp add: prim k10(2))
  next
    assume "\<exists>k'. start_example_processes ?ss (im_entries im) ?programs h k10 = Inr k' \<and>
      started ?ss ?K (boot_table ?ss (im_entries im) a ?programs) h k' \<and> boot_frame k10 k' \<and>
      pages_left ?ss (vm k10) \<le> pages_left ?ss (vm k') + boot_pages ?ss ?programs"
    then obtain k11 where k11: "start_example_processes ?ss (im_entries im) ?programs h k10 = Inr k11"
        "started ?ss ?K (boot_table ?ss (im_entries im) a ?programs) h k11" "boot_frame k10 k11" by blast
    let ?k' = "set_trap_vector (im_symbols im) h k11"
    note vec = set_vector [where sy = "im_symbols im" and h = h and k = k11]
    have st: "started ?ss ?K (boot_table ?ss (im_entries im) a ?programs) h ?k'"
      using k11(2) has_space_cong [of ?k' k11] by (simp add: started_def spaces_ok_def vec set_vector_ready)
    have h: "h < length (hart_scratches k10)" using k10(1) by (simp add: trap_ready_def sched_ok_def hart_ok_def)
    have "length (hart_scratches k11) = length (hart_scratches k10)"
      using k11(3) unfolding boot_frame_def by (metis length_map)
    then have "strip_hart (hart_scratches k11 ! h) = strip_hart (hart_scratches k10 ! h)"
      using k11(3) h unfolding boot_frame_def by (metis nth_map)
    then have "current_process (my_hart_scratch h ?k') = None"
      using k10(6) by (simp add: my_hart_scratch_def vec strip_hart_def)
    then show ?thesis
      using st k11(1,3) p(9) k10(3,4,7) r(2)
      by (simp add: prim vec boot_frame_def k1_same) blast
  qed
qed

section \<open>The properties\<close>

text \<open>What \<open>boot\<close> finds at reset, for the witnesses.\<close>

definition sample_reset :: kernel where
  "sample_reset = (sample_kernel 9 (replicate PROCESSES_MAXIMUM Process_zero))
     \<lparr>hart_scratches := replicate HART_MAXIMUM zero_scratch, vm := sample_vm,
      csrs := (\<lambda>h c. if c = sscratch then hart_scratch_addr sample_symbols h else 0)\<rparr>"

lemma sample_reset: "at_reset sample_symbols 0 sample_reset" "vm sample_reset = sample_vm"
  by (simp_all add: at_reset_def sample_reset_def sample_kernel_def HART_MAXIMUM_def traps_enabled_def)

definition sample_image :: Image where
  "sample_image = \<lparr>im_symbols = sample_symbols, im_sections = sample_sections, im_board = board_unknown,
     im_entries = \<lparr>process_load_a0 = 0x200100, process_load_from_stack = 0x200200, process_that_returns = 0x200300,
       process_mem_ops = 0x200400, process_never_yields = 0x200500\<rparr>,
     im_user_programs = [sample_section 0x80200000 0x80201000], im_compiler_string = [99, 0]\<rparr>"

lemma sample_image: "image_ok sample_image sample_vm" "im_symbols sample_image = sample_symbols"
    "im_sections sample_image = sample_sections" "im_board sample_image = board_unknown"
    "im_user_programs sample_image = [sample_section 0x80200000 0x80201000]"
proof -
  have "section_ok (SECTION_MEMORY sample_sections)"
    by (simp add: section_ok_def sample_sections_def sample_section_def page_aligned_mod PAGE_SIZE_def)
  then show "image_ok sample_image sample_vm"
    using sample_ok boards_ok(3) sample_user_sections
    by (simp add: image_ok_def USER_PROGRAM_BASE_def board_unknown_def sample_image_def)
qed (simp_all add: sample_image_def)

lemma sample_need: "boot_pages sample_sections [sample_section 0x80200000 0x80201000] = 37"
  by (simp add: boot_pages_def user_init_pages_def rounds_def section_rounds_def sample_sections_def sample_section_def)

lemma boot_first:
  assumes "started ss K (boot_table ss entries a programs) h k"
  obtains roots where "vm_ok ss (vm k) roots" "kernel_page_table (kernel_table k) \<in> roots"
    "lookup (mem (vm k)) (kernel_page_table (kernel_table k)) = K" "sched_ok h k"
    "proc_state (processes k ! 0) = PROCESS_READY" "frame_regs (proc_frame (processes k ! 0)) ra = process_load_a0 entries"
    "frame_regs (proc_frame (processes k ! 0)) a0 = 0"
    "proc_page_table (processes k ! 0) = kernel_page_table (kernel_table k)"
proof -
  let ?es = "boot_table ss entries a programs"
  have first: "?es ! 0 = kernel_process (process_load_a0 entries) 0" "0 < length ?es"
    by (simp_all add: boot_table_def upt_conv_Cons)
  obtain roots where sp: "spaces_ok ss K (map (snd \<circ> snd) ?es) roots k" using startedD(4) [OF assms] by blast
  then have "has_space roots k (proc_page_table (processes k ! 0)) (snd (snd (?es ! 0)))"
    using first(2) by (simp add: spaces_ok_def)
  then have "proc_page_table (processes k ! 0) = kernel_page_table (kernel_table k)"
    by (simp add: first(1) has_space_def)
  moreover have "proc_state (processes k ! 0) = PROCESS_READY" "frame_regs (proc_frame (processes k ! 0)) ra = fst (?es ! 0)"
      "frame_regs (proc_frame (processes k ! 0)) a0 = fst (snd (?es ! 0))"
    using assms first(2) by (auto simp: started_def)
  ultimately show ?thesis using that [of roots] sp startedD(2) [OF assms] by (simp add: first(1) spaces_ok_def)
qed

text \<open>
  C24: the primary hart, from its reset to the first instruction of a process.  With enough free pages it leaves
  \<open>kernel_main\<close> at the entry of the first example process, in supervisor mode with traps on and 0 as argument; the
  hart is in the kernel's address space, in which the whole memory section, and so the code it is about to run, is
  mapped to itself; the claim on being first is taken.
\<close>

theorem kernel_boots:
  assumes reset: "at_reset (im_symbols im) h k" and im: "image_ok im (vm k)"
    and table: "PageTable_kernel_init (im_sections im) (im_board im) (kernel_table k) (vm k) = Inr (kt, vm1)"
    and tree: "DeviceTree_parse blob arrays = Inr (tree, arrays1)" and few: "length (im_user_programs im) \<le> 8"
    and pages: "boot_pages (im_sections im) (im_user_programs im) \<le> pages_left (im_sections im) vm1"
  shows "\<exists>c' k'. kernel_main im fw hart_id blob headers arrays 0 left_over h c k = Inr (SECONDARY_CLAIM, c', k') \<and>
     cpu_pc c' = process_load_a0 (im_entries im) \<and> cpu_supervisor c' \<and> cpu_reg c' a0 = 0 \<and>
     cpu_reg c' ra = ProcessExit_kernel_addr (im_symbols im) \<and> traps_enabled h k' \<and>
     current_process (my_hart_scratch h k') = Some 0 \<and> csrs k' h satp = kernel_page_satp kt \<and>
     (\<forall>x. start_address (SECTION_MEMORY (im_sections im)) \<le> x \<and> x \<le> end_address (SECTION_MEMORY (im_sections im)) \<longrightarrow>
        (\<exists>f. sv39_translate (mem (vm k')) (csrs k' h satp) x = Some (x, f)))"
proof -
  let ?ss = "im_sections im" and ?sy = "im_symbols im"
  obtain k1 a where k1: "primary_setup im fw hart_id blob headers arrays h k = Inr (tree, arrays1, k1)"
      "started ?ss (lookup (mem vm1) (kernel_page_table kt)) (boot_table ?ss (im_entries im) a (im_user_programs im)) h k1"
      "csrs k1 h sscratch = hart_scratch_addr ?sy h" "kernel_table k1 = kt" "current_process (my_hart_scratch h k1) = None"
    using primary_setup_ok [OF reset im table tree few, of fw hart_id headers] pages by fastforce
  from boot_first [OF k1(2)] obtain roots where p: "vm_ok ?ss (vm k1) roots" "kernel_page_table kt \<in> roots"
      "lookup (mem (vm k1)) (kernel_page_table kt) = lookup (mem vm1) (kernel_page_table kt)" "sched_ok h k1"
      "proc_state (processes k1 ! 0) = PROCESS_READY"
      "frame_regs (proc_frame (processes k1 ! 0)) ra = process_load_a0 (im_entries im)"
      "frame_regs (proc_frame (processes k1 ! 0)) a0 = 0" "proc_page_table (processes k1 ! 0) = kernel_page_table kt"
    unfolding k1(4) by blast
  have kern: "Process_is_kernel_process (processes k1 ! 0) k1" by (simp add: Process_is_kernel_process_def p(8) k1(4))
  have least: "\<forall>q<0. \<not> runnable (processes k1 ! q)" by simp
  from jump_into_first [OF p(4) k1(3,5) _ p(5) least, of "im_board im" left_over c]
  obtain k' where k': "jump_into_processes ?sy (im_board im) left_over h c k1 =
       Inr (\<lparr>cpu_reg = frame_regs (loaded_frame ?sy True k1 (processes k1 ! 0)),
         cpu_pc = process_load_a0 (im_entries im), cpu_supervisor = True\<rparr>, k')"
     "traps_enabled h k'" "csrs k' h satp = SatpRegister_from_PageTable (kernel_page_table kt)"
     "current_process (my_hart_scratch h k') = Some 0" "vm k' = vm k1"
    using p(6,8) kern by auto
  have regs: "frame_regs (loaded_frame ?sy True k1 (processes k1 ! 0)) a0 = 0"
      "frame_regs (loaded_frame ?sy True k1 (processes k1 ! 0)) ra = ProcessExit_kernel_addr ?sy"
    using p(7) kern by (simp_all add: loaded_frame_def Let_def)
  have "kernel_page_table (kernel_table k) = 0" using reset by (simp add: at_reset_def)
  note init = PageTable_kernel_init_ok [OF _ _ _ this table]
  have mem_ok: "section_ok (SECTION_MEMORY ?ss)" and oks: "vm_ok ?ss (vm k) {}" "board_ok (im_board im)"
    using im by (simp_all add: image_ok_def)
  note init = init [OF oks(1) mem_ok oks(2)]
  have trees: "trees_ok (mem (vm k')) (allocated ?ss (vm k1)) roots" using p(1) by (simp add: vm_ok_def k'(5))
  have "\<exists>f. sv39_translate (mem (vm k')) (csrs k' h satp) x = Some (x, f)"
    if "start_address (SECTION_MEMORY ?ss) \<le> x" "x \<le> end_address (SECTION_MEMORY ?ss)" for x
    unfolding k'(3) using init(5,6) by (intro identity_memory [OF trees p(2) _ mem_ok that]) (simp_all add: k'(5) p(3))
  then show ?thesis
    using k' regs init(1)
    by (simp add: kernel_main_def take_claim_def primary_main_def k1(1) Let_def)
qed

lemma kernel_boots_witness:
  "\<exists>c c' k'. kernel_main sample_image (\<lambda>h. (0, 0)) 0 sample_blob 0x82000000 empty_arrays 0 c 0 c sample_reset =
     Inr (SECONDARY_CLAIM, c', k') \<and> cpu_pc c' = 0x200100"
proof -
  obtain kt vm1 where i: "PageTable_kernel_init sample_sections board_unknown \<lparr>kernel_page_table = 0, kernel_page_satp = 0\<rparr>
      sample_vm = Inr (kt, vm1)" "251 \<le> pages_left sample_sections vm1"
    using sample_kernel_init by blast
  obtain tree s where t: "DeviceTree_parse sample_blob empty_arrays = Inr (tree, s)"
    using parse_encodes_arrays [OF sample_blob_encodes(1) sample_tree_counts(1)]
    by (auto simp: sample_blob_encodes(2) sample_tree_counts)
  have "kernel_table sample_reset = \<lparr>kernel_page_table = 0, kernel_page_satp = 0\<rparr>"
    using sample_reset(1) by (simp add: at_reset_def)
  then show ?thesis
    using kernel_boots [where im = sample_image and k = sample_reset and h = 0 and fw = "\<lambda>h. (0, 0)" and hart_id = 0 and
        headers = "0x82000000" and left_over = undefined and c = undefined, OF _ _ _ t] sample_reset i sample_image
    by (simp add: sample_need) (fastforce simp: sample_image_def)
qed

lemma sample_booted_started:
  "\<exists>K k. started sample_sections K [] 0 k \<and> 251 \<le> pages_left sample_sections (vm k)"
proof -
  obtain kt vm1 where i: "PageTable_kernel_init sample_sections board_unknown \<lparr>kernel_page_table = 0, kernel_page_satp = 0\<rparr>
      sample_vm = Inr (kt, vm1)" "251 \<le> pages_left sample_sections vm1"
    using sample_kernel_init by blast
  obtain k1 where k1: "booting 0 k1" "k1 = sample_reset\<lparr>hart_scratches := hart_scratches k1\<rparr>"
    using reset_booting [OF sample_reset(1)] by blast
  let ?k2 = "k1\<lparr>kernel_table := kt, vm := vm1\<rparr>"
  have "processes k1 = replicate 32 Process_zero" by (subst k1(2)) (simp add: sample_reset_def maximum_32)
  then have "\<forall>q<32. proc_state (processes ?k2 ! q) = PROCESS_UNUSED" by (simp add: Process_zero_def)
  moreover have "trap_ready 0 ?k2" using k1(1) booting_memory [where k = k1 and kt = kt and v = vm1 and h = 0] by (simp add: booting_def)
  moreover have "vm_ok sample_sections vm1 {kernel_page_table kt}"
  proof -
    have "section_ok (SECTION_MEMORY sample_sections)" using sample_image(1) by (simp add: image_ok_def sample_image)
    from PageTable_kernel_init_ok(4) [OF sample_ok this boards_ok(3) _ i(1)] show ?thesis by simp
  qed
  ultimately have "started sample_sections (lookup (mem vm1) (kernel_page_table kt)) [] 0 ?k2"
    by (auto simp: started_def spaces_ok_def)
  moreover have "vm ?k2 = vm1" by simp
  ultimately show ?thesis using i(2) by metis
qed

text \<open>
  Creating the example processes.  With at most eight user programs, as the slots allow, they fill the first
  slots in their order, each with its entry point, argument and address space, and no page that was in use is taken,
  unless the free pages run out, for which there must be fewer than their need; with more the kernel panics.
\<close>

theorem example_processes_created:
  assumes "started ss K [] h k" and "\<forall>s\<in>set programs. user_sections_ok ss s USER_PROGRAM_BASE"
  shows "if length programs \<le> 8
     then (start_example_processes ss entries programs h k = Inl out_of_pages \<and> pages_left ss (vm k) < boot_pages ss programs) \<or>
       (\<exists>a k'. start_example_processes ss entries programs h k = Inr k' \<and> started ss K (boot_table ss entries a programs) h k' \<and>
          boot_frame k k' \<and> pages_left ss (vm k) \<le> pages_left ss (vm k') + boot_pages ss programs)
     else start_example_processes ss entries programs h k \<in> {Inl out_of_pages, Inl (Panic ''no more available processes'')}"
  using start_example_processes_ok [OF assms, of entries] unfolding outcome_def by auto

lemma example_processes_created_witness:
  "\<exists>K k k' a. start_example_processes sample_sections (im_entries sample_image) [sample_section 0x80200000 0x80201000] 0 k = Inr k' \<and>
     started sample_sections K (boot_table sample_sections (im_entries sample_image) a [sample_section 0x80200000 0x80201000]) 0 k'"
proof -
  obtain K k where k: "started sample_sections K [] 0 k" "251 \<le> pages_left sample_sections (vm k)"
    using sample_booted_started by blast
  have "\<forall>s\<in>set [sample_section 0x80200000 0x80201000]. user_sections_ok sample_sections s USER_PROGRAM_BASE"
    using sample_user_sections by (simp add: USER_PROGRAM_BASE_def)
  from example_processes_created [OF k(1) this] k(2) show ?thesis unfolding sample_need by (simp, blast)
qed


lemma sample_second:
  "\<exists>k. booting 0 k \<and> csrs k 0 sscratch = hart_scratch_addr sample_symbols 0 \<and> current_process (my_hart_scratch 0 k) = None \<and>
     proc_state (processes k ! 0) = PROCESS_READY \<and> frame_regs (proc_frame (processes k ! 0)) ra = 0x200500"
proof -
  obtain k1 where k1: "booting 0 k1" "k1 = sample_reset\<lparr>hart_scratches := hart_scratches k1\<rparr>"
      "current_process (my_hart_scratch 0 k1) = None"
    using reset_booting [OF sample_reset(1)] by blast
  have ps: "processes k1 = replicate 32 Process_zero" by (subst k1(2)) (simp add: sample_reset_def maximum_32)
  have "csrs k1 0 sscratch = hart_scratch_addr sample_symbols 0" by (subst k1(2)) (simp add: sample_reset_def)
  let ?proc = "Process_zero\<lparr>proc_state := PROCESS_READY, proc_buffer := hart_buffer (my_hart_scratch 0 k1),
     proc_frame := set_reg ra 0x200500 (proc_frame Process_zero)\<rparr>"
  let ?k = "k1\<lparr>processes := (processes k1)[0 := ?proc]\<rparr>"
  have ready: "trap_ready 0 k1" using k1(1) by (simp add: booting_def)
  then have ok: "sched_ok 0 k1" by (simp add: trap_ready_def)
  have "sched_ok 0 ?k"
    by (rule sched_ok_created [OF ok, of 0 ?proc, THEN conjunct1]) (use ok in \<open>simp_all add: ps Process_zero_def sched_ok_def\<close>)
  moreover have "Buffer_ok (hart_buffer (my_hart_scratch 0 k1))"
    using ready by (simp add: trap_ready_def buffers_ok_def sched_ok_def hart_ok_def my_hart_scratch_def)
  then have "buffers_ok ?k"
    using ready set_update_subset_insert [of "processes k1" 0 ?proc] by (auto simp: trap_ready_def buffers_ok_def)
  ultimately have "booting 0 ?k"
    using k1(1) by (simp add: booting_def trap_ready_def traps_enabled_def my_hart_scratch_def)
  then show ?thesis
    using k1(3) \<open>csrs k1 0 sscratch = _\<close> by (intro exI [of _ ?k]) (simp add: ps my_hart_scratch_def)
qed


end
