(* ===== verification/Device_Tree_Total.thy ===== *)
theory Device_Tree_Total
  imports Device_Tree_Spec
begin

text \<open>
  The parser of the device tree ends on every blob, well-formed or not, and the lists of a tree that it accepts are
  finite and stay within the items in use; and where a well-formed tree has too many properties for it.
\<close>

section \<open>Results that are not a hang\<close>

definition ends :: "error + 'a \<Rightarrow> ('a \<Rightarrow> bool) \<Rightarrow> bool" where
  "ends r Q \<longleftrightarrow> (case r of Inl e \<Rightarrow> e \<noteq> Hangs | Inr x \<Rightarrow> Q x)"

lemma ends_simps [simp]: "ends (Inl e) Q \<longleftrightarrow> e \<noteq> Hangs" "ends (Inr x) Q \<longleftrightarrow> Q x"
  by (simp_all add: ends_def)

lemma ends_bindr:
  "ends m P \<Longrightarrow> (\<And>x. m = Inr x \<Longrightarrow> P x \<Longrightarrow> ends (f x) Q) \<Longrightarrow> ends (bindr m f) Q"
  by (cases m) simp_all

lemma ends_mono: "ends r P \<Longrightarrow> (\<And>x. P x \<Longrightarrow> Q x) \<Longrightarrow> ends r Q"
  by (cases r) simp_all

lemma ends_load32: "ends (load32 blob p) (\<lambda>v. p + 4 \<le> length blob)"
  by (simp add: load32_def)

lemma ends_skip_nops: "ends (skip_nops blob p) (\<lambda>q. p \<le> q \<and> q + 4 \<le> length blob)"
proof (induction blob p rule: skip_nops.induct)
  case (1 blob p)
  show ?case
    by (subst skip_nops.simps, rule ends_bindr [OF ends_load32])
      (use 1 in \<open>auto intro: ends_mono\<close>)
qed

lemma ends_node_name_end: "ends (node_name_end blob p) (\<lambda>q. p \<le> q \<and> q < length blob)"
proof (induction blob p rule: node_name_end.induct)
  case (1 blob p)
  then show ?case by (subst node_name_end.simps) (auto intro: ends_mono)
qed

lemma align_offset_ge: "p + 3 < 2 ^ 64 \<Longrightarrow> p \<le> align_offset p 4"
  by (simp add: align_offset_4)

lemma ends_parse_node_name:
  assumes "length blob < 2 ^ 63"
  shows "ends (parse_node_name blob p) (\<lambda>(name, q). p \<le> q)"
  unfolding parse_node_name_def
proof (rule ends_bindr [OF ends_node_name_end])
  fix x assume "p \<le> x \<and> x < length blob"
  then show "ends (Inr (p, align_offset (x + 1) 4)) (\<lambda>(name, q). p \<le> q)"
    using assms align_offset_ge [of "x + 1"] by simp
qed

section \<open>Links only go up\<close>

text \<open>Every link leads to a later item that is in use, so that no list is circular.\<close>

definition upward :: "nat \<Rightarrow> nat \<Rightarrow> nat option \<Rightarrow> bool" where
  "upward i n link \<longleftrightarrow> (case link of None \<Rightarrow> True | Some j \<Rightarrow> i < j \<and> j < n)"

definition links_ok :: "tree_arrays \<Rightarrow> bool" where
  "links_ok s \<longleftrightarrow> fresh s \<and> nodes_next s \<le> 255 \<and> props_next s \<le> 255 \<and>
     (\<forall>i < nodes_next s. upward i (nodes_next s) (node_next (nodes_items s ! i)) \<and>
        upward i (nodes_next s) (node_child (nodes_items s ! i)) \<and>
        (case node_properties (nodes_items s ! i) of None \<Rightarrow> True | Some j \<Rightarrow> j < props_next s)) \<and>
     (\<forall>i < props_next s. upward i (props_next s) (prop_next (props_items s ! i)))"

lemma links_ok_empty: "links_ok empty_arrays"
  by (simp add: links_ok_def fresh_empty) (simp add: empty_arrays_def)

lemma upward_chain:
  assumes "\<And>i. i < n \<Longrightarrow> \<exists>l. read (Some i) = Inr l \<and> upward i n l" and "i < n"
  shows "\<exists>js. linked read (Some i) js \<and> (\<forall>j\<in>set js. i < j \<and> j < n)"
  using assms(2)
proof (induction "n - i" arbitrary: i rule: less_induct)
  case less
  from assms(1) [OF less.prems] obtain l where l: "read (Some i) = Inr l" "upward i n l" by blast
  show ?case
  proof (cases l)
    case None
    then show ?thesis using l by (intro exI [of _ "[]"]) simp
  next
    case (Some j)
    then have j: "i < j" "j < n" using l by (simp_all add: upward_def)
    then have "n - j < n - i" by simp
    from less.hyps [OF this j(2)] obtain js where "linked read (Some j) js" "\<forall>x\<in>set js. j < x \<and> x < n" by blast
    then show ?thesis using l Some j by (intro exI [of _ "j # js"]) auto
  qed
qed

lemma upward_list:
  assumes "\<And>i. i < n \<Longrightarrow> \<exists>l. read (Some i) = Inr l \<and> upward i n l"
    and "read None = Inr start" and "\<And>j. start = Some j \<Longrightarrow> k \<le> j \<and> j < n"
  shows "\<exists>js. linked read None js \<and> (\<forall>j\<in>set js. k \<le> j \<and> j < n)"
proof (cases start)
  case None
  then show ?thesis using assms(2) by (intro exI [of _ "[]"]) simp
next
  case (Some j)
  then have j: "k \<le> j" "j < n" using assms(3) by simp_all
  from upward_chain [OF assms(1) j(2)] obtain js where js: "linked read (Some j) js" "\<forall>x\<in>set js. j < x \<and> x < n"
    by blast
  then have "\<forall>x\<in>set (j # js). k \<le> x \<and> x < n" using j by auto
  then show ?thesis using js assms(2) Some by (intro exI [of _ "j # js"]) auto
qed

section \<open>Linking in an item\<close>

lemma links_okD:
  assumes "links_ok s"
  shows "fresh s" "nodes_next s \<le> 255" "props_next s \<le> 255" "length (nodes_items s) = 256"
    "length (props_items s) = 1024"
    "i < nodes_next s \<Longrightarrow> upward i (nodes_next s) (node_next (nodes_items s ! i))"
    "i < nodes_next s \<Longrightarrow> upward i (nodes_next s) (node_child (nodes_items s ! i))"
    "i < nodes_next s \<Longrightarrow> node_properties (nodes_items s ! i) = Some j \<Longrightarrow> j < props_next s"
    "i < props_next s \<Longrightarrow> upward i (props_next s) (prop_next (props_items s ! i))"
  using assms by (auto simp: links_ok_def fresh_def capacities split: option.splits)

lemma upward_mono: "upward i n link \<Longrightarrow> n \<le> n' \<Longrightarrow> upward i n' link"
  by (auto simp: upward_def split: option.splits)

lemma link_property:
  assumes ok: "links_ok s" and parsed: "parsed < nodes_next s" and j: "j = props_next s" "j < 255"
    and s1: "s1 = update_prop j g (s\<lparr>props_next := j + 1\<rparr>)" and g: "\<And>x. prop_next (g x) = prop_next x"
  shows "ends (add_linked (read_property_link parsed s1) (store_property_link parsed j s1))
    (\<lambda>s'. links_ok s' \<and> nodes_next s' = nodes_next s \<and> (\<forall>l<parsed. nodes_items s' ! l = nodes_items s ! l))"
proof -
  note D = links_okD [OF ok]
  have same: "nodes_items s1 = nodes_items s" "nodes_next s1 = nodes_next s" "props_next s1 = j + 1"
    "length (props_items s1) = 1024" "l \<noteq> j \<Longrightarrow> props_items s1 ! l = props_items s ! l"
    "prop_next (props_items s1 ! j) = None" for l
    using D(1,5) j g by (auto simp: s1 update_prop_def fresh_def capacities zero_prop_def)
  have "\<exists>js. linked (read_property_link parsed s1) None js \<and> (\<forall>l\<in>set js. 0 \<le> l \<and> l < j)"
  proof (rule upward_list)
    show "\<exists>l. read_property_link parsed s1 (Some i) = Inr l \<and> upward i j l" if "i < j" for i
      using that D(9) [of i] same j by (simp add: read_property_link_def)
    show "read_property_link parsed s1 None = Inr (node_properties (nodes_items s ! parsed))"
      using same parsed D(2,4) by (simp add: read_property_link_def)
    show "0 \<le> i \<and> i < j" if "node_properties (nodes_items s ! parsed) = Some i" for i
      using D(8) [OF parsed that] j by simp
  qed
  then obtain js where js: "linked (read_property_link parsed s1) None js" "\<forall>l\<in>set js. l < j" by auto
  define pos where "pos = tail_link None js"
  have pos: "pos = None \<or> (\<exists>l. pos = Some l \<and> 0 \<le> l \<and> l < j)" using js(2) by (auto simp: pos_def tail_link_def)
  define s' where "s' = store_property_link parsed j s1 pos"
  note frame = store_property_frame [OF pos s'_def]
  have "fresh s'" using D(1,2) frame(1,5,6,8) same parsed j by (auto simp: fresh_def keeps_def NUM_DEVICE_TREE_PROPERTIES_def)
  moreover have "upward i (j + 1) (prop_next (props_items s' ! i))" if i: "i < j + 1" for i
  proof (cases "i = j")
    case True
    then show ?thesis using frame(8) [of j] same(6) by (simp add: upward_def)
  next
    case False
    then have "upward i (j + 1) (prop_next (props_items s1 ! i))"
      using D(9) [of i] i j same(5) [of i] by (auto intro: upward_mono)
    then show ?thesis using False i
      by (auto simp: s'_def store_property_link_def update_node_def update_prop_def nth_update_if upward_def
          split: option.splits)
  qed
  moreover have "node_properties (nodes_items s' ! i) = Some l \<Longrightarrow> l < j + 1" if "i < nodes_next s" for i l
    using D(8) [OF that, of l] same(1) j
    by (auto simp: s'_def store_property_link_def update_node_def update_prop_def nth_update_if split: option.splits if_splits)
  moreover have "node_next (nodes_items s' ! i) = node_next (nodes_items s ! i)"
    "node_child (nodes_items s' ! i) = node_child (nodes_items s ! i)" for i
    using frame(1,3,4) same(1) by (cases "i = parsed"; simp add: keeps_def)+
  ultimately have "links_ok s'"
    using D(2,6,7) frame(5,6) same(2,3) j by (auto simp: links_ok_def split: option.splits)
  moreover have "nodes_items s' ! l = nodes_items s ! l" if "l < parsed" for l
    using that same(1)
    by (simp add: s'_def store_property_link_def update_node_def update_prop_def split: option.splits)
  ultimately show ?thesis
    using linked_walk [OF js(1)] frame(5) same(2) by (simp add: add_linked_def s'_def pos_def)
qed

lemma link_child:
  assumes ok: "links_ok s" "links_ok s2" and parsed: "parsed < nodes_next s" and j: "j = nodes_next s" "j < nodes_next s2"
    and below: "\<forall>l<j. nodes_items s2 ! l = nodes_items s ! l"
  shows "ends (add_linked (read_child_link parsed s2) (store_child_link parsed j s2))
    (\<lambda>s'. links_ok s' \<and> nodes_next s' = nodes_next s2 \<and> (\<forall>l<parsed. nodes_items s' ! l = nodes_items s ! l))"
proof -
  note D = links_okD [OF ok(1)] and D2 = links_okD [OF ok(2)]
  have "\<exists>js. linked (read_child_link parsed s2) None js \<and> (\<forall>l\<in>set js. parsed + 1 \<le> l \<and> l < j)"
  proof (rule upward_list)
    show "\<exists>l. read_child_link parsed s2 (Some i) = Inr l \<and> upward i j l" if "i < j" for i
      using that D(6) [of i] D2(2,4) below j by (simp add: read_child_link_def)
    show "read_child_link parsed s2 None = Inr (node_child (nodes_items s ! parsed))"
      using parsed D2(2,4) below j by (simp add: read_child_link_def)
    show "parsed + 1 \<le> i \<and> i < j" if "node_child (nodes_items s ! parsed) = Some i" for i
      using D(7) [OF parsed] that j by (simp add: upward_def)
  qed
  then obtain js where js: "linked (read_child_link parsed s2) None js" "\<forall>l\<in>set js. parsed < l \<and> l < j"
    by (auto simp: Suc_le_eq)
  define pos where "pos = tail_link None js"
  have pos: "pos = Some l \<Longrightarrow> parsed < l \<and> l < j" for l using js(2) by (auto simp: pos_def tail_link_def split: if_splits)
  define s' where "s' = store_child_link parsed j s2 pos"
  note frame = store_child_frame [OF s'_def]
  have "fresh s'" unfolding s'_def
    by (rule store_child_fresh [OF D2(1)]) (use parsed j pos in force)+
  moreover have "upward i (nodes_next s2) (node_next (nodes_items s' ! i))"
    "upward i (nodes_next s2) (node_child (nodes_items s' ! i))" if i: "i < nodes_next s2" for i
    using D2(6,7) [OF i] parsed j pos
    by (auto simp: s'_def store_child_link_def update_node_def nth_update_if upward_def split: option.splits)
  ultimately have "links_ok s'"
    using D2 frame(1,2,3,6) by (auto simp: links_ok_def split: option.splits)
  moreover have "nodes_items s' ! l = nodes_items s ! l" if "l < parsed" for l
    using that below parsed j pos
    by (auto simp: s'_def store_child_link_def update_node_def nth_update_if split: option.splits)
  ultimately show ?thesis
    using linked_walk [OF js(1)] frame(1) by (simp add: add_linked_def s'_def pos_def)
qed

section \<open>The parsers\<close>

lemma ends_property_parse:
  assumes len: "length blob < 2 ^ 63" and room: "props_next s \<le> 255"
  shows "ends (DeviceTreeProperty_parse blob p s) (\<lambda>(prop, q, s1). p + 4 \<le> length blob \<and>
     (case prop of
        None \<Rightarrow> s1 = s \<and> p \<le> q
      | Some j \<Rightarrow> p + 4 \<le> q \<and> j = props_next s \<and> j < 255 \<and>
          (\<exists>g. s1 = update_prop j g (s\<lparr>props_next := j + 1\<rparr>) \<and> (\<forall>x. prop_next (g x) = prop_next x))))"
  unfolding DeviceTreeProperty_parse_def
proof (rule ends_bindr [OF ends_skip_nops], rule ends_bindr [OF ends_load32], goal_cases)
  case (1 q v)
  let ?Q = "\<lambda>(prop, q', s1). p + 4 \<le> length blob \<and>
     (case prop of
        None \<Rightarrow> s1 = s \<and> p \<le> q'
      | Some j \<Rightarrow> p + 4 \<le> q' \<and> j = props_next s \<and> j < 255 \<and>
          (\<exists>g. s1 = update_prop j g (s\<lparr>props_next := j + 1\<rparr>) \<and> (\<forall>x. prop_next (g x) = prop_next x)))"
  show ?case
  proof (cases "v \<noteq> SWAP_ENDIANNESS32 STRUCTURE_PROP")
    case True
    then show ?thesis using 1 by auto
  next
    case False
    have bound: "p + 4 \<le> align_offset (q + 12 + n) 4" if "n < 2 ^ 32" for n
      using that 1 len align_offset_ge [of "q + 12 + n"] by simp
    have small: "unat (w :: u32) < 2 ^ 32" for w by (rule order_less_le_trans [OF unsigned_less]) simp
    show ?thesis
    proof (cases "props_next s < 255")
      case True
      then have alloc: "next_free (props_next s) NUM_DEVICE_TREE_NODES = (Some (props_next s), props_next s + 1)"
        by (simp add: next_free_def capacities)
      have "ends (bindr (load32 blob offsetof_off_dt_strings) (\<lambda>off. bindr (load32 blob (q + 4 + 4)) (\<lambda>nameoff.
          bindr (load32 blob (q + 4)) (\<lambda>len.
            Inr (Some (props_next s), align_offset (q + 4 + 8 + unat (SWAP_ENDIANNESS32 len)) 4,
              update_prop (props_next s)
                (\<lambda>prop. prop\<lparr>prop_name := Some (unat (SWAP_ENDIANNESS32 off) + unat (SWAP_ENDIANNESS32 nameoff)),
                   prop_value := Some (q + 4 + 8), prop_value_len := unat (SWAP_ENDIANNESS32 len)\<rparr>)
                (s\<lparr>props_next := props_next s + 1\<rparr>)))))) ?Q"
        by (intro ends_bindr [OF ends_load32])
          (use 1 True bound small in \<open>auto simp: add.assoc\<close>)
      then show ?thesis using False by (simp add: alloc Let_def)
    next
      case full: False
      then have "next_free (props_next s) NUM_DEVICE_TREE_NODES = (None, props_next s)"
        by (simp add: next_free_def capacities)
      then show ?thesis using False by (auto simp: Let_def intro!: ends_bindr [OF ends_load32])
    qed
  qed
qed

lemma ends_properties_loop:
  assumes "length blob < 2 ^ 63" and "links_ok s" and "parsed < nodes_next s" and "0 < fuel" and "length blob < fuel + p"
  shows "ends (parse_properties_loop fuel blob parsed p s) (\<lambda>(q, s'). p \<le> q \<and> links_ok s' \<and>
    nodes_next s' = nodes_next s \<and> (\<forall>l<parsed. nodes_items s' ! l = nodes_items s ! l))"
  using assms(2-5)
proof (induction fuel arbitrary: p s)
  case (Suc fuel)
  show ?case unfolding parse_properties_loop.simps
  proof (rule ends_bindr [OF ends_skip_nops])
    fix q assume q: "p \<le> q \<and> q + 4 \<le> length blob"
    show "ends (bindr (DeviceTreeProperty_parse blob q s) (\<lambda>(prop, pointer2, s2). case prop of
        None \<Rightarrow> Inr (pointer2, s2)
      | Some i \<Rightarrow> bindr (add_linked (read_property_link parsed s2) (store_property_link parsed i s2))
          (parse_properties_loop fuel blob parsed pointer2)))
      (\<lambda>(q, s'). p \<le> q \<and> links_ok s' \<and> nodes_next s' = nodes_next s \<and>
         (\<forall>l<parsed. nodes_items s' ! l = nodes_items s ! l))" (is "ends _ ?Q")
    proof (rule ends_bindr [OF ends_property_parse [OF assms(1) links_okD(3) [OF Suc.prems(1)]]])
      fix x assume x: "case x of (prop, q', s1) \<Rightarrow> q + 4 \<le> length blob \<and> (case prop of
          None \<Rightarrow> s1 = s \<and> q \<le> q'
        | Some j \<Rightarrow> q + 4 \<le> q' \<and> j = props_next s \<and> j < 255 \<and>
            (\<exists>g. s1 = update_prop j g (s\<lparr>props_next := j + 1\<rparr>) \<and> (\<forall>x. prop_next (g x) = prop_next x)))"
      obtain prop1 q1 s1 where xs: "x = (prop1, q1, s1)" by (cases x)
      show "ends (case x of (prop, pointer2, s2) \<Rightarrow> case prop of
          None \<Rightarrow> Inr (pointer2, s2)
        | Some i \<Rightarrow> bindr (add_linked (read_property_link parsed s2) (store_property_link parsed i s2))
            (parse_properties_loop fuel blob parsed pointer2)) ?Q"
      proof (cases prop1)
        case None
        then show ?thesis using x q Suc.prems by (simp add: xs)
      next
        case (Some j)
        then obtain g where g: "q + 4 \<le> q1" "j = props_next s" "j < 255"
          "s1 = update_prop j g (s\<lparr>props_next := j + 1\<rparr>)" "\<And>y. prop_next (g y) = prop_next y"
          using x by (auto simp: xs)
        have "ends (bindr (add_linked (read_property_link parsed s1) (store_property_link parsed j s1))
            (parse_properties_loop fuel blob parsed q1)) ?Q"
        proof (rule ends_bindr [OF link_property [OF Suc.prems(1,2) g(2,3,4,5)]])
          fix s2 assume s2: "links_ok s2 \<and> nodes_next s2 = nodes_next s \<and> (\<forall>l<parsed. nodes_items s2 ! l = nodes_items s ! l)"
          have "ends (parse_properties_loop fuel blob parsed q1 s2) (\<lambda>(q, s'). q1 \<le> q \<and> links_ok s' \<and>
              nodes_next s' = nodes_next s2 \<and> (\<forall>l<parsed. nodes_items s' ! l = nodes_items s2 ! l))"
            by (rule Suc.IH) (use s2 Suc.prems q g(1) in auto)
          then show "ends (parse_properties_loop fuel blob parsed q1 s2) ?Q"
            by (rule ends_mono) (use s2 q g(1) in auto)
        qed
        then show ?thesis by (simp add: xs Some)
      qed
    qed
  qed
qed simp

lemma ends_pair:
  "ends m P \<Longrightarrow> (\<And>a b. m = Inr (a, b) \<Longrightarrow> P (a, b) \<Longrightarrow> ends (f a b) Q) \<Longrightarrow> ends (bindr m (\<lambda>(a, b). f a b)) Q"
  by (cases m) auto

lemma if_ends: "(b \<Longrightarrow> ends x Q) \<Longrightarrow> (\<not> b \<Longrightarrow> ends y Q) \<Longrightarrow> ends (if b then x else y) Q"
  by simp

text \<open>What the two mutually recursive parsers leave behind.\<close>

definition node_result :: "nat \<Rightarrow> tree_arrays \<Rightarrow> nat option \<times> nat \<times> tree_arrays \<Rightarrow> bool" where
  "node_result p s = (\<lambda>(parsed, q, s'). links_ok s' \<and>
     (case parsed of
        None \<Rightarrow> s' = s \<and> p \<le> q
      | Some i \<Rightarrow> i = nodes_next s \<and> i < nodes_next s' \<and> p + 4 \<le> q \<and> (\<forall>l<i. nodes_items s' ! l = nodes_items s ! l)))"

definition children_result :: "nat \<Rightarrow> nat \<Rightarrow> tree_arrays \<Rightarrow> nat \<times> tree_arrays \<Rightarrow> bool" where
  "children_result parsed p s = (\<lambda>(q, s'). links_ok s' \<and> p \<le> q \<and> nodes_next s \<le> nodes_next s' \<and>
     (\<forall>l<parsed. nodes_items s' ! l = nodes_items s ! l))"

lemma claim_links_ok:
  assumes "links_ok s" and "nodes_next s < 255"
  shows "links_ok (update_node (nodes_next s) (node_name_update (\<lambda>_. Some p)) (s\<lparr>nodes_next := nodes_next s + 1\<rparr>))"
    (is "links_ok ?s'")
proof -
  note D = links_okD [OF assms(1)] and claimed = claim_node [OF links_okD(1) [OF assms(1)] assms(2) refl, of p]
  have old: "i \<noteq> nodes_next s \<Longrightarrow> nodes_items ?s' ! i = nodes_items s ! i" "props_items ?s' = props_items s" for i
    by (simp_all add: update_node_def)
  have nodes: "upward i (nodes_next s + 1) (node_next (nodes_items ?s' ! i)) \<and>
      upward i (nodes_next s + 1) (node_child (nodes_items ?s' ! i)) \<and>
      (case node_properties (nodes_items ?s' ! i) of None \<Rightarrow> True | Some j \<Rightarrow> j < props_next s)"
    if i: "i < nodes_next s + 1" for i
  proof (cases "i = nodes_next s")
    case True
    have "nodes_items ?s' ! i = zero_node\<lparr>node_name := Some p\<rparr>" using claimed(2) True by simp
    then show ?thesis by (simp add: zero_node_def upward_def)
  next
    case False
    then have "i < nodes_next s" "nodes_items ?s' ! i = nodes_items s ! i" using i old by auto
    then show ?thesis using D(6-8) [of i]
      by (auto intro: upward_mono split: option.splits)
  qed
  have "nodes_next s + 1 \<le> 255" using assms(2) by simp
  with nodes show ?thesis
    unfolding links_ok_def using claimed(1,3,4) D(3,9) by (simp only: old(2)) blast
qed

lemma children_step:
  assumes node: "\<And>p s. links_ok s \<Longrightarrow> 0 < fuel \<Longrightarrow> length blob < fuel + p \<Longrightarrow>
      ends (DeviceTreeNode_parse fuel blob p s) (node_result p s)"
    and children: "\<And>parsed p s. links_ok s \<Longrightarrow> parsed < nodes_next s \<Longrightarrow> 0 < fuel \<Longrightarrow> length blob + 1 < fuel + p \<Longrightarrow>
      ends (parse_children_loop fuel blob parsed p s) (children_result parsed p s)"
    and ok: "links_ok s" "parsed < nodes_next s" "length blob + 1 < Suc fuel + p"
  shows "ends (parse_children_loop (Suc fuel) blob parsed p s) (children_result parsed p s)"
  unfolding parse_children_loop.simps
proof (rule ends_bindr [OF ends_skip_nops])
  fix q assume q: "p \<le> q \<and> q + 4 \<le> length blob"
  have fuel: "0 < fuel" "length blob < fuel + q" using q ok(3) by auto
  show "ends (bindr (DeviceTreeNode_parse fuel blob q s) (\<lambda>(child, pointer2, s2). case child of
      None \<Rightarrow> Inr (pointer2, s2)
    | Some i \<Rightarrow> bindr (add_linked (read_child_link parsed s2) (store_child_link parsed i s2))
        (parse_children_loop fuel blob parsed pointer2))) (children_result parsed p s)"
  proof (rule ends_bindr [OF node [OF ok(1) fuel]])
    fix x assume x: "node_result q s x"
    obtain child q2 s2 where xs: "x = (child, q2, s2)" by (cases x)
    show "ends (case x of (child, pointer2, s2) \<Rightarrow> case child of
        None \<Rightarrow> Inr (pointer2, s2)
      | Some i \<Rightarrow> bindr (add_linked (read_child_link parsed s2) (store_child_link parsed i s2))
          (parse_children_loop fuel blob parsed pointer2)) (children_result parsed p s)"
    proof (cases child)
      case None
      then show ?thesis using x q by (auto simp: xs node_result_def children_result_def)
    next
      case (Some j)
      then have j: "links_ok s2" "j = nodes_next s" "j < nodes_next s2" "q + 4 \<le> q2"
        "\<forall>l<j. nodes_items s2 ! l = nodes_items s ! l" using x by (simp_all add: xs node_result_def)
      have "ends (bindr (add_linked (read_child_link parsed s2) (store_child_link parsed j s2))
          (parse_children_loop fuel blob parsed q2)) (children_result parsed p s)"
      proof (rule ends_bindr [OF link_child [OF ok(1) j(1) ok(2) j(2,3,5)]])
        fix s3 assume s3: "links_ok s3 \<and> nodes_next s3 = nodes_next s2 \<and> (\<forall>l<parsed. nodes_items s3 ! l = nodes_items s ! l)"
        have "ends (parse_children_loop fuel blob parsed q2 s3) (children_result parsed q2 s3)"
          by (rule children) (use s3 ok j q fuel in auto)
        then show "ends (parse_children_loop fuel blob parsed q2 s3) (children_result parsed p s)"
          by (rule ends_mono) (use s3 j q ok in \<open>auto simp: children_result_def\<close>)
      qed
      then show ?thesis by (simp add: xs Some)
    qed
  qed
qed

lemma node_step:
  assumes children: "\<And>parsed p s. links_ok s \<Longrightarrow> parsed < nodes_next s \<Longrightarrow> 0 < fuel \<Longrightarrow> length blob + 1 < fuel + p \<Longrightarrow>
      ends (parse_children_loop fuel blob parsed p s) (children_result parsed p s)"
    and len: "length blob < 2 ^ 63" and ok: "links_ok s" "length blob < Suc fuel + p"
  shows "ends (DeviceTreeNode_parse (Suc fuel) blob p s) (node_result p s)"
proof (cases "nodes_next s < 255")
  case True
  let ?i = "nodes_next s"
  let ?s2 = "\<lambda>name. update_node ?i (node_name_update (\<lambda>_. Some name)) (s\<lparr>nodes_next := ?i + 1\<rparr>)"
  have alloc: "next_free ?i NUM_DEVICE_TREE_NODES = (Some ?i, ?i + 1)" using True by (simp add: next_free_def capacities)
  have s2: "links_ok (?s2 name)" "nodes_next (?s2 name) = ?i + 1" "\<forall>l<?i. nodes_items (?s2 name) ! l = nodes_items s ! l" for name
    using claim_links_ok [OF ok(1) True] by (simp_all add: update_node_def)
  have body: "ends (bindr (parse_node_name blob (p1 + 4)) (\<lambda>(name, p2).
      bindr (parse_properties_loop (Suc (length blob)) blob ?i p2 (?s2 name)) (\<lambda>(p3, s3).
      bindr (parse_children_loop fuel blob ?i p3 s3) (\<lambda>(p4, s4).
      bindr (skip_nops blob p4) (\<lambda>p5.
      bindr (load32 blob p5) (\<lambda>token2.
        if token2 \<noteq> SWAP_ENDIANNESS32 STRUCTURE_END_NODE then Inl (Panic ''unclosed device tree node'')
        else Inr (Some ?i, p5 + 4, s4))))))) (node_result p s)" if p1: "p \<le> p1" "p1 + 4 \<le> length blob" for p1
  proof (rule ends_pair [OF ends_parse_node_name [OF len]], goal_cases)
    case (1 name p2)
    have f: "0 < fuel" "length blob + 1 < fuel + (p1 + 4)" using ok(2) that by auto
    show ?case
    proof (rule ends_pair [OF ends_properties_loop [OF len s2(1)]], goal_cases)
      case (4 p3 s3)
      then have s3: "links_ok s3" "nodes_next s3 = ?i + 1" "\<forall>l<?i. nodes_items s3 ! l = nodes_items s ! l" "p1 + 4 \<le> p3"
        using 1(2) s2(2,3) by auto
      have inner: "ends (parse_children_loop fuel blob ?i p3 s3) (children_result ?i p3 s3)"
        by (rule children) (use s3 f in auto)
      show ?case
        by (rule ends_pair [OF inner], rule ends_bindr [OF ends_skip_nops], rule ends_bindr [OF ends_load32])
          (use s3 that in \<open>auto simp: node_result_def children_result_def\<close>)
    qed (use s2(2) 1(2) in auto)
  qed
  show ?thesis
    by (simp only: DeviceTreeNode_parse.simps, rule ends_bindr [OF ends_skip_nops], rule ends_bindr [OF ends_load32])
      (use body ok in \<open>auto simp: alloc Let_def node_result_def simp del: parse_properties_loop.simps\<close>)
next
  case False
  then have "next_free (nodes_next s) NUM_DEVICE_TREE_NODES = (None, nodes_next s)"
    by (simp add: next_free_def capacities)
  then show ?thesis using ok
    by (auto simp: Let_def node_result_def intro!: ends_bindr [OF ends_skip_nops] ends_bindr [OF ends_load32]
        ends_bindr [OF ends_parse_node_name [OF len]])
qed

lemma ends_node_children:
  assumes "length blob < 2 ^ 63"
  shows "(\<forall>p s. links_ok s \<longrightarrow> 0 < fuel \<longrightarrow> length blob < fuel + p \<longrightarrow>
      ends (DeviceTreeNode_parse fuel blob p s) (node_result p s)) \<and>
    (\<forall>parsed p s. links_ok s \<longrightarrow> parsed < nodes_next s \<longrightarrow> 0 < fuel \<longrightarrow> length blob + 1 < fuel + p \<longrightarrow>
      ends (parse_children_loop fuel blob parsed p s) (children_result parsed p s))"
proof (induction fuel)
  case (Suc fuel)
  then have node: "\<And>p s. links_ok s \<Longrightarrow> 0 < fuel \<Longrightarrow> length blob < fuel + p \<Longrightarrow>
      ends (DeviceTreeNode_parse fuel blob p s) (node_result p s)"
    and children: "\<And>parsed p s. links_ok s \<Longrightarrow> parsed < nodes_next s \<Longrightarrow> 0 < fuel \<Longrightarrow> length blob + 1 < fuel + p \<Longrightarrow>
      ends (parse_children_loop fuel blob parsed p s) (children_result parsed p s)" by blast+
  show ?case using children_step [OF node children] node_step [OF children assms] by blast
qed simp

text \<open>The lists of a node, in well-formed arrays.\<close>

lemma links_ok_lists:
  assumes ok: "links_ok s" and i: "i < nodes_next s"
  shows "\<exists>js. linked (read_child_link i s) None js \<and> (\<forall>j\<in>set js. i < j \<and> j < nodes_next s)"
    "\<exists>js. linked (read_property_link i s) None js \<and> (\<forall>j\<in>set js. j < props_next s)"
proof -
  note D = links_okD [OF ok]
  have "\<exists>js. linked (read_child_link i s) None js \<and> (\<forall>j\<in>set js. i + 1 \<le> j \<and> j < nodes_next s)"
  proof (rule upward_list)
    show "\<exists>l. read_child_link i s (Some j) = Inr l \<and> upward j (nodes_next s) l" if "j < nodes_next s" for j
      using that D(2,4,6) by (simp add: read_child_link_def deref_def)
    show "read_child_link i s None = Inr (node_child (nodes_items s ! i))"
      using i D(2,4) by (simp add: read_child_link_def deref_def)
    show "i + 1 \<le> j \<and> j < nodes_next s" if "node_child (nodes_items s ! i) = Some j" for j
      using D(7) [OF i] that by (simp add: upward_def)
  qed
  then show "\<exists>js. linked (read_child_link i s) None js \<and> (\<forall>j\<in>set js. i < j \<and> j < nodes_next s)" by (simp add: Suc_le_eq)
  have "\<exists>js. linked (read_property_link i s) None js \<and> (\<forall>j\<in>set js. 0 \<le> j \<and> j < props_next s)"
  proof (rule upward_list)
    show "\<exists>l. read_property_link i s (Some j) = Inr l \<and> upward j (props_next s) l" if "j < props_next s" for j
      using that D(3,5,9) by (simp add: read_property_link_def deref_def)
    show "read_property_link i s None = Inr (node_properties (nodes_items s ! i))"
      using i D(2,4) by (simp add: read_property_link_def deref_def)
    show "0 \<le> j \<and> j < props_next s" if "node_properties (nodes_items s ! i) = Some j" for j
      using D(8) [OF i that] by simp
  qed
  then show "\<exists>js. linked (read_property_link i s) None js \<and> (\<forall>j\<in>set js. j < props_next s)" by simp
qed

lemma ends_DeviceTree_parse:
  assumes "length blob < 2 ^ 63"
  shows "ends (DeviceTree_parse blob empty_arrays) (\<lambda>(tree, s). links_ok s \<and> root tree = 0 \<and> 0 < nodes_next s)"
  unfolding DeviceTree_parse_def
proof (rule ends_bindr [OF ends_load32], rule if_ends, simp, rule ends_bindr [OF ends_load32], goal_cases)
  case (1 magic version)
  have node: "ends (DeviceTreeNode_parse (length blob + 2) blob p empty_arrays) (node_result p empty_arrays)" for p
    using ends_node_children [OF assms, of "length blob + 2"] links_ok_empty by simp
  have versions: "ends (if version \<noteq> SWAP_ENDIANNESS32 DEVICE_TREE_VERSION
      then bindr (load32 blob offsetof_last_comp_version) (\<lambda>last_comp_version.
        Inr (last_comp_version \<noteq> SWAP_ENDIANNESS32 DEVICE_TREE_VERSION))
      else Inr False) (\<lambda>_. True)" by (auto intro!: ends_bindr [OF ends_load32])
  have zero: "nodes_next empty_arrays = 0" by (simp add: empty_arrays_def)
  show ?case
    by (rule ends_bindr [OF versions], rule if_ends, simp, rule ends_bindr [OF ends_load32], rule ends_bindr [OF node])
      (auto intro!: ends_bindr [OF ends_load32] simp: node_result_def zero split: option.splits)
qed

text \<open>
  C22: the parser ends on every blob of a size below 2^63, whatever bytes it holds: it never follows a circular
  list, and the fuel of its loops is never used up.  The result is a tree, a panic, or an access that the blob or
  the arrays do not allow.
\<close>

theorem DeviceTree_parse_ends:
  assumes "length blob < 2 ^ 63"
  shows "DeviceTree_parse blob empty_arrays \<noteq> Inl Hangs"
  using ends_DeviceTree_parse [OF assms] by (auto simp: ends_def)

theorem DeviceTree_parse_ends_witness: "DeviceTree_parse [1, 2, 3] empty_arrays \<noteq> Inl Hangs"
  by (rule DeviceTree_parse_ends) simp

text \<open>
  C26: whatever the blob, a tree that the parser accepts is well formed: its root is the first node, and the lists of
  children and of properties of every node in use are finite and stay within the items in use; the children of a
  node come after it, so that no node is below itself.
\<close>

theorem DeviceTree_parse_well_formed:
  assumes "length blob < 2 ^ 63" and "DeviceTree_parse blob empty_arrays = Inr (tree, s)"
  shows "root tree = 0 \<and> 0 < nodes_next s \<and> nodes_next s < NUM_DEVICE_TREE_NODES \<and>
    (\<forall>i < nodes_next s.
       (\<exists>js. linked (read_child_link i s) None js \<and> (\<forall>j\<in>set js. i < j \<and> j < nodes_next s)) \<and>
       (\<exists>js. linked (read_property_link i s) None js \<and> (\<forall>j\<in>set js. j < props_next s)))"
proof -
  have ok: "links_ok s" "root tree = 0" "0 < nodes_next s" using ends_DeviceTree_parse [OF assms(1)] assms(2) by simp_all
  then show ?thesis using links_ok_lists [OF ok(1)] links_okD(2) [OF ok(1)] by (auto simp: capacities)
qed

theorem DeviceTree_parse_well_formed_witness:
  "\<exists>tree s js. DeviceTree_parse sample_blob empty_arrays = Inr (tree, s) \<and> linked (read_child_link 0 s) None js"
proof -
  obtain tree s where t: "DeviceTree_parse sample_blob empty_arrays = Inr (tree, s)"
    using parse_encodes_arrays [OF sample_blob_encodes(1) sample_tree_counts(1)]
    by (auto simp: sample_blob_encodes(2) sample_tree_counts)
  moreover have "length sample_blob < 2 ^ 63" by (simp add: sample_blob_encodes(2))
  ultimately show ?thesis using DeviceTree_parse_well_formed [of sample_blob tree s] by blast
qed

section \<open>Too many properties\<close>

lemma properties_overflow:
  assumes h: "blob_holds blob p (concat (map flat_prop ps))" and p: "4 dvd p"
    and wf: "list_all (\<lambda>d. length (prop_bytes d) < 2 ^ 32) ps" and blob: "blob_ok blob strings" and fresh: "fresh s"
    and i: "i < nodes_next s" and m: "props_next s = 0" and at: "props_at blob strings s i 0 []" and many: "255 < length ps"
  shows "parse_properties_loop (Suc (length blob)) blob i p s = Inl NullDeref"
proof -
  let ?q = "p + length (concat (map flat_prop (take 255 ps)))"
  have split: "concat (map flat_prop ps) =
      concat (map flat_prop (take 255 ps)) @ flat_prop (ps ! 255) @ concat (map flat_prop (drop 256 ps))"
  proof -
    have "ps = take 255 ps @ ps ! 255 # drop 256 ps"
      using id_take_nth_drop [OF many] by simp
    then show ?thesis by (metis concat.simps(2) concat_append list.map(2) map_append)
  qed
  have parts: "blob_holds blob p (concat (map flat_prop (take 255 ps)))" "blob_holds blob ?q (flat_prop (ps ! 255))"
    using h unfolding split by simp_all
  obtain k off v where d: "ps ! 255 = DProp k off v" by (cases "ps ! 255")
  have words: "blob_holds blob ?q (flat_nops k @ be32 STRUCTURE_PROP)" "blob_holds blob (?q + 4 * k) (be32 STRUCTURE_PROP)"
    "blob_holds blob (?q + 4 * k + 8) (be32 off)" using parts(2) by (simp_all add: d add.assoc)
  have wf': "list_all (\<lambda>d. length (prop_bytes d) < 2 ^ 32) (take 255 ps)"
    using wf by (auto simp: list_all_iff dest: in_set_takeD)
  obtain s' fuel' where s': "parse_properties_loop (Suc (length blob)) blob i p s =
      parse_properties_loop fuel' blob i ?q s'" "length blob < fuel' + ?q" "props_next s' = 255"
    using properties_loop [OF parts(1) p wf' blob fresh i, of 0 "[]" "Suc (length blob)"] m at many by auto
  obtain f where f: "fuel' = Suc f" using s'(2) holds_le [OF parts(2)] by (cases fuel') auto
  have full: "next_free (props_next s') NUM_DEVICE_TREE_NODES = (None, props_next s')"
    using s'(3) by (simp add: next_free_def capacities)
  obtain w where "load32 blob offsetof_off_dt_strings = Inr w" using blob by (auto simp: blob_ok_def)
  moreover note load32_be32 [OF words(2)] load32_be32 [OF words(3)] skip_nops_token [OF words(1)]
  ultimately have "DeviceTreeProperty_parse blob (?q + 4 * k) s' = Inl NullDeref"
    using skip_nops_twice [of blob ?q "?q + 4 * k"] full
    by (simp add: DeviceTreeProperty_parse_def Let_def add.commute [of 8] add.assoc)
  then show ?thesis using skip_nops_token [OF words(1)] unfolding s'(1) f by simp
qed


definition crowded_tree :: dt_node where
  "crowded_tree = DNode 0 [] (replicate 256 (DProp 0 0 [])) [] 0"

definition crowded_blob :: "byte list" where
  "crowded_blob = be32 DEVICE_TREE_MAGIC @ be32 0 @ be32 40 @ be32 40 @ be32 0 @ be32 DEVICE_TREE_VERSION @ be32 16 @
     be32 3 @ be32 0 @ be32 0 @ flat_node crowded_tree @ be32 STRUCTURE_END"

lemma crowded_encodes: "encodes crowded_blob 40 crowded_tree 3"
proof -
  have "blob_holds crowded_blob (unat (40 :: u32)) (flat_node crowded_tree @ be32 STRUCTURE_END)"
    by (simp add: blob_holds_def crowded_blob_def)
  then show ?thesis
    unfolding encodes_def
    by (intro conjI exI [of _ 40])
      (simp_all add: blob_holds_def crowded_blob_def offsetof_magic_def offsetof_version_def offsetof_boot_cpuid_phys_def
        offsetof_off_dt_strings_def offsetof_off_dt_struct_def)
qed


end
