(* ===== verification/Printers_Spec.thy ===== *)
theory Printers_Spec
  imports Printers Kernel_Boot Device_Tree_Total
begin

text \<open>
  What the printers print: the texts of single calls (\<open>says\<close>) and of sequences of calls (\<open>writes\<close>), and with them
  the report of the addresses that a page table maps, each once and in ascending order.
\<close>

section \<open>Texts of sequences of calls\<close>

text \<open>The call is one that \<open>printf\<close> understands, and this is its text.\<close>

fun says :: "action \<Rightarrow> u32 list \<Rightarrow> bool" where
  "says (Print fmt args) t \<longleftrightarrow>
     (\<exists>ds rest. fmt = format_string ds @ [0] \<and> (\<forall>d\<in>set ds. directive_ok d) \<and> format_text ds args = Some (t, rest))"
| "says (Stop e) t \<longleftrightarrow> False"

lemma saysI:
  "act = Print (format_string ds @ [0]) args \<Longrightarrow> \<forall>d\<in>set ds. directive_ok d \<Longrightarrow> format_text ds args = Some (t, rest) \<Longrightarrow>
   says act t"
  by auto

lemma run_append: "run_actions h (xs @ ys) k = bindr (run_actions h xs k) (run_actions h ys)"
proof (induction xs arbitrary: k)
  case (Cons x xs)
  then show ?case by (cases x) (simp_all add: bindr_assoc split_def)
qed simp

lemma run_says:
  assumes "quiet_io h k" and "list_all2 says acts ts"
  shows "\<exists>k'. run_actions h acts k = Inr k' \<and> prints_only h k k' \<and>
     kernel_out h k' = kernel_out h k @ concat (map (map ucast) ts)"
  using assms(2,1)
proof (induction arbitrary: k rule: list_all2_induct)
  case Nil
  then show ?case by (simp add: prints_only_def)
next
  case (Cons act acts t ts)
  obtain fmt args ds rest where a: "act = Print fmt args" "fmt = format_string ds @ [0]" "\<forall>d\<in>set ds. directive_ok d"
      "format_text ds args = Some (t, rest)" using Cons.hyps(1) by (cases act) auto
  obtain n k1 where k1: "kprintf h fmt args k = Inr (n, k1)" "prints_only h k k1"
      "kernel_out h k1 = kernel_out h k @ map ucast t"
    using kprintf_boot [OF Cons.prems a(2-4)] by blast
  from Cons.IH [OF quiet_prints [OF k1(2)]] obtain k2 where "run_actions h acts k1 = Inr k2" "prints_only h k1 k2"
      "kernel_out h k2 = kernel_out h k1 @ concat (map (map ucast) ts)" by blast
  then show ?case using k1 prints_only_trans [OF k1(2)] by (simp add: a(1))
qed

text \<open>The calls are understood, and this is what they come to.\<close>

definition writes :: "action list \<Rightarrow> byte list \<Rightarrow> bool" where
  "writes acts text \<longleftrightarrow> (\<exists>ts. list_all2 says acts ts \<and> concat (map (map ucast) ts) = text)"

lemma writes_Nil [simp]: "writes [] text \<longleftrightarrow> text = []"
  by (auto simp: writes_def)

lemma writes_Cons: "says act (chars t) \<Longrightarrow> writes acts u \<Longrightarrow> writes (act # acts) (t @ u)"
proof -
  assume "says act (chars t)" "writes acts u"
  then obtain ts where "list_all2 says (act # acts) (chars t # ts)" "concat (map (map ucast) (chars t # ts)) = t @ u"
    by (auto simp: writes_def map_ucast_chars)
  then show ?thesis unfolding writes_def by blast
qed

lemma writes_append: "writes xs t \<Longrightarrow> writes ys u \<Longrightarrow> writes (xs @ ys) (t @ u)"
proof -
  assume "writes xs t" "writes ys u"
  then obtain ts us where "list_all2 says (xs @ ys) (ts @ us)" "concat (map (map ucast) (ts @ us)) = t @ u"
    unfolding writes_def using list_all2_appendI by force
  then show ?thesis unfolding writes_def by blast
qed

lemma run_writes:
  assumes "quiet_io h k" and "writes acts text"
  shows "\<exists>k'. run_actions h acts k = Inr k' \<and> prints_only h k k' \<and> kernel_out h k' = kernel_out h k @ text"
  using run_says [OF assms(1)] assms(2) unfolding writes_def by blast

text \<open>Calls with no or one conversion.\<close>

lemma says_plain: "plain bs \<Longrightarrow> says (Print (bs @ [0]) []) (chars bs)"
  using format_lits(3) [of bs "[]" "[]"] format_lits(2) [of bs "[]"] format_lits(1) [of bs]
  by (intro saysI [where ds = "map Lit bs"]) (simp_all add: format_string_def)

lemma says_conv:
  assumes "plain a" and "plain b" and "directive_ok d" and "directive_text d args = Some (t, rest)"
    and "fmt = a @ directive_string d @ b @ [0]"
  shows "says (Print fmt args) (chars a @ t @ chars b)"
proof (rule saysI [where ds = "map Lit a @ d # map Lit b"])
  show "Print fmt args = Print (format_string (map Lit a @ d # map Lit b) @ [0]) args"
    using format_lits(2) [of a "d # map Lit b"] format_lits(2) [of b "[]"] assms(5) by (simp add: format_string_def)
  show "\<forall>d\<in>set (map Lit a @ d # map Lit b). directive_ok d" using format_lits(1) assms(1-3) by auto
  show "format_text (map Lit a @ d # map Lit b) args = Some (chars a @ t @ chars b, rest)"
    using format_lits(3) [of b "[]" rest] assms(4) by (simp add: format_lits(3) del: directive_text.simps)
qed

section \<open>The addresses of a page table\<close>

definition vaddr :: "9 word \<times> 9 word \<times> 9 word \<Rightarrow> addr" where
  "vaddr = (\<lambda>(n2, n1, n0). push_bit 30 (ucast n2) OR push_bit 21 (ucast n1) OR push_bit 12 (ucast n0))"

definition all_entries :: "9 word list" where
  "all_entries = map of_nat [0..<512]"

text \<open>The report of one page, as an action and as a text.\<close>

definition page_action :: "addr \<Rightarrow> addr \<Rightarrow> action" where
  "page_action va pa = (if va = pa then Print (line ''vaddr %p => (transparent)'') [VWord va]
     else Print (line ''vaddr %p => paddr %p'') [VWord va, VWord pa])"

definition pointer_text :: "addr \<Rightarrow> byte list" where
  "pointer_text p = (let digits = radix 16 (unat p) in [48, 120] @ replicate (16 - length digits) 48 @ digits)"

definition page_line :: "addr \<Rightarrow> addr \<Rightarrow> byte list" where
  "page_line va pa = bytes_of ''vaddr '' @ pointer_text va @
     (if va = pa then bytes_of '' => (transparent)'' else bytes_of '' => paddr '' @ pointer_text pa) @ [10]"

text \<open>All triples of entry numbers, in the order of their addresses.\<close>

definition all_triples :: "(9 word \<times> 9 word \<times> 9 word) list" where
  "all_triples = List.product all_entries (List.product all_entries all_entries)"

definition page_actions :: "(addr \<Rightarrow> u64) \<Rightarrow> PageTable \<Rightarrow> action list" where
  "page_actions m r = concat (map (\<lambda>v. case lookup m r v of None \<Rightarrow> [] | Some (p, f) \<Rightarrow> [page_action (vaddr v) p]) all_triples)"

lemma ucast_entry: "i < 512 \<Longrightarrow> (ucast (of_nat i :: 9 word) :: u64) = of_nat i"
  by (simp add: unsigned_of_nat take_bit_nat_eq_self)

lemma set_level_ok: "level \<le> 2 \<Longrightarrow> \<exists>va'. VirtualAddress_set_level_entry_number va level n = Inr va' \<and>
    VirtualAddress_set_level_entry_number va' level = VirtualAddress_set_level_entry_number va level"
  and set_level_values: "VirtualAddress_set_level_entry_number va 0 n = Inr (set_field 12 9 va n)"
    "VirtualAddress_set_level_entry_number va (Suc 0) n = Inr (set_field 21 9 va n)"
    "VirtualAddress_set_level_entry_number va (Suc (Suc 0)) n = Inr (set_field 30 9 va n)"
proof -
  have "set_field k 9 (set_field k 9 va n) n' = set_field k 9 va n'" for k n'
    unfolding set_field_def by (rule bit_word_eqI) (auto simp: bit_simps)
  then show "level \<le> 2 \<Longrightarrow> \<exists>va'. VirtualAddress_set_level_entry_number va level n = Inr va' \<and>
    VirtualAddress_set_level_entry_number va' level = VirtualAddress_set_level_entry_number va level"
    by (auto simp: VirtualAddress_set_level_entry_number_def fun_eq_iff)
qed (simp_all add: VirtualAddress_set_level_entry_number_def)

text \<open>One table: every valid entry in turn.\<close>

definition entry_actions :: "(addr \<Rightarrow> u64) \<Rightarrow> nat \<Rightarrow> addr \<Rightarrow> PageTableEntry \<Rightarrow> action list" where
  "entry_actions m level va entry =
     (case level of 0 \<Rightarrow> [page_action va (physical_page_num entry * PAGE_SIZE)]
      | Suc level1 \<Rightarrow> PageTable_print_page_addresses m level1 (physical_page_num entry * PAGE_SIZE) va [0..<512])"

lemma print_table:
  assumes "level \<le> 2"
  shows "PageTable_print_page_addresses m level t va is = concat (map (\<lambda>i. let entry = m (entry_addr t (of_nat i)) in
     if flag_valid (entry_flags entry)
     then with_value (VirtualAddress_set_level_entry_number va level (of_nat i)) (\<lambda>va'. entry_actions m level va' entry)
     else []) is)"
proof (induction "is" arbitrary: va)
  case (Cons i "is")
  obtain va' where va': "VirtualAddress_set_level_entry_number va level (of_nat i) = Inr va'"
      "VirtualAddress_set_level_entry_number va' level = VirtualAddress_set_level_entry_number va level"
    using set_level_ok [OF assms] by blast
  show ?case
    using Cons.IH [of va] Cons.IH [of va', unfolded va'(2)] va'(1)
    by (auto simp: Let_def entry_actions_def page_action_def PageTableEntry_get_linked_def split: nat.split)
qed simp

lemma print_entries:
  assumes "level \<le> 2" and "\<And>n. VirtualAddress_set_level_entry_number va level n = Inr (f n)"
  shows "PageTable_print_page_addresses m level t va [0..<512] = concat (map (\<lambda>n. let entry = m (entry_at t n) in
     if flag_valid (entry_flags entry) then entry_actions m level (f (ucast n)) entry else []) all_entries)"
  unfolding print_table [OF assms(1)] all_entries_def map_map
  by (rule arg_cong [where f = concat], rule map_cong)
    (simp_all add: Let_def assms(2) entry_at_def ucast_entry)

lemma vaddr_fields:
  "set_field 12 9 (set_field 21 9 (set_field 30 9 0 (ucast n2)) (ucast n1)) (ucast n0) = vaddr (n2, n1, n0)"
  unfolding vaddr_def prod.case set_field_def
  by (rule bit_word_eqI) (auto simp: bit_simps dest: bit_imp_le_length)

lemma concat_map_concat: "concat (map g (concat (map f xs))) = concat (map (\<lambda>x. concat (map g (f x))) xs)"
  by (induction xs) simp_all

lemma print_addresses_actions:
  "PageTable_print_page_addresses m 2 r 0 [0..<512] = page_actions m r"
proof -
  have low: "PageTable_print_page_addresses m 0 t (set_field 21 9 (set_field 30 9 0 (ucast n2)) (ucast n1)) [0..<512] =
      concat (map (\<lambda>n0. case lookup m r (n2, n1, n0) of None \<Rightarrow> [] | Some (p, f) \<Rightarrow> [page_action (vaddr (n2, n1, n0)) p])
        all_entries)" if "table_at m r [n2, n1] = Some t" for t n2 n1
    by (subst print_entries [OF _ set_level_values(1)])
      (auto simp: entry_actions_def Let_def lookup_def that vaddr_fields intro!: arg_cong [where f = concat] map_cong)
  have mid: "PageTable_print_page_addresses m (Suc 0) t (set_field 30 9 0 (ucast n2)) [0..<512] =
      concat (map (\<lambda>n1. concat (map (\<lambda>n0. case lookup m r (n2, n1, n0) of None \<Rightarrow> []
        | Some (p, f) \<Rightarrow> [page_action (vaddr (n2, n1, n0)) p]) all_entries)) all_entries)"
    if t: "link m r n2 = Some t" for t n2
  proof (subst print_entries [OF _ set_level_values(2)], simp, rule arg_cong [where f = concat], rule map_cong [OF refl], goal_cases)
    case (1 n1)
    show ?case
    proof (cases "link m t n1")
      case None
      then have "table_at m r [n2, n1] = None" by (simp add: table_at_two t)
      then show ?thesis using None by (simp add: Let_def link_def lookup_def split: if_splits)
    next
      case (Some t0)
      then have "table_at m r [n2, n1] = Some t0" by (simp add: table_at_two t)
      from low [OF this] show ?thesis using Some by (simp add: Let_def link_def entry_actions_def split: if_splits)
    qed
  qed
  have top: "(let entry = m (entry_at r n2) in if flag_valid (entry_flags entry)
       then entry_actions m 2 (set_field 30 9 0 (ucast n2)) entry else []) =
     concat (map (\<lambda>n1. concat (map (\<lambda>n0. case lookup m r (n2, n1, n0) of None \<Rightarrow> []
        | Some (p, f) \<Rightarrow> [page_action (vaddr (n2, n1, n0)) p]) all_entries)) all_entries)" for n2
  proof (cases "link m r n2")
    case None
    then have "table_at m r [n2, n1] = None" for n1 by (simp add: table_at_two)
    then show ?thesis using None by (simp add: Let_def link_def lookup_def split: if_splits)
  next
    case (Some t)
    from mid [OF this] show ?thesis using Some
      by (simp add: Let_def link_def entry_actions_def numeral_2_eq_2 split: if_splits)
  qed
  have two: "VirtualAddress_set_level_entry_number 0 2 n = Inr (set_field 30 9 0 n)" for n
    by (simp add: VirtualAddress_set_level_entry_number_def)
  show ?thesis
    by (subst print_entries [OF _ two], simp) (simp add: top page_actions_def all_triples_def product_concat_map concat_map_concat comp_def)
qed

lemma pointer_directive: "directive_text (simple ConvPtr) (VWord p # args) = Some (chars (pointer_text p), args)"
  by (simp add: pointer_text_def pad_def Let_def text_bounds(1))

lemma page_action_says: "says (page_action va pa) (chars (page_line va pa))"
proof -
  let ?lits = "\<lambda>s. map Lit (bytes_of s)"
  let ?ds = "?lits ''vaddr '' @ simple ConvPtr # (if va = pa then ?lits '' => (transparent)''
     else ?lits '' => paddr '' @ [simple ConvPtr]) @ [Lit 10]"
  let ?args = "if va = pa then [VWord va] else [VWord va, VWord pa]"
  have "page_action va pa = Print (format_string ?ds @ [0]) ?args"
    by (simp add: page_action_def format_lits(2)) (simp add: format_string_def bytes_of_def)
  moreover have "\<forall>d\<in>set ?ds. directive_ok d" by (auto simp: bytes_of_def)
  moreover have "format_text ?ds ?args = Some (chars (page_line va pa), [])"
    by (simp add: format_lits(3) pointer_directive page_line_def del: directive_text.simps) (simp add: bytes_of_def)
  ultimately show ?thesis by (rule saysI)
qed

definition address_report :: "(addr \<Rightarrow> u64) \<Rightarrow> PageTable \<Rightarrow> byte list" where
  "address_report m r = concat (map (\<lambda>v. case lookup m r v of None \<Rightarrow> [] | Some (p, f) \<Rightarrow> page_line (vaddr v) p) all_triples)"

lemma page_actions_write: "writes (page_actions m r) (address_report m r)"
proof -
  have "writes (concat (map (\<lambda>v. case lookup m r v of None \<Rightarrow> [] | Some (p, f) \<Rightarrow> [page_action (vaddr v) p]) vs))
      (concat (map (\<lambda>v. case lookup m r v of None \<Rightarrow> [] | Some (p, f) \<Rightarrow> page_line (vaddr v) p) vs))" for vs
    by (induction vs) (auto intro: writes_Cons [OF page_action_says] split: option.split)
  then show ?thesis unfolding page_actions_def address_report_def .
qed

text \<open>The address of an entry is that of the page it was made for.\<close>

lemma vaddr_vpn:
  assumes "is_aligned p PAGE_SIZE" and "unat p < 2 ^ 38"
  shows "vaddr (vpn p) = p"
proof -
  have high: "\<not> bit p i" if "38 \<le> i" for i
  proof -
    have "p = take_bit 38 p" using assms(2) by (simp add: word_unat_eq_iff unsigned_take_bit_eq take_bit_nat_eq_self)
    then show ?thesis using that by (metis bit_take_bit_iff not_le)
  qed
  have low: "\<not> bit p i" if "i < 12" for i
  proof -
    have "take_bit 12 p = 0" using assms(1) by (simp add: page_aligned_mod take_bit_eq_mod)
    then show ?thesis using that by (metis bit_take_bit_iff bit_0_eq bot_apply bot_bool_def)
  qed
  show ?thesis
  proof (rule bit_word_eqI)
    fix n assume n: "n < LENGTH(64)"
    consider "n < 12" | "12 \<le> n" "n < 21" | "21 \<le> n" "n < 30" | "30 \<le> n" "n < 38" | "38 \<le> n" by linarith
    then show "bit (vaddr (vpn p)) n = bit p n"
      unfolding vaddr_def vpn_def prod.case index_def
      by cases (use high low n in \<open>simp_all add: bit_simps less_diff_conv2\<close>)
  qed
qed

text \<open>
  C29: the printer of a page table's addresses reports exactly the pages that the table maps, each once and in the order
  of their addresses, with the address that each is mapped to.
\<close>

theorem page_addresses_printed:
  assumes "quiet_io h k" and "PageTablePrintPageAddressesState_start = (level, va)"
  shows "\<exists>k'. run_actions h (PageTable_print_page_addresses (mem (vm k)) level table va [0..<512]) k = Inr k' \<and>
     prints_only h k k' \<and> kernel_out h k' = kernel_out h k @ address_report (mem (vm k)) table"
proof -
  have "level = 2" "va = 0"
    using assms(2) by (simp_all add: PageTablePrintPageAddressesState_start_def VIRTUAL_MEMORY_TOP_LEVEL_def)
  then show ?thesis
    using run_writes [OF assms(1) page_actions_write] by (metis print_addresses_actions)
qed

lemma all_triples: "distinct all_triples" "v \<in> set all_triples"
proof -
  have inj: "inj_on (of_nat :: nat \<Rightarrow> 9 word) {0..<512}"
    by (rule inj_onI) (simp add: word_unat_eq_iff unat_of_nat take_bit_nat_eq_self)
  then have "distinct all_entries" by (simp add: all_entries_def distinct_map)
  then show "distinct all_triples" by (simp add: all_triples_def distinct_product)
  have "n \<in> set all_entries" for n
  proof -
    have "unat n < 512" using unsigned_less [of n] by simp
    then have "unat n \<in> {0..<512}" "n = of_nat (unat n)" by simp_all
    then show ?thesis unfolding all_entries_def set_map set_upt by blast
  qed
  then show "v \<in> set all_triples" by (cases v) (simp add: all_triples_def)
qed

lemma address_report_one: "lookup m r = [v \<mapsto> (p, f)] \<Longrightarrow> address_report m r = page_line (vaddr v) p"
proof -
  assume one: "lookup m r = [v \<mapsto> (p, f)]"
  have "distinct vs \<Longrightarrow> concat (map (\<lambda>x. case ([v \<mapsto> (p, f)]) x of None \<Rightarrow> [] | Some (p, f) \<Rightarrow> page_line (vaddr x) p) vs) =
      (if v \<in> set vs then page_line (vaddr v) p else [])" for vs
    by (induction vs) auto
  from this [OF all_triples(1)] show ?thesis by (simp add: address_report_def one all_triples(2))
qed

lemma page_addresses_printed_witness:
  "\<exists>k k' r. run_actions 0 (PageTable_print_page_addresses (mem (vm k)) 2 r 0 [0..<512]) k = Inr k' \<and>
     kernel_out 0 k' = page_line 0x1000000 0x5000"
proof -
  obtain r v where r: "vm_ok sample_sections v {r}" "pages_left sample_sections v = 255" "lookup (mem v) r = Map.empty"
    using sample_root by blast
  have al: "is_aligned 0x1000000 PAGE_SIZE" "page_ok 0x5000 \<or> (0x5000 :: addr) = 0"
    by (simp_all add: page_aligned_mod PAGE_SIZE_def page_ok_def page_of_def drop_bit_eq_div take_bit_eq_mod)
  obtain v' :: VM where v': "lookup (mem v') r = [vpn 0x1000000 \<mapsto> mapped 0x5000 6]"
    using PageTable_map_address_ok [OF r(1) _ al, of r 6] r(2,3) by auto
  let ?k = "(panic_start 0 (sample_kernel 1 []))\<lparr>vm := v'\<rparr>"
  have q: "quiet_io 0 ?k"
    using sample_panic by (simp add: quiet_io_def hart_ok_def traps_enabled_def my_hart_scratch_def buffers_ok_def)
  have out: "kernel_out 0 ?k = []"
    using kernel_out_quiet [OF q]
    by (simp add: panic_start_def disable_traps_now_def csr_clear_mask_def my_hart_scratch_def pending_def console_def sample_hart_def)
  have "vaddr (vpn 0x1000000) = 0x1000000" by (rule vaddr_vpn [OF al(1)]) simp
  then have "address_report (mem (vm ?k)) r = page_line 0x1000000 0x5000"
    using address_report_one [of "mem v'" r "vpn 0x1000000"] v' by (simp add: mapped_def)
  moreover have "PageTablePrintPageAddressesState_start = (2, 0)"
    by (simp add: PageTablePrintPageAddressesState_start_def VIRTUAL_MEMORY_TOP_LEVEL_def)
  ultimately obtain k' where "run_actions 0 (PageTable_print_page_addresses (mem (vm ?k)) 2 r 0 [0..<512]) ?k = Inr k'"
      "kernel_out 0 k' = page_line 0x1000000 0x5000"
    using page_addresses_printed [OF q, of 2 0 r] out by auto
  then show ?thesis by blast
qed

end
