(* ===== verification/Device_Tree_Search.thy ===== *)
theory Device_Tree_Search
  imports Device_Tree_Spec
begin

text \<open>
  The searches in a parsed device tree, for a node by its path and for a property by its name, against searches in
  the tree it stands for.
\<close>

section \<open>Searching for a node\<close>

text \<open>All nodes that a path leads to, in document order.\<close>

fun matches :: "dt_node list \<Rightarrow> byte list list \<Rightarrow> dt_node list" where
  "matches ts [] = []"
| "matches ts (name # names) =
     concat (map (\<lambda>t. if dt_name t = name then (if names = [] then [t] else matches (dt_children t) names) else []) ts)"

lemma matches_Cons:
  "matches (t # ts) (name # names) =
     (if dt_name t = name then (if names = [] then [t] else matches (dt_children t) names) else []) @
     matches ts (name # names)"
  by simp

text \<open>What a search returns: a node that blob_holds the first match, or none if there is no match.\<close>

definition finds :: "byte list \<Rightarrow> nat \<Rightarrow> tree_arrays \<Rightarrow> dt_node list \<Rightarrow> (error + nat option) option \<Rightarrow> bool" where
  "finds blob strings s found r \<longleftrightarrow>
     (case found of
        [] \<Rightarrow> r = Some (Inr None)
      | t # _ \<Rightarrow> (\<exists>j m. r = Some (Inr (Some j)) \<and> node_at blob strings s j m t))"

lemma finds_append:
  assumes "finds blob strings s xs r1" and "finds blob strings s ys r2"
  shows "finds blob strings s (xs @ ys)
    (Option.bind r1 (\<lambda>below. case below of Inl e \<Rightarrow> Some (Inl e)
       | Inr (Some check) \<Rightarrow> Some (Inr (Some check)) | Inr None \<Rightarrow> r2))"
  using assms by (cases xs) (auto simp: finds_def)

lemma strcmp_name:
  assumes "cstring (drop p blob) s" and "0 \<notin> set name"
  shows "\<exists>r. strcmp (string_at blob (Some p)) (Some (name @ [0])) = Inr r \<and> (0 = r \<longleftrightarrow> s = name)"
proof -
  have "cstring (name @ [0]) name" using assms(2) by (rule cstring_append_NUL)
  then have "strcmp_loop (drop p blob) (name @ [0]) = Inr (strcmp_spec s name)"
    by (rule strcmp_loop_spec [OF assms(1)])
  then show ?thesis using strcmp_spec_zero [of s name] by (auto simp: strcmp_def string_at_def)
qed

lemma node_at_link:
  assumes "node_at blob strings s i m (DNode k name ps cs e)"
  obtains p where "i < length (nodes_items s)" "node_name (nodes_items s ! i) = Some p" "cstring (drop p blob) name"
    "linked (read_child_link i s) None (roots (i + 1) cs)" "forest_at blob strings s (i + 1) (m + length ps) cs"
  using assms by (auto split: option.splits)

text \<open>Looking at one node, with the names of the path from \<open>depth\<close> on.\<close>

lemma find_child_test_at:
  assumes at: "node_at blob strings s i m t" and depth: "drop (unat depth) all = name # names"
    and names: "\<forall>n\<in>set all. 0 \<notin> set n"
  shows "find_child_test blob s i (map (\<lambda>n. Some (n @ [0])) all @ [None]) depth =
    Inr (nodes_items s ! i, dt_name t = name, dt_name t = name \<and> names = [])"
proof -
  obtain k nm ps cs e where t: "t = DNode k nm ps cs e" by (cases t)
  from at [unfolded t] obtain p where p: "i < length (nodes_items s)" "node_name (nodes_items s ! i) = Some p"
    "cstring (drop p blob) nm" by (rule node_at_link)
  let ?path = "map (\<lambda>n. Some (n @ [0])) all @ [None]"
  have d: "unat depth < length all" "all ! unat depth = name" "length all = unat depth + 1 + length names"
  proof -
    show l: "unat depth < length all" using depth by (metis drop_all list.distinct(1) not_le)
    show "all ! unat depth = name" using depth l by (metis Cons_nth_drop_Suc list.inject)
    show "length all = unat depth + 1 + length names" using arg_cong [OF depth, of length] l by simp
  qed
  have "0 \<notin> set name" using names d(1,2) nth_mem by blast
  then obtain r where r: "strcmp (string_at blob (Some p)) (Some (name @ [0])) = Inr r" "0 = r \<longleftrightarrow> nm = name"
    using strcmp_name [OF p(3)] by blast
  have "deref ?path (unat depth) = Inr (Some (name @ [0]))" using d by (simp add: nth_append)
  moreover have "deref ?path (unat depth + 1) = Inr (?path ! (unat depth + 1))" using d by simp
  moreover have "?path ! (unat depth + 1) = None \<longleftrightarrow> names = []" using d by (auto simp: nth_append)
  ultimately show ?thesis using p r by (simp add: find_child_test_def t)
qed

lemma linked_siblings: "linked (read_child_link x s) (Some i) js \<Longrightarrow> linked (read_child_link y s) (Some i) js"
  by (induction js arbitrary: i) (simp_all add: read_child_link_def)

lemma find_child_forest:
  assumes "ts \<noteq> []" and "forest_at blob strings s i m ts"
    and "linked (read_child_link x s) (Some i) (tl (roots i ts))"
    and "drop (unat depth) all = names" and "names \<noteq> []" and "length all \<le> 255" and "\<forall>n\<in>set all. 0 \<notin> set n"
  shows "finds blob strings s (matches ts names)
    (DeviceTreeNode_find_child_recursive blob s i (map (\<lambda>n. Some (n @ [0])) all @ [None]) depth)"
  using assms
proof (induction names arbitrary: ts i m x depth)
  case (Cons name names)
  note outer = Cons.IH
  show ?case using Cons.prems(1-3)
  proof (induction ts arbitrary: i m)
    case (Cons t ts)
    let ?path = "map (\<lambda>n. Some (n @ [0])) all @ [None]"
    obtain k nm ps cs e where t: "t = DNode k nm ps cs e" by (cases t)
    have at: "node_at blob strings s i m t" "forest_at blob strings s (i + node_count t) (m + prop_count t) ts"
      using Cons.prems(2) by simp_all
    obtain p where node: "i < length (nodes_items s)" "linked (read_child_link i s) None (roots (i + 1) cs)"
      "forest_at blob strings s (i + 1) (m + length ps) cs"
      using node_at_link [OF at(1) [unfolded t]] by metis
    have names: "drop (unat depth) all = name # names" "\<forall>n\<in>set all. 0 \<notin> set n" "length all \<le> 255"
      using \<open>drop (unat depth) all = name # names\<close> \<open>\<forall>n\<in>set all. 0 \<notin> set n\<close> \<open>length all \<le> 255\<close> by blast+
    have len: "unat depth < length all" using names(1) by (metis drop_all list.distinct(1) not_le)
    have "unat (depth + 1) = unat depth + 1" using len names(3) by (subst unat_word_add_less) simp_all
    moreover have "drop (unat depth + 1) all = drop 1 (drop (unat depth) all)" by (simp add: drop_drop add.commute)
    ultimately have next_depth: "drop (unat (depth + 1)) all = names" by (simp only: names(1)) simp
    let ?below = "if nm = name then (case node_child (nodes_items s ! i) of None \<Rightarrow> Some (Inr None)
        | Some c \<Rightarrow> DeviceTreeNode_find_child_recursive blob s c ?path (depth + 1)) else Some (Inr None)"
    let ?beside = "case node_next (nodes_items s ! i) of None \<Rightarrow> Some (Inr None)
        | Some sibling \<Rightarrow> DeviceTreeNode_find_child_recursive blob s sibling ?path depth"
    have unfolded: "DeviceTreeNode_find_child_recursive blob s i ?path depth =
        (if nm = name \<and> names = [] then Some (Inr (Some i))
         else Option.bind ?below (\<lambda>below. case below of Inl e \<Rightarrow> Some (Inl e)
           | Inr (Some check) \<Rightarrow> Some (Inr (Some check)) | Inr None \<Rightarrow> ?beside))"
      by (subst DeviceTreeNode_find_child_recursive.simps)
        (simp add: find_child_test_at [OF at(1) names(1,2)], simp add: t)
    show ?case
    proof (cases "nm = name \<and> names = []")
      case True
      then show ?thesis using at(1) by (subst unfolded) (auto simp: t finds_def)
    next
      case False
      have below: "finds blob strings s (if nm = name then matches cs names else []) ?below"
      proof (cases "nm = name \<and> cs \<noteq> []")
        case True
        then have child: "node_child (nodes_items s ! i) = Some (i + 1)"
          "linked (read_child_link i s) (Some (i + 1)) (tl (roots (i + 1) cs))"
          using node by (cases cs; simp add: read_child_link_def)+
        have "finds blob strings s (matches cs names) (DeviceTreeNode_find_child_recursive blob s (i + 1) ?path (depth + 1))"
          by (rule outer [OF _ node(3) child(2) next_depth _ names(3,2)]) (use True False in auto)
        then show ?thesis using True child(1) by simp
      next
        case None: False
        then show ?thesis using node by (cases names; auto simp: read_child_link_def finds_def)
      qed
      have beside: "finds blob strings s (matches ts (name # names)) ?beside"
      proof (cases ts)
        case Nil
        then show ?thesis using Cons.prems(3) node(1) by (simp add: read_child_link_def finds_def)
      next
        case (Cons t' ts')
        then have "node_next (nodes_items s ! i) = Some (i + node_count t)"
          using Cons.prems(3) node(1) by (auto simp: read_child_link_def)
        moreover have "linked (read_child_link x s) (Some (i + node_count t)) (tl (roots (i + node_count t) ts))"
          using Cons.prems(3) Cons by simp
        ultimately show ?thesis using Cons.IH [OF _ at(2)] Cons by simp
      qed
      have m: "matches (t # ts) (name # names) = (if nm = name then matches cs names else []) @ matches ts (name # names)"
        using False by (simp add: t matches_Cons del: matches.simps)
      show ?thesis
        unfolding m unfolded if_not_P [OF False] by (rule finds_append [OF below beside])
    qed
  qed simp
qed simp

lemma find_child_path:
  assumes "node_at blob strings s i m t" and "node_next (nodes_items s ! i) = None"
    and "length names \<le> 254" and "\<forall>n\<in>set names. 0 \<notin> set n"
  shows "finds blob strings s (matches [t] ([] # names))
    (DeviceTreeNode_find_child blob s i (DEVICE_TREE_PATH_FROM_ROOT names))"
proof -
  have "i < length (nodes_items s)" using assms(1) by (cases t) simp
  then have "linked (read_child_link 0 s) (Some i) (tl (roots i [t]))"
    using assms(2) by (simp add: read_child_link_def)
  then show ?thesis
    using find_child_forest [where ts = "[t]" and all = "[] # names" and depth = 0 and names = "[] # names"] assms
    by (simp add: DeviceTreeNode_find_child_def DEVICE_TREE_PATH_FROM_ROOT_def del: matches.simps)
qed

text \<open>
  C21: in the arrays that hold a tree, the search for a path of names, at most 254 of them below the root, finds
  the first node in document order that the path leads to, also where it has to go back from a child whose
  descendants do not match to a later sibling of the same name; and it finds none exactly if there is none.
\<close>

theorem find_child_first_match:
  assumes "node_at blob strings s i m t" and "node_next (nodes_items s ! i) = None"
    and "length names \<le> 254" and "\<forall>n\<in>set names. 0 \<notin> set n"
  shows "finds blob strings s (matches [t] ([] # names))
    (DeviceTreeNode_find_child blob s i (DEVICE_TREE_PATH_FROM_ROOT names))"
  using assms by (rule find_child_path)

theorem find_child_first_match_witness:
  "\<exists>s. DeviceTree_parse sample_blob empty_arrays = Inr (\<lparr>boot_cpuid_phys = 3, root = 0\<rparr>, s) \<and>
     finds sample_blob 40 s [DNode 1 [98] [DProp 1 2 []] [] 0]
       (DeviceTreeNode_find_child sample_blob s 0 (DEVICE_TREE_PATH_FROM_ROOT [[98]]))"
proof -
  from parse_encodes_arrays [OF sample_blob_encodes(1) sample_tree_counts(1)] obtain s where
    s: "DeviceTree_parse sample_blob empty_arrays = Inr (\<lparr>boot_cpuid_phys = 3, root = 0\<rparr>, s)"
      "node_at sample_blob 40 s 0 0 sample_tree" "node_next (nodes_items s ! 0) = None"
    by (auto simp: sample_blob_encodes(2) sample_tree_counts)
  have "matches [sample_tree] [[], [98]] = [DNode 1 [98] [DProp 1 2 []] [] 0]"
    by (simp add: sample_tree_def)
  with find_child_first_match [OF s(2,3), of "[[98]]"] s(1) show ?thesis by auto
qed

section \<open>Searching for a property\<close>

text \<open>The name that the strings block blob_holds for a property.\<close>

definition string_of :: "byte list \<Rightarrow> nat \<Rightarrow> dt_prop \<Rightarrow> byte list" where
  "string_of blob strings d = takeWhile (\<lambda>b. b \<noteq> 0) (drop (strings + unat (nameoff d)) blob)"

definition named :: "byte list \<Rightarrow> nat \<Rightarrow> dt_prop \<Rightarrow> bool" where
  "named blob strings d \<longleftrightarrow> 0 \<in> set (drop (strings + unat (nameoff d)) blob)"

lemma find_property_walk:
  assumes "linked (read_property_link i s) (Some l) js" and "l < length (props_items s)"
  shows "prop_next (props_items s ! l) = (case js of [] \<Rightarrow> None | j # _ \<Rightarrow> Some j)"
  using assms by (cases js) (simp_all add: read_property_link_def)

lemma find_property_list:
  assumes "linked (read_property_link i s) pos js" and "read_property_link i s pos = Inr link"
    and "list_all2 (prop_at blob strings s) js ds" and "list_all (named blob strings) ds" and "0 \<notin> set name"
  shows "case List.find (\<lambda>d. string_of blob strings d = name) ds of
      None \<Rightarrow> find_property_loop blob s (name @ [0]) link = Some (Inr None)
    | Some d \<Rightarrow> (\<exists>j. find_property_loop blob s (name @ [0]) link = Some (Inr (Some j)) \<and> prop_at blob strings s j d)"
  using assms
proof (induction js arbitrary: pos link ds)
  case Nil
  then show ?case by (subst find_property_loop.simps) (simp add: find_property_step_def)
next
  case (Cons j js)
  obtain d ds' where ds: "ds = d # ds'" "prop_at blob strings s j d" "list_all2 (prop_at blob strings s) js ds'"
    using Cons.prems(3) by (auto simp: list_all2_Cons1)
  have link: "link = Some j" and links: "linked (read_property_link i s) (Some j) js" using Cons.prems(1,2) by simp_all
  have "cstring (drop (strings + unat (nameoff d)) blob) (string_of blob strings d)"
    using Cons.prems(4) by (simp add: ds(1) named_def string_of_def cstring_def)
  from strcmp_name [OF this Cons.prems(5)] obtain r where r:
    "strcmp (string_at blob (Some (strings + unat (nameoff d)))) (Some (name @ [0])) = Inr r"
    "0 = r \<longleftrightarrow> string_of blob strings d = name" by blast
  have j: "j < length (props_items s)" "prop_name (props_items s ! j) = Some (strings + unat (nameoff d))"
    using ds(2) by (simp_all add: prop_at_def)
  have step: "find_property_loop blob s (name @ [0]) link =
      (if string_of blob strings d = name then Some (Inr (Some j))
       else find_property_loop blob s (name @ [0]) (prop_next (props_items s ! j)))"
    using r by (subst find_property_loop.simps) (simp add: find_property_step_def link j)
  have "read_property_link i s (Some j) = Inr (prop_next (props_items s ! j))"
    using j(1) by (simp add: read_property_link_def)
  from Cons.IH [OF links this ds(3) _ Cons.prems(5)] show ?case
    using Cons.prems(4) ds(1,2) by (auto simp: step split: option.splits)
qed

text \<open>
  In a node of a parsed tree whose property names are strings of the blob, the search for a name finds the first
  property of that name, with its value, and none exactly if no property has the name.
\<close>

theorem find_property_first_match:
  assumes "node_at blob strings s i m (DNode k nm ps cs e)" and "list_all (named blob strings) ps" and "0 \<notin> set name"
  shows "case List.find (\<lambda>d. string_of blob strings d = name) ps of
      None \<Rightarrow> DeviceTreeNode_find_property blob s (Some i) (name @ [0]) = Some (Inr None)
    | Some d \<Rightarrow>
        (\<exists>j. DeviceTreeNode_find_property blob s (Some i) (name @ [0]) = Some (Inr (Some j)) \<and>
           prop_at blob strings s j d)"
proof -
  have i: "i < length (nodes_items s)" using assms(1) by simp
  then have "read_property_link i s None = Inr (node_properties (nodes_items s ! i))"
    by (simp add: read_property_link_def)
  note found = find_property_list [OF _ this _ assms(2,3)]
  have "DeviceTreeNode_find_property blob s (Some i) (name @ [0]) =
      find_property_loop blob s (name @ [0]) (node_properties (nodes_items s ! i))"
    using i by (simp add: DeviceTreeNode_find_property_def)
  then show ?thesis using assms(1) by (simp only: node_at.simps) (rule found [where js = "[m..<m + length ps]"], simp_all)
qed

text \<open>The root of the sample has the property \<open>x\<close> with three bytes.\<close>

theorem find_property_first_match_witness:
  "\<exists>s j. DeviceTree_parse sample_blob empty_arrays = Inr (\<lparr>boot_cpuid_phys = 3, root = 0\<rparr>, s) \<and>
     DeviceTreeNode_find_property sample_blob s (Some 0) [120, 0] = Some (Inr (Some j)) \<and>
     prop_at sample_blob 40 s j (DProp 0 0 [1, 2, 3])"
proof -
  from parse_encodes_arrays [OF sample_blob_encodes(1) sample_tree_counts(1)] obtain s where
    s: "DeviceTree_parse sample_blob empty_arrays = Inr (\<lparr>boot_cpuid_phys = 3, root = 0\<rparr>, s)"
      "node_at sample_blob 40 s 0 0 sample_tree" by (auto simp: sample_blob_encodes(2) sample_tree_counts)
  have strings: "drop 40 sample_blob = [120, 0, 121, 0] @ flat_node sample_tree @ be32 STRUCTURE_END"
    by (simp add: sample_blob_def)
  have "named sample_blob 40 (DProp 0 0 [1, 2, 3])" "string_of sample_blob 40 (DProp 0 0 [1, 2, 3]) = [120]"
    by (simp_all add: named_def string_of_def strings)
  with find_property_first_match [OF s(2) [unfolded sample_tree_def], of "[120]"] s(1) show ?thesis by auto
qed

end
