(* ===== verification/Device_Tree_Print.thy ===== *)
theory Device_Tree_Print
  imports Printers_Spec Device_Tree_Search
begin

text \<open>
  The printer of a device tree against a plain rendering of the tree: every node and every property once, in document
  order, indented by its depth, with the bytes of each value and with its text where it is one.
\<close>

lemma writes_one: "says act (chars t) \<Longrightarrow> writes [act] t"
  using writes_Cons [of act t "[]" "[]"] by simp

section \<open>The rendering\<close>

definition indent :: "nat \<Rightarrow> byte list" where "indent x = replicate (4 * x) 32"

definition quoted :: "byte list \<Rightarrow> byte list" where "quoted s = [34] @ s @ [34]"

definition hex_byte :: "byte \<Rightarrow> byte list" where
  "hex_byte b = (let digits = radix 16 (unat b) in replicate (2 - length digits) 48 @ digits @ [32])"

definition decimal :: "nat \<Rightarrow> byte list" where "decimal n = radix 10 n"

text \<open>A value that reads as one string: text up to its end, which is a NUL, and not only NULs or an empty string.\<close>

definition reads_as_text :: "byte list \<Rightarrow> bool" where
  "reads_as_text v \<longleftrightarrow> v \<noteq> [] \<and> last v = 0 \<and> hd v \<noteq> 0 \<and>
     (\<forall>b\<in>set v. 0x20 \<le> b \<and> b \<le> 0x7e \<or> b \<in> {0, 9, 10, 13})"

definition prop_text :: "byte list \<Rightarrow> byte list \<Rightarrow> nat \<Rightarrow> nat \<Rightarrow> byte list" where
  "prop_text name v depth counter =
     indent (depth + 1) @ bytes_of ''prop['' @ decimal counter @ bytes_of '']: '' @ bytes_of ''DeviceTreeProperty { '' @
     bytes_of ''name: '' @ quoted name @ bytes_of '', '' @ bytes_of ''data: '' @
     (if reads_as_text v then quoted (takeWhile (\<lambda>b. b \<noteq> 0) v) @ [32] else []) @
     [91] @ decimal (length v) @ [93, 32] @ concat (map hex_byte v) @ bytes_of ''},'' @ [10]"

fun props_text :: "(dt_prop \<Rightarrow> byte list) \<Rightarrow> nat \<Rightarrow> nat \<Rightarrow> dt_prop list \<Rightarrow> byte list" where
  "props_text names depth counter [] = []"
| "props_text names depth counter (p # ps) =
     prop_text (names p) (prop_bytes p) depth counter @ props_text names depth (counter + 1) ps"

fun node_text :: "(dt_prop \<Rightarrow> byte list) \<Rightarrow> nat \<Rightarrow> dt_node \<Rightarrow> byte list"
and children_text :: "(dt_prop \<Rightarrow> byte list) \<Rightarrow> nat \<Rightarrow> nat \<Rightarrow> dt_node list \<Rightarrow> byte list" where
  "node_text names depth (DNode k name ps cs e) =
     bytes_of ''DeviceTreeNode {'' @ [10] @ indent (depth + 1) @ bytes_of ''name: '' @ quoted name @ [44, 10] @
     props_text names depth 0 ps @ children_text names depth 0 cs @ indent depth @ bytes_of ''},'' @ [10]"
| "children_text names depth counter [] = []"
| "children_text names depth counter (t # ts) =
     indent (depth + 1) @ bytes_of ''child['' @ decimal counter @ bytes_of '']: '' @ node_text names (depth + 1) t @
     children_text names depth (counter + 1) ts"

section \<open>The calls\<close>

lemma ucast_of_nat_64: "(ucast (of_nat n :: u64) :: u32) = of_nat n"
  by (rule bit_word_eqI) (auto simp: bit_simps dest: bit_imp_le_length)

lemma small_int: "n < 2 ^ 31 \<Longrightarrow> sint (ucast (of_nat n :: u64) :: u32) = int n"
proof -
  assume n: "n < 2 ^ 31"
  then show ?thesis by (simp add: ucast_of_nat_64 signed_of_nat signed_take_bit_int_eq_self)
qed

lemma says_indent:
  assumes "x < 2 ^ 29"
  shows "says (D x) (chars (indent x))"
proof -
  have "unat (of_nat (x * 4) :: u32) = 4 * x"
    using assms by (simp del: of_nat_mult add: unat_of_nat take_bit_nat_eq_self)
  moreover note ucast_of_nat_64 [of "x * 4"]
  moreover have "sint (ucast (of_nat (x * 4) :: u64) :: u32) = int (x * 4)" using assms by (intro small_int) simp
  ultimately have "directive_text (Conv False False False StarWidth 0 ConvStr) [VWord (of_nat (x * 4)), VStr [0]] =
      Some (chars (indent x), [])"
    by (simp add: pad_def indent_def chars_def)
  from says_conv [OF _ _ _ this, of "[]" "[]"] show ?thesis
    by (simp add: D_def plain_def cstr_def bytes_of_def)
qed

lemma says_decimal:
  assumes "n < 2 ^ 31" and "plain a" and "plain b" and "fmt = a @ [37, 100] @ b @ [0]"
  shows "says (Print fmt [VWord (of_nat n)]) (chars (a @ decimal n @ b))"
proof -
  have "directive_text (simple ConvSigned) [VWord (of_nat n)] = Some (chars (decimal n), [])"
    using small_int [OF assms(1)] text_bounds(3) [of "ucast (of_nat n :: u64)"]
    by (simp add: signed_text_def decimal_def pad_def)
  from says_conv [OF assms(2,3) _ this, of fmt] show ?thesis using assms(4) by simp
qed

lemma says_string:
  assumes "cstring p s" and "length s < 2 ^ 31" and "plain a" and "plain b" and "fmt = a @ [37, 115] @ b @ [0]"
  shows "says (Print fmt [VStr p]) (chars (a @ s @ b))"
proof -
  have "directive_text (simple ConvStr) [VStr p] = Some (chars s, [])"
    using assms(1,2) by (simp add: cstring_def pad_def)
  from says_conv [OF assms(3,4) _ this, of fmt] show ?thesis using assms(5) by simp
qed

lemma says_hex_byte: "says (Print (cstr ''%02x '') [VWord (ucast v)]) (chars (hex_byte v))"
proof -
  let ?d = "Conv False False True (Width 2) 0 ConvHex"
  have v: "(ucast (ucast v :: u64) :: u32) = ucast v" by (rule bit_word_eqI) (auto simp: bit_simps dest: bit_imp_le_length)
  have "unat v < 256" using unsigned_less [of v] by simp
  then have "unat (ucast v :: u32) = unat v" by (simp add: unsigned_ucast_eq take_bit_nat_eq_self)
  then have "directive_text ?d [VWord (ucast v)] = Some (chars (replicate (2 - length (radix 16 (unat v))) 48 @ radix 16 (unat v)), [])"
    using text_bounds(2) [of "ucast v"] v by (simp add: pad_def)
  from says_conv [OF _ _ _ this, of "[]" "[32]"] show ?thesis
    by (simp add: plain_def cstr_def bytes_of_def radix.simps digit_char_def hex_byte_def Let_def)
qed

section \<open>One property\<close>

lemma value_in:
  assumes "prop_value p = Some o'" and "blob_holds blob o' v" and "i < length v"
  shows "value_at blob p (int i) = Inr (v ! i)"
proof -
  have "v ! i = blob ! (o' + i)" "o' + i < length blob"
    using assms(2,3) by (auto simp: blob_holds_def dest: arg_cong [where f = "\<lambda>l. l ! i"])
  then show ?thesis by (simp add: value_at_def assms(1) nat_add_distrib flip: of_nat_add)
qed

definition text_byte :: "byte \<Rightarrow> bool" where
  "text_byte b \<longleftrightarrow> 0x20 \<le> b \<and> b \<le> 0x7e \<or> b \<in> {0, 9, 10, 13}"

lemma scan_value_in:
  assumes "\<And>i. i \<in> set is \<Longrightarrow> value_at blob p (int i) = Inr (f i)"
  shows "\<exists>z. scan_value blob p is all_zeros = Inr (\<forall>i\<in>set is. text_byte (f i), z) \<and>
     ((\<forall>i\<in>set is. text_byte (f i)) \<longrightarrow> (z \<longleftrightarrow> all_zeros \<and> (\<forall>i\<in>set is. f i = 0)))"
  using assms
proof (induction "is" arbitrary: all_zeros)
  case (Cons i "is")
  have v: "value_at blob p (int i) = Inr (f i)" using Cons.prems by simp
  have t: "text_byte b \<longleftrightarrow> \<not> ((b < 0x20 \<or> b > 0x7e) \<and> b \<noteq> 0 \<and> \<not> (b = 10 \<or> b = 9 \<or> b = 13))" for b
    by (auto simp: text_byte_def not_less)
  show ?case
  proof (cases "text_byte (f i)")
    case True
    have "scan_value blob p (i # is) all_zeros = scan_value blob p is (all_zeros \<and> f i = 0)"
      by (simp only: scan_value.simps v bindr_simps if_not_P [OF True [unfolded t]])
    then show ?thesis using Cons.IH [of "all_zeros \<and> f i = 0"] Cons.prems True by auto
  next
    case False
    then have "scan_value blob p (i # is) all_zeros = Inr (False, all_zeros)" using v by (simp add: t)
    then show ?thesis using False by auto
  qed
qed simp

lemma is_text_value_at:
  assumes o': "prop_value p = Some o'" "0 < o'" "blob_holds blob o' v" and len: "prop_value_len p = length v"
  shows "is_text_value blob p = Inr (reads_as_text v)"
proof -
  have at: "value_at blob p (int i) = Inr (v ! i)" if "i < length v" for i by (rule value_in [OF o'(1,3) that])
  have all: "(\<forall>i\<in>set [0..<length v]. P (v ! i)) \<longleftrightarrow> (\<forall>b\<in>set v. P b)" for P by (auto simp: all_set_conv_all_nth)
  obtain z where z: "scan_value blob p [0..<length v] True = Inr (\<forall>b\<in>set v. text_byte b, z)"
      "(\<forall>b\<in>set v. text_byte b) \<longrightarrow> (z \<longleftrightarrow> (\<forall>b\<in>set v. b = 0))"
    using scan_value_in [of "[0..<length v]" blob p "(!) v" True] at all [of text_byte] all [of "\<lambda>b. b = 0"] by auto
  show ?thesis
  proof (cases "v = []")
    case True
    have "o' \<le> length blob" using holds_le [OF o'(3)] by simp
    then have "value_at blob p (- 1) = Inr (blob ! (o' - 1))"
      using o'(1,2) by (auto simp: value_at_def nat_diff_distrib' of_nat_diff)
    then show ?thesis using True by (simp add: is_text_value_def len reads_as_text_def)
  next
    case False
    then have e: "int (length v) - 1 = int (length v - 1)" by (cases v) simp_all
    have "value_at blob p (int (length v) - 1) = Inr (last v)"
      unfolding e last_conv_nth [OF False] by (rule at) (use False in simp)
    moreover have "value_at blob p 0 = Inr (hd v)" using at [of 0] False by (simp add: hd_conv_nth)
    moreover have "hd v \<noteq> 0 \<Longrightarrow> \<not> (\<forall>b\<in>set v. b = 0)" using False by auto
    moreover have "reads_as_text v \<longleftrightarrow> last v = 0 \<and> hd v \<noteq> 0 \<and> (\<forall>b\<in>set v. text_byte b)"
      using False by (simp add: reads_as_text_def text_byte_def)
    ultimately show ?thesis
      using False z by (simp add: is_text_value_def len) blast
  qed
qed

lemma writes_concat: "(\<And>x. x \<in> set xs \<Longrightarrow> writes (f x) (g x)) \<Longrightarrow> writes (concat (map f xs)) (concat (map g xs))"
  by (induction xs) (auto intro: writes_append)

lemma holds_string:
  assumes "blob_holds blob o' v" and "0 \<in> set v"
  shows "cstring (drop o' blob) (takeWhile (\<lambda>b. b \<noteq> 0) v)"
proof -
  obtain rest where "drop o' blob = v @ rest" using assms(1) unfolding blob_holds_def by (metis append_take_drop_id)
  then show ?thesis using assms(2) by (simp add: cstring_def)
qed

lemma property_writes:
  assumes p: "prop_name p = Some n" "cstring (drop n blob) name" "prop_value p = Some o'" "0 < o'" "blob_holds blob o' v"
      "prop_value_len p = length v"
    and small: "length blob < 2 ^ 31" "depth < 2 ^ 28" "counter < 2 ^ 31"
  shows "writes (DeviceTreeProperty_print blob p depth counter) (prop_text name v depth counter)"
proof -
  have len: "length name < 2 ^ 31" "length v < 2 ^ 31"
  proof -
    have "length name \<le> length (drop n blob)"
      using p(2) length_takeWhile_le [of _ "drop n blob"] unfolding cstring_def by blast
    then show "length name < 2 ^ 31" using small(1) by simp
    show "length v < 2 ^ 31" using holds_le [OF p(5)] small(1) by simp
  qed
  have name: "string_arg blob (prop_name p) = Inr (VStr (drop n blob))" using p(1,2) by (simp add: string_arg_def cstring_def)
  have plain: "plain (bytes_of ''prop['')" "plain (bytes_of '']: '')" "plain (bytes_of ''DeviceTreeProperty { '')"
      "plain (bytes_of ''name: '' @ [34])" "plain (34 # bytes_of '', '')" "plain (bytes_of ''data: '')" "plain [34]"
      "plain [34, 32]" "plain [91]" "plain [93, 32]" "plain (bytes_of ''},'' @ [10])"
    by (simp_all add: plain_simps)
  let ?acts1 = "[D (depth + 1), Print (cstr ''prop[%d]: '') [VWord (of_nat counter)], Print (cstr ''DeviceTreeProperty { '') []]"
  have w1: "writes ?acts1 (indent (depth + 1) @ (bytes_of ''prop['' @ decimal counter @ bytes_of '']: '') @ bytes_of ''DeviceTreeProperty { '')"
    by (intro writes_Cons writes_one says_indent says_decimal [OF small(3) plain(1,2)])
      (use small(2) says_plain [OF plain(3)] in \<open>simp_all add: cstr_def bytes_of_def\<close>)
  have w2: "writes [Print (bytes_of ''name: \"%s\", '' @ [0]) [VStr (drop n blob)], Print (cstr ''data: '') []]
      (bytes_of ''name: '' @ quoted name @ bytes_of '', '' @ bytes_of ''data: '')"
  proof -
    have "writes [Print (bytes_of ''name: \"%s\", '' @ [0]) [VStr (drop n blob)], Print (cstr ''data: '') []]
      (((bytes_of ''name: '' @ [34]) @ name @ 34 # bytes_of '', '') @ bytes_of ''data: '')"
      by (intro writes_Cons writes_one says_string [OF p(2) len(1) plain(4,5)])
        (use says_plain [OF plain(6)] in \<open>simp_all add: cstr_def bytes_of_def\<close>)
    then show ?thesis by (simp add: quoted_def)
  qed
  have w3: "writes (with_value (is_text_value blob p) (\<lambda>is_text.
       if is_text then with_value (string_arg blob (prop_value p)) (\<lambda>v. [Print (cstr ''\"%s\" '') [v]]) else []))
      (if reads_as_text v then quoted (takeWhile (\<lambda>b. b \<noteq> 0) v) @ [32] else [])"
  proof (cases "reads_as_text v")
    case True
    then have "0 \<in> set v" using last_in_set [of v] by (auto simp: reads_as_text_def)
    note str = holds_string [OF p(5) this]
    have "length (takeWhile (\<lambda>b. b \<noteq> 0) v) < 2 ^ 31" using len(2) length_takeWhile_le [of _ v] le_less_trans by blast
    from says_string [OF str this plain(7,8)] show ?thesis
      using True str by (simp add: is_text_value_at [OF p(3-6)] string_arg_def p(3) cstring_def quoted_def writes_one cstr_def bytes_of_def)
  qed (simp add: is_text_value_at [OF p(3-6)])
  have w4: "writes [Print (cstr ''[%d] '') [VWord (of_nat (prop_value_len p))]] ([91] @ decimal (length v) @ [93, 32])"
    unfolding p(6) by (intro writes_one says_decimal [OF len(2) plain(9,10)]) (simp add: cstr_def bytes_of_def)
  have w5: "writes (concat (map (\<lambda>i. with_value (value_at blob p (int i)) (\<lambda>v. [Print (cstr ''%02x '') [VWord (ucast v)]]))
       [0..<prop_value_len p])) (concat (map hex_byte v))"
  proof -
    have "map hex_byte v = map (\<lambda>i. hex_byte (v ! i)) [0..<length v]" by (rule nth_equalityI) simp_all
    then show ?thesis
      unfolding p(6) by (auto intro!: writes_concat writes_one says_hex_byte simp: value_in [OF p(3,5)])
  qed
  have w6: "writes [Print (line ''},'') []] (bytes_of ''},'' @ [10])"
    using says_plain [OF plain(11)] by (intro writes_one) simp
  from writes_append [OF w1 writes_append [OF w2 writes_append [OF w3 writes_append [OF w4 writes_append [OF w5 w6]]]]]
  show ?thesis
    by (simp only: DeviceTreeProperty_print_def name with_value_simps prop_text_def append_assoc)
qed

section \<open>All of a tree\<close>

lemma props_write:
  assumes "linked (read_property_link i s) pos js" and "read_property_link i s pos = Inr here"
    and "list_all2 (prop_at blob strings s) js ps" and "list_all (named blob strings) ps"
    and "length ps < fuel" and "counter + length ps < 2 ^ 31" and small: "length blob < 2 ^ 31" "depth < 2 ^ 28"
  shows "writes (print_properties_loop fuel blob s depth counter here) (props_text (string_of blob strings) depth counter ps)"
  using assms(1-6)
proof (induction js arbitrary: pos here ps fuel counter)
  case Nil
  then obtain fuel1 where "fuel = Suc fuel1" by (cases fuel) auto
  then show ?case using Nil by simp
next
  case (Cons j js)
  obtain d ds where ps: "ps = d # ds" "prop_at blob strings s j d" "list_all2 (prop_at blob strings s) js ds"
    using Cons.prems(3) by (auto simp: list_all2_Cons1)
  obtain fuel1 where fuel: "fuel = Suc fuel1" using Cons.prems(5) by (cases fuel) auto
  have here: "here = Some j" "linked (read_property_link i s) (Some j) js" using Cons.prems(1,2) by simp_all
  let ?p = "props_items s ! j"
  obtain o' where p: "j < length (props_items s)" "prop_name ?p = Some (strings + unat (nameoff d))"
      "prop_value_len ?p = length (prop_bytes d)" "prop_value ?p = Some o'" "0 < o'" "blob_holds blob o' (prop_bytes d)"
    using ps(2) by (auto simp: prop_at_def split: option.splits)
  have name: "cstring (drop (strings + unat (nameoff d)) blob) (string_of blob strings d)"
    using Cons.prems(4) by (simp add: ps(1) named_def string_of_def cstring_def)
  have head: "writes (DeviceTreeProperty_print blob ?p depth counter)
      (prop_text (string_of blob strings d) (prop_bytes d) depth counter)"
    using Cons.prems(6) by (intro property_writes [OF p(2) name p(4-6,3) small]) simp
  have "read_property_link i s (Some j) = Inr (prop_next ?p)" using p(1) by (simp add: read_property_link_def)
  from Cons.IH [OF here(2) this ps(3), of fuel1 "counter + 1"] Cons.prems(4-6)
  have "writes (print_properties_loop fuel1 blob s depth (counter + 1) (prop_next ?p))
      (props_text (string_of blob strings) depth (counter + 1) ds)" by (simp add: ps(1) fuel)
  from writes_append [OF head this] show ?case by (simp add: fuel here ps(1) p(1))
qed

fun tree_named :: "byte list \<Rightarrow> nat \<Rightarrow> dt_node \<Rightarrow> bool" where
  "tree_named blob strings (DNode k name ps cs e) \<longleftrightarrow>
     list_all (named blob strings) ps \<and> list_all (tree_named blob strings) cs"

lemma tree_writes:
  "node_at blob strings s i m t \<Longrightarrow> tree_named blob strings t \<Longrightarrow> 2 * node_count t \<le> fuel \<Longrightarrow> prop_count t \<le> 1024 \<Longrightarrow>
     depth + node_count t \<le> 2 ^ 28 \<Longrightarrow> length blob < 2 ^ 31 \<Longrightarrow>
     writes (DeviceTreeNode_print fuel blob s i depth) (node_text (string_of blob strings) depth t)"
  and "forest_at blob strings s i m ts \<Longrightarrow> list_all (tree_named blob strings) ts \<Longrightarrow> 2 * nodes_count ts < fuel \<Longrightarrow>
     props_count ts \<le> 1024 \<Longrightarrow> depth + nodes_count ts < 2 ^ 28 \<Longrightarrow> length blob < 2 ^ 31 \<Longrightarrow>
     linked (read_child_link x s) pos (roots i ts) \<Longrightarrow> read_child_link x s pos = Inr here \<Longrightarrow>
     counter + nodes_count ts < 2 ^ 28 \<Longrightarrow>
     writes (print_children_loop fuel blob s depth counter here) (children_text (string_of blob strings) depth counter ts)"
proof (induction blob strings s i m t and blob strings s i m ts arbitrary: fuel depth and fuel depth x pos here counter
    rule: node_at_forest_at.induct)
  case (1 blob strings s i m k name ps cs e)
  let ?n = "nodes_items s ! i"
  obtain fuel1 where fuel: "fuel = Suc fuel1" using "1.prems"(3) by (cases fuel) auto
  obtain o' where n: "i < length (nodes_items s)" "node_name ?n = Some o'" "cstring (drop o' blob) name"
      "linked (read_property_link i s) None [m..<m + length ps]" "list_all2 (prop_at blob strings s) [m..<m + length ps] ps"
      "linked (read_child_link i s) None (roots (i + 1) cs)" "forest_at blob strings s (i + 1) (m + length ps) cs"
    using "1.prems"(1) by (auto split: option.splits)
  have len: "length name < 2 ^ 31"
    using n(3) length_takeWhile_le [of "\<lambda>b. b \<noteq> 0" "drop o' blob"] "1.prems"(6) unfolding cstring_def by simp
  have depth: "depth < 2 ^ 28" "depth + 1 < 2 ^ 29" using "1.prems"(5) by simp_all
  have name: "string_arg blob (node_name ?n) = Inr (VStr (drop o' blob))" using n(2,3) by (simp add: string_arg_def cstring_def)
  have plain: "plain (bytes_of ''DeviceTreeNode {'' @ [10])" "plain (bytes_of ''name: '' @ [34])" "plain [34, 44, 10]"
      "plain (bytes_of ''},'' @ [10])" by (simp_all add: plain_simps)
  have w1: "writes [Print (line ''DeviceTreeNode {'') [], D (depth + 1)] ((bytes_of ''DeviceTreeNode {'' @ [10]) @ indent (depth + 1))"
    using says_plain [OF plain(1)] says_indent [OF depth(2)] by (intro writes_Cons writes_one) simp_all
  have w2: "writes [Print (line ''name: \"%s\",'') [VStr (drop o' blob)]] (bytes_of ''name: '' @ quoted name @ [44, 10])"
    using says_string [OF n(3) len plain(2,3), of "line ''name: \"%s\",''"]
    by (intro writes_one) (simp add: quoted_def bytes_of_def)
  have w3: "writes (print_properties_loop (NUM_DEVICE_TREE_PROPERTIES + 1) blob s depth 0 (node_properties ?n))
      (props_text (string_of blob strings) depth 0 ps)"
    by (rule props_write [OF n(4) _ n(5)])
      (use "1.prems" n(1) depth in \<open>simp_all add: read_property_link_def NUM_DEVICE_TREE_PROPERTIES_def\<close>)
  have w4: "writes (print_children_loop fuel1 blob s depth 0 (node_child ?n)) (children_text (string_of blob strings) depth 0 cs)"
    by (rule "1.IH" [OF n(7) _ _ _ _ _ n(6)])
      (use "1.prems" n(1) in \<open>simp_all add: fuel read_child_link_def\<close>)
  have w5: "writes [D depth, Print (line ''},'') []] (indent depth @ bytes_of ''},'' @ [10])"
    using says_plain [OF plain(4)] depth(1) by (intro writes_Cons writes_one says_indent) simp_all
  from writes_append [OF w1 writes_append [OF w2 writes_append [OF w3 writes_append [OF w4 w5]]]]
  show ?case by (simp add: fuel n(1) name)
next
  case (2 blob strings s i m)
  then obtain fuel1 where "fuel = Suc fuel1" by (cases fuel) auto
  then show ?case using 2 by simp
next
  case (3 blob strings s i m t ts)
  let ?n = "nodes_items s ! i"
  obtain fuel1 where fuel: "fuel = Suc fuel1" using "3.prems"(3) by (cases fuel) auto
  have here: "here = Some i" "linked (read_child_link x s) (Some i) (roots (i + node_count t) ts)" using "3.prems"(7,8) by simp_all
  have i: "i < length (nodes_items s)" using "3.prems"(1) by (cases t) simp
  have c: "0 < node_count t" by simp
  have sums: "nodes_count (t # ts) = node_count t + nodes_count ts" "props_count (t # ts) = prop_count t + props_count ts"
    by simp_all
  have plain: "plain (bytes_of ''child['')" "plain (bytes_of '']: '')" by (simp_all add: plain_simps)
  have w1: "writes [D (depth + 1), Print (cstr ''child[%d]: '') [VWord (of_nat counter)]]
      (indent (depth + 1) @ bytes_of ''child['' @ decimal counter @ bytes_of '']: '')"
    by (intro writes_Cons writes_one says_indent says_decimal [OF _ plain])
      (use "3.prems"(5,9) in \<open>simp_all add: cstr_def bytes_of_def\<close>)
  have w2: "writes (DeviceTreeNode_print fuel1 blob s i (depth + 1)) (node_text (string_of blob strings) (depth + 1) t)"
    by (rule "3.IH"(1)) (use "3.prems" c in \<open>simp_all add: fuel\<close>)
  have w3: "writes (print_children_loop fuel1 blob s depth (counter + 1) (node_next ?n))
      (children_text (string_of blob strings) depth (counter + 1) ts)"
  proof (rule "3.IH"(2) [OF _ _ _ _ _ _ here(2)])
    show "read_child_link x s (Some i) = Inr (node_next ?n)" using i by (simp add: read_child_link_def)
    have arith: "2 * (a + b) < Suc f \<Longrightarrow> d + (a + b) < N \<Longrightarrow> c + (a + b) < N \<Longrightarrow> 0 < a \<Longrightarrow>
        2 * b < f \<and> d + b < N \<and> c + 1 + b < N" for a b c d f N :: nat by auto
    from arith [OF "3.prems"(3,5,9) [unfolded fuel sums] c]
    show "2 * nodes_count ts < fuel1" "depth + nodes_count ts < 2 ^ 28" "counter + 1 + nodes_count ts < 2 ^ 28" by blast+
  qed (use "3.prems" in simp_all)
  from writes_append [OF w1 writes_append [OF w2 w3]] show ?case by (simp add: fuel here(1) i)
qed

text \<open>
  C28: what the parser reads, the printer shows: for a blob that is the flattened form of a tree with at most 255 nodes
  and properties and named properties, printing the parsed tree puts exactly the rendering of the tree on the console.
\<close>

theorem DeviceTree_print_parsed:
  assumes "encodes blob strings t cpu" and "dt_wf t" and "length blob < 2 ^ 31" and "node_count t \<le> 255" and "prop_count t \<le> 255"
    and named: "tree_named blob strings t" and q: "quiet_io h k"
  shows "\<exists>tree s k'. DeviceTree_parse blob empty_arrays = Inr (tree, s) \<and>
     run_actions h (DeviceTree_print blob s tree) k = Inr k' \<and> prints_only h k k' \<and>
     kernel_out h k' = kernel_out h k @ bytes_of ''DeviceTree {'' @ [10] @ indent 1 @ bytes_of ''boot_cpuid_phys: '' @
       radix 16 (unat cpu) @ [44, 10] @ indent 1 @ node_text (string_of blob strings) 1 t @ [125, 10]"
proof -
  have "length blob < 2 ^ 63" using assms(3) by simp
  then obtain s where s: "DeviceTree_parse blob empty_arrays = Inr (\<lparr>boot_cpuid_phys = cpu, root = 0\<rparr>, s)"
      "node_at blob strings s 0 0 t"
    using parse_encodes_arrays [OF assms(1,2) _ assms(4,5)] by blast
  have plain: "plain (bytes_of ''DeviceTree {'' @ [10])" "plain (bytes_of ''boot_cpuid_phys: '')" "plain [44, 10]" "plain [125, 10]"
    by (simp_all add: plain_simps)
  have one: "says (D 1) (chars (indent 1))" by (rule says_indent) simp
  have c: "(ucast (ucast cpu :: u64) :: u32) = cpu" by (rule bit_word_eqI) (auto simp: bit_simps dest: bit_imp_le_length)
  then have "directive_text (simple ConvHex) [VWord (ucast cpu)] = Some (chars (radix 16 (unat cpu)), [])"
    using text_bounds(2) [of cpu] by (simp add: pad_def)
  from says_conv [OF plain(2,3) _ this, of "line ''boot_cpuid_phys: %x,''"]
  have cpu: "says (Print (line ''boot_cpuid_phys: %x,'') [VWord (ucast cpu)])
      (chars (bytes_of ''boot_cpuid_phys: '' @ radix 16 (unat cpu) @ [44, 10]))" by (simp add: bytes_of_def)
  have w1: "writes [Print (line ''DeviceTree {'') [], D 1, Print (line ''boot_cpuid_phys: %x,'') [VWord (ucast cpu)], D 1]
      ((bytes_of ''DeviceTree {'' @ [10]) @ indent 1 @ (bytes_of ''boot_cpuid_phys: '' @ radix 16 (unat cpu) @ [44, 10]) @ indent 1)"
    using says_plain [OF plain(1)] by (intro writes_Cons writes_one one cpu) simp
  have w2: "writes (DeviceTreeNode_print (2 * NUM_DEVICE_TREE_NODES + 1) blob s 0 1) (node_text (string_of blob strings) 1 t)"
    by (rule tree_writes(1) [OF s(2) named]) (use assms(3-5) in \<open>simp_all add: NUM_DEVICE_TREE_NODES_def\<close>)
  have w3: "writes [Print (line ''}'') []] [125, 10]"
    using says_plain [OF plain(4)] by (intro writes_one) (simp add: bytes_of_def)
  from run_writes [OF q writes_append [OF w1 writes_append [OF w2 w3]]] s(1) show ?thesis
    by (auto simp: DeviceTree_print_def)
qed

lemma DeviceTree_print_parsed_witness:
  "\<exists>tree s k'. DeviceTree_parse sample_blob empty_arrays = Inr (tree, s) \<and>
     run_actions 0 (DeviceTree_print sample_blob s tree) (panic_start 0 (sample_kernel 1 [])) = Inr k'"
proof -
  have "0 \<in> set (drop 40 sample_blob)" "0 \<in> set (drop 42 sample_blob)" by (simp_all add: sample_blob_def)
  then have "tree_named sample_blob 40 sample_tree" by (simp add: sample_tree_def named_def)
  from DeviceTree_print_parsed [OF sample_blob_encodes(1) sample_tree_counts(1) _ _ _ this sample_panic] show ?thesis
    by (simp add: sample_blob_encodes(2) sample_tree_counts) blast
qed

end
