(* ===== verification/Example_Processes.thy ===== *)
theory Example_Processes
  imports Printers "HOL-Library.Stream"
begin

text \<open>
  The bodies of the example processes (kernel/example\_process.c; \<open>Boot\<close> has their creation). Most of them never
  end, so a body is the stream of what it does: calls of \<open>printf\<close>, spinning, yields, and loads and stores of
  its own page. A process goes on after a yield where it stopped (\<open>switch_preserves_registers\<close>); what the
  other processes do in between is not part of it. The debug flag that prints in each round is off.
\<close>

section \<open>What a process does\<close>

datatype event = Printf "byte list" "vararg list" | Nops nat | Yield

definition EXAMPLE_PROCESSES_SPIN :: nat where "EXAMPLE_PROCESSES_SPIN = 1024"

definition spin :: "nat \<Rightarrow> event list" where "spin loops = [Nops loops]"

definition loop_print :: "u64 \<Rightarrow> event list" where "loop_print v = []"

record SomeData =
  data_d :: u64
  data_w :: u32
  data_b :: "byte list"

definition SomeData_print :: "SomeData \<Rightarrow> event list" where
  "SomeData_print data =
     [Printf (line ''SomeData { d: 0x%llx, w: 0x%x, b: %s }'') [VWord (data_d data), VWord (ucast (data_w data)), VStr (data_b data)]]"

definition print_process_start :: "string \<Rightarrow> byte \<Rightarrow> event list" where
  "print_process_start name pid = [Printf (line ''%s %u start'') [VStr (cstr name), VWord (ucast pid)]]"

section \<open>The bodies\<close>

text \<open>A round of \<open>process_loop\<close>.\<close>

definition loop_round :: "u64 \<Rightarrow> event list" where
  "loop_round counter = loop_print counter @ spin EXAMPLE_PROCESSES_SPIN @ [Yield]"

text \<open>The stream that joins the rounds from a state on; no round is empty.\<close>

definition rounds :: "('s \<Rightarrow> event list) \<Rightarrow> ('s \<Rightarrow> 's) \<Rightarrow> 's \<Rightarrow> event stream" where
  "rounds act step s = flat (smap act (siterate step s))"

definition process_loop :: "u64 \<Rightarrow> event stream" where
  "process_loop start = rounds loop_round (\<lambda>counter. counter + 1) (start + 1)"

definition process_load_a0 :: "byte \<Rightarrow> u64 \<Rightarrow> event stream" where
  "process_load_a0 pid data =
     (print_process_start ''process_load_a0'' pid @ [Printf (line ''s1 data: 0x%llx'') [VWord data], Yield]) @- process_loop data"

definition process_load_from_stack :: "byte \<Rightarrow> addr \<Rightarrow> SomeData \<Rightarrow> event stream" where
  "process_load_from_stack pid data_address data =
     (print_process_start ''process_load_from_stack'' pid @ [Printf (bytes_of ''%p = '' @ [0]) [VWord data_address]] @
      SomeData_print data @ [Yield]) @- process_loop (data_d data)"

definition process_that_returns :: "byte \<Rightarrow> event list" where
  "process_that_returns pid =
     print_process_start ''process_that_returns'' pid @ [Yield] @
     concat (map (\<lambda>i. loop_print (of_nat i) @ spin EXAMPLE_PROCESSES_SPIN @ [Yield]) [0..<10])"

definition process_never_yields :: "byte \<Rightarrow> event stream" where
  "process_never_yields pid =
     print_process_start ''process_never_yields'' pid @- rounds (\<lambda>_. spin EXAMPLE_PROCESSES_SPIN) id ()"

text \<open>
  The rounds of \<open>process_mem_ops\<close> write the page and sum it up by turns; \<open>mem_page\<close> is what the page holds.
\<close>

record mem_ops =
  should_read :: bool
  mem_sum :: u64
  mem_page :: "byte list"

fun read_page :: "byte list \<Rightarrow> u64 \<Rightarrow> u64" where
  "read_page [] s = s"
| "read_page (b # bs) s = read_page bs (s + ucast b)"

definition write_page :: "byte list \<Rightarrow> byte list" where
  "write_page page = map of_nat [0..<length page]"

definition mem_ops_round :: "mem_ops \<Rightarrow> mem_ops" where
  "mem_ops_round s =
     (let s1 = (if should_read s then s\<lparr>mem_sum := read_page (mem_page s) (mem_sum s)\<rparr>
                else s\<lparr>mem_page := write_page (mem_page s)\<rparr>)
      in s1\<lparr>should_read := \<not> should_read s1\<rparr>)"

definition process_mem_ops :: "byte \<Rightarrow> addr \<Rightarrow> byte list \<Rightarrow> event stream" where
  "process_mem_ops pid page_address page =
     (print_process_start ''process_mem_ops'' pid @ [Printf (line ''alloc'd page vaddr: %p'') [VWord page_address], Yield]) @-
     rounds (\<lambda>s. loop_print (mem_sum s) @ [Yield]) mem_ops_round \<lparr>should_read = False, mem_sum = 0, mem_page = page\<rparr>"

section \<open>What they do in the long run\<close>

text \<open>A stream of rounds, one round at a time.\<close>

lemma rounds_unfold:
  assumes "\<And>x. act x \<noteq> []"
  shows "rounds act step s = act s @- rounds act step (step s)"
proof -
  have "shd (smap act (siterate step s)) \<noteq> []" using assms by simp
  from flat_unfold [OF this] show ?thesis by (simp add: rounds_def)
qed

lemma rounds_again:
  assumes "\<And>x. act x \<noteq> []"
  shows "\<exists>pre t. rounds act step s = pre @- rounds act step t \<and> n \<le> length pre"
proof (induction n)
  case 0
  show ?case by (intro exI [of _ "[]"]) auto
next
  case (Suc n)
  then obtain pre t where *: "rounds act step s = pre @- rounds act step t" "n \<le> length pre" by blast
  have "length pre < length (pre @ act t)" using assms by simp
  then have "Suc n \<le> length (pre @ act t)" using *(2) by linarith
  then show ?case
    using *(1) rounds_unfold [where act = act, OF assms, of step t]
    by (intro exI [of _ "pre @ act t"] exI [of _ "step t"]) simp
qed

lemma rounds_often:
  assumes "\<And>x. e \<in> set (act x)"
  shows "e \<in> sset (sdrop n (rounds act step s))"
proof -
  have ne: "act x \<noteq> []" for x using assms [of x] by auto
  obtain pre t where *: "rounds act step s = pre @- rounds act step t" "n \<le> length pre"
    using rounds_again [where act = act, OF ne] by blast
  have "sdrop n (rounds act step s) = drop n pre @- (act t @- rounds act step (step t))"
    using * rounds_unfold [where act = act, OF ne, of step t] by (simp add: sdrop_shift)
  then show ?thesis using assms by simp
qed

text \<open>
  The example processes that do not return give the others their turn again and again, whatever their data, except
  for the one that is there to be interrupted, which never does.
\<close>

lemma process_yields_forever:
  "Yield \<in> sset (sdrop n (process_load_a0 pid data))"
  "Yield \<in> sset (sdrop n (process_load_from_stack pid a d))"
  "Yield \<in> sset (sdrop n (process_mem_ops pid a page))"
proof -
  have *: "Yield \<in> sset (sdrop n (pre @- rounds act step s))" if "\<And>x. Yield \<in> set (act x)"
    for n :: nat and pre and act :: "'s \<Rightarrow> event list" and step s
    using rounds_often [where act = act, OF that] by (simp add: sdrop_shift)
  show "Yield \<in> sset (sdrop n (process_load_a0 pid data))" "Yield \<in> sset (sdrop n (process_load_from_stack pid a d))"
    "Yield \<in> sset (sdrop n (process_mem_ops pid a page))"
    unfolding process_load_a0_def process_load_from_stack_def process_mem_ops_def process_loop_def
    by (rule *, simp add: loop_round_def)+
qed

lemma never_yields: "Yield \<notin> sset (process_never_yields pid)"
proof -
  have "sset (rounds (\<lambda>_. spin EXAMPLE_PROCESSES_SPIN) id ()) \<subseteq> {Nops EXAMPLE_PROCESSES_SPIN}"
    unfolding rounds_def by (subst sset_flat) (auto simp: spin_def stream.set_map)
  then show ?thesis by (auto simp: process_never_yields_def print_process_start_def)
qed

text \<open>
  A page that was written holds each byte sixteen times, so two rounds of \<open>process_mem_ops\<close> add 522240 to its
  sum, modulo the 64 bits of the word.
\<close>

lemma read_page_eq: "read_page bs s = s + (\<Sum>b\<leftarrow>bs. ucast b)"
  by (induction bs arbitrary: s) simp_all

lemma sum_blocks: "(\<Sum>i\<leftarrow>[0..<256 * n]. ucast (of_nat i :: byte) :: u64) = of_nat n * 32640"
proof (induction n)
  case 0
  show ?case by simp
next
  case (Suc n)
  have "[0..<256 * Suc n] = [0..<256 * n] @ map (\<lambda>i. i + 256 * n) [0..<256]"
    using upt_add_eq_append [of 0 "256 * n" 256] by (simp add: map_add_upt add.commute)
  moreover have "(of_nat (i + 256 * n) :: byte) = of_nat i" for i
  proof -
    have "(256 :: byte) = 0" by simp
    then show ?thesis by (simp only: of_nat_add of_nat_mult of_nat_numeral) simp
  qed
  moreover have "(\<Sum>i\<leftarrow>[0..<256]. ucast (of_nat i :: byte) :: u64) = 32640"
  proof -
    have "(ucast (of_nat i :: byte) :: u64) = of_nat i" if "i < 256" for i
      using that by (simp add: unsigned_of_nat take_bit_nat_eq_self)
    then have "(\<Sum>i\<leftarrow>[0..<256]. ucast (of_nat i :: byte) :: u64) = (\<Sum>i\<leftarrow>[0..<256]. of_nat i)"
      by (intro arg_cong [where f = sum_list] map_cong) auto
    also have "\<dots> = of_nat (\<Sum>{0..<256})" by (simp only: interv_sum_list_conv_sum_set_nat of_nat_sum) (simp add: interv_sum_list_conv_sum_set_nat)
    also have "\<Sum>{0..<256 :: nat} = 32640" by (simp add: Sum_Ico_nat)
    finally show ?thesis by simp
  qed
  ultimately show ?case using Suc.IH by (simp add: comp_def algebra_simps)
qed

lemma mem_ops_two_rounds:
  assumes "\<not> should_read s" and "length (mem_page s) = 4096"
  shows "(mem_ops_round ^^ 2) s = s\<lparr>mem_sum := mem_sum s + 522240, mem_page := write_page (mem_page s)\<rparr>"
proof -
  have "read_page (write_page (mem_page s)) (mem_sum s) = mem_sum s + 522240"
    using sum_blocks [of 16] assms(2) by (simp add: read_page_eq write_page_def comp_def)
  then show ?thesis using assms(1) by (simp add: mem_ops_round_def numeral_2_eq_2 Let_def)
qed

lemma mem_ops_sum:
  assumes "length page = 4096"
  shows "mem_sum ((mem_ops_round ^^ (2 * n)) \<lparr>should_read = False, mem_sum = 0, mem_page = page\<rparr>) = of_nat n * 522240"
proof -
  let ?s = "\<lparr>should_read = False, mem_sum = 0, mem_page = page\<rparr>"
  have "\<not> should_read ((mem_ops_round ^^ (2 * n)) ?s) \<and> length (mem_page ((mem_ops_round ^^ (2 * n)) ?s)) = 4096 \<and>
      mem_sum ((mem_ops_round ^^ (2 * n)) ?s) = of_nat n * 522240"
  proof (induction n)
    case 0
    show ?case using assms by simp
  next
    case (Suc n)
    have "(mem_ops_round ^^ (2 * Suc n)) ?s = (mem_ops_round ^^ 2) ((mem_ops_round ^^ (2 * n)) ?s)"
      by (simp add: funpow_add [of 2 "2 * n", simplified])
    then show ?case
      using Suc.IH mem_ops_two_rounds [of "(mem_ops_round ^^ (2 * n)) ?s"] by (simp add: write_page_def algebra_simps)
  qed
  then show ?thesis by blast
qed

end
