(* ===== verification/Format_Check.thy ===== *)
theory Format_Check
  imports Printers_Spec
begin

text \<open>
  A checker for calls of \<open>printf\<close>: a parser of format strings into the directives of \<open>Stdio_Spec\<close>, and the match of
  a call's arguments with them. A call that passes cannot fail, whatever its values; the debugging output of the
  kernel is checked with it.
\<close>

section \<open>Reading a format string\<close>

definition take_char :: "char \<Rightarrow> string \<Rightarrow> bool \<times> string" where
  "take_char c s = (case s of [] \<Rightarrow> (False, []) | x # r \<Rightarrow> if x = c then (True, r) else (False, s))"

lemma take_char_sound: "take_char c s = (b, r) \<Longrightarrow> s = (if b then [c] else []) @ r"
  by (auto simp: take_char_def split: list.splits if_splits)

abbreviation digit_chars :: string where "digit_chars \<equiv> ''0123456789''"

fun decimal_of :: "string \<Rightarrow> nat \<Rightarrow> nat" where
  "decimal_of [] n = n"
| "decimal_of (c # s) n = decimal_of s (10 * n + (of_char c - 48))"

text \<open>A width that does not print back as itself is left for the letter, where it is refused.\<close>

definition read_width :: "string \<Rightarrow> field_width \<times> string" where
  "read_width s =
     (if fst (take_char CHR ''*'' s) then (StarWidth, snd (take_char CHR ''*'' s))
      else let ds = takeWhile (\<lambda>c. c \<in> set digit_chars) s; n = decimal_of ds 0 in
        if ds \<noteq> [] \<and> radix 10 n = bytes_of ds then (Width n, dropWhile (\<lambda>c. c \<in> set digit_chars) s) else (NoWidth, s))"

lemma bytes_of_append [simp]: "bytes_of (s @ t) = bytes_of s @ bytes_of t"
  by (simp add: bytes_of_def)

lemma bytes_of_Cons: "bytes_of (c # s) = of_char c # bytes_of s"
  by (simp add: bytes_of_def)

lemma bytes_of_Nil [simp]: "bytes_of [] = []"
  by (simp add: bytes_of_def)

lemma read_width_sound:
  assumes "read_width s = (w, r)"
  shows "bytes_of s = width_string w @ bytes_of r"
proof (cases "fst (take_char CHR ''*'' s)")
  case True
  then have "take_char CHR ''*'' s = (True, r)" "w = StarWidth"
    using assms by (auto simp: read_width_def prod_eq_iff)
  then show ?thesis using take_char_sound [of "CHR ''*''" s True r] by (simp add: bytes_of_Cons)
next
  case False
  have "bytes_of s = bytes_of (takeWhile (\<lambda>c. c \<in> set digit_chars) s) @ bytes_of (dropWhile (\<lambda>c. c \<in> set digit_chars) s)"
    by (metis bytes_of_append takeWhile_dropWhile_id)
  then show ?thesis using assms False by (auto simp: read_width_def Let_def split: if_splits)
qed

definition conv_of :: "char \<Rightarrow> conv option" where
  "conv_of c =
     (if c = CHR ''c'' then Some ConvChar else if c = CHR ''s'' then Some ConvStr else if c = CHR ''x'' then Some ConvHex
      else if c = CHR ''b'' then Some ConvBin else if c = CHR ''d'' then Some ConvSigned else if c = CHR ''i'' then Some ConvSignedI
      else if c = CHR ''u'' then Some ConvUnsigned else if c = CHR ''p'' then Some ConvPtr else None)"

lemma conv_of_sound: "conv_of c = Some k \<Longrightarrow> of_char c = conv_letter k"
  by (auto simp: conv_of_def split: if_splits)

text \<open>What follows a percent sign.\<close>

definition read_spec :: "string \<Rightarrow> (directive \<times> string) option" where
  "read_spec s =
     (case take_char CHR ''%'' s of (True, r) \<Rightarrow> Some (Percent, r) | (False, _) \<Rightarrow>
      (case take_char CHR ''-'' s of (left, u1) \<Rightarrow>
      (case take_char CHR 0x23 u1 of (alt, u2) \<Rightarrow>
      (case take_char CHR ''0'' u2 of (zero, u3) \<Rightarrow>
      (case read_width u3 of (w, u4) \<Rightarrow>
      (case dropWhile (\<lambda>c. c = CHR ''l'') u4 of [] \<Rightarrow> None
       | c # r \<Rightarrow> (case conv_of c of None \<Rightarrow> None
           | Some k \<Rightarrow> Some (Conv left alt zero w (length (takeWhile (\<lambda>c. c = CHR ''l'') u4)) k, r))))))))"

lemma bytes_of_longs: "bytes_of (takeWhile (\<lambda>c. c = CHR ''l'') s) = replicate (length (takeWhile (\<lambda>c. c = CHR ''l'') s)) 108"
  by (induction s) (simp_all add: bytes_of_Cons)

lemma read_spec_sound:
  assumes "read_spec s = Some (d, r)"
  shows "37 # bytes_of s = directive_string d @ bytes_of r"
proof -
  obtain left u1 where 1: "take_char CHR ''-'' s = (left, u1)" by fastforce
  obtain alt u2 where 2: "take_char CHR 0x23 u1 = (alt, u2)" by fastforce
  obtain zero u3 where 3: "take_char CHR ''0'' u2 = (zero, u3)" by fastforce
  obtain w u4 where 4: "read_width u3 = (w, u4)" by fastforce
  let ?l = "takeWhile (\<lambda>c. c = CHR ''l'') u4"
  have l: "bytes_of u4 = replicate (length ?l) 108 @ bytes_of (dropWhile (\<lambda>c. c = CHR ''l'') u4)"
    by (metis bytes_of_append bytes_of_longs takeWhile_dropWhile_id)
  show ?thesis
  proof (cases "fst (take_char CHR ''%'' s)")
    case True
    then have "take_char CHR ''%'' s = (True, r)" "d = Percent"
      using assms by (auto simp: read_spec_def split: prod.splits bool.splits)
    then show ?thesis using take_char_sound [of "CHR ''%''" s True r] by (simp add: bytes_of_Cons)
  next
    case False
    then obtain c k where c: "dropWhile (\<lambda>c. c = CHR ''l'') u4 = c # r" "conv_of c = Some k" "d = Conv left alt zero w (length ?l) k"
      using assms 1 2 3 4 by (auto simp: read_spec_def split: prod.splits bool.splits list.splits option.splits)
    show ?thesis
      using take_char_sound [OF 1] take_char_sound [OF 2] take_char_sound [OF 3] read_width_sound [OF 4] l c(1) conv_of_sound [OF c(2)]
      by (simp add: c(3) bytes_of_Cons split: if_splits)
  qed
qed

fun read_format :: "nat \<Rightarrow> string \<Rightarrow> directive list option" where
  "read_format n [] = Some []"
| "read_format 0 (c # s) = None"
| "read_format (Suc n) (c # s) =
     (if c = CHR ''%'' then
        (case read_spec s of None \<Rightarrow> None
         | Some (d, r) \<Rightarrow> if directive_ok d then map_option ((#) d) (read_format n r) else None)
      else if c = CHR 0x00 then None
      else map_option ((#) (Lit (of_char c))) (read_format n s))"

lemma of_char_byte: "(of_char c :: byte) = of_char d \<longleftrightarrow> c = d"
proof -
  have "unat (of_char x :: byte) = (of_char x :: nat)" for x
  proof -
    have "(of_char x :: byte) = of_nat (of_char x)" by (simp only: of_nat_of_char)
    moreover have "(of_char x :: nat) mod 256 = of_char x" by (rule of_char_mod_256)
    ultimately show ?thesis by (simp only: unsigned_of_nat take_bit_eq_mod) simp
  qed
  then show ?thesis by (metis of_char_eq_iff)
qed

lemma read_format_sound:
  "read_format n s = Some ds \<Longrightarrow> bytes_of s = format_string ds \<and> (\<forall>d\<in>set ds. directive_ok d)"
proof (induction n s arbitrary: ds rule: read_format.induct)
  case (3 n c s)
  show ?case
  proof (cases "c = CHR ''%''")
    case True
    then obtain d r ds' where d: "read_spec s = Some (d, r)" "directive_ok d" "read_format n r = Some ds'" "ds = d # ds'"
      using 3(3) by (auto split: option.splits prod.splits if_splits)
    have "bytes_of r = format_string ds' \<and> (\<forall>d\<in>set ds'. directive_ok d)" using 3(1) [OF True d(1) refl d(2,3)] .
    then show ?thesis using read_spec_sound [OF d(1)] d(2,4) True by (simp add: bytes_of_Cons format_string_def)
  next
    case False
    then obtain ds' where d: "c \<noteq> CHR 0x00" "read_format n s = Some ds'" "ds = Lit (of_char c) # ds'"
      using 3(3) by (auto split: if_splits)
    have "(of_char c :: byte) \<noteq> 0" "(of_char c :: byte) \<noteq> 37"
      using of_char_byte [of c "CHR 0x00"] of_char_byte [of c "CHR ''%''"] False d(1) by simp_all
    then show ?thesis using 3(2) [OF False d(1,2)] by (simp add: d(3) bytes_of_Cons format_string_def)
  qed
qed (simp_all add: format_string_def)

section \<open>The arguments\<close>

fun arg_fits :: "conv \<Rightarrow> vararg \<Rightarrow> bool" where
  "arg_fits ConvStr (VStr p) \<longleftrightarrow> 0 \<in> set p \<and> length p < 2 ^ 31"
| "arg_fits k (VWord w) \<longleftrightarrow> k \<noteq> ConvStr"
| "arg_fits k (VStr p) \<longleftrightarrow> False"

fun args_fit :: "directive list \<Rightarrow> vararg list \<Rightarrow> bool" where
  "args_fit [] args \<longleftrightarrow> True"
| "args_fit (Conv left alt zero w l k # ds) args \<longleftrightarrow>
     (case width_value w args of Some (n, v # rest) \<Rightarrow> arg_fits k v \<and> args_fit ds rest | _ \<Rightarrow> False)"
| "args_fit (d # ds) args \<longleftrightarrow> args_fit ds args"

definition typed_call :: "string \<Rightarrow> vararg list \<Rightarrow> bool" where
  "typed_call s args \<longleftrightarrow> (case read_format (length s) s of None \<Rightarrow> False | Some ds \<Rightarrow> args_fit ds args)"

text \<open>An argument that fits has a text.\<close>

lemma radix_short:
  assumes "2 \<le> b" and "n < 2 ^ 64"
  shows "length (radix b n) \<le> 64"
proof -
  have "(2 :: nat) ^ Suc 63 \<le> b ^ Suc 63" using assms(1) by (intro power_mono) auto
  then show ?thesis using assms length_radix [of b n 63] by simp
qed

lemma unat_short: "unat (w :: u64) < 2 ^ 64" "unat (v :: u32) < 2 ^ 64"
  using unsigned_less [of w, where 'a = nat] unsigned_less [of v, where 'a = nat] by simp_all

lemma signed_text_short: "length (signed_text (sint (w :: u64))) \<le> 65" "length (signed_text (sint (v :: u32))) \<le> 65"
proof -
  have "length (signed_text i) \<le> 65" if "- (2 ^ 63) \<le> i" "i < 2 ^ 63" for i
  proof -
    have "length (radix 10 (nat i)) \<le> 64" "length (radix 10 (nat (- i))) \<le> 64"
      using that by (auto intro!: radix_short)
    then show ?thesis by (simp add: signed_text_def)
  qed
  moreover have "- (2 ^ 63) \<le> sint w" "sint w < 2 ^ 63" using sint_greater_eq [of w] sint_less [of w] by simp_all
  moreover have "- (2 ^ 63) \<le> sint v" "sint v < 2 ^ 63" using sint_greater_eq [of v] sint_less [of v] by simp_all
  ultimately show "length (signed_text (sint w)) \<le> 65" "length (signed_text (sint v)) \<le> 65" by blast+
qed

lemma fitting_text:
  assumes "arg_fits k v"
  shows "\<exists>t. conv_text k alt wide (v # args) = Some (t, args) \<and> length t < 2 ^ 31"
proof (cases v)
  case (VStr p)
  then have "k = ConvStr" "0 \<in> set p" "length (takeWhile (\<lambda>b. b \<noteq> 0) p) < 2 ^ 31"
    using assms le_less_trans [OF length_takeWhile_le] by (cases k; auto)+
  then show ?thesis using VStr by simp
next
  case (VWord w)
  have r: "length (radix b (unat w)) \<le> 64" "length (radix b (unat (ucast w :: u32))) \<le> 64" if "2 \<le> b" for b
    using radix_short [OF that] unat_short by blast+
  note short = r [of 2] r [of 10] r [of 16] signed_text_short(1) [of w] signed_text_short(2) [of "ucast w"]
  have "k \<noteq> ConvStr" using assms VWord by (cases k) simp_all
  then show ?thesis
    using short VWord by (cases k) simp_all
qed

lemma args_fit_text: "args_fit ds args \<Longrightarrow> \<exists>t rest. format_text ds args = Some (t, rest)"
proof (induction ds args rule: args_fit.induct)
  case (2 left alt zero w l k ds args)
  then obtain n v rest where w: "width_value w args = Some (n, v # rest)" "arg_fits k v" "args_fit ds rest"
    by (auto split: option.splits prod.splits list.splits)
  obtain t where "conv_text k alt (l \<noteq> 0) (v # rest) = Some (t, rest)" "length t < 2 ^ 31" using fitting_text [OF w(2)] by blast
  moreover obtain u r where "format_text ds rest = Some (u, r)" using 2(1) w by blast
  ultimately show ?case using w(1) by simp
qed auto

lemma typed_call_says:
  assumes "typed_call s args"
  shows "\<exists>t. says (Print (bytes_of s @ [0]) args) t" "\<exists>t. says (Print (line s) args) t"
proof -
  obtain ds where ds: "read_format (length s) s = Some ds" "args_fit ds args"
    using assms by (auto simp: typed_call_def split: option.splits)
  note f = read_format_sound [OF ds(1)]
  obtain t rest where t: "format_text ds args = Some (t, rest)" using args_fit_text [OF ds(2)] by blast
  show "\<exists>t. says (Print (bytes_of s @ [0]) args) t" using saysI [OF _ _ t] f by auto
  have "format_text (ds @ [Lit 10]) args = Some (t @ [10], rest)"
    using t
  proof (induction ds arbitrary: args t)
    case (Cons d ds)
    then show ?case by (force split: option.splits prod.splits)
  qed simp
  then show "\<exists>t. says (Print (line s) args) t"
    using saysI [of _ "ds @ [Lit 10]"] f by (fastforce simp: format_string_def)
qed

text \<open>
  C33: A call of \<open>printf\<close> whose format string the checker can read and whose arguments match it, in number and in
  kind, cannot fail in the kernel, whatever the values are: no argument is missing or of the wrong kind, no array is
  overrun, and all the call does is print.
\<close>

theorem typed_printf_succeeds:
  assumes "quiet_io h k" and "typed_call s args"
  shows "\<exists>n k'. kprintf h (bytes_of s @ [0]) args k = Inr (n, k') \<and> prints_only h k k'"
proof -
  obtain t where "says (Print (bytes_of s @ [0]) args) t" using typed_call_says(1) [OF assms(2)] by blast
  then obtain k' where "run_actions h [Print (bytes_of s @ [0]) args] k = Inr k'" "prints_only h k k'"
    using run_says [OF assms(1), of "[Print (bytes_of s @ [0]) args]" "[t]"] by auto
  then show ?thesis by (auto simp: bindr_Inr_iff)
qed

text \<open>The facts that evaluate the checker.\<close>

lemmas check_simps = typed_call_def read_spec_def take_char_def read_width_def conv_of_def cstr_def bytes_of_def radix.simps
  digit_char_def

lemma typed_printf_succeeds_witness:
  "\<exists>n k'. kprintf 0 (bytes_of ''_%-*d_ %s %#lx'' @ [0]) [VWord 4, VWord 1, VStr (cstr ''a''), VWord 255] (panic_start 0 (sample_kernel 1 [])) = Inr (n, k')"
proof -
  have "typed_call ''_%-*d_ %s %#lx'' [VWord 4, VWord 1, VStr (cstr ''a''), VWord 255]"
    by (simp add: check_simps)
  then show ?thesis using typed_printf_succeeds [OF sample_panic] by blast
qed

end
