(* ===== verification/Debug.thy ===== *)
theory Debug
  imports Format_Check
begin

text \<open>
  The debugging output that flags of the build turn on (kernel/debug.c): calls of \<open>printf\<close> with all its
  conversions, of \<open>atoi\<close> and of the alignment functions, next to what is expected, and eight pages. The checker of
  \<open>Format_Check\<close> shows that the calls match their formats.
\<close>

section \<open>printf\<close>

text \<open>A call: whether its format ends with a newline, the format without it, and the arguments.\<close>

type_synonym call = "bool \<times> string \<times> vararg list"

fun call_action :: "call \<Rightarrow> action" where
  "call_action (True, s, args) = Print (line s) args"
| "call_action (False, s, args) = Print (bytes_of s @ [0]) args"

text \<open>An \<open>int\<close> or \<open>unsigned\<close> argument, as the calling convention extends it.\<close>

definition int_arg :: "u32 \<Rightarrow> vararg" where "int_arg v = VWord (scast v)"

definition hex_calls :: "call list" where
  "hex_calls =
    [(True, ''printf int hex 0          = 0x%x'', [int_arg 0]),
     (True, ''printf int hex 0xffffffff = 0x%x'', [int_arg 0xFFFFFFFF]),
     (True, ''printf int hex 0x01234567 = 0x%x'', [int_arg 0x1234567]),
     (True, ''printf int hex 0x89abcdef = 0x%x'', [int_arg 0x89ABCDEF]),
     (True, ''printf longlong hex 0                  = 0x%llx'', [VWord 0]),
     (True, ''printf longlong hex 0xffffffffffffffff = 0x%llx'', [VWord 0xFFFFFFFFFFFFFFFF]),
     (True, ''printf longlong hex 0x0123456789abcdef = 0x%llx'', [VWord 0x123456789ABCDEF]),
     (True, ''printf %%x but pass longlong: 0x0123456789abcdef = 0x%x'', [VWord 0x123456789ABCDEF]),
     (True, ''printf %%llx but pass int: 0x01234567 = 0x%llx'', [int_arg 0x1234567]),
     (True, ''printf alt# int hex 0          = %#x'', [int_arg 0]),
     (True, ''printf alt# int hex 0xffffffff = %#x'', [int_arg 0xFFFFFFFF]),
     (True, ''printf alt# int hex 0x01234567 = %#x'', [int_arg 0x1234567]),
     (True, ''printf alt# int hex 0x89abcdef = %#x'', [int_arg 0x89ABCDEF]),
     (True, ''printf alt# longlong hex 0                  = %#llx'', [VWord 0]),
     (True, ''printf alt# longlong hex 0xffffffffffffffff = %#llx'', [VWord 0xFFFFFFFFFFFFFFFF]),
     (True, ''printf alt# longlong hex 0x0123456789abcdef = %#llx'', [VWord 0x123456789ABCDEF])]"

definition loop_calls :: "call list" where
  "loop_calls =
     map (\<lambda>i. (False, ''%d '', [int_arg (of_int i)])) [-10..10] @ [(True, [], [])] @
     map (\<lambda>n. let i = of_int (-100000 + 10000 * n) in (True, ''0x%x = %d'', [int_arg i, int_arg i])) [0..20] @
     map (\<lambda>n. let v = push_bit (4 * n) 1 in (True, ''%p = signed=%p unsigned=%p'', [VWord v, VWord v, VWord v])) [0..<16]"

definition limit_calls :: "call list" where
  "limit_calls =
    [(True, ''zero int        0x%x = %d'', [int_arg 0, int_arg 0]),
     (True, ''max int         0x%x = %d'', [int_arg 0x7FFFFFFF, int_arg 0x7FFFFFFF]),
     (True, ''all 1s int      0x%x = %d'', [int_arg 0xFFFFFFFF, int_arg 0xFFFFFFFF]),
     (True, ''min int         0x%x = %d'', [int_arg 0x80000000, int_arg 0x80000000]),
     (True, ''zero uint       0x%x = %u'', [int_arg 0, int_arg 0]),
     (True, ''max uint        0x%x = %u'', [int_arg 0xFFFFFFFF, int_arg 0xFFFFFFFF]),
     (True, ''zero longlong   0x%lx = %lld'', [int_arg 0, int_arg 0]),
     (True, ''max longlong    0x%lx = %lld'', [VWord 0x7FFFFFFFFFFFFFFF, VWord 0x7FFFFFFFFFFFFFFF]),
     (True, ''all 1s longlong 0x%lx = %lld'', [VWord 0xFFFFFFFFFFFFFFFF, VWord 0xFFFFFFFFFFFFFFFF]),
     (True, ''min longlong    0x%lx = %lld'', [VWord 0x8000000000000000, VWord 0x8000000000000000]),
     (True, ''zero ulonglong  0x%lx = %llu'', [int_arg 0, int_arg 0]),
     (True, ''max ulonglong   0x%lx = %llu'', [VWord 0xFFFFFFFFFFFFFFFF, VWord 0xFFFFFFFFFFFFFFFF])]"

definition width_calls :: "call list" where
  "width_calls =
    [(True, ''min width 10 \"abc\":               _%10s_'', [VStr (cstr ''abc'')]),
     (True, ''min width 10 \"12345\":             _%10u_'', [int_arg 12345]),
     (True, ''min width 10 \"-12345\":            _%10d_'', [int_arg (- 12345)]),
     (True, ''min width 10 \"ffff\":              _%10x_'', [int_arg 0xFFFF]),
     (True, ''min width 10, zero-pad \"12345\":   _%010u_'', [int_arg 12345]),
     (True, ''min width 10, zero-pad \"ffff\":    _%010x_'', [int_arg 0xFFFF]),
     (True, ''min width  6, zero-pad \"ffff\":    _%06x_'', [int_arg 0xFFFF]),
     (True, ''many min width 4:    _%4d_ _%4x_ _%4s_'', [int_arg 1, int_arg 0xF, VStr (cstr ''a'')]),
     (True, ''many min width var4: _%*d_ _%*x_ _%*s_'', [int_arg 4, int_arg 1, int_arg 4, int_arg 0xF, int_arg 4, VStr (cstr ''a'')]),
     (True, ''pointer 0x0:                %p'', [int_arg 0]),
     (True, ''pointer 0xffff:             %p'', [int_arg 0xFFFF]),
     (True, ''pointer 0x0123456789abcdef: %p'', [VWord 0x123456789ABCDEF])]"

definition star_calls :: "u32 \<Rightarrow> call list" where
  "star_calls i =
    [(True, ''minwidth variable %d 123 NORM SPACE \"%*d\"'', [int_arg i, int_arg i, int_arg 123]),
     (True, ''minwidth variable %d 123 NORM ZERO  \"%0*d\"'', [int_arg i, int_arg i, int_arg 123]),
     (True, ''minwidth variable %d 123 LEFT SPACE \"%-*d\"'', [int_arg i, int_arg i, int_arg 123]),
     (True, ''minwidth variable %d 123 LEFT ZERO  \"%-0*d\"'', [int_arg i, int_arg i, int_arg 123])]"

definition binary_calls :: "call list" where
  "binary_calls =
    [(True, ''printf int (char) bool 0x00             = 0b%08b'', [int_arg 0]),
     (True, ''printf int (char) bool 0xff             = 0b%08b'', [int_arg 0xFF]),
     (True, ''printf int (char) bool 0xa5             = 0b%08b'', [int_arg 0xA5]),
     (True, ''printf int (char) bool 0x99             = 0b%08b'', [int_arg 0x99]),
     (True, ''printf int (char) bool 0x81             = 0b%08b'', [int_arg 0x81]),
     (True, ''printf int bool 0                       = 0b%032b'', [int_arg 0]),
     (True, ''printf int bool 0xffffffff              = 0b%032b'', [int_arg 0xFFFFFFFF]),
     (True, ''printf int bool 0x01234567              = 0b%032b'', [int_arg 0x1234567]),
     (True, ''printf int bool 0x89abcdef              = 0b%032b'', [int_arg 0x89ABCDEF]),
     (True, ''printf longlong bool 0                  = 0b%064llb'', [VWord 0]),
     (True, ''printf longlong bool 0xffffffffffffffff = 0b%064llb'', [VWord 0xFFFFFFFFFFFFFFFF]),
     (True, ''printf longlong bool 0x0123456789abcdef = 0b%064llb'', [VWord 0x123456789ABCDEF])]"

text \<open>The \<open>assert\<close> on the number of characters, and the array on the stack with what it holds at first.\<close>

definition debug_printf :: "byte list \<Rightarrow> nat \<Rightarrow> kernel \<Rightarrow> error + kernel" where
  "debug_printf stack h k =
     bindr (run_actions h (map call_action (hex_calls @ loop_calls @ limit_calls)) k) (\<lambda>k1.
     bindr (kprintf h (cstr ''0123456789'') [] k1) (\<lambda>(printed, k2).
     bindr (run_actions h (map call_action [(True, [], []), (True, ''^printed %d characters (not including newline)'', [int_arg printed])])
              k2) (\<lambda>k3.
     if printed \<noteq> 10 then Inl AssertFail
     else
       bindr (run_actions h (map call_action (width_calls @ concat (map (\<lambda>i. star_calls (of_nat i)) (0 # [3..<10])) @ binary_calls)) k3) (\<lambda>k4.
       bindr (sprintf stack ((bytes_of ''sprintf'd 123123'' @ [10]) @ [0]) []) (\<lambda>(n, buffer).
       run_actions h [Print (cstr ''%s'') [VStr buffer]] k4)))))"

section \<open>atoi and atoll\<close>

definition atox_call :: "string \<Rightarrow> string \<Rightarrow> string \<Rightarrow> vararg \<Rightarrow> vararg \<Rightarrow> call" where
  "atox_call func number_text printfmt result expected =
     (True, func @ [CHR 0x28, CHR 0x22] @ number_text @ [CHR 0x22, CHR 0x29] @ '' = '' @ printfmt @ '', should be '' @ printfmt @ '', %s'',
      [result, expected, VStr (cstr (if result = expected then ''OK'' else ''FAIL!''))])"

definition PRINT_ATOI :: "string \<Rightarrow> string \<Rightarrow> u32 \<Rightarrow> error + call" where
  "PRINT_ATOI number_text number expected =
     bindr (atoi (cstr number)) (\<lambda>v. Inr (atox_call ''atoi'' number_text ''%d'' (int_arg v) (int_arg expected)))"

definition PRINT_ATOLL :: "string \<Rightarrow> string \<Rightarrow> u64 \<Rightarrow> error + call" where
  "PRINT_ATOLL number_text number expected =
     bindr (atoll (cstr number)) (\<lambda>v. Inr (atox_call ''atoll'' number_text ''%lld'' (VWord v) (VWord expected)))"

definition debug_atoi :: "(error + call) list" where
  "debug_atoi =
    [PRINT_ATOI ''0'' ''0'' 0,
     PRINT_ATOI ''10'' ''10'' 10,
     PRINT_ATOI ''999999'' ''999999'' 999999,
     PRINT_ATOI ''0000999999'' ''0000999999'' 999999,
     PRINT_ATOI ''+10'' ''+10'' 10,
     PRINT_ATOI ''+999999'' ''+999999'' 999999,
     PRINT_ATOI ''-10'' ''-10'' (- 10),
     PRINT_ATOI ''-999999'' ''-999999'' (- 999999),
     PRINT_ATOI ''     10'' ''     10'' 10,
     PRINT_ATOI ''     10        '' ''     10        '' 10,
     PRINT_ATOI ''-999999asdfeswesgrarewf'' ''-999999asdfeswesgrarewf'' (- 999999),
     PRINT_ATOI ''0x123'' ''0x123'' 0,
     PRINT_ATOLL ''0'' ''0'' 0,
     PRINT_ATOLL ''-1000000000000000'' ''-1000000000000000'' (- 1000000000000000),
     PRINT_ATOLL ''1000000000000000'' ''1000000000000000'' 1000000000000000,
     PRINT_ATOI '''' '''' 0,
     PRINT_ATOI ''aaaaaaa'' ''aaaaaaa'' 0,
     PRINT_ATOI ''+aaaaa'' ''+aaaaa'' 0,
     PRINT_ATOI ''++++111'' ''++++111'' 0,
     PRINT_ATOI (''    '' @ [CHR 0x5C] @ ''t'' @ [CHR 0x5C] @ ''n'' @ [CHR 0x5C] @ ''t'' @ [CHR 0x5C] @ ''n'' @ ''       '') (''    '' @ [CHR 0x09] @ [CHR 0x0A] @ [CHR 0x09] @ [CHR 0x0A] @ ''       '') 0]"

section \<open>Alignment\<close>

definition PRINT_IS_ALIGNED :: "u64 \<Rightarrow> u64 \<Rightarrow> bool \<Rightarrow> call" where
  "PRINT_IS_ALIGNED val align expected =
     (True, ''is_aligned(%d, %d) = %s, should be %s, %s'',
      [VWord val, VWord align, VStr (cstr (if is_aligned val align then ''true'' else ''false'')),
       VStr (cstr (if expected then ''true'' else ''false'')), VStr (cstr (if is_aligned val align = expected then ''OK'' else ''FAIL''))])"

definition PRINT_ALIGN_UP :: "u64 \<Rightarrow> u64 \<Rightarrow> u64 \<Rightarrow> call" where
  "PRINT_ALIGN_UP val align expected =
     (True, ''align_up(%d, %d) = %d, should be %d, %s'',
      [VWord val, VWord align, VWord (align_up val align), VWord expected,
       VStr (cstr (if align_up val align = expected then ''OK'' else ''FAIL''))])"

definition debug_align :: "call list" where
  "debug_align =
     [PRINT_IS_ALIGNED 8 4 True, PRINT_IS_ALIGNED 9 4 False, PRINT_IS_ALIGNED 4096 16 True,
      PRINT_ALIGN_UP 5 8 8, PRINT_ALIGN_UP 8 8 8, PRINT_ALIGN_UP 13 8 16, PRINT_ALIGN_UP 13 2 14]"

section \<open>Pages\<close>

text \<open>The loop that is to write a page goes on while \<open>index > num_values\<close>.\<close>

partial_function (option) debug_write_loop :: "addr \<Rightarrow> byte \<Rightarrow> u64 \<Rightarrow> (addr \<Rightarrow> u64) \<Rightarrow> (addr \<Rightarrow> u64) option" where
  "debug_write_loop page value i m =
     (if i > PAGE_SIZE then debug_write_loop page value (i + 1) (store_byte (page + i) value m) else Some m)"

fun debug_page_alloc :: "Sections \<Rightarrow> nat \<Rightarrow> nat list \<Rightarrow> kernel \<Rightarrow> (error + kernel) option" where
  "debug_page_alloc ss h [] k = Some (Inr k)"
| "debug_page_alloc ss h (page_num # page_nums) k =
     (case Page_alloc ss (vm k) of
        Inl e \<Rightarrow> Some (Inl e)
      | Inr (page, vm1) \<Rightarrow>
          Option.bind (debug_write_loop page (of_nat page_num) 0 (mem vm1)) (\<lambda>m.
            case kprintf h (line ''page alloc at %p'') [VWord page] (k\<lparr>vm := vm1\<lparr>mem := m\<rparr>\<rparr>) of
              Inl e \<Rightarrow> Some (Inl e)
            | Inr (n, k1) \<Rightarrow> debug_page_alloc ss h page_nums k1))"

section \<open>The calls match their formats\<close>

definition typed :: "call \<Rightarrow> bool" where
  "typed c \<longleftrightarrow> (case c of (newline, s, args) \<Rightarrow> typed_call s args)"

lemma typed_says: "typed c \<Longrightarrow> \<exists>t. says (call_action c) t"
  using typed_call_says by (cases c rule: call_action.cases) (auto simp: typed_def)

lemma run_typed:
  assumes "quiet_io h k" and "list_all typed cs"
  shows "\<exists>k'. run_actions h (map call_action cs) k = Inr k' \<and> prints_only h k k'"
proof -
  have "\<exists>ts. list_all2 says (map call_action cs) ts"
    using assms(2)
  proof (induction cs)
    case (Cons c cs)
    then show ?case using typed_says [of c] by (auto simp: list_all2_Cons1)
  qed (auto intro: exI [of _ "[]"])
  then show ?thesis using run_says [OF assms(1)] by blast
qed

lemma typed_hex: "list_all typed hex_calls"
  by (simp add: hex_calls_def typed_def int_arg_def check_simps)

lemma typed_limit: "list_all typed limit_calls"
  by (simp add: limit_calls_def typed_def int_arg_def check_simps)

lemma typed_loop: "list_all typed loop_calls"
proof -
  have "typed (False, ''%d '', [int_arg x])" "typed (True, [], [])" "typed (True, ''0x%x = %d'', [int_arg x, int_arg x])"
    "typed (True, ''%p = signed=%p unsigned=%p'', [VWord v, VWord v, VWord v])" for x v
    by (simp_all add: typed_def int_arg_def check_simps)
  then show ?thesis by (auto simp: loop_calls_def list_all_iff Let_def)
qed

lemma typed_width: "list_all typed width_calls"
  by (simp add: width_calls_def typed_def int_arg_def check_simps)

lemma typed_star: "0 \<le> sint i \<Longrightarrow> list_all typed (star_calls i)"
  by (simp add: star_calls_def typed_def int_arg_def check_simps ucast_scast_u32)

lemma typed_binary: "list_all typed binary_calls"
  by (simp add: binary_calls_def typed_def int_arg_def check_simps)

lemma sprintf_literal:
  assumes "plain bs" and "length bs < length buffer" and "length bs < 2 ^ 31"
  shows "sprintf buffer (bs @ [0]) args = Inr (of_nat (length bs), bs @ 0 # drop (length bs + 1) buffer)"
  using sprintf_format [OF literal_format(2) [OF assms(1)] literal_format(3), of buffer "[]" args] assms
  by (simp add: literal_format(1) map_ucast_chars)

text \<open>All of the debugging output of \<open>printf\<close> runs through; in particular the assertion holds.\<close>

theorem debug_printf_runs:
  assumes "quiet_io h k" and "length stack = 64"
  shows "\<exists>k'. debug_printf stack h k = Inr k' \<and> prints_only h k k'"
proof -
  have plain: "plain (bytes_of ''0123456789'')" "plain (bytes_of ''sprintf'd 123123'' @ [10])" by (simp_all add: plain_def bytes_of_def)
  obtain k1 where k1: "run_actions h (map call_action (hex_calls @ loop_calls @ limit_calls)) k = Inr k1" "prints_only h k k1"
    using run_typed [OF assms(1), of "hex_calls @ loop_calls @ limit_calls"] typed_hex typed_loop typed_limit by auto
  obtain k2 where k2: "kprintf h (cstr ''0123456789'') [] k1 = Inr (10, k2)" "prints_only h k1 k2"
    using kprintf_literal [OF quiet_prints [OF k1(2)] plain(1)] by (auto simp: cstr_def)
  let ?middle = "[(True, [], []), (True, ''^printed %d characters (not including newline)'', [int_arg 10])]"
  have "list_all typed ?middle" by (simp add: typed_def int_arg_def check_simps)
  then obtain k3 where k3: "run_actions h (map call_action ?middle) k2 = Inr k3" "prints_only h k2 k3"
    using run_typed [OF quiet_prints [OF k2(2)]] by blast
  let ?rest = "width_calls @ concat (map (\<lambda>i. star_calls (of_nat i)) (0 # [3..<10])) @ binary_calls"
  have "list_all typed (star_calls (of_nat i))" if "i < 10" for i using that by (intro typed_star) (simp add: sint_of_small_nat)
  then have "list_all typed (concat (map (\<lambda>i. star_calls (of_nat i)) is))" if "\<forall>i\<in>set is. i < 10" for "is"
    using that by (auto simp: list_all_iff)
  from this [of "0 # [3..<10]"] have "list_all typed ?rest" using typed_width typed_binary by (simp del: upt_Suc)
  then obtain k4 where k4: "run_actions h (map call_action ?rest) k3 = Inr k4" "prints_only h k3 k4"
    using run_typed [OF quiet_prints [OF k3(2)]] by blast
  let ?text = "bytes_of ''sprintf'd 123123'' @ [10]"
  let ?buffer = "?text @ 0 # drop (length ?text + 1) stack"
  have len: "length ?text = 17" by simp
  have s: "sprintf stack (?text @ [0]) [] = Inr (of_nat (length ?text), ?buffer)"
    by (rule sprintf_literal [OF plain(2)]) (simp_all add: len assms(2))
  have "length ?buffer = 64" using assms(2) len by simp
  then have "typed_call ''%s'' [VStr ?buffer]" by (simp add: check_simps)
  from typed_call_says(1) [OF this] obtain t where t: "says (Print (cstr ''%s'') [VStr ?buffer]) t"
    unfolding cstr_def by blast
  have "list_all2 says [Print (cstr ''%s'') [VStr ?buffer]] [t]" using t by (simp only: list.rel_inject list.rel_intros)
  from run_says [OF quiet_prints [OF k4(2)] this]
  obtain k5 where k5: "run_actions h [Print (cstr ''%s'') [VStr ?buffer]] k4 = Inr k5" "prints_only h k4 k5" by blast
  have "debug_printf stack h k = Inr k5"
    unfolding debug_printf_def k1(1) bindr_simps k2(1) case_prod_conv k3(1)
    by (simp only: k4(1) s k5(1) bindr_simps case_prod_conv if_False simp_thms)
  moreover have "prints_only h k k5"
    using prints_only_trans [OF k1(2)] prints_only_trans [OF k2(2)] prints_only_trans [OF k3(2)] prints_only_trans [OF k4(2) k5(2)] by blast
  ultimately show ?thesis by blast
qed

text \<open>\<open>atoi\<close>, \<open>atoll\<close> and the alignment functions give what the output says they should: every line ends in OK.\<close>

definition reports_ok :: "call \<Rightarrow> bool" where
  "reports_ok c \<longleftrightarrow> (case c of (newline, s, args) \<Rightarrow> args \<noteq> [] \<and> last args = VStr (cstr ''OK''))"

lemma debug_align_ok: "list_all reports_ok debug_align"
  by (simp add: debug_align_def PRINT_IS_ALIGNED_def PRINT_ALIGN_UP_def reports_ok_def is_aligned_def align_up_def)

lemma debug_atoi_ok: "list_all (\<lambda>r. \<exists>c. r = Inr c \<and> reports_ok c) debug_atoi"
  by (simp add: debug_atoi_def PRINT_ATOI_def PRINT_ATOLL_def atoi_def atoll_def parse_def cstr_def bytes_of_def whitespace_def
      atox_call_def reports_ok_def) blast

text \<open>The pages are allocated one after the other; but nothing is ever written to them.\<close>

lemma debug_write_loop_nothing: "debug_write_loop page v 0 m = Some m"
  by (subst debug_write_loop.simps) (simp add: PAGE_SIZE_def)

end
