(* ===== verification/Kernel_Tests.thy ===== *)
theory Kernel_Tests
  imports Boot_Output Device_Tree_Search
begin

text \<open>
  The test build of the kernel: the assertions of \<open>kernel/test.h\<close>, the runner of \<open>kernel/test.c\<close> that takes the
  test to run from the boot arguments in the device tree, the two tests of that file and the tests of
  \<open>kernel/libc_tests/stringprint.test.c\<close>. The table of tests, which a script generates, is an argument.
\<close>

section \<open>Assertions (kernel/test.h)\<close>

text \<open>A test goes on, or has left through \<open>exit\<close>, which does not come back; the state is then the one it waits in.\<close>

datatype run = Goes kernel | Exited kernel

definition and_then :: "error + run \<Rightarrow> (kernel \<Rightarrow> error + run) \<Rightarrow> error + run" where
  "and_then m f = bindr m (\<lambda>r. case r of Goes k \<Rightarrow> f k | Exited k \<Rightarrow> Inr (Exited k))"

lemma and_then_simps [simp]:
  "and_then (Inl e) f = Inl e" "and_then (Inr (Goes k)) f = f k" "and_then (Inr (Exited k)) f = Inr (Exited k)"
  by (simp_all add: and_then_def)

definition test_exit :: "Board \<Rightarrow> nat \<Rightarrow> u32 \<Rightarrow> kernel \<Rightarrow> error + run" where
  "test_exit board h code k = bindr (exit board code h k) (\<lambda>k1. Inr (Exited k1))"

text \<open>Where an assertion stands: \<open>__FILE__\<close> with its NUL, \<open>__LINE__\<close> and \<open>__func__\<close>; and the texts of its arguments.\<close>

type_synonym site = "byte list \<times> nat \<times> string"

definition test_printf :: "nat \<Rightarrow> byte list \<Rightarrow> vararg list \<Rightarrow> kernel \<Rightarrow> error + run" where
  "test_printf h fmt args k = bindr (kprintf h fmt args k) (\<lambda>(n, k1). Inr (Goes k1))"

definition TEST_ASSERT :: "Board \<Rightarrow> nat \<Rightarrow> site \<Rightarrow> string \<Rightarrow> bool \<Rightarrow> kernel \<Rightarrow> error + run" where
  "TEST_ASSERT board h site condition_text condition k =
     (case site of (file, line_number, func) \<Rightarrow>
        if \<not> condition then
          and_then (test_printf h (bytes_of ''test assertion failed: %s:%u (%s): TEST_ASSERT(%s)'' @ [10, 0])
                      [VStr file, VWord (of_nat line_number), VStr (cstr func), VStr (cstr condition_text)] k)
            (test_exit board h 1)
        else Inr (Goes k))"

text \<open>All uses have the format \<open>%d\<close>.\<close>

definition TEST_ASSERT_EQ :: "Board \<Rightarrow> nat \<Rightarrow> site \<Rightarrow> string \<Rightarrow> u64 \<Rightarrow> string \<Rightarrow> u64 \<Rightarrow> kernel \<Rightarrow> error + run" where
  "TEST_ASSERT_EQ board h site first_text first second_text second k =
     (case site of (file, line_number, func) \<Rightarrow>
        if first \<noteq> second then
          and_then (test_printf h (bytes_of ''test assertion failed: %s:%u (%s): TEST_ASSERT_EQ(%s=%d, %s=%d)'' @ [10, 0])
                      [VStr file, VWord (of_nat line_number), VStr (cstr func), VStr (cstr first_text), VWord first,
                       VStr (cstr second_text), VWord second] k)
            (test_exit board h 1)
        else Inr (Goes k))"

section \<open>The tests of kernel/test.c\<close>

text \<open>\<open>file\<close> is what the compiler puts for \<open>__FILE__\<close>.\<close>

definition example_sanity_test :: "Board \<Rightarrow> nat \<Rightarrow> byte list \<Rightarrow> kernel \<Rightarrow> error + run" where
  "example_sanity_test board h file k =
     and_then (test_printf h (bytes_of ''sanity check'' @ [10, 0]) [] k)
       (TEST_ASSERT board h (file, 83, ''_test__example_sanity_test'') ''1 == 1'' ((1 :: int) = 1))"

definition expect_fail :: "Board \<Rightarrow> nat \<Rightarrow> byte list \<Rightarrow> kernel \<Rightarrow> error + run" where
  "expect_fail board h file k =
     and_then (test_printf h (bytes_of ''should fail'' @ [10, 0]) [] k)
       (TEST_ASSERT board h (file, 88, ''_test__expect_fail_should_fail'') ''true == false'' (True = False))"

section \<open>The tests of the string functions (libc_tests/stringprint.test.c)\<close>

definition quoted :: "string \<Rightarrow> string" where
  "quoted s = [CHR 0x22] @ s @ [CHR 0x22]"

text \<open>\<open>stack\<close> is what the array holds before anything is stored to it.\<close>

definition SPRINTF_TEST ::
    "Board \<Rightarrow> nat \<Rightarrow> byte list \<Rightarrow> site \<Rightarrow> u64 \<Rightarrow> string \<Rightarrow> string \<Rightarrow> string \<Rightarrow> vararg list \<Rightarrow> kernel \<Rightarrow> error + run" where
  "SPRINTF_TEST board h stack site len len_text expected format_str args k =
     bindr (sprintf stack (cstr format_str) args) (\<lambda>(printed, buffer).
     and_then (TEST_ASSERT_EQ board h site ''printed'' (scast printed) (''('' @ len_text @ '')'') len k) (\<lambda>k1.
     bindr (strlen (Some buffer)) (\<lambda>n.
     and_then (TEST_ASSERT_EQ board h site ''strlen(buffer)'' (of_nat n) (''('' @ len_text @ '')'') len k1) (\<lambda>k2.
     bindr (strnlen_s (Some buffer) 64) (\<lambda>n.
     and_then (TEST_ASSERT_EQ board h site ''strnlen_s(buffer, 64)'' (of_nat n) (''('' @ len_text @ '')'') len k2) (\<lambda>k3.
     bindr (strcmp (Some buffer) (Some (cstr expected))) (\<lambda>r.
     TEST_ASSERT_EQ board h site ''0'' 0 (''strcmp(buffer, ('' @ quoted expected @ ''))'') (of_int r) k3)))))))"

definition sprintf_simple :: "Board \<Rightarrow> nat \<Rightarrow> byte list \<Rightarrow> byte list \<Rightarrow> kernel \<Rightarrow> error + run" where
  "sprintf_simple board h file stack =
     SPRINTF_TEST board h stack (file, 16, ''_test__sprintf_simple'') 7 ''7'' ''hello 1'' ''hello 1'' [VWord 0]"

definition sprintf_decimal_positive :: "Board \<Rightarrow> nat \<Rightarrow> byte list \<Rightarrow> byte list \<Rightarrow> kernel \<Rightarrow> error + run" where
  "sprintf_decimal_positive board h file stack =
     SPRINTF_TEST board h stack (file, 19, ''_test__sprintf_decimal_positive'') 9 ''9'' ''hello 123'' ''hello %d'' [VWord 123]"

definition sprintf_decimal_negative :: "Board \<Rightarrow> nat \<Rightarrow> byte list \<Rightarrow> byte list \<Rightarrow> kernel \<Rightarrow> error + run" where
  "sprintf_decimal_negative board h file stack =
     SPRINTF_TEST board h stack (file, 22, ''_test__sprintf_decimal_negative'') 10 ''10'' ''hello -123'' ''hello %d''
       [VWord (- 123)]"

definition strlen_simple :: "Board \<Rightarrow> nat \<Rightarrow> byte list \<Rightarrow> kernel \<Rightarrow> error + run" where
  "strlen_simple board h file k =
     (let str = Some (cstr ''hello world''); func = ''_test__strlen_simple'' in
      bindr (strlen str) (\<lambda>n.
      and_then (TEST_ASSERT board h (file, 27, func) ''strlen(string) == 11'' (n = 11) k) (\<lambda>k1.
      bindr (strnlen_s str 16) (\<lambda>n.
      TEST_ASSERT board h (file, 28, func) ''strnlen_s(string, 16) == 11'' (n = 11) k1))))"

definition strnlen_s_simple :: "Board \<Rightarrow> nat \<Rightarrow> byte list \<Rightarrow> kernel \<Rightarrow> error + run" where
  "strnlen_s_simple board h file k =
     (let text = ''hello one two three longer string'' in
      bindr (strnlen_s (Some (cstr text)) 5) (\<lambda>n.
      TEST_ASSERT board h (file, 32, ''_test__strnlen_s_simple'')
        (''strnlen_s('' @ quoted text @ '', 5) == 5'') (n = 5) k))"

definition snprintf_less :: "Board \<Rightarrow> nat \<Rightarrow> byte list \<Rightarrow> byte list \<Rightarrow> kernel \<Rightarrow> error + run" where
  "snprintf_less board h file stack k =
     bindr (memset stack 255 32) (\<lambda>buffer.
     bindr (snprintf buffer 32 (cstr ''hello'') []) (\<lambda>(printed, buffer1).
     TEST_ASSERT board h (file, 39, ''_test__snprintf_less'') ''printed == 5'' (printed = 5) k))"

text \<open>
  What the next three tests have in common: after \<open>snprintf\<close> into an array of \<open>bufsz\<close> bytes, the assertions
  stand on three lines from \<open>line_number\<close> on.
\<close>

definition truncation_test ::
    "Board \<Rightarrow> nat \<Rightarrow> byte list \<Rightarrow> nat \<Rightarrow> string \<Rightarrow> byte list \<Rightarrow> nat \<Rightarrow> string \<Rightarrow> string \<Rightarrow> u64 \<Rightarrow> string \<Rightarrow>
     string \<Rightarrow> kernel \<Rightarrow> error + run" where
  "truncation_test board h file line_number func stack bufsz last_text format_str len len_text expected k =
     bindr (memset stack 255 bufsz) (\<lambda>buffer.
     bindr (snprintf buffer (of_nat bufsz) (cstr format_str) []) (\<lambda>(printed, buffer1).
     and_then (TEST_ASSERT_EQ board h (file, line_number, func) ''printed'' (scast printed) len_text len k) (\<lambda>k1.
     bindr (strcmp (Some buffer1) (Some (cstr expected))) (\<lambda>r.
     and_then (TEST_ASSERT_EQ board h (file, line_number + 1, func) ''0'' 0 (''strcmp(buffer, '' @ quoted expected @ '')'')
                 (of_int r) k1) (\<lambda>k2.
     bindr (deref buffer1 (bufsz - 1)) (\<lambda>b.
     TEST_ASSERT_EQ board h (file, line_number + 2, func) (''buffer['' @ last_text @ '']'') (ucast b) ''0'' 0 k2))))))"

definition snprintf_same :: "Board \<Rightarrow> nat \<Rightarrow> byte list \<Rightarrow> byte list \<Rightarrow> kernel \<Rightarrow> error + run" where
  "snprintf_same board h file stack =
     truncation_test board h file 46 ''_test__snprintf_same'' stack 16 ''15'' ''1234567890abcde'' 15 ''15'' ''1234567890abcde''"

definition snprintf_one_more :: "Board \<Rightarrow> nat \<Rightarrow> byte list \<Rightarrow> byte list \<Rightarrow> kernel \<Rightarrow> error + run" where
  "snprintf_one_more board h file stack =
     truncation_test board h file 55 ''_test__snprintf_one_more'' stack 16 ''15'' ''1234567890abcdef'' 16 ''16'' ''1234567890abcde''"

definition snprintf_more :: "Board \<Rightarrow> nat \<Rightarrow> byte list \<Rightarrow> byte list \<Rightarrow> kernel \<Rightarrow> error + run" where
  "snprintf_more board h file stack =
     truncation_test board h file 64 ''_test__snprintf_more'' stack 8 ''7'' ''1234567890abcde'' 15 ''15'' ''1234567''"

fun all_untouched :: "Board \<Rightarrow> nat \<Rightarrow> site \<Rightarrow> byte list \<Rightarrow> nat \<Rightarrow> nat \<Rightarrow> kernel \<Rightarrow> error + run" where
  "all_untouched board h site buffer i 0 k = Inr (Goes k)"
| "all_untouched board h site buffer i (Suc n) k =
     bindr (deref buffer i) (\<lambda>b.
     and_then (TEST_ASSERT_EQ board h site ''buffer[i]'' (ucast b) ''255'' 255 k) (all_untouched board h site buffer (i + 1) n))"

definition snprintf_zero :: "Board \<Rightarrow> nat \<Rightarrow> byte list \<Rightarrow> byte list \<Rightarrow> kernel \<Rightarrow> error + run" where
  "snprintf_zero board h file stack k =
     bindr (memset stack 255 16) (\<lambda>buffer.
     bindr (snprintf buffer 0 (cstr ''1234567890abcde'') []) (\<lambda>(printed, buffer1).
     and_then (TEST_ASSERT_EQ board h (file, 73, ''_test__snprintf_zero'') ''printed'' (scast printed) ''15'' 15 k)
       (all_untouched board h (file, 75, ''_test__snprintf_zero'') buffer1 0 16)))"

section \<open>The runner (kernel/test.c)\<close>

text \<open>A test of the generated table: its name, with a NUL, and its function.\<close>

type_synonym Test = "byte list \<times> (kernel \<Rightarrow> error + run)"

fun get_test :: "byte list option \<Rightarrow> Test list \<Rightarrow> error + Test" where
  "get_test name [] = Inl (Panic ''no such test'')"
| "get_test name (test # tests) =
     bindr (strcmp name (Some (fst test))) (\<lambda>r. if 0 = r then Inr test else get_test name tests)"

fun print_tests :: "nat \<Rightarrow> Test list \<Rightarrow> kernel \<Rightarrow> error + run" where
  "print_tests h [] k = Inr (Goes k)"
| "print_tests h (test # tests) k = and_then (test_printf h (bytes_of ''%s'' @ [10, 0]) [VStr (fst test)] k) (print_tests h tests)"

text \<open>What the runner does with the string of the boot arguments.\<close>

definition run_boot_args :: "Board \<Rightarrow> nat \<Rightarrow> Test list \<Rightarrow> byte list option \<Rightarrow> kernel \<Rightarrow> error + run" where
  "run_boot_args board h tests boot_args_str k =
     bindr (strcmp boot_args_str (Some (cstr ''--tests''))) (\<lambda>r.
     and_then (if 0 = r then and_then (print_tests h tests k) (test_exit board h 0) else Inr (Goes k)) (\<lambda>k1.
     bindr (strncmp boot_args_str (Some (cstr ''--test'')) 6) (\<lambda>r.
     if 0 = r then
       bindr (get_test (map_option (drop 6) boot_args_str) tests) (\<lambda>test.
       and_then (snd test k1) (test_exit board h 0))
     else Inl (Panic ''test binary run with argument that wasn't --tests or --test''))))"

text \<open>\<open>None\<close> is a search that does not come back.\<close>

definition run_test_from_bootargs ::
    "Board \<Rightarrow> nat \<Rightarrow> Test list \<Rightarrow> byte list \<Rightarrow> tree_arrays \<Rightarrow> DeviceTree \<Rightarrow> kernel \<Rightarrow> (error + run) option" where
  "run_test_from_bootargs board h tests blob s device_tree k =
     Option.bind (DeviceTreeNode_find_child blob s (root device_tree) (DEVICE_TREE_PATH_FROM_ROOT [bytes_of ''chosen''])) (\<lambda>found.
     Option.bind (case found of Inl e \<Rightarrow> Some (Inl e) | Inr chosen \<Rightarrow> DeviceTreeNode_find_property blob s chosen (cstr ''bootargs''))
       (\<lambda>found. Some (bindr found (\<lambda>boot_args.
        case boot_args of None \<Rightarrow> Inl (Panic ''unable to find boot args'')
        | Some j \<Rightarrow> bindr (deref (props_items s) j) (\<lambda>p. run_boot_args board h tests (string_at blob (prop_value p)) k)))))"

section \<open>The tests pass\<close>

lemma assertion_holds:
  "TEST_ASSERT board h site t True k = Inr (Goes k)" "TEST_ASSERT_EQ board h site t v t' v k = Inr (Goes k)"
  by (simp_all add: TEST_ASSERT_def TEST_ASSERT_EQ_def split: prod.split)

lemma cstring_bytes: "plain (bytes_of s) \<Longrightarrow> cstring (bytes_of s @ 0 # rest) (bytes_of s)"
  by (rule cstring_append_NUL) (auto simp: plain_def list_all_iff)

lemma strcmp_same:
  assumes "plain (bytes_of s)"
  shows "strcmp (Some (bytes_of s @ 0 # rest)) (Some (cstr s)) = Inr 0"
  using strcmp_loop_spec [OF cstring_bytes cstring_bytes, OF assms assms, of rest "[]"] strcmp_spec_zero [of "bytes_of s" "bytes_of s"]
  by (simp add: strcmp_def cstr_def)

lemma SPRINTF_TEST_passes:
  assumes "format_string ds = bytes_of format_str" and "\<forall>d\<in>set ds. directive_ok d"
    and "format_text ds args = Some (chars (bytes_of expected), args')"
    and "length stack = 64" and "length expected < 64" and "len = of_nat (length expected)" and "plain (bytes_of expected)"
  shows "SPRINTF_TEST board h stack site len len_text expected format_str args k = Inr (Goes k)"
proof -
  let ?buffer = "bytes_of expected @ 0 # drop (length expected + 1) stack"
  have s: "sprintf stack (cstr format_str) args = Inr (of_nat (length expected), ?buffer)"
    using sprintf_format [OF assms(2,3), of stack "[]"] assms(1,4,5) by (simp add: cstr_def map_ucast_chars bytes_of_def)
  have b: "cstring ?buffer (bytes_of expected)" using cstring_bytes [OF assms(7)] .
  from b have t: "0 \<in> set ?buffer" "takeWhile (\<lambda>b. b \<noteq> 0) ?buffer = bytes_of expected" by (simp_all add: cstring_def)
  have "(scast (of_nat (length expected) :: u32) :: u64) = of_nat (length expected)"
    using assms(5) by (intro scast_small) simp
  moreover have "strlen (Some ?buffer) = Inr (length expected)" "strnlen_s (Some ?buffer) 64 = Inr (length expected)"
    using t assms(5) by (simp_all add: strlen_def strnlen_s_def strlen_loop_eq strnlen_s_loop_eq)
  ultimately show ?thesis
    using strcmp_same [OF assms(7)] assms(6) by (simp add: SPRINTF_TEST_def s assertion_holds)
qed

lemma truncation_test_passes:
  assumes "format_string ds = bytes_of format_str" and "\<forall>d\<in>set ds. directive_ok d"
    and "format_text ds [] = Some (chars (bytes_of (expected @ excess)), args')"
    and "length stack = bufsz" and "length expected + 1 = bufsz" and "bufsz < 1000" and "length excess < 1000"
    and "len = of_nat (length (expected @ excess))" and "plain (bytes_of expected)"
  shows "truncation_test board h file l func stack bufsz last_text format_str len len_text expected k = Inr (Goes k)"
proof -
  let ?text = "chars (bytes_of (expected @ excess))" and ?buffer = "bytes_of expected @ [0]"
  have sz: "unat (of_nat bufsz :: u64) = bufsz" using assms(6) by (simp add: unat_of_nat take_bit_nat_eq_self)
  have len: "length ?text = length expected + length excess" by (simp add: bytes_of_def)
  have "min (length ?text) (bufsz - 1) = length expected" using assms(5) len by simp
  moreover have "map ucast (take (length expected) ?text) = bytes_of expected"
    by (simp only: take_map [symmetric] map_ucast_chars) (simp add: bytes_of_def)
  moreover have "(of_nat bufsz :: u64) \<noteq> 0" using sz assms(5) by (metis Suc_eq_plus1 nat.distinct(1) unsigned_0)
  ultimately have s: "snprintf (replicate bufsz 255) (of_nat bufsz) (cstr format_str) [] =
      Inr (of_nat (length ?text), ?buffer)"
    using snprintf_format [OF assms(2,3), of "of_nat bufsz" "replicate bufsz 255" "[]"] assms(1,4-7)
    by (simp add: cstr_def sz Let_def bytes_of_def)
  have "(scast (of_nat (length ?text) :: u32) :: u64) = of_nat (length ?text)"
    unfolding len using assms(5-7) by (intro scast_small) simp
  moreover have "strcmp (Some ?buffer) (Some (cstr expected)) = Inr 0" using strcmp_same [OF assms(9), of "[]"] .
  moreover have "deref ?buffer (bufsz - 1) = Inr 0" using assms(5) by (auto simp: deref_def nth_append)
  ultimately show ?thesis
    using assms(4,8) len by (simp add: truncation_test_def memset_eq s assertion_holds)
qed

lemma sprintf_tests_pass:
  assumes "length stack = 64"
  shows "sprintf_simple board h file stack k = Inr (Goes k)" "sprintf_decimal_positive board h file stack k = Inr (Goes k)"
    "sprintf_decimal_negative board h file stack k = Inr (Goes k)"
proof -
  have "plain (bytes_of ''hello 1'')" by (simp add: plain_def bytes_of_def)
  then show "sprintf_simple board h file stack k = Inr (Goes k)"
    unfolding sprintf_simple_def using assms
    by (intro SPRINTF_TEST_passes [OF literal_format]) simp_all
  let ?ds = "map Lit (bytes_of ''hello '') @ [Conv False False False NoWidth 0 ConvSigned]"
  have f: "format_string ?ds = bytes_of ''hello %d''" "\<forall>d\<in>set ?ds. directive_ok d"
    by (simp_all add: format_string_def bytes_of_def)
  have t: "format_text ?ds [VWord 123] = Some (chars (bytes_of ''hello 123''), [])"
    "format_text ?ds [VWord (- 123)] = Some (chars (bytes_of ''hello -123''), [])"
    by (simp_all add: bytes_of_def pad_def signed_text_def radix.simps digit_char_def)
  have "plain (bytes_of ''hello 123'')" "plain (bytes_of ''hello -123'')" by (simp_all add: plain_def bytes_of_def)
  then show "sprintf_decimal_positive board h file stack k = Inr (Goes k)"
    "sprintf_decimal_negative board h file stack k = Inr (Goes k)"
    unfolding sprintf_decimal_positive_def sprintf_decimal_negative_def using assms
    by (auto intro!: SPRINTF_TEST_passes [OF f t(1)] SPRINTF_TEST_passes [OF f t(2)])
qed

lemma length_tests_pass:
  "strlen_simple board h file k = Inr (Goes k)" "strnlen_s_simple board h file k = Inr (Goes k)"
  by (simp_all add: strlen_simple_def strnlen_s_simple_def Let_def strlen_def strnlen_s_def cstr_def bytes_of_def assertion_holds)

lemma truncation_tests_pass:
  assumes "length stack16 = 16" and "length stack8 = 8"
  shows "snprintf_same board h file stack16 k = Inr (Goes k)" "snprintf_one_more board h file stack16 k = Inr (Goes k)"
    "snprintf_more board h file stack8 k = Inr (Goes k)"
proof -
  have p: "plain (bytes_of ''1234567890abcde'')" "plain (bytes_of ''1234567890abcdef'')" "plain (bytes_of ''1234567'')"
    by (simp_all add: plain_def bytes_of_def)
  show "snprintf_same board h file stack16 k = Inr (Goes k)"
    unfolding snprintf_same_def
    by (rule truncation_test_passes [where ds = "map Lit (bytes_of ''1234567890abcde'')" and excess = "[]"])
      (use assms p in \<open>simp_all add: literal_format del: set_map\<close>)
  show "snprintf_one_more board h file stack16 k = Inr (Goes k)"
    unfolding snprintf_one_more_def
    by (rule truncation_test_passes [where ds = "map Lit (bytes_of ''1234567890abcdef'')" and excess = "''f''"])
      (use assms p in \<open>simp_all add: literal_format del: set_map\<close>)
  show "snprintf_more board h file stack8 k = Inr (Goes k)"
    unfolding snprintf_more_def
    by (rule truncation_test_passes [where ds = "map Lit (bytes_of ''1234567890abcde'')" and excess = "''890abcde''"])
      (use assms p in \<open>simp_all add: literal_format del: set_map\<close>)
qed

lemma all_untouched_passes:
  "i + n \<le> length buffer \<Longrightarrow> \<forall>b\<in>set buffer. b = 255 \<Longrightarrow> all_untouched board h site buffer i n k = Inr (Goes k)"
proof (induction n arbitrary: i)
  case 0
  then show ?case by simp
next
  case (Suc n)
  then have b: "deref buffer i = Inr 255" by (simp add: deref_def)
  have "i + 1 + n \<le> length buffer" using Suc.prems(1) by simp
  from Suc.IH [OF this Suc.prems(2)] show ?case by (simp add: b assertion_holds del: deref_in)
qed

lemma bounded_tests_pass:
  assumes "length stack32 = 32" and "length stack16 = 16"
  shows "snprintf_less board h file stack32 k = Inr (Goes k)" "snprintf_zero board h file stack16 k = Inr (Goes k)"
proof -
  have p: "plain (bytes_of ''hello'')" "plain (bytes_of ''1234567890abcde'')" by (simp_all add: plain_def bytes_of_def)
  note a = snprintf_format [OF literal_format(2,3), OF p(1), of 32 "replicate 32 255" "[]" "[]"]
    and b = snprintf_format [OF literal_format(2,3), OF p(2), of 0 "replicate 16 255" "[]" "[]"]
  show "snprintf_less board h file stack32 k = Inr (Goes k)"
    using a assms(1) by (simp add: snprintf_less_def memset_eq literal_format(1) [OF p(1)] cstr_def assertion_holds)
  show "snprintf_zero board h file stack16 k = Inr (Goes k)"
    using b assms(2) all_untouched_passes [of 0 16 "replicate 16 255"]
    by (simp add: snprintf_zero_def memset_eq literal_format(1) [OF p(2)] cstr_def assertion_holds)
qed

text \<open>All tests of the file; \<open>stack n\<close> is what an array of \<open>n\<close> bytes holds at first.\<close>

definition libc_tests :: "Board \<Rightarrow> nat \<Rightarrow> byte list \<Rightarrow> (nat \<Rightarrow> byte list) \<Rightarrow> (kernel \<Rightarrow> error + run) list" where
  "libc_tests board h file stack =
     [sprintf_simple board h file (stack 64), sprintf_decimal_positive board h file (stack 64),
      sprintf_decimal_negative board h file (stack 64), strlen_simple board h file, strnlen_s_simple board h file,
      snprintf_less board h file (stack 32), snprintf_same board h file (stack 16), snprintf_one_more board h file (stack 16),
      snprintf_more board h file (stack 8), snprintf_zero board h file (stack 16)]"

theorem libc_tests_pass:
  assumes "\<And>n. length (stack n) = n" and "t \<in> set (libc_tests board h file stack)"
  shows "t k = Inr (Goes k)"
  using assms(2) sprintf_tests_pass [OF assms(1)] length_tests_pass truncation_tests_pass [OF assms(1,1)]
    bounded_tests_pass [OF assms(1,1)]
  by (auto simp: libc_tests_def)

section \<open>A test that is run\<close>

text \<open>How the printf of a literal, the assertion that fails and the exit show on the console.\<close>

definition failure_text :: "byte list \<Rightarrow> nat \<Rightarrow> string \<Rightarrow> string \<Rightarrow> byte list" where
  "failure_text file l func condition_text =
     bytes_of ''test assertion failed: '' @ file @ bytes_of '':'' @ radix 10 l @ bytes_of '' ('' @ bytes_of func @
     bytes_of ''): TEST_ASSERT('' @ bytes_of condition_text @ bytes_of '')'' @ [10]"

text \<open>The test whose name the boot arguments hold is the first of the table with that name.\<close>

lemma get_test_first:
  assumes "cstring p name" and "\<forall>(n, f)\<in>set tests. \<exists>m. n = m @ [0] \<and> 0 \<notin> set m"
    and "List.find (\<lambda>(n, f). n = name @ [0]) tests = Some test"
  shows "get_test (Some p) tests = Inr test"
  using assms(2,3)
proof (induction tests)
  case Nil
  then show ?case by simp
next
  case (Cons t tests)
  then obtain m where m: "fst t = m @ [0]" "0 \<notin> set m" by auto
  have "strcmp (Some p) (Some (fst t)) = Inr (strcmp_spec name m)"
    using strcmp_loop_spec [OF assms(1) cstring_append_NUL [OF m(2)], of "[]"] by (simp add: strcmp_def m(1))
  then show ?case using Cons m(1) by (auto split: if_splits)
qed

lemma run_boot_args_test:
  assumes "cstring p (bytes_of ''--test'' @ name)" and "name \<noteq> bytes_of ''s''"
    and "\<forall>(n, f)\<in>set tests. \<exists>m. n = m @ [0] \<and> 0 \<notin> set m"
    and "List.find (\<lambda>(n, f). n = name @ [0]) tests = Some test"
  shows "run_boot_args board h tests (Some p) k = and_then (snd test k) (test_exit board h 0)"
proof -
  have "plain (bytes_of ''--tests'')" "plain (bytes_of ''--test'')" by (simp_all add: plain_def bytes_of_def)
  then have l: "cstring (cstr ''--tests'') (bytes_of ''--tests'')" "cstring (cstr ''--test'') (bytes_of ''--test'')"
    using cstring_bytes [of _ "[]"] by (simp_all add: cstr_def)
  have "bytes_of ''--test'' @ name \<noteq> bytes_of ''--tests''" using assms(2) by (auto simp: bytes_of_def)
  then have "strcmp (Some p) (Some (cstr ''--tests'')) = Inr (strcmp_spec (bytes_of ''--test'' @ name) (bytes_of ''--tests''))"
    "strcmp_spec (bytes_of ''--test'' @ name) (bytes_of ''--tests'') \<noteq> 0"
    using strcmp_loop_spec [OF assms(1) l(1)] by (simp_all add: strcmp_def)
  moreover have "strncmp (Some p) (Some (cstr ''--test'')) 6 = Inr 0"
    using strncmp_correct [OF assms(1) l(2), of 6] strcmp_spec_zero [of "bytes_of ''--test''"] by simp
  moreover have "cstring (drop 6 p) name"
    using assms(1) by (auto simp: cstring_iff bytes_of_def)
  ultimately show ?thesis using get_test_first [OF _ assms(3,4)] by (auto simp: run_boot_args_def)
qed

text \<open>
  C36: When the device tree's \<open>/chosen\<close> node has the boot arguments \<open>--testNAME\<close>, the test build runs exactly
  the function that the table of tests has for \<open>NAME\<close>, and exits with 0 after it unless the test has left before.
\<close>

theorem bootargs_test_runs:
  assumes "encodes blob strings t cpu" and "dt_wf t" and "length blob < 2 ^ 63" and "node_count t \<le> 255" and "prop_count t \<le> 255"
    and m: "matches [t] [[], bytes_of ''chosen''] = DNode n nm ps cs e # others" and named: "list_all (named blob strings) ps"
    and d: "List.find (\<lambda>d. string_of blob strings d = bytes_of ''bootargs'') ps = Some d"
    and args: "prop_bytes d = bytes_of ''--test'' @ name @ [0]" "0 \<notin> set name" "name \<noteq> bytes_of ''s''"
    and tests: "\<forall>(n, f)\<in>set tests. \<exists>m. n = m @ [0] \<and> 0 \<notin> set m" "List.find (\<lambda>(n, f). n = name @ [0]) tests = Some test"
  shows "\<exists>tree s. DeviceTree_parse blob empty_arrays = Inr (tree, s) \<and>
     run_test_from_bootargs board h tests blob s tree k = Some (and_then (snd test k) (test_exit board h 0))"
proof -
  obtain s where s: "DeviceTree_parse blob empty_arrays = Inr (\<lparr>boot_cpuid_phys = cpu, root = 0\<rparr>, s)"
      "node_at blob strings s 0 0 t" "node_next (nodes_items s ! 0) = None"
    using parse_encodes_arrays [OF assms(1-5)] by blast
  have names: "\<forall>n\<in>set [bytes_of ''chosen'']. 0 \<notin> set n" "0 \<notin> set (bytes_of ''bootargs'')" by (simp_all add: bytes_of_def)
  obtain i c where i: "DeviceTreeNode_find_child blob s 0 (DEVICE_TREE_PATH_FROM_ROOT [bytes_of ''chosen'']) = Some (Inr (Some i))"
      "node_at blob strings s i c (DNode n nm ps cs e)"
    using find_child_path [OF s(2,3) _ names(1)] m by (auto simp: finds_def)
  obtain j where j: "DeviceTreeNode_find_property blob s (Some i) (cstr ''bootargs'') = Some (Inr (Some j))" "prop_at blob strings s j d"
    using find_property_first_match [OF i(2) named names(2)] d by (auto simp: cstr_def)
  then obtain v where v: "j < length (props_items s)" "prop_value (props_items s ! j) = Some v" "blob_holds blob v (prop_bytes d)"
    by (auto simp: prop_at_def split: option.splits)
  have "\<exists>rest. drop v blob = prop_bytes d @ rest"
    using v(3) unfolding blob_holds_def by (metis append_take_drop_id)
  then have "cstring (drop v blob) (bytes_of ''--test'' @ name)"
    using args(2) by (auto simp: args(1) cstring_iff bytes_of_def)
  from run_boot_args_test [OF this args(3) tests] show ?thesis
    using s(1) i(1) j(1) v(1,2) by (auto simp: run_test_from_bootargs_def string_at_def)
qed

text \<open>A tree with boot arguments, flattened, and a table with two tests.\<close>

definition chosen_tree :: dt_node where
  "chosen_tree = DNode 0 [] [] [DNode 0 (bytes_of ''chosen'') [DProp 0 0 (bytes_of ''--testone'' @ [0])] [] 0] 0"

definition chosen_blob :: "byte list" where
  "chosen_blob = be32 DEVICE_TREE_MAGIC @ be32 0 @ be32 52 @ be32 40 @ be32 0 @ be32 DEVICE_TREE_VERSION @ be32 16 @
     be32 3 @ be32 0 @ be32 0 @ bytes_of ''bootargs'' @ [0, 0, 0, 0] @ flat_node chosen_tree @ be32 STRUCTURE_END"

lemma chosen_blob_encodes: "encodes chosen_blob 40 chosen_tree 3" "length chosen_blob < 2 ^ 63"
  "dt_wf chosen_tree" "node_count chosen_tree \<le> 255" "prop_count chosen_tree \<le> 255"
proof -
  have "blob_holds chosen_blob (unat (52 :: u32)) (flat_node chosen_tree @ be32 STRUCTURE_END)"
    by (simp add: blob_holds_def chosen_blob_def bytes_of_def)
  then show "encodes chosen_blob 40 chosen_tree 3"
    unfolding encodes_def
    by (intro conjI exI [of _ 52])
      (simp_all add: blob_holds_def chosen_blob_def bytes_of_def offsetof_magic_def offsetof_version_def
        offsetof_boot_cpuid_phys_def offsetof_off_dt_strings_def offsetof_off_dt_struct_def)
  show "length chosen_blob < 2 ^ 63" by (simp add: chosen_blob_def chosen_tree_def bytes_of_def)
  show "dt_wf chosen_tree" "node_count chosen_tree \<le> 255" "prop_count chosen_tree \<le> 255"
    by (simp_all add: chosen_tree_def bytes_of_def)
qed

lemma bootargs_test_runs_witness:
  "\<exists>tree s. DeviceTree_parse chosen_blob empty_arrays = Inr (tree, s) \<and>
     run_test_from_bootargs board_virt 0 [(cstr ''two'', \<lambda>k. Inl AssertFail), (cstr ''one'', \<lambda>k. Inr (Goes k))] chosen_blob s tree
       (sample_kernel 1 []) = Some (test_exit board_virt 0 0 (sample_kernel 1 []))"
proof -
  let ?tests = "[(cstr ''two'', \<lambda>k. Inl AssertFail), (cstr ''one'', \<lambda>k. Inr (Goes k))]"
  let ?d = "DProp 0 0 (bytes_of ''--testone'' @ [0])"
  have strings: "drop 40 chosen_blob = bytes_of ''bootargs'' @ [0, 0, 0, 0] @ flat_node chosen_tree @ be32 STRUCTURE_END"
    by (simp add: chosen_blob_def bytes_of_def)
  have d: "named chosen_blob 40 ?d" "string_of chosen_blob 40 ?d = bytes_of ''bootargs''"
    by (simp_all add: named_def string_of_def strings) (simp_all add: bytes_of_def)
  have m: "matches [chosen_tree] [[], bytes_of ''chosen''] = DNode 0 (bytes_of ''chosen'') [?d] [] 0 # []"
    by (simp add: chosen_tree_def bytes_of_def)
  have a: "prop_bytes ?d = bytes_of ''--test'' @ bytes_of ''one'' @ [0]" "0 \<notin> set (bytes_of ''one'')" "bytes_of ''one'' \<noteq> bytes_of ''s''"
    by (simp_all add: bytes_of_def)
  have "\<forall>(n, f)\<in>set ?tests. \<exists>m. n = m @ [0] \<and> 0 \<notin> set m"
    "List.find (\<lambda>(n, f). n = bytes_of ''one'' @ [0]) ?tests = Some (cstr ''one'', \<lambda>k. Inr (Goes k))"
    by (simp_all add: cstr_def) (simp_all add: bytes_of_def)
  from bootargs_test_runs [OF chosen_blob_encodes(1,3,2,4,5) m _ _ a this, of board_virt 0 "sample_kernel 1 []"] d
  show ?thesis by simp
qed

text \<open>An assertion that fails.\<close>

lemma failing_assertion:
  assumes q: "quiet_io h k" and f: "0 \<notin> set f" "length f < 2 ^ 30" and l: "l < 2 ^ 31"
    and func: "plain (bytes_of func)" "length func < 2 ^ 30" and cond: "plain (bytes_of cond)" "length cond < 2 ^ 30"
  shows "\<exists>k'. TEST_ASSERT board h (f @ [0], l, func) cond False k = Inr (Exited k') \<and>
     mmio k' = mmio k @ exit_writes board 1 \<and> kernel_out h k' = kernel_out h k @ failure_text f l func cond @ exit_text 1"
proof -
  let ?fmt = "bytes_of ''test assertion failed: %s:%u (%s): TEST_ASSERT(%s)'' @ [10, 0]"
  let ?args = "[VStr (f @ [0]), VWord (of_nat l), VStr (cstr func), VStr (cstr cond)]"
  let ?ds = "map Lit (bytes_of ''test assertion failed: '') @ simple ConvStr # Lit 58 # simple ConvUnsigned #
    map Lit (bytes_of '' ('') @ simple ConvStr # map Lit (bytes_of ''): TEST_ASSERT('') @ simple ConvStr # [Lit 41, Lit 10]"
  have fmt: "?fmt = format_string ?ds @ [0]" "\<forall>d\<in>set ?ds. directive_ok d" by (simp_all add: format_string_def bytes_of_def)
  have u: "unat (of_nat l :: u32) = l" using l by (simp add: unat_of_nat take_bit_nat_eq_self)
  have b: "bytes_of '':'' = [58]" "bytes_of '')'' = [41]" by (simp_all add: bytes_of_def)
  have t: "takeWhile (\<lambda>b. b \<noteq> 0) (f @ [0]) = f" using f(1) by (intro takeWhile_append2 [THEN trans]) auto
  have c: "takeWhile (\<lambda>b. b \<noteq> 0) (cstr x) = bytes_of x" if "plain (bytes_of x)" for x
    using cstring_bytes [OF that, of "[]"] by (simp add: cstring_def cstr_def)
  have "length (radix 10 l) < 2 ^ 31" using l length_radix [of 10 l 9] by simp
  then have msg: "format_text ?ds ?args = Some (chars (failure_text f l func cond), [])"
    using f(2) func cond by (simp add: format_lits(3) failure_text_def t c u b pad_def cstr_text(1))
  obtain k1 where k1: "kprintf h ?fmt ?args k = Inr (of_nat (length (chars (failure_text f l func cond))), k1)"
      "quiet_io h k1" "output_frame k k1" "kernel_out h k1 = kernel_out h k @ failure_text f l func cond"
    using kprintf_quiet [OF q fmt(2) msg fmt(1)] by (auto simp: map_ucast_chars)
  then show ?thesis
    using exit_ok [OF k1(2), of board 1]
    by (auto simp: TEST_ASSERT_def test_printf_def test_exit_def output_frame_def)
qed

text \<open>
  The test that is meant to fail does: it reports the assertion with its place and leaves through \<open>exit\<close> with
  code 1, which the test device is told as a failure.
\<close>

theorem failing_test_exits:
  assumes q: "quiet_io h k" and f: "0 \<notin> set f" "length f < 2 ^ 30"
  shows "\<exists>k'. expect_fail board h (f @ [0]) k = Inr (Exited k') \<and> mmio k' = mmio k @ exit_writes board 1 \<and>
     kernel_out h k' = kernel_out h k @ bytes_of ''should fail'' @ [10] @
       failure_text f 88 ''_test__expect_fail_should_fail'' ''true == false'' @ exit_text 1"
proof -
  have p: "plain (bytes_of ''should fail'' @ [10])" "plain (bytes_of ''_test__expect_fail_should_fail'')" "plain (bytes_of ''true == false'')"
    by (simp_all add: plain_def bytes_of_def)
  obtain n k1 where k1: "kprintf h (bytes_of ''should fail'' @ [10, 0]) [] k = Inr (n, k1)" "prints_only h k k1"
      "kernel_out h k1 = kernel_out h k @ bytes_of ''should fail'' @ [10]"
    using kprintf_literal [OF q p(1)] by auto
  have q1: "quiet_io h k1" and m: "mmio k1 = mmio k" using k1(2) by (simp_all add: prints_only_def output_frame_def)
  show ?thesis
    using failing_assertion [OF q1 f _ p(2) _ p(3), of 88 board] k1(1,3) m
    by (auto simp: expect_fail_def test_printf_def)
qed

end
