(* ===== verification/User_Library.thy ===== *)
theory User_Library
  imports Trap_Cycle Boot_Output
begin

text \<open>
  The library that user programs are linked with (\<open>userlib/\<close>) and the first user program (\<open>user/first.c\<close>): the
  wrappers of the \<open>ecall\<close> instruction, the streams, \<open>exit\<close> and the entry point. What the \<open>ecall\<close> does is an
  argument of the definitions; the second half instantiates it with the kernel's own \<open>handle_syscall\<close>.
\<close>

section \<open>System calls (userlib/syscall.c, syscall.h)\<close>

text \<open>From the values of \<open>a0\<close> to \<open>a7\<close> to the value of \<open>a0\<close> afterwards.\<close>

type_synonym 'w ecall = "u64 list \<Rightarrow> 'w \<Rightarrow> error + u64 \<times> 'w"

text \<open>The macros \<open>SYSCALL1\<close> to \<open>SYSCALL8\<close>: the arguments that are missing are zero.\<close>

definition SYSCALL :: "u64 list \<Rightarrow> u64 list" where
  "SYSCALL args = args @ replicate (8 - length args) 0"

definition syscall :: "'w ecall \<Rightarrow> u64 list \<Rightarrow> 'w \<Rightarrow> error + u64 \<times> 'w" where
  "syscall ecall args w = ecall args w"

definition user_yield :: "'w ecall \<Rightarrow> 'w \<Rightarrow> error + 'w" where
  "user_yield ecall w = bindr (syscall ecall (SYSCALL [SYSCALL_YIELD]) w) (\<lambda>(r, w1). Inr w1)"

section \<open>Streams (userlib/io.c)\<close>

text \<open>The three streams are null pointers: nothing ever stores to them, and \<open>fputc\<close> does not look at its stream.\<close>

type_synonym user_FILE = "unit option"

definition user_stdout :: user_FILE where "user_stdout = None"

definition user_fopen :: "byte list \<Rightarrow> byte list \<Rightarrow> user_FILE" where "user_fopen filename mode = None"
definition user_fclose :: "user_FILE \<Rightarrow> u32" where "user_fclose stream = EOF"
definition user_fflush :: "user_FILE \<Rightarrow> u32" where "user_fflush stream = EOF"
definition user_fgetc :: "user_FILE \<Rightarrow> u32" where "user_fgetc stream = EOF"

definition user_fputc :: "'w ecall \<Rightarrow> u32 \<Rightarrow> user_FILE \<Rightarrow> 'w \<Rightarrow> error + u32 \<times> 'w" where
  "user_fputc ecall ch stream w =
     bindr (syscall ecall (SYSCALL [SYSCALL_PUTCHAR, scast ch]) w) (\<lambda>(r, w1). Inr (ucast r, w1))"

text \<open>The \<open>printf\<close> of \<open>libc/stdio.c\<close>, linked with this \<open>fputc\<close>.\<close>

definition user_printf :: "'w ecall \<Rightarrow> byte list \<Rightarrow> vararg list \<Rightarrow> 'w \<Rightarrow> error + u32 \<times> 'w" where
  "user_printf ecall format_str args w = printf (user_fputc ecall) user_stdout format_str args w"

section \<open>The end of a program (userlib/panic.h, stdlib.c)\<close>

text \<open>The macro prints its report and then waits for ever; \<open>file\<close> is what the compiler puts for \<open>__FILE__\<close>.\<close>

definition user_PANIC :: "'w ecall \<Rightarrow> byte list \<Rightarrow> nat \<Rightarrow> string \<Rightarrow> string \<Rightarrow> 'w \<Rightarrow> error + 'a" where
  "user_PANIC ecall file line_number func reason w =
     bindr (user_printf ecall
              (bytes_of ''User panic'' @ [10] @ bytes_of ''%s:%u %s()'' @ [10] @ bytes_of ''Reason: '' @ bytes_of reason @
               [10] @ bytes_of ''!!!'' @ [10, 0])
              [VStr file, VWord (of_nat line_number), VStr (cstr func)] w)
       (\<lambda>r. Inl Hangs)"

definition user_exit :: "'w ecall \<Rightarrow> byte list \<Rightarrow> u32 \<Rightarrow> 'w \<Rightarrow> error + 'w" where
  "user_exit ecall file exit_code w =
     bindr (syscall ecall (SYSCALL [SYSCALL_EXIT, scast exit_code]) w) (\<lambda>(r, w1).
       user_PANIC ecall file 10 ''exit'' ''user program didn't exit after exit syscall'' w1)"

text \<open>The entry point of a program (\<open>start.c\<close>): \<open>main\<close> runs on the stack that the linker set aside.\<close>

definition user_start :: "addr \<Rightarrow> addr \<Rightarrow> cpu \<Rightarrow> cpu" where
  "user_start stack_top main c = c\<lparr>cpu_reg := (cpu_reg c)(sp := stack_top), cpu_pc := main\<rparr>"

section \<open>A program (user/first.c)\<close>

definition messages :: "string list" where
  "messages = [''hello world'', ''this is from a process'', ''a user process'', ''it is running'', ''but not for long'',
     ''...'', ''now it will shut down'', ''goodbye cruel world'']"

fun print_messages :: "'w ecall \<Rightarrow> string list \<Rightarrow> 'w \<Rightarrow> error + 'w" where
  "print_messages ecall [] w = Inr w"
| "print_messages ecall (m # ms) w =
     bindr (user_printf ecall (bytes_of ''user: %s'' @ [10, 0]) [VStr (cstr m)] w) (\<lambda>(n, w1). print_messages ecall ms w1)"

definition first_main :: "'w ecall \<Rightarrow> byte list \<Rightarrow> 'w \<Rightarrow> error + 'w" where
  "first_main ecall file w = bindr (print_messages ecall messages w) (user_exit ecall file 0)"

section \<open>The kernel at the other end\<close>

text \<open>
  The trap vector has put the registers into the frame of the hart when \<open>handle_syscall\<close> runs, and what is in
  the frame afterwards is what the process gets back.
\<close>

definition pass_arguments :: "nat \<Rightarrow> u64 list \<Rightarrow> kernel \<Rightarrow> kernel" where
  "pass_arguments h args = fold (\<lambda>(r, v). set_scratch_reg h r v) (zip [a0, a1, a2, a3, a4, a5, a6, a7] args)"

definition kernel_ecall :: "nat \<Rightarrow> kernel ecall" where
  "kernel_ecall h args k =
     bindr (handle_syscall h (pass_arguments h args k)) (\<lambda>k'. Inr (frame_regs (hart_frame (my_hart_scratch h k')) a0, k'))"

text \<open>The handler of hart \<open>h\<close> while it serves process \<open>p\<close>, and the output of that process.\<close>

definition serves :: "nat \<Rightarrow> nat \<Rightarrow> kernel \<Rightarrow> bool" where
  "serves h p k \<longleftrightarrow> in_handler h k \<and> current_process (my_hart_scratch h k) = Some p"

definition process_out :: "nat \<Rightarrow> kernel \<Rightarrow> byte list" where
  "process_out p k = console (sbi k) @ (case get_buffer (ProcessBuffer p) k of Inl e \<Rightarrow> [] | Inr b \<Rightarrow> pending b)"

lemma served_buffer:
  assumes "serves h p k"
  obtains b where "get_buffer (ProcessBuffer p) k = Inr b"
proof -
  have ok: "sched_ok h k" and cur: "current_process (my_hart_scratch h k) = Some p"
    using assms by (simp_all add: serves_def in_handler_def)
  have "p < length (processes k)"
    using ok sched_ok_current(1) [OF ok cur] by (simp add: sched_ok_def processes_ok_def maximum_32)
  then show thesis using that by (simp add: get_buffer_def)
qed

text \<open>Only the frame takes the arguments.\<close>

lemma set_scratch_regs:
  assumes "serves h p k"
  shows "serves h p (fold (\<lambda>(r, v). set_scratch_reg h r v) rs k) \<and>
    frame_regs (hart_frame (my_hart_scratch h (fold (\<lambda>(r, v). set_scratch_reg h r v) rs k))) =
      fold (\<lambda>(r, v) f. f(r := v)) rs (frame_regs (hart_frame (my_hart_scratch h k))) \<and>
    process_out p (fold (\<lambda>(r, v). set_scratch_reg h r v) rs k) = process_out p k"
  using assms
proof (induction rs arbitrary: k)
  case Nil
  then show ?case by simp
next
  case (Cons r rs)
  have h: "h < length (hart_scratches k)" using Cons.prems by (simp add: serves_def in_handler_def sched_ok_def hart_ok_def)
  note f = set_scratch_reg_facts [OF h, where r = "fst r" and v = "snd r"]
  have "serves h p (set_scratch_reg h (fst r) (snd r) k)"
    using Cons.prems in_handler_set_reg by (simp add: serves_def f)
  from Cons.IH [OF this] show ?case by (simp add: case_prod_unfold f process_out_def)
qed

lemma pass_arguments_served:
  assumes "serves h p k"
  shows "serves h p (pass_arguments h (SYSCALL [x, y]) k)"
    "frame_regs (hart_frame (my_hart_scratch h (pass_arguments h (SYSCALL [x, y]) k))) a0 = x"
    "frame_regs (hart_frame (my_hart_scratch h (pass_arguments h (SYSCALL [x, y]) k))) a1 = y"
    "process_out p (pass_arguments h (SYSCALL [x, y]) k) = process_out p k"
  using set_scratch_regs [OF assms, of "zip [a0, a1, a2, a3, a4, a5, a6, a7] (SYSCALL [x, y])"]
  by (simp_all add: pass_arguments_def SYSCALL_def numeral_eq_Suc)

text \<open>One character of a user program; a newline empties the line.\<close>

lemma user_fputc_served:
  assumes "serves h p k"
  shows "\<exists>r k'. user_fputc (kernel_ecall h) ch stream k = Inr (r, k') \<and> serves h p k' \<and>
     process_out p k' = process_out p k @ [ucast ch] \<and> (ucast ch = (10 :: byte) \<longrightarrow> console (sbi k') = process_out p k')"
proof -
  let ?k = "pass_arguments h (SYSCALL [SYSCALL_PUTCHAR, scast ch]) k"
  note a = pass_arguments_served [OF assms, of SYSCALL_PUTCHAR "scast ch"]
  obtain b where b: "get_buffer (ProcessBuffer p) ?k = Inr b" using served_buffer [OF a(1)] .
  have c: "(ucast (scast ch :: u64) :: byte) = ucast ch" by (intro bit_word_eqI) (auto simp: bit_simps)
  obtain k' b' where k': "handle_syscall h ?k = Inr k'" "in_handler h k'" "current_process (my_hart_scratch h k') = Some p"
      "get_buffer (ProcessBuffer p) k' = Inr b'" "console (sbi k') @ pending b' = console (sbi ?k) @ pending b @ [ucast ch]"
      "ucast ch = (10 :: byte) \<longrightarrow> pending b' = []"
    using handle_syscall_putchar [OF _ _ a(2) b] a(1) unfolding serves_def a(3) c by blast
  then show ?thesis
    using a(4) b by (simp add: user_fputc_def syscall_def kernel_ecall_def serves_def process_out_def)
qed

text \<open>From \<open>k0\<close> on, no finished line stays in the buffer.\<close>

definition flushed :: "nat \<Rightarrow> kernel \<Rightarrow> bool" where
  "flushed p k \<longleftrightarrow> (last (process_out p k) = 10 \<longrightarrow> console (sbi k) = process_out p k)"

interpretation user_stream: output_stream "user_fputc (kernel_ecall h)" user_stdout
  "\<lambda>k. serves h p k \<and> (k = k0 \<or> flushed p k)" "process_out p" for h p k0
proof unfold_locales
  fix ch w
  assume "serves h p w \<and> (w = k0 \<or> flushed p w)"
  then show "\<exists>r w'. user_fputc (kernel_ecall h) ch user_stdout w = Inr (r, w') \<and> (serves h p w' \<and> (w' = k0 \<or> flushed p w')) \<and>
      process_out p w' = process_out p w @ [ucast ch]"
    using user_fputc_served [of h p w ch user_stdout] by (auto simp: flushed_def)
qed


text \<open>Hart 0 in the handler, with the system call of process 3.\<close>

definition sample_call :: kernel where
  "sample_call = sip_cleared 0 (entered trap_print_lock 0 (sample_trap SCAUSE_ECALL_U_MODE 0))"

lemma sample_serves: "serves 0 3 sample_call" "process_out 3 sample_call = []"
proof -
  have "trap_ready 0 (sample_trap SCAUSE_ECALL_U_MODE 0)" by (intro sample_trap_ready) simp
  note t = trap_ready_entered [OF this]
  show "serves 0 3 sample_call" using t by (simp add: serves_def sample_call_def sample_trap_fields)
  have "sbi (sample_trap SCAUSE_ECALL_U_MODE 0) = []" by (simp add: sample_trap_def sample_running_def set_scratch_def)
  moreover have "get_buffer (ProcessBuffer 3) sample_call = get_buffer (ProcessBuffer 3) (sample_trap SCAUSE_ECALL_U_MODE 0)"
    by (simp add: sample_call_def get_buffer_sip get_buffer_entered_process)
  moreover have "get_buffer (ProcessBuffer 3) (sample_trap SCAUSE_ECALL_U_MODE 0) =
      Inr \<lparr>count = 0, capacity = 256, array = replicate 256 0\<rparr>"
    by (simp add: get_buffer_def sample_trap_fields)
  ultimately show "process_out 3 sample_call = []"
    using t(8) by (simp add: process_out_def pending_def sample_call_def)
qed


section \<open>A program from its first line to its end\<close>

definition message_line :: "string \<Rightarrow> byte list" where
  "message_line m = bytes_of ''user: '' @ bytes_of m @ [10]"

lemma message_printed:
  assumes "serves h p k" and "0 \<notin> set (bytes_of m)" and "length m < 1000"
  shows "\<exists>k'. user_printf (kernel_ecall h) (bytes_of ''user: %s'' @ [10, 0]) [VStr (cstr m)] k =
       Inr (of_nat (length (message_line m)), k') \<and>
     serves h p k' \<and> process_out p k' = process_out p k @ message_line m \<and> console (sbi k') = process_out p k'"
proof -
  let ?ds = "map Lit (bytes_of ''user: '') @ [Conv False False False NoWidth 0 ConvStr, Lit 10]"
  have f: "bytes_of ''user: %s'' @ [10, 0] = format_string ?ds @ 0 # []" by (simp add: format_string_def bytes_of_def)
  have d: "\<forall>d\<in>set ?ds. directive_ok d" by (simp add: bytes_of_def)
  have "takeWhile (\<lambda>b. b \<noteq> 0) (cstr m) = bytes_of m"
    using assms(2) by (simp add: cstr_def takeWhile_append)
  then have t: "format_text ?ds [VStr (cstr m)] = Some (chars (message_line m), [])"
    using assms(3) by (simp add: message_line_def cstr_text(1) bytes_of_def pad_def)
  obtain k' where k': "user_printf (kernel_ecall h) (bytes_of ''user: %s'' @ [10, 0]) [VStr (cstr m)] k =
      Inr (of_nat (length (message_line m)), k')" "serves h p k'" "k' = k \<or> flushed p k'"
      "process_out p k' = process_out p k @ message_line m"
    using user_stream.printf_format [OF _ d t, of h p k k "[]", folded user_printf_def f] assms(1)
    by (auto simp: map_ucast_chars)
  then have "k' \<noteq> k" "last (process_out p k') = 10" by (auto simp: message_line_def)
  then show ?thesis using k' by (simp add: flushed_def)
qed

lemma messages_printed:
  assumes "serves h p k" and "\<forall>m\<in>set ms. 0 \<notin> set (bytes_of m) \<and> length m < 1000"
  shows "\<exists>k'. print_messages (kernel_ecall h) ms k = Inr k' \<and> serves h p k' \<and>
     process_out p k' = process_out p k @ concat (map message_line ms) \<and>
     (ms \<noteq> [] \<or> console (sbi k) = process_out p k \<longrightarrow> console (sbi k') = process_out p k')"
  using assms
proof (induction ms arbitrary: k)
  case Nil
  then show ?case by simp
next
  case (Cons m ms)
  then obtain k1 where k1: "user_printf (kernel_ecall h) (bytes_of ''user: %s'' @ [10, 0]) [VStr (cstr m)] k =
      Inr (of_nat (length (message_line m)), k1)" "serves h p k1" "process_out p k1 = process_out p k @ message_line m"
      "console (sbi k1) = process_out p k1"
    using message_printed [of h p k m] by auto
  then show ?case using Cons.IH [OF k1(2)] Cons.prems(2) by fastforce
qed

lemma messages_strings: "\<forall>m\<in>set messages. 0 \<notin> set (bytes_of m) \<and> length m < 1000"
  by (simp add: messages_def bytes_of_def)

text \<open>The system call that ends the program.\<close>

lemma exit_served:
  assumes "serves h p k"
  shows "\<exists>k'. handle_syscall h (pass_arguments h (SYSCALL [SYSCALL_EXIT, scast code]) k) = Inr k' \<and> in_handler h k' \<and>
     current_process (my_hart_scratch h k') = None \<and> pstate (sched_of k') p = PROCESS_UNUSED \<and> sbi k' = sbi k"
proof -
  let ?k = "pass_arguments h (SYSCALL [SYSCALL_EXIT, scast code]) k"
  note a = pass_arguments_served [OF assms, of SYSCALL_EXIT "scast code"]
  have i: "in_handler h ?k" and cur: "current_process (my_hart_scratch h ?k) = Some p" using a(1) by (simp_all add: serves_def)
  note d = destroyed_in_handler [OF i cur]
  have "handle_syscall h ?k = Process_destroy_current h ?k"
    unfolding handle_syscall_def Let_def a(2) by (simp add: SYSCALL_EXIT_def SYSCALL_YIELD_def SYSCALL_PUTCHAR_def)
  moreover have ok: "sched_ok h ?k" using i by (simp add: in_handler_def)
  have "p < length (processes ?k)"
    using ok sched_ok_current(1) [OF ok cur] by (simp add: sched_ok_def processes_ok_def maximum_32)
  then have "pstate (sched_of (destroyed p False h ?k)) p = PROCESS_UNUSED" by (simp add: sched_of_def destroyed_def)
  moreover have "sbi (fold (\<lambda>(r, v). set_scratch_reg h r v) rs k) = sbi k" for rs
    by (induction rs arbitrary: k) (auto simp: set_scratch_reg_def Let_def set_scratch_def)
  then have "sbi (destroyed p False h ?k) = sbi k" by (simp add: destroyed_def pass_arguments_def)
  ultimately show ?thesis using d(1,2,4) by simp
qed



end
