(* ===== verification/Trap_Effect.thy ===== *)
theory Trap_Effect
  imports Trap_Cycle
begin

text \<open>
  The effect of a trap on the process that it interrupts, for every cause: what its registers are
  afterwards, or that it is gone, and that the handler has touched nothing else, whichever branch it took.
\<close>

section \<open>The effect\<close>

text \<open>
  The registers with which the process goes on; \<open>None\<close> if the kernel ends it.  A trap of a kernel process
  that is not an interrupt stops the machine, so it has no effect to describe.
\<close>

definition trap_effect :: "bool \<Rightarrow> u64 \<Rightarrow> (reg \<Rightarrow> u64) \<Rightarrow> (reg \<Rightarrow> u64) option" where
  "trap_effect from_kernel cause regs =
     (if from_kernel \<or> cause = SCAUSE_SUPERVISOR_TIMER_INTERRUPT \<or> cause = SCAUSE_SUPERVISOR_EXTERNAL_INTERRUPT then Some regs
      else if cause \<noteq> SCAUSE_ECALL_U_MODE \<or> regs a0 = SYSCALL_EXIT then None
      else if regs a0 = SYSCALL_PUTCHAR then Some (regs(a0 := scast (ucast (regs a1) :: u32)))
      else Some regs)"

section \<open>Work inside the handler\<close>

definition handler_keeps :: "nat \<Rightarrow> kernel \<Rightarrow> kernel \<Rightarrow> bool" where
  "handler_keeps h k k' \<longleftrightarrow> in_handler h k' \<and> others_keep h k k' \<and>
     current_process (my_hart_scratch h k') = current_process (my_hart_scratch h k) \<and>
     hart_frame (my_hart_scratch h k') = hart_frame (my_hart_scratch h k) \<and>
     map strip_process (processes k') = map strip_process (processes k)"

lemma handler_keeps_refl: "in_handler h k \<Longrightarrow> handler_keeps h k k"
  by (simp add: handler_keeps_def)

lemma handler_keeps_trans: "handler_keeps h k k1 \<Longrightarrow> handler_keeps h k1 k2 \<Longrightarrow> handler_keeps h k k2"
  using others_keep_trans unfolding handler_keeps_def by metis

lemma handler_keeps_served:
  assumes "handler_keeps h k k'" and "current_process (my_hart_scratch h k) = Some p"
  shows "trap_served h p (Some (frame_regs (hart_frame (my_hart_scratch h k)))) k k'"
  using assms by (simp add: handler_keeps_def trap_served_def)

lemma handler_keeps_device:
  assumes "in_handler h k"
  shows "handler_keeps h k (k\<lparr>mmio := m\<rparr>)" "handler_keeps h k (k\<lparr>uart1_buffer := b, sbi := t\<rparr>)"
  using assms others_keep_device [where h = h and k = k and m = m and b = "uart1_buffer k" and t = "sbi k"]
    others_keep_device [where h = h and k = k and m = "mmio k" and b = b and t = t]
  by (simp_all add: handler_keeps_def in_handler_def sched_ok_def hart_ok_def processes_ok_def buffers_ok_def my_hart_scratch_def
      traps_enabled_def sched_of_cong [of "k\<lparr>uart1_buffer := b\<rparr>" k])

lemma kprintf_keeps:
  assumes i: "in_handler h k" and "\<forall>d\<in>set ds. directive_ok d" and "format_text ds args = Some (text, args')"
    and "fmt = format_string ds @ [0]"
  shows "\<exists>n k'. kprintf h fmt args k = Inr (n, k') \<and> handler_keeps h k k'"
proof -
  obtain n k' where k': "kprintf h fmt args k = Inr (n, k')" "quiet_io h k'" "output_frame k k'"
    using kprintf_quiet [OF in_handler_quiet [OF i] assms(2-4)] by blast
  have "h < length (hart_scratches k)" using i by (simp add: in_handler_def sched_ok_def hart_ok_def)
  then have "handler_keeps h k k'"
    using in_handler_frame [OF i k'(3,2)] others_keep_output [OF k'(3)] output_frame_hart [OF k'(3)] k'(3)
    by (simp add: handler_keeps_def output_frame_def strip_hart_def)
  with k'(1) show ?thesis by blast
qed

text \<open>Whatever the serial port answers, as long as the loop comes to an end.\<close>

lemma receive_keeps:
  assumes i: "in_handler h k" and run: "sifive_uart_receive dev receive h k d = Inr (k', d')"
  shows "handler_keeps h k k'"
proof -
  let ?text = "bytes_of ''SiFiveUart empty???'' @ [10]"
  have "\<forall>d\<in>set (map Lit ?text). directive_ok d" "format_text (map Lit ?text) [] = Some (map ucast ?text, [])"
      "bytes_of ''SiFiveUart empty???'' @ [10, 0] = format_string (map Lit ?text) @ [0]"
    by (simp_all add: bytes_of_def format_string_def)
  note lit = kprintf_keeps [OF _ this]
  obtain v d1 where v: "dev receive d = (v, d1)" by fastforce
  let ?k1 = "k\<lparr>mmio := load_word receive (mmio k)\<rparr>"
  note k1 = handler_keeps_device(1) [OF i, of "load_word receive (mmio k)"]
  then have i1: "in_handler h ?k1" by (simp add: handler_keeps_def)
  show ?thesis
  proof (cases "v AND push_bit 31 1 \<noteq> 0")
    case True
    then show ?thesis
      using lit [OF i1] run handler_keeps_trans [OF k1]
      by (auto simp: sifive_uart_receive_def sifive_uart_read_register_def v)
  next
    case False
    then obtain b t where "k' = ?k1\<lparr>uart1_buffer := b, sbi := t\<rparr>"
      using run by (auto simp: sifive_uart_receive_def sifive_uart_read_register_def v Let_def bindr_def
          split: sum.splits prod.splits)
    then show ?thesis using handler_keeps_trans [OF k1 handler_keeps_device(2) [OF i1]] by simp
  qed
qed

lemma drain_loop_keeps:
  assumes "sifive_uart_drain_loop dev receive interrupt_pending h k d = Some r"
  shows "in_handler h k \<longrightarrow> (\<forall>k' d'. r = Inr (k', d') \<longrightarrow> handler_keeps h k k')"
proof (rule sifive_uart_drain_loop.raw_induct [where P = "\<lambda>dev receive interrupt_pending h k d r.
      in_handler h k \<longrightarrow> (\<forall>k' d'. r = Inr (k', d') \<longrightarrow> handler_keeps h k k')", OF _ assms], goal_cases)
  case (1 drain_loop dev receive interrupt_pending h k d r)
  show ?case
  proof (intro impI allI)
    fix k' d' assume i: "in_handler h k" and r: "r = Inr (k', d')"
    obtain v d1 where v: "dev interrupt_pending d = (v, d1)" by fastforce
    let ?k1 = "k\<lparr>mmio := load_word interrupt_pending (mmio k)\<rparr>"
    note k1 = handler_keeps_device(1) [OF i, of "load_word interrupt_pending (mmio k)"]
    then have i1: "in_handler h ?k1" by (simp add: handler_keeps_def)
    show "handler_keeps h k k'"
    proof (cases "BIT_GET (ucast v) SIFIVE_UART_INTERRUPT_RECEIVE")
      case True
      then obtain k2 d2 where k2: "sifive_uart_receive dev receive h ?k1 d1 = Inr (k2, d2)"
          "drain_loop dev receive interrupt_pending h k2 d2 = Some r"
        using 1(2) r by (auto simp: sifive_uart_read_register_def v split: sum.splits)
      note keep = receive_keeps [OF i1 k2(1)]
      then have "in_handler h k2" by (simp add: handler_keeps_def)
      then have "handler_keeps h k2 k'" using 1(1) [OF k2(2)] r by blast
      then show ?thesis using handler_keeps_trans [OF handler_keeps_trans [OF k1 keep]] by blast
    next
      case False
      then show ?thesis using 1(2) r k1 by (auto simp: sifive_uart_read_register_def v)
    qed
  qed
qed

lemma external_interrupt_keeps:
  assumes i: "in_handler h k" and run: "handle_external_interrupt board dev claimed h k d = Inr (k', d')"
  shows "handler_keeps h k k'"
proof -
  obtain pointer where pointer: "sifive_plic_claim_register board 1 = Inr pointer"
    using run by (auto simp: handle_external_interrupt_def sifive_plic_claim_def bindr_def split: sum.splits)
  let ?k1 = "k\<lparr>mmio := load_word pointer (mmio k)\<rparr>"
  note k1 = handler_keeps_device(1) [OF i, of "load_word pointer (mmio k)"]
  then have i1: "in_handler h ?k1" by (simp add: handler_keeps_def)
  obtain k2 where k2: "sifive_uart_drain dev board h ?k1 d = Inr (k2, d')"
      "k' = k2\<lparr>mmio := store_word pointer claimed (mmio k2)\<rparr>"
    using run by (auto simp: handle_external_interrupt_def sifive_plic_claim_def sifive_plic_complete_def pointer bindr_def
        split: sum.splits if_splits)
  have "handler_keeps h ?k1 k2"
    using k2(1) drain_loop_keeps [THEN mp, OF _ i1]
    by (fastforce simp: sifive_uart_drain_def bindr_def split: sum.splits option.splits)
  note keep = handler_keeps_trans [OF k1 this]
  then have "in_handler h k2" by (simp add: handler_keeps_def)
  from handler_keeps_trans [OF keep handler_keeps_device(1) [OF this]] show ?thesis unfolding k2(2) .
qed

section \<open>Every branch of the handler\<close>

lemma handler_keeps_then_served:
  assumes "handler_keeps h k k1" and "trap_served h p r k1 k2" and "p < length (processes k1)"
  shows "trap_served h p r k k2"
proof -
  have len: "length (processes k1) = length (processes k)" and o: "others_keep h k k2"
    using assms others_keep_trans map_eq_imp_length_eq [of strip_process "processes k1" strip_process "processes k"]
    unfolding handler_keeps_def trap_served_def by blast+
  have "strip_process (processes k1 ! p) = strip_process (processes k ! p)"
    using assms(1,3) len nth_map [of p _ strip_process] unfolding handler_keeps_def by metis
  then show ?thesis
    using assms(1,2) o by (auto simp: handler_keeps_def trap_served_def strip_process_def split: option.splits)
qed

lemma length_unsigned: "length (radix 10 (unat (w :: u64))) < 2147483648"
proof -
  have "unat w < 10 ^ Suc 19" by (rule order_less_le_trans [OF unsigned_less]) simp
  then show ?thesis using length_radix [of 10 "unat w" 19] by simp
qed

lemma unknown_syscall_keeps:
  assumes "in_handler h k"
    and "frame_regs (hart_frame (my_hart_scratch h k)) a0 \<notin> {SYSCALL_YIELD, SYSCALL_PUTCHAR, SYSCALL_EXIT}"
  shows "\<exists>k'. handle_syscall h k = Inr k' \<and> handler_keeps h k k'"
proof -
  let ?ds = "map Lit (bytes_of ''handle_syscall: ignoring unknown syscall #'') @ [Conv False False False NoWidth 1 ConvUnsigned,
     Lit 40, Conv False False False NoWidth 0 ConvPtr, Lit 41, Lit 10]"
  let ?v = "VWord (frame_regs (hart_frame (my_hart_scratch h k)) a0)"
  have "\<exists>text. format_text ?ds [?v, ?v] = Some (text, [])" by (simp add: bytes_of_def text_bounds length_unsigned)
  then obtain "text" where t: "format_text ?ds [?v, ?v] = Some (text, [])" by blast
  have "\<forall>d\<in>set ?ds. directive_ok d" by (simp add: bytes_of_def)
  moreover have "bytes_of ''handle_syscall: ignoring unknown syscall #%lu(%p)'' @ [10, 0] = format_string ?ds @ [0]"
    by (simp add: format_string_def bytes_of_def)
  ultimately obtain n k' where "kprintf h (bytes_of ''handle_syscall: ignoring unknown syscall #%lu(%p)'' @ [10, 0]) [?v, ?v] k =
      Inr (n, k')" "handler_keeps h k k'"
    using kprintf_keeps [OF assms(1) _ t] by blast
  then show ?thesis using assms(2) by (simp add: handle_syscall_def Let_def)
qed

text \<open>A trap that is not fatal: the handler clears the pending interrupt, then serves the call or the device.\<close>

lemma before_switch_not_fatal:
  assumes r: "trap_ready h k" and cur: "current_process (my_hart_scratch h k) = Some p"
    and nf: "\<not> fatal_trap (kernel_mode h k) True (csrs k h scause)"
  shows "handle_trap_before_switch sy board dev claimed h k d =
     bindr (if csrs k h scause = SCAUSE_ECALL_U_MODE then handle_syscall h (sip_cleared h (entered trap_print_lock h k))
            else Inr (sip_cleared h (entered trap_print_lock h k)))
       (\<lambda>k1. if csrs k h scause = SCAUSE_SUPERVISOR_EXTERNAL_INTERRUPT then handle_external_interrupt board dev claimed h k1 d
             else Inr (k1, d))"
proof -
  have ok: "sched_ok h k" using r by (simp add: trap_ready_def)
  show ?thesis
    using nf by (simp add: handle_trap_before_switch_def Let_def csr_read_def BIT_GET_privilege cur my_pid_current [OF ok cur]
        trap_ready_entered(1) [OF r] flip: sip_cleared_def)
qed

lemma before_switch_panics:
  assumes "current_process (my_hart_scratch h k) = Some p" and "kernel_mode h k" and "fatal_trap True True (csrs k h scause)"
  shows "handle_trap_before_switch sy board dev claimed h k d \<noteq> Inr (k1, d1)"
  using assms
  by (auto simp: handle_trap_before_switch_def Let_def csr_read_def BIT_GET_privilege bindr_def split: sum.splits prod.splits)

lemma user_fatal:
  "\<not> kernel_mode h k \<Longrightarrow> fatal_trap (kernel_mode h k) True (csrs k h scause) \<Longrightarrow>
    ends_process h k \<and> csrs k h scause \<noteq> SCAUSE_ECALL_U_MODE"
  by (auto simp: fatal_trap_def Let_def ends_process_def)

lemma ends_no_effect:
  "ends_process h k \<Longrightarrow>
    trap_effect (kernel_mode h k) (csrs k h scause) (frame_regs (hart_frame (my_hart_scratch h k))) = None"
  by (auto simp: ends_process_def trap_effect_def scause_values split: if_splits)

lemma syscall_served:
  assumes i: "in_handler h k" and cur: "current_process (my_hart_scratch h k) = Some p"
    and "\<not> frame_regs (hart_frame (my_hart_scratch h k)) a0 = SYSCALL_EXIT"
  shows "\<exists>k'. handle_syscall h k = Inr k' \<and>
     trap_served h p (trap_effect False SCAUSE_ECALL_U_MODE (frame_regs (hart_frame (my_hart_scratch h k)))) k k'"
proof -
  let ?regs = "frame_regs (hart_frame (my_hart_scratch h k))"
  consider "?regs a0 = SYSCALL_YIELD" | "?regs a0 = SYSCALL_PUTCHAR"
    | "?regs a0 \<notin> {SYSCALL_YIELD, SYSCALL_PUTCHAR, SYSCALL_EXIT}" using assms(3) by blast
  then show ?thesis
  proof cases
    case 1
    then have "handle_syscall h k = Inr k" by (simp add: handle_syscall_def Let_def)
    moreover have "trap_effect False SCAUSE_ECALL_U_MODE ?regs = Some ?regs"
      using 1 by (simp add: trap_effect_def SYSCALL_EXIT_def SYSCALL_YIELD_def SYSCALL_PUTCHAR_def scause_values)
    ultimately show ?thesis using handler_keeps_served [OF handler_keeps_refl [OF i] cur] by simp
  next
    case 2
    have ok: "sched_ok h k" using i by (simp add: in_handler_def)
    then have "p < length (processes k)"
      using sched_ok_current(1) [OF ok cur] by (simp add: sched_ok_def processes_ok_def maximum_32)
    then have "get_buffer (ProcessBuffer p) k = Inr (proc_buffer (processes k ! p))" by (simp add: get_buffer_def)
    from handle_syscall_putchar [OF i cur 2 this]
    show ?thesis using 2 by (auto simp: trap_effect_def scause_values SYSCALL_EXIT_def SYSCALL_PUTCHAR_def)
  next
    case 3
    then have "trap_effect False SCAUSE_ECALL_U_MODE ?regs = Some ?regs" by (simp add: trap_effect_def scause_values)
    then show ?thesis using unknown_syscall_keeps [OF i 3] handler_keeps_served [OF _ cur] by auto
  qed
qed

text \<open>Whatever the cause: if the handler gets as far as the switch, its effect is the one above.\<close>

theorem any_trap_served:
  assumes r: "trap_ready h k" and cur: "current_process (my_hart_scratch h k) = Some p"
    and run: "handle_trap_before_switch sy board dev claimed h k d = Inr (k1, d1)"
  shows "trap_served h p (trap_effect (kernel_mode h k) (csrs k h scause) (frame_regs (hart_frame (my_hart_scratch h k)))) k k1"
proof (cases "ends_process h k")
  case True
  then show ?thesis
    using before_switch_ends [OF r cur True, of sy board dev claimed d] run ends_no_effect [OF True] by auto
next
  case no_end: False
  let ?c = "csrs k h scause" and ?regs = "frame_regs (hart_frame (my_hart_scratch h k))"
  let ?k4 = "sip_cleared h (entered trap_print_lock h k)"
  have nf: "\<not> fatal_trap (kernel_mode h k) True ?c"
    using no_end user_fatal [of h k] before_switch_panics [OF cur, THEN notE, OF _ _ run] by (cases "kernel_mode h k") auto
  note eq = run [unfolded before_switch_not_fatal [OF r cur nf]]
  note e = trap_ready_entered [OF r]
  have i: "in_handler h ?k4" and cur4: "current_process (my_hart_scratch h ?k4) = Some p"
      and regs4: "frame_regs (hart_frame (my_hart_scratch h ?k4)) = ?regs" using e cur by simp_all
  have keep: "handler_keeps h k ?k4" using e others_keep_sip by (simp add: handler_keeps_def)
  have "sched_ok h ?k4" using i by (simp add: in_handler_def)
  then have p: "p < length (processes ?k4)"
    using sched_ok_current(1) [OF _ cur4] by (simp add: sched_ok_def processes_ok_def maximum_32)
  note via = handler_keeps_then_served [OF keep _ p]
  consider "?c = SCAUSE_ECALL_U_MODE" | "?c = SCAUSE_SUPERVISOR_EXTERNAL_INTERRUPT"
    | "?c \<noteq> SCAUSE_ECALL_U_MODE" "?c \<noteq> SCAUSE_SUPERVISOR_EXTERNAL_INTERRUPT" by blast
  then show ?thesis
  proof cases
    case 1
    have user: "\<not> kernel_mode h k" using nf 1 by (auto simp: fatal_trap_def Let_def scause_values)
    then have "?regs a0 \<noteq> SYSCALL_EXIT" using no_end 1 by (simp add: ends_process_def)
    then obtain k5 where "handle_syscall h ?k4 = Inr k5" "trap_served h p (trap_effect False SCAUSE_ECALL_U_MODE ?regs) ?k4 k5"
      using syscall_served [OF i cur4] regs4 by auto
    then show ?thesis using via eq 1 user by (simp add: scause_values)
  next
    case 2
    then have "handle_external_interrupt board dev claimed h ?k4 d = Inr (k1, d1)" using eq by (simp add: scause_values)
    from handler_keeps_served [OF external_interrupt_keeps [OF i this] cur4]
    show ?thesis using via 2 regs4 by (simp add: trap_effect_def)
  next
    case 3
    then have "k1 = ?k4" using eq by simp
    moreover have "kernel_mode h k \<or> ?c = SCAUSE_SUPERVISOR_TIMER_INTERRUPT"
      using nf 3 by (auto simp: fatal_trap_def Let_def)
    then have "trap_effect (kernel_mode h k) ?c ?regs = Some ?regs" by (auto simp: trap_effect_def)
    ultimately show ?thesis using handler_keeps_served [OF keep cur] by simp
  qed
qed

end
