(* ===== verification/Virtual_Cpu.thy ===== *)
theory Virtual_Cpu
  imports Trap_Effect
begin

text \<open>
  Every process has a processor of its own: its registers and program counter are in a hart while it
  runs and in its slot of the table while it does not.  A switch moves them and changes none but the
  program counter of a user process that it puts back, which is four bytes further on.
\<close>

section \<open>The virtual processor of a process\<close>

record vcpu =
  vcpu_regs :: "reg \<Rightarrow> u64"
  vcpu_pc :: u64
  vcpu_table :: PageTable

definition hart_of :: "nat \<Rightarrow> kernel \<Rightarrow> nat option" where
  "hart_of p k = find (\<lambda>h. current_process (my_hart_scratch h k) = Some p) [0..<length (hart_scratches k)]"

text \<open>
  \<open>live h\<close> is what hart \<open>h\<close> holds.  A process that has not run yet will start at the address in its \<open>ra\<close>,
  with the routine that ends it as its return address.
\<close>

definition vcpu_state :: "Symbols \<Rightarrow> (nat \<Rightarrow> (reg \<Rightarrow> u64) \<times> u64) \<Rightarrow> kernel \<Rightarrow> nat \<Rightarrow> ((reg \<Rightarrow> u64) \<times> u64) option" where
  "vcpu_state sy live k p =
     (let proc = processes k ! p; regs = frame_regs (proc_frame proc) in
      case proc_state proc of
        PROCESS_UNUSED \<Rightarrow> None
      | PROCESS_READY \<Rightarrow> Some (regs(ra := if Process_is_kernel_process proc k then ProcessExit_kernel_addr sy
            else ProcessExit_user_addr sy), regs ra)
      | PROCESS_RUNNABLE \<Rightarrow> Some (regs, frame_pc (proc_frame proc))
      | PROCESS_RUNNING \<Rightarrow> map_option live (hart_of p k))"

definition vcpu_of :: "Symbols \<Rightarrow> (nat \<Rightarrow> (reg \<Rightarrow> u64) \<times> u64) \<Rightarrow> kernel \<Rightarrow> nat \<Rightarrow> vcpu option" where
  "vcpu_of sy live k p =
     (if p < length (processes k)
      then map_option (\<lambda>(regs, pc). \<lparr>vcpu_regs = regs, vcpu_pc = pc, vcpu_table = proc_page_table (processes k ! p)\<rparr>)
             (vcpu_state sy live k p)
      else None)"

text \<open>What is skipped when a process is put back.\<close>

definition vcpu_skip :: "PageTable \<Rightarrow> vcpu \<Rightarrow> vcpu" where
  "vcpu_skip table v = v\<lparr>vcpu_pc := vcpu_pc v + (if vcpu_table v = table then 0 else 4)\<rparr>"

section \<open>When it stays the same\<close>

lemma hart_of_cong:
  assumes "length (hart_scratches k') = length (hart_scratches k)"
    and "\<And>g. g < length (hart_scratches k) \<Longrightarrow>
      (current_process (my_hart_scratch g k') = Some p) = (current_process (my_hart_scratch g k) = Some p)"
  shows "hart_of p k' = hart_of p k"
  using assms by (auto simp: hart_of_def intro!: find_cong)

lemma hart_of_owner:
  assumes "sched_inv (sched_of k)" and "h < length (hart_scratches k)" and "current_process (my_hart_scratch h k) = Some p"
  shows "hart_of p k = Some h"
proof -
  have "g = h" if "g < length (hart_scratches k)" "current_process (my_hart_scratch g k) = Some p" for g
    using sched_invD(3) [OF assms(1), of g p h] owner_current that assms(2,3) by simp
  moreover have "hart_of p k \<noteq> None" using assms(2,3) by (auto simp: hart_of_def find_None_iff)
  ultimately show ?thesis by (auto simp: hart_of_def find_Some_iff)
qed

lemma hart_ofD:
  assumes "hart_of p k = Some h"
  shows "h < length (hart_scratches k)" "current_process (my_hart_scratch h k) = Some p"
  using assms by (auto simp: hart_of_def find_Some_iff)

lemma vcpu_of_cong:
  assumes len: "length (processes k') = length (processes k)" and table: "kernel_table k' = kernel_table k"
    and proc: "p < length (processes k) \<Longrightarrow> strip_process (processes k' ! p) = strip_process (processes k ! p)"
    and hart: "p < length (processes k) \<Longrightarrow> proc_state (processes k ! p) = PROCESS_RUNNING \<Longrightarrow> hart_of p k' = hart_of p k"
    and live: "\<And>g. hart_of p k = Some g \<Longrightarrow> live' g = live g"
  shows "vcpu_of sy live' k' p = vcpu_of sy live k p"
proof (cases "p < length (processes k)")
  case True
  have same: "proc_state (processes k' ! p) = proc_state (processes k ! p)" "proc_frame (processes k' ! p) = proc_frame (processes k ! p)"
      "proc_page_table (processes k' ! p) = proc_page_table (processes k ! p)"
    using proc [OF True] by (simp_all add: strip_process_def)
  have "map_option live' (hart_of p k) = map_option live (hart_of p k)" using live by (cases "hart_of p k") auto
  then have "vcpu_state sy live' k' p = vcpu_state sy live k p"
    using hart [OF True] by (simp add: vcpu_state_def Let_def same Process_is_kernel_process_def table split: ProcessState.split)
  then show ?thesis using True by (simp add: vcpu_of_def len same)
qed (simp add: vcpu_of_def len)

lemma strip_nth:
  assumes "map strip_process ps = map strip_process qs" and "p < length qs"
  shows "strip_process (ps ! p) = strip_process (qs ! p)"
  using assms map_eq_imp_length_eq [OF assms(1)] nth_map [of p _ strip_process] by metis

section \<open>The switch\<close>

definition saved_state :: "TrapFrame \<Rightarrow> (reg \<Rightarrow> u64) \<times> u64" where
  "saved_state f = (frame_regs f, frame_pc f)"

text \<open>Putting the running process back.\<close>

lemma vcpu_before_choice:
  assumes ok: "sched_ok h k" and live: "live h = saved_state (hart_frame (my_hart_scratch h k))"
  shows "vcpu_of sy live (before_choice h k) =
    (case current_process (my_hart_scratch h k) of
       None \<Rightarrow> vcpu_of sy live k
     | Some p \<Rightarrow> (vcpu_of sy live k)(p := map_option (vcpu_skip (kernel_page_table (kernel_table k))) (vcpu_of sy live k p)))"
proof (cases "current_process (my_hart_scratch h k)")
  case (Some p)
  have h: "h < length (hart_scratches k)" and len: "length (processes k) = 32" and inv: "sched_inv (sched_of k)"
    using ok by (simp_all add: sched_ok_def hart_ok_def processes_ok_def maximum_32)
  note p = sched_ok_current [OF ok Some]
  let ?k1 = "before_choice h k"
  have k1: "length (processes ?k1) = length (processes k)" "kernel_table ?k1 = kernel_table k"
      "length (hart_scratches ?k1) = length (hart_scratches k)"
    using others_keepD [OF others_keep_before_choice [of h k]] by simp_all
  have other: "vcpu_of sy live ?k1 q = vcpu_of sy live k q" if "q \<noteq> p" for q
  proof (rule vcpu_of_cong [OF k1(1,2)])
    show "strip_process (processes ?k1 ! q) = strip_process (processes k ! q)"
      using that Some by (simp add: before_choice_def switched_off_def set_scratch_def set_process_def)
    have "(current_process (my_hart_scratch g ?k1) = Some q) = (current_process (my_hart_scratch g k) = Some q)"
      if "g < length (hart_scratches k)" for g
      using that \<open>q \<noteq> p\<close> Some by (cases "g = h")
        (simp_all add: before_choice_def switched_off_def set_scratch_def set_process_def my_hart_scratch_def)
    then show "hart_of q ?k1 = hart_of q k" by (rule hart_of_cong [OF k1(3)])
  qed simp
  have "hart_of p k = Some h" by (rule hart_of_owner [OF inv h Some])
  then have "vcpu_of sy live ?k1 p = map_option (vcpu_skip (kernel_page_table (kernel_table k))) (vcpu_of sy live k p)"
    using Some p(1,2) len
    by (simp add: vcpu_of_def vcpu_state_def Let_def before_choice_def switched_off_def set_scratch_def set_process_def live
        saved_state_def saved_frame_def Process_is_kernel_process_def vcpu_skip_def)
  then show ?thesis using other Some by (auto simp: fun_eq_iff)
qed (simp add: before_choice_def)

text \<open>Loading the chosen one.\<close>

lemma vcpu_switched_on:
  assumes ok: "sched_ok h k" and none: "current_process (my_hart_scratch h k) = None"
    and p: "p < 32" "runnable (processes k ! p)"
    and k': "k' = switched_on sy board (proc_state (processes k ! p) = PROCESS_READY) p h (chosen_state p ib h k)"
    and live: "\<And>g. g \<noteq> h \<Longrightarrow> live' g = live g" "live' h = (frame_regs (hart_frame (my_hart_scratch h k')), csrs k' h sepc)"
  shows "vcpu_of sy live' k' = vcpu_of sy live k"
proof
  fix q
  let ?k2 = "chosen_state p ib h k" and ?first = "proc_state (processes k ! p) = PROCESS_READY"
  have h: "h < length (hart_scratches k)" and len: "length (processes k) = 32"
    using ok by (simp_all add: sched_ok_def hart_ok_def processes_ok_def maximum_32)
  have h2: "h < length (hart_scratches ?k2)" "p < length (processes ?k2)" using h len p(1) by (simp_all add: chosen_state_def)
  note f = switched_on_fields [OF h2, where sy = sy and board = board and first = ?first, folded k']
  have keep: "others_keep h k k'" unfolding k' by (rule others_keep_trans [OF others_keep_chosen others_keep_switched_on])
  note o = others_keepD [OF keep]
  have cur: "current_process (my_hart_scratch h k') = Some p" using h by (simp add: f(1)) (simp add: chosen_state_def my_hart_scratch_def)
  show "vcpu_of sy live' k' q = vcpu_of sy live k q"
  proof (cases "q = p")
    case False
    show ?thesis
    proof (rule vcpu_of_cong [OF o(3,1)])
      show "strip_process (processes k' ! q) = strip_process (processes k ! q)"
        using False by (simp add: f(3)) (simp add: chosen_state_def)
      have "(current_process (my_hart_scratch g k') = Some q) = (current_process (my_hart_scratch g k) = Some q)"
        if "g < length (hart_scratches k)" for g
        using that False none cur o(7) by (cases "g = h") auto
      then show "hart_of q k' = hart_of q k" by (rule hart_of_cong [OF o(2)])
      show "live' g = live g" if "hart_of q k = Some g" for g
        using hart_ofD(2) [OF that] none live(1) [of g] by (cases "g = h") auto
    qed
  next
    case True
    have "sched_ok h k'" unfolding k' by (rule switched_on_ok [OF chosen_state_ok(1) [OF ok none p] p(1)])
    then have hart: "hart_of p k' = Some h"
      using hart_of_owner [of k' h p] cur by (simp add: sched_ok_def hart_ok_def)
    have proc: "processes ?k2 ! p = (processes k ! p)\<lparr>proc_state := PROCESS_RUNNING\<rparr>" "kernel_table ?k2 = kernel_table k"
      using len p(1) by (simp_all add: chosen_state_def)
    have "proc_state (processes k' ! p) = PROCESS_RUNNING" "proc_page_table (processes k' ! p) = proc_page_table (processes k ! p)"
      using h2(2) by (simp_all add: f(3) proc)
    moreover have "p < length (processes k')" using o(3) len p(1) by simp
    ultimately show ?thesis
      using p(2) len p(1) True
      by (auto simp: vcpu_of_def vcpu_state_def Let_def hart live(2) f(1,8) proc loaded_frame_def Process_is_kernel_process_def
          runnable_def)
  qed
qed

lemma vcpu_switch:
  assumes ok: "sched_ok h k" and run: "kernel_switch sy board h k = Inr k'"
    and before: "live h = saved_state (hart_frame (my_hart_scratch h k))"
    and after: "\<And>g. g \<noteq> h \<Longrightarrow> live' g = live g" "live' h = (frame_regs (hart_frame (my_hart_scratch h k')), csrs k' h sepc)"
  shows "vcpu_of sy live' k' =
    (case current_process (my_hart_scratch h k) of
       None \<Rightarrow> vcpu_of sy live k
     | Some p \<Rightarrow> (vcpu_of sy live k)(p := map_option (vcpu_skip (kernel_page_table (kernel_table k))) (vcpu_of sy live k p)))"
proof -
  note b = before_choice_ok [OF ok]
  obtain p where p: "p < 32" "runnable (processes (before_choice h k) ! p)"
      "k' = switched_on sy board (proc_state (processes (before_choice h k) ! p) = PROCESS_READY) p h
        (chosen_state p (lock_flag h (before_choice h k)) h (before_choice h k))"
    using kernel_switch_cases [OF ok, of sy board] run by auto
  show ?thesis
    using vcpu_switched_on [where live = live and live' = live' and sy = sy, OF b(1,2) p after] vcpu_before_choice [where live = live and sy = sy, OF ok before] by simp
qed

section \<open>What is loaded\<close>

lemma switch_loads:
  assumes ok: "sched_ok h k" and run: "kernel_switch sy board h k = Inr k'"
  shows "\<exists>p<32. current_process (my_hart_scratch h k') = Some p \<and>
     frame_satp (hart_frame (my_hart_scratch h k')) = SatpRegister_from_PageTable (proc_page_table (processes k' ! p)) \<and>
     bit (csrs k' h sstatus) SSTATUS_PRIVILEGE = Process_is_kernel_process (processes k' ! p) k' \<and>
     bit (csrs k' h sstatus) SSTATUS_TRAPS_AFTER_SRET"
proof -
  note b = before_choice_ok [OF ok]
  obtain p first ib where p: "p < 32" "k' = switched_on sy board first p h (chosen_state p ib h (before_choice h k))"
    using kernel_switch_cases [OF ok, of sy board] run by auto
  let ?k2 = "chosen_state p ib h (before_choice h k)"
  have h2: "h < length (hart_scratches ?k2)" "p < length (processes ?k2)"
    using b(1) p(1) by (simp_all add: chosen_state_def sched_ok_def hart_ok_def processes_ok_def maximum_32)
  note f = switched_on_fields [OF h2, where sy = sy and board = board and first = first, folded p(2)]
  have "current_process (my_hart_scratch h ?k2) = Some p" using h2(1) by (simp add: chosen_state_def my_hart_scratch_def)
  then show ?thesis
    using p(1) h2(2) by (intro exI [of _ p])
      (simp add: f(1,3,6,9) resume_sstatus_bits loaded_frame_def Process_is_kernel_process_def)
qed

end
