(* ===== verification/Kernel_System.thy ===== *)
theory Kernel_System
  imports Virtual_Cpu Translation
begin

text \<open>
  The whole system: harts that run processes, take traps, end processes and enter new ones, in any order.
  Its invariant, and that it refines one virtual processor per process: whatever the harts do in between,
  a process sees its own steps and no others.
\<close>

section \<open>The system and its steps\<close>

record system =
  cpus :: "nat \<Rightarrow> cpu"
  kern :: kernel

text \<open>
  What happens to a process: it computes, which leaves its hart with other registers, a user process stores a word at a
  virtual address, it traps, with the cause and the value that the hardware reports, or, for a kernel process, it
  returns to \<open>ProcessExit_kernel\<close>.
\<close>

datatype event = Computes "reg \<Rightarrow> u64" u64 | Stores u64 u64 | Traps u64 u64 | Exits

definition set_hart :: "nat \<Rightarrow> cpu \<Rightarrow> kernel \<Rightarrow> system \<Rightarrow> system" where
  "set_hart h c k S = S\<lparr>cpus := (cpus S)(h := c), kern := k\<rparr>"

definition set_memory :: "addr \<Rightarrow> u64 \<Rightarrow> system \<Rightarrow> system" where
  "set_memory a w S = S\<lparr>kern := (kern S)\<lparr>vm := (vm (kern S))\<lparr>mem := (mem (vm (kern S)))(a := w)\<rparr>\<rparr>\<rparr>"

text \<open>Where a store of a hart in user mode goes: what the translation of its address space says, if that lets user mode write.\<close>

definition user_store :: "system \<Rightarrow> nat \<Rightarrow> addr \<Rightarrow> addr option" where
  "user_store S h x =
     (case sv39_translate (mem (vm (kern S))) (csrs (kern S) h satp) x of None \<Rightarrow> None
      | Some (pa, f) \<Rightarrow> if \<not> cpu_supervisor (cpus S h) \<and> flag_user f \<and> flag_write f \<and> is_aligned x 8 then Some pa else None)"

definition runs :: "system \<Rightarrow> nat \<Rightarrow> nat \<Rightarrow> bool" where
  "runs S h p \<longleftrightarrow> h < length (hart_scratches (kern S)) \<and> current_process (my_hart_scratch h (kern S)) = Some p"

text \<open>
  A store to a part of a word gives that word another value, so that aligned words are all there is to store. The handler
  of a trap is one step, since each holds the lock of the handlers from its start to its end.
  The registers that the handler leaves behind, the answers of the devices and their state are arbitrary.  The
  last rule is a hart that has booted or has no process, and goes to the first one that it finds.
\<close>

inductive system_step ::
    "Symbols \<Rightarrow> Board \<Rightarrow> 'd device \<Rightarrow> system \<Rightarrow> (nat \<times> event) option \<Rightarrow> system \<Rightarrow> bool" for sy board dev where
  computes: "runs S h p \<Longrightarrow>
    system_step sy board dev S (Some (p, Computes regs pc))
      (set_hart h ((cpus S h)\<lparr>cpu_reg := regs, cpu_pc := pc\<rparr>) (kern S) S)"
| stores: "runs S h p \<Longrightarrow> user_store S h x = Some a \<Longrightarrow>
    system_step sy board dev S (Some (p, Stores x w)) (set_memory a w S)"
| traps: "runs S h p \<Longrightarrow>
    trap_cycle sy board dev claimed left_over h (fst (take_trap cause tval h (cpus S h) (kern S)))
      (snd (take_trap cause tval h (cpus S h) (kern S))) d = Inr (c, k, d') \<Longrightarrow>
    system_step sy board dev S (Some (p, Traps cause tval)) (set_hart h c k S)"
| exits: "runs S h p \<Longrightarrow> Process_is_kernel_process (processes (kern S) ! p) (kern S) \<Longrightarrow>
    ProcessExit_kernel sy board left_over h (cpus S h) (kern S) = Inr (c, k) \<Longrightarrow>
    system_step sy board dev S (Some (p, Exits)) (set_hart h c k S)"
| enters: "h < length (hart_scratches (kern S)) \<Longrightarrow> current_process (my_hart_scratch h (kern S)) = None \<Longrightarrow>
    csrs (kern S) h sscratch = hart_scratch_addr sy h \<Longrightarrow> \<not> traps_enabled h (kern S) \<Longrightarrow>
    jump_into_processes sy board left_over h (cpus S h) (kern S) = Inr (c, k) \<Longrightarrow>
    system_step sy board dev S None (set_hart h c k S)"

inductive system_run ::
    "Symbols \<Rightarrow> Board \<Rightarrow> 'd device \<Rightarrow> system \<Rightarrow> (nat \<times> event) option list \<Rightarrow> system \<Rightarrow> bool" for sy board dev where
  stop: "system_run sy board dev S [] S"
| go: "system_step sy board dev S e S1 \<Longrightarrow> system_run sy board dev S1 es S2 \<Longrightarrow> system_run sy board dev S (e # es) S2"

inductive_cases system_stepE: "system_step sy board dev S e S'"
inductive_cases system_run_NilE: "system_run sy board dev S [] S'"
inductive_cases system_run_ConsE: "system_run sy board dev S (e # es) S'"

section \<open>The invariant\<close>

text \<open>
  The kernel is between its critical sections, and every hart with a process is ready to trap, is in the
  address space of that process, in the mode of its kind, and can be interrupted.
\<close>

definition hart_in_process :: "Symbols \<Rightarrow> (nat \<Rightarrow> cpu) \<Rightarrow> nat \<Rightarrow> nat \<Rightarrow> kernel \<Rightarrow> bool" where
  "hart_in_process sy cs h p k \<longleftrightarrow> csrs k h sscratch = hart_scratch_addr sy h \<and> traps_enabled h k \<and>
     csrs k h satp = SatpRegister_from_PageTable (proc_page_table (processes k ! p)) \<and>
     cpu_supervisor (cs h) = Process_is_kernel_process (processes k ! p) k"

definition kernel_idle :: "kernel \<Rightarrow> bool" where
  "kernel_idle k \<longleftrightarrow> processes_ok k \<and> sched_inv (sched_of k) \<and> buffers_ok k \<and> locked (locks k processes_lock) = 0 \<and>
     locked (locks k trap_print_lock) = 0 \<and> locked (locks k io_spinlock) = 0"

definition system_ok :: "Symbols \<Rightarrow> system \<Rightarrow> bool" where
  "system_ok sy S \<longleftrightarrow> kernel_idle (kern S) \<and> (\<forall>p<PROCESSES_MAXIMUM. process_pointer sy (Some p) \<noteq> 0) \<and>
     (\<forall>h<length (hart_scratches (kern S)). lock_depth (my_hart_scratch h (kern S)) = 0 \<and>
        (\<forall>p. current_process (my_hart_scratch h (kern S)) = Some p \<longrightarrow> hart_in_process sy (cpus S) h p (kern S)))"

lemma system_okD:
  assumes "system_ok sy S"
  shows "kernel_idle (kern S)" "p < 32 \<Longrightarrow> process_pointer sy (Some p) \<noteq> 0"
    "h < length (hart_scratches (kern S)) \<Longrightarrow> lock_depth (my_hart_scratch h (kern S)) = 0"
    "h < length (hart_scratches (kern S)) \<Longrightarrow> current_process (my_hart_scratch h (kern S)) = Some p \<Longrightarrow>
      hart_in_process sy (cpus S) h p (kern S)"
  using assms by (simp_all add: system_ok_def maximum_32)

lemma runsD:
  assumes "system_ok sy S" and "runs S h p"
  shows "h < length (hart_scratches (kern S))" "current_process (my_hart_scratch h (kern S)) = Some p"
    "sched_ok h (kern S)" "p < 32" "proc_state (processes (kern S) ! p) = PROCESS_RUNNING"
    "hart_in_process sy (cpus S) h p (kern S)" "hart_running sy h (kern S)"
proof -
  show h: "h < length (hart_scratches (kern S))" and cur: "current_process (my_hart_scratch h (kern S)) = Some p"
    using assms(2) by (simp_all add: runs_def)
  show in_p: "hart_in_process sy (cpus S) h p (kern S)" using system_okD(4) [OF assms(1) h cur] .
  show ok: "sched_ok h (kern S)"
    using system_okD(1) [OF assms(1)] system_okD(3) [OF assms(1) h] h
    by (simp add: sched_ok_def hart_ok_def kernel_idle_def)
  show p: "p < 32" "proc_state (processes (kern S) ! p) = PROCESS_RUNNING" using sched_ok_current [OF ok cur] by blast+
  show "hart_running sy h (kern S)"
    using ok in_p system_okD(1) [OF assms(1)] system_okD(3) [OF assms(1) h] system_okD(2) [OF assms(1) p(1)] h cur
    by (simp add: hart_running_def scratch_ok_def hart_in_process_def kernel_idle_def)
qed

section \<open>The hart goes back to a process\<close>

definition loaded :: "nat \<Rightarrow> kernel \<Rightarrow> bool" where
  "loaded h k \<longleftrightarrow> (\<exists>p<32. current_process (my_hart_scratch h k) = Some p \<and>
     frame_satp (hart_frame (my_hart_scratch h k)) = SatpRegister_from_PageTable (proc_page_table (processes k ! p)) \<and>
     bit (csrs k h sstatus) SSTATUS_PRIVILEGE = Process_is_kernel_process (processes k ! p) k \<and>
     bit (csrs k h sstatus) SSTATUS_TRAPS_AFTER_SRET)"

lemma vcpu_of_update_csrs [simp]: "vcpu_of sy live (k\<lparr>csrs := c\<rparr>) = vcpu_of sy live k"
  by (rule ext, rule vcpu_of_cong) (auto intro!: hart_of_cong simp: my_hart_scratch_def)

text \<open>The end of every entry into the kernel, from the state after the switch.\<close>

lemma resumed:
  assumes ok: "system_ok sy S" and keep: "others_keep h (kern S) k" and ready: "trap_ready h k" and loaded: "loaded h k"
    and scr: "csrs (kern S) h sscratch = hart_scratch_addr sy h" and leave: "leave_kernel sy h left_over k = Inr (c, k')"
  shows "system_ok sy (set_hart h c k' S)" "cpu_reg c = frame_regs (hart_frame (my_hart_scratch h k))" "cpu_pc c = csrs k h sepc"
    "vcpu_of sy live k' = vcpu_of sy live k" "kernel_table k' = kernel_table (kern S)" "vm k' = vm (kern S)"
proof -
  note o = others_keepD [OF keep]
  have "csrs k h sscratch = hart_scratch_addr sy h" using o(4) scr by simp
  from leave_kernel_ok [OF this, of left_over] leave have
    l: "c = \<lparr>cpu_reg = frame_regs (hart_frame (my_hart_scratch h k)), cpu_pc = csrs k h sepc,
          cpu_supervisor = bit (csrs k h sstatus) SSTATUS_PRIVILEGE\<rparr>"
      "csrs k' h satp = frame_satp (hart_frame (my_hart_scratch h k))"
      "traps_enabled h k' = bit (csrs k h sstatus) SSTATUS_TRAPS_AFTER_SRET" "csrs k' h sscratch = csrs k h sscratch"
      "k' = k\<lparr>csrs := csrs k'\<rparr>" "\<And>g. g \<noteq> h \<Longrightarrow> csrs k' g = csrs k g" by auto
  have same: "hart_scratches k' = hart_scratches k" "processes k' = processes k" "locks k' = locks k"
      "kernel_table k' = kernel_table k" "sched_of k' = sched_of k" "vm k' = vm k"
    by (subst l(5), simp)+
  have hs: "my_hart_scratch g k' = my_hart_scratch g k" for g by (simp add: my_hart_scratch_def same)
  show "cpu_reg c = frame_regs (hart_frame (my_hart_scratch h k))" "cpu_pc c = csrs k h sepc" by (simp_all add: l(1))
  show "vcpu_of sy live k' = vcpu_of sy live k" by (subst l(5)) simp
  show table: "kernel_table k' = kernel_table (kern S)" by (simp add: same o(1))
  show "vm k' = vm (kern S)" by (simp add: same o(9))
  have idle: "kernel_idle k'"
    using ready by (simp add: kernel_idle_def trap_ready_def sched_ok_def processes_ok_def buffers_ok_def same)
  have other: "lock_depth (my_hart_scratch g k') = 0 \<and>
      (\<forall>p. current_process (my_hart_scratch g k') = Some p \<longrightarrow> hart_in_process sy ((cpus S)(h := c)) g p k')"
    if g: "g < length (hart_scratches k')" "g \<noteq> h" for g
  proof -
    have g': "g < length (hart_scratches (kern S))" using g(1) by (simp add: same o(2))
    have "hart_in_process sy ((cpus S)(h := c)) g p k'" if "current_process (my_hart_scratch g k') = Some p" for p
    proof -
      have cur: "current_process (my_hart_scratch g (kern S)) = Some p" using that o(7) [OF g(2) g'] by (simp add: hs)
      then have "p < 32" using runsD(4) [OF ok] g' by (simp add: runs_def)
      then have "proc_page_table (processes k' ! p) = proc_page_table (processes (kern S) ! p)"
        using o(5) system_okD(1) [OF ok] by (simp add: same kernel_idle_def processes_ok_def maximum_32)
      then show ?thesis
        using system_okD(4) [OF ok g' cur] g(2) l(6) [OF g(2)] o(6) [OF g(2)]
        by (simp add: hart_in_process_def traps_enabled_def Process_is_kernel_process_def table)
    qed
    then show ?thesis using system_okD(3) [OF ok g'] o(8) [OF g(2) g'] by (simp add: hs)
  qed
  obtain p where p: "current_process (my_hart_scratch h k) = Some p"
      "frame_satp (hart_frame (my_hart_scratch h k)) = SatpRegister_from_PageTable (proc_page_table (processes k ! p))"
      "bit (csrs k h sstatus) SSTATUS_PRIVILEGE = Process_is_kernel_process (processes k ! p) k"
      "bit (csrs k h sstatus) SSTATUS_TRAPS_AFTER_SRET" using loaded by (auto simp: loaded_def)
  have "hart_in_process sy ((cpus S)(h := c)) h p k'"
    using l(2-4) p o(4) scr by (simp add: hart_in_process_def same Process_is_kernel_process_def) (simp add: l(1))
  moreover have "lock_depth (my_hart_scratch h k') = 0" using ready by (simp add: trap_ready_def hs)
  moreover have "current_process (my_hart_scratch h k') = Some p" by (simp add: hs p(1))
  ultimately have "lock_depth (my_hart_scratch g k') = 0 \<and>
      (\<forall>p. current_process (my_hart_scratch g k') = Some p \<longrightarrow> hart_in_process sy ((cpus S)(h := c)) g p k')"
    if "g < length (hart_scratches k')" for g
    using other [OF that] by (cases "g = h") simp_all
  then show "system_ok sy (set_hart h c k' S)" using idle ok by (simp add: system_ok_def set_hart_def)
qed


section \<open>The virtual processors\<close>

definition live_of :: "system \<Rightarrow> nat \<Rightarrow> (reg \<Rightarrow> u64) \<times> u64" where
  "live_of S h = (cpu_reg (cpus S h), cpu_pc (cpus S h))"

definition virtual :: "Symbols \<Rightarrow> system \<Rightarrow> nat \<Rightarrow> vcpu option" where
  "virtual sy S = vcpu_of sy (live_of S) (kern S)"

text \<open>The step of one virtual processor, of a process whose page table is the kernel's or not.\<close>

definition vcpu_trap :: "PageTable \<Rightarrow> u64 \<Rightarrow> vcpu \<Rightarrow> vcpu option" where
  "vcpu_trap table cause v =
     map_option (\<lambda>regs. vcpu_skip table (v\<lparr>vcpu_regs := regs\<rparr>)) (trap_effect (vcpu_table v = table) cause (vcpu_regs v))"

fun vcpu_step :: "PageTable \<Rightarrow> event \<Rightarrow> vcpu \<Rightarrow> vcpu option" where
  "vcpu_step table (Computes regs pc) v = Some (v\<lparr>vcpu_regs := regs, vcpu_pc := pc\<rparr>)"
| "vcpu_step table (Stores x w) v = Some v"
| "vcpu_step table (Traps cause tval) v = vcpu_trap table cause v"
| "vcpu_step table Exits v = None"

fun vcpu_run :: "PageTable \<Rightarrow> event list \<Rightarrow> vcpu option \<Rightarrow> vcpu option" where
  "vcpu_run table [] v = v"
| "vcpu_run table (e # es) v = vcpu_run table es (Option.bind v (vcpu_step table e))"

text \<open>The events of one process in a run.\<close>

definition events_of :: "nat \<Rightarrow> (nat \<times> event) option list \<Rightarrow> event list" where
  "events_of p es = map snd (filter (\<lambda>(q, e). q = p) (List.map_filter id es))"

definition own_table :: "system \<Rightarrow> PageTable" where
  "own_table S = kernel_page_table (kernel_table (kern S))"

text \<open>A process that a hart runs has the registers and the program counter of that hart.\<close>

lemma virtual_running:
  assumes "system_ok sy S" and "runs S h p"
  shows "virtual sy S p = Some \<lparr>vcpu_regs = cpu_reg (cpus S h), vcpu_pc = cpu_pc (cpus S h),
     vcpu_table = proc_page_table (processes (kern S) ! p)\<rparr>"
proof -
  note r = runsD [OF assms]
  have "hart_of p (kern S) = Some h" using hart_of_owner [OF _ r(1,2)] r(3) by (simp add: sched_ok_def)
  moreover have "p < length (processes (kern S))" using r(3,4) by (simp add: sched_ok_def processes_ok_def maximum_32)
  ultimately show ?thesis using r(5) by (simp add: virtual_def vcpu_of_def vcpu_state_def live_of_def)
qed

section \<open>A step, seen by the processes\<close>

lemma trap_ready_switch:
  assumes "trap_ready h k" and "kernel_switch sy board h k = Inr k'"
  shows "trap_ready h k'" "loaded h k'" "others_keep h k k'"
proof -
  have ok: "sched_ok h k" using assms(1) by (simp add: trap_ready_def)
  show "trap_ready h k'" using assms(1) kernel_switch_keeps(1,3,4,5,9) [OF ok assms(2)] by (simp add: trap_ready_def)
  show "loaded h k'" unfolding loaded_def by (rule switch_loads [OF ok assms(2)])
  show "others_keep h k k'" by (rule others_keep_switch [OF ok assms(2)])
qed

text \<open>\<open>jump_into_processes\<close>, of a hart that has no process.\<close>

lemma jump_resumes:
  assumes ok: "system_ok sy S" and keep: "others_keep h (kern S) k" and ready: "trap_ready h k"
    and scr: "csrs (kern S) h sscratch = hart_scratch_addr sy h" and none: "current_process (my_hart_scratch h k) = None"
    and jump: "jump_into_processes sy board left_over h c0 k = Inr (c, k')"
  shows "system_ok sy (set_hart h c k' S)" "virtual sy (set_hart h c k' S) = vcpu_of sy (live_of S) k"
    "kernel_table k' = kernel_table (kern S)" "vm k' = vm (kern S)"
proof -
  have reset: "\<exists>c1. exec sy h reset_stack c0 k = Inr (c1, k)" by (simp add: reset_stack_def csr_read_def)
  then obtain k2 where k2: "kernel_switch sy board h k = Inr k2" "leave_kernel sy h left_over k2 = Inr (c, k')"
    using jump by (auto simp: jump_into_processes_def bindr_def split: sum.splits)
  note sw = trap_ready_switch [OF ready k2(1)]
  note res = resumed [OF ok others_keep_trans [OF keep sw(3)] sw(1,2) scr k2(2)]
  show "system_ok sy (set_hart h c k' S)" "kernel_table k' = kernel_table (kern S)" "vm k' = vm (kern S)"
    by (rule res(1), rule res(5), rule res(6))
  have ok': "sched_ok h k" using ready by (simp add: trap_ready_def)
  let ?live = "(live_of S)(h := saved_state (hart_frame (my_hart_scratch h k)))"
  have "vcpu_of sy (live_of (set_hart h c k' S)) k2 = vcpu_of sy ?live k"
    by (subst vcpu_switch [OF ok' k2(1), where live = ?live]) (simp_all add: live_of_def set_hart_def res(2,3) none)
  also have "\<dots> = vcpu_of sy (live_of S) k"
    by (rule ext, rule vcpu_of_cong) (use none hart_ofD(2) [of _ k h] in auto)
  finally show "virtual sy (set_hart h c k' S) = vcpu_of sy (live_of S) k" by (simp add: virtual_def res(4)) (simp add: set_hart_def res(4))
qed

text \<open>A trap up to the switch.\<close>

lemma served_vcpu:
  assumes served: "trap_served h p r k k1" and ok: "sched_ok h k" and cur: "current_process (my_hart_scratch h k) = Some p"
    and live: "live h = saved_state (hart_frame (my_hart_scratch h k))"
    and live1: "live1 = live(h := saved_state (hart_frame (my_hart_scratch h k1)))"
  shows "vcpu_of sy live1 k1 =
    (vcpu_of sy live k)(p := Option.bind (vcpu_of sy live k p) (\<lambda>v. map_option (\<lambda>regs. v\<lparr>vcpu_regs := regs\<rparr>) r))"
proof -
  have keep: "others_keep h k k1" and in1: "in_handler h k1" using served by (simp_all add: trap_served_def)
  note o = others_keepD [OF keep]
  have h: "h < length (hart_scratches k)" and len: "length (processes k) = 32" and inv: "sched_inv (sched_of k)"
    using ok by (simp_all add: sched_ok_def hart_ok_def processes_ok_def maximum_32)
  note p = sched_ok_current [OF ok cur]
  have cur1: "current_process (my_hart_scratch h k1) = (if r = None then None else Some p)"
    using served by (auto simp: trap_served_def split: option.splits)
  have "vcpu_of sy live1 k1 q = vcpu_of sy live k q" if "q \<noteq> p" for q
  proof (rule vcpu_of_cong [OF o(3,1)])
    assume q: "q < length (processes k)"
    have "map strip_process (processes k1) ! q = map strip_process (processes k) ! q"
      using served that by (auto simp: trap_served_def split: option.splits)
    then show "strip_process (processes k1 ! q) = strip_process (processes k ! q)" using q o(3) by simp
    have "(current_process (my_hart_scratch g k1) = Some q) = (current_process (my_hart_scratch g k) = Some q)"
      if "g < length (hart_scratches k)" for g
      using that \<open>q \<noteq> p\<close> cur cur1 o(7) by (cases "g = h") auto
    then show "hart_of q k1 = hart_of q k" by (rule hart_of_cong [OF o(2)])
  next
    show "live1 g = live g" if "hart_of q k = Some g" for g
      using hart_ofD(2) [OF that] cur \<open>q \<noteq> p\<close> by (cases "g = h") (auto simp: live1)
  qed
  moreover have "vcpu_of sy live1 k1 p =
      Option.bind (vcpu_of sy live k p) (\<lambda>v. map_option (\<lambda>regs. v\<lparr>vcpu_regs := regs\<rparr>) r)"
  proof -
    have before: "vcpu_of sy live k p = Some \<lparr>vcpu_regs = frame_regs (hart_frame (my_hart_scratch h k)),
        vcpu_pc = frame_pc (hart_frame (my_hart_scratch h k)), vcpu_table = proc_page_table (processes k ! p)\<rparr>"
      using p len by (simp add: vcpu_of_def vcpu_state_def hart_of_owner [OF inv h cur] live saved_state_def)
    have "map strip_process (processes k1) ! p = strip_process (processes k1 ! p)" using p(1) len o(3) by simp
    then have strip: "strip_process (processes k1 ! p) = (if r = None
        then strip_process ((processes k ! p)\<lparr>proc_id := - 1, proc_state := PROCESS_UNUSED\<rparr>) else strip_process (processes k ! p))"
      using served p(1) len by (auto simp: trap_served_def split: option.splits)
    show ?thesis
    proof (cases r)
      case None
      then have "proc_state (processes k1 ! p) = PROCESS_UNUSED" using strip by (simp add: strip_process_def)
      then show ?thesis by (simp add: before None) (simp add: vcpu_of_def vcpu_state_def)
    next
      case (Some regs)
      then have st: "proc_state (processes k1 ! p) = PROCESS_RUNNING" "proc_page_table (processes k1 ! p) = proc_page_table (processes k ! p)"
        using strip p(2) by (simp_all add: strip_process_def)
      have frame: "hart_frame (my_hart_scratch h k1) = (hart_frame (my_hart_scratch h k))\<lparr>frame_regs := regs\<rparr>"
        using served Some by (simp add: trap_served_def)
      have "hart_of p k1 = Some h"
        using hart_of_owner [of k1 h p] in1 cur1 Some by (simp add: in_handler_def sched_ok_def hart_ok_def)
      then have "vcpu_of sy live1 k1 p = Some \<lparr>vcpu_regs = regs, vcpu_pc = frame_pc (hart_frame (my_hart_scratch h k)),
          vcpu_table = proc_page_table (processes k ! p)\<rparr>"
        using st p(1) len o(3) by (simp add: vcpu_of_def vcpu_state_def live1 saved_state_def frame)
      then show ?thesis by (simp add: before Some)
    qed
  qed
  ultimately show ?thesis by (auto simp: fun_eq_iff)
qed

lemma others_keep_at_handler: "others_keep h k (at_handler cause tval h c k)"
proof -
  have "others_keep h k (snd (take_trap cause tval h c k))"
    by (rule others_keepI [where hs = "my_hart_scratch h k"]) (simp_all add: take_trap_def my_hart_scratch_def)
  then show ?thesis unfolding at_handler_def by (rule others_keep_trans [OF _ others_keep_trapped])
qed

text \<open>A whole trap.\<close>

lemma trap_steps:
  assumes ok: "system_ok sy S" and run: "runs S h p"
    and cycle: "trap_cycle sy board dev claimed left_over h (fst (take_trap cause tval h (cpus S h) (kern S)))
      (snd (take_trap cause tval h (cpus S h) (kern S))) d = Inr (c, k, d')"
  shows "system_ok sy (set_hart h c k S)" "kernel_table k = kernel_table (kern S)" "vm k = vm (kern S)"
    "virtual sy (set_hart h c k S) = (virtual sy S)(p := Option.bind (virtual sy S p) (vcpu_trap (own_table S) cause))"
proof -
  note r = runsD [OF ok run]
  let ?K = "at_handler cause tval h (cpus S h) (kern S)"
  note a = at_handler_ok [OF r(7), of cause tval "cpus S h"]
  note o = others_keepD [OF others_keep_at_handler [of h "kern S" cause tval "cpus S h"]]
  have cur: "current_process (my_hart_scratch h ?K) = Some p" using a(9) r(2) by simp
  have okK: "sched_ok h ?K" using a(2) by (simp add: trap_ready_def)
  obtain c1 where "exec sy h trap_vector (fst (take_trap cause tval h (cpus S h) (kern S)))
      (snd (take_trap cause tval h (cpus S h) (kern S))) = Inr (c1, ?K)" using a(1) by blast
  then obtain k3 d3 where h3: "handle_trap sy board dev claimed h ?K d = Inr (k3, d3)" and leave: "leave_kernel sy h left_over k3 = Inr (c, k)"
    using cycle by (auto simp: trap_cycle_def bindr_def split: sum.splits)
  then obtain k1 d1 where k1: "handle_trap_before_switch sy board dev claimed h ?K d = Inr (k1, d1)"
    by (auto simp: handle_trap_def bindr_def split: sum.splits)
  let ?r = "trap_effect (cpu_supervisor (cpus S h)) cause (cpu_reg (cpus S h))"
  have served: "trap_served h p ?r ?K k1" using any_trap_served [OF a(2) cur k1] by (simp add: a(3,4,7))
  then have in1: "in_handler h k1" and keep1: "others_keep h ?K k1" by (simp_all add: trap_served_def)
  then have ok1: "sched_ok h k1" by (simp add: in_handler_def)
  obtain k2 where k2: "kernel_switch sy board h k1 = Inr k2" "trap_ready h k3" "k3 = k2\<lparr>locks := locks k3, hart_scratches := hart_scratches k3\<rparr>"
      "hart_frame (my_hart_scratch h k3) = hart_frame (my_hart_scratch h k2)"
      "current_process (my_hart_scratch h k3) = current_process (my_hart_scratch h k2)" "others_keep h k1 k3"
    using handle_trap_end [OF k1 in1] h3 by auto
  have same: "processes k3 = processes k2" "csrs k3 = csrs k2" "kernel_table k3 = kernel_table k2"
    by (subst k2(3), simp)+
  have "loaded h k3" using switch_loads [OF ok1 k2(1)]
    by (simp add: loaded_def k2(4,5) same Process_is_kernel_process_def)
  have scr: "csrs (kern S) h sscratch = hart_scratch_addr sy h" using r(6) by (simp add: hart_in_process_def)
  note res = resumed [OF ok others_keep_trans [OF others_keep_at_handler others_keep_trans [OF keep1 k2(6)]] k2(2) \<open>loaded h k3\<close> scr leave]
  show "system_ok sy (set_hart h c k S)" "kernel_table k = kernel_table (kern S)" "vm k = vm (kern S)"
    by (rule res(1), rule res(5), rule res(6))
  let ?S = "set_hart h c k S"
  let ?live = "(live_of S)(h := saved_state (hart_frame (my_hart_scratch h k1)))"
  have "(current_process (my_hart_scratch g ?K) = Some q) = (current_process (my_hart_scratch g (kern S)) = Some q)"
    if "g < length (hart_scratches (kern S))" for g q
    using that a(9) o(7) by (cases "g = h") simp_all
  then have start: "vcpu_of sy (live_of S) ?K = virtual sy S"
    unfolding virtual_def by (intro ext vcpu_of_cong hart_of_cong) (simp_all add: a o)
  have "live_of S h = saved_state (hart_frame (my_hart_scratch h ?K))" by (simp add: live_of_def saved_state_def a(7,8))
  note mid = served_vcpu [where live = "live_of S" and sy = sy, OF served okK cur this refl, unfolded start]
  have live: "\<And>g. g \<noteq> h \<Longrightarrow> live_of ?S g = ?live g" "live_of ?S h = (frame_regs (hart_frame (my_hart_scratch h k2)), csrs k2 h sepc)"
    by (simp_all add: live_of_def set_hart_def res(2,3) k2(4) same)
  have table: "kernel_page_table (kernel_table k1) = own_table S" using others_keepD(1) [OF keep1] by (simp add: own_table_def o(1))
  have sw: "vcpu_of sy (live_of ?S) k2 = (case current_process (my_hart_scratch h k1) of None \<Rightarrow> vcpu_of sy ?live k1
      | Some p \<Rightarrow> (vcpu_of sy ?live k1)(p := map_option (vcpu_skip (own_table S)) (vcpu_of sy ?live k1 p)))"
    by (subst vcpu_switch [OF ok1 k2(1), where live = ?live and live' = "live_of ?S"])
      (use live in \<open>simp_all add: table cong: option.case_cong\<close>)
  have "(current_process (my_hart_scratch g k3) = Some q) = (current_process (my_hart_scratch g k2) = Some q)"
    if "g < length (hart_scratches k2)" for g q
    using that k2(5) others_keepD(2,7) [OF k2(6)] others_keepD(2,7) [OF others_keep_switch [OF ok1 k2(1)]]
    by (cases "g = h") simp_all
  then have "vcpu_of sy (live_of ?S) k3 = vcpu_of sy (live_of ?S) k2"
    using others_keepD(2) [OF k2(6)] others_keepD(2) [OF others_keep_switch [OF ok1 k2(1)]]
    by (intro ext vcpu_of_cong hart_of_cong) (simp_all add: same)
  then have final: "virtual sy ?S = vcpu_of sy (live_of ?S) k2" by (simp add: virtual_def set_hart_def res(4))
  have cur1: "current_process (my_hart_scratch h k1) = (if ?r = None then None else Some p)"
    using served by (auto simp: trap_served_def split: option.splits)
  have "cpu_supervisor (cpus S h) = (proc_page_table (processes (kern S) ! p) = own_table S)"
    using r(6) by (simp add: hart_in_process_def Process_is_kernel_process_def own_table_def)
  then show "virtual sy ?S = (virtual sy S)(p := Option.bind (virtual sy S p) (vcpu_trap (own_table S) cause))"
    unfolding final sw mid cur1 by (cases ?r) (simp_all add: virtual_running [OF ok run] vcpu_trap_def)
qed

text \<open>The exit of a kernel process.\<close>

lemma exit_steps:
  assumes ok: "system_ok sy S" and run: "runs S h p"
    and exit: "ProcessExit_kernel sy board left_over h (cpus S h) (kern S) = Inr (c, k)"
  shows "system_ok sy (set_hart h c k S)" "kernel_table k = kernel_table (kern S)" "vm k = vm (kern S)"
    "virtual sy (set_hart h c k S) = (virtual sy S)(p := None)"
proof -
  note r = runsD [OF ok run]
  define k1 where "k1 = snd (disable_traps_now h (kern S))"
  have k1: "k1 = (kern S)\<lparr>csrs := csrs k1\<rparr>" "\<not> traps_enabled h k1" "\<And>g. g \<noteq> h \<Longrightarrow> csrs k1 g = csrs (kern S) g"
      "csrs k1 h sscratch = csrs (kern S) h sscratch"
    by (simp_all add: k1_def disable_traps_now_def csr_clear_mask_def traps_enabled_def BIT_TO_INT_def bit_simps)
  let ?k2 = "destroyed p (lock_flag h k1) h k1"
  have same: "hart_scratches k1 = hart_scratches (kern S)" "processes k1 = processes (kern S)" "locks k1 = locks (kern S)"
      "kernel_table k1 = kernel_table (kern S)" "vm k1 = vm (kern S)" "sched_of k1 = sched_of (kern S)"
    by (subst k1(1), simp)+
  have hs: "my_hart_scratch g k1 = my_hart_scratch g (kern S)" for g by (simp add: my_hart_scratch_def same)
  have "sched_ok h k1" using r(3) k1(2) by (simp add: sched_ok_def hart_ok_def processes_ok_def same hs)
  have cur: "current_process (my_hart_scratch h k1) = Some p" by (simp add: hs r(2))
  note d = destroyed_ok [OF \<open>sched_ok h k1\<close> cur, of "lock_flag h k1"]
  have h: "h < length (hart_scratches k1)" using r(1) by (simp add: same)
  have m: "my_hart_scratch h ?k2 = (my_hart_scratch h k1)\<lparr>interrupts_before_locking := lock_flag h k1, current_process := None\<rparr>"
    using h by (simp add: destroyed_def my_hart_scratch_def)
  have "buffers_ok k1" using system_okD(1) [OF ok] by (simp add: kernel_idle_def buffers_ok_def same)
  then have ready: "trap_ready h ?k2"
    using d k1(2) system_okD(1) [OF ok] system_okD(3) [OF ok r(1)]
    by (simp add: trap_ready_def m hs buffers_ok_destroyed kernel_idle_def) (simp add: destroyed_def traps_enabled_def same)
  have "others_keep h (kern S) k1"
    by (rule others_keepI [where hs = "my_hart_scratch h (kern S)"]) (simp_all add: same k1(3,4) my_hart_scratch_def)
  then have keep: "others_keep h (kern S) ?k2" by (rule others_keep_trans [OF _ others_keep_destroyed])
  note o = others_keepD [OF keep]
  have "jump_into_processes sy board left_over h (cpus S h) ?k2 = Inr (c, k)"
    using exit Process_destroy_current_Some [OF \<open>sched_ok h k1\<close> cur]
    by (simp add: ProcessExit_kernel_def k1_def split: prod.splits)
  moreover have "csrs (kern S) h sscratch = hart_scratch_addr sy h" using r(6) by (simp add: hart_in_process_def)
  moreover have "current_process (my_hart_scratch h ?k2) = None" by (simp add: m)
  ultimately have res: "system_ok sy (set_hart h c k S)" "virtual sy (set_hart h c k S) = vcpu_of sy (live_of S) ?k2"
      "kernel_table k = kernel_table (kern S)" "vm k = vm (kern S)"
    using jump_resumes [OF ok keep ready] by blast+
  show "system_ok sy (set_hart h c k S)" "kernel_table k = kernel_table (kern S)" "vm k = vm (kern S)"
    by (rule res(1), rule res(3), rule res(4))
  have "vcpu_of sy (live_of S) ?k2 q = virtual sy S q" if "q \<noteq> p" for q
    unfolding virtual_def
  proof (rule vcpu_of_cong [OF o(3,1)])
    show "strip_process (processes ?k2 ! q) = strip_process (processes (kern S) ! q)"
      using that by (simp add: destroyed_def same)
    have "(current_process (my_hart_scratch g ?k2) = Some q) = (current_process (my_hart_scratch g (kern S)) = Some q)"
      if "g < length (hart_scratches (kern S))" for g
      using that \<open>q \<noteq> p\<close> o(7) by (cases "g = h") (simp_all add: m r(2))
    then show "hart_of q ?k2 = hart_of q (kern S)" by (rule hart_of_cong [OF o(2)])
  qed simp
  moreover have "p < length (processes k1)" using r(3,4) by (simp add: same sched_ok_def processes_ok_def maximum_32)
  then have "vcpu_of sy (live_of S) ?k2 p = None" by (simp add: vcpu_of_def vcpu_state_def destroyed_def)
  ultimately show "virtual sy (set_hart h c k S) = (virtual sy S)(p := None)" by (auto simp: res(2) fun_eq_iff)
qed

text \<open>Computing, and entering a process.\<close>

lemma compute_steps:
  fixes regs :: "reg \<Rightarrow> u64" and pc :: u64
  assumes ok: "system_ok sy S" and run: "runs S h p"
  defines "S' \<equiv> set_hart h ((cpus S h)\<lparr>cpu_reg := regs, cpu_pc := pc\<rparr>) (kern S) S"
  shows "system_ok sy S'" "virtual sy S' = (virtual sy S)(p := Option.bind (virtual sy S p) (vcpu_step table (Computes regs pc)))"
proof -
  have kern: "kern S' = kern S" by (simp add: S'_def set_hart_def)
  have "cpu_supervisor (cpus S' g) = cpu_supervisor (cpus S g)" for g by (simp add: S'_def set_hart_def)
  then show ok': "system_ok sy S'" using ok by (simp add: system_ok_def hart_in_process_def kern)
  have run': "runs S' h p" using run by (simp add: runs_def kern)
  have "virtual sy S' q = virtual sy S q" if "q \<noteq> p" for q
    unfolding virtual_def kern
  proof (rule vcpu_of_cong)
    show "live_of S' g = live_of S g" if "hart_of q (kern S) = Some g" for g
      using hart_ofD(2) [OF that] runsD(2) [OF ok run] \<open>q \<noteq> p\<close>
      by (cases "g = h") (auto simp: live_of_def S'_def set_hart_def)
  qed simp_all
  moreover have "virtual sy S' p = Option.bind (virtual sy S p) (vcpu_step table (Computes regs pc))"
    unfolding virtual_running [OF ok' run'] virtual_running [OF ok run] by (simp add: S'_def set_hart_def)
  ultimately show "virtual sy S' = (virtual sy S)(p := Option.bind (virtual sy S p) (vcpu_step table (Computes regs pc)))"
    by (auto simp: fun_eq_iff)
qed

lemma store_steps:
  assumes ok: "system_ok sy S"
  shows "system_ok sy (set_memory a w S)" "virtual sy (set_memory a w S) = virtual sy S" "own_table (set_memory a w S) = own_table S"
proof -
  let ?k = "kern (set_memory a w S)"
  have same: "processes ?k = processes (kern S)" "hart_scratches ?k = hart_scratches (kern S)" "csrs ?k = csrs (kern S)"
      "locks ?k = locks (kern S)" "kernel_table ?k = kernel_table (kern S)" "cpus (set_memory a w S) = cpus S"
    by (simp_all add: set_memory_def)
  have hs: "my_hart_scratch g ?k = my_hart_scratch g (kern S)" for g by (simp add: my_hart_scratch_def same)
  have "sched_of ?k = sched_of (kern S)" by (rule sched_of_cong) (simp_all add: hs same)
  then show "system_ok sy (set_memory a w S)"
    using ok by (simp add: system_ok_def kernel_idle_def processes_ok_def buffers_ok_def hart_in_process_def traps_enabled_def
        Process_is_kernel_process_def hs same)
  have "virtual sy (set_memory a w S) q = virtual sy S q" for q
    unfolding virtual_def by (rule vcpu_of_cong) (simp_all add: same live_of_def hart_of_def hs)
  then show "virtual sy (set_memory a w S) = virtual sy S" by (rule ext)
  show "own_table (set_memory a w S) = own_table S" by (simp add: own_table_def same)
qed

lemma enter_steps:
  assumes ok: "system_ok sy S" and h: "h < length (hart_scratches (kern S))" and off: "\<not> traps_enabled h (kern S)"
    and none: "current_process (my_hart_scratch h (kern S)) = None" and scr: "csrs (kern S) h sscratch = hart_scratch_addr sy h"
    and jump: "jump_into_processes sy board left_over h (cpus S h) (kern S) = Inr (c, k)"
  shows "system_ok sy (set_hart h c k S)" "virtual sy (set_hart h c k S) = virtual sy S" "kernel_table k = kernel_table (kern S)"
    "vm k = vm (kern S)"
proof -
  have "trap_ready h (kern S)"
    using system_okD(1) [OF ok] system_okD(3) [OF ok h] h off
    by (simp add: trap_ready_def sched_ok_def hart_ok_def kernel_idle_def)
  from jump_resumes [OF ok others_keep_refl this scr none jump]
  show "system_ok sy (set_hart h c k S)" "virtual sy (set_hart h c k S) = virtual sy S" "kernel_table k = kernel_table (kern S)"
    "vm k = vm (kern S)"
    by (simp_all add: virtual_def)
qed

lemma system_step_refines:
  assumes "system_ok sy S" and "system_step sy board dev S e S'"
  shows "system_ok sy S'" "own_table S' = own_table S"
    "virtual sy S' = (case e of None \<Rightarrow> virtual sy S
       | Some (p, ev) \<Rightarrow> (virtual sy S)(p := Option.bind (virtual sy S p) (vcpu_step (own_table S) ev)))"
    "vm (kern S') = vm (kern S) \<or>
     (\<exists>h p x w a. e = Some (p, Stores x w) \<and> runs S h p \<and> user_store S h x = Some a \<and> S' = set_memory a w S)"
proof -
  have "system_ok sy S' \<and> own_table S' = own_table S \<and>
    virtual sy S' = (case e of None \<Rightarrow> virtual sy S
       | Some (p, ev) \<Rightarrow> (virtual sy S)(p := Option.bind (virtual sy S p) (vcpu_step (own_table S) ev))) \<and>
    (vm (kern S') = vm (kern S) \<or>
     (\<exists>h p x w a. e = Some (p, Stores x w) \<and> runs S h p \<and> user_store S h x = Some a \<and> S' = set_memory a w S))"
    using assms(2)
  proof cases
    case (computes h p regs pc)
    then show ?thesis using compute_steps [OF assms(1) computes(3)] by (simp add: own_table_def set_hart_def)
  next
    case (stores h p x a w)
    have "Option.bind v (vcpu_step t (Stores x w)) = v" for v t by (cases v) simp_all
    then show ?thesis using store_steps [OF assms(1), of a w] stores by auto
  next
    case (traps h p claimed left_over cause tval d c k d')
    have "vcpu_step t (Traps cause tval) = vcpu_trap t cause" for t by (rule ext) simp
    with traps show ?thesis
      using trap_steps [OF assms(1) traps(3,4)] by (simp add: own_table_def) (simp add: set_hart_def own_table_def)
  next
    case (exits h p left_over c k)
    have "Option.bind (virtual sy S p) (vcpu_step t Exits) = None" for t by (cases "virtual sy S p") simp_all
    then show ?thesis
      using exit_steps [OF assms(1) exits(3,5)] exits(1,2) by (simp add: own_table_def) (simp add: set_hart_def)
  next
    case (enters h left_over c k)
    then show ?thesis
      using enter_steps [OF assms(1) enters(3,6,4,5,7)] by (simp add: own_table_def) (simp add: set_hart_def)
  qed
  then show "system_ok sy S'" "own_table S' = own_table S"
    "virtual sy S' = (case e of None \<Rightarrow> virtual sy S
       | Some (p, ev) \<Rightarrow> (virtual sy S)(p := Option.bind (virtual sy S p) (vcpu_step (own_table S) ev)))"
    "vm (kern S') = vm (kern S) \<or>
     (\<exists>h p x w a. e = Some (p, Stores x w) \<and> runs S h p \<and> user_store S h x = Some a \<and> S' = set_memory a w S)" by blast+
qed

section \<open>Runs\<close>

lemma events_of_simps [simp]:
  "events_of p [] = []" "events_of p (None # es) = events_of p es"
  "events_of p (Some (q, e) # es) = (if q = p then e # events_of p es else events_of p es)"
  by (simp_all add: events_of_def List.map_filter_simps)

lemma run_invariant:
  assumes "system_run sy board dev S es S'" and "system_ok sy S"
  shows "system_ok sy S' \<and> own_table S' = own_table S \<and>
    (\<forall>p. virtual sy S' p = vcpu_run (own_table S) (events_of p es) (virtual sy S p))"
  using assms
proof induction
  case (go S e S1 es S2)
  note s = system_step_refines [OF go.prems go.hyps(1)]
  note IH = go.IH [OF s(1)]
  show ?case
  proof (cases e)
    case None
    then show ?thesis using IH s by simp
  next
    case (Some pe)
    then show ?thesis using IH s by (cases pe) simp
  qed
qed simp

text \<open>
  C2: However the harts interleave, whatever traps they take and whatever other processes do: a process has the
  registers and the program counter that its own steps, one after the other, give a processor that nobody else uses.
\<close>

theorem processes_have_own_cpus:
  assumes "system_ok sy S" and "system_run sy board dev S es S'"
  shows "virtual sy S' p = vcpu_run (own_table S) (events_of p es) (virtual sy S p)"
  using run_invariant [OF assms(2,1)] by blast

lemma vcpu_run_table:
  "vcpu_run table es v = Some w \<Longrightarrow> \<exists>u. v = Some u \<and> vcpu_table w = vcpu_table u"
proof (induction es arbitrary: v)
  case (Cons e es)
  then obtain u where u: "Option.bind v (vcpu_step table e) = Some u" "vcpu_table w = vcpu_table u" by auto
  then obtain x where "v = Some x" "vcpu_step table e x = Some u" by (auto simp: Option.bind_eq_Some_conv)
  moreover from this have "vcpu_table u = vcpu_table x"
    by (cases e) (auto simp: vcpu_trap_def vcpu_skip_def)
  ultimately show ?case using u(2) by simp
qed simp

text \<open>
  In every state that a run reaches, a hart with a process translates addresses with the table that this process
  had at the start, in user mode unless it is the kernel's; it can be interrupted, and is
  the only hart with that process.
\<close>

theorem harts_stay_in_their_process:
  assumes "system_ok sy S" and "system_run sy board dev S es S'" and "runs S' h p"
  shows "\<exists>v. virtual sy S p = Some v \<and> csrs (kern S') h satp = SatpRegister_from_PageTable (vcpu_table v) \<and>
     (cpu_supervisor (cpus S' h) \<longleftrightarrow> vcpu_table v = own_table S) \<and> traps_enabled h (kern S') \<and>
     (\<forall>g. runs S' g p \<longrightarrow> g = h)"
proof -
  have inv: "system_ok sy S'" "own_table S' = own_table S"
      "virtual sy S' p = vcpu_run (own_table S) (events_of p es) (virtual sy S p)"
    using run_invariant [OF assms(2,1)] by blast+
  note r = runsD [OF inv(1) assms(3)]
  obtain v where v: "virtual sy S p = Some v" "vcpu_table v = proc_page_table (processes (kern S') ! p)"
    using vcpu_run_table [OF inv(3) [symmetric, unfolded virtual_running [OF inv(1) assms(3)]]] by auto
  have "g = h" if "runs S' g p" for g
    using runsD(1,2) [OF inv(1) that] r(1-3) sched_invD(3) [of "sched_of (kern S')" g p h] owner_current
    by (simp add: sched_ok_def)
  then show ?thesis
    using v r(6) inv(2) by (auto simp: hart_in_process_def Process_is_kernel_process_def own_table_def)
qed

section \<open>Traps come to an end\<close>

text \<open>The traps of a process that the kernel serves; the serial port is apart, since it depends on the device.\<close>

definition served_cause :: "bool \<Rightarrow> u64 \<Rightarrow> bool" where
  "served_cause from_kernel cause \<longleftrightarrow> cause \<noteq> SCAUSE_SUPERVISOR_EXTERNAL_INTERRUPT \<and>
     (from_kernel \<longrightarrow> cause = SCAUSE_SUPERVISOR_TIMER_INTERRUPT \<or> cause = SCAUSE_SUPERVISOR_SOFTWARE_INTERRUPT)"

lemma before_switch_returns:
  assumes r: "trap_ready h k" and cur: "current_process (my_hart_scratch h k) = Some p"
    and cause: "served_cause (kernel_mode h k) (csrs k h scause)"
  shows "\<exists>k1. handle_trap_before_switch sy board dev claimed h k d = Inr (k1, d)"
proof (cases "ends_process h k")
  case True
  then show ?thesis using before_switch_ends [OF r cur True, of sy board dev claimed d] by blast
next
  case False
  let ?k4 = "sip_cleared h (entered trap_print_lock h k)"
  have nf: "\<not> fatal_trap (kernel_mode h k) True (csrs k h scause)"
  proof (cases "kernel_mode h k")
    case True
    then show ?thesis using cause unfolding served_cause_def fatal_trap_def Let_def by blast
  next
    case user: False
    then show ?thesis using user_fatal [OF user] False by blast
  qed
  note e = trap_ready_entered [OF r]
  have i: "in_handler h ?k4" and cur4: "current_process (my_hart_scratch h ?k4) = Some p" using e cur by simp_all
  have "\<exists>k5. handle_syscall h ?k4 = Inr k5" if "csrs k h scause = SCAUSE_ECALL_U_MODE"
  proof -
    have "\<not> kernel_mode h k" using cause that by (auto simp: served_cause_def scause_values)
    then have "frame_regs (hart_frame (my_hart_scratch h ?k4)) a0 \<noteq> SYSCALL_EXIT"
      using False that by (simp add: ends_process_def e(5))
    then show ?thesis using syscall_served [OF i cur4] by blast
  qed
  then show ?thesis using cause by (auto simp: before_switch_not_fatal [OF r cur nf] served_cause_def)
qed

lemma others_not_runnable:
  assumes "trap_served h p r k k1" and "\<not> runnable (processes k ! p)" and "q < length (processes k)"
  shows "runnable (processes k1 ! q) = runnable (processes k ! q)"
proof -
  have len: "length (processes k1) = length (processes k)" using assms(1) others_keepD(3) [of h k k1] by (simp add: trap_served_def)
  have "map strip_process (processes k1) ! q = strip_process (processes k1 ! q)" using assms(3) len by simp
  then show ?thesis
    using assms by (cases "q = p") (auto simp: trap_served_def strip_process_def runnable_def split: option.splits)
qed


section \<open>The second user program (user/second.c)\<close>

text \<open>
  Its one instruction is \<open>unimp\<close>, which is an illegal instruction; what the hardware says of it besides is \<open>tval\<close>.
  It ends that process, and no other process notices.
\<close>

definition second_main :: "u64 \<Rightarrow> event" where
  "second_main tval = Traps (SCAUSE 0 2) tval"

lemma second_program_ends:
  assumes "system_ok sy S" and "system_step sy board dev S (Some (p, second_main tval)) S'"
    and "virtual sy S p = Some v" and "vcpu_table v \<noteq> own_table S"
  shows "virtual sy S' = (virtual sy S)(p := None)"
proof -
  have "trap_effect False (SCAUSE 0 2) regs = None" for regs by (simp add: trap_effect_def scause_values SCAUSE_def POINTER_BITS_def)
  then show ?thesis
    using system_step_refines(3) [OF assms(1,2)] assms(3,4) by (simp add: second_main_def vcpu_trap_def)
qed

section \<open>A system\<close>

text \<open>Two harts; the first one runs the kernel process 3.\<close>

definition sample_system :: system where
  "sample_system = \<lparr>cpus = (\<lambda>h. sample_cpu), kern = sample_running\<lparr>csrs := (\<lambda>h c.
     if c = sscratch then hart_scratch_addr sample_symbols h else if c = sstatus then BIT_TO_INT SSTATUS_TRAPS_NOW
     else if c = satp then SatpRegister_from_PageTable 0 else 0)\<rparr>\<rparr>"

lemma sample_system_runs: "runs sample_system 0 3"
  by (simp add: runs_def sample_system_def sample_running_def set_scratch_def my_hart_scratch_def)

lemma sample_system_ok: "system_ok sample_symbols sample_system"
proof -
  have idle: "kernel_idle (kern sample_system)"
    using sample_hart_running_ok
    by (simp add: sample_system_def kernel_idle_def hart_running_def sched_ok_def processes_ok_def buffers_ok_def sample_hart_running_def
        with_scratch_def csr_write_def)
  have "\<forall>p<PROCESSES_MAXIMUM. process_pointer sample_symbols (Some p) \<noteq> 0"
  proof (intro allI impI)
    fix p assume "p < PROCESSES_MAXIMUM"
    then have "p \<in> set [0..<32]" by (simp add: maximum_32)
    then show "process_pointer sample_symbols (Some p) \<noteq> 0"
      by (simp add: upt_rec process_pointer_def sample_symbols_def sizeof_Process_def) auto
  qed
  moreover have "hart_in_process sample_symbols (cpus sample_system) 0 3 (kern sample_system)"
    by (simp add: hart_in_process_def sample_system_def traps_enabled_def sample_running_fields sample_cpu_def
        Process_is_kernel_process_def BIT_TO_INT_def bit_simps SSTATUS_TRAPS_NOW_def)
  moreover have "hart_scratches (kern sample_system) = [sample_hart\<lparr>current_process := Some 3\<rparr>, sample_hart]"
    by (simp add: sample_system_def sample_running_def set_scratch_def numeral_2_eq_2 my_hart_scratch_def)
  ultimately show ?thesis
    using idle by (auto simp: system_ok_def my_hart_scratch_def less_Suc_eq)
qed

text \<open>It computes twice, which leaves the other slots empty.\<close>

definition sample_next :: system where
  "sample_next = set_hart 0 ((cpus sample_system 0)\<lparr>cpu_reg := (\<lambda>r. 1), cpu_pc := 8\<rparr>) (kern sample_system) sample_system"

lemma sample_run:
  "\<exists>S'. system_run sample_symbols board_virt dev sample_system [Some (3, Computes (\<lambda>r. 1) 8), Some (3, Computes (\<lambda>r. 2) 16)] S' \<and>
     runs S' 0 3"
proof -
  have r: "runs sample_next 0 3" using sample_system_runs by (simp add: runs_def sample_next_def set_hart_def)
  let ?S' = "set_hart 0 ((cpus sample_next 0)\<lparr>cpu_reg := (\<lambda>r. 2), cpu_pc := 16\<rparr>) (kern sample_next) sample_next"
  have one: "system_step sample_symbols board_virt dev sample_system (Some (3, Computes (\<lambda>r. 1) 8)) sample_next"
    unfolding sample_next_def by (rule system_step.computes [OF sample_system_runs])
  have two: "system_step sample_symbols board_virt dev sample_next (Some (3, Computes (\<lambda>r. 2) 16)) ?S'"
    by (rule system_step.computes [OF r])
  have "system_run sample_symbols board_virt dev sample_system [Some (3, Computes (\<lambda>r. 1) 8), Some (3, Computes (\<lambda>r. 2) 16)] ?S'"
    by (rule system_run.go [OF one system_run.go [OF two system_run.stop]])
  moreover have "runs ?S' 0 3" using r by (simp add: runs_def set_hart_def)
  ultimately show ?thesis by blast
qed

lemma sample_virtual: "virtual sample_symbols sample_system 3 = Some \<lparr>vcpu_regs = cpu_reg sample_cpu, vcpu_pc = 0x80204000, vcpu_table = 0\<rparr>"
  using virtual_running [OF sample_system_ok sample_system_runs]
  by (simp add: sample_system_def sample_running_fields sample_cpu_def)

lemma processes_have_own_cpus_witness:
  "\<exists>S'. virtual sample_symbols S' 3 = Some \<lparr>vcpu_regs = (\<lambda>r. 2), vcpu_pc = 16, vcpu_table = 0\<rparr> \<and>
     virtual sample_symbols S' 5 = virtual sample_symbols sample_system 5"
proof -
  obtain S' where S': "system_run sample_symbols board_virt (\<lambda>a d. (0, d :: unit)) sample_system
      [Some (3, Computes (\<lambda>r. 1) 8), Some (3, Computes (\<lambda>r. 2) 16)] S'" using sample_run by blast
  show ?thesis
    using processes_have_own_cpus [OF sample_system_ok S', of 3] processes_have_own_cpus [OF sample_system_ok S', of 5]
    by (auto simp: sample_virtual)
qed

lemma sample_harts_stay:
  "\<exists>S'. runs S' 0 3 \<and> csrs (kern S') 0 satp = SatpRegister_from_PageTable 0 \<and> traps_enabled 0 (kern S')"
proof -
  obtain S' where S': "system_run sample_symbols board_virt (\<lambda>a d. (0, d :: unit)) sample_system
      [Some (3, Computes (\<lambda>r. 1) 8), Some (3, Computes (\<lambda>r. 2) 16)] S'" "runs S' 0 3" using sample_run by blast
  show ?thesis using harts_stay_in_their_process [OF sample_system_ok S'] S'(2) by (auto simp: sample_virtual)
qed


end
