(* ===== verification/User_Memory.thy ===== *)
theory User_Memory
  imports Kernel_System Address_Init
begin

text \<open>
  What the stores of user programs can change: a store goes to the program's own section, so that the page tables stay as
  they are in every run in which no program uses the page past its section.
\<close>

section \<open>Where the tables are\<close>

lemma unat_entry_at:
  assumes "is_aligned t PAGE_SIZE"
  shows "unat t \<le> unat (entry_at t n)" "unat (entry_at t n) < unat t + 4096"
proof -
  have e: "entry_at t n = t + 8 * ucast n" by (simp add: entry_at_def entry_addr_def)
  have small: "unat (8 * ucast n :: u64) < 4096"
    using eight_ucast_less [of n] by (simp add: PAGE_SIZE_def word_less_nat_alt)
  obtain k where k: "unat t = 4096 * k" using assms by (auto simp: is_aligned_dvd elim: dvdE)
  have "unat t < 2 ^ 64" using unsigned_less [of t, where 'a = nat] by simp
  then have "unat t + 4096 \<le> 2 ^ 64" using k by simp
  then have "unat (entry_at t n) = unat t + unat (8 * ucast n :: u64)"
    unfolding e using small by (intro unat_word_add_less) simp
  then show "unat t \<le> unat (entry_at t n)" "unat (entry_at t n) < unat t + 4096" using small by simp_all
qed

text \<open>The programs lie outside the pages that the kernel allocates.\<close>

definition programs_apart :: "Sections \<Rightarrow> Section list \<Rightarrow> bool" where
  "programs_apart ss programs \<longleftrightarrow> (\<forall>s\<in>set programs. end_address s \<le> start_address (SECTION_PAGES ss) \<or>
     end_address (SECTION_PAGES ss) \<le> start_address s)"

lemma store_misses_tables:
  assumes ok: "vm_ok ss v roots" and t: "t \<in> allocated ss v" and apart: "programs_apart ss programs" "p \<in> set programs"
    and a: "unat (start_address p) \<le> unat a" "unat a < unat (end_address p)"
  shows "a \<noteq> entry_at t n"
proof -
  have al: "is_aligned t PAGE_SIZE" "start_address (SECTION_PAGES ss) \<le> t" "t < end_address (SECTION_PAGES ss)"
    using t ok by (auto simp: allocated_def vm_ok_def)
  have "is_aligned (end_address (SECTION_PAGES ss)) PAGE_SIZE" using ok by (simp add: vm_ok_def pages_section_ok_def Let_def)
  then obtain k l where "unat t = 4096 * k" "unat (end_address (SECTION_PAGES ss)) = 4096 * l"
    using al(1) by (auto simp: is_aligned_dvd elim!: dvdE)
  then have "unat t + 4096 \<le> unat (end_address (SECTION_PAGES ss))" using al(3) by (simp add: word_less_nat_alt)
  then show ?thesis
    using unat_entry_at [OF al(1), of n] apart a al(2) by (auto simp: programs_apart_def word_le_nat_alt)
qed

section \<open>Runs\<close>

text \<open>
  The programs' processes are 24 and those that follow. Each keeps to its section: it does not store to the one page
  more that \<open>PageTable_map_section\<close> maps.
\<close>

definition keeps_to_sections :: "Section list \<Rightarrow> (nat \<times> event) option list \<Rightarrow> bool" where
  "keeps_to_sections programs es \<longleftrightarrow> (\<forall>j<length programs. \<forall>x w. Some (24 + j, Stores x w) \<in> set es \<longrightarrow>
     unat x < unat USER_PROGRAM_BASE + unat (Section_size (programs ! j)))"

text \<open>Every process that is not in the kernel's address space is one of the programs, in the space of its section.\<close>

definition spaces_of_programs :: "Symbols \<Rightarrow> Sections \<Rightarrow> Section list \<Rightarrow> (addr \<Rightarrow> u64) \<Rightarrow> PageTable set \<Rightarrow> system \<Rightarrow> bool" where
  "spaces_of_programs sy ss programs m roots S \<longleftrightarrow>
     (\<forall>p u. virtual sy S p = Some u \<longrightarrow> vcpu_table u \<noteq> own_table S \<longrightarrow>
        (\<exists>j<length programs. p = 24 + j \<and> vcpu_table u \<in> roots \<and>
           lookup m (vcpu_table u) = user_map ss (programs ! j) USER_PROGRAM_BASE))"

lemma spaces_of_programs_step:
  assumes ok: "system_ok sy S" and step: "system_step sy board dev S e S'" and sp: "spaces_of_programs sy ss programs m roots S"
  shows "spaces_of_programs sy ss programs m roots S'"
proof -
  note s = system_step_refines [OF ok step]
  have "\<exists>u. virtual sy S p = Some u \<and> vcpu_table u = vcpu_table u'" if "virtual sy S' p = Some u'" for p u'
  proof (cases e)
    case None
    then show ?thesis using s(3) that by simp
  next
    case (Some qe)
    obtain q ev where qe: "qe = (q, ev)" by fastforce
    have "vcpu_run (own_table S) [ev] (virtual sy S q) = Some u'" if "q = p"
      using s(3) Some qe that \<open>virtual sy S' p = Some u'\<close> by simp
    then show ?thesis
      using vcpu_run_table [of "own_table S" "[ev]" "virtual sy S q" u'] s(3) Some qe that by (cases "q = p") auto
  qed
  then show ?thesis using sp s(2) unfolding spaces_of_programs_def by metis
qed

text \<open>A single store.\<close>

lemma user_store_place:
  assumes ok: "system_ok sy S" and run: "runs S h p" and st: "user_store S h x = Some a"
    and trees: "trees_ok m A roots" and same: "tables_same A m (mem (vm (kern S)))"
    and sp: "spaces_of_programs sy ss programs m roots S" and secs: "\<forall>s\<in>set programs. user_sections_ok ss s USER_PROGRAM_BASE"
  shows "\<exists>j<length programs. p = 24 + j \<and> USER_PROGRAM_BASE \<le> x \<and>
     unat x < unat USER_PROGRAM_BASE + 4096 * (unat (Section_size (programs ! j)) div 4096 + 1) \<and>
     a = start_address (programs ! j) + (x - USER_PROGRAM_BASE)"
proof -
  note r = runsD [OF ok run]
  obtain f where f: "sv39_translate (mem (vm (kern S))) (csrs (kern S) h satp) x = Some (a, f)" "\<not> cpu_supervisor (cpus S h)"
      "flag_user f" using st by (auto simp: user_store_def split: option.splits if_splits)
  let ?table = "proc_page_table (processes (kern S) ! p)"
  have "?table \<noteq> own_table S" "csrs (kern S) h satp = SatpRegister_from_PageTable ?table"
    using r(6) f(2) by (auto simp: hart_in_process_def Process_is_kernel_process_def own_table_def)
  then obtain j where j: "j < length programs" "p = 24 + j" "?table \<in> roots"
      "lookup m ?table = user_map ss (programs ! j) USER_PROGRAM_BASE"
    using sp [unfolded spaces_of_programs_def, rule_format, OF virtual_running [OF ok run]] by auto
  have t: "trees_ok (mem (vm (kern S))) A roots" "lookup (mem (vm (kern S))) ?table = user_map ss (programs ! j) USER_PROGRAM_BASE"
    using trees_ok_same [OF trees same] j(3,4) by simp_all
  have "user_sections_ok ss (programs ! j) USER_PROGRAM_BASE" using secs j(1) by simp
  from user_map_confines [OF t(1) j(3) t(2) this _ f(3)] f(1) \<open>csrs (kern S) h satp = _\<close> j(1,2) show ?thesis by auto
qed

lemma run_keeps_tables:
  assumes "system_run sy board dev S es S'" and "system_ok sy S" and "keeps_to_sections programs es"
    and "spaces_of_programs sy ss programs (mem v) roots S" and "tables_same (allocated ss v) (mem v) (mem (vm (kern S)))"
    and vm: "vm_ok ss v roots" and apart: "programs_apart ss programs"
    and secs: "\<forall>s\<in>set programs. user_sections_ok ss s USER_PROGRAM_BASE"
  shows "tables_same (allocated ss v) (mem v) (mem (vm (kern S'))) \<and> spaces_of_programs sy ss programs (mem v) roots S' \<and>
     next_page (vm (kern S')) = next_page (vm (kern S))"
  using assms(1-5)
proof induction
  case (go S e S1 es S2)
  note s = system_step_refines [OF go.prems(1) go.hyps(1)]
  have trees: "trees_ok (mem v) (allocated ss v) roots" using vm by (simp add: vm_ok_def)
  have "tables_same (allocated ss v) (mem v) (mem (vm (kern S1))) \<and> next_page (vm (kern S1)) = next_page (vm (kern S))"
  proof (cases "vm (kern S1) = vm (kern S)")
    case False
    then obtain h p x w a where e: "e = Some (p, Stores x w)" "runs S h p" "user_store S h x = Some a" "S1 = set_memory a w S"
      using s(4) by blast
    obtain j where j: "j < length programs" "p = 24 + j" "USER_PROGRAM_BASE \<le> x"
        "a = start_address (programs ! j) + (x - USER_PROGRAM_BASE)"
      using user_store_place [OF go.prems(1) e(2,3) trees go.prems(4,3) secs] by blast
    have "unat x < unat USER_PROGRAM_BASE + unat (Section_size (programs ! j))"
      using go.prems(2) j(1,2) e(1) by (auto simp: keeps_to_sections_def)
    moreover have le: "start_address (programs ! j) \<le> end_address (programs ! j)"
      using secs j(1) by (auto simp: user_sections_ok_def section_ok_def)
    then have "unat (Section_size (programs ! j)) = unat (end_address (programs ! j)) - unat (start_address (programs ! j))"
      by (simp add: Section_size_def unat_sub)
    ultimately have off: "unat (start_address (programs ! j)) + unat (x - USER_PROGRAM_BASE) < unat (end_address (programs ! j))"
      using j(3) le by (simp add: unat_sub word_le_nat_alt)
    moreover have "unat (end_address (programs ! j)) < 2 ^ 64"
      using unsigned_less [of "end_address (programs ! j)", where 'a = nat] by simp
    ultimately have "unat a = unat (start_address (programs ! j)) + unat (x - USER_PROGRAM_BASE)"
      unfolding j(4) by (intro unat_word_add_less) simp
    then have "a \<noteq> entry_at t n" if "t \<in> allocated ss v" for t n
      using store_misses_tables [OF vm that apart, of "programs ! j" a n] off j(1) by simp
    then show ?thesis using go.prems(4) by (auto simp: e(4) set_memory_def tables_same_def)
  qed (use go.prems(4) in simp)
  moreover have "keeps_to_sections programs es" using go.prems(2) by (auto simp: keeps_to_sections_def)
  ultimately show ?case
    using go.IH [OF s(1) _ spaces_of_programs_step [OF go.prems(1) go.hyps(1) go.prems(3)]] by simp
qed simp

end
