(* ===== verification/System_Boot.thy ===== *)
theory System_Boot
  imports Kernel_Boot User_Memory
begin

text \<open>
  The boot establishes the invariant of the system: the first hart that leaves \<open>kernel_main\<close> is in a process, the
  others are idle, and the virtual processors are those of the example processes and user programs, at their entries.
\<close>

section \<open>After the boot\<close>

text \<open>No hart runs a process yet.\<close>

lemma system_ok_before:
  assumes ready: "trap_ready h k" and idle: "map strip_hart (hart_scratches k) = replicate n (strip_hart zero_scratch)"
    and pointers: "\<forall>p<PROCESSES_MAXIMUM. process_pointer sy (Some p) \<noteq> 0"
  shows "system_ok sy \<lparr>cpus = cs, kern = k\<rparr>"
proof -
  have "strip_hart (my_hart_scratch g k) = strip_hart zero_scratch" if "g < length (hart_scratches k)" for g
  proof -
    have "length (hart_scratches k) = n" using arg_cong [OF idle, of length] by simp
    then show ?thesis using arg_cong [OF idle, of "\<lambda>l. l ! g"] that by (simp add: my_hart_scratch_def)
  qed
  then show ?thesis
    using ready pointers by (auto simp: system_ok_def kernel_idle_def trap_ready_def sched_ok_def strip_hart_def zero_scratch_def)
qed

text \<open>What the processor of a new process holds: its entry, its argument, and its address space.\<close>

definition new_vcpu :: "kernel \<Rightarrow> addr \<times> u64 \<times> space option \<Rightarrow> vcpu \<Rightarrow> bool" where
  "new_vcpu k e v \<longleftrightarrow> vcpu_pc v = fst e \<and> vcpu_regs v a0 = fst (snd e) \<and>
     (case snd (snd e) of
        None \<Rightarrow> vcpu_table v = kernel_page_table (kernel_table k)
      | Some space \<Rightarrow> vcpu_table v \<noteq> kernel_page_table (kernel_table k) \<and> lookup (mem (vm k)) (vcpu_table v) = space)"

lemma started_vcpus:
  assumes "started ss K es h k" and "p < 32"
  shows "case vcpu_of sy live k p of None \<Rightarrow> length es \<le> p | Some v \<Rightarrow> p < length es \<and> new_vcpu k (es ! p) v"
proof -
  have len: "length (processes k) = 32"
    using assms(1) by (simp add: started_def trap_ready_def sched_ok_def processes_ok_def maximum_32)
  show ?thesis
  proof (cases "p < length es")
    case True
    obtain roots where "spaces_ok ss K (map (snd \<circ> snd) es) roots k" using startedD(4) [OF assms(1)] by blast
    then have "has_space roots k (proc_page_table (processes k ! p)) (snd (snd (es ! p)))"
      using True by (simp add: spaces_ok_def)
    then show ?thesis
      using assms True len
      by (auto simp: started_def vcpu_of_def vcpu_state_def Let_def new_vcpu_def has_space_def split: option.splits)
  next
    case False
    then show ?thesis using assms len by (auto simp: started_def vcpu_of_def vcpu_state_def Let_def)
  qed
qed

text \<open>
  What the boot needs: the reset of the machine, an image with few enough programs and pages for the address spaces, and
  a device tree that can be read; \<open>kt\<close> is the page table of the kernel that it will have.
\<close>

definition boots :: "Image \<Rightarrow> byte list \<Rightarrow> tree_arrays \<Rightarrow> nat \<Rightarrow> kernel \<Rightarrow> KernelTable \<Rightarrow> bool" where
  "boots im blob arrays h k kt \<longleftrightarrow> at_reset (im_symbols im) h k \<and> image_ok im (vm k) \<and> length (im_user_programs im) \<le> 8 \<and>
     (\<exists>vm1. PageTable_kernel_init (im_sections im) (im_board im) (kernel_table k) (vm k) = Inr (kt, vm1) \<and>
        boot_pages (im_sections im) (im_user_programs im) \<le> pages_left (im_sections im) vm1) \<and>
     (\<exists>tree arrays1. DeviceTree_parse blob arrays = Inr (tree, arrays1)) \<and>
     (\<forall>p<PROCESSES_MAXIMUM. process_pointer (im_symbols im) (Some p) \<noteq> 0)"

text \<open>The state in which \<open>primary_setup\<close> ends has the processors and the memory with which the system starts.\<close>

lemma boot_system:
  assumes boots: "boots im blob arrays h k kt"
  shows "\<exists>c' k' k1 a K live. kernel_main im fw hart_id blob headers arrays 0 left_over h c k = Inr (SECONDARY_CLAIM, c', k') \<and>
     started (im_sections im) K (boot_table (im_sections im) (im_entries im) a (im_user_programs im)) h k1 \<and>
     system_ok (im_symbols im) \<lparr>cpus = cs(h := c'), kern = k'\<rparr> \<and>
     virtual (im_symbols im) \<lparr>cpus = cs(h := c'), kern = k'\<rparr> = vcpu_of (im_symbols im) live k1 \<and>
     vm k' = vm k1 \<and> kernel_table k' = kernel_table k1 \<and> kernel_table k1 = kt"
proof -
  let ?ss = "im_sections im" and ?sy = "im_symbols im"
  obtain vm1 tree arrays1 where reset: "at_reset ?sy h k" and im: "image_ok im (vm k)"
    and table: "PageTable_kernel_init ?ss (im_board im) (kernel_table k) (vm k) = Inr (kt, vm1)"
    and tree: "DeviceTree_parse blob arrays = Inr (tree, arrays1)" and few: "length (im_user_programs im) \<le> 8"
    and pages: "boot_pages ?ss (im_user_programs im) \<le> pages_left ?ss vm1"
    and pointers: "\<forall>p<PROCESSES_MAXIMUM. process_pointer ?sy (Some p) \<noteq> 0" using boots unfolding boots_def by blast
  obtain k1 a where k1: "primary_setup im fw hart_id blob headers arrays h k = Inr (tree, arrays1, k1)"
      "started ?ss (lookup (mem vm1) (kernel_page_table kt)) (boot_table ?ss (im_entries im) a (im_user_programs im)) h k1"
      "csrs k1 h sscratch = hart_scratch_addr ?sy h" "current_process (my_hart_scratch h k1) = None"
      "map strip_hart (hart_scratches k1) = replicate HART_MAXIMUM (strip_hart zero_scratch)" "kernel_table k1 = kt"
    using primary_setup_ok [OF reset im table tree few, of fw hart_id headers] pages by fastforce
  let ?S = "\<lparr>cpus = cs, kern = k1\<rparr>"
  have ready: "trap_ready h k1" using k1(2) by (simp add: started_def)
  have ok: "system_ok ?sy ?S" by (rule system_ok_before [OF ready k1(5) pointers])
  from boot_first [OF k1(2)] have p: "sched_ok h k1" "proc_state (processes k1 ! 0) = PROCESS_READY" by blast+
  have "\<forall>q<0. \<not> runnable (processes k1 ! q)" by simp
  from jump_into_first [OF p(1) k1(3,4) _ p(2) this, of "im_board im" left_over c]
  obtain c' k' where jump: "jump_into_processes ?sy (im_board im) left_over h c k1 = Inr (c', k')" by auto
  have "others_keep h (kern ?S) k1" by simp
  note res = jump_resumes [OF ok this ready _ k1(4) jump(1), simplified, OF k1(3)]
  have S': "set_hart h c' k' ?S = \<lparr>cpus = cs(h := c'), kern = k'\<rparr>" by (simp add: set_hart_def)
  have "kernel_main im fw hart_id blob headers arrays 0 left_over h c k = Inr (SECONDARY_CLAIM, c', k')"
    by (simp add: kernel_main_def take_claim_def primary_main_def k1(1) Let_def jump)
  then show ?thesis using res k1(2,6) S' by metis
qed

text \<open>
  C10: From the reset of the machine to the invariant of the system.
\<close>

theorem boot_starts_system:
  assumes "boots im blob arrays h k kt"
  shows "\<exists>c' k' a. kernel_main im fw hart_id blob headers arrays 0 left_over h c k = Inr (SECONDARY_CLAIM, c', k') \<and>
     system_ok (im_symbols im) \<lparr>cpus = cs(h := c'), kern = k'\<rparr> \<and>
     (\<forall>p<PROCESSES_MAXIMUM. case virtual (im_symbols im) \<lparr>cpus = cs(h := c'), kern = k'\<rparr> p of
        None \<Rightarrow> length (boot_table (im_sections im) (im_entries im) a (im_user_programs im)) \<le> p
      | Some v \<Rightarrow> p < length (boot_table (im_sections im) (im_entries im) a (im_user_programs im)) \<and>
          new_vcpu k' (boot_table (im_sections im) (im_entries im) a (im_user_programs im) ! p) v)"
proof -
  let ?es = "\<lambda>a. boot_table (im_sections im) (im_entries im) a (im_user_programs im)"
  obtain c' k' k1 a K live where b: "kernel_main im fw hart_id blob headers arrays 0 left_over h c k = Inr (SECONDARY_CLAIM, c', k')"
     "started (im_sections im) K (?es a) h k1" "system_ok (im_symbols im) \<lparr>cpus = cs(h := c'), kern = k'\<rparr>"
     "virtual (im_symbols im) \<lparr>cpus = cs(h := c'), kern = k'\<rparr> = vcpu_of (im_symbols im) live k1"
     "vm k' = vm k1" "kernel_table k' = kernel_table k1"
    using boot_system [OF assms, of fw hart_id headers left_over c cs] by blast
  have "new_vcpu k' = new_vcpu k1" using b(5,6) by (simp add: new_vcpu_def fun_eq_iff split: option.split)
  then have "case virtual (im_symbols im) \<lparr>cpus = cs(h := c'), kern = k'\<rparr> q of None \<Rightarrow> length (?es a) \<le> q
      | Some v \<Rightarrow> q < length (?es a) \<and> new_vcpu k' (?es a ! q) v" if "q < 32" for q
    using started_vcpus [OF b(2) that, of "im_symbols im" live] by (auto simp: b(4) split: option.splits)
  then show ?thesis using b(1,3) by (intro exI [of _ c'] exI [of _ k'] exI [of _ a]) (simp add: maximum_32)
qed

section \<open>Confinement\<close>

text \<open>After the boot every address space is the kernel's or that of a program.\<close>

lemma boot_table_space:
  assumes "i < length (boot_table ss entries a programs)"
  shows "snd (snd (boot_table ss entries a programs ! i)) =
    (if i < 24 then None else Some (user_map ss (programs ! (i - 24)) USER_PROGRAM_BASE))"
proof -
  let ?k = "map (\<lambda>i. kernel_process (process_load_a0 entries) (of_nat i)) [0..<10] @
     [kernel_process (process_load_from_stack entries) a, kernel_process (process_that_returns entries) 0,
      kernel_process (process_mem_ops entries) 0] @ replicate 11 (kernel_process (process_never_yields entries) 0)"
  have len: "length ?k = 24" by simp
  have "\<forall>e\<in>set ?k. snd (snd e) = None" by auto
  then have "snd (snd (?k ! i)) = None" if "i < 24" using that len nth_mem [of i ?k] by metis
  moreover have "boot_table ss entries a programs = ?k @ map (\<lambda>s. (USER_PROGRAM_BASE, 0, Some (user_map ss s USER_PROGRAM_BASE))) programs"
    by (simp add: boot_table_def)
  ultimately show ?thesis
    using assms len by (simp only: nth_append length_boot_table) (auto simp: nth_map)
qed

lemma boot_spaces:
  assumes st: "started ss K (boot_table ss entries a programs) h k"
    and kern: "vm (kern S) = vm k" "kernel_table (kern S) = kernel_table k" and virt: "virtual sy S = vcpu_of sy live k"
    and ok: "system_ok sy S"
  obtains roots where "vm_ok ss (vm k) roots" "spaces_of_programs sy ss programs (mem (vm k)) roots S"
proof -
  let ?es = "boot_table ss entries a programs"
  obtain roots where sp: "spaces_ok ss K (map (snd \<circ> snd) ?es) roots k" using startedD(4) [OF st] by blast
  have "\<exists>j<length programs. p = 24 + j \<and> vcpu_table u \<in> roots \<and> lookup (mem (vm k)) (vcpu_table u) = user_map ss (programs ! j) USER_PROGRAM_BASE"
    if u: "virtual sy S p = Some u" "vcpu_table u \<noteq> own_table S" for p u
  proof -
    have len: "length (processes k) = 32"
      using st by (simp add: started_def trap_ready_def sched_ok_def processes_ok_def maximum_32)
    have t: "vcpu_table u = proc_page_table (processes k ! p)" and p: "p < 32"
      using u(1) len by (auto simp: virt vcpu_of_def split: if_splits)
    have es: "p < length ?es" using started_vcpus [OF st p, of sy live] u(1) by (simp add: virt)
    then have "has_space roots k (proc_page_table (processes k ! p)) (snd (snd (?es ! p)))"
      using sp by (simp add: spaces_ok_def)
    then show ?thesis
      using u(2) es boot_table_space [OF es]
      by (cases "p < 24")
        (auto simp: has_space_def own_table_def kern(2) t length_boot_table intro!: exI [of _ "p - 24"])
  qed
  then have "spaces_of_programs sy ss programs (mem (vm k)) roots S" by (simp add: spaces_of_programs_def)
  moreover have "vm_ok ss (vm k) roots" using sp by (simp add: spaces_ok_def)
  ultimately show ?thesis by (rule that [rotated])
qed

text \<open>
  What holds from the boot through every run in which the programs keep to their sections: the page tables are those of
  the boot, so that a program has the address space of its section, and the harts that run it are in that address space.
\<close>

lemma program_space:
  assumes boots: "boots im blob arrays h k kt" and apart: "programs_apart (im_sections im) (im_user_programs im)"
    and main: "kernel_main im fw hart_id blob headers arrays 0 left_over h c k = Inr (SECONDARY_CLAIM, c', k')"
    and run: "system_run (im_symbols im) board dev \<lparr>cpus = cs(h := c'), kern = k'\<rparr> es S'"
    and keeps: "keeps_to_sections (im_user_programs im) es"
    and program: "j < length (im_user_programs im)" and alive: "virtual (im_symbols im) S' (24 + j) = Some v"
  shows "\<exists>A roots. trees_ok (mem (vm (kern S'))) A roots \<and> vcpu_table v \<in> roots \<and>
      lookup (mem (vm (kern S'))) (vcpu_table v) = user_map (im_sections im) (im_user_programs im ! j) USER_PROGRAM_BASE"
    and "runs S' g (24 + j) \<Longrightarrow>
      \<not> cpu_supervisor (cpus S' g) \<and> csrs (kern S') g satp = SatpRegister_from_PageTable (vcpu_table v)"
    and "kernel_page_table (kernel_table (kern S')) = kernel_page_table kt"
proof -
  let ?sy = "im_symbols im" and ?S = "\<lparr>cpus = cs(h := c'), kern = k'\<rparr>" and ?programs = "im_user_programs im"
  let ?es = "\<lambda>a. boot_table (im_sections im) (im_entries im) a ?programs"
  have b0: "image_ok im (vm k)" "length ?programs \<le> 8" using boots by (simp_all add: boots_def)
  obtain k1 a K live where b: "started (im_sections im) K (?es a) h k1" "system_ok ?sy ?S"
     "virtual ?sy ?S = vcpu_of ?sy live k1" "vm k' = vm k1" "kernel_table k' = kernel_table k1" "kernel_table k1 = kt"
    using boot_system [OF boots, of fw hart_id headers left_over c cs] main by auto
  have kern: "vm (kern ?S) = vm k1" "kernel_table (kern ?S) = kernel_table k1" using b(4,5) by simp_all
  obtain roots where roots: "vm_ok (im_sections im) (vm k1) roots" "spaces_of_programs ?sy (im_sections im) ?programs (mem (vm k1)) roots ?S"
    using boot_spaces [OF b(1) kern b(3,2)] by blast
  have secs: "\<forall>s\<in>set ?programs. user_sections_ok (im_sections im) s USER_PROGRAM_BASE" using b0(1) by (simp add: image_ok_def)
  have "tables_same (allocated (im_sections im) (vm k1)) (mem (vm k1)) (mem (vm (kern ?S)))"
    by (simp add: tables_same_def b(4))
  from run_keeps_tables [OF run b(2) keeps roots(2) this roots(1) apart secs]
  have kept: "tables_same (allocated (im_sections im) (vm k1)) (mem (vm k1)) (mem (vm (kern S')))"
      "spaces_of_programs ?sy (im_sections im) ?programs (mem (vm k1)) roots S'" by blast+
  note inv = run_invariant [OF run b(2)]
  then show "kernel_page_table (kernel_table (kern S')) = kernel_page_table kt" using b(5,6) by (simp add: own_table_def)
  have "vcpu_run (own_table ?S) (events_of (24 + j) es) (virtual ?sy ?S (24 + j)) = Some v" using inv alive by simp
  then obtain u where u: "virtual ?sy ?S (24 + j) = Some u" "vcpu_table v = vcpu_table u" using vcpu_run_table by blast
  have "new_vcpu k1 (?es a ! (24 + j)) u"
  proof -
    have "24 + j < 32" using program b0(2) by simp
    from started_vcpus [OF b(1) this, of ?sy live] u(1) show ?thesis by (simp add: b(3))
  qed
  moreover have "snd (snd (?es a ! (24 + j))) = Some (user_map (im_sections im) (?programs ! j) USER_PROGRAM_BASE)"
    using program boot_table_space [of "24 + j" "im_sections im" "im_entries im" a ?programs] by (simp add: length_boot_table)
  ultimately have t: "vcpu_table v \<noteq> own_table ?S" by (simp add: new_vcpu_def own_table_def u(2) b(5))
  then have "vcpu_table v \<noteq> own_table S'" using inv by simp
  then have "vcpu_table v \<in> roots"
      "lookup (mem (vm k1)) (vcpu_table v) = user_map (im_sections im) (?programs ! j) USER_PROGRAM_BASE"
    using kept(2) [unfolded spaces_of_programs_def, rule_format, OF alive] by auto
  moreover have "trees_ok (mem (vm k1)) (allocated (im_sections im) (vm k1)) roots" using roots(1) by (simp add: vm_ok_def)
  ultimately show "\<exists>A roots. trees_ok (mem (vm (kern S'))) A roots \<and> vcpu_table v \<in> roots \<and>
      lookup (mem (vm (kern S'))) (vcpu_table v) = user_map (im_sections im) (?programs ! j) USER_PROGRAM_BASE"
    using trees_ok_same [OF _ kept(1)] by metis
  show "\<not> cpu_supervisor (cpus S' g) \<and> csrs (kern S') g satp = SatpRegister_from_PageTable (vcpu_table v)"
    if "runs S' g (24 + j)"
    using harts_stay_in_their_process [OF b(2) run that] u t by auto
qed

text \<open>
  C1: End to end: after the boot and any run of the system in which the programs store to their own sections, a user
  program that is still there has an address space in which user mode reaches the pages of its section, each at its place,
  and nothing else but the page after them if the section ends with a page, which the code maps too; and every hart that
  runs it is in user mode and in that address space.
\<close>

theorem user_programs_confined:
  assumes "boots im blob arrays h k kt" and "programs_apart (im_sections im) (im_user_programs im)"
    and "kernel_main im fw hart_id blob headers arrays 0 left_over h c k = Inr (SECONDARY_CLAIM, c', k')"
    and "system_run (im_symbols im) board dev \<lparr>cpus = cs(h := c'), kern = k'\<rparr> es S'"
    and "keeps_to_sections (im_user_programs im) es"
    and "j < length (im_user_programs im)" and "virtual (im_symbols im) S' (24 + j) = Some v"
  shows "(\<forall>x pa f. sv39_translate (mem (vm (kern S'))) (SatpRegister_from_PageTable (vcpu_table v)) x = Some (pa, f) \<and> flag_user f \<longrightarrow>
        USER_PROGRAM_BASE \<le> x \<and>
        unat x < unat USER_PROGRAM_BASE + 4096 * (unat (Section_size (im_user_programs im ! j)) div 4096 + 1) \<and>
        pa = start_address (im_user_programs im ! j) + (x - USER_PROGRAM_BASE)) \<and>
     (\<forall>g. runs S' g (24 + j) \<longrightarrow>
        \<not> cpu_supervisor (cpus S' g) \<and> csrs (kern S') g satp = SatpRegister_from_PageTable (vcpu_table v))"
proof -
  note space = program_space [OF assms]
  obtain A roots where t: "trees_ok (mem (vm (kern S'))) A roots" "vcpu_table v \<in> roots"
      "lookup (mem (vm (kern S'))) (vcpu_table v) = user_map (im_sections im) (im_user_programs im ! j) USER_PROGRAM_BASE"
    using space(1) by blast
  have "user_sections_ok (im_sections im) (im_user_programs im ! j) USER_PROGRAM_BASE"
    using assms(1,6) by (simp add: boots_def image_ok_def)
  then show ?thesis using user_map_confines [OF t] space(2) by blast
qed

lemma sample_pointers: "\<forall>p<PROCESSES_MAXIMUM. process_pointer sample_symbols (Some p) \<noteq> 0"
proof (intro allI impI)
  fix p assume "p < PROCESSES_MAXIMUM"
  then have "p \<in> set [0..<32]" by (simp add: maximum_32)
  then show "process_pointer sample_symbols (Some p) \<noteq> 0"
    by (simp add: upt_rec process_pointer_def sample_symbols_def sizeof_Process_def) auto
qed

lemma sample_boots: "\<exists>kt. boots sample_image sample_blob empty_arrays 0 sample_reset kt"
proof -
  obtain kt vm1 where i: "PageTable_kernel_init sample_sections board_unknown \<lparr>kernel_page_table = 0, kernel_page_satp = 0\<rparr>
      sample_vm = Inr (kt, vm1)" "251 \<le> pages_left sample_sections vm1"
    using sample_kernel_init by blast
  have t: "\<exists>tree s. DeviceTree_parse sample_blob empty_arrays = Inr (tree, s)"
    using parse_encodes_arrays [OF sample_blob_encodes(1) sample_tree_counts(1)]
    by (auto simp: sample_blob_encodes(2) sample_tree_counts)
  have "kernel_table sample_reset = \<lparr>kernel_page_table = 0, kernel_page_satp = 0\<rparr>"
    using sample_reset(1) by (simp add: at_reset_def)
  then have "boots sample_image sample_blob empty_arrays 0 sample_reset kt"
    using i t sample_reset sample_image sample_pointers by (auto simp: boots_def sample_need)
  then show ?thesis ..
qed

lemma boot_starts_system_witness:
  "\<exists>c c' k' a. kernel_main sample_image (\<lambda>h. (0, 0)) 0 sample_blob 0x82000000 empty_arrays 0 c 0 c sample_reset =
       Inr (SECONDARY_CLAIM, c', k') \<and>
     system_ok sample_symbols \<lparr>cpus = (\<lambda>h. c)(0 := c'), kern = k'\<rparr>"
proof -
  obtain kt where boots: "boots sample_image sample_blob empty_arrays 0 sample_reset kt" using sample_boots by blast
  from boot_starts_system [OF this, of "\<lambda>h. (0, 0)" 0 "0x82000000" sample_cpu sample_cpu "\<lambda>h. sample_cpu"]
  show ?thesis unfolding sample_image(2) by blast
qed

text \<open>Right after the boot the programs are ready to be entered.\<close>

lemma programs_alive:
  assumes "boots im blob arrays h k kt" and "j < length (im_user_programs im)"
  obtains c' k' v where "kernel_main im fw hart_id blob headers arrays 0 left_over h c k = Inr (SECONDARY_CLAIM, c', k')"
    "virtual (im_symbols im) \<lparr>cpus = cs(h := c'), kern = k'\<rparr> (24 + j) = Some v"
proof -
  let ?S = "\<lambda>c' k'. \<lparr>cpus = cs(h := c'), kern = k'\<rparr>"
  let ?es = "\<lambda>a. boot_table (im_sections im) (im_entries im) a (im_user_programs im)"
  obtain c' k' k1 a K live where b: "kernel_main im fw hart_id blob headers arrays 0 left_over h c k = Inr (SECONDARY_CLAIM, c', k')"
      "started (im_sections im) K (?es a) h k1" "virtual (im_symbols im) (?S c' k') = vcpu_of (im_symbols im) live k1"
    using boot_system [OF assms(1), of fw hart_id headers left_over c cs] by blast
  have "length (im_user_programs im) \<le> 8" using assms(1) by (simp add: boots_def)
  then have "virtual (im_symbols im) (?S c' k') (24 + j) \<noteq> None"
    using started_vcpus [OF b(2), of "24 + j" "im_symbols im" live] assms(2)
    by (auto simp: b(3) length_boot_table split: option.splits)
  then show ?thesis using that b(1) by blast
qed

lemma user_programs_confined_witness:
  "\<exists>c' k' v. virtual sample_symbols \<lparr>cpus = (\<lambda>h. sample_cpu)(0 := c'), kern = k'\<rparr> 24 = Some v \<and>
     (\<forall>x pa f. sv39_translate (mem (vm k')) (SatpRegister_from_PageTable (vcpu_table v)) x = Some (pa, f) \<and> flag_user f \<longrightarrow>
        pa = 0x80200000 + (x - USER_PROGRAM_BASE))"
proof -
  obtain kt where boots: "boots sample_image sample_blob empty_arrays 0 sample_reset kt" using sample_boots by blast
  have j: "0 < length (im_user_programs sample_image)" by (simp add: sample_image(5))
  obtain c' k' v where b: "kernel_main sample_image (\<lambda>h. (0, 0)) 0 sample_blob 0x82000000 empty_arrays 0 sample_cpu 0
        sample_cpu sample_reset = Inr (SECONDARY_CLAIM, c', k')"
      "virtual (im_symbols sample_image) \<lparr>cpus = (\<lambda>h. sample_cpu)(0 := c'), kern = k'\<rparr> (24 + 0) = Some v"
    by (rule programs_alive [OF boots j])
  have apart: "programs_apart (im_sections sample_image) (im_user_programs sample_image)"
    by (simp add: programs_apart_def sample_image(3,5) sample_sections_def sample_section_def)
  have "keeps_to_sections (im_user_programs sample_image) []" by (simp add: keeps_to_sections_def)
  from user_programs_confined [OF boots apart b(1) system_run.stop this j b(2)]
  have "\<forall>x pa f. sv39_translate (mem (vm k')) (SatpRegister_from_PageTable (vcpu_table v)) x = Some (pa, f) \<and> flag_user f \<longrightarrow>
      pa = 0x80200000 + (x - USER_PROGRAM_BASE)"
    by (simp add: sample_image(2,5) sample_section_def)
  with b(2) show ?thesis by (auto simp: sample_image(2))
qed

end
