(* ===== verification/Last_Program.thy ===== *)
theory Last_Program
  imports System_Boot
begin

text \<open>
  The one page too many that every address space maps, and what lies there: for the program that is linked last it is the
  first page that the kernel allocates, the root of its own page table.
\<close>

section \<open>The layout of the image\<close>

text \<open>
  kernel/kernel.lds and misc/make\_userexec\_blob\_asm.sh: a program ends with a page, the pages to allocate begin where the
  last program ends, and the addresses of the special sections are not among the virtual ones of a program.
\<close>

definition linked_last :: "Sections \<Rightarrow> Section \<Rightarrow> bool" where
  "linked_last ss p \<longleftrightarrow> is_aligned (end_address p) PAGE_SIZE \<and> end_address p = start_address (SECTION_PAGES ss) \<and>
     (\<forall>s\<in>{SECTION_GLOBAL_SPECIAL ss, SECTION_USER_SPECIAL ss}.
        unat (start_address s) + 4096 * rounds s \<le> unat USER_PROGRAM_BASE \<or>
        unat USER_PROGRAM_BASE + unat (Section_size p) + 4096 \<le> unat (start_address s)) \<and>
     unat USER_PROGRAM_BASE + unat (Section_size p) + 4096 < 2 ^ 64"

lemma linked_last_apart:
  assumes "linked_last ss p" and "s \<in> {SECTION_GLOBAL_SPECIAL ss, SECTION_USER_SPECIAL ss}" and "i < PAGE_SIZE"
  shows "\<not> in_run (start_address s) (rounds s) (USER_PROGRAM_BASE + Section_size p + i)"
proof -
  have l: "unat (start_address s) + 4096 * rounds s \<le> unat USER_PROGRAM_BASE \<or>
      unat USER_PROGRAM_BASE + unat (Section_size p) + 4096 \<le> unat (start_address s)"
      "unat USER_PROGRAM_BASE + unat (Section_size p) + 4096 < 2 ^ 64"
    using assms(1,2) unfolding linked_last_def by blast+
  have i: "unat i < 4096" using assms(3) by (simp add: PAGE_SIZE_def word_less_nat_alt)
  then have "unat (USER_PROGRAM_BASE + Section_size p + i) = unat USER_PROGRAM_BASE + unat (Section_size p) + unat i"
    using l(2) by (simp add: unat_word_add_less)
  then show ?thesis using l(1) i unfolding in_run_def by linarith
qed

text \<open>The kernel's page table is the first page that is ever allocated.\<close>

lemma kernel_table_first:
  assumes "PageTable_kernel_init ss board kt v = Inr (kt', v')" and "kernel_page_table kt = 0" and "next_page v = 0"
  shows "kernel_page_table kt' = start_address (SECTION_PAGES ss)"
proof -
  obtain t v1 where t: "Page_alloc ss v = Inr (t, v1)" "kernel_page_table kt' = t"
    using assms(1,2) by (cases "Page_alloc ss v") (auto simp: PageTable_kernel_init_def Let_def bindr_Inr_iff)
  then show ?thesis using assms(3) by (auto simp: Page_alloc_def Let_def split: if_splits)
qed

section \<open>The kernel's page table is within reach\<close>

lemma eight_aligned:
  assumes "is_aligned a PAGE_SIZE" and "is_aligned b PAGE_SIZE"
  shows "is_aligned (a + b + 8 * ucast (n :: 9 word)) 8"
proof -
  obtain k l where "a = k * PAGE_SIZE" "b = l * PAGE_SIZE" using page_of_times [OF assms(1)] page_of_times [OF assms(2)] by metis
  then have e: "a + b + 8 * ucast n = push_bit 3 (512 * k + 512 * l + ucast n)"
    by (simp add: PAGE_SIZE_def push_bit_eq_mult algebra_simps)
  have "(8 - 1 :: u64) = mask 3" by (simp add: mask_eq_exp_minus_1)
  then show ?thesis unfolding e is_aligned_def by (simp only: take_bit_eq_mask [symmetric] take_bit_push_bit) simp
qed

text \<open>
  C3: In every state that the system reaches from the reset, one store in user mode of the program that is linked last gives
  any entry of the root of the kernel's page table any value: the root lies right behind the program's section in its own
  address space, in the page that \<open>PageTable_map_section\<close> maps too many, and every trap handler runs with it.
\<close>

theorem last_program_reaches_kernel_table:
  assumes boots: "boots im blob arrays h k kt" and apart: "programs_apart (im_sections im) (im_user_programs im)"
    and main: "kernel_main im fw hart_id blob headers arrays 0 left_over h c k = Inr (SECONDARY_CLAIM, c', k')"
    and run: "system_run (im_symbols im) board dev \<lparr>cpus = cs(h := c'), kern = k'\<rparr> es S'"
    and keeps: "keeps_to_sections (im_user_programs im) es"
    and program: "j < length (im_user_programs im)" and alive: "virtual (im_symbols im) S' (24 + j) = Some v"
    and fresh: "next_page (vm k) = 0" and last: "linked_last (im_sections im) (im_user_programs im ! j)"
  shows "(\<exists>f. sv39_translate (mem (vm (kern S'))) (SatpRegister_from_PageTable (vcpu_table v))
         (USER_PROGRAM_BASE + Section_size (im_user_programs im ! j) + 8 * ucast n) =
       Some (entry_at (kernel_page_table (kernel_table (kern S'))) n, f) \<and> flag_user f \<and> flag_read f \<and> flag_write f) \<and>
     (\<forall>g. runs S' g (24 + j) \<longrightarrow> system_step (im_symbols im) board dev S'
       (Some (24 + j, Stores (USER_PROGRAM_BASE + Section_size (im_user_programs im ! j) + 8 * ucast n) w))
       (set_memory (entry_at (kernel_page_table (kernel_table (kern S'))) n) w S'))"
proof -
  let ?p = "im_user_programs im ! j"
  let ?x = "USER_PROGRAM_BASE + Section_size ?p + 8 * ucast n"
  note space = program_space [OF boots apart main run keeps program alive]
  obtain A roots where t: "trees_ok (mem (vm (kern S'))) A roots" "vcpu_table v \<in> roots"
      "lookup (mem (vm (kern S'))) (vcpu_table v) = user_map (im_sections im) ?p USER_PROGRAM_BASE"
    using space(1) by blast
  have im: "image_ok im (vm k)" and zero: "kernel_page_table (kernel_table k) = 0"
    using boots by (simp_all add: boots_def at_reset_def)
  obtain vm1 where init: "PageTable_kernel_init (im_sections im) (im_board im) (kernel_table k) (vm k) = Inr (kt, vm1)"
    using boots by (auto simp: boots_def)
  have secs: "user_sections_ok (im_sections im) ?p USER_PROGRAM_BASE" using im program by (simp add: image_ok_def)
  have table: "kernel_page_table (kernel_table (kern S')) = end_address ?p"
    using kernel_table_first [OF init zero fresh] space(3) last by (simp add: linked_last_def)
  have al: "is_aligned (end_address ?p) PAGE_SIZE" using last unfolding linked_last_def by blast
  have i: "8 * (ucast n :: u64) < PAGE_SIZE" by (rule eight_ucast_less)
  have entry: "entry_at (end_address ?p) n = end_address ?p + 8 * ucast n" by (simp add: entry_at_def entry_addr_def)
  obtain f where f: "sv39_translate (mem (vm (kern S'))) (SatpRegister_from_PageTable (vcpu_table v)) ?x =
      Some (entry_at (kernel_page_table (kernel_table (kern S'))) n, f)" "flag_user f" "flag_read f" "flag_write f"
    using user_map_past_end [OF t secs al i linked_last_apart [OF last _ i]] unfolding table entry by blast
  have "is_aligned (start_address ?p) PAGE_SIZE" "is_aligned USER_PROGRAM_BASE PAGE_SIZE"
    using secs by (simp_all add: user_sections_ok_def section_ok_def)
  then have "is_aligned (Section_size ?p) PAGE_SIZE" "is_aligned USER_PROGRAM_BASE PAGE_SIZE"
    using al page_of_times [OF al] page_of_times [of "start_address ?p"] aligned_times [of "page_of (end_address ?p) - page_of (start_address ?p)"]
    by (simp_all add: Section_size_def left_diff_distrib)
  then have "is_aligned ?x 8" by (intro eight_aligned)
  then have "user_store S' g ?x = Some (entry_at (kernel_page_table (kernel_table (kern S'))) n)" if "runs S' g (24 + j)" for g
    using space(2) [OF that] f by (simp add: user_store_def)
  then show ?thesis using f system_step.stores by blast
qed

text \<open>An image with one program, right before the pages.\<close>

definition linked_program :: Section where
  "linked_program = sample_section 0x7FFFF000 0x80000000"

definition linked_image :: Image where
  "linked_image = sample_image\<lparr>im_user_programs := [linked_program]\<rparr>"

lemma linked_image: "image_ok linked_image sample_vm" "im_symbols linked_image = sample_symbols"
    "im_sections linked_image = sample_sections" "im_board linked_image = im_board sample_image"
    "im_user_programs linked_image = [linked_program]" "linked_last sample_sections linked_program"
proof -
  have "user_sections_ok sample_sections linked_program USER_PROGRAM_BASE"
    by (simp add: user_sections_ok_def section_ok_def sample_sections_def sample_section_def rounds_def linked_program_def
        section_rounds_def page_aligned_mod PAGE_SIZE_def USER_PROGRAM_BASE_def)
  then show "image_ok linked_image sample_vm"
    using sample_image(1) by (simp add: image_ok_def linked_image_def) (simp add: sample_image(3))
  show "linked_last sample_sections linked_program"
    by (simp add: linked_last_def linked_program_def sample_sections_def sample_section_def page_aligned_mod PAGE_SIZE_def
        USER_PROGRAM_BASE_def Section_size_def rounds_def section_rounds_def)
qed (simp_all add: linked_image_def sample_image(2,3))

lemma last_program_reaches_kernel_table_witness:
  "\<exists>c' k' v f. virtual sample_symbols \<lparr>cpus = (\<lambda>h. sample_cpu)(0 := c'), kern = k'\<rparr> 24 = Some v \<and>
     sv39_translate (mem (vm k')) (SatpRegister_from_PageTable (vcpu_table v)) 0x1001010 =
       Some (entry_at (kernel_page_table (kernel_table k')) 2, f) \<and> flag_user f \<and> flag_write f"
proof -
  obtain kt where "boots sample_image sample_blob empty_arrays 0 sample_reset kt" using sample_boots by blast
  moreover have "boot_pages sample_sections [linked_program] = boot_pages sample_sections [sample_section 0x80200000 0x80201000]"
    by (simp add: boot_pages_def user_init_pages_def rounds_def section_rounds_def sample_sections_def sample_section_def linked_program_def)
  ultimately have boots: "boots linked_image sample_blob empty_arrays 0 sample_reset kt"
    using linked_image by (simp add: boots_def sample_image(2-5) sample_reset(2))
  have j: "0 < length (im_user_programs linked_image)" by (simp add: linked_image(5))
  obtain c' k' v where b: "kernel_main linked_image (\<lambda>h. (0, 0)) 0 sample_blob 0x82000000 empty_arrays 0 sample_cpu 0
        sample_cpu sample_reset = Inr (SECONDARY_CLAIM, c', k')"
      "virtual (im_symbols linked_image) \<lparr>cpus = (\<lambda>h. sample_cpu)(0 := c'), kern = k'\<rparr> (24 + 0) = Some v"
    by (rule programs_alive [OF boots j])
  have apart: "programs_apart (im_sections linked_image) (im_user_programs linked_image)"
    by (simp add: programs_apart_def linked_image(3,5) sample_sections_def sample_section_def linked_program_def)
  have keeps: "keeps_to_sections (im_user_programs linked_image) []" by (simp add: keeps_to_sections_def)
  have "next_page (vm sample_reset) = 0" "linked_last (im_sections linked_image) (im_user_programs linked_image ! 0)"
    using linked_image(3,5,6) by (simp_all add: sample_reset(2) sample_vm_def)
  from last_program_reaches_kernel_table [OF boots apart b(1) system_run.stop keeps j b(2) this, of 2, THEN conjunct1]
  obtain f where "sv39_translate (mem (vm k')) (SatpRegister_from_PageTable (vcpu_table v)) 0x1001010 =
       Some (entry_at (kernel_page_table (kernel_table k')) 2, f)" "flag_user f" "flag_write f"
    by (auto simp: linked_image(2,5) linked_program_def sample_section_def Section_size_def USER_PROGRAM_BASE_def)
  with b(2) show ?thesis by (auto simp: linked_image(2))
qed

end
