(* ===== verification/Build_Options.thy ===== *)
theory Build_Options
  imports Debug
begin

text \<open>
  Code that only other builds run, or that only reports: \<open>assert\<close> (libc/assert.h), the ends of the main functions without example
  processes (kernel/boot/kernel.c), and the printers of a virtual address and of the registers of the serial port.
\<close>

section \<open>assert\<close>

text \<open>\<open>exits\<close> is \<open>ASSERT_EXIT\<close>; file, line, function and the text of the condition are the compiler's.\<close>

definition assert_libc ::
    "Board \<Rightarrow> bool \<Rightarrow> string \<Rightarrow> u32 \<Rightarrow> string \<Rightarrow> string \<Rightarrow> bool \<Rightarrow> nat \<Rightarrow> kernel \<Rightarrow> error + kernel" where
  "assert_libc board exits file line_number func text_of condition h k =
     (if \<not> condition
      then bindr (kprintf h (line ''assertion failed: %s:%u (%s): assert(%s)'')
                    [VStr (cstr file), VWord (scast line_number), VStr (cstr func), VStr (cstr text_of)] k) (\<lambda>(n, k1).
           if exits then exit board 1 h k1 else Inr k1)
      else Inr k)"

section \<open>The ends of the main functions\<close>

definition end_line :: "u64 \<Rightarrow> nat \<Rightarrow> kernel \<Rightarrow> error + kernel" where
  "end_line hart_id h k =
     bindr (SpinLock_acquire stdout_lock h k) (\<lambda>(e, k1).
     bindr (kprintf h (line ''end of kernel_main, hart id %d'') [VWord hart_id] k1) (\<lambda>(n, k2).
     SpinLock_release stdout_lock h k2))"

definition primary_end :: "Board \<Rightarrow> u64 \<Rightarrow> nat \<Rightarrow> kernel \<Rightarrow> error + kernel" where
  "primary_end board hart_id h k = bindr (end_line hart_id h k) (\<lambda>k1. exit board 0 h k1)"

text \<open>Should the firmware return, the loop that follows keeps this state for ever.\<close>

definition secondary_end :: "u64 \<Rightarrow> nat \<Rightarrow> kernel \<Rightarrow> error + kernel" where
  "secondary_end hart_id h k = bindr (end_line hart_id h k) (\<lambda>k1. Inr (k1\<lparr>sbi := sbi_hart_stop (sbi k1)\<rparr>))"

section \<open>Printers\<close>

definition VirtualAddress_print :: "addr \<Rightarrow> action list" where
  "VirtualAddress_print va =
     [Print (cstr ''VirtualAddress(%p){ '') [VWord va],
      Print (cstr ''L2: %u, '') [VWord (level2_entry_number va)],
      Print (cstr ''L1: %u, '') [VWord (level1_entry_number va)],
      Print (cstr ''L0: %u, '') [VWord (level0_entry_number va)],
      Print (cstr ''offset: %u '') [VWord (page_offset va)],
      Print (line ''}'') []]"

definition SIFIVE_UART_REG_TRANSMIT_CONTROL :: u64 where "SIFIVE_UART_REG_TRANSMIT_CONTROL = 2"

text \<open>The name of the register without its first part; the register is read for the call.\<close>

definition SIFIVE_UART_PRINT_REG ::
    "'d device \<Rightarrow> addr \<Rightarrow> string \<Rightarrow> u64 \<Rightarrow> nat \<Rightarrow> kernel \<Rightarrow> 'd \<Rightarrow> error + kernel \<times> 'd" where
  "SIFIVE_UART_PRINT_REG dev base name register h k d =
     (let (value, k1, d1) = sifive_uart_read_register dev (SIFIVE_UART_REG base register) k d in
      bindr (kprintf h (line ''%-18s @ %p = 0x%08x'')
               [VStr (drop (length ''SIFIVE_UART_REG_'') (cstr name)), VWord (SIFIVE_UART_REG base register), VWord (scast value)] k1)
        (\<lambda>(n, k2). Inr (k2, d1)))"

definition sifive_uart_print_regs :: "'d device \<Rightarrow> addr \<Rightarrow> nat \<Rightarrow> kernel \<Rightarrow> 'd \<Rightarrow> error + kernel \<times> 'd" where
  "sifive_uart_print_regs dev uart h k d =
     bindr (SIFIVE_UART_PRINT_REG dev uart ''SIFIVE_UART_REG_TRANSMIT_CONTROL'' SIFIVE_UART_REG_TRANSMIT_CONTROL h k d) (\<lambda>(k1, d1).
     bindr (SIFIVE_UART_PRINT_REG dev uart ''SIFIVE_UART_REG_RECEIVE_CONTROL'' SIFIVE_UART_REG_RECEIVE_CONTROL h k1 d1) (\<lambda>(k2, d2).
     bindr (SIFIVE_UART_PRINT_REG dev uart ''SIFIVE_UART_REG_INTERRUPT_ENABLE'' SIFIVE_UART_REG_INTERRUPT_ENABLE h k2 d2) (\<lambda>(k3, d3).
     bindr (SIFIVE_UART_PRINT_REG dev uart ''SIFIVE_UART_REG_INTERRUPT_PENDING'' SIFIVE_UART_REG_INTERRUPT_PENDING h k3 d3) (\<lambda>(k4, d4).
     SIFIVE_UART_PRINT_REG dev uart ''SIFIVE_UART_REG_BAUD_DIVISOR'' SIFIVE_UART_REG_BAUD_DIVISOR h k4 d4))))"

section \<open>A failed assertion\<close>

definition assert_text :: "string \<Rightarrow> u32 \<Rightarrow> string \<Rightarrow> string \<Rightarrow> byte list" where
  "assert_text file line_number func text_of = bytes_of ''assertion failed: '' @ bytes_of file @ [58] @ radix 10 (unat line_number) @
     bytes_of '' ('' @ bytes_of func @ bytes_of ''): assert('' @ bytes_of text_of @ bytes_of '')'' @ [10]"

definition c_text :: "string \<Rightarrow> bool" where
  "c_text s \<longleftrightarrow> 0 \<notin> set (bytes_of s) \<and> length s < 2 ^ 31"

lemma c_text_str: "c_text s \<Longrightarrow> directive_text (simple ConvStr) (VStr (cstr s) # args) = Some (chars (bytes_of s), args)"
proof -
  assume c: "c_text s"
  then have "takeWhile (\<lambda>b. b \<noteq> 0) (cstr s) = bytes_of s"
    by (auto simp: c_text_def cstr_def takeWhile_append)
  moreover have "length (bytes_of s) < 2147483648" using c by (simp add: c_text_def)
  ultimately show ?thesis by (simp add: pad_def cstr_def)
qed

lemma unsigned_directive: "directive_text (simple ConvUnsigned) (VWord w # args) = Some (chars (radix 10 (unat (ucast w :: u32))), args)"
proof -
  have "length (radix 10 (unat (ucast w :: u32))) \<le> 64" by (rule radix_short) (use unat_short in auto)
  then show ?thesis by (simp add: pad_def)
qed

lemma says_assert:
  assumes "c_text file" and "c_text func" and "c_text text_of"
  shows "says (Print (line ''assertion failed: %s:%u (%s): assert(%s)'')
     [VStr (cstr file), VWord (scast line_number), VStr (cstr func), VStr (cstr text_of)]) (chars (assert_text file line_number func text_of))"
proof -
  let ?ds = "map Lit (bytes_of ''assertion failed: '') @ simple ConvStr # map Lit [58] @ simple ConvUnsigned # map Lit (bytes_of '' ('') @
     simple ConvStr # map Lit (bytes_of ''): assert('') @ simple ConvStr # map Lit (bytes_of '')'' @ [10]) @ []"
  have t: "format_text ?ds [VStr (cstr file), VWord (scast line_number), VStr (cstr func), VStr (cstr text_of)] =
      Some (chars (assert_text file line_number func text_of), [])"
    by (simp add: format_lits(3) c_text_str [OF assms(1)] c_text_str [OF assms(2)] c_text_str [OF assms(3)]
        unsigned_directive ucast_scast_u32 assert_text_def del: directive_text.simps(3))
  show ?thesis
    by (rule saysI [OF _ _ t]) (simp_all add: format_lits(2), simp_all add: format_string_def bytes_of_def)
qed

text \<open>
  An assertion that holds does nothing; one that fails says so, with its place, and turns the machine off with the exit
  code 1 where the build asks for that.
\<close>

theorem assert_reports:
  assumes "quiet_io h k" and "c_text file" and "c_text func" and "c_text text_of"
  shows "assert_libc board exits file line_number func text_of True h k = Inr k"
    and "\<exists>k'. assert_libc board exits file line_number func text_of False h k = Inr k' \<and>
     kernel_out h k' = kernel_out h k @ assert_text file line_number func text_of @ (if exits then exit_text 1 else []) \<and>
     requests (sbi k') = requests (sbi k) @ (if exits then [shutdown_call 0, shutdown_call 1] else [])"
proof -
  show "assert_libc board exits file line_number func text_of True h k = Inr k" by (simp add: assert_libc_def)
  have "writes [Print (line ''assertion failed: %s:%u (%s): assert(%s)'')
     [VStr (cstr file), VWord (scast line_number), VStr (cstr func), VStr (cstr text_of)]] (assert_text file line_number func text_of)"
    using writes_Cons [OF says_assert [OF assms(2-4)], of "[]" "[]"] by simp
  from run_writes [OF assms(1) this] obtain n k1 where k1: "kprintf h (line ''assertion failed: %s:%u (%s): assert(%s)'')
       [VStr (cstr file), VWord (scast line_number), VStr (cstr func), VStr (cstr text_of)] k = Inr (n, k1)"
      "prints_only h k k1" "kernel_out h k1 = kernel_out h k @ assert_text file line_number func text_of"
    by (auto simp: bindr_def split: sum.splits)
  have r: "requests (sbi k1) = requests (sbi k)" using k1(2) by (simp add: prints_only_def)
  show "\<exists>k'. assert_libc board exits file line_number func text_of False h k = Inr k' \<and>
     kernel_out h k' = kernel_out h k @ assert_text file line_number func text_of @ (if exits then exit_text 1 else []) \<and>
     requests (sbi k') = requests (sbi k) @ (if exits then [shutdown_call 0, shutdown_call 1] else [])"
    using exit_ok [OF quiet_prints [OF k1(2)], of board 1] by (auto simp: assert_libc_def k1(1,3) r)
qed

section \<open>The ends\<close>

lemma release_keeps_flag:
  "SpinLock_release l h k = Inr k' \<Longrightarrow> h < length (hart_scratches k) \<Longrightarrow>
     interrupts_before_locking (my_hart_scratch h k') = interrupts_before_locking (my_hart_scratch h k)"
  by (auto simp: SpinLock_release_def my_hart_post_lock_release_def Let_def set_scratch_def my_hart_scratch_def enable_traps_now_eq
      split: if_splits)

lemma end_line_ok:
  assumes "booting h k"
  shows "\<exists>k'. end_line hart_id h k = Inr k' \<and> quiet_io h k' \<and> requests (sbi k') = requests (sbi k)"
proof -
  note p = printed_section [OF assms]
  have "\<exists>n k2. kprintf h (line ''end of kernel_main, hart id %d'') [VWord hart_id] (entered stdout_lock h k) = Inr (n, k2) \<and>
      prints_only h (entered stdout_lock h k) k2"
    by (rule kprintf_conv [OF p(2) simple_texts(2), of "bytes_of ''end of kernel_main, hart id ''" "[10]"]) (simp_all add: plain_simps)
  then obtain n k2 where k2: "kprintf h (line ''end of kernel_main, hart id %d'') [VWord hart_id] (entered stdout_lock h k) = Inr (n, k2)"
      "prints_only h (entered stdout_lock h k) k2" by blast
  then obtain k3 where k3: "SpinLock_release stdout_lock h k2 = Inr k3" "printed h k k3" "sbi k3 = sbi k2"
    using p(4) by (auto simp: prints_only_def)
  have "h < length (hart_scratches k2)" "\<not> interrupts_before_locking (my_hart_scratch h k2)"
    using k2(2) by (simp_all add: prints_only_def quiet_io_def hart_ok_def)
  then have "quiet_io h k3"
    using release_keeps_flag [OF k3(1)] k3(2)
    by (simp add: printed_def booting_def trap_ready_def quiet_io_def sched_ok_def)
  then show ?thesis using p(1,3) k2 k3(1,3) by (auto simp: end_line_def prints_only_def)
qed

lemma replicate_six: "replicate 6 x = [x, x, x, x, x, x]"
  by (simp add: numeral_eq_Suc)

text \<open>Without example processes the machine is turned off, and a hart that came second is stopped.\<close>

theorem main_ends:
  assumes "booting h k"
  shows "\<exists>k'. primary_end board hart_id h k = Inr k' \<and> requests (sbi k') = requests (sbi k) @ [shutdown_call 0, shutdown_call 1]"
    and "\<exists>k'. secondary_end hart_id h k = Inr k' \<and>
      requests (sbi k') = requests (sbi k) @ [\<lparr>eid = 0x48534D, fid = 1, sbi_args = [0, 0, 0, 0, 0, 0]\<rparr>]"
proof -
  obtain k1 where k1: "end_line hart_id h k = Inr k1" "quiet_io h k1" "requests (sbi k1) = requests (sbi k)"
    using end_line_ok [OF assms] by blast
  show "\<exists>k'. primary_end board hart_id h k = Inr k' \<and> requests (sbi k') = requests (sbi k) @ [shutdown_call 0, shutdown_call 1]"
    using exit_ok [OF k1(2), of board 0] k1(3) by (auto simp: primary_end_def k1(1))
  show "\<exists>k'. secondary_end hart_id h k = Inr k' \<and>
      requests (sbi k') = requests (sbi k) @ [\<lparr>eid = 0x48534D, fid = 1, sbi_args = [0, 0, 0, 0, 0, 0]\<rparr>]"
    using k1(3) by (simp add: secondary_end_def k1(1) sbi_hart_stop_def sbi_call_def requests_def replicate_six)
qed

section \<open>What the printers print\<close>

definition address_text :: "addr \<Rightarrow> byte list" where
  "address_text va = bytes_of ''VirtualAddress('' @ pointer_text va @ bytes_of ''){ '' @
     bytes_of ''L2: '' @ radix 10 (unat (level2_entry_number va)) @ bytes_of '', '' @
     bytes_of ''L1: '' @ radix 10 (unat (level1_entry_number va)) @ bytes_of '', '' @
     bytes_of ''L0: '' @ radix 10 (unat (level0_entry_number va)) @ bytes_of '', '' @
     bytes_of ''offset: '' @ radix 10 (unat (page_offset va)) @ bytes_of '' '' @ bytes_of ''}'' @ [10]"

lemma masked_word: "n \<le> 32 \<Longrightarrow> unat (ucast ((w :: u64) AND mask n) :: u32) = unat (w AND mask n)"
proof -
  assume "n \<le> 32"
  have "unat (w AND mask n) = take_bit n (unat w)"
    by (simp add: take_bit_eq_mask [symmetric] unsigned_take_bit_eq)
  moreover have "take_bit n (unat w) < 2 ^ 32"
    using take_bit_nat_less_exp [of n "unat w"] power_increasing [OF \<open>n \<le> 32\<close>, of "2 :: nat"] by linarith
  ultimately show ?thesis using \<open>n \<le> 32\<close> by (simp add: unsigned_ucast_eq min_absorb2)
qed

lemma says_unsigned:
  assumes "plain a" and "plain b" and "fmt = a @ [37, 117] @ b @ [0]"
  shows "says (Print fmt [VWord w]) (chars (a @ radix 10 (unat (ucast w :: u32)) @ b))"
  using says_conv [OF assms(1,2) _ unsigned_directive, of fmt w "[]"] assms(3) by simp

lemma says_pointer:
  assumes "plain a" and "plain b" and "fmt = a @ [37, 112] @ b @ [0]"
  shows "says (Print fmt [VWord w]) (chars (a @ pointer_text w @ b))"
  using says_conv [OF assms(1,2) _ pointer_directive, of fmt w "[]"] assms(3) by simp

lemma entry_numbers_small:
  "unat (ucast (level2_entry_number va) :: u32) = unat (level2_entry_number va)"
  "unat (ucast (level1_entry_number va) :: u32) = unat (level1_entry_number va)"
  "unat (ucast (level0_entry_number va) :: u32) = unat (level0_entry_number va)"
  "unat (ucast (page_offset va) :: u32) = unat (page_offset va)"
  by (simp_all add: level2_entry_number_def level1_entry_number_def level0_entry_number_def page_offset_def masked_word)

lemma address_writes: "writes (VirtualAddress_print va) (address_text va)"
proof -
  have "says (Print (cstr ''VirtualAddress(%p){ '') [VWord va]) (chars (bytes_of ''VirtualAddress('' @ pointer_text va @ bytes_of ''){ ''))"
    by (rule says_pointer) (simp_all add: plain_simps cstr_def)
  moreover have "says (Print (cstr ''L2: %u, '') [VWord w]) (chars (bytes_of ''L2: '' @ radix 10 (unat (ucast w :: u32)) @ bytes_of '', ''))"
    "says (Print (cstr ''L1: %u, '') [VWord w]) (chars (bytes_of ''L1: '' @ radix 10 (unat (ucast w :: u32)) @ bytes_of '', ''))"
    "says (Print (cstr ''L0: %u, '') [VWord w]) (chars (bytes_of ''L0: '' @ radix 10 (unat (ucast w :: u32)) @ bytes_of '', ''))"
    "says (Print (cstr ''offset: %u '') [VWord w]) (chars (bytes_of ''offset: '' @ radix 10 (unat (ucast w :: u32)) @ bytes_of '' ''))" for w
    by (rule says_unsigned; simp add: plain_simps cstr_def)+
  moreover have "says (Print (line ''}'') []) (chars (bytes_of ''}'' @ [10]))"
    using says_plain [of "bytes_of ''}'' @ [10]"] by (simp add: plain_simps)
  ultimately have "writes (VirtualAddress_print va)
     ((bytes_of ''VirtualAddress('' @ pointer_text va @ bytes_of ''){ '') @
      (bytes_of ''L2: '' @ radix 10 (unat (ucast (level2_entry_number va) :: u32)) @ bytes_of '', '') @
      (bytes_of ''L1: '' @ radix 10 (unat (ucast (level1_entry_number va) :: u32)) @ bytes_of '', '') @
      (bytes_of ''L0: '' @ radix 10 (unat (ucast (level0_entry_number va) :: u32)) @ bytes_of '', '') @
      (bytes_of ''offset: '' @ radix 10 (unat (ucast (page_offset va) :: u32)) @ bytes_of '' '') @ (bytes_of ''}'' @ [10]) @ [])"
    unfolding VirtualAddress_print_def by (intro writes_Cons) simp_all
  then show ?thesis by (simp only: entry_numbers_small address_text_def append_assoc append_Nil2)
qed

text \<open>The print of an address is its numbers, which are all less than two to the 32.\<close>

theorem virtual_address_printed:
  assumes "quiet_io h k"
  shows "\<exists>k'. run_actions h (VirtualAddress_print va) k = Inr k' \<and> kernel_out h k' = kernel_out h k @ address_text va"
  using run_writes [OF assms address_writes] by blast

lemma says_prints:
  assumes "quiet_io h k" and "says (Print fmt args) t"
  obtains n k' where "kprintf h fmt args k = Inr (n, k')" "prints_only h k k'"
proof -
  have "list_all2 says [Print fmt args] [t]" using assms(2) by (simp only: list.rel_inject list.rel_intros)
  from run_says [OF assms(1) this] that show thesis by (auto simp: bindr_Inr_iff)
qed

lemma print_reg_ok:
  assumes "quiet_io h k" and "drop (length ''SIFIVE_UART_REG_'') (cstr name) = cstr short" and "length short < 2 ^ 31 - 1"
  shows "\<exists>k' d'. SIFIVE_UART_PRINT_REG dev base name register h k d = Inr (k', d') \<and> quiet_io h k' \<and>
    requests (sbi k') = requests (sbi k) \<and> mmio k' = mmio k @ [ReadWord (base + 4 * register)]"
proof -
  obtain v d1 where v: "dev (base + 4 * register) d = (v, d1)" by fastforce
  let ?k1 = "k\<lparr>mmio := mmio k @ [ReadWord (base + 4 * register)]\<rparr>"
  have "0 \<in> set (cstr short)" "length (cstr short) < 2147483648" using assms(3) by (simp_all add: cstr_def)
  then have "typed_call ''%-18s @ %p = 0x%08x'' [VStr (cstr short), VWord (base + 4 * register), VWord (scast v)]"
    by (simp add: typed_call_def read_spec_def take_char_def read_width_def conv_of_def bytes_of_def radix.simps digit_char_def)
  from typed_call_says(2) [OF this] obtain t where
    t: "says (Print (line ''%-18s @ %p = 0x%08x'') [VStr (cstr short), VWord (base + 4 * register), VWord (scast v)]) t" by blast
  have "quiet_io h ?k1" using assms(1) by (simp add: quiet_io_devices)
  then obtain n k2 where k2: "kprintf h (line ''%-18s @ %p = 0x%08x'')
      [VStr (cstr short), VWord (base + 4 * register), VWord (scast v)] ?k1 = Inr (n, k2)" "prints_only h ?k1 k2"
    by (rule says_prints [OF _ t])
  have "SIFIVE_UART_PRINT_REG dev base name register h k d = Inr (k2, d1)"
    unfolding SIFIVE_UART_PRINT_REG_def assms(2) using k2(1)
    by (simp add: sifive_uart_read_register_def SIFIVE_UART_REG_def v load_word_def)
  then show ?thesis using k2(2) by (auto simp: prints_only_def output_frame_def)
qed

text \<open>Printing the registers reads the five registers that have no effect on the queue, in order, and only prints besides.\<close>

theorem uart_registers_printed:
  assumes "quiet_io h k"
  shows "\<exists>k' d'. sifive_uart_print_regs dev uart h k d = Inr (k', d') \<and> quiet_io h k' \<and>
     requests (sbi k') = requests (sbi k) \<and>
     mmio k' = mmio k @ map (\<lambda>r. ReadWord (uart + 4 * r)) [2, 3, 4, 5, 6]"
proof -
  have names: "drop (length ''SIFIVE_UART_REG_'') (cstr ''SIFIVE_UART_REG_TRANSMIT_CONTROL'') = cstr ''TRANSMIT_CONTROL''"
    "drop (length ''SIFIVE_UART_REG_'') (cstr ''SIFIVE_UART_REG_RECEIVE_CONTROL'') = cstr ''RECEIVE_CONTROL''"
    "drop (length ''SIFIVE_UART_REG_'') (cstr ''SIFIVE_UART_REG_INTERRUPT_ENABLE'') = cstr ''INTERRUPT_ENABLE''"
    "drop (length ''SIFIVE_UART_REG_'') (cstr ''SIFIVE_UART_REG_INTERRUPT_PENDING'') = cstr ''INTERRUPT_PENDING''"
    "drop (length ''SIFIVE_UART_REG_'') (cstr ''SIFIVE_UART_REG_BAUD_DIVISOR'') = cstr ''BAUD_DIVISOR''" by (simp_all add: cstr_def bytes_of_def)
  obtain k1 d1 where 1: "SIFIVE_UART_PRINT_REG dev uart ''SIFIVE_UART_REG_TRANSMIT_CONTROL'' 2 h k d = Inr (k1, d1)" "quiet_io h k1"
      "requests (sbi k1) = requests (sbi k)" "mmio k1 = mmio k @ [ReadWord (uart + 4 * 2)]"
    using print_reg_ok [OF assms names(1)] by fastforce
  obtain k2 d2 where 2: "SIFIVE_UART_PRINT_REG dev uart ''SIFIVE_UART_REG_RECEIVE_CONTROL'' 3 h k1 d1 = Inr (k2, d2)" "quiet_io h k2"
      "requests (sbi k2) = requests (sbi k)" "mmio k2 = mmio k @ map (\<lambda>r. ReadWord (uart + 4 * r)) [2, 3]"
    using print_reg_ok [OF 1(2) names(2), of dev uart 3 d1] 1(3,4) by auto
  obtain k3 d3 where 3: "SIFIVE_UART_PRINT_REG dev uart ''SIFIVE_UART_REG_INTERRUPT_ENABLE'' 4 h k2 d2 = Inr (k3, d3)" "quiet_io h k3"
      "requests (sbi k3) = requests (sbi k)" "mmio k3 = mmio k @ map (\<lambda>r. ReadWord (uart + 4 * r)) [2, 3, 4]"
    using print_reg_ok [OF 2(2) names(3), of dev uart 4 d2] 2(3,4) by auto
  obtain k4 d4 where 4: "SIFIVE_UART_PRINT_REG dev uart ''SIFIVE_UART_REG_INTERRUPT_PENDING'' 5 h k3 d3 = Inr (k4, d4)" "quiet_io h k4"
      "requests (sbi k4) = requests (sbi k)" "mmio k4 = mmio k @ map (\<lambda>r. ReadWord (uart + 4 * r)) [2, 3, 4, 5]"
    using print_reg_ok [OF 3(2) names(4), of dev uart 5 d3] 3(3,4) by auto
  obtain k5 d5 where 5: "SIFIVE_UART_PRINT_REG dev uart ''SIFIVE_UART_REG_BAUD_DIVISOR'' 6 h k4 d4 = Inr (k5, d5)" "quiet_io h k5"
      "requests (sbi k5) = requests (sbi k)" "mmio k5 = mmio k @ map (\<lambda>r. ReadWord (uart + 4 * r)) [2, 3, 4, 5, 6]"
    using print_reg_ok [OF 4(2) names(5), of dev uart 6 d4] 4(3,4) by auto
  show ?thesis
    using 5(2-4) by (simp add: sifive_uart_print_regs_def SIFIVE_UART_REG_TRANSMIT_CONTROL_def SIFIVE_UART_REG_RECEIVE_CONTROL_def
        SIFIVE_UART_REG_INTERRUPT_ENABLE_def SIFIVE_UART_REG_INTERRUPT_PENDING_def SIFIVE_UART_REG_BAUD_DIVISOR_def 1(1) 2(1) 3(1) 4(1) 5(1))
qed

end
