(* ===== verification/Libc_Headers.thy ===== *)
theory Libc_Headers
  imports Prelude
begin

text \<open>
  The types and limits of libc/stdint.h, for both widths of pointers: what the compiler makes of each type, that it
  has the width and the limits of its name, and that it is the word type that the other theories use. One of them has not
  the sign of its name.
\<close>

section \<open>The compiler's types\<close>

text \<open>RISC-V ABIs Specification, 4.1: a plain \<open>char\<close> is unsigned, a \<open>long\<close> is as wide as a pointer.\<close>

datatype c_type = UnsignedChar | UnsignedShort | UnsignedInt | UnsignedLong | UnsignedLongLong
  | PlainChar | SignedShort | SignedInt | SignedLong | SignedLongLong

fun type_width :: "nat \<Rightarrow> c_type \<Rightarrow> nat" where
  "type_width pointer_bits UnsignedChar = 8"
| "type_width pointer_bits PlainChar = 8"
| "type_width pointer_bits UnsignedShort = 16"
| "type_width pointer_bits SignedShort = 16"
| "type_width pointer_bits UnsignedInt = 32"
| "type_width pointer_bits SignedInt = 32"
| "type_width pointer_bits UnsignedLong = pointer_bits"
| "type_width pointer_bits SignedLong = pointer_bits"
| "type_width pointer_bits UnsignedLongLong = 64"
| "type_width pointer_bits SignedLongLong = 64"

fun type_signed :: "c_type \<Rightarrow> bool" where
  "type_signed t \<longleftrightarrow> t \<in> {SignedShort, SignedInt, SignedLong, SignedLongLong}"

text \<open>The value of a number that is converted to the type, and the least and the greatest value of the type.\<close>

definition type_cast :: "nat \<Rightarrow> c_type \<Rightarrow> int \<Rightarrow> int" where
  "type_cast pointer_bits t x =
     (if type_signed t then signed_take_bit (type_width pointer_bits t - 1) x else take_bit (type_width pointer_bits t) x)"

definition type_min :: "nat \<Rightarrow> c_type \<Rightarrow> int" where
  "type_min pointer_bits t = (if type_signed t then - (2 ^ (type_width pointer_bits t - 1)) else 0)"

definition type_max :: "nat \<Rightarrow> c_type \<Rightarrow> int" where
  "type_max pointer_bits t = (if type_signed t then 2 ^ (type_width pointer_bits t - 1) else 2 ^ type_width pointer_bits t) - 1"

lemma type_cast_range:
  assumes "0 < pointer_bits"
  shows "type_min pointer_bits t \<le> type_cast pointer_bits t x" "type_cast pointer_bits t x \<le> type_max pointer_bits t"
  using assms signed_take_bit_int_greater_eq_minus_exp [of "type_width pointer_bits t - 1" x]
    signed_take_bit_int_less_exp [of "type_width pointer_bits t - 1" x] take_bit_int_less_exp [of "type_width pointer_bits t" x]
  by (auto simp: type_min_def type_max_def type_cast_def)

section \<open>The types of stdint.h\<close>

datatype std_type = Uint8_t | Uint16_t | Uint32_t | Uint64_t | Int8_t | Int16_t | Int32_t | Int64_t | Uintptr_t | Intptr_t

fun typedef_64 :: "std_type \<Rightarrow> c_type" where
  "typedef_64 Uint8_t = UnsignedChar"
| "typedef_64 Uint16_t = UnsignedShort"
| "typedef_64 Uint32_t = UnsignedInt"
| "typedef_64 Uint64_t = UnsignedLong"
| "typedef_64 Int8_t = PlainChar"
| "typedef_64 Int16_t = SignedShort"
| "typedef_64 Int32_t = SignedInt"
| "typedef_64 Int64_t = SignedLong"
| "typedef_64 Uintptr_t = UnsignedLong"
| "typedef_64 Intptr_t = SignedLong"

fun typedef_32 :: "std_type \<Rightarrow> c_type" where
  "typedef_32 Uint8_t = UnsignedChar"
| "typedef_32 Uint16_t = UnsignedShort"
| "typedef_32 Uint32_t = UnsignedInt"
| "typedef_32 Uint64_t = UnsignedLongLong"
| "typedef_32 Int8_t = PlainChar"
| "typedef_32 Int16_t = SignedShort"
| "typedef_32 Int32_t = SignedInt"
| "typedef_32 Int64_t = SignedLongLong"
| "typedef_32 Uintptr_t = UnsignedInt"
| "typedef_32 Intptr_t = SignedInt"

text \<open>The build has pointers of 64 or of 32 bits.\<close>

definition typedef_of :: "nat \<Rightarrow> std_type \<Rightarrow> c_type" where
  "typedef_of pointer_bits t = (if pointer_bits = 64 then typedef_64 t else typedef_32 t)"

text \<open>\<open>size_t\<close> of stddef.h is \<open>uintptr_t\<close>.\<close>

definition size_t_type :: "nat \<Rightarrow> c_type" where
  "size_t_type pointer_bits = typedef_of pointer_bits Uintptr_t"

section \<open>The limits\<close>

definition INT8_MIN :: int where "INT8_MIN = - 128"
definition INT8_MAX :: int where "INT8_MAX = 127"
definition UINT8_MAX :: int where "UINT8_MAX = 255"
definition INT16_MIN :: int where "INT16_MIN = - 32768"
definition INT16_MAX :: int where "INT16_MAX = 32767"
definition UINT16_MAX :: int where "UINT16_MAX = 65535"
definition INT32_MAX :: "nat \<Rightarrow> int" where "INT32_MAX b = type_cast b (typedef_of b Int32_t) 0x7fffffff"
definition INT32_MIN :: "nat \<Rightarrow> int" where "INT32_MIN b = type_cast b (typedef_of b Int32_t) 0x80000000"
definition UINT32_MAX :: "nat \<Rightarrow> int" where "UINT32_MAX b = type_cast b (typedef_of b Uint32_t) 0xffffffff"
definition INT64_MAX :: "nat \<Rightarrow> int" where "INT64_MAX b = type_cast b (typedef_of b Int64_t) 0x7fffffffffffffff"
definition INT64_MIN :: "nat \<Rightarrow> int" where "INT64_MIN b = type_cast b (typedef_of b Int64_t) 0x8000000000000000"
definition UINT64_MAX :: "nat \<Rightarrow> int" where "UINT64_MAX b = type_cast b (typedef_of b Uint64_t) 0xffffffffffffffff"

lemmas limit_defs = INT8_MIN_def INT8_MAX_def UINT8_MAX_def INT16_MIN_def INT16_MAX_def UINT16_MAX_def INT32_MAX_def INT32_MIN_def
  UINT32_MAX_def INT64_MAX_def INT64_MIN_def UINT64_MAX_def

definition limits :: "nat \<Rightarrow> (std_type \<times> int \<times> int) list" where
  "limits b = [(Uint8_t, 0, UINT8_MAX), (Uint16_t, 0, UINT16_MAX), (Uint32_t, 0, UINT32_MAX b), (Uint64_t, 0, UINT64_MAX b),
     (Int16_t, INT16_MIN, INT16_MAX), (Int32_t, INT32_MIN b, INT32_MAX b), (Int64_t, INT64_MIN b, INT64_MAX b)]"

text \<open>In both builds the limits are those of the types, but for the one that the next lemma is about.\<close>

lemma limits_exact:
  assumes "b = 64 \<or> b = 32" and "(t, low, high) \<in> set (limits b)"
  shows "low = type_min b (typedef_of b t)" "high = type_max b (typedef_of b t)"
  using assms
  by (auto simp: limits_def limit_defs typedef_of_def type_min_def type_max_def type_cast_def signed_take_bit_eq_take_bit_shift
      take_bit_eq_mod)

text \<open>\<open>int8_t\<close> is an unsigned type here: \<open>INT8_MIN\<close> is none of its values, and reads back as 128.\<close>

lemma int8_unsigned:
  "type_min b (typedef_of b Int8_t) = 0" "type_max b (typedef_of b Int8_t) = UINT8_MAX"
  "type_cast b (typedef_of b Int8_t) INT8_MIN = 128"
  by (simp_all add: typedef_of_def type_min_def type_max_def type_cast_def limit_defs take_bit_eq_mod)

section \<open>The types as words\<close>

text \<open>The words of the model have the values of the types.\<close>

lemma words_are_types:
  "uint (word_of_int x :: byte) = type_cast b (typedef_of b Uint8_t) x"
  "uint (word_of_int x :: u16) = type_cast b (typedef_of b Uint16_t) x"
  "uint (word_of_int x :: u32) = type_cast b (typedef_of b Uint32_t) x"
  "sint (word_of_int x :: u32) = type_cast b (typedef_of b Int32_t) x"
  "b = 64 \<or> b = 32 \<Longrightarrow> uint (word_of_int x :: u64) = type_cast b (typedef_of b Uint64_t) x"
  "b = 64 \<or> b = 32 \<Longrightarrow> sint (word_of_int x :: u64) = type_cast b (typedef_of b Int64_t) x"
  "uint (word_of_int x :: addr) = type_cast POINTER_BITS (size_t_type POINTER_BITS) x"
  by (auto simp: typedef_of_def type_cast_def size_t_type_def POINTER_BITS_def unsigned_of_int signed_of_int)

end
