(* ===== verification/Spec2Isabelle.thy ===== *)
theory Spec2Isabelle
  imports Stdio_Print Lock_Protocol Kernel_Space Device_Tree_Print Example_Processes Debug Kernel_Tests User_Library Last_Program Build_Options Libc_Headers
begin

text \<open>
  A verification development for the thos kernel (\<open>src/src\<close>): a small RISC-V kernel with preemptive processes on
  several harts, Sv39 page tables, line-buffered output over the SBI firmware, user programs with system calls, and a
  libc of its own for both sides.

  The parts of the program and how they work together. The firmware enters every hart at \<open>boot\<close> (kernel/boot/boot.c).
  The first hart becomes the primary one: it builds the kernel's page table and reads the device tree that the firmware
  hands over, starts the other harts, creates the example processes and jumps into the first of them; a hart that
  comes second only joins (kernel/boot/kernel.c). From there on the kernel runs in traps: the vector saves the
  registers in the hart's scratch, \<open>handle_trap\<close> ends processes that fault, serves system calls and interrupts,
  and \<open>kernel_switch\<close> puts the running process back and chooses the next one (kernel/trap, kernel/process). All output
  of the kernel and of the programs is the \<open>printf\<close> of libc/stdio.c over \<open>fputc\<close>, which appends to the line buffer of
  the process or hart and at a newline puts the line on the console through the firmware.

  The modelled build is the default one: 64 bits, every debug flag off, at most 32 processes and 9 harts, \<open>char\<close>
  unsigned as on RISC-V (\<open>Prelude\<close>). Words have the width of the code's types and wrap as they do.

  \<^bold>\<open>How code becomes definitions.\<close> A function of the program is a definition of the same name, on the state it
  touches: bytes and words for libc, a memory with the free pages (\<open>VM\<close>) for the page tables, the record \<open>kernel\<close> for
  everything else, with the hart that runs the code as an argument. A panic, a null pointer, an access outside an object,
  a failed assertion and a wait that never ends are values of \<open>error\<close>. What is outside the program is an argument:
  the linker's addresses (\<open>Sections\<close>, \<open>Symbols\<close>, \<open>Image\<close>), the answers of the firmware and the devices, the bytes of
  the device tree, the table of tests that a script generates. What the kernel does to firmware and devices is a trace
  in the state (\<open>sbi\<close>, \<open>mmio\<close>).

  \<^bold>\<open>The theories, by the part of the source they model.\<close>

  \<^item> libc: \<open>Libc_Headers\<close> (stdint.h: the types and limits, and that they are those of the model's words), \<open>Libc_String\<close> (string.c), \<open>Libc_Stdlib\<close> (stdlib.c), \<open>Libc_Stdio\<close> (stdio.c). \<open>Stdio_Text\<close> and \<open>Stdio_Spec\<close>
    give a format string its meaning as a list of directives and show that the loop of \<open>PrintTarget_do_print\<close> prints
    it, into an array, a bounded array or a stream. \<open>Stdio_Print\<close> holds the interface \<open>output_stream\<close> that a stream's \<open>fputc\<close> has
    to meet and what the \<open>printf\<close> family does with it; it is instantiated by the kernel's \<open>fputc\<close> with traps on
    (\<open>Kernel_IO\<close>), in the handler (\<open>Trap_Spec\<close>) and while booting (\<open>Boot_Output\<close>), and by the user library's
    (\<open>User_Library\<close>). \<open>Format_Check\<close> is a checker of calls of \<open>printf\<close>: what passes cannot fail.
  \<^item> common/: \<open>Common\<close> (bits.h, endian.h, align.h, util.h).
  \<^item> virtual memory (kernel/virtual\_memory, kernel/sections.c): \<open>Virtual_Memory\<close> has the code. \<open>Page_Words\<close> and \<open>Page_Table\<close>
    read the tables of a root as a tree and state the invariant \<open>vm_ok\<close>: trees of different roots share no page, all lie
    in the allocated part of the pages section. \<open>Address_Space\<close> shows that mapping one address is an update of the
    abstract map of its root; \<open>Map_Section\<close> has the interface \<open>page_mapper\<close> of that, for whole sections;
    \<open>Address_Init\<close> and \<open>Kernel_Space\<close> the two address spaces that are built from it; \<open>Translation\<close> the walk of the
    hardware as a reference definition.
  \<^item> state of the kernel: \<open>Kernel_State\<close> (hart.c, csr.c, lock.c, trap/frame.h, process/process.h), \<open>Kernel_Buffer\<close> (sbi.c,
    buffer.c), \<open>Devices\<close> (kernel/device but the UART and the tree), \<open>Serial\<close> (sifive\_uart.c), \<open>Kernel_Lock\<close> (locks as
    one hart sees them), \<open>Lock_Protocol\<close> (the same lock as a step relation over all harts), \<open>Kernel_IO\<close> (io.c, file.c).
  \<^item> processes: \<open>Process_Switch\<close> (process.c, switch.c, timer.c) and \<open>Process_Lifecycle\<close> (lifecycle.c, exits.c) have the
    code; \<open>Scheduler\<close> the abstract machine of who runs what, and its invariant; \<open>Switch_Spec\<close> and \<open>Lifecycle_Spec\<close> that
    switching, creating and destroying are steps of it.
  \<^item> traps: \<open>Trap_Routines\<close> (routines.c and boot.c, as instructions that are run), \<open>Trap_Handler\<close> (handler.c, scause.c,
    frame.c, syscall.c), \<open>Hart_Frame\<close> (what each operation of one hart leaves to the others), \<open>Trap_Spec\<close> (what the
    handler does to the kernel), \<open>Trap_Effect\<close> (what it does to the process that trapped, for every cause: new registers,
    or its end), \<open>Trap_Cycle\<close> (a whole trap, as the interrupted process sees it).
  \<^item> device tree (device\_tree.c, list.c): \<open>Device_Tree\<close> has the code; \<open>Device_Tree_Encode\<close> the flattened format;
    \<open>Device_Tree_Links\<close> the interface \<open>linked_list\<close> of list.c with its two instances; \<open>Device_Tree_Spec\<close> that parsing a
    flattened tree gives the tree; \<open>Device_Tree_Search\<close> the searches; \<open>Device_Tree_Total\<close> that the parser ends on all
    bytes, with well-formed lists, and where it fails; \<open>Device_Tree_Print\<close> its printer.
  \<^item> boot and stop: \<open>Boot\<close> (boot/kernel.c, exit.c, panic.c, the creation of the example processes), \<open>Boot_Output\<close> (what
    they print and ask of the firmware), \<open>Boot_Spec\<close> (the memory and the processes they leave), \<open>Kernel_Boot\<close> (the whole
    way from the reset to the first process).
  \<^item> the parts put together: \<open>Virtual_Cpu\<close> (the registers, program counter and address space that a process has, be
    they in its hart or in its slot), \<open>Kernel_System\<close> (all harts as a step relation over the definitions above, its
    invariant \<open>system_ok\<close>, and its refinement to one processor per process), \<open>User_Memory\<close> (where the stores of user programs
    go, and that they leave the page tables alone), \<open>System_Boot\<close> (that the boot establishes
    the invariant, and what holds from the reset through any run), \<open>Last_Program\<close> (what the mapping of one page too many
    means in the layout of the linker script).
  \<^item> the rest of the kernel: \<open>Printers\<close> and \<open>Printers_Spec\<close> (the functions that only print, as sequences of calls),
    \<open>Example_Processes\<close> (the bodies of the example processes), \<open>Debug\<close> (debug.c), \<open>Build_Options\<close> (\<open>assert\<close>,
    the ends of the main functions without processes, and printers that other builds call), \<open>Kernel_Tests\<close> (test.h, test.c and
    the tests of libc\_tests).
  \<^item> user side: \<open>User_Library\<close> (userlib/, user/first.c), against the kernel's own \<open>handle_syscall\<close>; the second program is an
    event of \<open>Kernel_System\<close>.

  \<^bold>\<open>What the theorems show.\<close> From the reset, through any run of the harts in which the programs
  store to their own sections, a user program runs in user mode and reaches the pages of its section and no others
  (\<open>user_programs_confined\<close>), save the page after a section that ends with a page. In the layout of the
  linker script that page is, for the last program, the root of the kernel's page table, and a single store there
  gives the kernel any entry (\<open>last_program_reaches_kernel_table\<close>). Each process sees a processor of its
  own, which only its own steps change (\<open>processes_have_own_cpus\<close>). The address spaces isolate user
  programs, and building one leaves the others alone; the kernel's is the identity. The lock excludes if the variable
  that the loop tests before it is assigned does not happen to be zero, and only then. The scheduler never runs a
  process on two harts, starves none that can run, and gives a process its registers back; a process that is preempted
  does not notice, except that a user process skips an instruction. Printing is exact for every well-formed format,
  from the digits of a number to the console. A parsed device tree is the tree that was flattened, on any input the
  parser ends, and what the searches and the printer give is what the tree says. Booting ends in the first process
  with everything in place. A user program's output reaches the console in order, and its exit frees its slot.

  \<^bold>\<open>Fuel, and loops that may not end.\<close> The parser of the device tree recurses with fuel \<open>length blob + 2\<close>: every round
  and every descent consumes a token of four bytes, and \<open>DeviceTree_parse_ends\<close> shows that it never runs out. The printer has
  \<open>2 * NUM_DEVICE_TREE_NODES + 1\<close>: a node takes two, and an array of that size holds all nodes. The searches, which follow
  links, and the loops that wait for a device or a lock are partial functions into \<open>option\<close> or give the error \<open>Hangs\<close>; that they
  come back is part of the theorems about them.

  \<^bold>\<open>What is not modelled.\<close> What the headers of libc take from the compiler (variable arguments,
  booleans, \<open>offsetof\<close>); the macros of the assembler and the compiler in common/asm.h and common/util.h;
  the branches of debug flags inside other functions, which are off (debug.c itself is in \<open>Debug\<close>). Harts
  interleave in \<open>Lock_Protocol\<close>, \<open>Scheduler\<close> and \<open>Kernel_System\<close>; the code
  between two locks runs as one hart sees it. In \<open>Kernel_System\<close> the handler of a trap is one step, since
  \<open>handle_trap\<close> holds \<open>trap_print_lock\<close> from its first line to its last one, and the
  instructions before and after it touch nothing but the hart's own registers and scratch; the exit of a kernel process and the entry of a hart that has none (from \<open>jump_into_processes\<close> on) are one step as
  well. A process computes by having other registers and another program counter, which covers what it loads; the
  stores of user programs are steps of their own, through the page tables as they are at that time, and change the
  memory that holds those. The stores of kernel processes are not modelled: they share the kernel's address space, and
  that they keep to their own data is an assumption. What the kernel does not survive, such as the fault of a kernel
  process, is no step. The memory model is that of one hart: what the fences order is in order.
\<close>

end
